(* ===== verification/Prelude.thy ===== *)
theory Prelude
  imports Complex_Main "HOL-Library.Word"
begin

text \<open>
  Shared vocabulary of the peercast-mi development.

  \<^item> Go's \<^verbatim>\<open>byte\<close>, \<^verbatim>\<open>uint16\<close> and \<^verbatim>\<open>uint32\<close> are words of 8, 16 and 32 bits, so that every
    addition and conversion wraps as it does in the program.  Go's \<^verbatim>\<open>int\<close> (64 bits) is
    \<open>int\<close>, or \<open>nat\<close> for a counter the code only increases.
  \<^item> A Go \<^verbatim>\<open>string\<close> is a byte sequence; it is a \<open>string\<close> here (a list of 8-bit characters).
  \<^item> A \<^verbatim>\<open>time.Time\<close> is its distance in nanoseconds from Go's zero time, so the zero value of
    the type is \<open>0\<close> and \<^verbatim>\<open>IsZero\<close> is \<open>t = 0\<close>.  The clock is an argument of the
    operations that read it; an operation that reads it several times within one critical
    section reads one instant.
  \<^item> The association of a map that Go iterates in an unspecified order is a finite map and
    results that depend on the order take the order as an argument.
\<close>

type_synonym byte = "8 word"
type_synonym u16 = "16 word"
type_synonym u32 = "32 word"
type_synonym time = int

abbreviation second :: int where "second \<equiv> 1000000000"

named_theorems chan_simps \<open>unfolding rules of the channel operations\<close>
named_theorems wire_simps \<open>unfolding rules of the PCP wire helpers\<close>

section \<open>Words\<close>

lemma unat_bound256: "unat (b :: byte) < 256"
  using unsigned_less [of b, where ?'a = nat] by simp

section \<open>Lists\<close>

definition take_last :: "nat \<Rightarrow> 'a list \<Rightarrow> 'a list" where
  "take_last n xs = drop (length xs - n) xs"

lemma length_take_last [simp]: "length (take_last n xs) = min n (length xs)"
  by (simp add: take_last_def)

lemma take_last_Nil [simp]: "take_last n [] = []"
  by (simp add: take_last_def)

lemma take_last_all: "length xs \<le> n \<Longrightarrow> take_last n xs = xs"
  by (simp add: take_last_def)

lemma take_last_append_take_last:
  "take_last n (take_last n xs @ ys) = take_last n (xs @ ys)"
proof (cases "length xs \<le> n")
  case True
  then show ?thesis by (simp add: take_last_all)
next
  case False
  then have "min n (length xs) + length ys - n = length ys" by simp
  moreover have "length xs + length ys - n = (length xs - n) + length ys"
    using False by simp
  ultimately show ?thesis
    using False by (simp add: take_last_def add.commute)
qed

lemma set_take_last_subset: "set (take_last n xs) \<subseteq> set xs"
  by (simp add: take_last_def set_drop_subset)

lemma last_take_last: "0 < n \<Longrightarrow> xs \<noteq> [] \<Longrightarrow> last (take_last n xs) = last xs"
  by (simp add: take_last_def)

text \<open>The index loop \<^verbatim>\<open>for i := a; i < b; i++ { if p(i) { return i } }\<close>.\<close>

function find_index :: "(nat \<Rightarrow> bool) \<Rightarrow> nat \<Rightarrow> nat \<Rightarrow> nat option" where
  "find_index p a b = (if a < b then (if p a then Some a else find_index p (Suc a) b) else None)"
  by pat_completeness auto
termination
  by (relation "measure (\<lambda>(p, a, b). b - a)") auto

declare find_index.simps [simp del]

lemma map_find_index:
  "(case find_index (\<lambda>i. p (f i)) a b of None \<Rightarrow> [] | Some i \<Rightarrow> map f [i..<b])
     = dropWhile (\<lambda>x. \<not> p x) (map f [a..<b])"
proof (induction "\<lambda>i. p (f i)" a b rule: find_index.induct)
  case (1 a b)
  show ?case
  proof (cases "a < b")
    case True
    then have "[a..<b] = a # [Suc a..<b]" by (simp add: upt_conv_Cons)
    with True 1 show ?thesis by (simp add: find_index.simps [of _ a b])
  next
    case False
    then show ?thesis by (simp add: find_index.simps [of _ a b])
  qed
qed

lemma find_index_Some: "find_index p a b = Some i \<Longrightarrow> a \<le> i \<and> i < b \<and> p i"
  by (induction p a b rule: find_index.induct) (auto simp: find_index.simps split: if_splits)

lemma find_index_None: "find_index p a b = None \<Longrightarrow> a \<le> i \<Longrightarrow> i < b \<Longrightarrow> \<not> p i"
proof (induction p a b rule: find_index.induct)
  case (1 p a b)
  then show ?case by (cases "i = a") (auto simp: find_index.simps [of p a b] split: if_splits)
qed

lemma find_index_first: "find_index p a b = Some i \<Longrightarrow> a \<le> j \<Longrightarrow> j < i \<Longrightarrow> \<not> p j"
proof (induction p a b rule: find_index.induct)
  case (1 p a b)
  then show ?case by (cases "j = a") (auto simp: find_index.simps [of p a b] split: if_splits)
qed

lemma set_map_filter: "y \<in> set (List.map_filter f xs) \<longleftrightarrow> (\<exists>x \<in> set xs. f x = Some y)"
  by (force simp: List.map_filter_def)

section \<open>Association lists in insertion order\<close>

lemma filter_eq_self: "(\<And>x. x \<in> set xs \<Longrightarrow> P x) \<Longrightarrow> filter P xs = xs"
  by (simp add: filter_id_conv)

lemma sum_list_map_remove1_nat:
  "x \<in> set xs \<Longrightarrow> sum_list (map f (remove1 x xs)) + f x = (sum_list (map f xs) :: nat)"
  by (induction xs) auto

lemma length_filter_remove1:
  "x \<in> set xs \<Longrightarrow> length (filter P (remove1 x xs)) = length (filter P xs) - (if P x then 1 else 0)"
proof (induction xs)
  case (Cons y ys)
  show ?case
  proof (cases "x = y")
    case False
    with Cons have "x \<in> set ys" by simp
    moreover have "P x \<Longrightarrow> x \<in> set ys \<Longrightarrow> 0 < length (filter P ys)"
      by (auto simp: filter_empty_conv)
    ultimately show ?thesis using Cons False by auto
  qed simp
qed simp

text \<open>Association lists restricted by their values.\<close>

lemma map_of_filter_snd:
  "distinct (map fst xs) \<Longrightarrow> map_of (filter (\<lambda>e. P (snd e)) xs) c = (case map_of xs c of None \<Rightarrow> None | Some v \<Rightarrow> if P v then Some v else None)"
proof (induction xs)
  case (Cons e xs)
  have "map_of (filter (\<lambda>e. P (snd e)) xs) (fst e) = None"
    using Cons.prems by (auto simp: map_of_eq_None_iff image_iff)
  then show ?case using Cons by (cases e) (auto split: option.splits)
qed simp

lemma distinct_filter_fst: "distinct (map fst xs) \<Longrightarrow> distinct (map fst (filter P xs))"
  by (induction xs) auto

text \<open>The first element with a property.\<close>

lemma find_append: "find Q (xs @ ys) = (case find Q xs of Some x \<Rightarrow> Some x | None \<Rightarrow> find Q ys)"
  by (induction xs) auto

lemma find_found: "find P xs = Some x \<Longrightarrow> x \<in> set xs \<and> P x"
  by (induction xs) (auto split: if_splits)

end
