(* ===== verification/Content_Buffer.thy ===== *)
theory Content_Buffer
  imports Prelude
begin

text \<open>
  \<^verbatim>\<open>internal/channel/content.go\<close>: the stream header and the ring buffer of data packets that
  every output of a channel reads.  The ring, its counter and its modular indexing are
  modelled as they are; \<open>contents\<close> abstracts a buffer to the list of packets it holds, oldest
  first, and the lemmas show that each operation computes on that list what its comment
  promises.  The Go mutex makes each operation atomic.  \<^verbatim>\<open>count\<close> is a \<open>nat\<close>: a 64-bit
  counter of packets does not overflow in the lifetime of a process.
\<close>

definition DefaultContentBufferSize :: nat where
  "DefaultContentBufferSize = 64"

definition pcpPacketSize :: nat where
  "pcpPacketSize = 15 * 1024"

text \<open>
  \<^verbatim>\<open>seconds\<close> is a float64 in the source; here it is a rational, so the division is exact and
  the conversion to int truncates a non-negative quotient.
\<close>

definition ContentBufferSizeForBitrate :: "u32 \<Rightarrow> rat \<Rightarrow> nat" where
  "ContentBufferSizeForBitrate bitrateKbps seconds =
     (if bitrateKbps = 0 \<or> seconds \<le> 0 then DefaultContentBufferSize
      else let bytesPerSec = of_nat (unat bitrateKbps) * 1000 / 8;
               totalBytes = bytesPerSec * seconds;
               packets = nat \<lfloor>totalBytes / of_nat pcpPacketSize\<rfloor> + 1
           in if packets < DefaultContentBufferSize then DefaultContentBufferSize else packets)"

text \<open>\<^verbatim>\<open>int32(a-b) < 0\<close>: the subtraction wraps, the conversion reads two's complement.\<close>

definition PosBefore :: "u32 \<Rightarrow> u32 \<Rightarrow> bool" where
  "PosBefore a b \<longleftrightarrow> sint (a - b) < 0"

record Content =
  Pos :: u32
  Data :: "byte list"
  ContFlags :: byte
  Timestamp :: time

definition zeroContent :: Content where
  "zeroContent = \<lparr>Pos = 0, Data = [], ContFlags = 0, Timestamp = 0\<rparr>"

text \<open>
  \<open>header = None\<close> is Go's nil slice, \<open>packets = []\<close> the nil slice of packets.  \<open>sigCh\<close> counts
  the signal channels made so far: the channel of generation \<open>g\<close> is closed once
  \<open>g < sigCh\<close>.
\<close>

record ContentBuffer =
  header :: "byte list option"
  headerPos :: u32
  packets :: "Content list"
  count :: nat
  sigCh :: nat

definition NewContentBuffer :: "int \<Rightarrow> ContentBuffer" where
  "NewContentBuffer sz =
     (let n = (if sz \<le> 0 then DefaultContentBufferSize else nat sz)
      in \<lparr>header = None, headerPos = 0, packets = replicate n zeroContent, count = 0, sigCh = 0\<rparr>)"

definition Signal :: "ContentBuffer \<Rightarrow> nat" where
  "Signal b = sigCh b"

definition signalled :: "ContentBuffer \<Rightarrow> nat \<Rightarrow> bool" where
  "signalled b g \<longleftrightarrow> g < sigCh b"

definition notifyWrite :: "ContentBuffer \<Rightarrow> ContentBuffer" where
  "notifyWrite b = b\<lparr>sigCh := Suc (sigCh b)\<rparr>"

definition header_bytes :: "ContentBuffer \<Rightarrow> byte list" where
  "header_bytes b = (case header b of None \<Rightarrow> [] | Some h \<Rightarrow> h)"

definition SetHeader :: "ContentBuffer \<Rightarrow> byte list \<Rightarrow> u32 \<Rightarrow> ContentBuffer \<times> bool" where
  "SetHeader b data pos =
     (if headerPos b = pos \<and> header_bytes b = data then (b, False)
      else (b\<lparr>count := 0, headerPos := pos, header := Some data\<rparr>, True))"

definition Write :: "time \<Rightarrow> ContentBuffer \<Rightarrow> byte list \<Rightarrow> u32 \<Rightarrow> byte \<Rightarrow> ContentBuffer" where
  "Write now b data pos contFlags =
     (let ps = (if packets b = [] then replicate DefaultContentBufferSize zeroContent else packets b);
          p = \<lparr>Pos = pos, Data = data, ContFlags = contFlags, Timestamp = now\<rparr>
      in notifyWrite (b\<lparr>packets := ps[count b mod length ps := p], count := Suc (count b)\<rparr>))"

definition Header :: "ContentBuffer \<Rightarrow> byte list \<times> u32" where
  "Header b = (header_bytes b, headerPos b)"

definition ring :: "ContentBuffer \<Rightarrow> nat \<Rightarrow> Content" where
  "ring b i = packets b ! (i mod length (packets b))"

definition OldestPos :: "ContentBuffer \<Rightarrow> u32" where
  "OldestPos b =
     (if count b = 0 then 0
      else if count b \<le> length (packets b) then Pos (packets b ! 0)
      else Pos (ring b (count b)))"

definition NewestPos :: "ContentBuffer \<Rightarrow> u32" where
  "NewestPos b = (if count b = 0 then 0 else Pos (ring b (count b - 1)))"

definition ring_start :: "ContentBuffer \<Rightarrow> nat" where
  "ring_start b = (if count b > length (packets b) then count b - length (packets b) else 0)"

definition collect_from :: "ContentBuffer \<Rightarrow> (Content \<Rightarrow> bool) \<Rightarrow> Content list" where
  "collect_from b wanted =
     (if count b = 0 then []
      else case find_index (\<lambda>i. wanted (ring b i)) (ring_start b) (count b) of
             None \<Rightarrow> []
           | Some firstIdx \<Rightarrow> map (ring b) [firstIdx..<count b])"

definition Since :: "ContentBuffer \<Rightarrow> u32 \<Rightarrow> Content list" where
  "Since b pos = collect_from b (\<lambda>p. \<not> PosBefore (Pos p) pos)"

definition newer_than :: "Content \<Rightarrow> Content \<Rightarrow> bool" where
  "newer_than ref p \<longleftrightarrow>
     Timestamp ref = 0 \<or> Timestamp ref < Timestamp p \<or>
     (Timestamp p = Timestamp ref \<and> PosBefore (Pos ref) (Pos p))"

definition PacketsAfter :: "ContentBuffer \<Rightarrow> Content \<Rightarrow> Content list" where
  "PacketsAfter b ref = collect_from b (newer_than ref)"

definition ContentPosition :: "ContentBuffer \<Rightarrow> u32" where
  "ContentPosition b =
     (case header b of
        None \<Rightarrow> 0
      | Some h \<Rightarrow>
          if count b = 0 then headerPos b + of_nat (length h)
          else let newest = ring b (count b - 1) in Pos newest + of_nat (length (Data newest)))"

definition HasData :: "ContentBuffer \<Rightarrow> bool" where
  "HasData b \<longleftrightarrow> count b > 0"

section \<open>The abstraction: the packets held, oldest first\<close>

definition contents :: "ContentBuffer \<Rightarrow> Content list" where
  "contents b = map (ring b) [ring_start b..<count b]"

definition capacity :: "ContentBuffer \<Rightarrow> nat" where
  "capacity b = (if packets b = [] then DefaultContentBufferSize else length (packets b))"

text \<open>A nil packet slice (a zero-valued buffer) has had no write.\<close>

definition buf_inv :: "ContentBuffer \<Rightarrow> bool" where
  "buf_inv b \<longleftrightarrow> (packets b = [] \<longrightarrow> count b = 0)"

lemma capacity_pos [simp]: "0 < capacity b"
  by (simp add: capacity_def DefaultContentBufferSize_def)

lemma buf_inv_New [simp]: "buf_inv (NewContentBuffer n)"
  by (auto simp: buf_inv_def NewContentBuffer_def Let_def)

lemma buf_inv_SetHeader [simp]: "buf_inv b \<Longrightarrow> buf_inv (fst (SetHeader b d p))"
  by (auto simp: buf_inv_def SetHeader_def)

lemma buf_inv_Write [simp]: "buf_inv (Write now b d p f)"
  by (auto simp: buf_inv_def Write_def notifyWrite_def Let_def DefaultContentBufferSize_def)

lemma capacity_New [simp]: "capacity (NewContentBuffer n) = (if n \<le> 0 then 64 else nat n)"
  by (auto simp: capacity_def NewContentBuffer_def Let_def DefaultContentBufferSize_def)

lemma capacity_SetHeader [simp]: "capacity (fst (SetHeader b d p)) = capacity b"
  by (simp add: capacity_def SetHeader_def)

lemma capacity_Write [simp]: "capacity (Write now b d p f) = capacity b"
  by (auto simp: capacity_def Write_def notifyWrite_def Let_def DefaultContentBufferSize_def)

lemma contents_New [simp]: "contents (NewContentBuffer n) = []"
  by (simp add: contents_def NewContentBuffer_def Let_def)

lemma length_contents: "buf_inv b \<Longrightarrow> length (contents b) = min (capacity b) (count b)"
  by (auto simp: contents_def ring_start_def capacity_def buf_inv_def)

lemma contents_empty_iff: "buf_inv b \<Longrightarrow> contents b = [] \<longleftrightarrow> count b = 0"
  by (metis capacity_pos length_contents length_greater_0_conv less_numeral_extra(3) min_less_iff_conj neq0_conv)

lemma collect_from_contents: "collect_from b w = dropWhile (\<lambda>p. \<not> w p) (contents b)"
  using map_find_index [where p = w and f = "ring b" and a = "ring_start b" and b = "count b"]
  by (simp add: collect_from_def contents_def)

lemma contents_Write:
  assumes "buf_inv b"
  shows "contents (Write now b d p f)
       = take_last (capacity b) (contents b @ [\<lparr>Pos = p, Data = d, ContFlags = f, Timestamp = now\<rparr>])"
    (is "_ = take_last _ (_ @ [?p])")
proof -
  let ?n = "capacity b" and ?c = "count b" and ?b' = "Write now b d p f"
  define ps where "ps = (if packets b = [] then replicate DefaultContentBufferSize zeroContent else packets b)"
  have len: "length ps = ?n" "0 < ?n"
    by (auto simp: ps_def capacity_def DefaultContentBufferSize_def)
  have ps': "packets ?b' = ps[?c mod ?n := ?p]" and c': "count ?b' = Suc ?c"
    using len(1) by (simp_all add: Write_def notifyWrite_def Let_def ps_def [symmetric])
  have new: "ring ?b' ?c = ?p"
    using len by (simp add: ring_def ps' nth_list_update)
  have old: "ring ?b' i = ring b i" if "i < ?c" "?c < i + ?n" for i
  proof -
    have "i mod ?n \<noteq> ?c mod ?n"
    proof
      assume "i mod ?n = ?c mod ?n"
      with that(1) have "?n dvd ?c - i" by (metis mod_eq_dvd_iff_nat less_imp_le)
      moreover have "0 < ?c - i" "?c - i < ?n" using that by auto
      ultimately show False by (auto dest: dvd_imp_le)
    qed
    moreover from that assms have "packets b \<noteq> []" by (auto simp: buf_inv_def)
    ultimately show ?thesis using len by (simp add: ring_def ps' ps_def nth_list_update)
  qed
  show ?thesis
  proof (cases "?c < ?n")
    case True
    have s': "ring_start ?b' = 0"
      using True len by (simp add: ring_start_def ps' c')
    have "ring_start b = 0"
      using True assms by (auto simp: ring_start_def capacity_def buf_inv_def split: if_splits)
    then have cb: "contents b = map (ring b) [0..<?c]" by (simp add: contents_def)
    have "contents ?b' = map (ring ?b') [0..<?c] @ [?p]"
      by (simp add: contents_def s' c' new)
    also have "map (ring ?b') [0..<?c] = contents b"
      using True by (auto simp: cb old)
    finally show ?thesis
      using True assms by (simp add: take_last_all length_contents)
  next
    case False
    with assms len have ne: "packets b \<noteq> []" by (auto simp: buf_inv_def)
    have s': "ring_start ?b' = Suc ?c - ?n"
      using False len by (simp add: ring_start_def ps' c')
    have s: "ring_start b = ?c - ?n"
      using False ne by (auto simp: ring_start_def capacity_def)
    have l: "length (contents b) = ?n" using False assms by (simp add: length_contents)
    have "Suc ?c - ?n \<le> ?c" using len(2) by linarith
    then have "contents ?b' = map (ring ?b') [Suc ?c - ?n..<?c] @ [?p]"
      by (simp add: contents_def s' c' new)
    also have "map (ring ?b') [Suc ?c - ?n..<?c] = map (ring b) [Suc ?c - ?n..<?c]"
      using False by (auto intro!: old)
    also have "\<dots> = drop 1 (contents b)"
      using False len by (simp add: contents_def s drop_map Suc_diff_le)
    finally have eq: "contents ?b' = drop 1 (contents b) @ [?p]" .
    have "Suc 0 - ?n = 0" using len(2) by linarith
    with eq l show ?thesis by (simp add: take_last_def)
  qed
qed

lemma header_Write [simp]:
  "header (Write now b d p f) = header b" "headerPos (Write now b d p f) = headerPos b"
  "sigCh (Write now b d p f) = Suc (sigCh b)" "count (Write now b d p f) = Suc (count b)"
  by (simp_all add: Write_def notifyWrite_def Let_def)

lemma contents_SetHeader:
  "contents (fst (SetHeader b d p)) = (if snd (SetHeader b d p) then [] else contents b)"
  by (auto simp: SetHeader_def contents_def)

lemma Since_contents: "Since b pos = dropWhile (\<lambda>p. PosBefore (Pos p) pos) (contents b)"
  by (simp add: Since_def collect_from_contents)

lemma PacketsAfter_contents: "PacketsAfter b ref = dropWhile (\<lambda>p. \<not> newer_than ref p) (contents b)"
  by (simp add: PacketsAfter_def collect_from_contents)

section \<open>The order of stream positions\<close>

lemma sint_of_nat_u32: "k < 2 ^ 31 \<Longrightarrow> sint (of_nat k :: u32) = int k"
  using sint_sbintrunc' [where 'a = 32, of "int k"]
  by (simp add: signed_take_bit_int_eq_self)

lemma sint_minus_of_nat_u32: "k < 2 ^ 31 \<Longrightarrow> sint (- of_nat k :: u32) = - int k"
  using sint_sbintrunc' [where 'a = 32, of "- int k"]
  by (simp add: signed_take_bit_int_eq_self)

lemma PosBefore_refl [simp]: "\<not> PosBefore a a"
  by (simp add: PosBefore_def)

lemma PosBefore_ahead: "0 < k \<Longrightarrow> k < 2 ^ 31 \<Longrightarrow> PosBefore a (a + of_nat k)"
  by (simp add: PosBefore_def sint_minus_of_nat_u32)

lemma not_PosBefore_behind: "k < 2 ^ 31 \<Longrightarrow> \<not> PosBefore (a + of_nat k) a"
  by (simp add: PosBefore_def sint_of_nat_u32)

definition end_pos :: "Content \<Rightarrow> u32" where
  "end_pos p = Pos p + of_nat (length (Data p))"

fun contiguous :: "Content list \<Rightarrow> bool" where
  "contiguous (p # q # ps) \<longleftrightarrow> Pos q = end_pos p \<and> contiguous (q # ps)"
| "contiguous _ \<longleftrightarrow> True"

definition total_bytes :: "Content list \<Rightarrow> nat" where
  "total_bytes ps = sum_list (map (\<lambda>p. length (Data p)) ps)"

lemma total_bytes_simps [simp]:
  "total_bytes [] = 0" "total_bytes (p # ps) = length (Data p) + total_bytes ps"
  "total_bytes (ps @ qs) = total_bytes ps + total_bytes qs"
  by (simp_all add: total_bytes_def)

lemma contiguous_append:
  "contiguous (xs @ ys) \<longleftrightarrow>
     contiguous xs \<and> contiguous ys \<and> (xs \<noteq> [] \<and> ys \<noteq> [] \<longrightarrow> Pos (hd ys) = end_pos (last xs))"
proof (induction xs)
  case (Cons p xs)
  then show ?case by (cases xs; cases ys) auto
qed simp

lemma contiguous_end:
  "contiguous (p # ps) \<Longrightarrow> end_pos (last (p # ps)) = Pos p + of_nat (total_bytes (p # ps))"
proof (induction ps arbitrary: p)
  case Nil
  then show ?case by (simp add: end_pos_def)
next
  case (Cons q ps)
  then have "end_pos (last (q # ps)) = Pos q + of_nat (total_bytes (q # ps))" "Pos q = end_pos p"
    by auto
  then show ?case by (simp add: end_pos_def add.assoc)
qed

lemma contiguous_before_end:
  assumes "contiguous xs" "total_bytes xs < 2 ^ 31" "p \<in> set xs" "Data p \<noteq> []"
  shows "PosBefore (Pos p) (end_pos (last xs))"
proof -
  from assms(3) obtain us vs where xs: "xs = us @ p # vs" by (auto simp: in_set_conv_decomp)
  with assms(1) have "contiguous (p # vs)" by (simp add: contiguous_append)
  from contiguous_end [OF this] xs
  have "end_pos (last xs) = Pos p + of_nat (total_bytes (p # vs))" by simp
  moreover have "0 < total_bytes (p # vs)" "total_bytes (p # vs) < 2 ^ 31"
    using assms(2,4) xs by auto
  ultimately show ?thesis using PosBefore_ahead by metis
qed

lemma dropWhile_contiguous:
  assumes "contiguous (xs @ ys)" "xs \<noteq> []" "total_bytes xs < 2 ^ 31"
    and "\<forall>p \<in> set xs. Data p \<noteq> []"
  shows "dropWhile (\<lambda>p. PosBefore (Pos p) (end_pos (last xs))) (xs @ ys) = ys"
proof -
  have "\<forall>p \<in> set xs. PosBefore (Pos p) (end_pos (last xs))"
    using assms by (auto simp: contiguous_append intro!: contiguous_before_end)
  then have "dropWhile (\<lambda>p. PosBefore (Pos p) (end_pos (last xs))) (xs @ ys)
           = dropWhile (\<lambda>p. PosBefore (Pos p) (end_pos (last xs))) ys"
    by (induction xs) auto
  also have "\<dots> = ys"
    using assms(1,2) by (cases ys) (auto simp: contiguous_append)
  finally show ?thesis .
qed

section \<open>The interface the outputs read through\<close>

text \<open>
  What a reader of the buffer relies on: a write appends to the window and drops the oldest
  packets beyond the capacity, and a read returns the window from a position on.
\<close>

locale packet_window =
  fixes window :: "'b \<Rightarrow> Content list"
    and put :: "'b \<Rightarrow> Content \<Rightarrow> 'b"
    and since :: "'b \<Rightarrow> u32 \<Rightarrow> Content list"
    and cap :: "'b \<Rightarrow> nat"
    and invar :: "'b \<Rightarrow> bool"
  assumes window_write: "invar b \<Longrightarrow> window (put b p) = take_last (cap b) (window b @ [p])"
    and cap_write: "invar b \<Longrightarrow> cap (put b p) = cap b"
    and invar_write: "invar b \<Longrightarrow> invar (put b p)"
    and window_bound: "invar b \<Longrightarrow> length (window b) \<le> cap b"
    and since_window: "since b pos = dropWhile (\<lambda>p. PosBefore (Pos p) pos) (window b)"
begin

lemma invar_writes: "invar b \<Longrightarrow> invar (foldl put b ps)"
  by (induction ps arbitrary: b) (auto simp: invar_write)

lemma cap_writes: "invar b \<Longrightarrow> cap (foldl put b ps) = cap b"
  by (induction ps arbitrary: b) (auto simp: invar_write cap_write)

lemma window_writes:
  "invar b \<Longrightarrow> window (foldl put b ps) = take_last (cap b) (window b @ ps)"
proof (induction ps arbitrary: b)
  case Nil
  then show ?case by (simp add: take_last_all window_bound)
next
  case (Cons p ps)
  then show ?case
    by (simp add: invar_write cap_write window_write take_last_append_take_last)
qed

text \<open>
  A reader that has consumed the window up to some packet finds, at that packet's end
  position, exactly the rest of the window followed by what was written since.
\<close>

lemma reader_resumes:
  assumes "invar b" "window b = xs @ ys" "xs \<noteq> []"
    and "length (window b) + length ps \<le> cap b"
    and "contiguous (window b @ ps)" "total_bytes xs < 2 ^ 31" "\<forall>p \<in> set xs. Data p \<noteq> []"
  shows "since (foldl put b ps) (end_pos (last xs)) = ys @ ps"
proof -
  have "window (foldl put b ps) = xs @ (ys @ ps)"
    using assms(1,2,4) by (simp add: window_writes take_last_all)
  then show ?thesis
    using assms by (simp add: since_window dropWhile_contiguous)
qed

end

definition write_content :: "ContentBuffer \<Rightarrow> Content \<Rightarrow> ContentBuffer" where
  "write_content b p = Write (Timestamp p) b (Data p) (Pos p) (ContFlags p)"

interpretation ringbuf: packet_window contents write_content Since capacity buf_inv
proof unfold_locales
  fix b p
  assume "buf_inv b"
  then show "contents (write_content b p) = take_last (capacity b) (contents b @ [p])"
    by (cases p) (simp add: write_content_def contents_Write)
qed (auto simp: write_content_def length_contents Since_contents)

section \<open>Properties\<close>

text \<open>
  C9.  Any sequence of writes into a fresh buffer of the given size leaves exactly the most
  recent packets, in the order written, as many as the ring holds: the modular ring implements
  a bounded queue that drops its oldest entries.
\<close>

theorem ring_keeps_latest:
  "contents (foldl write_content (NewContentBuffer n) ps)
     = take_last (if n \<le> 0 then 64 else nat n) ps"
  using ringbuf.window_writes [OF buf_inv_New, of n ps] by simp

text \<open>
  C1.  A reader never loses or repeats data across reads.  If packets are contiguous in the
  32-bit position space (each starts where the previous one ends, wrapping at \<open>2\<^sup>32\<close>), a
  reader that has taken the prefix \<open>xs\<close> of the buffered packets and asks again from the
  end of the last of them, after further packets \<open>ps\<close> were written without overflowing the
  ring, gets exactly the packets it has not seen.
\<close>

theorem Since_resumes_without_loss:
  assumes "buf_inv b" "contents b = xs @ ys" "xs \<noteq> []"
    and "length (contents b) + length ps \<le> capacity b"
    and "contiguous (contents b @ ps)" "total_bytes xs < 2 ^ 31" "\<forall>p \<in> set xs. Data p \<noteq> []"
  shows "Since (foldl write_content b ps) (end_pos (last xs)) = ys @ ps"
  using assms by (rule ringbuf.reader_resumes)

definition wrap_demo :: "Content list" where
  "wrap_demo =
     [\<lparr>Pos = 0xFFFFFFFE, Data = [1, 2, 3], ContFlags = 0, Timestamp = 5\<rparr>,
      \<lparr>Pos = 1, Data = [4], ContFlags = 2, Timestamp = 6\<rparr>,
      \<lparr>Pos = 2, Data = [5, 6], ContFlags = 2, Timestamp = 7\<rparr>]"

theorem Since_resumes_witness:
  "Since (foldl write_content (foldl write_content (NewContentBuffer 3) (take 2 wrap_demo)) (drop 2 wrap_demo))
     (end_pos (wrap_demo ! 0)) = drop 1 wrap_demo \<and> end_pos (wrap_demo ! 0) = 1"
proof -
  let ?b = "foldl write_content (NewContentBuffer 3) (take 2 wrap_demo)"
  have c: "contents ?b = take 2 wrap_demo"
    using ringbuf.window_writes [OF buf_inv_New, of 3 "take 2 wrap_demo"]
    by (simp add: wrap_demo_def take_last_def)
  have k: "capacity ?b = 3"
    using ringbuf.cap_writes [OF buf_inv_New, of 3 "take 2 wrap_demo"] by simp
  show ?thesis
    using Since_resumes_without_loss [of ?b "[wrap_demo ! 0]" "[wrap_demo ! 1]" "drop 2 wrap_demo"]
      ringbuf.invar_writes [OF buf_inv_New, of 3 "take 2 wrap_demo"] c k
    by (simp add: wrap_demo_def end_pos_def)
qed

text \<open>
  No wake-up is lost: the signal channel a reader takes before reading is still open, and it
  is closed by the next write, whatever the reader found in between.
\<close>

theorem no_lost_wakeup:
  "\<not> signalled b (Signal b) \<and> (signalled (foldl write_content b ps) (Signal b) \<longleftrightarrow> ps \<noteq> [])"
proof -
  have "sigCh (foldl write_content b ps) = sigCh b + length ps"
    by (induction ps arbitrary: b) (auto simp: write_content_def)
  then show ?thesis by (auto simp: signalled_def Signal_def)
qed

text \<open>
  The ring of a channel never holds fewer than 64 packets, and for a positive bitrate and
  duration it has room for all bytes of that duration at that bitrate in packets of 15 KiB.
\<close>

theorem ContentBufferSize_covers:
  "64 \<le> ContentBufferSizeForBitrate kbps secs \<and>
   (kbps \<noteq> 0 \<and> 0 < secs \<longrightarrow>
      of_nat (unat kbps) * 1000 / 8 * secs
        \<le> (of_nat (ContentBufferSizeForBitrate kbps secs * pcpPacketSize) :: rat))"
proof -
  define x :: rat where "x = of_nat (unat kbps) * 1000 / 8 * secs"
  define n where "n = nat \<lfloor>x / of_nat pcpPacketSize\<rfloor> + 1"
  have size: "ContentBufferSizeForBitrate kbps secs = (if kbps = 0 \<or> secs \<le> 0 then 64 else max 64 n)"
    by (simp add: ContentBufferSizeForBitrate_def DefaultContentBufferSize_def x_def n_def Let_def max_def)
  have "x \<le> of_nat (max 64 n * pcpPacketSize)" if "0 < secs"
  proof -
    have "0 \<le> x" unfolding x_def using that
      by (intro mult_nonneg_nonneg divide_nonneg_pos of_nat_0_le_iff) simp_all
    have "x / of_nat pcpPacketSize \<le> of_int (\<lfloor>x / of_nat pcpPacketSize\<rfloor> + 1)"
      by linarith
    also have "\<dots> = of_nat n"
      using \<open>0 \<le> x\<close> by (simp add: n_def pcpPacketSize_def)
    also have "\<dots> \<le> of_nat (max 64 n)" by simp
    finally show ?thesis by (simp add: pcpPacketSize_def field_simps)
  qed
  then show ?thesis by (auto simp: size x_def)
qed

theorem ContentBufferSize_covers_witness:
  "(5000 :: rat) * 1000 / 8 * 8 \<le> of_nat (ContentBufferSizeForBitrate 5000 8 * pcpPacketSize)"
  using ContentBufferSize_covers [of 5000 8] by simp

text \<open>
  The position accessors agree with the packets held: the oldest and newest positions are
  those of the first and last packet, and the content position is the end of the last one.
\<close>

theorem positions_of_contents:
  assumes "buf_inv b" "HasData b"
  shows "OldestPos b = Pos (hd (contents b)) \<and> NewestPos b = Pos (last (contents b)) \<and>
    (header b \<noteq> None \<longrightarrow> ContentPosition b = end_pos (last (contents b)))"
proof (intro conjI impI)
  from assms have c: "0 < count b" and ne: "packets b \<noteq> []"
    by (auto simp: HasData_def buf_inv_def)
  have s: "ring_start b < count b"
    using c ne by (auto simp: ring_start_def)
  then have l: "last (contents b) = ring b (count b - 1)" and h: "hd (contents b) = ring b (ring_start b)"
    by (simp_all add: contents_def last_map hd_map)
  have "ring b (ring_start b) = ring b (count b)" if "length (packets b) < count b"
    using that by (simp add: ring_start_def ring_def le_mod_geq [of "length (packets b)" "count b"])
  then show "OldestPos b = Pos (hd (contents b))"
    using c by (auto simp: OldestPos_def h ring_start_def ring_def)
  show "NewestPos b = Pos (last (contents b))"
    using c by (simp add: NewestPos_def l)
  assume "header b \<noteq> None"
  then show "ContentPosition b = end_pos (last (contents b))"
    using c by (auto simp: ContentPosition_def l end_pos_def Let_def)
qed

theorem positions_of_contents_witness:
  "OldestPos (foldl write_content (NewContentBuffer 2) wrap_demo) = 1"
proof -
  let ?b = "foldl write_content (NewContentBuffer 2) wrap_demo"
  have "buf_inv ?b" by (rule ringbuf.invar_writes) simp
  moreover have "contents ?b = drop 1 wrap_demo"
    using ringbuf.window_writes [OF buf_inv_New, of 2 wrap_demo]
    by (simp add: take_last_def wrap_demo_def)
  moreover from calculation have "HasData ?b"
    by (simp add: HasData_def wrap_demo_def write_content_def)
  ultimately show ?thesis
    using positions_of_contents [of ?b] by (simp add: wrap_demo_def)
qed

text \<open>
  A header that repeats the current one changes nothing; any other header is stored, empties
  the ring and is what readers see from then on.
\<close>

theorem SetHeader_behaviour:
  "SetHeader b data pos =
     (if Header b = (data, pos) then (b, False) else (fst (SetHeader b data pos), True)) \<and>
   (snd (SetHeader b data pos) \<longrightarrow>
      contents (fst (SetHeader b data pos)) = [] \<and>
      ContentPosition (fst (SetHeader b data pos)) = pos + of_nat (length data)) \<and>
   Header (fst (SetHeader b data pos)) = (data, pos)"
  by (auto simp: SetHeader_def Header_def contents_def ContentPosition_def header_bytes_def)

theorem SetHeader_behaviour_witness:
  "snd (SetHeader (foldl write_content (NewContentBuffer 3) wrap_demo) [70, 76, 86] 9) \<and>
   contents (fst (SetHeader (foldl write_content (NewContentBuffer 3) wrap_demo) [70, 76, 86] 9)) = []"
proof -
  have "snd (SetHeader (foldl write_content (NewContentBuffer 3) wrap_demo) [70, 76, 86] 9)"
    by (simp add: wrap_demo_def write_content_def SetHeader_def NewContentBuffer_def header_bytes_def)
  then show ?thesis
    using SetHeader_behaviour [of "foldl write_content (NewContentBuffer 3) wrap_demo" "[70, 76, 86]" 9] by blast
qed

end
