(* ===== verification/Go_Net.thy ===== *)
theory Go_Net
  imports Go_Std
begin

text \<open>Go's \<^verbatim>\<open>net\<close> package: IP values, their classes, parsing, and host:port strings.\<close>

type_synonym ip = "byte list"

definition v4prefix :: "byte list" where
  "v4prefix = replicate 10 0 @ [255, 255]"

definition To4 :: "ip \<Rightarrow> ip" where
  "To4 p = (if length p = 4 then p
            else if length p = 16 \<and> take 12 p = v4prefix then drop 12 p else [])"

definition To16 :: "ip \<Rightarrow> ip" where
  "To16 p = (if length p = 4 then v4prefix @ p else if length p = 16 then p else [])"

definition IsUnspecified :: "ip \<Rightarrow> bool" where
  "IsUnspecified p \<longleftrightarrow> To4 p = [0, 0, 0, 0] \<or> p = replicate 16 0"

definition IsLoopback :: "ip \<Rightarrow> bool" where
  "IsLoopback p \<longleftrightarrow> (if To4 p \<noteq> [] then To4 p ! 0 = 127 else p = replicate 15 0 @ [1])"

definition IsPrivate :: "ip \<Rightarrow> bool" where
  "IsPrivate p \<longleftrightarrow>
     (let v = To4 p in
      if v \<noteq> [] then v ! 0 = 10 \<or> (v ! 0 = 172 \<and> v ! 1 AND 0xf0 = 16) \<or> (v ! 0 = 192 \<and> v ! 1 = 168)
      else length p = 16 \<and> p ! 0 AND 0xfe = 0xfc)"

definition IsMulticast :: "ip \<Rightarrow> bool" where
  "IsMulticast p \<longleftrightarrow>
     (if To4 p \<noteq> [] then To4 p ! 0 AND 0xf0 = 0xe0 else length p = 16 \<and> p ! 0 = 0xff)"

definition IsLinkLocalUnicast :: "ip \<Rightarrow> bool" where
  "IsLinkLocalUnicast p \<longleftrightarrow>
     (let v = To4 p in
      if v \<noteq> [] then v ! 0 = 169 \<and> v ! 1 = 254
      else length p = 16 \<and> p ! 0 = 0xfe \<and> p ! 1 AND 0xc0 = 0x80)"

definition IsGlobalUnicast :: "ip \<Rightarrow> bool" where
  "IsGlobalUnicast p \<longleftrightarrow>
     (length p = 4 \<or> length p = 16) \<and> To4 p \<noteq> [255, 255, 255, 255] \<and>
     \<not> IsUnspecified p \<and> \<not> IsLoopback p \<and> \<not> IsMulticast p \<and> \<not> IsLinkLocalUnicast p"

section \<open>Printing\<close>

definition dotted :: "ip \<Rightarrow> string" where
  "dotted v = Itoa_nat (unat (v ! 0)) @ ''.'' @ Itoa_nat (unat (v ! 1)) @ ''.'' @
              Itoa_nat (unat (v ! 2)) @ ''.'' @ Itoa_nat (unat (v ! 3))"

definition ip_groups :: "ip \<Rightarrow> nat list" where
  "ip_groups p = map (\<lambda>i. 256 * unat (p ! (2 * i)) + unat (p ! (2 * i + 1))) [0..<8]"

fun hex_nat :: "nat \<Rightarrow> string" where
  "hex_nat n = (if n < 16 then [hex_char n] else hex_nat (n div 16) @ [hex_char (n mod 16)])"

declare hex_nat.simps [simp del]

definition zero_run :: "nat list \<Rightarrow> nat \<Rightarrow> nat" where
  "zero_run gs i = length (takeWhile (\<lambda>g. g = 0) (drop i gs))"

text \<open>The first longest run of at least two zero groups, as \<^verbatim>\<open>netip\<close> compresses it.\<close>

definition best_zero_run :: "nat list \<Rightarrow> (nat \<times> nat) option" where
  "best_zero_run gs =
     foldl (\<lambda>best i. let l = zero_run gs i in
              if l \<ge> 2 \<and> (case best of None \<Rightarrow> True | Some (_, m) \<Rightarrow> l > m) then Some (i, l) else best)
       None [0..<8]"

fun join_colon :: "string list \<Rightarrow> string" where
  "join_colon [] = []"
| "join_colon [w] = w"
| "join_colon (w # v # ws) = w @ '':'' @ join_colon (v # ws)"

definition ipv6_string :: "ip \<Rightarrow> string" where
  "ipv6_string p = (let gs = ip_groups p in
     case best_zero_run gs of
       None \<Rightarrow> join_colon (map hex_nat gs)
     | Some (i, l) \<Rightarrow> join_colon (map hex_nat (take i gs)) @ ''::'' @ join_colon (map hex_nat (drop (i + l) gs)))"

definition ip_string :: "ip \<Rightarrow> string" where
  "ip_string p = (if p = [] then ''<nil>''
     else if length p \<noteq> 4 \<and> length p \<noteq> 16 then ''?'' @ EncodeToString p
     else if To4 p \<noteq> [] then dotted (To4 p) else ipv6_string p)"

section \<open>Parsing\<close>

definition parse_octet :: "string \<Rightarrow> byte option" where
  "parse_octet s = (case parse_digits s of
     Some n \<Rightarrow> if n \<le> 255 \<and> (length s = 1 \<or> hd s \<noteq> CHR ''0'') then Some (of_nat n) else None
   | None \<Rightarrow> None)"

definition parse_ipv4 :: "string \<Rightarrow> byte list option" where
  "parse_ipv4 s = (let ws = split_char CHR ''.'' s; os = map parse_octet ws in
     if length ws = 4 \<and> None \<notin> set os then Some (map the os) else None)"

fun hex_prefix :: "string \<Rightarrow> string" where
  "hex_prefix [] = []"
| "hex_prefix (c # s) = (if hex_val c = None then [] else c # hex_prefix s)"

definition hex_num :: "string \<Rightarrow> nat" where
  "hex_num s = foldl (\<lambda>a c. 16 * a + the (hex_val c)) 0 s"

text \<open>
  The loop of \<^verbatim>\<open>netip.parseIPv6\<close>: \<open>acc\<close> is what is read so far, \<open>ell\<close> the offset of the
  ellipsis, the first argument the number of groups that still fit.
\<close>

fun parse_ipv6_loop :: "nat \<Rightarrow> byte list \<Rightarrow> nat option \<Rightarrow> string \<Rightarrow> (byte list \<times> nat option) option" where
  "parse_ipv6_loop 0 acc ell s = (if s = [] then Some (acc, ell) else None)"
| "parse_ipv6_loop (Suc k) acc ell s =
     (let d = hex_prefix s; r = drop (length d) s in
      if d = [] \<or> length d > 4 then None
      else if r \<noteq> [] \<and> hd r = CHR ''.'' then
        (if (ell = None \<and> length acc \<noteq> 12) \<or> length acc + 4 > 16 then None
         else map_option (\<lambda>v. (acc @ v, ell)) (parse_ipv4 s))
      else let acc' = acc @ [of_nat (hex_num d div 256), of_nat (hex_num d)] in
        if r = [] then Some (acc', ell)
        else if hd r \<noteq> CHR '':'' \<or> tl r = [] then None
        else if hd (tl r) = CHR '':'' then
          (if ell \<noteq> None then None
           else if tl (tl r) = [] then Some (acc', Some (length acc'))
           else parse_ipv6_loop k acc' (Some (length acc')) (tl (tl r)))
        else parse_ipv6_loop k acc' ell (tl r))"

definition parse_ipv6 :: "string \<Rightarrow> ip option" where
  "parse_ipv6 s =
     (let lead = HasPrefix s ''::''; s' = (if lead then drop 2 s else s) in
      if lead \<and> s' = [] then Some (replicate 16 0)
      else case parse_ipv6_loop 8 [] (if lead then Some 0 else None) s' of
             None \<Rightarrow> None
           | Some (acc, ell) \<Rightarrow>
               if length acc < 16
               then map_option (\<lambda>e. take e acc @ replicate (16 - length acc) 0 @ drop e acc) ell
               else if ell = None then Some acc else None)"

text \<open>\<^verbatim>\<open>net.ParseIP\<close>: the 16-byte form, or nil; an address with a zone is refused.\<close>

definition ParseIP :: "string \<Rightarrow> ip" where
  "ParseIP s =
     (let r = (case find (\<lambda>c. c = CHR ''.'' \<or> c = CHR '':'' \<or> c = CHR ''%'') s of
                 Some c \<Rightarrow> if c = CHR ''.'' then map_option ((@) v4prefix) (parse_ipv4 s)
                           else if c = CHR '':'' \<and> CHR ''%'' \<notin> set s then parse_ipv6 s else None
               | None \<Rightarrow> None)
      in case r of Some p \<Rightarrow> p | None \<Rightarrow> [])"

section \<open>host:port\<close>

definition JoinHostPort :: "string \<Rightarrow> string \<Rightarrow> string" where
  "JoinHostPort host port =
     (if CHR '':'' \<in> set host then ''['' @ host @ '']:'' @ port else host @ '':'' @ port)"

definition SplitHostPort :: "string \<Rightarrow> (string \<times> string) option" where
  "SplitHostPort hp =
     (case LastIndexByte hp CHR '':'' of
        None \<Rightarrow> None
      | Some i \<Rightarrow>
          (let port = drop (Suc i) hp;
               split = (if hd hp = CHR ''['' then
                          (case IndexByte hp CHR '']'' of
                             None \<Rightarrow> None
                           | Some e \<Rightarrow> if Suc e = i then Some (take (e - 1) (drop 1 hp), 1, Suc e) else None)
                        else if CHR '':'' \<in> set (take i hp) then None
                        else Some (take i hp, 0, 0))
           in case split of
                None \<Rightarrow> None
              | Some (host, j, k) \<Rightarrow>
                  if CHR ''['' \<in> set (drop j hp) \<or> CHR '']'' \<in> set (drop k hp) then None
                  else Some (host, port)))"

lemma Itoa_nat_no_sep: "c \<in> set (Itoa_nat n) \<Longrightarrow> 48 \<le> char_code c \<and> char_code c \<le> 57"
  using Itoa_nat_digits [of n] by (auto simp: list_all_iff is_digit_def)

lemma Split_Join_v4:
  assumes "CHR '':'' \<notin> set h" "CHR ''['' \<notin> set h" "CHR '']'' \<notin> set h"
  shows "SplitHostPort (JoinHostPort h (Itoa_nat n)) = Some (h, Itoa_nat n)"
proof -
  have "CHR '':'' \<notin> set (Itoa_nat n)" "CHR ''['' \<notin> set (Itoa_nat n)" "CHR '']'' \<notin> set (Itoa_nat n)"
    by (auto dest: Itoa_nat_no_sep)
  moreover from this have "LastIndexByte (h @ CHR '':'' # Itoa_nat n) CHR '':'' = Some (length h)"
    by (simp add: LastIndexByte_append)
  moreover have "hd (h @ CHR '':'' # Itoa_nat n) \<noteq> CHR ''[''"
    using assms by (cases h) auto
  ultimately show ?thesis
    using assms by (simp add: SplitHostPort_def JoinHostPort_def)
qed

end
