(* ===== verification/Pcp_Lib.thy ===== *)
theory Pcp_Lib
  imports Go_Net
begin

text \<open>
  The package \<^verbatim>\<open>github.com/titagaki/peercast-pcp/pcp\<close> is not part of this repository.  It is a
  parameter of the model: a record \<open>P\<close> of its constants and functions over an arbitrary type
  of atoms, an argument of every definition that calls it.  A function that returns a value
  and an error returns the value with a Boolean that is True when the error is nil, since
  callers use the value of a failed read too.

  \<open>atom_laws\<close>, \<open>tag_laws\<close> and \<open>flag_laws\<close> name what the code relies on, as
  \<^verbatim>\<open>docs/reference/protocol/PCP_SPEC.md\<close> documents it; \<open>wire_pcp\<close> is one instance, the atom
  trees of that document, at which theorems with these hypotheses are exercised.
\<close>

type_synonym gnuid = "byte list"
type_synonym id4 = "byte list"

definition zeroID :: gnuid where
  "zeroID = replicate 16 0"

datatype pcp_tag =
  PCPHost | PCPHostID | PCPHostIP | PCPHostPort | PCPHostNumListeners | PCPHostNumRelays
| PCPHostUptime | PCPHostOldPos | PCPHostNewPos | PCPHostChanID | PCPHostFlags1 | PCPHostVersion
| PCPHostVersionVP | PCPHostVersionExPrefix | PCPHostVersionExNumber | PCPHostTracker
| PCPHostUphostIP | PCPHostUphostPort | PCPHostUphostHops
| PCPBcst | PCPBcstTTL | PCPBcstHops | PCPBcstFrom | PCPBcstDest | PCPBcstGroup | PCPBcstChanID
| PCPBcstVersion | PCPBcstVersionVP | PCPBcstVersionExPrefix | PCPBcstVersionExNumber
| PCPChan | PCPOK | PCPQuit | PCPOleh | PCPHelo | PCPHeloRemoteIP | PCPHeloPort | PCPRoot | PCPConnect

datatype pcp_flag =
  PCPHostFlags1CIN | PCPHostFlags1Push | PCPHostFlags1Recv | PCPHostFlags1Relay
| PCPHostFlags1Direct | PCPHostFlags1Tracker
| PCPBcstGroupRoot | PCPBcstGroupTrackers | PCPBcstGroupRelays

datatype pcp_error =
  PCPErrorQuit | PCPErrorUnavailable | PCPErrorShutdown | PCPErrorNotIdentified
| PCPErrorLoopback | PCPErrorBadAgent | PCPErrorSkip

record HeloPacket =
  hpAgent :: string
  hpSessionID :: gnuid
  hpVersion :: u32
  hpPort :: u16
  hpPing :: u16
  hpRemoteIP :: u32
  hpBCID :: gnuid

record ChanInfo =
  ciName :: string
  ciURL :: string
  ciDesc :: string
  ciComment :: string
  ciGenre :: string
  ciType :: string
  ciStreamType :: string
  ciStreamExt :: string
  ciBitrate :: u32

record ChanTrack =
  ctTitle :: string
  ctCreator :: string
  ctURL :: string
  ctAlbum :: string

record ChanPktData =
  pktType :: id4
  pktPos :: u32
  pktData :: "byte list"
  pktContinuation :: byte

record ChanPacket =
  cpID :: gnuid
  cpBroadcastID :: gnuid
  cpInfo :: "ChanInfo option"
  cpTrack :: "ChanTrack option"
  cpPkt :: "ChanPktData option"

record RootPacket =
  rpUpdateInterval :: u32
  rpUpdate :: bool

record 'a pcp =
  tag_of :: "pcp_tag \<Rightarrow> id4"
  flag_of :: "pcp_flag \<Rightarrow> byte"
  err_of :: "pcp_error \<Rightarrow> u32"
  NewID4 :: "string \<Rightarrow> id4"
  IsEmpty :: "gnuid \<Rightarrow> bool"
  Tag :: "'a \<Rightarrow> id4"
  Children :: "'a \<Rightarrow> 'a list"
  AtomData :: "'a \<Rightarrow> byte list"
  FindChild :: "'a \<Rightarrow> id4 \<Rightarrow> 'a option"
  FindChildren :: "'a \<Rightarrow> id4 \<Rightarrow> 'a list"
  GetID :: "'a \<Rightarrow> gnuid \<times> bool"
  GetInt :: "'a \<Rightarrow> u32 \<times> bool"
  GetShort :: "'a \<Rightarrow> u16 \<times> bool"
  GetByte :: "'a \<Rightarrow> byte \<times> bool"
  NewIDAtom :: "id4 \<Rightarrow> gnuid \<Rightarrow> 'a"
  NewIntAtom :: "id4 \<Rightarrow> u32 \<Rightarrow> 'a"
  NewShortAtom :: "id4 \<Rightarrow> u16 \<Rightarrow> 'a"
  NewByteAtom :: "id4 \<Rightarrow> byte \<Rightarrow> 'a"
  NewBytesAtom :: "id4 \<Rightarrow> byte list \<Rightarrow> 'a"
  NewParentAtom :: "id4 \<Rightarrow> 'a list \<Rightarrow> 'a"
  IPv4FromUint32 :: "u32 \<Rightarrow> ip"
  IPv4ToUint32 :: "ip \<Rightarrow> u32 \<times> bool"
  ParseHeloPacket :: "'a \<Rightarrow> HeloPacket \<times> bool"
  BuildHeloAtom :: "HeloPacket \<Rightarrow> 'a"
  BuildOlehAtom :: "HeloPacket \<Rightarrow> 'a"
  ParseChanPacket :: "'a \<Rightarrow> ChanPacket \<times> bool"
  BuildChanAtom :: "ChanPacket \<Rightarrow> 'a"
  ParseRootPacket :: "'a \<Rightarrow> RootPacket \<times> bool"

abbreviation quit_code :: "'a pcp \<Rightarrow> pcp_error \<Rightarrow> u32" where
  "quit_code P e \<equiv> err_of P PCPErrorQuit + err_of P e"

section \<open>What the code relies on\<close>

text \<open>
  Containers keep the children they are built from; a data atom reads back the value it was
  made from; \<^verbatim>\<open>FindChild\<close> is the first child with the tag.
\<close>

definition atom_laws :: "'a pcp \<Rightarrow> bool" where
  "atom_laws P \<longleftrightarrow>
     (\<forall>t cs. Tag P (NewParentAtom P t cs) = t \<and> Children P (NewParentAtom P t cs) = cs) \<and>
     (\<forall>a t. FindChild P a t = find (\<lambda>c. Tag P c = t) (Children P a)) \<and>
     (\<forall>a t. FindChildren P a t = filter (\<lambda>c. Tag P c = t) (Children P a)) \<and>
     (\<forall>t v. Tag P (NewByteAtom P t v) = t \<and> GetByte P (NewByteAtom P t v) = (v, True)) \<and>
     (\<forall>t v. Tag P (NewShortAtom P t v) = t \<and> GetShort P (NewShortAtom P t v) = (v, True)) \<and>
     (\<forall>t v. Tag P (NewIntAtom P t v) = t \<and> GetInt P (NewIntAtom P t v) = (v, True) \<and>
            length (AtomData P (NewIntAtom P t v)) = 4) \<and>
     (\<forall>t v. length v = 16 \<longrightarrow> Tag P (NewIDAtom P t v) = t \<and> GetID P (NewIDAtom P t v) = (v, True)) \<and>
     (\<forall>t v. Tag P (NewBytesAtom P t v) = t \<and> AtomData P (NewBytesAtom P t v) = v) \<and>
     (\<forall>i. IsEmpty P i \<longleftrightarrow> i = zeroID)"

definition host_tags :: "pcp_tag set" where
  "host_tags = {PCPHostID, PCPHostIP, PCPHostPort, PCPHostNumListeners, PCPHostNumRelays,
     PCPHostUptime, PCPHostOldPos, PCPHostNewPos, PCPHostChanID, PCPHostFlags1, PCPHostVersion,
     PCPHostVersionVP, PCPHostVersionExPrefix, PCPHostVersionExNumber, PCPHostTracker,
     PCPHostUphostIP, PCPHostUphostPort, PCPHostUphostHops}"

definition bcst_tags :: "pcp_tag set" where
  "bcst_tags = {PCPBcstTTL, PCPBcstHops, PCPBcstFrom, PCPBcstDest, PCPBcstGroup, PCPBcstChanID,
     PCPBcstVersion, PCPBcstVersionVP, PCPBcstVersionExPrefix, PCPBcstVersionExNumber,
     PCPHost, PCPChan}"

text \<open>The tags that occur as children of one container are pairwise different.\<close>

definition tag_laws :: "'a pcp \<Rightarrow> bool" where
  "tag_laws P \<longleftrightarrow> inj_on (tag_of P) host_tags \<and> inj_on (tag_of P) bcst_tags"

text \<open>The host flags are different single bits.\<close>

definition host_flags :: "pcp_flag list" where
  "host_flags = [PCPHostFlags1CIN, PCPHostFlags1Push, PCPHostFlags1Recv, PCPHostFlags1Relay,
     PCPHostFlags1Direct, PCPHostFlags1Tracker]"

definition flag_laws :: "'a pcp \<Rightarrow> bool" where
  "flag_laws P \<longleftrightarrow> (\<forall>f \<in> set host_flags. flag_of P f \<noteq> 0 \<and>
     (\<forall>g \<in> set host_flags. g \<noteq> f \<longrightarrow> flag_of P f AND flag_of P g = 0))"

text \<open>The two IPv4 conversions are inverse on four-byte addresses.\<close>

definition ip_laws :: "'a pcp \<Rightarrow> bool" where
  "ip_laws P \<longleftrightarrow>
     (\<forall>v. length v = 4 \<longrightarrow> To4 (IPv4FromUint32 P (fst (IPv4ToUint32 P v))) = v \<and>
          (\<forall>w. To4 w = v \<longrightarrow> IPv4ToUint32 P w = IPv4ToUint32 P v)) \<and>
     (\<forall>n. length (IPv4FromUint32 P n) = 4 \<or> length (IPv4FromUint32 P n) = 16)"

text \<open>
  A channel atom is recognised by its tag and gives back the packet it was built with, or none; a
  packet is a header or data; the kinds of atoms of a stream are different.
\<close>

definition chan_laws :: "'a pcp \<Rightarrow> bool" where
  "chan_laws P \<longleftrightarrow>
     (\<forall>c. Tag P (BuildChanAtom P c) = tag_of P PCPChan) \<and>
     (\<forall>c p. cpPkt c = Some p \<and> pktData p \<noteq> [] \<longrightarrow>
        snd (ParseChanPacket P (BuildChanAtom P c)) \<and> cpPkt (fst (ParseChanPacket P (BuildChanAtom P c))) = Some p) \<and>
     (\<forall>c. cpPkt c = None \<longrightarrow> cpPkt (fst (ParseChanPacket P (BuildChanAtom P c))) = None) \<and>
     NewID4 P ''head'' \<noteq> NewID4 P ''data'' \<and>
     distinct (map (tag_of P) [PCPChan, PCPHost, PCPBcst, PCPQuit])"

lemma chan_laws_atom [wire_simps]:
  assumes "chan_laws P"
  shows "Tag P (BuildChanAtom P c) = tag_of P PCPChan"
    and "cpPkt c = Some p \<Longrightarrow> pktData p \<noteq> [] \<Longrightarrow> snd (ParseChanPacket P (BuildChanAtom P c))"
    and "cpPkt c = Some p \<Longrightarrow> pktData p \<noteq> [] \<Longrightarrow> cpPkt (fst (ParseChanPacket P (BuildChanAtom P c))) = Some p"
    and "cpPkt c = None \<Longrightarrow> cpPkt (fst (ParseChanPacket P (BuildChanAtom P c))) = None"
    and "NewID4 P ''head'' \<noteq> NewID4 P ''data''" "NewID4 P ''data'' \<noteq> NewID4 P ''head''"
  using assms unfolding chan_laws_def by metis+

lemma chan_laws_tags [wire_simps]:
  assumes "chan_laws P" "{s, t} \<subseteq> {PCPChan, PCPHost, PCPBcst, PCPQuit}"
  shows "tag_of P s = tag_of P t \<longleftrightarrow> s = t"
  using assms by (auto simp: chan_laws_def)

lemma atom_laws_parent [wire_simps]:
  assumes "atom_laws P"
  shows "Tag P (NewParentAtom P t cs) = t" "Children P (NewParentAtom P t cs) = cs"
    and "FindChild P a t = find (\<lambda>c. Tag P c = t) (Children P a)"
    and "FindChildren P a t = filter (\<lambda>c. Tag P c = t) (Children P a)"
    and "IsEmpty P i \<longleftrightarrow> i = zeroID"
  using assms by (simp_all add: atom_laws_def)

lemma atom_laws_data [wire_simps]:
  assumes "atom_laws P"
  shows "Tag P (NewByteAtom P t b) = t" "GetByte P (NewByteAtom P t b) = (b, True)"
    and "Tag P (NewShortAtom P t s) = t" "GetShort P (NewShortAtom P t s) = (s, True)"
    and "Tag P (NewIntAtom P t n) = t" "GetInt P (NewIntAtom P t n) = (n, True)"
    and "length (AtomData P (NewIntAtom P t n)) = 4"
    and "length i = 16 \<Longrightarrow> Tag P (NewIDAtom P t i) = t"
    and "length i = 16 \<Longrightarrow> GetID P (NewIDAtom P t i) = (i, True)"
    and "Tag P (NewBytesAtom P t d) = t" "AtomData P (NewBytesAtom P t d) = d"
  using assms by (simp_all add: atom_laws_def)

lemma tag_laws_host:
  "tag_laws P \<Longrightarrow> s \<in> host_tags \<Longrightarrow> t \<in> host_tags \<Longrightarrow> tag_of P s = tag_of P t \<longleftrightarrow> s = t"
  by (auto simp: tag_laws_def inj_on_def)

lemma tag_laws_bcst:
  "tag_laws P \<Longrightarrow> s \<in> bcst_tags \<Longrightarrow> t \<in> bcst_tags \<Longrightarrow> tag_of P s = tag_of P t \<longleftrightarrow> s = t"
  by (auto simp: tag_laws_def inj_on_def)

section \<open>The documented wire atoms, as an instance\<close>

datatype wire_atom = WAtom (wtag: id4) (wdata: "byte list") (wkids: "wire_atom list")

definition ascii :: "string \<Rightarrow> byte list" where
  "ascii s = map byte_of s"

definition pad4 :: "string \<Rightarrow> id4" where
  "pad4 s = take 4 (ascii s @ [0, 0, 0, 0])"

fun wire_tag :: "pcp_tag \<Rightarrow> string" where
  "wire_tag PCPHost = ''host''" | "wire_tag PCPHostID = ''id''" | "wire_tag PCPHostIP = ''ip''"
| "wire_tag PCPHostPort = ''port''" | "wire_tag PCPHostNumListeners = ''numl''"
| "wire_tag PCPHostNumRelays = ''numr''" | "wire_tag PCPHostUptime = ''uptm''"
| "wire_tag PCPHostOldPos = ''oldp''" | "wire_tag PCPHostNewPos = ''newp''"
| "wire_tag PCPHostChanID = ''cid''" | "wire_tag PCPHostFlags1 = ''flg1''"
| "wire_tag PCPHostVersion = ''ver''" | "wire_tag PCPHostVersionVP = ''vevp''"
| "wire_tag PCPHostVersionExPrefix = ''vexp''" | "wire_tag PCPHostVersionExNumber = ''vexn''"
| "wire_tag PCPHostTracker = ''trkr''" | "wire_tag PCPHostUphostIP = ''upip''"
| "wire_tag PCPHostUphostPort = ''uppt''" | "wire_tag PCPHostUphostHops = ''uphp''"
| "wire_tag PCPBcst = ''bcst''" | "wire_tag PCPBcstTTL = ''ttl''" | "wire_tag PCPBcstHops = ''hops''"
| "wire_tag PCPBcstFrom = ''from''" | "wire_tag PCPBcstDest = ''dest''"
| "wire_tag PCPBcstGroup = ''grp''" | "wire_tag PCPBcstChanID = ''cid''"
| "wire_tag PCPBcstVersion = ''vers''" | "wire_tag PCPBcstVersionVP = ''vrvp''"
| "wire_tag PCPBcstVersionExPrefix = ''vexp''" | "wire_tag PCPBcstVersionExNumber = ''vexn''"
| "wire_tag PCPChan = ''chan''" | "wire_tag PCPOK = ''ok''" | "wire_tag PCPQuit = ''quit''"
| "wire_tag PCPOleh = ''oleh''" | "wire_tag PCPHelo = ''helo''"
| "wire_tag PCPHeloRemoteIP = ''rip''" | "wire_tag PCPHeloPort = ''port''"
| "wire_tag PCPRoot = ''root''" | "wire_tag PCPConnect = ''pcp'' @ [CHR 0x0A]"

fun wire_flag :: "pcp_flag \<Rightarrow> byte" where
  "wire_flag PCPHostFlags1Tracker = 1" | "wire_flag PCPHostFlags1Relay = 2"
| "wire_flag PCPHostFlags1Direct = 4" | "wire_flag PCPHostFlags1Push = 8"
| "wire_flag PCPHostFlags1Recv = 16" | "wire_flag PCPHostFlags1CIN = 32"
| "wire_flag PCPBcstGroupRoot = 1" | "wire_flag PCPBcstGroupTrackers = 2"
| "wire_flag PCPBcstGroupRelays = 4"

fun wire_err :: "pcp_error \<Rightarrow> u32" where
  "wire_err PCPErrorQuit = 1000" | "wire_err PCPErrorUnavailable = 3" | "wire_err PCPErrorLoopback = 4"
| "wire_err PCPErrorNotIdentified = 5" | "wire_err PCPErrorBadAgent = 6"
| "wire_err PCPErrorSkip = 2" | "wire_err PCPErrorShutdown = 9"

fun le_bytes :: "nat \<Rightarrow> nat \<Rightarrow> byte list" where
  "le_bytes 0 v = []"
| "le_bytes (Suc k) v = of_nat v # le_bytes k (v div 256)"

fun un_le :: "byte list \<Rightarrow> nat" where
  "un_le [] = 0"
| "un_le (b # bs) = unat b + 256 * un_le bs"

lemma length_le_bytes [simp]: "length (le_bytes k v) = k"
  by (induction k arbitrary: v) auto

lemma un_le_le_bytes: "v < 256 ^ k \<Longrightarrow> un_le (le_bytes k v) = v"
proof (induction k arbitrary: v)
  case (Suc k)
  then have "v div 256 < 256 ^ k" by (simp add: less_mult_imp_div_less mult.commute)
  with Suc.IH have "un_le (le_bytes k (v div 256)) = v div 256" by blast
  then show ?case by (simp add: unsigned_of_nat take_bit_eq_mod)
qed simp

definition le2 :: "u16 \<Rightarrow> byte list" where
  "le2 v = le_bytes 2 (unat v)"

definition le4 :: "u32 \<Rightarrow> byte list" where
  "le4 v = le_bytes 4 (unat v)"

definition un_le2 :: "byte list \<Rightarrow> u16" where
  "un_le2 d = of_nat (un_le d)"

definition un_le4 :: "byte list \<Rightarrow> u32" where
  "un_le4 d = of_nat (un_le d)"

lemma un_le2_le2 [simp]: "un_le2 (le2 v) = v"
  using unsigned_less [of v, where ?'a = nat] by (simp add: un_le2_def le2_def un_le_le_bytes)

lemma un_le4_le4 [simp]: "un_le4 (le4 v) = v"
  using unsigned_less [of v, where ?'a = nat] by (simp add: un_le4_def le4_def un_le_le_bytes)

lemma length_le [simp]: "length (le2 v) = 2" "length (le4 w) = 4"
  by (simp_all add: le2_def le4_def)

text \<open>
  Channel atoms carry their identifiers and packet, handshakes their numbers; the texts that nothing
  evaluates at this instance are left out.
\<close>

definition wire_child :: "string \<Rightarrow> wire_atom \<Rightarrow> byte list" where
  "wire_child t a = (case find (\<lambda>c. wtag c = pad4 t) (wkids a) of None \<Rightarrow> [] | Some c \<Rightarrow> wdata c)"

definition wire_chan :: "ChanPacket \<Rightarrow> wire_atom" where
  "wire_chan c = WAtom (pad4 ''chan'') []
     ([WAtom (pad4 ''id'') (cpID c) [], WAtom (pad4 ''bcid'') (cpBroadcastID c) []] @
      (case cpPkt c of None \<Rightarrow> [] | Some p \<Rightarrow>
        [WAtom (pad4 ''pkt'') [] [WAtom (pad4 ''type'') (pktType p) [], WAtom (pad4 ''pos'') (le4 (pktPos p)) [],
           WAtom (pad4 ''data'') (pktData p) [], WAtom (pad4 ''cont'') [pktContinuation p] []]]))"

definition un_wire_chan :: "wire_atom \<Rightarrow> ChanPacket \<times> bool" where
  "un_wire_chan a =
     (\<lparr>cpID = wire_child ''id'' a, cpBroadcastID = wire_child ''bcid'' a, cpInfo = None, cpTrack = None,
       cpPkt = (case find (\<lambda>c. wtag c = pad4 ''pkt'') (wkids a) of None \<Rightarrow> None | Some p \<Rightarrow>
         Some \<lparr>pktType = wire_child ''type'' p, pktPos = un_le4 (wire_child ''pos'' p), pktData = wire_child ''data'' p,
           pktContinuation = (case wire_child ''cont'' p of [] \<Rightarrow> 0 | b # _ \<Rightarrow> b)\<rparr>)\<rparr>, True)"

definition wire_helo :: "string \<Rightarrow> HeloPacket \<Rightarrow> wire_atom" where
  "wire_helo t h = WAtom (pad4 t) [] [WAtom (pad4 ''sid'') (hpSessionID h) [], WAtom (pad4 ''ver'') (le4 (hpVersion h)) [],
     WAtom (pad4 ''port'') (le2 (hpPort h)) [], WAtom (pad4 ''ping'') (le2 (hpPing h)) [], WAtom (pad4 ''rip'') (le4 (hpRemoteIP h)) []]"

definition un_wire_helo :: "wire_atom \<Rightarrow> HeloPacket \<times> bool" where
  "un_wire_helo a =
     (\<lparr>hpAgent = [], hpSessionID = (let i = wire_child ''sid'' a in if i = [] then zeroID else i),
       hpVersion = un_le4 (wire_child ''ver'' a), hpPort = un_le2 (wire_child ''port'' a),
       hpPing = un_le2 (wire_child ''ping'' a), hpRemoteIP = un_le4 (wire_child ''rip'' a), hpBCID = zeroID\<rparr>, True)"

definition un_wire_root :: "wire_atom \<Rightarrow> RootPacket \<times> bool" where
  "un_wire_root a =
     (\<lparr>rpUpdateInterval = un_le4 (wire_child ''uint'' a), rpUpdate = (find (\<lambda>c. wtag c = pad4 ''upd'') (wkids a) \<noteq> None)\<rparr>, True)"

definition wire_pcp :: "wire_atom pcp" where
  "wire_pcp =
    \<lparr>tag_of = (\<lambda>t. pad4 (wire_tag t)), flag_of = wire_flag, err_of = wire_err, NewID4 = pad4,
     IsEmpty = (\<lambda>i. i = zeroID), Tag = wtag, Children = wkids, AtomData = wdata,
     FindChild = (\<lambda>a t. find (\<lambda>c. wtag c = t) (wkids a)),
     FindChildren = (\<lambda>a t. filter (\<lambda>c. wtag c = t) (wkids a)),
     GetID = (\<lambda>a. if length (wdata a) = 16 then (wdata a, True) else (zeroID, False)),
     GetInt = (\<lambda>a. if length (wdata a) = 4 then (un_le4 (wdata a), True) else (0, False)),
     GetShort = (\<lambda>a. if length (wdata a) = 2 then (un_le2 (wdata a), True) else (0, False)),
     GetByte = (\<lambda>a. if length (wdata a) = 1 then (wdata a ! 0, True) else (0, False)),
     NewIDAtom = (\<lambda>t v. WAtom t v []), NewIntAtom = (\<lambda>t v. WAtom t (le4 v) []),
     NewShortAtom = (\<lambda>t v. WAtom t (le2 v) []), NewByteAtom = (\<lambda>t v. WAtom t [v] []),
     NewBytesAtom = (\<lambda>t v. WAtom t v []), NewParentAtom = (\<lambda>t cs. WAtom t [] cs),
     IPv4FromUint32 = (\<lambda>v. v4prefix @ rev (le4 v)),
     IPv4ToUint32 = (\<lambda>p. if To4 p = [] then (0, False) else (un_le4 (rev (To4 p)), True)),
     ParseHeloPacket = un_wire_helo, BuildHeloAtom = wire_helo ''helo'', BuildOlehAtom = wire_helo ''oleh'',
     ParseChanPacket = un_wire_chan, BuildChanAtom = wire_chan,
     ParseRootPacket = un_wire_root\<rparr>"

text \<open>The fields of the instance, for evaluation.\<close>

lemma wire_sel:
  "tag_of wire_pcp t = pad4 (wire_tag t)" "flag_of wire_pcp = wire_flag" "err_of wire_pcp = wire_err"
  "NewID4 wire_pcp = pad4" "IsEmpty wire_pcp i \<longleftrightarrow> i = zeroID"
  "Tag wire_pcp = wtag" "Children wire_pcp = wkids" "AtomData wire_pcp = wdata"
  "FindChild wire_pcp a k = find (\<lambda>c. wtag c = k) (wkids a)"
  "FindChildren wire_pcp a k = filter (\<lambda>c. wtag c = k) (wkids a)"
  "GetID wire_pcp a = (if length (wdata a) = 16 then (wdata a, True) else (zeroID, False))"
  "GetInt wire_pcp a = (if length (wdata a) = 4 then (un_le4 (wdata a), True) else (0, False))"
  "GetShort wire_pcp a = (if length (wdata a) = 2 then (un_le2 (wdata a), True) else (0, False))"
  "GetByte wire_pcp a = (if length (wdata a) = 1 then (wdata a ! 0, True) else (0, False))"
  "NewIDAtom wire_pcp k d = WAtom k d []" "NewIntAtom wire_pcp k n = WAtom k (le4 n) []"
  "NewShortAtom wire_pcp k s = WAtom k (le2 s) []" "NewByteAtom wire_pcp k b = WAtom k [b] []"
  "NewBytesAtom wire_pcp k d = WAtom k d []" "NewParentAtom wire_pcp k cs = WAtom k [] cs"
  "IPv4FromUint32 wire_pcp n = v4prefix @ rev (le4 n)"
  "IPv4ToUint32 wire_pcp q = (if To4 q = [] then (0, False) else (un_le4 (rev (To4 q)), True))"
  "ParseHeloPacket wire_pcp = un_wire_helo" "BuildHeloAtom wire_pcp = wire_helo ''helo''" "BuildOlehAtom wire_pcp = wire_helo ''oleh''"
  "ParseChanPacket wire_pcp = un_wire_chan" "BuildChanAtom wire_pcp = wire_chan"
  by (simp_all add: wire_pcp_def)

lemma wire_atom_laws [simp]: "atom_laws wire_pcp"
  by (simp add: atom_laws_def wire_pcp_def)

lemma le_bytes_un_le: "le_bytes (length d) (un_le d) = d"
proof (induction d)
  case (Cons b d)
  have z: "(256 :: byte) = 0" by simp
  have "(of_nat (unat b + 256 * un_le d) :: byte) = of_nat (unat b) + 256 * of_nat (un_le d)" by simp
  also have "\<dots> = b" unfolding z by simp
  finally have "of_nat (unat b + 256 * un_le d) = b" .
  moreover have "(unat b + 256 * un_le d) div 256 = un_le d" using unat_bound256 [of b] by simp
  ultimately show ?case using Cons by simp
qed simp

lemma unat_of_nat_u32: "n < 256 ^ 4 \<Longrightarrow> unat (of_nat n :: u32) = n"
  by (simp add: unsigned_of_nat take_bit_nat_eq_self)

lemma wire_ip_laws [simp]: "ip_laws wire_pcp"
proof -
  have "un_le d < 256 ^ length d" for d :: "byte list"
  proof (induction d)
    case (Cons b d)
    then have "un_le d + 1 \<le> 256 ^ length d" by simp
    then have "256 * un_le d + 256 \<le> 256 * 256 ^ length d" by linarith
    with unat_bound256 [of b] show ?case by simp
  qed simp
  then have "unat (un_le4 (rev v)) = un_le (rev v)" if "length v = 4" for v
    using that by (metis length_rev unat_of_nat_u32 un_le4_def)
  then have "le4 (un_le4 (rev v)) = rev v" if "length v = 4" for v
    using that le_bytes_un_le [of "rev v"] by (simp add: le4_def)
  then show ?thesis
    by (auto simp: ip_laws_def wire_sel To4_def v4prefix_def)
qed

lemma wire_tag_laws [simp]: "tag_laws wire_pcp"
  by (simp add: tag_laws_def wire_pcp_def inj_on_def host_tags_def bcst_tags_def pad4_def ascii_def)

lemma wire_chan_laws [simp]: "chan_laws wire_pcp"
  by (simp add: chan_laws_def wire_pcp_def wire_chan_def un_wire_chan_def wire_child_def pad4_def ascii_def)

lemma wire_flag_laws [simp]: "flag_laws wire_pcp"
  by (simp add: flag_laws_def wire_pcp_def host_flags_def)

end
