(* ===== verification/Bcst.thy ===== *)
theory Bcst
  imports Pcp_Lib
begin

text \<open>
  \<^verbatim>\<open>internal/pcputil/bcst.go\<close> and \<^verbatim>\<open>host_info.go\<close>: the routing decision for a broadcast atom
  (deliver locally, forward, or drop) and the accessors of HOST atoms.  Forwarding lowers the
  TTL and raises the hop count; the lemmas show that a flood ends after at most TTL hops,
  whatever the topology.
\<close>

definition has :: "'a pcp \<Rightarrow> 'a \<Rightarrow> pcp_tag \<Rightarrow> 'a option" where
  "has P a t = FindChild P a (tag_of P t)"

text \<open>\<^verbatim>\<open>RouteBcst(a, self, channelID)\<close>: \<open>a\<close> may be nil; a nil result is \<open>None\<close>.\<close>

definition RouteBcst :: "'a pcp \<Rightarrow> 'a option \<Rightarrow> gnuid \<Rightarrow> gnuid \<Rightarrow> bool \<times> 'a option" where
  "RouteBcst P oa self channelID =
     (case oa of None \<Rightarrow> (False, None) | Some a \<Rightarrow>
      if Tag P a \<noteq> tag_of P PCPBcst then (False, None)
      else if (case has P a PCPBcstFrom of
                 Some c \<Rightarrow> \<not> snd (GetID P c) \<or> fst (GetID P c) = self
               | None \<Rightarrow> False) then (False, None)
      else if (case has P a PCPBcstChanID of
                 Some c \<Rightarrow> \<not> snd (GetID P c) \<or> (\<not> IsEmpty P (fst (GetID P c)) \<and> fst (GetID P c) \<noteq> channelID)
               | None \<Rightarrow> False) then (False, None)
      else if (case has P a PCPBcstDest of Some c \<Rightarrow> \<not> snd (GetID P c) | None \<Rightarrow> False) then (False, None)
      else if (case has P a PCPBcstDest of Some c \<Rightarrow> fst (GetID P c) = self | None \<Rightarrow> False) then (True, None)
      else
        (let local = (case has P a PCPBcstDest of Some c \<Rightarrow> IsEmpty P (fst (GetID P c)) | None \<Rightarrow> True)
         in case (has P a PCPBcstTTL, has P a PCPBcstHops, has P a PCPBcstGroup, has P a PCPBcstFrom) of
              (Some t, Some h, Some g, Some f) \<Rightarrow>
                (let ttl = fst (GetByte P t); hops = fst (GetByte P h) in
                 if \<not> snd (GetByte P t) \<or> \<not> snd (GetByte P h) \<or> \<not> snd (GetByte P g) \<or>
                    ttl \<le> 1 \<or> hops = 255
                 then (local, None)
                 else (local, Some (NewParentAtom P (tag_of P PCPBcst)
                   (map (\<lambda>c. if Tag P c = tag_of P PCPBcstTTL then NewByteAtom P (Tag P c) (ttl - 1)
                             else if Tag P c = tag_of P PCPBcstHops then NewByteAtom P (Tag P c) (hops + 1)
                             else c) (Children P a)))))
            | _ \<Rightarrow> (local, None)))"

definition HostID :: "'a pcp \<Rightarrow> 'a option \<Rightarrow> gnuid \<times> bool" where
  "HostID P oa =
     (case oa of None \<Rightarrow> (zeroID, False) | Some a \<Rightarrow>
        (case has P a PCPHostID of
           Some v \<Rightarrow> (fst (GetID P v), snd (GetID P v) \<and> \<not> IsEmpty P (fst (GetID P v)))
         | None \<Rightarrow> (zeroID, False)))"

definition atom_Int :: "'a pcp \<Rightarrow> 'a \<Rightarrow> pcp_tag \<Rightarrow> u32" where
  "atom_Int P a t = (case has P a t of Some v \<Rightarrow> fst (GetInt P v) | None \<Rightarrow> 0)"

definition atom_Byte :: "'a pcp \<Rightarrow> 'a \<Rightarrow> pcp_tag \<Rightarrow> byte" where
  "atom_Byte P a t = (case has P a t of Some v \<Rightarrow> fst (GetByte P v) | None \<Rightarrow> 0)"

section \<open>Forwarding\<close>

lemma Suc_unat_pred: "(w :: 'l::len word) \<noteq> 0 \<Longrightarrow> Suc (unat (w - 1)) = unat w"
  by (simp add: unat_minus_one unat_gt_0)

lemma byte_succ_nonzero: "b \<noteq> 255 \<Longrightarrow> b + 1 \<noteq> (0 :: byte)"
proof
  assume "b + 1 = 0"
  then have "b = - 1" by (simp add: eq_neg_iff_add_eq_0)
  moreover have "(- 1 :: byte) = 255" by simp
  moreover assume "b \<noteq> 255"
  ultimately show False by metis
qed

definition bump_child :: "'a pcp \<Rightarrow> byte \<Rightarrow> byte \<Rightarrow> 'a \<Rightarrow> 'a" where
  "bump_child P ttl hops c =
     (if Tag P c = tag_of P PCPBcstTTL then NewByteAtom P (Tag P c) (ttl - 1)
      else if Tag P c = tag_of P PCPBcstHops then NewByteAtom P (Tag P c) (hops + 1) else c)"

lemma RouteBcst_forwarded:
  assumes "RouteBcst P (Some a) self cid = (l, Some f)"
  obtains t h where "has P a PCPBcstTTL = Some t" "has P a PCPBcstHops = Some h"
    "snd (GetByte P t)" "snd (GetByte P h)" "1 < fst (GetByte P t)" "fst (GetByte P h) \<noteq> 255"
    "f = NewParentAtom P (tag_of P PCPBcst)
           (map (bump_child P (fst (GetByte P t)) (fst (GetByte P h))) (Children P a))"
  using assms
  unfolding RouteBcst_def bump_child_def Let_def
  by (auto split: option.splits if_splits simp: not_le)

lemma Tag_bump_child: "atom_laws P \<Longrightarrow> Tag P (bump_child P ttl hops c) = Tag P c"
  by (simp add: bump_child_def wire_simps)

lemma find_bump:
  assumes "atom_laws P"
  shows "find (\<lambda>c. Tag P c = t) (map (bump_child P ttl hops) cs)
       = map_option (bump_child P ttl hops) (find (\<lambda>c. Tag P c = t) cs)"
  by (induction cs) (auto simp: Tag_bump_child [OF assms])

lemma has_bump:
  assumes "atom_laws P"
  shows "has P (NewParentAtom P k (map (bump_child P ttl hops) (Children P a))) t
       = map_option (bump_child P ttl hops) (has P a t)"
  using assms by (simp add: has_def find_bump wire_simps)

lemma has_Tag: "atom_laws P \<Longrightarrow> has P a t = Some c \<Longrightarrow> Tag P c = tag_of P t"
  by (auto simp: has_def wire_simps find_Some_iff)

definition ttl_of :: "'a pcp \<Rightarrow> 'a \<Rightarrow> nat" where
  "ttl_of P a = unat (atom_Byte P a PCPBcstTTL)"

lemma forwarded_ttl:
  assumes "atom_laws P" "RouteBcst P (Some a) self cid = (l, Some f)"
  shows "Suc (ttl_of P f) = ttl_of P a"
proof -
  from assms(2) obtain t h where t: "has P a PCPBcstTTL = Some t"
    and gt: "1 < fst (GetByte P t)"
    and f: "f = NewParentAtom P (tag_of P PCPBcst)
           (map (bump_child P (fst (GetByte P t)) (fst (GetByte P h))) (Children P a))"
    by (rule RouteBcst_forwarded)
  have "atom_Byte P f PCPBcstTTL = fst (GetByte P t) - 1"
    using assms(1) t has_Tag [OF assms(1) t]
    by (simp add: atom_Byte_def f has_bump bump_child_def wire_simps)
  moreover have "fst (GetByte P t) \<noteq> 0" using gt by auto
  ultimately show ?thesis
    using t by (simp add: ttl_of_def atom_Byte_def Suc_unat_pred)
qed

text \<open>
  A chain of forwards: each node of the list receives what the previous one forwarded and
  forwards it in turn.  The nodes are arbitrary, so cycles in the topology are included.
\<close>

fun forward_chain :: "'a pcp \<Rightarrow> 'a \<Rightarrow> (gnuid \<times> gnuid) list \<Rightarrow> bool" where
  "forward_chain P a [] \<longleftrightarrow> True"
| "forward_chain P a ((self, cid) # ns) \<longleftrightarrow>
     (case snd (RouteBcst P (Some a) self cid) of None \<Rightarrow> False | Some f \<Rightarrow> forward_chain P f ns)"

section \<open>Properties\<close>

text \<open>
  C30.  A broadcast is forwarded along at most TTL - 1 nodes, in any topology and with any
  repetition of nodes: the flood ends.
\<close>

theorem forward_chain_bounded:
  assumes "atom_laws P" "forward_chain P a ns" "ns \<noteq> []"
  shows "length ns < ttl_of P a"
  using assms(2,3)
proof (induction ns arbitrary: a)
  case (Cons n ns)
  obtain self cid where n: "n = (self, cid)" by fastforce
  with Cons.prems obtain l f where f: "RouteBcst P (Some a) self cid = (l, Some f)"
    and ch: "forward_chain P f ns"
    by (cases "RouteBcst P (Some a) self cid") (auto split: option.splits)
  have ttl: "Suc (ttl_of P f) = ttl_of P a" by (rule forwarded_ttl [OF assms(1) f])
  show ?case
  proof (cases "ns = []")
    case True
    from f obtain t where "has P a PCPBcstTTL = Some t" "1 < fst (GetByte P t)"
      by (rule RouteBcst_forwarded)
    then have "1 < ttl_of P a"
      by (simp add: ttl_of_def atom_Byte_def word_less_nat_alt)
    with True show ?thesis by simp
  next
    case False
    with Cons.IH [OF ch] ttl show ?thesis by simp
  qed
qed simp

definition bcst_demo :: "byte \<Rightarrow> wire_atom" where
  "bcst_demo ttl =
     (let T = tag_of wire_pcp in
      WAtom (T PCPBcst) []
       [WAtom (T PCPBcstTTL) [ttl] [], WAtom (T PCPBcstHops) [0] [],
        WAtom (T PCPBcstFrom) (replicate 16 7) [], WAtom (T PCPBcstGroup) [4] []])"

lemmas wire_eval = bcst_demo_def wire_sel pad4_def ascii_def has_def zeroID_def Let_def
  word_le_nat_alt

theorem forward_chain_bounded_witness:
  "forward_chain wire_pcp (bcst_demo 3) [(replicate 16 1, zeroID), (replicate 16 2, zeroID)] \<and>
   2 < ttl_of wire_pcp (bcst_demo 3)"
proof -
  have "forward_chain wire_pcp (bcst_demo 3) [(replicate 16 1, zeroID), (replicate 16 2, zeroID)]"
    by (simp add: RouteBcst_def wire_eval)
  then show ?thesis
    using forward_chain_bounded [OF wire_atom_laws, of "bcst_demo 3"] by fastforce
qed

text \<open>
  What forwarding changes: the forwarded atom is a broadcast atom whose children are those of
  the original, in order, except that the TTL is one less and the hop count one more.
\<close>

theorem RouteBcst_forwards_exactly:
  assumes "atom_laws P" "tag_laws P" "RouteBcst P (Some a) self cid = (l, Some f)"
  shows "Tag P f = tag_of P PCPBcst \<and> map (Tag P) (Children P f) = map (Tag P) (Children P a) \<and>
     ttl_of P f + 1 = ttl_of P a \<and>
     unat (atom_Byte P f PCPBcstHops) = unat (atom_Byte P a PCPBcstHops) + 1 \<and>
     filter (\<lambda>c. Tag P c \<notin> {tag_of P PCPBcstTTL, tag_of P PCPBcstHops}) (Children P f) =
     filter (\<lambda>c. Tag P c \<notin> {tag_of P PCPBcstTTL, tag_of P PCPBcstHops}) (Children P a)"
proof -
  from assms(3) obtain t h where h: "has P a PCPBcstHops = Some h" "fst (GetByte P h) \<noteq> 255"
    and f: "f = NewParentAtom P (tag_of P PCPBcst)
           (map (bump_child P (fst (GetByte P t)) (fst (GetByte P h))) (Children P a))"
    by (rule RouteBcst_forwarded)
  let ?b = "bump_child P (fst (GetByte P t)) (fst (GetByte P h))"
  have ne: "tag_of P PCPBcstHops \<noteq> tag_of P PCPBcstTTL"
    using tag_laws_bcst [OF assms(2), of PCPBcstHops PCPBcstTTL] by (simp add: bcst_tags_def)
  have "atom_Byte P f PCPBcstHops = atom_Byte P a PCPBcstHops + 1"
    using assms(1) h(1) has_Tag [OF assms(1) h(1)] ne
    by (simp add: atom_Byte_def f has_bump bump_child_def wire_simps)
  moreover have "atom_Byte P a PCPBcstHops + 1 \<noteq> 0"
    using h by (simp add: atom_Byte_def byte_succ_nonzero)
  ultimately have hops: "unat (atom_Byte P f PCPBcstHops) = unat (atom_Byte P a PCPBcstHops) + 1"
    using Suc_unat_pred [of "atom_Byte P a PCPBcstHops + 1"] by simp
  have "filter (\<lambda>c. Tag P c \<notin> S) (map ?b cs) = filter (\<lambda>c. Tag P c \<notin> S) cs"
    if "S = {tag_of P PCPBcstTTL, tag_of P PCPBcstHops}" for S cs
    using that by (induction cs) (auto simp: bump_child_def atom_laws_data [OF assms(1)])
  then show ?thesis
    using forwarded_ttl [OF assms(1,3)] hops
    by (simp add: f wire_simps assms(1) Tag_bump_child [OF assms(1)])
qed

theorem RouteBcst_forwards_exactly_witness:
  "\<exists>f. RouteBcst wire_pcp (Some (bcst_demo 3)) (replicate 16 1) zeroID = (True, Some f) \<and>
       unat (atom_Byte wire_pcp f PCPBcstHops) = 1"
proof -
  obtain f where f: "RouteBcst wire_pcp (Some (bcst_demo 3)) (replicate 16 1) zeroID = (True, Some f)"
    by (simp add: RouteBcst_def wire_eval)
  have "unat (atom_Byte wire_pcp f PCPBcstHops) = unat (atom_Byte wire_pcp (bcst_demo 3) PCPBcstHops) + 1"
    using RouteBcst_forwards_exactly [OF wire_atom_laws wire_tag_laws f] by blast
  then have "unat (atom_Byte wire_pcp f PCPBcstHops) = 1"
    by (simp add: atom_Byte_def wire_eval)
  with f show ?thesis by blast
qed

text \<open>
  A node does not act on its own broadcasts, and consumes without forwarding what is
  addressed to it, whatever the TTL; a broadcast for another channel is dropped.
\<close>

theorem RouteBcst_local_rules:
  assumes "Tag P a = tag_of P PCPBcst"
  shows "(has P a PCPBcstFrom = Some c \<and> GetID P c = (self, True) \<longrightarrow>
            RouteBcst P (Some a) self cid = (False, None)) \<and>
         (has P a PCPBcstFrom = Some c \<and> GetID P c = (sender, True) \<and> sender \<noteq> self \<and>
            has P a PCPBcstChanID = Some k \<and> GetID P k = (cid, True) \<and>
            has P a PCPBcstDest = Some d \<and> GetID P d = (self, True) \<longrightarrow>
            RouteBcst P (Some a) self cid = (True, None)) \<and>
         (has P a PCPBcstChanID = Some k \<and> GetID P k = (other, True) \<and> other \<noteq> cid \<and> \<not> IsEmpty P other \<longrightarrow>
            RouteBcst P (Some a) self cid = (False, None))"
  using assms by (auto simp: RouteBcst_def split: option.splits)

theorem RouteBcst_local_rules_witness:
  "RouteBcst wire_pcp (Some (bcst_demo 3)) (replicate 16 7) zeroID = (False, None)"
  using RouteBcst_local_rules [of wire_pcp "bcst_demo 3"
      "WAtom (tag_of wire_pcp PCPBcstFrom) (replicate 16 7) []" "replicate 16 7" zeroID]
  by (simp add: wire_eval)

end
