(* ===== verification/Network.thy ===== *)
theory Network
  imports Bcst
begin

text \<open>
  \<^verbatim>\<open>internal/pcputil/network.go\<close>: IP address atoms, the handshake parser's handling of the
  remote address, and \<^verbatim>\<open>NetworkState\<close>, what the node has learned about its own address and
  port per address family.
\<close>

datatype addr = TCPAddr (tcp_ip: ip) (tcp_port: int) | OtherAddr string

definition IPAtom :: "'a pcp \<Rightarrow> id4 \<Rightarrow> ip \<Rightarrow> 'a" where
  "IPAtom P tag p =
     (if To4 p \<noteq> [] then NewIntAtom P tag (fst (IPv4ToUint32 P (To4 p)))
      else if To16 p = [] then NewIntAtom P tag 0
      else NewBytesAtom P tag (rev (To16 p)))"

definition AtomIP :: "'a pcp \<Rightarrow> 'a option \<Rightarrow> ip" where
  "AtomIP P oa =
     (case oa of None \<Rightarrow> [] | Some a \<Rightarrow>
        if length (AtomData P a) = 4 then IPv4FromUint32 P (fst (GetInt P a))
        else if length (AtomData P a) \<noteq> 16 then []
        else rev (AtomData P a))"

definition AddrIP :: "addr \<Rightarrow> ip" where
  "AddrIP a = (case a of TCPAddr p _ \<Rightarrow> p | OtherAddr _ \<Rightarrow> [])"

definition ProtocolVersion :: "ip \<Rightarrow> u32" where
  "ProtocolVersion p = (if p \<noteq> [] \<and> To4 p = [] then 100 else 1)"

definition ParseHelo :: "'a pcp \<Rightarrow> 'a \<Rightarrow> HeloPacket \<times> bool" where
  "ParseHelo P a =
     (let rip = tag_of P PCPHeloRemoteIP;
          r = ParseHeloPacket P (NewParentAtom P (Tag P a) (filter (\<lambda>c. Tag P c \<noteq> rip) (Children P a)));
          p = AtomIP P (FindChild P a rip)
      in if To4 p \<noteq> [] then ((fst r)\<lparr>hpRemoteIP := fst (IPv4ToUint32 P p)\<rparr>, snd r) else r)"

definition ReplaceChild :: "'a pcp \<Rightarrow> 'a \<Rightarrow> 'a \<Rightarrow> 'a" where
  "ReplaceChild P a child =
     NewParentAtom P (Tag P a) (filter (\<lambda>c. Tag P c \<noteq> Tag P child) (Children P a) @ [child])"

record networkStatus =
  ns_ip :: ip
  known :: bool
  portOpen :: bool

record NetworkState =
  v4 :: networkStatus
  v6 :: networkStatus
  publicIPv4 :: ip

definition NetworkState0 :: NetworkState where
  "NetworkState0 =
     (let z = \<lparr>ns_ip = [], known = False, portOpen = False\<rparr> in \<lparr>v4 = z, v6 = z, publicIPv4 = []\<rparr>)"

definition SetPublicIPv4 :: "NetworkState \<Rightarrow> ip \<Rightarrow> NetworkState" where
  "SetPublicIPv4 n p = n\<lparr>publicIPv4 := To4 p\<rparr>"

definition observe_status :: "'a pcp \<Rightarrow> 'a \<Rightarrow> ip \<Rightarrow> networkStatus \<Rightarrow> networkStatus" where
  "observe_status P oleh p s =
     (let s' = s\<lparr>ns_ip := p\<rparr> in
      case FindChild P oleh (tag_of P PCPHeloPort) of
        None \<Rightarrow> s'
      | Some c \<Rightarrow> if snd (GetShort P c) then s'\<lparr>known := True, portOpen := fst (GetShort P c) \<noteq> 0\<rparr> else s')"

text \<open>A nil receiver ignores the observation: the model's callers pass an option.\<close>

definition Observe :: "'a pcp \<Rightarrow> NetworkState \<Rightarrow> 'a \<Rightarrow> NetworkState" where
  "Observe P n oleh =
     (let p = AtomIP P (FindChild P oleh (tag_of P PCPHeloRemoteIP)) in
      if p = [] \<or> IsUnspecified p then n
      else if To4 p = [] then n\<lparr>v6 := observe_status P oleh p (v6 n)\<rparr>
      else n\<lparr>v4 := observe_status P oleh p (v4 n)\<rparr>)"

definition Status :: "NetworkState option \<Rightarrow> ip \<Rightarrow> ip \<times> bool \<times> bool" where
  "Status on local =
     (case on of None \<Rightarrow> ([], False, False) | Some n \<Rightarrow>
        (let s4 = (if publicIPv4 n \<noteq> [] then (v4 n)\<lparr>ns_ip := publicIPv4 n\<rparr> else v4 n);
             s = (if ProtocolVersion local = 100 then v6 n else s4)
         in (ns_ip s, known s, portOpen s)))"

definition HeloPort :: "NetworkState option \<Rightarrow> ip \<Rightarrow> u16 \<Rightarrow> u16 \<times> u16" where
  "HeloPort on local listen =
     (case Status on local of (_, kn, op) \<Rightarrow>
        if \<not> kn then (0, listen) else if op then (listen, 0) else (0, 0))"

section \<open>Lemmas\<close>

lemma To4_To4 [simp]: "To4 (To4 p) = To4 p"
  by (simp add: To4_def)

lemma length_To4: "To4 p \<noteq> [] \<Longrightarrow> length (To4 p) = 4"
  by (auto simp: To4_def split: if_splits)

lemma ip_laws_round:
  "ip_laws P \<Longrightarrow> length v = 4 \<Longrightarrow> To4 (IPv4FromUint32 P (fst (IPv4ToUint32 P v))) = v"
  unfolding ip_laws_def by blast

lemma wire_ip_round:
  assumes "atom_laws P" "ip_laws P" "length p = 4 \<or> length p = 16"
  shows "To4 (AtomIP P (Some (IPAtom P tag p))) = To4 p \<and>
         (To4 p = [] \<longrightarrow> AtomIP P (Some (IPAtom P tag p)) = p)"
proof (cases "To4 p = []")
  case True
  with assms(3) have "length p = 16" "To16 p = p" by (auto simp: To4_def To16_def)
  with True assms(1) show ?thesis by (auto simp: IPAtom_def AtomIP_def wire_simps)
next
  case False
  then show ?thesis
    using assms(1) ip_laws_round [OF assms(2) length_To4 [OF False]]
    by (simp add: IPAtom_def AtomIP_def wire_simps)
qed

lemma Status_v4_v6_frame:
  "ProtocolVersion l = 100 \<Longrightarrow> Status (Some (n\<lparr>v4 := s\<rparr>)) l = Status (Some n) l"
  "ProtocolVersion l \<noteq> 100 \<Longrightarrow> Status (Some (n\<lparr>v6 := s\<rparr>)) l = Status (Some n) l"
  by (simp_all add: Status_def Let_def)

section \<open>Properties\<close>

text \<open>
  An address survives the wire: the atom built for an IPv4 or IPv6 address reads back as the
  same address (an IPv4 address possibly in its other byte form).
\<close>

theorem AtomIP_IPAtom:
  assumes "atom_laws P" "ip_laws P" "length p = 4 \<or> length p = 16"
  shows "To4 (AtomIP P (Some (IPAtom P tag p))) = To4 p \<and>
         (To4 p = [] \<longrightarrow> AtomIP P (Some (IPAtom P tag p)) = p)"
  using assms by (rule wire_ip_round)

theorem AtomIP_IPAtom_witness:
  "AtomIP wire_pcp (Some (IPAtom wire_pcp [1, 2, 3, 4] (replicate 15 0 @ [9]))) = replicate 15 0 @ [9]"
proof -
  have "To4 (replicate 15 0 @ [9]) = []" by code_simp
  moreover have "length (replicate 15 (0 :: byte) @ [9]) = 16" by simp
  ultimately show ?thesis
    using AtomIP_IPAtom [OF wire_atom_laws wire_ip_laws, of "replicate 15 0 @ [9]" "[1, 2, 3, 4]"]
    by blast
qed

text \<open>
  What a node claims in its handshake: it asks for a port check exactly while the state of its
  port is unknown, announces its port only when a check has found it open, and never does both.
  Observing one address family leaves what is known about the other unchanged.
\<close>

theorem HeloPort_claims:
  assumes "listen \<noteq> 0"
  shows "(snd (HeloPort n l listen) = listen \<longleftrightarrow> \<not> fst (snd (Status n l))) \<and>
         (fst (HeloPort n l listen) = listen \<longleftrightarrow> fst (snd (Status n l)) \<and> snd (snd (Status n l))) \<and>
         (fst (HeloPort n l listen) = 0 \<or> snd (HeloPort n l listen) = 0) \<and>
         (AtomIP P (FindChild P oleh (tag_of P PCPHeloRemoteIP)) = p \<and> p \<noteq> [] \<and>
            (To4 p = []) \<noteq> (ProtocolVersion l = 100) \<longrightarrow>
            HeloPort (Some (Observe P s oleh)) l listen = HeloPort (Some s) l listen)"
proof -
  have "Status (Some (Observe P s oleh)) l = Status (Some s) l"
    if "(To4 (AtomIP P (FindChild P oleh (tag_of P PCPHeloRemoteIP))) = []) \<noteq> (ProtocolVersion l = 100)"
    using that by (auto simp: Observe_def Let_def Status_v4_v6_frame)
  then show ?thesis
    using assms by (auto simp: HeloPort_def split: prod.splits)
qed

theorem HeloPort_claims_witness: "snd (HeloPort (Some NetworkState0) [] 7144) = 7144"
proof -
  have "\<not> fst (snd (Status (Some NetworkState0) []))"
    by (simp add: Status_def NetworkState0_def Let_def ProtocolVersion_def)
  moreover have "(7144 :: u16) \<noteq> 0" by simp
  ultimately show ?thesis
    using HeloPort_claims [of 7144 "Some NetworkState0" "[]" wire_pcp] by blast
qed

end
