(* ===== verification/Node_Table.thy ===== *)
theory Node_Table
  imports Network "HOL-Library.Multiset"
begin

text \<open>
  \<^verbatim>\<open>internal/channel/nodes.go\<close> and \<^verbatim>\<open>observed_hosts.go\<close>: what a channel has learned about other
  nodes from HOST atoms.  A nil map of the code is an empty map here.
\<close>

definition maxKnownHosts :: nat where
  "maxKnownHosts = 32"

definition nodeLifetime :: int where
  "nodeLifetime = 180 * second"

record nodeStats =
  nsListeners :: int
  nsRelays :: int
  nsUpdated :: time

record 'a nodeTable =
  knownHosts :: "'a list"
  hostTimes :: "gnuid \<rightharpoonup> time"
  owners :: "gnuid \<rightharpoonup> gnuid"
  stats :: "gnuid \<rightharpoonup> nodeStats"

definition nodeTable0 :: "'a nodeTable" where
  "nodeTable0 = \<lparr>knownHosts = [], hostTimes = Map.empty, owners = Map.empty, stats = Map.empty\<rparr>"

definition hostSessionID :: "'a pcp \<Rightarrow> 'a \<Rightarrow> gnuid option" where
  "hostSessionID P host =
     (case FindChild P host (tag_of P PCPHostID) of
        None \<Rightarrow> None
      | Some a \<Rightarrow> if \<not> snd (GetID P a) \<or> fst (GetID P a) = zeroID then None else Some (fst (GetID P a)))"

text \<open>The value of a call whose second result is dropped.\<close>

definition hostSID :: "'a pcp \<Rightarrow> 'a \<Rightarrow> gnuid" where
  "hostSID P host = (case hostSessionID P host of None \<Rightarrow> zeroID | Some i \<Rightarrow> i)"

definition addKnownHost :: "'a pcp \<Rightarrow> time \<Rightarrow> 'a \<Rightarrow> 'a nodeTable \<Rightarrow> 'a nodeTable" where
  "addKnownHost P now host n =
     (case hostSessionID P host of
        None \<Rightarrow> n
      | Some sid \<Rightarrow>
          (let n1 = n\<lparr>hostTimes := (hostTimes n)(sid \<mapsto> now)\<rparr>; hs = knownHosts n in
           case find_index (\<lambda>i. hostSessionID P (hs ! i) = Some sid) 0 (length hs) of
             Some i \<Rightarrow> n1\<lparr>knownHosts := hs[i := host]\<rparr>
           | None \<Rightarrow>
               if length hs \<ge> maxKnownHosts then
                 (case hostSessionID P (hs ! 0) of
                    Some i \<Rightarrow> n1\<lparr>hostTimes := (hostTimes n1)(i := None), knownHosts := tl hs @ [host]\<rparr>
                  | None \<Rightarrow> n1\<lparr>knownHosts := tl hs @ [host]\<rparr>)
               else n1\<lparr>knownHosts := hs @ [host]\<rparr>))"

record host_scores =
  hsIP :: u32
  hsHasIP :: bool
  hsHasPort :: bool
  hsFlags :: byte
  hsRelays :: u32
  hsHops :: u32

definition score_child :: "'a pcp \<Rightarrow> host_scores \<Rightarrow> 'a \<Rightarrow> host_scores" where
  "score_child P s c =
     (let t = Tag P c; T = tag_of P in
      if t = T PCPHostIP then
        (if \<not> hsHasIP s then s\<lparr>hsIP := fst (GetInt P c), hsHasIP := AtomIP P (Some c) \<noteq> []\<rparr> else s)
      else if t = T PCPHostPort then s\<lparr>hsHasPort := True\<rparr>
      else if t = T PCPHostFlags1 then s\<lparr>hsFlags := fst (GetByte P c)\<rparr>
      else if t = T PCPHostNumRelays then s\<lparr>hsRelays := fst (GetInt P c)\<rparr>
      else if t = T PCPHostUphostHops then s\<lparr>hsHops := fst (GetInt P c)\<rparr>
      else s)"

definition hostScore :: "'a pcp \<Rightarrow> rat \<Rightarrow> 'a \<Rightarrow> u32 \<Rightarrow> rat" where
  "hostScore P rnd host requesterIP =
     (let s = foldl (score_child P)
                \<lparr>hsIP = 0, hsHasIP = False, hsHasPort = False, hsFlags = 0, hsRelays = 0, hsHops = 0\<rparr>
                (Children P host);
          hasGlobal = (hsHasIP s \<and> hsHasPort s)
      in (if hasGlobal then 16000 else 0) +
         (if hasGlobal \<and> requesterIP \<noteq> 0 \<and> hsIP s = requesterIP then 8000 else 0) +
         (if hsFlags s AND flag_of P PCPHostFlags1Relay \<noteq> 0 then 4000 else 0) +
         (if hsFlags s AND flag_of P PCPHostFlags1Recv \<noteq> 0 then 2000 else 0) +
         (if hsHops s < 10 then of_int (uint ((10 - hsHops s) * 100)) else 0) +
         of_int (uint (hsRelays s * 10)) + rnd)"

definition source_host_ok :: "'a pcp \<Rightarrow> time \<Rightarrow> 'a nodeTable \<Rightarrow> gnuid \<Rightarrow> 'a \<Rightarrow> bool" where
  "source_host_ok P now n requester h \<longleftrightarrow>
     (case hostTimes n (hostSID P h) of Some t \<Rightarrow> \<not> now - t > nodeLifetime | None \<Rightarrow> True) \<and>
     hostSessionID P h \<noteq> Some requester"

definition selectSourceHosts ::
  "'a pcp \<Rightarrow> (nat \<Rightarrow> rat) \<Rightarrow> time \<Rightarrow> int \<Rightarrow> gnuid \<Rightarrow> u32 \<Rightarrow> 'a nodeTable \<Rightarrow> 'a list" where
  "selectSourceHosts P rnd now maxn requester requesterIP n =
     (if maxn \<le> 0 then []
      else
        let ok = filter (source_host_ok P now n requester) (knownHosts n);
            cands = map (\<lambda>i. (ok ! i, hostScore P (rnd i) (ok ! i) requesterIP)) [0..<length ok]
        in map fst (take (nat maxn) (sort_key (\<lambda>c. - snd c) cands)))"

definition updateStats :: "time \<Rightarrow> gnuid \<Rightarrow> int \<Rightarrow> int \<Rightarrow> 'a nodeTable \<Rightarrow> 'a nodeTable" where
  "updateStats now sessionID listeners relays n =
     (let old = (\<lambda>i. case stats n i of Some s \<Rightarrow> now - nsUpdated s > nodeLifetime | None \<Rightarrow> False) in
      n\<lparr>stats := (\<lambda>i. if old i then None else stats n i)
                 (sessionID \<mapsto> \<lparr>nsListeners = listeners, nsRelays = relays, nsUpdated = now\<rparr>),
        owners := (\<lambda>i. if old i then None else owners n i)\<rparr>)"

definition owner_of :: "'a nodeTable \<Rightarrow> gnuid \<Rightarrow> gnuid" where
  "owner_of n i = (case owners n i of None \<Rightarrow> zeroID | Some o' \<Rightarrow> o')"

text \<open>The loop over the cached hosts; the last argument collects the hosts that are kept.\<close>

fun remove_hosts :: "'a pcp \<Rightarrow> gnuid \<Rightarrow> 'a list \<Rightarrow> 'a nodeTable \<Rightarrow> 'a list \<Rightarrow> 'a nodeTable" where
  "remove_hosts P s [] n kept = n\<lparr>knownHosts := kept\<rparr>"
| "remove_hosts P s (h # hs) n kept =
     (let i = hostSID P h in
      if i = s \<or> owner_of n i = s then
        remove_hosts P s hs (n\<lparr>stats := (stats n)(i := None), hostTimes := (hostTimes n)(i := None),
                               owners := (owners n)(i := None)\<rparr>) kept
      else remove_hosts P s hs n (kept @ [h]))"

definition removeStats :: "'a pcp \<Rightarrow> gnuid \<Rightarrow> 'a nodeTable \<Rightarrow> 'a nodeTable" where
  "removeStats P s n =
     (let owned = (\<lambda>m i. case owners m i of None \<Rightarrow> False | Some o' \<Rightarrow> i = s \<or> o' = s);
          n1 = n\<lparr>stats := (\<lambda>i. if i = s \<or> owned n i then None else stats n i)\<rparr>;
          n2 = remove_hosts P s (knownHosts n1) n1 []
      in n2\<lparr>owners := (\<lambda>i. if owned n2 i then None else owners n2 i)\<rparr>)"

text \<open>\<open>order\<close> enumerates the session identifiers with statistics.\<close>

definition fresh_stats :: "time \<Rightarrow> 'a nodeTable \<Rightarrow> gnuid list \<Rightarrow> nodeStats list" where
  "fresh_stats now n order =
     filter (\<lambda>s. \<not> now - nsUpdated s > nodeLifetime) (List.map_filter (stats n) order)"

definition totals :: "gnuid list \<Rightarrow> time \<Rightarrow> 'a nodeTable \<Rightarrow> int \<times> int" where
  "totals order now n =
     (sum_list (map nsListeners (fresh_stats now n order)), sum_list (map nsRelays (fresh_stats now n order)))"

definition reset :: "'a nodeTable \<Rightarrow> 'a nodeTable" where
  "reset n = nodeTable0"

section \<open>Observed hosts\<close>

definition ObserveHost :: "'a pcp \<Rightarrow> time \<Rightarrow> 'a \<Rightarrow> gnuid \<Rightarrow> 'a nodeTable \<Rightarrow> 'a nodeTable" where
  "ObserveHost P now host via n =
     (case hostSessionID P host of
        None \<Rightarrow> n
      | Some i \<Rightarrow>
          (let n1 = addKnownHost P now host n;
               n2 = updateStats now i (uint (atom_Int P host PCPHostNumListeners))
                      (uint (atom_Int P host PCPHostNumRelays)) n1
           in n2\<lparr>owners := (owners n2)(i \<mapsto> via)\<rparr>))"

definition KnownHosts :: "'a pcp \<Rightarrow> time \<Rightarrow> 'a nodeTable \<Rightarrow> 'a list" where
  "KnownHosts P now n =
     filter (\<lambda>h. now - (case hostTimes n (hostSID P h) of Some t \<Rightarrow> t | None \<Rightarrow> 0) \<le> nodeLifetime) (knownHosts n)"

definition relayUnproductive :: "'a pcp \<Rightarrow> time \<Rightarrow> gnuid \<Rightarrow> 'a nodeTable \<Rightarrow> bool" where
  "relayUnproductive P now i n =
     (case find (\<lambda>h. hostSID P h = i) (KnownHosts P now n) of
        None \<Rightarrow> False
      | Some h \<Rightarrow> atom_Byte P h PCPHostFlags1 AND flag_of P PCPHostFlags1Relay = 0 \<and>
                  atom_Int P h PCPHostNumRelays = 0)"

section \<open>Invariant\<close>

text \<open>
  The cache is bounded, every cached host has a session identifier of its own, and a time is kept
  for exactly the cached hosts.
\<close>

definition node_inv :: "'a pcp \<Rightarrow> 'a nodeTable \<Rightarrow> bool" where
  "node_inv P n \<longleftrightarrow>
     length (knownHosts n) \<le> maxKnownHosts \<and> (\<forall>h \<in> set (knownHosts n). hostSessionID P h \<noteq> None) \<and>
     distinct (map (hostSID P) (knownHosts n)) \<and> dom (hostTimes n) = hostSID P ` set (knownHosts n)"

lemma hostSID_Some: "hostSessionID P h = Some i \<Longrightarrow> hostSID P h = i"
  by (simp add: hostSID_def)

lemma hostSID_eq: "hostSessionID P h \<noteq> None \<Longrightarrow> hostSessionID P h = Some i \<longleftrightarrow> hostSID P h = i"
  by (auto simp: hostSID_def)

lemma addKnownHost_replace:
  assumes "node_inv P n" "i < length (knownHosts n)" "hostSID P host = hostSID P (knownHosts n ! i)"
    "hostSessionID P host \<noteq> None"
  shows "node_inv P (n\<lparr>hostTimes := (hostTimes n)(hostSID P host \<mapsto> now), knownHosts := (knownHosts n)[i := host]\<rparr>)"
proof -
  let ?hs = "knownHosts n"
  have ids: "map (hostSID P) (?hs[i := host]) = map (hostSID P) ?hs"
    using assms(2,3) by (simp add: map_update) (metis list_update_id nth_map)
  then have "hostSID P ` set (?hs[i := host]) = hostSID P ` set ?hs" by (metis list.set_map)
  moreover have "hostSID P host \<in> hostSID P ` set ?hs" using assms(2,3) by (metis imageI nth_mem)
  ultimately show ?thesis
    using assms ids by (auto simp: node_inv_def dest!: set_update_subset_insert [THEN subsetD])
qed

lemma addKnownHost_append:
  assumes "node_inv P n" "hostSID P host \<notin> hostSID P ` set (knownHosts n)" "hostSessionID P host \<noteq> None"
  shows "length (knownHosts n) < maxKnownHosts \<Longrightarrow>
      node_inv P (n\<lparr>hostTimes := (hostTimes n)(hostSID P host \<mapsto> now), knownHosts := knownHosts n @ [host]\<rparr>)"
    and "knownHosts n = h # hs \<Longrightarrow>
      node_inv P (n\<lparr>hostTimes := (hostTimes n)(hostSID P host \<mapsto> now, hostSID P h := None), knownHosts := hs @ [host]\<rparr>)"
  using assms by (auto simp: node_inv_def) (metis imageI)

lemma addKnownHost_inv: "node_inv P n \<Longrightarrow> node_inv P (addKnownHost P now host n)"
proof (cases "hostSessionID P host")
  case (Some sid)
  assume inv: "node_inv P n"
  let ?hs = "knownHosts n"
  have sid: "hostSID P host = sid" using Some by (simp add: hostSID_def)
  show ?thesis
  proof (cases "find_index (\<lambda>i. hostSessionID P (?hs ! i) = Some sid) 0 (length ?hs)")
    case (Some i)
    then have "i < length ?hs" "hostSID P (?hs ! i) = sid"
      using find_index_Some [OF Some] by (auto simp: hostSID_Some)
    with addKnownHost_replace [OF inv, where i = i and host = host and now = now] \<open>hostSessionID P host = Some sid\<close> sid Some show ?thesis
      by (simp add: addKnownHost_def Let_def)
  next
    case None
    have nin: "sid \<notin> hostSID P ` set ?hs"
    proof
      assume "sid \<in> hostSID P ` set ?hs"
      then obtain i where "i < length ?hs" "hostSID P (?hs ! i) = sid" by (auto simp: in_set_conv_nth)
      with inv have "hostSessionID P (?hs ! i) = Some sid" by (simp add: node_inv_def hostSID_eq)
      with find_index_None [OF None, of i] \<open>i < length ?hs\<close> show False by simp
    qed
    note app = addKnownHost_append [OF inv, where host = host and now = now, unfolded sid, OF nin]
    show ?thesis
    proof (cases "length ?hs \<ge> maxKnownHosts")
      case True
      then obtain h hs where hs: "?hs = h # hs" by (cases ?hs) (auto simp: maxKnownHosts_def)
      moreover have "hostSessionID P h = Some (hostSID P h)"
        using inv hs by (auto simp: node_inv_def hostSID_eq)
      ultimately show ?thesis
        using app(2) [OF _ hs] True None \<open>hostSessionID P host = Some sid\<close> by (simp add: addKnownHost_def Let_def)
    next
      case False
      then show ?thesis using app(1) None \<open>hostSessionID P host = Some sid\<close> by (simp add: addKnownHost_def Let_def)
    qed
  qed
qed (simp add: addKnownHost_def)

lemma node_inv_frame:
  "node_inv P (n\<lparr>stats := x\<rparr>) = node_inv P n" "node_inv P (n\<lparr>owners := y\<rparr>) = node_inv P n"
  by (simp_all add: node_inv_def)

lemma updateStats_inv: "node_inv P n \<Longrightarrow> node_inv P (updateStats now s l r n)"
  by (simp add: updateStats_def Let_def node_inv_def)

lemma ObserveHost_inv: "node_inv P n \<Longrightarrow> node_inv P (ObserveHost P now host via n)"
  by (simp add: ObserveHost_def Let_def node_inv_frame updateStats_inv addKnownHost_inv split: option.splits)

text \<open>What the loop of \<^verbatim>\<open>removeStats\<close> leaves, when the cached hosts have different identifiers.\<close>

definition drops :: "'a pcp \<Rightarrow> gnuid \<Rightarrow> 'a nodeTable \<Rightarrow> 'a \<Rightarrow> bool" where
  "drops P s n h \<longleftrightarrow> hostSID P h = s \<or> owner_of n (hostSID P h) = s"

definition without :: "gnuid set \<Rightarrow> (gnuid \<rightharpoonup> 'b) \<Rightarrow> (gnuid \<rightharpoonup> 'b)" where
  "without A m = (\<lambda>i. if i \<in> A then None else m i)"

lemma without_simps:
  "without A (\<lambda>a. if a = x then None else m a) = without (insert x A) m" "without {} m = m"
  "without A m i = (if i \<in> A then None else m i)" "dom (without A m) = dom m - A"
  by (auto simp: without_def split: if_splits)

definition gone :: "'a pcp \<Rightarrow> gnuid \<Rightarrow> 'a nodeTable \<Rightarrow> 'a list \<Rightarrow> gnuid set" where
  "gone P s n hs = hostSID P ` {h \<in> set hs. drops P s n h}"

lemma remove_hosts_result:
  assumes "distinct (map (hostSID P) hs)"
  shows "remove_hosts P s hs n kept =
    n\<lparr>knownHosts := kept @ filter (\<lambda>h. \<not> drops P s n h) hs,
      hostTimes := without (gone P s n hs) (hostTimes n),
      owners := without (gone P s n hs) (owners n),
      stats := without (gone P s n hs) (stats n)\<rparr>"
  using assms unfolding gone_def
proof (induction hs arbitrary: n kept)
  case (Cons h hs)
  show ?case
  proof (cases "drops P s n h")
    case True
    let ?n = "n\<lparr>stats := (stats n)(hostSID P h := None), hostTimes := (hostTimes n)(hostSID P h := None),
                owners := (owners n)(hostSID P h := None)\<rparr>"
    have same: "drops P s ?n g = drops P s n g" if "g \<in> set hs" for g
    proof -
      have "hostSID P g \<noteq> hostSID P h" using Cons.prems that by (metis distinct.simps(2) image_eqI list.simps(9) list.set_map)
      then show ?thesis by (simp add: drops_def owner_of_def)
    qed
    have step: "remove_hosts P s (h # hs) n kept = remove_hosts P s hs ?n kept"
      using True by (simp add: drops_def Let_def)
    have "filter (\<lambda>g. \<not> drops P s ?n g) hs = filter (\<lambda>g. \<not> drops P s n g) hs"
      using same by (auto intro: filter_cong)
    moreover have "{g \<in> set hs. drops P s ?n g} = {g \<in> set hs. drops P s n g}" using same by blast
    moreover have "hostSID P ` {g \<in> set (h # hs). drops P s n g} =
      insert (hostSID P h) (hostSID P ` {g \<in> set hs. drops P s n g})" using True by auto
    ultimately show ?thesis
      using Cons.IH [of ?n kept] Cons.prems True unfolding step by (simp add: without_simps(1))
  next
    case False
    then have step: "remove_hosts P s (h # hs) n kept = remove_hosts P s hs n (kept @ [h])"
      by (simp add: drops_def Let_def)
    have "{g \<in> set (h # hs). drops P s n g} = {g \<in> set hs. drops P s n g}" using False by auto
    then show ?thesis using Cons.IH [of n "kept @ [h]"] Cons.prems False unfolding step by simp
  qed
qed (simp add: without_simps(2))

lemma removeStats_result:
  assumes "node_inv P n"
  shows "removeStats P s n =
    n\<lparr>knownHosts := filter (\<lambda>h. \<not> drops P s n h) (knownHosts n),
      hostTimes := without (gone P s n (knownHosts n)) (hostTimes n),
      owners := without (gone P s n (knownHosts n) \<union> {i. i = s \<or> owners n i = Some s}) (owners n),
      stats := without (gone P s n (knownHosts n) \<union> {i. i = s \<or> owners n i = Some s}) (stats n)\<rparr>"
proof -
  have d: "distinct (map (hostSID P) (knownHosts n))" using assms by (simp add: node_inv_def)
  have same: "drops P s (n\<lparr>stats := x\<rparr>) = drops P s n" "gone P s (n\<lparr>stats := x\<rparr>) = gone P s n" for x
    by (auto simp: drops_def owner_of_def gone_def fun_eq_iff)
  show ?thesis unfolding removeStats_def Let_def
    using d by (auto simp: remove_hosts_result same without_def fun_eq_iff split: option.splits)
qed

lemma removeStats_inv:
  assumes "node_inv P n"
  shows "node_inv P (removeStats P s n)"
proof -
  let ?hs = "knownHosts n" and ?keep = "\<lambda>h. \<not> drops P s n h"
  have inj: "inj_on (hostSID P) (set ?hs)" and dom: "dom (hostTimes n) = hostSID P ` set ?hs"
    using assms by (auto simp: node_inv_def distinct_map)
  have "dom (without (gone P s n ?hs) (hostTimes n)) = hostSID P ` set (filter ?keep ?hs)"
    unfolding without_simps dom gone_def using inj by (auto simp: inj_on_def)
  then show ?thesis
    using assms unfolding removeStats_result [OF assms]
    by (simp add: node_inv_def distinct_map_filter le_trans [OF length_filter_le])
qed

section \<open>Properties\<close>

datatype 'a node_op =
  NAdd time 'a | NUpdate time gnuid int int | NRemove gnuid | NReset | NObserve time 'a gnuid

fun node_step :: "'a pcp \<Rightarrow> 'a node_op \<Rightarrow> 'a nodeTable \<Rightarrow> 'a nodeTable" where
  "node_step P (NAdd t h) n = addKnownHost P t h n"
| "node_step P (NUpdate t i l r) n = updateStats t i l r n"
| "node_step P (NRemove i) n = removeStats P i n"
| "node_step P NReset n = reset n"
| "node_step P (NObserve t h via) n = ObserveHost P t h via n"

lemma node_inv_empty: "node_inv P nodeTable0"
  by (simp add: node_inv_def nodeTable0_def)

lemma node_steps_inv: "node_inv P n \<Longrightarrow> node_inv P (fold (node_step P) ops n)"
proof (induction ops arbitrary: n)
  case (Cons x ops)
  have "node_inv P (node_step P x n)"
    using Cons.prems
    by (cases x) (simp_all add: addKnownHost_inv updateStats_inv removeStats_inv ObserveHost_inv
        reset_def node_inv_empty)
  then show ?case using Cons.IH by simp
qed simp

text \<open>
  Whatever atoms peers send and in whatever order nodes come and go, the table stays bounded:
  at most 32 hosts are cached, no two with the same session identifier and none without one, and
  a time is kept for exactly the cached hosts.
\<close>

theorem node_table_bounded:
  "length (knownHosts (fold (node_step P) ops nodeTable0)) \<le> 32 \<and>
   node_inv P (fold (node_step P) ops nodeTable0)"
  using node_steps_inv [OF node_inv_empty, of P ops] by (simp add: node_inv_def maxKnownHosts_def)

text \<open>
  When a downstream peer leaves, everything learned through it is forgotten (its own counts and
  host entry, and those of the nodes it reported), and nothing else is.
\<close>

theorem removeStats_forgets_subtree:
  assumes "node_inv P n" "s \<noteq> zeroID" "n' = removeStats P s n"
  shows "(i = s \<or> owners n i = Some s \<longrightarrow>
            stats n' i = None \<and> owners n' i = None \<and> hostTimes n' i = None \<and>
            (\<forall>h \<in> set (knownHosts n'). hostSID P h \<noteq> i)) \<and>
         (i \<noteq> s \<and> owners n i \<noteq> Some s \<longrightarrow>
            stats n' i = stats n i \<and> owners n' i = owners n i \<and> hostTimes n' i = hostTimes n i \<and>
            filter (\<lambda>h. hostSID P h = i) (knownHosts n') = filter (\<lambda>h. hostSID P h = i) (knownHosts n))"
proof -
  have drop: "drops P s n h \<longleftrightarrow> hostSID P h = s \<or> owners n (hostSID P h) = Some s" for h
    using assms(2) by (auto simp: drops_def owner_of_def split: option.splits)
  have times: "hostTimes n j = None" if "j \<notin> hostSID P ` set (knownHosts n)" for j
    using assms(1) that by (metis domIff node_inv_def)
  show ?thesis
    unfolding assms(3) removeStats_result [OF assms(1)]
    by (auto simp: without_def gone_def drop intro!: times filter_cong)
qed

text \<open>
  The hosts handed to a peer that finds the relay full: known hosts that are not expired and
  not the peer itself, at most as many as asked for, best score first, and none is withheld while
  there is room.
\<close>

theorem selectSourceHosts_best:
  assumes "0 < maxn" "r = selectSourceHosts P rnd now maxn requester ip n"
    "ok = filter (source_host_ok P now n requester) (knownHosts n)"
  shows "length r = min (nat maxn) (length ok) \<and> set r \<subseteq> set ok \<and>
    (\<exists>cands. mset cands = mset (map (\<lambda>i. (ok ! i, hostScore P (rnd i) (ok ! i) ip)) [0..<length ok]) \<and>
       sorted_wrt (\<lambda>a b. snd a \<ge> snd b) cands \<and> r = map fst (take (nat maxn) cands))"
proof -
  let ?c = "map (\<lambda>i. (ok ! i, hostScore P (rnd i) (ok ! i) ip)) [0..<length ok]"
  have r: "r = map fst (take (nat maxn) (sort_key (\<lambda>c. - snd c) ?c))"
    using assms by (simp add: selectSourceHosts_def Let_def)
  moreover have "sorted_wrt (\<lambda>a b. snd a \<ge> snd b) (sort_key (\<lambda>c. - snd c) ?c)"
    using sorted_sort_key [of "\<lambda>c. - snd c" ?c] unfolding sorted_map by simp
  moreover have "set r \<subseteq> fst ` set (sort_key (\<lambda>c. - snd c) ?c)"
    unfolding r set_map by (intro image_mono set_take_subset)
  then have "set r \<subseteq> set ok" by auto
  ultimately show ?thesis by (intro conjI exI [of _ "sort_key (\<lambda>c. - snd c) ?c"]) simp_all
qed

definition demo_host :: "byte \<Rightarrow> wire_atom" where
  "demo_host b = WAtom (tag_of wire_pcp PCPHost) [] [WAtom (tag_of wire_pcp PCPHostID) (replicate 16 b) []]"

lemma demo_host_sid: "b \<noteq> 0 \<Longrightarrow> hostSessionID wire_pcp (demo_host b) = Some (replicate 16 b)"
  by (simp add: hostSessionID_def demo_host_def wire_sel zeroID_def)

definition demo_table :: "wire_atom nodeTable" where
  "demo_table = ObserveHost wire_pcp 9 (demo_host 2) (replicate 16 1) (ObserveHost wire_pcp 5 (demo_host 1) (replicate 16 1) nodeTable0)"

theorem removeStats_forgets_subtree_witness:
  "stats demo_table (replicate 16 2) \<noteq> None \<and>
   stats (removeStats wire_pcp (replicate 16 1) demo_table) (replicate 16 2) = None"
proof -
  have "node_inv wire_pcp demo_table"
    unfolding demo_table_def by (intro ObserveHost_inv node_inv_empty)
  moreover have "replicate 16 (1 :: byte) \<noteq> zeroID" by (simp add: zeroID_def)
  moreover have "owners demo_table (replicate 16 2) = Some (replicate 16 1)"
    "stats demo_table (replicate 16 2) \<noteq> None"
    by (simp_all add: demo_table_def ObserveHost_def demo_host_sid Let_def updateStats_def)
  ultimately show ?thesis
    using removeStats_forgets_subtree [OF _ _ refl, of wire_pcp demo_table "replicate 16 1" "replicate 16 2"] by blast
qed

theorem selectSourceHosts_best_witness:
  "set (selectSourceHosts wire_pcp (\<lambda>_. 0) 9 4 (replicate 16 2) 0 demo_table) \<subseteq>
   set (filter (source_host_ok wire_pcp 9 demo_table (replicate 16 2)) (knownHosts demo_table))"
  using selectSourceHosts_best [OF _ refl refl, of 4 wire_pcp "\<lambda>_. 0" 9 "replicate 16 2" 0 demo_table] zero_less_numeral by blast

end
