(* ===== verification/Chan_Info.thy ===== *)
theory Chan_Info
  imports Pcp_Lib
begin

text \<open>\<^verbatim>\<open>internal/channel/info.go\<close>: channel and track metadata, and their forms on the wire.\<close>

record ChannelInfo =
  Name :: string
  URL :: string
  Desc :: string
  Comment :: string
  Genre :: string
  CType :: string
  MIMEType :: string
  Ext :: string
  Bitrate :: u32

definition ChannelInfo0 :: ChannelInfo where
  "ChannelInfo0 = \<lparr>Name = [], URL = [], Desc = [], Comment = [], Genre = [], CType = [], MIMEType = [],
     Ext = [], Bitrate = 0\<rparr>"

definition ChannelInfo_ToPCP :: "ChannelInfo \<Rightarrow> ChanInfo" where
  "ChannelInfo_ToPCP ci =
     \<lparr>ciName = Name ci, ciURL = URL ci, ciDesc = Desc ci, ciComment = Comment ci, ciGenre = Genre ci,
      ciType = CType ci, ciStreamType = MIMEType ci, ciStreamExt = Ext ci, ciBitrate = Bitrate ci\<rparr>"

definition ChannelInfoFromPCP :: "ChanInfo \<Rightarrow> ChannelInfo" where
  "ChannelInfoFromPCP ci =
     (let info = \<lparr>Name = ciName ci, URL = ciURL ci, Desc = ciDesc ci, Comment = ciComment ci,
                  Genre = ciGenre ci, CType = ciType ci, MIMEType = ciStreamType ci, Ext = ciStreamExt ci,
                  Bitrate = ciBitrate ci\<rparr> in
      if (MIMEType info = [] \<or> Ext info = []) \<and> CType info = ''FLV'' then
        info\<lparr>MIMEType := (if MIMEType info = [] then ''video/x-flv'' else MIMEType info),
             Ext := (if Ext info = [] then ''.flv'' else Ext info)\<rparr>
      else info)"

record TrackInfo =
  tiTitle :: string
  tiCreator :: string
  tiURL :: string
  tiAlbum :: string

definition TrackInfo0 :: TrackInfo where
  "TrackInfo0 = \<lparr>tiTitle = [], tiCreator = [], tiURL = [], tiAlbum = []\<rparr>"

definition TrackInfo_ToPCP :: "TrackInfo \<Rightarrow> ChanTrack" where
  "TrackInfo_ToPCP ti = \<lparr>ctTitle = tiTitle ti, ctCreator = tiCreator ti, ctURL = tiURL ti, ctAlbum = tiAlbum ti\<rparr>"

definition TrackInfoFromPCP :: "ChanTrack \<Rightarrow> TrackInfo" where
  "TrackInfoFromPCP ct = \<lparr>tiTitle = ctTitle ct, tiCreator = ctCreator ct, tiURL = ctURL ct, tiAlbum = ctAlbum ct\<rparr>"

lemma TrackInfo_round: "TrackInfoFromPCP (TrackInfo_ToPCP ti) = ti"
  by (simp add: TrackInfoFromPCP_def TrackInfo_ToPCP_def)

text \<open>A second hop changes nothing: what one relay inferred, the next one reads.\<close>

lemma ChannelInfo_hop:
  "ChannelInfoFromPCP (ChannelInfo_ToPCP (ChannelInfoFromPCP ci)) = ChannelInfoFromPCP ci"
  by (simp add: ChannelInfoFromPCP_def ChannelInfo_ToPCP_def Let_def)

lemma ChannelInfo_round:
  "CType i \<noteq> ''FLV'' \<or> MIMEType i \<noteq> [] \<and> Ext i \<noteq> [] \<Longrightarrow> ChannelInfoFromPCP (ChannelInfo_ToPCP i) = i"
  by (auto simp: ChannelInfoFromPCP_def ChannelInfo_ToPCP_def Let_def)

end
