(* ===== verification/Go_Utf8.thy ===== *)
theory Go_Utf8
  imports Go_Net
begin

text \<open>
  Go's \<^verbatim>\<open>unicode/utf8\<close> as far as \<^verbatim>\<open>strings.ToValidUTF8\<close> and range loops over strings use it: the
  number of bytes of the well-formed encoding at the head of a byte string.
\<close>

text \<open>For a first byte: the length of its encodings (0 when it starts none) and the range of the
  second byte; further bytes are plain continuation bytes.\<close>

definition utf8_first :: "nat \<Rightarrow> nat \<times> nat \<times> nat" where
  "utf8_first b =
     (if b < 0x80 then (1, 0x80, 0xBF)
      else if b < 0xC2 then (0, 0x80, 0xBF)
      else if b < 0xE0 then (2, 0x80, 0xBF)
      else if b < 0xF0 then (3, if b = 0xE0 then 0xA0 else 0x80, if b = 0xED then 0x9F else 0xBF)
      else if b < 0xF5 then (4, if b = 0xF0 then 0x90 else 0x80, if b = 0xF4 then 0x8F else 0xBF)
      else (0, 0x80, 0xBF))"

definition utf8_cont :: "nat \<Rightarrow> nat \<Rightarrow> string \<Rightarrow> nat \<Rightarrow> bool" where
  "utf8_cont lo hi s i \<longleftrightarrow> i < length s \<and>
     (if i = 1 then lo \<le> char_code (s ! i) \<and> char_code (s ! i) \<le> hi
      else 0x80 \<le> char_code (s ! i) \<and> char_code (s ! i) \<le> 0xBF)"

definition utf8_len :: "string \<Rightarrow> nat" where
  "utf8_len s =
     (if s = [] then 0
      else case utf8_first (char_code (hd s)) of (n, lo, hi) \<Rightarrow>
        if list_all (utf8_cont lo hi s) [1..<n] then n else 0)"

text \<open>\<^verbatim>\<open>strings.ToValidUTF8(s, "")\<close>: bytes that start no well-formed encoding are dropped.\<close>

function ToValidUTF8 :: "string \<Rightarrow> string" where
  "ToValidUTF8 s =
     (if s = [] then []
      else if utf8_len s = 0 then ToValidUTF8 (tl s)
      else take (utf8_len s) s @ ToValidUTF8 (drop (utf8_len s) s))"
  by pat_completeness auto
termination
  by (relation "measure length") auto

declare ToValidUTF8.simps [simp del]

definition valid_utf8 :: "string \<Rightarrow> bool" where
  "valid_utf8 s \<longleftrightarrow> ToValidUTF8 s = s"

lemma ToValidUTF8_Nil [simp]: "ToValidUTF8 [] = []"
  by (simp add: ToValidUTF8.simps)

lemma utf8_cont_take: "i < n \<Longrightarrow> utf8_cont lo hi s i \<Longrightarrow> utf8_cont lo hi (take n s @ t) i"
  by (auto simp: utf8_cont_def nth_append)

lemma hd_take_append: "0 < n \<Longrightarrow> s \<noteq> [] \<Longrightarrow> hd (take n s @ t) = hd s"
  by (cases s; cases n) auto

lemma utf8_len_take:
  assumes "utf8_len s \<noteq> 0"
  shows "utf8_len (take (utf8_len s) s @ t) = utf8_len s"
proof -
  obtain n lo hi where f: "utf8_first (char_code (hd s)) = (n, lo, hi)" by (cases "utf8_first (char_code (hd s))")
  with assms have n: "s \<noteq> []" "utf8_len s = n" "0 < n" "list_all (utf8_cont lo hi s) [1..<n]"
    by (auto simp: utf8_len_def split: if_splits)
  then have "list_all (utf8_cont lo hi (take n s @ t)) [1..<n]"
    by (auto simp: list_all_iff utf8_cont_take)
  with n f show ?thesis by (cases s) (auto simp: utf8_len_def hd_take_append)
qed

lemma utf8_len_le: "utf8_len s \<le> length s"
proof -
  obtain n lo hi where f: "utf8_first (char_code (hd s)) = (n, lo, hi)" by (cases "utf8_first (char_code (hd s))")
  have "n \<le> length s" if "s \<noteq> []" "list_all (utf8_cont lo hi s) [1..<n]"
  proof (cases "n \<le> 1")
    case False
    then have "n - 1 \<in> set [1..<n]" by auto
    with that(2) have "n - 1 < length s" by (auto simp: list_all_iff utf8_cont_def)
    then show ?thesis by simp
  qed (use that(1) in \<open>cases s; auto\<close>)
  then show ?thesis using f by (auto simp: utf8_len_def)
qed

lemma ToValidUTF8_step:
  assumes "utf8_len s \<noteq> 0"
  shows "ToValidUTF8 (take (utf8_len s) s @ t) = take (utf8_len s) s @ ToValidUTF8 t"
proof -
  have s: "s \<noteq> []" using assms by (auto simp: utf8_len_def)
  moreover have "utf8_len s \<le> length s" by (rule utf8_len_le)
  ultimately show ?thesis
    using assms by (subst ToValidUTF8.simps) (auto simp: utf8_len_take [OF assms] min_def)
qed

lemma ToValidUTF8_valid: "valid_utf8 (ToValidUTF8 s)"
  unfolding valid_utf8_def
proof (induction s rule: ToValidUTF8.induct)
  case (1 s)
  then show ?case
    by (subst (2 3) ToValidUTF8.simps) (auto simp: ToValidUTF8_step)
qed

lemma length_ToValidUTF8: "length (ToValidUTF8 s) \<le> length s"
proof (induction s rule: ToValidUTF8.induct)
  case (1 s)
  show ?case
  proof (cases "s = []")
    case False
    then have "0 < length s" by simp
    with 1 utf8_len_le [of s] show ?thesis
      by (subst ToValidUTF8.simps) (cases "utf8_len s = 0"; force)
  qed simp
qed

section \<open>White space\<close>

text \<open>The encodings of the runes that \<^verbatim>\<open>unicode.IsSpace\<close> accepts.\<close>

definition code_string :: "nat list \<Rightarrow> string" where
  "code_string ns = map char_of ns"

definition space_encodings :: "string list" where
  "space_encodings =
     map code_string ([[10], [9], [11], [12], [13], [32], [0xC2, 0x85], [0xC2, 0xA0], [0xE1, 0x9A, 0x80]] @
       map (\<lambda>b. [0xE2, 0x80, b]) ([0x80..<0x8B] @ [0xA8, 0xA9, 0xAF]) @ [[0xE2, 0x81, 0x9F], [0xE3, 0x80, 0x80]])"

function trim_left :: "string list \<Rightarrow> string \<Rightarrow> string" where
  "trim_left ws s =
     (case find (\<lambda>w. w \<noteq> [] \<and> HasPrefix s w) ws of
        None \<Rightarrow> s | Some w \<Rightarrow> trim_left ws (drop (length w) s))"
  by pat_completeness auto
termination
  by (relation "measure (\<lambda>(ws, s). length s)") (auto simp: find_Some_iff HasPrefix_iff)

declare trim_left.simps [simp del]

definition TrimSpace :: "string \<Rightarrow> string" where
  "TrimSpace s = rev (trim_left (map rev space_encodings) (rev (trim_left space_encodings s)))"

lemma trim_left_id: "\<forall>w \<in> set ws. w = [] \<or> hd w \<noteq> hd s \<Longrightarrow> s \<noteq> [] \<Longrightarrow> trim_left ws s = s"
proof -
  assume a: "\<forall>w \<in> set ws. w = [] \<or> hd w \<noteq> hd s" and "s \<noteq> []"
  have "\<not> (w \<noteq> [] \<and> HasPrefix s w)" if "w \<in> set ws" for w
    using a that by (cases w; cases s) (auto simp: HasPrefix_def)
  then have "find (\<lambda>w. w \<noteq> [] \<and> HasPrefix s w) ws = None" by (auto simp: find_None_iff)
  then show ?thesis by (subst trim_left.simps) simp
qed

lemma space_heads:
  "w \<in> set space_encodings \<Longrightarrow> w \<noteq> [] \<and> char_code (hd w) \<notin> {33..<128} \<and> char_code (last w) \<notin> {33..<128}"
  by (auto simp: space_encodings_def code_string_def upt_conv_Cons)

text \<open>Trimming one trailing newline from a text of visible ASCII characters.\<close>

lemma TrimSpace_newline:
  assumes "s \<noteq> []" "\<forall>c \<in> set s. char_code c \<in> {33..<128}"
  shows "TrimSpace (s @ [CHR 0x0A]) = s"
proof -
  have "trim_left space_encodings (s @ [CHR 0x0A]) = s @ [CHR 0x0A]"
  proof (rule trim_left_id)
    show "\<forall>w \<in> set space_encodings. w = [] \<or> hd w \<noteq> hd (s @ [CHR 0x0A])"
      using assms space_heads by (cases s) fastforce+
  qed simp
  moreover have "find (\<lambda>w. w \<noteq> [] \<and> HasPrefix (CHR 0x0A # rev s) w) (map rev space_encodings) = Some [CHR 0x0A]"
    by (simp add: space_encodings_def code_string_def HasPrefix_def char_of_def bit_0)
  then have "trim_left (map rev space_encodings) (CHR 0x0A # rev s) = trim_left (map rev space_encodings) (rev s)"
    by (subst trim_left.simps) simp
  moreover have "trim_left (map rev space_encodings) (rev s) = rev s"
  proof (rule trim_left_id)
    show "\<forall>w \<in> set (map rev space_encodings). w = [] \<or> hd w \<noteq> hd (rev s)"
    proof
      fix w assume "w \<in> set (map rev space_encodings)"
      then obtain v where "w = rev v" "v \<in> set space_encodings" by auto
      with space_heads [of v] assms have "hd w \<noteq> hd (rev s)" by (auto simp: hd_rev)
      then show "w = [] \<or> hd w \<noteq> hd (rev s)" by blast
    qed
  qed (simp add: assms(1))
  ultimately show ?thesis by (simp add: TrimSpace_def)
qed

end
