(* ===== verification/Audit_Run.thy ===== *)
theory Audit_Run
  imports Go_Utf8
begin

text \<open>
  \<^verbatim>\<open>internal/audit/event.go\<close> and \<^verbatim>\<open>internal/audit/run.go\<close>: the audit events and the run of one
  channel instance, which turns what happens to the channel into a sequence of events.

  A sink is the list of events it was sent, so each operation returns the new run and the events
  it emits.  Identifiers drawn from \<^verbatim>\<open>crypto/rand\<close> are arguments.  \<^verbatim>\<open>uint64\<close> revisions and sequence
  numbers only increase by one and are natural numbers.
\<close>

section \<open>Events\<close>

text \<open>\<^verbatim>\<open>ID\<close> encodes 16 random bytes.\<close>

definition audit_ID :: "byte list \<Rightarrow> string" where
  "audit_ID rand = EncodeToString rand"

text \<open>\<^verbatim>\<open>netip.ParseAddr\<close>, with the zone dropped and an IPv4-mapped address unmapped.\<close>

definition ParseAddr :: "string \<Rightarrow> ip option" where
  "ParseAddr h =
     (let a = takeWhile (\<lambda>c. c \<noteq> CHR ''%'') h; z = drop (length a) h in
      if z = [] then (if ParseIP h = [] then None else Some (ParseIP h))
      else if length z = 1 \<or> find (\<lambda>c. c = CHR ''.'' \<or> c = CHR '':'') a \<noteq> Some (CHR '':'') then None
      else if ParseIP a = [] then None else Some (ParseIP a))"

definition audit_IP :: "string \<Rightarrow> string" where
  "audit_IP remote =
     (let h = (case SplitHostPort remote of Some (h, _) \<Rightarrow> h | None \<Rightarrow> remote) in
      case ParseAddr h of None \<Rightarrow> [] | Some p \<Rightarrow> ip_string p)"

definition Clip :: "string \<Rightarrow> nat \<Rightarrow> string" where
  "Clip s n = (if length s \<le> n then ToValidUTF8 s else ToValidUTF8 (take n s))"

record Actor =
  acAccount :: string
  acName :: string
  acIP :: string
  acSession :: string
  acSource :: string

definition Actor_of :: "string \<Rightarrow> Actor" where
  "Actor_of src = \<lparr>acAccount = [], acName = [], acIP = [], acSession = [], acSource = src\<rparr>"

record Settings =
  stName :: string
  stInputGenre :: "string option"
  stGenre :: string
  stDescription :: string
  stComment :: string
  stContactURL :: string
  stBitrate :: u32
  stContentType :: string

definition Settings_safe :: "Settings \<Rightarrow> Settings" where
  "Settings_safe s =
     s\<lparr>stName := Clip (stName s) 256, stGenre := Clip (stGenre s) 256,
       stDescription := Clip (stDescription s) 2048, stComment := Clip (stComment s) 2048,
       stContactURL := Clip (stContactURL s) 2048, stContentType := Clip (stContentType s) 32,
       stInputGenre := map_option (\<lambda>v. Clip v 256) (stInputGenre s)\<rparr>"

record Broadcast =
  bNode :: string
  bBoot :: string
  bID :: string
  bChannelID :: string
  bOwner :: string
  bOwnerName :: string
  bActor :: Actor
  bSettings :: Settings
  bCreated :: time
  bFirstMedia :: "time option"
  bLastMedia :: "time option"
  bEnded :: "time option"
  bInterrupted :: "time option"
  bStatus :: string
  bReason :: string
  bIncomplete :: bool
  bRevision :: nat

record Input =
  inID :: string
  inBroadcastID :: string
  inConnectionID :: string
  inRemoteIP :: string
  inStarted :: time
  inLastMedia :: time
  inEnded :: "time option"
  inInterrupted :: "time option"
  inReason :: string
  inIncomplete :: bool
  inRevision :: nat

record Payload =
  plBroadcast :: "Broadcast option"
  plInput :: "Input option"
  plBefore :: "Settings option"
  plAfter :: "Settings option"
  plCount :: nat
  plFirstAt :: "time option"
  plLastAt :: "time option"

definition Payload0 :: Payload where
  "Payload0 = \<lparr>plBroadcast = None, plInput = None, plBefore = None, plAfter = None, plCount = 0,
     plFirstAt = None, plLastAt = None\<rparr>"

record Event =
  evExpired :: bool
  evID :: string
  evNode :: string
  evBoot :: string
  evSeq :: nat
  evAt :: time
  evType :: string
  evActor :: Actor
  evOutcome :: string
  evOwner :: string
  evBroadcastID :: string
  evInputID :: string
  evConnectionID :: string
  evChannelID :: string
  evReason :: string
  evVersion :: int
  evPayload :: Payload

definition Event0 :: Event where
  "Event0 = \<lparr>evExpired = False, evID = [], evNode = [], evBoot = [], evSeq = 0, evAt = 0, evType = [],
     evActor = Actor_of [], evOutcome = [], evOwner = [], evBroadcastID = [], evInputID = [],
     evConnectionID = [], evChannelID = [], evReason = [], evVersion = 0, evPayload = Payload0\<rparr>"

definition canonical_actor :: "Actor \<Rightarrow> Actor" where
  "canonical_actor a =
     a\<lparr>acAccount := Clip (acAccount a) 255, acName := Clip (acName a) 256, acIP := audit_IP (acIP a),
       acSource := (if acSource a = [] then ''system'' else acSource a)\<rparr>"

definition canonical :: "Event \<Rightarrow> Event" where
  "canonical e = e\<lparr>evActor := canonical_actor (evActor e), evOwner := Clip (evOwner e) 255\<rparr>"

definition valid_hexID :: "string \<Rightarrow> bool" where
  "valid_hexID s \<longleftrightarrow> length s = 32 \<and> DecodeString s \<noteq> None"

text \<open>A range loop over a string yields a rune above 126 for every byte that is not ASCII.\<close>

definition valid_ascii :: "string \<Rightarrow> nat \<Rightarrow> bool" where
  "valid_ascii s n \<longleftrightarrow> length s \<le> n \<and> list_all (\<lambda>c. 32 \<le> char_code c \<and> char_code c \<le> 126) s"

definition event_types :: "string list" where
  "event_types = [''auth.login'', ''auth.logout'', ''key.issue'', ''key.rotate'', ''key.revoke'',
     ''broadcast.create'', ''broadcast.metadata'', ''broadcast.end'', ''broadcast.interrupted'',
     ''rtmp.publish'', ''input.start'', ''input.progress'', ''input.end'', ''system.start'',
     ''system.stop'', ''audit.gap'']"

definition valid :: "Event \<Rightarrow> bool" where
  "valid e \<longleftrightarrow>
     valid_hexID (evID e) \<and> valid_hexID (evBoot e) \<and> evNode e \<noteq> [] \<and> valid_ascii (evNode e) 64 \<and>
     evVersion e = 1 \<and> evSeq e \<noteq> 0 \<and> evAt e \<noteq> 0 \<and>
     valid_ascii (evType e) 48 \<and> valid_ascii (acSource (evActor e)) 16 \<and> valid_ascii (evReason e) 64 \<and>
     valid_ascii (evOutcome e) 16 \<and>
     list_all (\<lambda>i. i = [] \<or> valid_hexID i)
       [acSession (evActor e), evBroadcastID e, evInputID e, evConnectionID e, evChannelID e] \<and>
     evType e \<in> set event_types \<and>
     (case plBroadcast (evPayload e) of None \<Rightarrow> True
      | Some b \<Rightarrow> valid_hexID (bID b) \<and> valid_hexID (bChannelID b) \<and> bRevision b \<noteq> 0 \<and> bCreated b \<noteq> 0) \<and>
     (case plInput (evPayload e) of None \<Rightarrow> True
      | Some i \<Rightarrow> valid_hexID (inID i) \<and> valid_hexID (inBroadcastID i) \<and> valid_hexID (inConnectionID i) \<and>
          inRevision i \<noteq> 0 \<and> inStarted i \<noteq> 0)"

section \<open>The run of a channel instance\<close>

record Run =
  rb :: Broadcast
  rcurrent :: Settings
  rinputs :: "string \<rightharpoonup> Input"
  rpublished :: "string \<rightharpoonup> time"
  rcommitted :: bool
  rpending :: bool
  rclosed :: bool

definition bump :: "Run \<Rightarrow> Run" where
  "bump r = r\<lparr>rb := (rb r)\<lparr>bRevision := bRevision (rb r) + 1\<rparr>\<rparr>"

definition mk_event ::
  "time \<Rightarrow> Broadcast \<Rightarrow> string \<Rightarrow> Actor \<Rightarrow> string \<Rightarrow> string \<Rightarrow> Input option \<Rightarrow> Payload \<Rightarrow> Event" where
  "mk_event now b kind a reason outcome i p =
     Event0\<lparr>evType := kind, evAt := now, evActor := a, evOutcome := outcome, evOwner := bOwner b,
       evBroadcastID := bID b, evChannelID := bChannelID b, evReason := reason,
       evPayload := p\<lparr>plBroadcast := Some b, plInput := i\<rparr>,
       evInputID := (case i of None \<Rightarrow> [] | Some v \<Rightarrow> inID v),
       evConnectionID := (case i of None \<Rightarrow> [] | Some v \<Rightarrow> inConnectionID v)\<rparr>"

definition run_event ::
  "time \<Rightarrow> Run \<Rightarrow> string \<Rightarrow> Actor \<Rightarrow> string \<Rightarrow> string \<Rightarrow> Input option \<Rightarrow> Payload \<Rightarrow> Run \<times> Event list" where
  "run_event now r kind a reason outcome i p =
     (bump r, [mk_event now (rb (bump r)) kind a reason outcome i p])"

definition Run_Commit :: "time \<Rightarrow> Run \<Rightarrow> Run \<times> Event list" where
  "Run_Commit now r =
     (if rcommitted r \<or> rclosed r then (r, [])
      else run_event now (r\<lparr>rcommitted := True\<rparr>) ''broadcast.create'' (bActor (rb r)) [] ''success'' None Payload0)"

definition NewRun ::
  "time \<Rightarrow> string \<Rightarrow> string \<Rightarrow> string \<Rightarrow> Actor \<Rightarrow> Settings \<Rightarrow> bool \<Rightarrow> Run \<times> Event list" where
  "NewRun now newID channelID owner actor settings pending =
     (let a = canonical_actor actor; s = Settings_safe settings;
          b = \<lparr>bNode = [], bBoot = [], bID = newID, bChannelID = channelID, bOwner = Clip owner 255,
               bOwnerName = (if owner \<noteq> acAccount a then [] else acName a), bActor = a, bSettings = s,
               bCreated = now, bFirstMedia = None, bLastMedia = None, bEnded = None, bInterrupted = None,
               bStatus = ''waiting'', bReason = [], bIncomplete = False, bRevision = 0\<rparr>;
          r = \<lparr>rb = b, rcurrent = s, rinputs = Map.empty, rpublished = Map.empty, rcommitted = False,
               rpending = pending, rclosed = False\<rparr>
      in if pending then (r, []) else Run_Commit now r)"

definition Run_Snapshot :: "Run \<Rightarrow> Broadcast" where
  "Run_Snapshot r = rb r"

text \<open>Both settings hold valid UTF-8, on which their JSON texts are equal only if they are.\<close>

definition Run_Metadata :: "time \<Rightarrow> Actor \<Rightarrow> Settings \<Rightarrow> Run \<Rightarrow> Run \<times> Event list" where
  "Run_Metadata now a settings r =
     (let s = (Settings_safe settings)\<lparr>stInputGenre := stInputGenre (rcurrent r)\<rparr>; before = rcurrent r in
      if s = before \<or> rclosed r then (r, [])
      else run_event now (r\<lparr>rcurrent := s\<rparr>) ''broadcast.metadata'' a [] ''success'' None
             (Payload0\<lparr>plBefore := Some before, plAfter := Some s\<rparr>))"

definition new_input :: "time \<Rightarrow> string \<Rightarrow> string \<Rightarrow> string \<Rightarrow> Run \<Rightarrow> Input" where
  "new_input now newID conn remote r =
     \<lparr>inID = newID, inBroadcastID = bID (rb r), inConnectionID = conn, inRemoteIP = audit_IP remote,
      inStarted = now, inLastMedia = 0, inEnded = None, inInterrupted = None, inReason = [],
      inIncomplete = False, inRevision = 0\<rparr>"

definition Run_Media :: "time \<Rightarrow> string \<Rightarrow> string \<Rightarrow> string \<Rightarrow> Run \<Rightarrow> Run \<times> Event list" where
  "Run_Media now newID conn remote r =
     (if rclosed r then (r, [])
      else
        let start = (rinputs r conn = None);
            i = (case rinputs r conn of Some i \<Rightarrow> i | None \<Rightarrow> new_input now newID conn remote r);
            i' = i\<lparr>inLastMedia := now, inRevision := inRevision i + 1\<rparr>;
            b = (rb r)\<lparr>bLastMedia := Some now,
                  bFirstMedia := (if bFirstMedia (rb r) = None then Some now else bFirstMedia (rb r)),
                  bStatus := ''live''\<rparr>;
            r' = r\<lparr>rinputs := (rinputs r)(conn \<mapsto> i'), rb := b\<rparr>;
            last = (case rpublished r conn of Some t \<Rightarrow> t | None \<Rightarrow> 0)
        in if start \<or> now - last \<ge> 60 * second then
             (case run_event now r' (if start then ''input.start'' else ''input.progress'')
                     ((Actor_of ''rtmp'')\<lparr>acIP := remote\<rparr>) [] ''success'' (Some i') Payload0 of
                (r'', es) \<Rightarrow> (r''\<lparr>rpublished := (rpublished r'')(conn \<mapsto> now)\<rparr>, es))
           else (r', []))"

definition closeInput :: "string \<Rightarrow> Actor \<Rightarrow> time \<Rightarrow> string \<Rightarrow> Run \<Rightarrow> Run \<times> Event list" where
  "closeInput reason a now conn r =
     (case rinputs r conn of
        None \<Rightarrow> (r, [])
      | Some i \<Rightarrow>
          (case run_event now r ''input.end'' a reason ''success''
                  (Some (i\<lparr>inEnded := Some now, inReason := reason, inRevision := inRevision i + 1\<rparr>)) Payload0 of
             (r', es) \<Rightarrow> (r'\<lparr>rinputs := (rinputs r')(conn := None), rpublished := (rpublished r')(conn := None)\<rparr>, es)))"

definition Run_EndInput :: "time \<Rightarrow> string \<Rightarrow> string \<Rightarrow> Run \<Rightarrow> Run \<times> Event list" where
  "Run_EndInput now conn reason r = closeInput reason (Actor_of ''rtmp'') now conn r"

fun closeInputs :: "string \<Rightarrow> Actor \<Rightarrow> time \<Rightarrow> string list \<Rightarrow> Run \<Rightarrow> Run \<times> Event list" where
  "closeInputs reason a now [] r = (r, [])"
| "closeInputs reason a now (conn # conns) r =
     (case closeInput reason a now conn r of (r', es) \<Rightarrow>
        case closeInputs reason a now conns r' of (r'', es') \<Rightarrow> (r'', es @ es'))"

definition Run_End :: "string list \<Rightarrow> time \<Rightarrow> Actor \<Rightarrow> string \<Rightarrow> Run \<Rightarrow> Run \<times> Event list" where
  "Run_End order now a reason r =
     (if rclosed r then (r, [])
      else
        case closeInputs reason a now order (r\<lparr>rclosed := True\<rparr>) of (r1, es) \<Rightarrow>
          let r2 = r1\<lparr>rb := (rb r1)\<lparr>bEnded := Some now, bStatus := ''ended'', bReason := reason\<rparr>\<rparr> in
          (case (if rpending r2 \<and> \<not> rcommitted r2
                 then run_event now r2 ''broadcast.create'' (bActor (rb r2)) reason ''failure'' None Payload0
                 else run_event now r2 ''broadcast.end'' a reason ''success'' None Payload0) of
             (r3, es') \<Rightarrow> (r3, es @ es')))"

section \<open>Histories\<close>

datatype run_op =
  OCommit time
| OMetadata time Actor Settings
| OMedia time string string string
| OEndInput time string string
| OEnd "string list" time Actor string

fun run_step :: "run_op \<Rightarrow> Run \<Rightarrow> Run \<times> Event list" where
  "run_step (OCommit t) r = Run_Commit t r"
| "run_step (OMetadata t a s) r = Run_Metadata t a s r"
| "run_step (OMedia t i c remote) r = Run_Media t i c remote r"
| "run_step (OEndInput t c reason) r = Run_EndInput t c reason r"
| "run_step (OEnd order t a reason) r = Run_End order t a reason r"

fun run_trace :: "run_op list \<Rightarrow> Run \<Rightarrow> Run \<times> Event list" where
  "run_trace [] r = (r, [])"
| "run_trace (x # xs) r = (case run_step x r of (r', es) \<Rightarrow> case run_trace xs r' of (r'', es') \<Rightarrow> (r'', es @ es'))"

text \<open>An iteration over the inputs visits all of them, in some order.\<close>

fun orders_ok :: "run_op list \<Rightarrow> Run \<Rightarrow> bool" where
  "orders_ok [] r \<longleftrightarrow> True"
| "orders_ok (x # xs) r \<longleftrightarrow>
     (case x of OEnd order t a reason \<Rightarrow> list_all (\<lambda>c. rinputs r c \<noteq> None) order \<and> distinct order \<and> dom (rinputs r) \<subseteq> set order
      | _ \<Rightarrow> True) \<and> orders_ok xs (fst (run_step x r))"

definition ev_revision :: "Event \<Rightarrow> nat" where
  "ev_revision e = (case plBroadcast (evPayload e) of Some b \<Rightarrow> bRevision b | None \<Rightarrow> 0)"

definition count_type :: "string \<Rightarrow> string \<Rightarrow> Event list \<Rightarrow> nat" where
  "count_type kind c es = length (filter (\<lambda>e. evType e = kind \<and> evConnectionID e = c) es)"

definition terminal :: "Event \<Rightarrow> bool" where
  "terminal e \<longleftrightarrow> evType e = ''broadcast.end'' \<or> evType e = ''broadcast.create'' \<and> evOutcome e = ''failure''"

definition open_input :: "Run \<Rightarrow> string \<Rightarrow> nat" where
  "open_input r c = (if rinputs r c = None then 0 else 1)"

definition run_inv :: "Run \<Rightarrow> bool" where
  "run_inv r \<longleftrightarrow> (\<forall>c i. rinputs r c = Some i \<longrightarrow> inConnectionID i = c) \<and> (rclosed r \<longrightarrow> rinputs r = Map.empty)"

lemma count_type_simps [simp]:
  "count_type k c [] = 0"
  "count_type k c (e # es) = (if evType e = k \<and> evConnectionID e = c then 1 else 0) + count_type k c es"
  "count_type k c (es @ es') = count_type k c es + count_type k c es'"
  by (simp_all add: count_type_def)

lemma mk_event_simps [simp]:
  "ev_revision (mk_event now b kind a reason outcome i p) = bRevision b"
  "evType (mk_event now b kind a reason outcome i p) = kind"
  "evOutcome (mk_event now b kind a reason outcome i p) = outcome"
  "evConnectionID (mk_event now b kind a reason outcome i p) = (case i of None \<Rightarrow> [] | Some v \<Rightarrow> inConnectionID v)"
  by (simp_all add: mk_event_def ev_revision_def)

lemma bump_simps [simp]:
  "bRevision (rb (bump r)) = Suc (bRevision (rb r))" "rinputs (bump r) = rinputs r"
  "rclosed (bump r) = rclosed r" "rcommitted (bump r) = rcommitted r" "rpending (bump r) = rpending r"
  by (simp_all add: bump_def)

lemmas run_ops = Run_Commit_def Run_Metadata_def Run_Media_def Run_EndInput_def Run_End_def
  closeInput_def run_event_def new_input_def Let_def

subsection \<open>Revisions\<close>

fun numbered :: "nat \<Rightarrow> Event list \<Rightarrow> bool" where
  "numbered n [] \<longleftrightarrow> True"
| "numbered n (e # es) \<longleftrightarrow> ev_revision e = Suc n \<and> numbered (Suc n) es"

definition step_revisions :: "Run \<Rightarrow> Run \<times> Event list \<Rightarrow> bool" where
  "step_revisions r res \<longleftrightarrow>
     numbered (bRevision (rb r)) (snd res) \<and> bRevision (rb (fst res)) = bRevision (rb r) + length (snd res)"

lemma numbered_append: "numbered n (es @ es') \<longleftrightarrow> numbered n es \<and> numbered (n + length es) es'"
  by (induction es arbitrary: n) auto

lemma numbered_map: "numbered n es \<longleftrightarrow> map ev_revision es = [Suc n ..< Suc n + length es]"
  by (induction es arbitrary: n) (auto simp: upt_conv_Cons simp del: upt_Suc)

lemma step_revisions_seq:
  "step_revisions r (r1, es) \<Longrightarrow> step_revisions r1 (r2, es') \<Longrightarrow> step_revisions r (r2, es @ es')"
  by (simp add: step_revisions_def numbered_append)

lemma closeInputs_revisions: "step_revisions r (closeInputs reason a now conns r)"
proof (induction conns arbitrary: r)
  case (Cons c conns)
  obtain r1 es where 1: "closeInput reason a now c r = (r1, es)" by fastforce
  obtain r2 es' where 2: "closeInputs reason a now conns r1 = (r2, es')" by fastforce
  have "step_revisions r (r1, es)"
    using 1 by (auto simp: run_ops step_revisions_def split: option.splits)
  from step_revisions_seq [OF this] Cons [of r1] 1 2 show ?case by simp
qed (simp add: step_revisions_def)

lemma run_step_revisions: "step_revisions r (run_step x r)"
proof (cases x)
  case (OEnd order t a reason)
  obtain r1 es where 1: "closeInputs reason a t order (r\<lparr>rclosed := True\<rparr>) = (r1, es)" by fastforce
  have "step_revisions r (r1, es)"
    using closeInputs_revisions [of "r\<lparr>rclosed := True\<rparr>" reason a t order] 1 by (simp add: step_revisions_def)
  then show ?thesis
    using OEnd 1 by (simp add: run_ops step_revisions_def numbered_append)
qed (simp_all add: run_ops step_revisions_def split: option.splits)

lemma run_trace_revisions: "step_revisions r (run_trace xs r)"
proof (induction xs arbitrary: r)
  case (Cons x xs)
  obtain r1 es where 1: "run_step x r = (r1, es)" by fastforce
  obtain r2 es' where 2: "run_trace xs r1 = (r2, es')" by fastforce
  show ?case
    using step_revisions_seq [of r r1 es r2 es'] run_step_revisions [of r x] Cons [of r1] 1 2 by simp
qed (simp add: step_revisions_def)

subsection \<open>Inputs\<close>

text \<open>What one step does to the inputs, to the life of the run, and to the events about them.\<close>

definition step_life :: "Run \<Rightarrow> Run \<times> Event list \<Rightarrow> bool" where
  "step_life r res \<longleftrightarrow> run_inv (fst res) \<and>
     (\<forall>c. count_type ''input.start'' c (snd res) + open_input r c =
          count_type ''input.end'' c (snd res) + open_input (fst res) c) \<and>
     length (filter terminal (snd res)) + (if rclosed r then 1 else 0) = (if rclosed (fst res) then 1 else 0) \<and>
     (rclosed r \<longrightarrow> snd res = [] \<and> rclosed (fst res))"

lemma closeInputs_life:
  assumes "\<forall>c i. rinputs r c = Some i \<longrightarrow> inConnectionID i = c" "distinct conns" "\<forall>c \<in> set conns. rinputs r c \<noteq> None"
    and "closeInputs reason a now conns r = (r', es)"
  shows "rinputs r' = (\<lambda>c. if c \<in> set conns then None else rinputs r c) \<and> rclosed r' = rclosed r \<and>
     rcommitted r' = rcommitted r \<and> rpending r' = rpending r \<and>
     (\<forall>c. count_type ''input.start'' c es = 0 \<and> count_type ''input.end'' c es = (if c \<in> set conns then 1 else 0)) \<and>
     filter terminal es = []"
  using assms
proof (induction conns arbitrary: r es)
  case (Cons c conns)
  obtain r1 es1 where 1: "closeInput reason a now c r = (r1, es1)" by fastforce
  obtain es2 where 2: "closeInputs reason a now conns r1 = (r', es2)" "es = es1 @ es2"
    using Cons.prems(4) 1 by (auto split: prod.splits)
  from Cons.prems(1,3) 1 have r1: "rinputs r1 = (rinputs r)(c := None)" "rclosed r1 = rclosed r"
    "rcommitted r1 = rcommitted r" "rpending r1 = rpending r"
    "\<forall>d. count_type ''input.start'' d es1 = 0 \<and> count_type ''input.end'' d es1 = (if d = c then 1 else 0)"
    "filter terminal es1 = []"
    by (auto simp: run_ops terminal_def)
  have "\<forall>d i. rinputs r1 d = Some i \<longrightarrow> inConnectionID i = d" "\<forall>d \<in> set conns. rinputs r1 d \<noteq> None"
    using Cons.prems(1-3) r1(1) by auto
  from Cons.IH [OF this(1) _ this(2) 2(1)] Cons.prems(2) show ?case
    using 2(2) r1 by (auto simp: fun_eq_iff)
qed simp

lemma run_step_life:
  assumes "run_inv r" "orders_ok [x] r"
  shows "step_life r (run_step x r)"
proof (cases x)
  case (OEnd order t a reason)
  show ?thesis
  proof (cases "rclosed r")
    case False
    obtain r1 es where 1: "closeInputs reason a t order (r\<lparr>rclosed := True\<rparr>) = (r1, es)" by fastforce
    have "\<forall>c i. rinputs (r\<lparr>rclosed := True\<rparr>) c = Some i \<longrightarrow> inConnectionID i = c" "distinct order"
      "\<forall>c \<in> set order. rinputs (r\<lparr>rclosed := True\<rparr>) c \<noteq> None" "dom (rinputs r) = set order"
      using assms OEnd by (auto simp: run_inv_def list_all_iff)
    with closeInputs_life [OF this(1-3) 1] OEnd 1 False show ?thesis
      by (auto simp: run_ops step_life_def run_inv_def open_input_def terminal_def fun_eq_iff)
  qed (use OEnd assms(1) in \<open>simp add: Run_End_def step_life_def open_input_def\<close>)
next
  case (OMedia t i c remote)
  then show ?thesis using assms(1)
    by (auto simp: run_ops step_life_def run_inv_def open_input_def terminal_def split: option.splits)
qed (use assms(1) in \<open>auto simp: run_ops step_life_def run_inv_def open_input_def terminal_def split: option.splits\<close>)

lemma step_life_seq:
  assumes "step_life r (r1, es)" "step_life r1 (r2, es')"
  shows "step_life r (r2, es @ es')"
proof -
  have "count_type ''input.start'' c (es @ es') + open_input r c =
        count_type ''input.end'' c (es @ es') + open_input r2 c" for c
  proof -
    have "count_type ''input.start'' c es + open_input r c = count_type ''input.end'' c es + open_input r1 c"
      "count_type ''input.start'' c es' + open_input r1 c = count_type ''input.end'' c es' + open_input r2 c"
      using assms by (simp_all add: step_life_def)
    then show ?thesis by simp
  qed
  with assms show ?thesis by (auto simp: step_life_def split: if_splits)
qed

lemma run_trace_life: "run_inv r \<Longrightarrow> orders_ok xs r \<Longrightarrow> step_life r (run_trace xs r)"
proof (induction xs arbitrary: r)
  case (Cons x xs)
  obtain r1 es where 1: "run_step x r = (r1, es)" by fastforce
  obtain r2 es' where 2: "run_trace xs r1 = (r2, es')" by fastforce
  have s: "step_life r (r1, es)" using run_step_life [of r x] Cons.prems 1 by simp
  then have "run_inv r1" by (simp add: step_life_def)
  with Cons.IH [of r1] Cons.prems 1 2 have "step_life r1 (r2, es')" by simp
  with s step_life_seq 1 2 show ?case by simp
qed (auto simp: step_life_def)

section \<open>Properties\<close>

text \<open>
  Text taken from outside is bounded and well formed before it is recorded: a clipped string
  has at most the given number of bytes and is valid UTF-8, and valid text that fits is kept as is.
\<close>

theorem Clip_bounded:
  "length (Clip s n) \<le> n \<and> valid_utf8 (Clip s n) \<and> (valid_utf8 s \<and> length s \<le> n \<longleftrightarrow> Clip s n = s)"
  using length_ToValidUTF8 [of s] length_ToValidUTF8 [of "take n s"] ToValidUTF8_valid
  by (auto simp: Clip_def valid_utf8_def)

text \<open>
  The events of a run carry the revisions 1, 2, 3 and so on without a gap, whatever happens to
  the channel, so a reader can order them and detect a missing one.
\<close>

theorem run_revisions_consecutive:
  assumes "NewRun now i cid owner a st pending = (r, es)" "run_trace ops r = (r', es')"
  shows "map ev_revision (es @ es') = [1 ..< Suc (length (es @ es'))] \<and>
         bRevision (Run_Snapshot r') = length (es @ es')"
proof -
  have new: "numbered 0 es" "bRevision (rb r) = length es"
    using assms(1) by (auto simp: NewRun_def run_ops split: if_splits)
  moreover have "step_revisions r (r', es')" using run_trace_revisions [of r ops] assms(2) by simp
  ultimately have "numbered 0 (es @ es')" "bRevision (rb r') = length (es @ es')"
    by (simp_all add: step_revisions_def numbered_append)
  then show ?thesis by (simp add: numbered_map Run_Snapshot_def)
qed

definition demo_settings :: Settings where
  "demo_settings = \<lparr>stName = ''n'', stInputGenre = None, stGenre = [], stDescription = [], stComment = [],
     stContactURL = [], stBitrate = 0, stContentType = ''FLV''\<rparr>"

definition demo_ops :: "run_op list" where
  "demo_ops = [OMedia 20 ''i1'' ''c1'' ''1.2.3.4:99'', OEnd [''c1''] 50 (Actor_of ''admin'') ''stop'']"

lemma demo_ops_trace:
  fixes r r' :: Run
  assumes "NewRun 5 ''b'' ''ch'' ''owner'' (Actor_of ''admin'') st True = (r, es)"
    "run_trace demo_ops r = (r', es')"
  shows "es = []" "run_inv r" "orders_ok demo_ops r" "rclosed r'" "length es' = 3"
proof -
  have "es = [] \<and> run_inv r \<and> rinputs r = Map.empty \<and> rpublished r = Map.empty \<and> \<not> rclosed r \<and> rpending r \<and> \<not> rcommitted r"
    using assms(1) by (auto simp: NewRun_def run_inv_def Let_def)
  then show "es = []" "run_inv r" "orders_ok demo_ops r" "rclosed r'" "length es' = 3"
    using assms(2) by (auto simp: demo_ops_def run_ops)
qed

theorem run_revisions_consecutive_witness:
  "\<exists>r r' es es'. NewRun 5 ''b'' ''ch'' ''owner'' (Actor_of ''admin'') demo_settings True = (r, es) \<and>
     run_trace demo_ops r = (r', es') \<and> bRevision (Run_Snapshot r') = 3"
proof -
  obtain r es where 1: "NewRun 5 ''b'' ''ch'' ''owner'' (Actor_of ''admin'') demo_settings True = (r, es)" by fastforce
  obtain r' es' where 2: "run_trace demo_ops r = (r', es')" by fastforce
  from run_revisions_consecutive [OF 1 2] demo_ops_trace [OF 1 2] 1 2 show ?thesis by auto
qed

text \<open>
  The life of a run: an input that starts is ended at most once, and by the end of the run
  exactly once; the end of the run is one final event, after which nothing is emitted.
\<close>

theorem run_lifecycle:
  assumes "NewRun now i cid owner a st pending = (r, es)" "orders_ok ops r" "run_trace ops r = (r', es')"
  shows "count_type ''input.end'' c es' \<le> count_type ''input.start'' c es' \<and>
         count_type ''input.start'' c es' \<le> Suc (count_type ''input.end'' c es') \<and>
         length (filter terminal (es @ es')) = (if rclosed r' then 1 else 0) \<and>
         (rclosed r' \<longrightarrow> count_type ''input.end'' c es' = count_type ''input.start'' c es' \<and>
            (\<forall>more. orders_ok more r' \<longrightarrow> snd (run_trace more r') = []))"
proof -
  have new: "run_inv r" "\<not> rclosed r" "open_input r c = 0" "filter terminal es = []"
    using assms(1) by (auto simp: NewRun_def run_ops run_inv_def open_input_def terminal_def split: if_splits)
  have "step_life r (r', es')" using run_trace_life [OF new(1) assms(2)] assms(3) by simp
  then have inv: "run_inv r'" "count_type ''input.start'' c es' = count_type ''input.end'' c es' + open_input r' c"
    "length (filter terminal es') = (if rclosed r' then 1 else 0)"
    using new by (simp_all add: step_life_def) (metis add_0_right)
  moreover have "open_input r' c \<le> 1" "rclosed r' \<Longrightarrow> open_input r' c = 0"
    using inv(1) by (simp_all add: open_input_def run_inv_def)
  moreover have "snd (run_trace more r') = []" if "rclosed r'" "orders_ok more r'" for more
    using run_trace_life [OF inv(1) that(2)] that(1) by (simp add: step_life_def)
  ultimately show ?thesis using new(4) by auto
qed

theorem run_lifecycle_witness:
  "\<exists>r r' es es'. NewRun 5 ''b'' ''ch'' ''owner'' (Actor_of ''admin'') demo_settings True = (r, es) \<and>
     run_trace demo_ops r = (r', es') \<and> rclosed r' \<and>
     count_type ''input.end'' ''c1'' es' = count_type ''input.start'' ''c1'' es'"
proof -
  obtain r es where 1: "NewRun 5 ''b'' ''ch'' ''owner'' (Actor_of ''admin'') demo_settings True = (r, es)" by fastforce
  obtain r' es' where 2: "run_trace demo_ops r = (r', es')" by fastforce
  from run_lifecycle [OF 1 demo_ops_trace(3) [OF 1 2] 2] demo_ops_trace [OF 1 2] 1 2 show ?thesis by blast
qed

end
