(* ===== verification/Expiring.thy ===== *)
theory Expiring
  imports Prelude
begin

text \<open>
  The contract of a set whose members expire: an entry is live for a fixed window after it was
  last added, and a lookup that finds an expired entry deletes it on the way.  The list of
  upstream hosts to skip (\<^verbatim>\<open>relay/ignorednode.go\<close>) and the list of evicted downstream peers
  (\<^verbatim>\<open>channel/channel.go\<close>) both keep it; the lemmas their callers need are proved here once.
\<close>

datatype 'k es_op = EAdd time 'k | ELook time 'k

primrec es_time :: "'k es_op \<Rightarrow> time" where
  "es_time (EAdd t k) = t"
| "es_time (ELook t k) = t"

locale expiring_set =
  fixes none :: "'s"
    and add :: "time \<Rightarrow> 's \<Rightarrow> 'k \<Rightarrow> 's"
    and look :: "time \<Rightarrow> 's \<Rightarrow> 'k \<Rightarrow> bool \<times> 's"
    and live :: "time \<Rightarrow> 's \<Rightarrow> 'k \<Rightarrow> bool"
    and window :: "'s \<Rightarrow> int"
  assumes none_live: "\<not> live t none k"
    and look_live: "fst (look t s k) = live t s k"
    and look_keeps: "t \<le> t' \<Longrightarrow> live t' (snd (look t s k)) k' = live t' s k'"
    and look_window: "window (snd (look t s k)) = window s"
    and add_live: "live t' (add t s k) k' = (if k' = k then t' \<le> t + window s else live t' s k')"
    and add_window: "window (add t s k) = window s"
    and live_antimono: "t \<le> t' \<Longrightarrow> live t' s k \<Longrightarrow> live t s k"
begin

primrec es_step :: "'k es_op \<Rightarrow> 's \<Rightarrow> 's" where
  "es_step (EAdd t k) s = add t s k"
| "es_step (ELook t k) s = snd (look t s k)"

definition es_run :: "'k es_op list \<Rightarrow> 's" where
  "es_run ops = fold es_step ops none"

lemma window_run: "window (fold es_step ops s) = window s"
proof (induction ops arbitrary: s)
  case (Cons o' ops)
  then show ?case by (cases o') (simp_all add: add_window look_window)
qed simp

lemma live_look_many:
  "t \<le> t' \<Longrightarrow> live t' (fold (\<lambda>k s. snd (look t s k)) ks s) k = live t' s k"
  by (induction ks arbitrary: s) (simp_all add: look_keeps)

text \<open>
  Whatever the sequence of additions and lookups, with a clock that does not run backwards, a key
  is in the set exactly when it was added within the window.
\<close>

lemma live_history:
  assumes "sorted (map es_time ops)" "\<forall>o' \<in> set ops. es_time o' \<le> t"
  shows "live t (es_run ops) k \<longleftrightarrow> (\<exists>t0. EAdd t0 k \<in> set ops \<and> t \<le> t0 + window none)"
  using assms
proof (induction ops rule: rev_induct)
  case (snoc o' ops)
  from snoc.prems have IH: "live t (es_run ops) k \<longleftrightarrow> (\<exists>t0. EAdd t0 k \<in> set ops \<and> t \<le> t0 + window none)"
    using snoc.IH by (simp add: sorted_append)
  have w: "window (es_run ops) = window none" by (simp add: es_run_def window_run)
  have run: "es_run (ops @ [x]) = es_step x (es_run ops)" for x by (simp add: es_run_def)
  show ?case
  proof (cases o')
    case (EAdd t1 k1)
    have le: "t0 \<le> t1" if "EAdd t0 k1 \<in> set ops" for t0
      using snoc.prems(1) that EAdd by (force simp: sorted_append)
    show ?thesis
    proof (cases "k1 = k")
      case True
      have "t \<le> t1 + window none" if "EAdd t0 k1 \<in> set ops" "t \<le> t0 + window none" for t0
        using le [OF that(1)] that(2) by linarith
      then show ?thesis using EAdd True by (auto simp: run add_live w)
    next
      case False
      then show ?thesis using EAdd IH by (auto simp: run add_live)
    qed
  next
    case (ELook t1 k1)
    then have "t1 \<le> t" using snoc.prems(2) by simp
    with ELook IH show ?thesis by (auto simp: run look_keeps)
  qed
qed (simp add: es_run_def none_live)

end

end
