(* ===== verification/Channel.thy ===== *)
theory Channel
  imports Content_Buffer Node_Table Chan_Info Audit_Run Expiring
begin

text \<open>
  \<^verbatim>\<open>internal/channel/channel.go\<close>: the channel, the central object of a broadcast or relay.

  An output stream is a record of what the interfaces of the code report about it: its identity,
  type, connection number and remote address, and for a PCP stream (the only implementer of
  \<^verbatim>\<open>BcstForwarder\<close>, \<^verbatim>\<open>RelayEvictable\<close> and \<^verbatim>\<open>RelayNodeInfo\<close>) the peer's details.  Calls into outputs and
  into the upstream connection are the list of effects an operation returns.  The installed
  upstream sender is a connection number.  \<^verbatim>\<open>slotCheck\<close>, the closure of the manager over its limits,
  is a flag; \<^verbatim>\<open>SlotStatus\<close> takes its answer.  The shared \<^verbatim>\<open>Network\<close> pointer belongs to the manager.
\<close>

datatype OutputStreamType = OutputStreamPCP | OutputStreamHTTP

record PeerInfo =
  pePeerID :: gnuid
  peFirewalled :: bool
  peRemotePort :: u16
  peAgent :: string
  peVersion :: u32

record OutputStream =
  oRef :: nat
  oType :: OutputStreamType
  oID :: int
  oRemoteAddr :: string
  oPeer :: "PeerInfo option"

datatype 'a effect =
  NotifyHeader nat | NotifyInfo nat | NotifyTrack nat | CloseOut nat | EvictOut nat
| SendBcst nat 'a | UpstreamSend nat 'a | AuditEmit Event

record ConnectionInfo =
  cnID :: int
  cnType :: OutputStreamType
  cnRemoteAddr :: string
  cnSendRate :: int

record RelayNodeEntry =
  rnSessionID :: gnuid
  rnRemoteAddr :: string
  rnRemotePort :: u16
  rnIsFirewalled :: bool
  rnAgent :: string
  rnVersion :: u32

record 'a Channel =
  AuditRun :: "Run option"
  lastReceived :: time
  upstreamBcst :: "nat option"
  slotCheck :: bool
  chID :: gnuid
  buffer :: ContentBuffer
  startTime :: time
  broadcastID :: gnuid
  isBroadcasting :: bool
  source :: string
  upstreamAddr :: string
  info :: ChannelInfo
  track :: TrackInfo
  outputs :: "OutputStream list"
  numListeners :: int
  numRelays :: int
  upstreamSessionID :: gnuid
  upstreamIP :: u32
  upstreamPort :: u16
  nodes :: "'a nodeTable"
  banList :: "string \<rightharpoonup> time"

definition relayBanDuration :: int where
  "relayBanDuration = 90 * second"

definition New :: "time \<Rightarrow> gnuid \<Rightarrow> gnuid \<Rightarrow> int \<Rightarrow> 'a Channel" where
  "New now i bid bufSize =
     \<lparr>AuditRun = None, lastReceived = 0, upstreamBcst = None, slotCheck = False, chID = i,
      buffer = NewContentBuffer bufSize, startTime = now, broadcastID = bid, isBroadcasting = False,
      source = [], upstreamAddr = [], info = ChannelInfo0, track = TrackInfo0, outputs = [],
      numListeners = 0, numRelays = 0, upstreamSessionID = zeroID, upstreamIP = 0, upstreamPort = 0,
      nodes = nodeTable0, banList = Map.empty\<rparr>"

section \<open>Accessors and setters\<close>

definition SetBroadcastID :: "gnuid \<Rightarrow> 'a Channel \<Rightarrow> 'a Channel" where
  "SetBroadcastID i c = c\<lparr>broadcastID := i\<rparr>"

definition SetSource :: "string \<Rightarrow> 'a Channel \<Rightarrow> 'a Channel" where
  "SetSource s c = c\<lparr>source := s\<rparr>"

definition SetUpstreamAddr :: "string \<Rightarrow> 'a Channel \<Rightarrow> 'a Channel" where
  "SetUpstreamAddr a c = c\<lparr>upstreamAddr := a\<rparr>"

definition UpstreamNodeInfo :: "'a Channel \<Rightarrow> gnuid \<times> u32 \<times> u16" where
  "UpstreamNodeInfo c = (upstreamSessionID c, upstreamIP c, upstreamPort c)"

definition SetUpstreamNodeInfo :: "gnuid \<Rightarrow> u32 \<Rightarrow> u16 \<Rightarrow> 'a Channel \<Rightarrow> 'a Channel" where
  "SetUpstreamNodeInfo s p port c = c\<lparr>upstreamSessionID := s, upstreamIP := p, upstreamPort := port\<rparr>"

definition AuditSettings :: "ChannelInfo \<Rightarrow> Settings" where
  "AuditSettings i =
     \<lparr>stName = Name i, stInputGenre = None, stGenre = Genre i, stDescription = Desc i, stComment = Comment i,
      stContactURL = URL i, stBitrate = Bitrate i, stContentType = CType i\<rparr>"

definition SetInfoWithAudit :: "time \<Rightarrow> ChannelInfo \<Rightarrow> Actor \<Rightarrow> 'a Channel \<Rightarrow> 'a Channel \<times> 'a effect list" where
  "SetInfoWithAudit now i a c =
     (case AuditRun c of
        None \<Rightarrow> (c\<lparr>info := i\<rparr>, map (NotifyInfo \<circ> oRef) (outputs c))
      | Some r \<Rightarrow>
          (case Run_Metadata now a (AuditSettings i) r of (r', es) \<Rightarrow>
             (c\<lparr>info := i, AuditRun := Some r'\<rparr>, map AuditEmit es @ map (NotifyInfo \<circ> oRef) (outputs c))))"

definition SetInfo :: "time \<Rightarrow> ChannelInfo \<Rightarrow> 'a Channel \<Rightarrow> 'a Channel \<times> 'a effect list" where
  "SetInfo now i c = SetInfoWithAudit now i (Actor_of ''system'') c"

definition SetTrack :: "TrackInfo \<Rightarrow> 'a Channel \<Rightarrow> 'a Channel \<times> 'a effect list" where
  "SetTrack t c = (c\<lparr>track := t\<rparr>, map (NotifyTrack \<circ> oRef) (outputs c))"

definition Channel_SetHeader :: "byte list \<Rightarrow> u32 \<Rightarrow> 'a Channel \<Rightarrow> 'a Channel \<times> 'a effect list" where
  "Channel_SetHeader d pos c =
     (case SetHeader (buffer c) d pos of (b, changed) \<Rightarrow>
        (c\<lparr>buffer := b\<rparr>, if changed then map (NotifyHeader \<circ> oRef) (outputs c) else []))"

definition Channel_Write :: "time \<Rightarrow> byte list \<Rightarrow> u32 \<Rightarrow> byte \<Rightarrow> 'a Channel \<Rightarrow> 'a Channel" where
  "Channel_Write now d pos flags c = c\<lparr>buffer := Write now (buffer c) d pos flags, lastReceived := now\<rparr>"

definition IsReceiving :: "time \<Rightarrow> 'a Channel \<Rightarrow> bool" where
  "IsReceiving now c \<longleftrightarrow> lastReceived c \<noteq> 0 \<and> now - lastReceived c < 30 * second"

definition SourceDisconnected :: "'a Channel \<Rightarrow> 'a Channel" where
  "SourceDisconnected c = c\<lparr>lastReceived := 0\<rparr>"

definition SetUpstreamBcst :: "nat option \<Rightarrow> 'a Channel \<Rightarrow> 'a Channel" where
  "SetUpstreamBcst send c = c\<lparr>upstreamBcst := send\<rparr>"

definition CanStartContent :: "Content \<Rightarrow> 'a Channel \<Rightarrow> bool" where
  "CanStartContent p c \<longleftrightarrow>
     ContFlags p = 0 \<or>
     (let h = fst (Header (buffer c)) in
      ContFlags p = 4 \<and> length h \<ge> 5 \<and> take 3 h = ascii ''FLV'' \<and> h ! 4 AND 1 = 0)"

section \<open>Outputs and slots\<close>

definition count_up :: "OutputStreamType \<Rightarrow> int \<Rightarrow> 'a Channel \<Rightarrow> 'a Channel" where
  "count_up t d c = (case t of
     OutputStreamPCP \<Rightarrow> c\<lparr>numRelays := numRelays c + d\<rparr>
   | OutputStreamHTTP \<Rightarrow> c\<lparr>numListeners := numListeners c + d\<rparr>)"

definition AddOutput :: "OutputStream \<Rightarrow> 'a Channel \<Rightarrow> 'a Channel" where
  "AddOutput o' c = count_up (oType o') 1 (c\<lparr>outputs := outputs c @ [o']\<rparr>)"

definition slots_full :: "OutputStreamType \<Rightarrow> int \<Rightarrow> int \<Rightarrow> 'a Channel \<Rightarrow> bool" where
  "slots_full t maxRelays maxListeners c = (case t of
     OutputStreamPCP \<Rightarrow> maxRelays > 0 \<and> numRelays c \<ge> maxRelays
   | OutputStreamHTTP \<Rightarrow> maxListeners > 0 \<and> numListeners c \<ge> maxListeners)"

definition TryAddOutput :: "OutputStream \<Rightarrow> int \<Rightarrow> int \<Rightarrow> 'a Channel \<Rightarrow> 'a Channel \<times> bool" where
  "TryAddOutput o' maxRelays maxListeners c =
     (if slots_full (oType o') maxRelays maxListeners c then (c, False)
      else ((count_up (oType o') 1 c)\<lparr>outputs := outputs c @ [o']\<rparr>, True))"

definition RemoveOutput :: "OutputStream \<Rightarrow> 'a Channel \<Rightarrow> 'a Channel" where
  "RemoveOutput o' c =
     (case find_index (\<lambda>i. outputs c ! i = o') 0 (length (outputs c)) of
        None \<Rightarrow> c
      | Some i \<Rightarrow> count_up (oType o') (- 1)
          (c\<lparr>outputs := take i (outputs c) @ drop (Suc i) (outputs c)\<rparr>))"

definition IsRelayFull :: "int \<Rightarrow> 'a Channel \<Rightarrow> bool" where
  "IsRelayFull maxRelays c \<longleftrightarrow> \<not> maxRelays \<le> 0 \<and> numRelays c \<ge> maxRelays"

definition IsDirectFull :: "int \<Rightarrow> 'a Channel \<Rightarrow> bool" where
  "IsDirectFull maxListeners c \<longleftrightarrow> \<not> maxListeners \<le> 0 \<and> numListeners c \<ge> maxListeners"

definition SlotStatus :: "bool \<times> bool \<Rightarrow> int \<Rightarrow> int \<Rightarrow> 'a Channel \<Rightarrow> bool \<times> bool" where
  "SlotStatus check maxRelays maxListeners c =
     (if slotCheck c
      then (fst check \<or> IsRelayFull maxRelays c, snd check \<or> IsDirectFull maxListeners c)
      else (IsRelayFull maxRelays c, IsDirectFull maxListeners c))"

section \<open>Bans and eviction\<close>

definition Ban :: "string \<Rightarrow> time \<Rightarrow> 'a Channel \<Rightarrow> 'a Channel" where
  "Ban key until c = c\<lparr>banList := (banList c)(key \<mapsto> until)\<rparr>"

definition HasBanned :: "time \<Rightarrow> 'a Channel \<Rightarrow> string \<Rightarrow> bool \<times> 'a Channel" where
  "HasBanned now c key =
     (case banList c key of
        None \<Rightarrow> (False, c)
      | Some until \<Rightarrow> if now < until then (True, c) else (False, c\<lparr>banList := (banList c)(key := None)\<rparr>))"

definition evictable :: "'a pcp \<Rightarrow> time \<Rightarrow> 'a Channel \<Rightarrow> OutputStream \<Rightarrow> bool" where
  "evictable P now c o' \<longleftrightarrow>
     oType o' = OutputStreamPCP \<and>
     (case oPeer o' of
        None \<Rightarrow> False
      | Some p \<Rightarrow>
          \<not> (case SplitHostPort (oRemoteAddr o') of
                Some (h, _) \<Rightarrow> IsLoopback (ParseIP h) \<or> IsPrivate (ParseIP h) \<or> IsLinkLocalUnicast (ParseIP h)
              | None \<Rightarrow> False) \<and>
          (peFirewalled p \<or> relayUnproductive P now (pePeerID p) (nodes c)))"

definition makeRelayable ::
  "'a pcp \<Rightarrow> time \<Rightarrow> int \<Rightarrow> bool \<Rightarrow> 'a Channel \<Rightarrow> bool \<times> 'a Channel \<times> 'a effect list" where
  "makeRelayable P now maxRelays force c =
     (if maxRelays \<le> 0 \<and> \<not> force then (True, c, [])
      else if numRelays c < maxRelays \<and> \<not> force then (True, c, [])
      else case find (evictable P now c) (outputs c) of
        None \<Rightarrow> (False, c, [])
      | Some victim \<Rightarrow>
          (let c1 = (case SplitHostPort (oRemoteAddr victim) of
                       Some (h, _) \<Rightarrow> Ban h (now + relayBanDuration) c | None \<Rightarrow> c)
           in (True, RemoveOutput victim c1, [EvictOut (oRef victim)])))"

definition MakeRelayable :: "'a pcp \<Rightarrow> time \<Rightarrow> int \<Rightarrow> 'a Channel \<Rightarrow> bool \<times> 'a Channel \<times> 'a effect list" where
  "MakeRelayable P now maxRelays c = makeRelayable P now maxRelays False c"

definition EvictRelay :: "'a pcp \<Rightarrow> time \<Rightarrow> 'a Channel \<Rightarrow> bool \<times> 'a Channel \<times> 'a effect list" where
  "EvictRelay P now c = makeRelayable P now 0 True c"

section \<open>Node reports\<close>

definition Channel_UpdateNodeStats :: "time \<Rightarrow> gnuid \<Rightarrow> int \<Rightarrow> int \<Rightarrow> 'a Channel \<Rightarrow> 'a Channel" where
  "Channel_UpdateNodeStats now s l r c = c\<lparr>nodes := updateStats now s l r (nodes c)\<rparr>"

definition Channel_RemoveNodeStats :: "'a pcp \<Rightarrow> gnuid \<Rightarrow> 'a Channel \<Rightarrow> 'a Channel" where
  "Channel_RemoveNodeStats P s c = c\<lparr>nodes := removeStats P s (nodes c)\<rparr>"

definition Channel_AddKnownHost :: "'a pcp \<Rightarrow> time \<Rightarrow> 'a \<Rightarrow> 'a Channel \<Rightarrow> 'a Channel" where
  "Channel_AddKnownHost P now h c = c\<lparr>nodes := addKnownHost P now h (nodes c)\<rparr>"

definition Channel_ObserveHost :: "'a pcp \<Rightarrow> time \<Rightarrow> 'a \<Rightarrow> gnuid \<Rightarrow> 'a Channel \<Rightarrow> 'a Channel" where
  "Channel_ObserveHost P now h via c = c\<lparr>nodes := ObserveHost P now h via (nodes c)\<rparr>"

definition Channel_SelectSourceHosts ::
  "'a pcp \<Rightarrow> (nat \<Rightarrow> rat) \<Rightarrow> time \<Rightarrow> int \<Rightarrow> gnuid \<Rightarrow> u32 \<Rightarrow> 'a Channel \<Rightarrow> 'a list" where
  "Channel_SelectSourceHosts P rnd now maxn requester ip c = selectSourceHosts P rnd now maxn requester ip (nodes c)"

definition TotalListeners :: "gnuid list \<Rightarrow> time \<Rightarrow> 'a Channel \<Rightarrow> int" where
  "TotalListeners order now c = numListeners c + fst (totals order now (nodes c))"

definition TotalRelays :: "gnuid list \<Rightarrow> time \<Rightarrow> 'a Channel \<Rightarrow> int" where
  "TotalRelays order now c = numRelays c + snd (totals order now (nodes c))"

section \<open>Closing, broadcasting, listing\<close>

definition CloseAll :: "'a Channel \<Rightarrow> 'a Channel \<times> 'a effect list" where
  "CloseAll c =
     (let c1 = SourceDisconnected c in
      (c1\<lparr>outputs := [], numListeners := 0, numRelays := 0, nodes := reset (nodes c1)\<rparr>,
       map (CloseOut \<circ> oRef) (outputs c)))"

definition UptimeSeconds :: "time \<Rightarrow> 'a Channel \<Rightarrow> u32" where
  "UptimeSeconds now c = of_int ((now - startTime c) div second)"

text \<open>The sender is \<open>None\<close> for traffic from the upstream.\<close>

definition bcst_group :: "'a pcp \<Rightarrow> 'a \<Rightarrow> byte" where
  "bcst_group P atom = (case FindChild P atom (tag_of P PCPBcstGroup) of None \<Rightarrow> 0 | Some g \<Rightarrow> fst (GetByte P g))"

definition bcst_targets :: "'a pcp \<Rightarrow> OutputStream option \<Rightarrow> 'a Channel \<Rightarrow> OutputStream list" where
  "bcst_targets P from' c =
     (let fromPeer = (case from' of None \<Rightarrow> zeroID
                      | Some f \<Rightarrow> (case oPeer f of None \<Rightarrow> zeroID | Some p \<Rightarrow> pePeerID p)) in
      filter (\<lambda>o'. Some o' \<noteq> from' \<and> oType o' = OutputStreamPCP \<and>
                (case oPeer o' of None \<Rightarrow> False
                 | Some p \<Rightarrow> \<not> (\<not> IsEmpty P fromPeer \<and> pePeerID p = fromPeer))) (outputs c))"

definition Channel_Broadcast :: "'a pcp \<Rightarrow> OutputStream option \<Rightarrow> 'a \<Rightarrow> 'a Channel \<Rightarrow> 'a effect list" where
  "Channel_Broadcast P from' atom c =
     (let group = bcst_group P atom; relays = flag_of P PCPBcstGroupRelays; trackers = flag_of P PCPBcstGroupTrackers in
      (case (from', upstreamBcst c) of
         (Some _, Some up) \<Rightarrow> if group AND (trackers OR relays) \<noteq> 0 then [UpstreamSend up atom] else []
       | _ \<Rightarrow> []) @
      (if group AND relays = 0 then []
       else map (\<lambda>o'. SendBcst (oRef o') atom) (bcst_targets P from' c)))"

definition Connections :: "(nat \<Rightarrow> int) \<Rightarrow> 'a Channel \<Rightarrow> ConnectionInfo list" where
  "Connections sendRate c =
     map (\<lambda>o'. \<lparr>cnID = oID o', cnType = oType o', cnRemoteAddr = oRemoteAddr o', cnSendRate = sendRate (oRef o')\<rparr>)
       (outputs c)"

definition RelayNodes :: "'a Channel \<Rightarrow> RelayNodeEntry list" where
  "RelayNodes c =
     List.map_filter (\<lambda>o'. map_option (\<lambda>p. \<lparr>rnSessionID = pePeerID p, rnRemoteAddr = oRemoteAddr o',
         rnRemotePort = peRemotePort p, rnIsFirewalled = peFirewalled p, rnAgent = peAgent p,
         rnVersion = peVersion p\<rparr>) (oPeer o')) (outputs c)"

definition CloseConnection :: "int \<Rightarrow> 'a Channel \<Rightarrow> bool \<times> 'a effect list" where
  "CloseConnection i c =
     (case find (\<lambda>o'. oID o' = i) (outputs c) of None \<Rightarrow> (False, []) | Some t \<Rightarrow> (True, [CloseOut (oRef t)]))"

section \<open>Invariant\<close>

text \<open>The counters count the outputs, and the parts of the channel keep their own invariants.\<close>

definition count_out :: "OutputStreamType \<Rightarrow> OutputStream list \<Rightarrow> nat" where
  "count_out t os = length (filter (\<lambda>o'. oType o' = t) os)"

definition chan_inv :: "'a pcp \<Rightarrow> 'a Channel \<Rightarrow> bool" where
  "chan_inv P c \<longleftrightarrow>
     numRelays c = int (count_out OutputStreamPCP (outputs c)) \<and>
     numListeners c = int (count_out OutputStreamHTTP (outputs c)) \<and>
     node_inv P (nodes c) \<and> buf_inv (buffer c)"

lemma count_out_simps [simp]:
  "count_out t [] = 0" "count_out t (o' # os) = (if oType o' = t then 1 else 0) + count_out t os"
  "count_out t (os @ os') = count_out t os + count_out t os'"
  by (simp_all add: count_out_def)

lemma count_up_simps [simp]:
  "outputs (count_up t d c) = outputs c" "nodes (count_up t d c) = nodes c" "buffer (count_up t d c) = buffer c"
  "banList (count_up t d c) = banList c" "upstreamBcst (count_up t d c) = upstreamBcst c"
  "numRelays (count_up t d c) = numRelays c + (if t = OutputStreamPCP then d else 0)"
  "numListeners (count_up t d c) = numListeners c + (if t = OutputStreamHTTP then d else 0)"
  by (simp_all add: count_up_def split: OutputStreamType.splits)

lemma find_index_remove1:
  "(case find_index (\<lambda>i. xs ! i = x) 0 (length xs) of None \<Rightarrow> xs | Some i \<Rightarrow> take i xs @ drop (Suc i) xs) = remove1 x xs"
proof (cases "find_index (\<lambda>i. xs ! i = x) 0 (length xs)")
  case None
  then have "x \<notin> set xs" using find_index_None [OF None] by (auto simp: in_set_conv_nth)
  with None show ?thesis by (simp add: remove1_idem)
next
  case (Some i)
  then have i: "i < length xs" "xs ! i = x" and first: "\<And>j. j < i \<Longrightarrow> xs ! j \<noteq> x"
    using find_index_Some [OF Some] find_index_first [OF Some] by auto
  then have "x \<notin> set (take i xs)" by (auto simp: in_set_conv_nth)
  then have "remove1 x (take i xs @ x # drop (Suc i) xs) = take i xs @ drop (Suc i) xs"
    by (simp add: remove1_append)
  with i Some show ?thesis by (metis id_take_nth_drop option.simps(5))
qed

lemma find_Some_split:
  "find p xs = Some x \<Longrightarrow> \<exists>pre post. xs = pre @ x # post \<and> (\<forall>y \<in> set pre. \<not> p y) \<and> p x"
proof (induction xs)
  case (Cons y ys)
  show ?case
  proof (cases "p y")
    case True
    with Cons.prems show ?thesis by (intro exI [of _ "[]"] exI [of _ ys]) auto
  next
    case False
    with Cons obtain pre post where "ys = pre @ x # post" "\<forall>z \<in> set pre. \<not> p z" "p x" by auto
    with False show ?thesis by (intro exI [of _ "y # pre"] exI [of _ post]) auto
  qed
qed simp

lemma RemoveOutput_alt:
  "RemoveOutput o' c =
     (if o' \<in> set (outputs c) then count_up (oType o') (- 1) (c\<lparr>outputs := remove1 o' (outputs c)\<rparr>) else c)"
proof (cases "find_index (\<lambda>i. outputs c ! i = o') 0 (length (outputs c))")
  case None
  then have "o' \<notin> set (outputs c)" using find_index_None [OF None] by (auto simp: in_set_conv_nth)
  with None show ?thesis by (simp add: RemoveOutput_def)
next
  case (Some i)
  then have "o' \<in> set (outputs c)" using find_index_Some [OF Some] by auto
  with Some find_index_remove1 [of "outputs c" o'] show ?thesis by (simp add: RemoveOutput_def)
qed

lemma count_out_remove1:
  "o' \<in> set os \<Longrightarrow> int (count_out t (remove1 o' os)) = int (count_out t os) - (if oType o' = t then 1 else 0)"
  by (induction os) auto

lemma chan_inv_frame:
  assumes "chan_inv P c" "outputs c' = outputs c" "numRelays c' = numRelays c" "numListeners c' = numListeners c"
    "node_inv P (nodes c')" "buf_inv (buffer c')"
  shows "chan_inv P c'"
  using assms by (simp add: chan_inv_def)

lemma chan_inv_New: "chan_inv P (New now i b n)"
  by (simp add: chan_inv_def New_def node_inv_empty)

lemma chan_inv_AddOutput: "chan_inv P c \<Longrightarrow> chan_inv P (AddOutput o' c)"
  by (cases "oType o'") (simp_all add: chan_inv_def AddOutput_def)

lemma chan_inv_TryAddOutput: "chan_inv P c \<Longrightarrow> chan_inv P (fst (TryAddOutput o' mr ml c))"
  by (cases "oType o'") (simp_all add: chan_inv_def TryAddOutput_def)

lemma chan_inv_RemoveOutput: "chan_inv P c \<Longrightarrow> chan_inv P (RemoveOutput o' c)"
  by (cases "oType o'") (simp_all add: chan_inv_def RemoveOutput_alt count_out_remove1)

lemma chan_inv_banList: "chan_inv P (c\<lparr>banList := b\<rparr>) = chan_inv P c"
  by (simp add: chan_inv_def)

lemma chan_inv_makeRelayable: "chan_inv P c \<Longrightarrow> chan_inv P (fst (snd (makeRelayable P now mr force c)))"
  by (simp add: makeRelayable_def Let_def Ban_def chan_inv_RemoveOutput chan_inv_banList split: option.splits prod.splits)

lemma chan_inv_CloseAll: "chan_inv P c \<Longrightarrow> chan_inv P (fst (CloseAll c))"
  by (simp add: chan_inv_def CloseAll_def Let_def SourceDisconnected_def reset_def node_inv_empty)

text \<open>The states a channel can reach, by any interleaving of its operations.\<close>

inductive chan_reach :: "'a pcp \<Rightarrow> 'a Channel \<Rightarrow> bool" for P :: "'a pcp" where
  "chan_reach P (New now i bid n)"
| "chan_reach P c \<Longrightarrow> chan_reach P (SetBroadcastID i c)"
| "chan_reach P c \<Longrightarrow> chan_reach P (SetSource s c)"
| "chan_reach P c \<Longrightarrow> chan_reach P (SetUpstreamAddr s c)"
| "chan_reach P c \<Longrightarrow> chan_reach P (SetUpstreamNodeInfo i p port c)"
| "chan_reach P c \<Longrightarrow> chan_reach P (fst (SetInfoWithAudit now ci a c))"
| "chan_reach P c \<Longrightarrow> chan_reach P (fst (SetTrack t c))"
| "chan_reach P c \<Longrightarrow> chan_reach P (fst (Channel_SetHeader d pos c))"
| "chan_reach P c \<Longrightarrow> chan_reach P (Channel_Write now d pos f c)"
| "chan_reach P c \<Longrightarrow> chan_reach P (SourceDisconnected c)"
| "chan_reach P c \<Longrightarrow> chan_reach P (SetUpstreamBcst u c)"
| "chan_reach P c \<Longrightarrow> chan_reach P (AddOutput o' c)"
| "chan_reach P c \<Longrightarrow> chan_reach P (fst (TryAddOutput o' mr ml c))"
| "chan_reach P c \<Longrightarrow> chan_reach P (RemoveOutput o' c)"
| "chan_reach P c \<Longrightarrow> chan_reach P (Ban k t c)"
| "chan_reach P c \<Longrightarrow> chan_reach P (snd (HasBanned now c k))"
| "chan_reach P c \<Longrightarrow> chan_reach P (fst (snd (makeRelayable P now mr force c)))"
| "chan_reach P c \<Longrightarrow> chan_reach P (Channel_UpdateNodeStats now i l r c)"
| "chan_reach P c \<Longrightarrow> chan_reach P (Channel_RemoveNodeStats P i c)"
| "chan_reach P c \<Longrightarrow> chan_reach P (Channel_AddKnownHost P now h c)"
| "chan_reach P c \<Longrightarrow> chan_reach P (Channel_ObserveHost P now h i c)"
| "chan_reach P c \<Longrightarrow> chan_reach P (fst (CloseAll c))"
| "chan_reach P c \<Longrightarrow> chan_reach P (c\<lparr>AuditRun := run, slotCheck := sc, isBroadcasting := b, source := s,
      upstreamAddr := ua, info := ci, track := t\<rparr>)"

lemmas chan_setters = SetBroadcastID_def SetSource_def SetUpstreamAddr_def SetUpstreamNodeInfo_def
  SetInfoWithAudit_def SetTrack_def Channel_SetHeader_def Channel_Write_def SourceDisconnected_def
  SetUpstreamBcst_def Ban_def HasBanned_def Channel_UpdateNodeStats_def Channel_RemoveNodeStats_def
  Channel_AddKnownHost_def Channel_ObserveHost_def

lemma buf_inv_SetHeader_case: "SetHeader b d p = (b', x) \<Longrightarrow> buf_inv b \<Longrightarrow> buf_inv b'"
  by (metis buf_inv_SetHeader fst_conv)

lemma chan_reach_inv: "chan_reach P c \<Longrightarrow> chan_inv P c"
proof (induction rule: chan_reach.induct)
  case (8 c d pos)
  then show ?case
    by (auto simp: Channel_SetHeader_def chan_inv_def split: prod.splits dest: buf_inv_SetHeader_case)
next
  case (6 c now ci a)
  then show ?case by (auto simp: SetInfoWithAudit_def chan_inv_def split: option.splits prod.splits)
next
  case (16 c now k)
  then show ?case by (auto simp: HasBanned_def chan_inv_def split: option.splits)
qed (blast intro: chan_inv_New chan_inv_AddOutput chan_inv_TryAddOutput chan_inv_RemoveOutput
      chan_inv_makeRelayable chan_inv_CloseAll
    | simp add: chan_setters chan_inv_def addKnownHost_inv updateStats_inv removeStats_inv ObserveHost_inv)+

section \<open>The ban list as an expiring set\<close>

definition ban_add :: "time \<Rightarrow> 'a Channel \<Rightarrow> string \<Rightarrow> 'a Channel" where
  "ban_add now c key = Ban key (now + relayBanDuration) c"

definition banned_at :: "time \<Rightarrow> 'a Channel \<Rightarrow> string \<Rightarrow> bool" where
  "banned_at now c key \<longleftrightarrow> (case banList c key of None \<Rightarrow> False | Some until \<Rightarrow> now < until)"

interpretation bans: expiring_set "New 0 zeroID zeroID 0 :: 'a Channel" ban_add HasBanned banned_at
  "\<lambda>_. relayBanDuration - 1"
  by unfold_locales
    (auto simp: New_def ban_add_def Ban_def HasBanned_def banned_at_def split: option.splits if_splits)

section \<open>Properties\<close>

text \<open>
  C8.  In every state a channel can reach, whatever the order of connects, disconnects, evictions
  and closes, the relay and listener counters equal the number of registered outputs of each kind;
  the node table stays bounded and the ring buffer well formed.
\<close>

theorem channel_counters_exact:
  assumes "chan_reach P c"
  shows "numRelays c = int (count_out OutputStreamPCP (outputs c)) \<and>
         numListeners c = int (count_out OutputStreamHTTP (outputs c)) \<and>
         node_inv P (nodes c) \<and> buf_inv (buffer c)"
  using chan_reach_inv [OF assms] by (simp add: chan_inv_def)

definition demo_out :: "nat \<Rightarrow> OutputStream" where
  "demo_out n = \<lparr>oRef = n, oType = OutputStreamPCP, oID = int n, oRemoteAddr = ''8.8.8.8:7144'',
     oPeer = Some \<lparr>pePeerID = replicate 16 (of_nat n), peFirewalled = True, peRemotePort = 0,
       peAgent = [], peVersion = 1218\<rparr>\<rparr>"

definition demo_chan :: "wire_atom Channel" where
  "demo_chan = AddOutput (demo_out 2) (AddOutput (demo_out 1) (New 5 zeroID zeroID 0))"

theorem channel_counters_exact_witness: "numRelays demo_chan = 2"
proof -
  have "chan_reach wire_pcp demo_chan" unfolding demo_chan_def by (intro chan_reach.intros)
  from channel_counters_exact [OF this] show ?thesis
    by (simp add: demo_chan_def AddOutput_def New_def demo_out_def)
qed

text \<open>
  Slot limits hold: an output is refused exactly when its kind has a limit and that many
  outputs of the kind are registered; an accepted output leaves the kind within its limit; a
  refusal changes nothing.
\<close>

theorem TryAddOutput_respects_limits:
  assumes "chan_reach P c" "limit = (case oType o' of OutputStreamPCP \<Rightarrow> maxRelays | OutputStreamHTTP \<Rightarrow> maxListeners)"
  shows "(snd (TryAddOutput o' maxRelays maxListeners c) \<longleftrightarrow>
            limit \<le> 0 \<or> int (count_out (oType o') (outputs c)) < limit) \<and>
         (snd (TryAddOutput o' maxRelays maxListeners c) \<longrightarrow>
            outputs (fst (TryAddOutput o' maxRelays maxListeners c)) = outputs c @ [o'] \<and>
            (0 < limit \<longrightarrow> int (count_out (oType o') (outputs c @ [o'])) \<le> limit)) \<and>
         (\<not> snd (TryAddOutput o' maxRelays maxListeners c) \<longrightarrow> fst (TryAddOutput o' maxRelays maxListeners c) = c)"
  using chan_reach_inv [OF assms(1)] assms(2)
  by (cases "oType o'") (auto simp: chan_inv_def TryAddOutput_def slots_full_def)

theorem TryAddOutput_respects_limits_witness: "\<not> snd (TryAddOutput (demo_out 3) 2 0 demo_chan)"
proof -
  have "chan_reach wire_pcp demo_chan" unfolding demo_chan_def by (intro chan_reach.intros)
  moreover have "count_out OutputStreamPCP (outputs demo_chan) = 2"
    by (simp add: demo_chan_def AddOutput_def New_def demo_out_def)
  ultimately show ?thesis
    using TryAddOutput_respects_limits [where P = wire_pcp and c = demo_chan and o' = "demo_out 3" and limit = 2
        and maxRelays = 2 and maxListeners = 0] by (simp add: demo_out_def)
qed

text \<open>
  C10.  Making room.  When the relay slots are full, either no output may be evicted and nothing
  changes, or exactly one does: the first that is firewalled or unproductive and not on a local
  network.  Then a slot is free, and requests from the evicted address are refused for exactly
  90 seconds.
\<close>

theorem makeRelayable_frees_a_slot:
  assumes "chan_reach P c" "0 < maxRelays" "maxRelays \<le> numRelays c"
    "makeRelayable P now maxRelays False c = (ok, c', effs)"
  shows "(\<not> ok \<longrightarrow> c' = c \<and> effs = [] \<and> (\<forall>o' \<in> set (outputs c). \<not> evictable P now c o')) \<and>
         (ok \<longrightarrow> (\<exists>v pre post. outputs c = pre @ v # post \<and> outputs c' = pre @ post \<and> evictable P now c v \<and>
            (\<forall>o' \<in> set pre. \<not> evictable P now c o') \<and>
            effs = [EvictOut (oRef v)] \<and> numRelays c' = numRelays c - 1 \<and>
            (\<forall>h port t. SplitHostPort (oRemoteAddr v) = Some (h, port) \<longrightarrow>
               fst (HasBanned t c' h) = (t < now + relayBanDuration))))"
proof (cases "find (evictable P now c) (outputs c)")
  case None
  moreover have "ok = False" "c' = c" "effs = []" using None assms by (auto simp: makeRelayable_def)
  ultimately show ?thesis by (auto simp: find_None_iff)
next
  case (Some v)
  then obtain pre post where split: "outputs c = pre @ v # post" "\<forall>o' \<in> set pre. \<not> evictable P now c o'"
    "evictable P now c v"
    by (metis find_Some_split)
  then have rem: "remove1 v (outputs c) = pre @ post" and pcp: "oType v = OutputStreamPCP"
    by (auto simp: remove1_append evictable_def)
  let ?c1 = "case SplitHostPort (oRemoteAddr v) of Some (h, _) \<Rightarrow> Ban h (now + relayBanDuration) c | None \<Rightarrow> c"
  have c1: "outputs ?c1 = outputs c" "numRelays ?c1 = numRelays c"
    by (auto simp: Ban_def split: option.splits)
  have res: "ok" "c' = RemoveOutput v ?c1" "effs = [EvictOut (oRef v)]"
    using assms Some by (auto simp: makeRelayable_def Let_def)
  have "v \<in> set (outputs c)" using split(1) by simp
  then have out: "outputs c' = pre @ post" "numRelays c' = numRelays c - 1" "banList c' = banList ?c1"
    using res(2) rem pcp c1 by (simp_all add: RemoveOutput_alt)
  then have "fst (HasBanned t c' h) = (t < now + relayBanDuration)" if "SplitHostPort (oRemoteAddr v) = Some (h, port)" for h port t
    using that by (simp add: HasBanned_def Ban_def)
  with res split out show ?thesis by blast
qed

theorem makeRelayable_frees_a_slot_witness:
  "\<exists>c'. makeRelayable wire_pcp 7 2 False demo_chan = (True, c', [EvictOut 1]) \<and> numRelays c' = 1 \<and>
     fst (HasBanned 8 c' ''8.8.8.8'')"
proof -
  have reach: "chan_reach wire_pcp demo_chan" unfolding demo_chan_def by (intro chan_reach.intros)
  have n: "numRelays demo_chan = 2" "outputs demo_chan = [demo_out 1, demo_out 2]"
    by (simp_all add: demo_chan_def AddOutput_def New_def demo_out_def)
  have split: "SplitHostPort (oRemoteAddr (demo_out k)) = Some (''8.8.8.8'', ''7144'')" for k
    by (simp add: demo_out_def) code_simp
  have "\<not> (IsLoopback (ParseIP ''8.8.8.8'') \<or> IsPrivate (ParseIP ''8.8.8.8'') \<or> IsLinkLocalUnicast (ParseIP ''8.8.8.8''))"
    by code_simp
  with split have ev: "evictable wire_pcp 7 demo_chan (demo_out k)" for k
    by (simp add: evictable_def) (simp add: demo_out_def)
  obtain ok c' effs where run: "makeRelayable wire_pcp 7 2 False demo_chan = (ok, c', effs)" by (metis prod_cases3)
  have "oRef (demo_out 1) = 1" by (simp add: demo_out_def)
  with run n ev have *: "ok" "effs = [EvictOut 1]" by (auto simp: makeRelayable_def Let_def)
  from makeRelayable_frees_a_slot [OF reach _ _ run] n * obtain v pre post where
    v: "numRelays c' = numRelays demo_chan - 1" "outputs demo_chan = pre @ v # post"
      "\<forall>h port t. SplitHostPort (oRemoteAddr v) = Some (h, port) \<longrightarrow> fst (HasBanned t c' h) = (t < 7 + relayBanDuration)"
    by auto
  then have "v \<in> set (outputs demo_chan)" by simp
  then have "\<exists>k. v = demo_out k" unfolding n(2) by auto
  then have "SplitHostPort (oRemoteAddr v) = Some (''8.8.8.8'', ''7144'')" using split by blast
  with v(3) have "fst (HasBanned 8 c' ''8.8.8.8'')" by (auto simp: relayBanDuration_def)
  with run * v n show ?thesis by simp
qed

text \<open>
  An address is refused exactly while an eviction from it is less than 90 seconds old, whatever
  lookups and other evictions happened in between.
\<close>

theorem ban_history:
  assumes "sorted (map es_time ops)" "\<forall>e \<in> set ops. es_time e \<le> t"
  shows "fst (HasBanned t (bans.es_run ops) a) \<longleftrightarrow> (\<exists>t0. EAdd t0 a \<in> set ops \<and> t < t0 + relayBanDuration)"
proof -
  have "t \<le> t0 + (relayBanDuration - 1) \<longleftrightarrow> t < t0 + relayBanDuration" for t0 by linarith
  then show ?thesis unfolding bans.look_live bans.live_history [OF assms] by simp
qed

theorem ban_history_witness:
  "fst (HasBanned (80 * second) (bans.es_run [EAdd 5 ''1.2.3.4'', ELook 9 ''1.2.3.4'']) ''1.2.3.4'')"
  by (subst ban_history) (simp_all add: relayBanDuration_def)



end
