(* ===== verification/Version.thy ===== *)
theory Version
  imports Go_Std
begin

text \<open>\<^verbatim>\<open>internal/version/version.go\<close>: the constants announced in atoms.\<close>

definition VersionString :: string where
  "VersionString = ''0.0.1''"

definition PCPVersion :: u32 where
  "PCPVersion = 1218"

definition PCPVersionVP :: u32 where
  "PCPVersionVP = 27"

definition AgentName :: string where
  "AgentName = ''PeerCast-MI/'' @ VersionString"

definition PCPClientMinVersion :: u32 where
  "PCPClientMinVersion = 1200"

definition ExPrefix :: string where
  "ExPrefix = ''MI''"

text \<open>\<^verbatim>\<open>Sscanf(Version, "%d.%d.%d", ...)\<close> on the constant reads its three decimal fields.\<close>

definition ExNumber :: u16 where
  "ExNumber =
     (case map digits_val (split_char CHR ''.'' VersionString) of
        [major, minor, patch] \<Rightarrow> of_nat major * 100 + of_nat minor * 10 + of_nat patch
      | _ \<Rightarrow> 0)"

lemma ExNumber_1: "ExNumber = 1"
  by (simp add: ExNumber_def VersionString_def digits_val_def)

end
