(* ===== verification/Host_Atom.thy ===== *)
theory Host_Atom
  imports Network Version
begin

text \<open>
  \<^verbatim>\<open>internal/pcputil/host.go\<close>: the HOST atom a node announces itself with, to its downstream,
  its upstream and the YP.
\<close>

record HostAtomParams =
  paNetwork :: "NetworkState option"
  paLocalAddress :: ip
  paGlobalAddress :: ip
  paUpstreamAddress :: ip
  paFirewalled :: bool
  paSessionID :: gnuid
  paLocalIP :: u32
  paGlobalIP :: u32
  paListenPort :: u16
  paChannelID :: gnuid
  paNumListeners :: int
  paNumRelays :: int
  paUptime :: u32
  paOldPos :: u32
  paNewPos :: u32
  paIsTracker :: bool
  paHasGlobalIP :: bool
  paRelayFull :: bool
  paDirectFull :: bool
  paTrackerAtom :: bool
  paIsReceiving :: bool
  paUphostIP :: u32
  paUphostPort :: u16
  paUphostHops :: u32

text \<open>The zero value, from which callers set the fields they know.\<close>

definition HostAtomParams0 :: HostAtomParams where
  "HostAtomParams0 =
    \<lparr>paNetwork = None, paLocalAddress = [], paGlobalAddress = [], paUpstreamAddress = [],
     paFirewalled = False, paSessionID = zeroID, paLocalIP = 0, paGlobalIP = 0, paListenPort = 0,
     paChannelID = zeroID, paNumListeners = 0, paNumRelays = 0, paUptime = 0, paOldPos = 0,
     paNewPos = 0, paIsTracker = False, paHasGlobalIP = False, paRelayFull = False,
     paDirectFull = False, paTrackerAtom = False, paIsReceiving = False, paUphostIP = 0,
     paUphostPort = 0, paUphostHops = 0\<rparr>"

definition or_ip :: "ip \<Rightarrow> ip \<Rightarrow> ip" where
  "or_ip p q = (if p = [] then q else p)"

definition pa_local :: "'a pcp \<Rightarrow> HostAtomParams \<Rightarrow> ip" where
  "pa_local P p = or_ip (paLocalAddress p) (IPv4FromUint32 P (paLocalIP p))"

definition pa_upstream :: "'a pcp \<Rightarrow> HostAtomParams \<Rightarrow> ip" where
  "pa_upstream P p = or_ip (paUpstreamAddress p) (IPv4FromUint32 P (paUphostIP p))"

definition pa_net_ip :: "'a pcp \<Rightarrow> HostAtomParams \<Rightarrow> ip" where
  "pa_net_ip P p =
     (let g = or_ip (paGlobalAddress p) (IPv4FromUint32 P (paGlobalIP p)) in
      if paNetwork p = None then g else or_ip (fst (Status (paNetwork p) (pa_local P p))) g)"

definition pa_global :: "'a pcp \<Rightarrow> HostAtomParams \<Rightarrow> ip" where
  "pa_global P p =
     (let g = pa_net_ip P p in
      if ProtocolVersion (pa_local P p) = 100 \<and> (g = [] \<or> IsUnspecified g) then replicate 16 0 else g)"

definition pa_firewalled :: "'a pcp \<Rightarrow> HostAtomParams \<Rightarrow> bool" where
  "pa_firewalled P p =
     (if paNetwork p = None then paFirewalled p
      else case Status (paNetwork p) (pa_local P p) of (_, kn, op) \<Rightarrow> \<not> kn \<or> \<not> op)"

definition pa_has_global :: "'a pcp \<Rightarrow> HostAtomParams \<Rightarrow> bool" where
  "pa_has_global P p =
     (if paNetwork p = None then paHasGlobalIP p
      else pa_net_ip P p \<noteq> [] \<and> \<not> IsUnspecified (pa_net_ip P p))"

definition flag_if :: "'a pcp \<Rightarrow> bool \<Rightarrow> pcp_flag \<Rightarrow> byte" where
  "flag_if P c f = (if c then flag_of P f else 0)"

definition pa_flags :: "'a pcp \<Rightarrow> HostAtomParams \<Rightarrow> byte" where
  "pa_flags P p =
     flag_of P PCPHostFlags1CIN
     OR flag_if P (pa_firewalled P p) PCPHostFlags1Push
     OR flag_if P (paIsReceiving p) PCPHostFlags1Recv
     OR flag_if P (\<not> paRelayFull p) PCPHostFlags1Relay
     OR flag_if P (pa_has_global P p \<and> \<not> paDirectFull p) PCPHostFlags1Direct
     OR flag_if P (paIsTracker p) PCPHostFlags1Tracker"

definition host_children :: "'a pcp \<Rightarrow> HostAtomParams \<Rightarrow> 'a list" where
  "host_children P p =
     (let T = tag_of P in
      [NewIDAtom P (T PCPHostID) (paSessionID p),
       IPAtom P (T PCPHostIP) (pa_global P p),
       NewShortAtom P (T PCPHostPort) (if pa_firewalled P p then 0 else paListenPort p),
       IPAtom P (T PCPHostIP) (pa_local P p),
       NewShortAtom P (T PCPHostPort) (paListenPort p),
       NewIntAtom P (T PCPHostNumListeners) (of_int (paNumListeners p)),
       NewIntAtom P (T PCPHostNumRelays) (of_int (paNumRelays p)),
       NewIntAtom P (T PCPHostUptime) (paUptime p),
       NewIntAtom P (T PCPHostOldPos) (paOldPos p),
       NewIntAtom P (T PCPHostNewPos) (paNewPos p),
       NewIDAtom P (T PCPHostChanID) (paChannelID p),
       NewByteAtom P (T PCPHostFlags1) (pa_flags P p),
       NewIntAtom P (T PCPHostVersion) PCPVersion,
       NewIntAtom P (T PCPHostVersionVP) PCPVersionVP,
       NewBytesAtom P (T PCPHostVersionExPrefix) (ascii ExPrefix),
       NewShortAtom P (T PCPHostVersionExNumber) ExNumber]
      @ (if paTrackerAtom p then [NewIntAtom P (T PCPHostTracker) 1] else [])
      @ (if \<not> IsUnspecified (pa_upstream P p) \<or> paUphostPort p \<noteq> 0 then
           [IPAtom P (T PCPHostUphostIP) (pa_upstream P p),
            NewIntAtom P (T PCPHostUphostPort) (ucast (paUphostPort p))]
           @ (if paUphostHops p \<noteq> 0 then [NewIntAtom P (T PCPHostUphostHops) (paUphostHops p)] else [])
         else []))"

definition BuildHostAtom :: "'a pcp \<Rightarrow> HostAtomParams \<Rightarrow> 'a" where
  "BuildHostAtom P p = NewParentAtom P (tag_of P PCPHost) (host_children P p)"

section \<open>The flag byte\<close>

lemma flag_disjoint:
  "flag_laws P \<Longrightarrow> f \<in> set host_flags \<Longrightarrow> g \<in> set host_flags \<Longrightarrow> f \<noteq> g \<Longrightarrow>
     flag_of P f AND flag_of P g = 0"
  by (simp add: flag_laws_def)

lemma flag_nonzero: "flag_laws P \<Longrightarrow> f \<in> set host_flags \<Longrightarrow> flag_of P f \<noteq> 0"
  by (simp add: flag_laws_def)

lemma and_flag_if:
  "flag_laws P \<Longrightarrow> f \<in> set host_flags \<Longrightarrow> g \<in> set host_flags \<Longrightarrow>
     flag_if P c f AND flag_of P g = (if c \<and> f = g then flag_of P g else 0)"
  by (simp add: flag_if_def flag_disjoint)

text \<open>Each bit of the flag byte says one thing about the node, independently of the others.\<close>

lemma pa_flags_bits:
  assumes "flag_laws P"
  shows "pa_flags P p AND flag_of P PCPHostFlags1Push \<noteq> 0 \<longleftrightarrow> pa_firewalled P p"
    and "pa_flags P p AND flag_of P PCPHostFlags1Recv \<noteq> 0 \<longleftrightarrow> paIsReceiving p"
    and "pa_flags P p AND flag_of P PCPHostFlags1Relay \<noteq> 0 \<longleftrightarrow> \<not> paRelayFull p"
    and "pa_flags P p AND flag_of P PCPHostFlags1Direct \<noteq> 0 \<longleftrightarrow> pa_has_global P p \<and> \<not> paDirectFull p"
    and "pa_flags P p AND flag_of P PCPHostFlags1Tracker \<noteq> 0 \<longleftrightarrow> paIsTracker p"
  using assms
  by (simp_all add: pa_flags_def bit.conj_disj_distrib2 and_flag_if flag_disjoint flag_nonzero
      host_flags_def)

end
