(* ===== verification/Source_Node.thy ===== *)
theory Source_Node
  imports Host_Atom Expiring
begin

text \<open>
  \<^verbatim>\<open>internal/relay/sourcenode.go\<close>, \<^verbatim>\<open>ignorednode.go\<close> and \<^verbatim>\<open>select.go\<close>: the upstream candidates a
  relay learns from HOST atoms, the addresses it skips for a while after a failure, and the choice
  of the next address to dial.

  The random draws of \<^verbatim>\<open>selectSourceHost\<close> are a function \<open>rnd\<close> from the position in the node
  list to a number; scores are rationals in place of \<^verbatim>\<open>float64\<close>.  Snapshots of a map are taken in
  an order given as an argument.
\<close>

record SourceNode =
  snSessionID :: gnuid
  snGlobalIP :: u32
  snGlobalAddr :: string
  snLocalAddr :: string
  snIsFirewalled :: bool
  snIsRelayFull :: bool
  snIsReceiving :: bool
  snIsTracker :: bool
  snHops :: u32
  snRelayCount :: u32
  snUpdatedAt :: time

definition SourceNode0 :: SourceNode where
  "SourceNode0 =
    \<lparr>snSessionID = zeroID, snGlobalIP = 0, snGlobalAddr = [], snLocalAddr = [],
     snIsFirewalled = False, snIsRelayFull = False, snIsReceiving = False, snIsTracker = False,
     snHops = 0, snRelayCount = 0, snUpdatedAt = 0\<rparr>"

definition nodeExpiry :: int where
  "nodeExpiry = 180 * second"

section \<open>The list of candidates\<close>

type_synonym SourceNodeList = "gnuid \<rightharpoonup> SourceNode"

definition NewSourceNodeList :: SourceNodeList where
  "NewSourceNodeList = Map.empty"

definition SourceNodeList_Add :: "time \<Rightarrow> SourceNodeList \<Rightarrow> SourceNode \<Rightarrow> SourceNodeList" where
  "SourceNodeList_Add now l node =
     (let l' = l(snSessionID node \<mapsto> node\<lparr>snUpdatedAt := now\<rparr>) in
      (\<lambda>i. case l' i of None \<Rightarrow> None
           | Some n \<Rightarrow> if now - snUpdatedAt n > nodeExpiry then None else Some n))"

definition SourceNodeList_List :: "gnuid list \<Rightarrow> time \<Rightarrow> SourceNodeList \<Rightarrow> SourceNode list" where
  "SourceNodeList_List order now l =
     filter (\<lambda>n. now - snUpdatedAt n \<le> nodeExpiry) (List.map_filter l order)"

section \<open>Reading a HOST atom\<close>

record host_scan =
  hsNode :: SourceNode
  hsIPs :: "ip list"
  hsPorts :: "u16 list"

definition scan_child :: "'a pcp \<Rightarrow> host_scan \<Rightarrow> 'a \<Rightarrow> host_scan" where
  "scan_child P s c =
     (let t = Tag P c; T = tag_of P; n = hsNode s in
      if t = T PCPHostID then
        (if snd (GetID P c) then s\<lparr>hsNode := n\<lparr>snSessionID := fst (GetID P c)\<rparr>\<rparr> else s)
      else if t = T PCPHostIP then
        (if length (hsIPs s) < 2 \<and> AtomIP P (Some c) \<noteq> [] then s\<lparr>hsIPs := hsIPs s @ [AtomIP P (Some c)]\<rparr> else s)
      else if t = T PCPHostPort then
        (if length (hsPorts s) < 2 \<and> snd (GetShort P c) then s\<lparr>hsPorts := hsPorts s @ [fst (GetShort P c)]\<rparr> else s)
      else if t = T PCPHostFlags1 then
        (if snd (GetByte P c) then
           (let v = fst (GetByte P c) in
            s\<lparr>hsNode := n\<lparr>snIsFirewalled := v AND flag_of P PCPHostFlags1Push \<noteq> 0,
                          snIsRelayFull := v AND flag_of P PCPHostFlags1Relay = 0,
                          snIsReceiving := v AND flag_of P PCPHostFlags1Recv \<noteq> 0,
                          snIsTracker := v AND flag_of P PCPHostFlags1Tracker \<noteq> 0\<rparr>\<rparr>)
         else s)
      else if t = T PCPHostNumRelays then
        (if snd (GetInt P c) then s\<lparr>hsNode := n\<lparr>snRelayCount := fst (GetInt P c)\<rparr>\<rparr> else s)
      else if t = T PCPHostUphostHops then
        (if snd (GetInt P c) then s\<lparr>hsNode := n\<lparr>snHops := fst (GetInt P c)\<rparr>\<rparr> else s)
      else s)"

text \<open>The two-element arrays of the code are lists of the entries set so far.\<close>

definition nth_or :: "'b \<Rightarrow> 'b list \<Rightarrow> nat \<Rightarrow> 'b" where
  "nth_or z xs i = (if i < length xs then xs ! i else z)"

definition usable_ip :: "ip \<Rightarrow> u16 \<Rightarrow> bool" where
  "usable_ip q port \<longleftrightarrow> port \<noteq> 0 \<and> q \<noteq> [] \<and> \<not> IsUnspecified q \<and> \<not> IsLoopback q"

definition endpoint :: "ip \<Rightarrow> u16 \<Rightarrow> string" where
  "endpoint q port = (if usable_ip q port then JoinHostPort (ip_string q) (Itoa (uint port)) else [])"

definition parseSourceNode :: "'a pcp \<Rightarrow> 'a \<Rightarrow> SourceNode \<times> bool" where
  "parseSourceNode P a =
     (let s = foldl (scan_child P) \<lparr>hsNode = SourceNode0, hsIPs = [], hsPorts = []\<rparr> (Children P a);
          ip0 = nth_or [] (hsIPs s) 0; ip1 = nth_or [] (hsIPs s) 1;
          port0 = nth_or 0 (hsPorts s) 0; port1 = nth_or 0 (hsPorts s) 1;
          n = (hsNode s)\<lparr>snGlobalIP := (if usable_ip ip0 port0 then fst (IPv4ToUint32 P ip0) else 0),
                         snGlobalAddr := endpoint ip0 port0, snLocalAddr := endpoint ip1 port1\<rparr>
      in (n, \<not> (snGlobalAddr n = [] \<and> snLocalAddr n = [])))"

section \<open>Ignored addresses\<close>

definition ignoredDuration :: int where
  "ignoredDuration = 180 * second"

record IgnoredNodeCollection =
  entries :: "string \<rightharpoonup> time"
  threshold :: int

definition NewIgnoredNodeCollection :: IgnoredNodeCollection where
  "NewIgnoredNodeCollection = \<lparr>entries = Map.empty, threshold = ignoredDuration\<rparr>"

definition Ignored_Add :: "time \<Rightarrow> IgnoredNodeCollection \<Rightarrow> string \<Rightarrow> IgnoredNodeCollection" where
  "Ignored_Add now c addr = c\<lparr>entries := (entries c)(addr \<mapsto> now)\<rparr>"

definition Ignored_Contains ::
  "time \<Rightarrow> IgnoredNodeCollection \<Rightarrow> string \<Rightarrow> bool \<times> IgnoredNodeCollection" where
  "Ignored_Contains now c addr =
     (case entries c addr of
        None \<Rightarrow> (False, c)
      | Some t \<Rightarrow> if now - t > threshold c then (False, c\<lparr>entries := (entries c)(addr := None)\<rparr>)
                  else (True, c))"

text \<open>The addresses that are skipped at an instant.\<close>

definition ignored_at :: "time \<Rightarrow> IgnoredNodeCollection \<Rightarrow> string \<Rightarrow> bool" where
  "ignored_at now c addr \<longleftrightarrow> (case entries c addr of None \<Rightarrow> False | Some t \<Rightarrow> now \<le> t + threshold c)"

interpretation ign: expiring_set NewIgnoredNodeCollection Ignored_Add Ignored_Contains ignored_at threshold
  by unfold_locales
    (auto simp: NewIgnoredNodeCollection_def Ignored_Add_def Ignored_Contains_def ignored_at_def
      split: option.splits if_splits)

section \<open>Choosing the next address\<close>

definition sameNAT :: "SourceNode \<Rightarrow> u32 \<Rightarrow> bool" where
  "sameNAT n ours \<longleftrightarrow> ours \<noteq> 0 \<and> snGlobalIP n \<noteq> 0 \<and> snGlobalIP n = ours"

definition connectAddr :: "SourceNode \<Rightarrow> u32 \<Rightarrow> string" where
  "connectAddr n ours = (if sameNAT n ours \<and> snLocalAddr n \<noteq> [] then snLocalAddr n else snGlobalAddr n)"

definition source_bonus :: "SourceNode \<Rightarrow> rat" where
  "source_bonus n =
     (if snIsReceiving n then 4000 else 0) + (if \<not> snIsRelayFull n then 2000 else 0) +
     (if unat (snHops n) < 10 then of_int ((10 - uint (snHops n)) * 100) else 0) +
     of_int (uint (snRelayCount n * 10))"

definition source_score :: "SourceNode \<Rightarrow> u32 \<Rightarrow> rat \<Rightarrow> rat" where
  "source_score n ours r = (if sameNAT n ours then 8000 else 0) + r * source_bonus n"

fun select_loop ::
  "(nat \<Rightarrow> rat) \<Rightarrow> time \<Rightarrow> u32 \<Rightarrow> nat \<Rightarrow> SourceNode list \<Rightarrow> string \<Rightarrow> rat \<Rightarrow> IgnoredNodeCollection \<Rightarrow>
     string \<times> IgnoredNodeCollection" where
  "select_loop rnd now ours i [] bestAddr bestScore ig = (bestAddr, ig)"
| "select_loop rnd now ours i (n # ns) bestAddr bestScore ig =
     (let next = select_loop rnd now ours (Suc i) ns; addr = connectAddr n ours in
      if snIsFirewalled n then next bestAddr bestScore ig
      else if addr = [] then next bestAddr bestScore ig
      else case Ignored_Contains now ig addr of
        (True, ig') \<Rightarrow> next bestAddr bestScore ig'
      | (False, ig') \<Rightarrow>
          (let score = source_score n ours (rnd i) in
           if score > bestScore then next addr score ig' else next bestAddr bestScore ig'))"

definition selectSourceHost ::
  "(nat \<Rightarrow> rat) \<Rightarrow> time \<Rightarrow> SourceNode list \<Rightarrow> IgnoredNodeCollection \<Rightarrow> string \<Rightarrow> u32 \<Rightarrow>
     string \<times> IgnoredNodeCollection" where
  "selectSourceHost rnd now nodes ig trackerAddr ours =
     (case select_loop rnd now ours 0 nodes [] (- 1) ig of
        (best, ig') \<Rightarrow>
          if best \<noteq> [] then (best, ig')
          else if trackerAddr \<noteq> [] then
            (case Ignored_Contains now ig' trackerAddr of
               (True, ig'') \<Rightarrow> ([], ig'') | (False, ig'') \<Rightarrow> (trackerAddr, ig''))
          else ([], ig'))"

text \<open>A node is a candidate when it is reachable and not skipped.\<close>

definition candidate :: "time \<Rightarrow> IgnoredNodeCollection \<Rightarrow> u32 \<Rightarrow> SourceNode \<Rightarrow> bool" where
  "candidate now ig ours n \<longleftrightarrow>
     \<not> snIsFirewalled n \<and> connectAddr n ours \<noteq> [] \<and> \<not> ignored_at now ig (connectAddr n ours)"

section \<open>Lemmas\<close>

lemma To4_zeros: "To4 (replicate 16 0) = []"
  by code_simp

text \<open>An address read back from its atom is the same address for every test the code makes.\<close>

lemma wire_ip_same:
  assumes "atom_laws P" "ip_laws P" "length p = 4 \<or> length p = 16"
    and q: "q = AtomIP P (Some (IPAtom P tag p))"
  shows "q \<noteq> []" "IsUnspecified q = IsUnspecified p" "IsLoopback q = IsLoopback p"
    "ip_string q = ip_string p" "IPv4ToUint32 P q = IPv4ToUint32 P p"
proof -
  have len: "length q = 4 \<or> length q = 16"
    using assms(1,2) by (auto simp: q IPAtom_def AtomIP_def wire_simps ip_laws_def To16_def v4prefix_def)
  then show "q \<noteq> []" by auto
  have eq: "To4 q = To4 p" "To4 p = [] \<Longrightarrow> q = p"
    using wire_ip_round [OF assms(1-3), of tag] q by simp_all
  have "To4 r \<noteq> [] \<Longrightarrow> r \<noteq> replicate 16 0" for r
    using To4_zeros by auto
  with eq show "IsUnspecified q = IsUnspecified p" by (cases "To4 p = []") (auto simp: IsUnspecified_def)
  show "IsLoopback q = IsLoopback p" using eq by (cases "To4 p = []") (auto simp: IsLoopback_def)
  show "ip_string q = ip_string p"
    using eq len assms(3) \<open>q \<noteq> []\<close> by (cases "To4 p = []") (auto simp: ip_string_def)
  show "IPv4ToUint32 P q = IPv4ToUint32 P p"
  proof (cases "To4 p = []")
    case False
    then have "IPv4ToUint32 P r = IPv4ToUint32 P (To4 p)" if "To4 r = To4 p" for r
      using assms(2) length_To4 [of p] that unfolding ip_laws_def by blast
    then show ?thesis using eq(1) by metis
  qed (simp add: eq)
qed

lemma IPAtom_tag: "atom_laws P \<Longrightarrow> Tag P (IPAtom P tag p) = tag"
  by (simp add: IPAtom_def wire_simps)

lemma endpoint_wire:
  assumes "atom_laws P" "ip_laws P" "length p = 4 \<or> length p = 16"
  shows "usable_ip (AtomIP P (Some (IPAtom P tag p))) port = usable_ip p port"
    and "endpoint (AtomIP P (Some (IPAtom P tag p))) port = endpoint p port"
proof -
  have "p \<noteq> []" using assms(3) by auto
  then show "usable_ip (AtomIP P (Some (IPAtom P tag p))) port = usable_ip p port"
    using wire_ip_same [OF assms refl, of tag] by (simp add: usable_ip_def)
  then show "endpoint (AtomIP P (Some (IPAtom P tag p))) port = endpoint p port"
    using wire_ip_same [OF assms refl, of tag] by (simp add: endpoint_def)
qed

lemma scan_foldl_tail:
  assumes "atom_laws P" "tag_laws P"
  shows "foldl (scan_child P) s (if c then [NewIntAtom P (tag_of P PCPHostTracker) 1] else []) = s"
    and "foldl (scan_child P) s
           (if u then [IPAtom P (tag_of P PCPHostUphostIP) q, NewIntAtom P (tag_of P PCPHostUphostPort) v] @
              (if h \<noteq> 0 then [NewIntAtom P (tag_of P PCPHostUphostHops) h] else [])
            else []) =
         (if u \<and> h \<noteq> 0 then s\<lparr>hsNode := (hsNode s)\<lparr>snHops := h\<rparr>\<rparr> else s)"
  using assms by (simp_all add: scan_child_def wire_simps IPAtom_tag tag_laws_host host_tags_def)

text \<open>
  What a node announces is what the receiver reads: parsing the HOST atom built from a node's
  parameters recovers its session, the firewalled, full, receiving and tracker flags, the relay
  count, the hop count and both endpoints; the global endpoint is withheld when it is firewalled.
\<close>

theorem parseSourceNode_BuildHostAtom:
  assumes laws: "atom_laws P" "tag_laws P" "flag_laws P" "ip_laws P"
    and ids: "length (paSessionID p) = 16" "length (paChannelID p) = 16"
    and ips: "length (pa_global P p) = 4 \<or> length (pa_global P p) = 16"
             "length (pa_local P p) = 4 \<or> length (pa_local P p) = 16"
    and n: "n = fst (parseSourceNode P (BuildHostAtom P p))"
    and port: "port = (if pa_firewalled P p then 0 else paListenPort p)"
  shows "n = \<lparr>snSessionID = paSessionID p,
     snGlobalIP = (if usable_ip (pa_global P p) port then fst (IPv4ToUint32 P (pa_global P p)) else 0),
     snGlobalAddr = endpoint (pa_global P p) port,
     snLocalAddr = endpoint (pa_local P p) (paListenPort p),
     snIsFirewalled = pa_firewalled P p, snIsRelayFull = paRelayFull p,
     snIsReceiving = paIsReceiving p, snIsTracker = paIsTracker p,
     snHops = (if \<not> IsUnspecified (pa_upstream P p) \<or> paUphostPort p \<noteq> 0 then paUphostHops p else 0),
     snRelayCount = of_int (paNumRelays p), snUpdatedAt = 0\<rparr>"
proof -
  note same = wire_ip_same [OF laws(1) laws(4) ips(1) refl] wire_ip_same [OF laws(1) laws(4) ips(2) refl]
  have scan: "foldl (scan_child P) \<lparr>hsNode = SourceNode0, hsIPs = [], hsPorts = []\<rparr> (host_children P p) =
    \<lparr>hsNode = SourceNode0\<lparr>snSessionID := paSessionID p, snIsFirewalled := pa_firewalled P p,
       snIsRelayFull := paRelayFull p, snIsReceiving := paIsReceiving p, snIsTracker := paIsTracker p,
       snRelayCount := of_int (paNumRelays p),
       snHops := (if \<not> IsUnspecified (pa_upstream P p) \<or> paUphostPort p \<noteq> 0 then paUphostHops p else 0)\<rparr>,
     hsIPs = [AtomIP P (Some (IPAtom P (tag_of P PCPHostIP) (pa_global P p))),
              AtomIP P (Some (IPAtom P (tag_of P PCPHostIP) (pa_local P p)))],
     hsPorts = [port, paListenPort p]\<rparr>"
    unfolding host_children_def Let_def foldl_append scan_foldl_tail [OF laws(1,2)]
    using laws ids pa_flags_bits [OF laws(3), of p]
    by (simp add: scan_child_def wire_simps IPAtom_tag tag_laws_host host_tags_def same port SourceNode0_def Let_def)
  show ?thesis
    unfolding n parseSourceNode_def BuildHostAtom_def atom_laws_parent(2) [OF laws(1)] scan Let_def
    using endpoint_wire [OF laws(1) laws(4) ips(1)] endpoint_wire [OF laws(1) laws(4) ips(2)] same
    by (simp add: nth_or_def SourceNode0_def)
qed

lemma le_bytes_4:
  "le_bytes 4 v = [of_nat v, of_nat (v div 256), of_nat (v div 256 div 256), of_nat (v div 256 div 256 div 256)]"
proof -
  have "(4 :: nat) = Suc (Suc (Suc (Suc 0)))" by simp
  then show ?thesis by (simp only: le_bytes.simps)
qed

definition announce_demo :: HostAtomParams where
  "announce_demo = HostAtomParams0\<lparr>paGlobalIP := 0x01020304, paLocalIP := 0xC0A80002, paListenPort := 80,
     paIsReceiving := True\<rparr>"

theorem parseSourceNode_BuildHostAtom_witness:
  "snGlobalAddr (fst (parseSourceNode wire_pcp (BuildHostAtom wire_pcp announce_demo))) = ''1.2.3.4:80''"
proof -
  have g: "pa_global wire_pcp announce_demo = v4prefix @ [1, 2, 3, 4]"
  proof -
    have "rev (le4 0x01020304) = [1, 2, 3, 4]" by (simp add: le4_def le_bytes_4)
    moreover have "ProtocolVersion (v4prefix @ v) = 1" if "length v = 4" for v
      using that by (auto simp: ProtocolVersion_def To4_def v4prefix_def)
    ultimately show ?thesis
      by (simp add: announce_demo_def HostAtomParams0_def pa_global_def pa_net_ip_def pa_local_def or_ip_def
          wire_sel Let_def)
  qed
  have l: "length (pa_local wire_pcp announce_demo) = 16"
    by (simp add: announce_demo_def HostAtomParams0_def pa_local_def or_ip_def wire_sel v4prefix_def)
  have fw: "\<not> pa_firewalled wire_pcp announce_demo" "paListenPort announce_demo = 80"
    by (simp_all add: announce_demo_def HostAtomParams0_def pa_firewalled_def)
  have ids: "length (paSessionID announce_demo) = 16" "length (paChannelID announce_demo) = 16"
    by (simp_all add: announce_demo_def HostAtomParams0_def zeroID_def)
  have "endpoint (v4prefix @ [1, 2, 3, 4]) 80 = ''1.2.3.4:80''" by code_simp
  then show ?thesis
    using parseSourceNode_BuildHostAtom [OF wire_atom_laws wire_tag_laws wire_flag_laws wire_ip_laws
        ids _ _ refl refl] l fw by (simp add: g v4prefix_def)
qed

text \<open>
  An address is skipped exactly when a failure was recorded for it within the last three
  minutes, whatever lookups happened in between.
\<close>

theorem ignored_history:
  assumes "sorted (map es_time ops)" "\<forall>e \<in> set ops. es_time e \<le> t"
  shows "fst (Ignored_Contains t (ign.es_run ops) a) \<longleftrightarrow>
         (\<exists>t0. EAdd t0 a \<in> set ops \<and> t \<le> t0 + ignoredDuration)"
  unfolding ign.look_live
  using ign.live_history [OF assms] by (simp add: NewIgnoredNodeCollection_def)

theorem ignored_history_witness:
  "\<not> fst (Ignored_Contains (200 * second) (ign.es_run [EAdd 5 ''1.2.3.4:7144'', ELook 9 ''1.2.3.4:7144'']) ''1.2.3.4:7144'')"
  by (subst ignored_history) (simp_all add: ignoredDuration_def)

subsection \<open>The selection loop\<close>

abbreviation score_at :: "(nat \<Rightarrow> rat) \<Rightarrow> u32 \<Rightarrow> nat \<Rightarrow> SourceNode list \<Rightarrow> nat \<Rightarrow> rat" where
  "score_at rnd ours k ns j \<equiv> source_score (ns ! j) ours (rnd (k + j))"

definition best_of :: "(nat \<Rightarrow> rat) \<Rightarrow> time \<Rightarrow> u32 \<Rightarrow> IgnoredNodeCollection \<Rightarrow> nat \<Rightarrow> SourceNode list \<Rightarrow> nat \<Rightarrow> bool" where
  "best_of rnd now ours ig k ns i \<longleftrightarrow>
     i < length ns \<and> candidate now ig ours (ns ! i) \<and>
     (\<forall>j < length ns. candidate now ig ours (ns ! j) \<longrightarrow> score_at rnd ours k ns j \<le> score_at rnd ours k ns i)"

lemma candidate_look:
  "candidate now (snd (Ignored_Contains now ig a)) ours n = candidate now ig ours n"
  by (simp add: candidate_def ign.look_keeps)

lemma best_of_look: "best_of rnd now ours (snd (Ignored_Contains now ig a)) k ns i = best_of rnd now ours ig k ns i"
  by (simp add: best_of_def candidate_look)

lemma best_of_skip:
  "\<not> candidate now ig ours n \<Longrightarrow> best_of rnd now ours ig (Suc k) ns i \<Longrightarrow> best_of rnd now ours ig k (n # ns) (Suc i)"
  by (auto simp: best_of_def nth_Cons split: nat.splits)

lemma source_bonus_nonneg: "0 \<le> source_bonus n"
proof -
  have "uint (snHops n) = int (unat (snHops n))" by simp
  then have "uint (snHops n) < 10" if "unat (snHops n) < 10"
    using that by presburger
  then have "0 \<le> (10 - uint (snHops n)) * 100" if "unat (snHops n) < 10"
    using that by simp
  then have "(0 :: rat) \<le> (if unat (snHops n) < 10 then of_int ((10 - uint (snHops n)) * 100) else 0)"
    by (simp only: of_int_0_le_iff order_refl split: if_split) blast
  moreover have "(0 :: rat) \<le> of_int (uint (snRelayCount n * 10))"
    by (simp only: of_int_0_le_iff uint_ge_0)
  ultimately show ?thesis unfolding source_bonus_def by (intro add_nonneg_nonneg) simp_all
qed

lemma source_score_nonneg: "0 \<le> r \<Longrightarrow> 0 \<le> source_score n ours r"
  using source_bonus_nonneg [of n] by (simp add: source_score_def)

lemma select_loop_ignored:
  "now \<le> t' \<Longrightarrow> ignored_at t' (snd (select_loop rnd now ours k ns ba bs ig)) a = ignored_at t' ig a"
proof (induction ns arbitrary: k ba bs ig)
  case (Cons n ns)
  have "ignored_at t' (snd (Ignored_Contains now ig (connectAddr n ours))) a = ignored_at t' ig a"
    using Cons.prems by (simp add: ign.look_keeps)
  then show ?case
    using Cons by (auto simp: Let_def split: prod.splits bool.splits)
qed simp

lemma select_loop_best:
  "(\<forall>j < length ns. candidate now ig ours (ns ! j) \<longrightarrow> score_at rnd ours k ns j \<le> bs) \<and>
     fst (select_loop rnd now ours k ns ba bs ig) = ba \<or>
   (\<exists>i. best_of rnd now ours ig k ns i \<and> bs < score_at rnd ours k ns i \<and>
     fst (select_loop rnd now ours k ns ba bs ig) = connectAddr (ns ! i) ours)"
  (is "?none ns k ba bs ig \<or> ?some ns k ba bs ig")
proof (induction ns arbitrary: k ba bs ig)
  case (Cons n ns)
  let ?ig = "snd (Ignored_Contains now ig (connectAddr n ours))"
  let ?s = "source_score n ours (rnd k)"
  have skip: "?none (n # ns) k ba bs ig \<or> ?some (n # ns) k ba bs ig"
    if "select_loop rnd now ours k (n # ns) ba bs ig = select_loop rnd now ours (Suc k) ns ba bs ig'"
       "\<not> candidate now ig ours n" "ig' = ig \<or> ig' = ?ig" for ig'
  proof -
    have same: "candidate now ig' ours m = candidate now ig ours m"
      "best_of rnd now ours ig' k' ms i = best_of rnd now ours ig k' ms i" for m k' ms i
      using that(3) by (auto simp: candidate_look best_of_look)
    from Cons.IH [of ig' "Suc k" bs ba] show ?thesis
    proof
      assume "?none ns (Suc k) ba bs ig'"
      then show ?thesis using that same by (auto simp: nth_Cons split: nat.splits)
    next
      assume "?some ns (Suc k) ba bs ig'"
      then obtain i where "best_of rnd now ours ig' (Suc k) ns i" "bs < score_at rnd ours (Suc k) ns i"
        "fst (select_loop rnd now ours (Suc k) ns ba bs ig') = connectAddr (ns ! i) ours" by blast
      with that same have "best_of rnd now ours ig k (n # ns) (Suc i)"
        "bs < score_at rnd ours k (n # ns) (Suc i)"
        "fst (select_loop rnd now ours k (n # ns) ba bs ig) = connectAddr ((n # ns) ! Suc i) ours"
        by (auto simp: best_of_skip)
      then show ?thesis by blast
    qed
  qed
  show ?case
  proof (cases "candidate now ig ours n")
    case False
    obtain ig' where "select_loop rnd now ours k (n # ns) ba bs ig = select_loop rnd now ours (Suc k) ns ba bs ig'"
      "ig' = ig \<or> ig' = ?ig"
    proof (cases "snIsFirewalled n \<or> connectAddr n ours = []")
      case True
      then show ?thesis using that [of ig] by (auto simp: Let_def)
    next
      case noskip: False
      with False have "fst (Ignored_Contains now ig (connectAddr n ours))"
        by (simp add: candidate_def ign.look_live)
      then obtain ig2 where ig2: "Ignored_Contains now ig (connectAddr n ours) = (True, ig2)"
        by (cases "Ignored_Contains now ig (connectAddr n ours)") auto
      then show ?thesis using noskip that [of ig2] by (simp add: Let_def)
    qed
    with False skip show ?thesis by blast
  next
    case True
    then have run: "select_loop rnd now ours k (n # ns) ba bs ig =
      select_loop rnd now ours (Suc k) ns (if ?s > bs then connectAddr n ours else ba) (max bs ?s) ?ig"
      using ign.look_live [of now ig "connectAddr n ours"]
      by (auto simp: candidate_def Let_def max_def split: prod.splits bool.splits)
    from Cons.IH [of ?ig "Suc k" "max bs ?s" "if ?s > bs then connectAddr n ours else ba"]
    show ?thesis
    proof
      assume none: "?none ns (Suc k) (if ?s > bs then connectAddr n ours else ba) (max bs ?s) ?ig"
      show ?thesis
      proof (cases "?s > bs")
        case gt: True
        then have "best_of rnd now ours ig k (n # ns) 0"
          using none True by (auto simp: best_of_def candidate_look nth_Cons max_def split: nat.splits)
        with gt none run show ?thesis by (metis add_0_right nth_Cons_0)
      next
        case False
        then show ?thesis using none run
          by (auto simp: candidate_look nth_Cons max_def split: nat.splits)
      qed
    next
      assume "?some ns (Suc k) (if ?s > bs then connectAddr n ours else ba) (max bs ?s) ?ig"
      then obtain i where i: "best_of rnd now ours ig (Suc k) ns i" "max bs ?s < score_at rnd ours (Suc k) ns i"
        "fst (select_loop rnd now ours k (n # ns) ba bs ig) = connectAddr (ns ! i) ours"
        using run by (auto simp: best_of_look)
      then have "best_of rnd now ours ig k (n # ns) (Suc i)"
        by (auto simp: best_of_def nth_Cons split: nat.splits)
      with i show ?thesis by (intro disjI2 exI [of _ "Suc i"]) auto
    qed
  qed
qed simp

lemma selectSourceHost_spec:
  assumes "\<forall>i. 0 \<le> rnd i"
    and r_def: "r = selectSourceHost rnd now nodes ig trackerAddr ours"
  shows "((\<exists>n \<in> set nodes. candidate now ig ours n) \<longrightarrow>
            (\<exists>i. best_of rnd now ours ig 0 nodes i \<and> fst r = connectAddr (nodes ! i) ours)) \<and>
         ((\<forall>n \<in> set nodes. \<not> candidate now ig ours n) \<longrightarrow>
            fst r = (if trackerAddr \<noteq> [] \<and> \<not> ignored_at now ig trackerAddr then trackerAddr else [])) \<and>
         (\<forall>t' \<ge> now. \<forall>a. ignored_at t' (snd r) a = ignored_at t' ig a)"
proof -
  obtain best ig' where run: "select_loop rnd now ours 0 nodes [] (- 1) ig = (best, ig')" by fastforce
  note loop = select_loop_best [of nodes now ig ours rnd 0 "- 1" "[]", unfolded run fst_conv]
  have keep: "ignored_at t' ig' a = ignored_at t' ig a" if "now \<le> t'" for t' a
    using select_loop_ignored [OF that, of rnd ours 0 nodes "[]" "- 1" ig a] run by simp
  have pos: "- 1 < score_at rnd ours 0 nodes i" for i
    by (rule less_le_trans [of _ 0]) (simp_all add: assms(1) source_score_nonneg)
  have r: "r = (if best \<noteq> [] then (best, ig') else if trackerAddr \<noteq> [] then
      (case Ignored_Contains now ig' trackerAddr of (True, ig'') \<Rightarrow> ([], ig'') | (False, ig'') \<Rightarrow> (trackerAddr, ig''))
      else ([], ig'))"
    by (simp add: r_def selectSourceHost_def run)
  have "(\<exists>i. best_of rnd now ours ig 0 nodes i \<and> fst r = connectAddr (nodes ! i) ours)"
    if "\<exists>n \<in> set nodes. candidate now ig ours n"
  proof -
    from that loop pos obtain i where "best_of rnd now ours ig 0 nodes i" "best = connectAddr (nodes ! i) ours"
      by (metis in_set_conv_nth not_le)
    moreover from this have "best \<noteq> []" by (simp add: best_of_def candidate_def)
    ultimately show ?thesis using r by auto
  qed
  moreover have "fst r = (if trackerAddr \<noteq> [] \<and> \<not> ignored_at now ig trackerAddr then trackerAddr else [])"
    if "\<forall>n \<in> set nodes. \<not> candidate now ig ours n"
  proof -
    from that loop have "best = []" by (auto simp: best_of_def)
    then show ?thesis
      using r ign.look_live [of now ig' trackerAddr] keep [of now trackerAddr]
      by (auto split: prod.splits bool.splits)
  qed
  moreover have "ignored_at t' (snd r) a = ignored_at t' ig a" if "now \<le> t'" for t' a
    using r keep [OF that, of a] ign.look_keeps [OF that, of ig' trackerAddr a]
    by (auto split: prod.splits bool.splits)
  ultimately show ?thesis by blast
qed

lemma selectSourceHost_threshold: "threshold (snd (selectSourceHost rnd now nodes ig trackerAddr ours)) = threshold ig"
proof -
  have look: "threshold (snd (Ignored_Contains now ig a)) = threshold ig" for ig a
    by (simp add: Ignored_Contains_def split: option.splits)
  have "threshold (snd (select_loop rnd now ours k ns ba bs ig)) = threshold ig" for k ns ba bs ig
  proof (induction ns arbitrary: k ba bs ig)
    case (Cons n ns)
    then show ?case using look [of ig "connectAddr n ours"] by (auto simp: Let_def split: prod.splits bool.splits)
  qed simp
  from this [of 0 nodes "[]" "- 1" ig] look show ?thesis
    unfolding selectSourceHost_def by (auto split: prod.splits bool.splits) (metis snd_conv)+
qed

text \<open>
  Whatever the random draws, the relay dials a reachable node that is not being skipped, the
  one with the best score, as long as there is one; otherwise the tracker unless that is skipped;
  and it has no address exactly when neither exists.  Choosing does not change which addresses
  are skipped.
\<close>

theorem selectSourceHost_correct:
  assumes "\<forall>i. 0 \<le> rnd i"
    and r_def: "r = selectSourceHost rnd now nodes ig trackerAddr ours"
  shows "((\<exists>n \<in> set nodes. candidate now ig ours n) \<longrightarrow>
            (\<exists>i. best_of rnd now ours ig 0 nodes i \<and> fst r = connectAddr (nodes ! i) ours)) \<and>
         ((\<forall>n \<in> set nodes. \<not> candidate now ig ours n) \<longrightarrow>
            fst r = (if trackerAddr \<noteq> [] \<and> \<not> ignored_at now ig trackerAddr then trackerAddr else [])) \<and>
         (\<forall>t' \<ge> now. \<forall>a. ignored_at t' (snd r) a = ignored_at t' ig a)"
  using assms by (rule selectSourceHost_spec)

definition select_demo :: "SourceNode list" where
  "select_demo = [SourceNode0\<lparr>snGlobalAddr := ''1.2.3.4:7144''\<rparr>, SourceNode0\<lparr>snGlobalAddr := ''5.6.7.8:7144''\<rparr>]"

theorem selectSourceHost_correct_witness:
  "\<exists>i. fst (selectSourceHost (\<lambda>_. 1 / 2) 9 select_demo (Ignored_Add 5 NewIgnoredNodeCollection ''1.2.3.4:7144'')
     ''tracker:7144'' 0) = connectAddr (select_demo ! i) 0 \<and>
     \<not> ignored_at 9 (Ignored_Add 5 NewIgnoredNodeCollection ''1.2.3.4:7144'') (connectAddr (select_demo ! i) 0)"
proof -
  have "\<exists>n \<in> set select_demo. candidate 9 (Ignored_Add 5 NewIgnoredNodeCollection ''1.2.3.4:7144'') 0 n"
    by (simp add: select_demo_def candidate_def SourceNode0_def connectAddr_def sameNAT_def ignored_at_def
        Ignored_Add_def NewIgnoredNodeCollection_def)
  then show ?thesis
    using selectSourceHost_correct [OF _ refl, of "\<lambda>_. 1 / 2" select_demo 9 _ 0] by (fastforce simp: best_of_def candidate_def)
qed

text \<open>
  The candidate list forgets: after a node is added, the list holds it, and no entry that was
  last announced more than three minutes before; a snapshot never contains an expired entry.
\<close>

theorem SourceNodeList_fresh:
  assumes "l' = SourceNodeList_Add now l n"
  shows "l' (snSessionID n) = Some (n\<lparr>snUpdatedAt := now\<rparr>) \<and>
         (\<forall>i m. i \<noteq> snSessionID n \<longrightarrow> (l' i = Some m \<longleftrightarrow> l i = Some m \<and> now - snUpdatedAt m \<le> nodeExpiry)) \<and>
         (\<forall>order t m. m \<in> set (SourceNodeList_List order t l') \<longrightarrow>
            t - snUpdatedAt m \<le> nodeExpiry \<and> m \<in> ran l')"
  unfolding assms SourceNodeList_Add_def SourceNodeList_List_def
  by (auto simp: Let_def nodeExpiry_def map_filter_def ran_def split: option.splits if_splits)

theorem SourceNodeList_fresh_witness:
  "SourceNodeList_List [zeroID] 7 (SourceNodeList_Add 5 NewSourceNodeList SourceNode0) = [SourceNode0\<lparr>snUpdatedAt := 5\<rparr>]"
  using SourceNodeList_fresh [OF refl, of 5 NewSourceNodeList SourceNode0]
  by (simp add: SourceNodeList_List_def map_filter_def SourceNode0_def nodeExpiry_def)

end
