(* ===== verification/Relay_Client.thy ===== *)
theory Relay_Client
  imports Channel Source_Node
begin

text \<open>
  \<^verbatim>\<open>internal/relay/client.go\<close>, \<^verbatim>\<open>reconnect.go\<close> and \<^verbatim>\<open>findtracker.go\<close>: the client that pulls a channel
  from an upstream node.

  One connection attempt is described by a \<open>link\<close>: whether dialling and the two writes of the
  handshake succeed, the addresses of the connection, the bytes the peer sends, and what the PCP
  library decodes from the bytes after the HTTP response.  A read that fails, by an error or the
  deadline, is \<open>Broken\<close>, and so is the end of the list; \<open>Cancelled\<close> is a read interrupted by
  \<^verbatim>\<open>Stop\<close>.  \<open>lkBump\<close> and \<open>lkCancel\<close> say whether \<^verbatim>\<open>Reconnect\<close> or \<^verbatim>\<open>Stop\<close> was called during the
  attempt; what they interrupt is part of the link.  The loop of \<^verbatim>\<open>Run\<close> takes a list of such
  attempts.
\<close>

datatype stopReason = stopReasonNone | stopReasonError | stopReasonUnavailable | stopReasonOffAir

datatype 'a net_event = Recv time 'a | Broken | Cancelled

record 'a link =
  lkDial :: bool
  lkLocal :: addr
  lkRemote :: addr
  lkWriteGet :: bool
  lkWriteHelo :: bool
  lkReply :: string
  lkDecode :: "string \<Rightarrow> 'a net_event list"
  lkSender :: nat
  lkBump :: bool
  lkCancel :: bool

datatype 'a rc_effect = RcChan "'a effect" | RcText string | RcAtom 'a

record 'a Client =
  rcLocalAddress :: ip
  rcUpstreamAddress :: ip
  rcBumpPending :: bool
  rcTrackerAddr :: string
  rcChannelID :: gnuid
  rcSessionID :: gnuid
  rcListenPort :: u16
  rcCh :: "'a Channel"
  rcNetwork :: "NetworkState option"
  rcSourceNodes :: SourceNodeList
  rcIgnoredNodes :: IgnoredNodeCollection
  rcGlobalIP :: u32
  rcCancelled :: bool

definition NewClient :: "string \<Rightarrow> gnuid \<Rightarrow> gnuid \<Rightarrow> u16 \<Rightarrow> NetworkState option \<Rightarrow> 'a Channel \<Rightarrow> 'a Client" where
  "NewClient trackerAddr cid sid listenPort net c =
     \<lparr>rcLocalAddress = [], rcUpstreamAddress = [], rcBumpPending = False, rcTrackerAddr = trackerAddr,
      rcChannelID = cid, rcSessionID = sid, rcListenPort = listenPort, rcCh = c, rcNetwork = net,
      rcSourceNodes = NewSourceNodeList, rcIgnoredNodes = NewIgnoredNodeCollection, rcGlobalIP = 0,
      rcCancelled = False\<rparr>"

definition Client_SetGlobalIP :: "u32 \<Rightarrow> 'a Client \<Rightarrow> 'a Client" where
  "Client_SetGlobalIP p c = c\<lparr>rcGlobalIP := p\<rparr>"

definition Client_Stop :: "'a Client \<Rightarrow> 'a Client" where
  "Client_Stop c = c\<lparr>rcCancelled := True\<rparr>"

definition Client_Reconnect :: "'a Client \<Rightarrow> 'a Client" where
  "Client_Reconnect c = (if rcCancelled c then c else c\<lparr>rcBumpPending := True\<rparr>)"

section \<open>The HTTP response\<close>

definition LF :: char where "LF = CHR 0x0A"
definition CRLF :: string where "CRLF = [CHR 0x0D, CHR 0x0A]"

text \<open>\<^verbatim>\<open>ReadString('\n')\<close>: the text up to and including the delimiter, and the rest.\<close>

fun ReadLine :: "string \<Rightarrow> (string \<times> string) option" where
  "ReadLine [] = None"
| "ReadLine (c # s) = (if c = LF then Some ([c], s) else map_option (\<lambda>(l, r). (c # l, r)) (ReadLine s))"

lemma ReadLine_shorter: "ReadLine s = Some (l, rest) \<Longrightarrow> length rest < length s"
  by (induction s arbitrary: l) (force split: if_splits)+

text \<open>\<^verbatim>\<open>strings.Fields\<close>.\<close>

function Fields_loop :: "string \<Rightarrow> string \<Rightarrow> string list" where
  "Fields_loop cur s =
     (case find (\<lambda>w. w \<noteq> [] \<and> HasPrefix s w) space_encodings of
        Some w \<Rightarrow> (if cur = [] then [] else [cur]) @ Fields_loop [] (drop (length w) s)
      | None \<Rightarrow> (case s of [] \<Rightarrow> (if cur = [] then [] else [cur]) | c # t \<Rightarrow> Fields_loop (cur @ [c]) t))"
  by pat_completeness auto
termination
  by (relation "measure (\<lambda>(cur, s). length s)") (auto simp: find_Some_iff HasPrefix_iff)

declare Fields_loop.simps [simp del]

definition Fields :: "string \<Rightarrow> string list" where
  "Fields s = Fields_loop [] s"

function skip_headers :: "string \<Rightarrow> string option" where
  "skip_headers s =
     (case ReadLine s of
        None \<Rightarrow> None
      | Some (line, rest) \<Rightarrow> if line = CRLF \<or> line = [LF] then Some rest else skip_headers rest)"
  by pat_completeness auto
termination
  by (relation "measure length") (auto dest: ReadLine_shorter)

declare skip_headers.simps [simp del]

definition readHTTPStatus :: "string \<Rightarrow> (int \<times> string) option" where
  "readHTTPStatus s =
     (case ReadLine s of
        None \<Rightarrow> None
      | Some (line, rest) \<Rightarrow>
          if length (Fields line) < 2 then None
          else (case Atoi (Fields line ! 1) of
                  None \<Rightarrow> None
                | Some code \<Rightarrow> map_option (Pair code) (skip_headers rest)))"

section \<open>Atoms from the upstream\<close>

definition then_chan ::
  "'a Channel \<times> 'a effect list \<Rightarrow> ('a Channel \<Rightarrow> 'a Channel \<times> 'a effect list) \<Rightarrow> 'a Channel \<times> 'a effect list" where
  "then_chan x f = (case x of (c, es) \<Rightarrow> case f c of (c', es') \<Rightarrow> (c', es @ es'))"

definition handlePkt :: "'a pcp \<Rightarrow> time \<Rightarrow> ChanPktData \<Rightarrow> 'a Channel \<Rightarrow> 'a Channel \<times> 'a effect list" where
  "handlePkt P now p c =
     (if pktType p = NewID4 P ''head'' then
        (if length (pktData p) > 0 then Channel_SetHeader (pktData p) (pktPos p) c else (c, []))
      else if pktType p = NewID4 P ''data'' then
        (if length (pktData p) = 0 then (c, [])
         else (Channel_Write now (pktData p) (pktPos p) (pktContinuation p) c, []))
      else (c, []))"

definition handleChan :: "'a pcp \<Rightarrow> time \<Rightarrow> 'a \<Rightarrow> 'a Channel \<Rightarrow> 'a Channel \<times> 'a effect list" where
  "handleChan P now atom c =
     (case ParseChanPacket P atom of (ch, ok) \<Rightarrow>
        if \<not> ok then (c, [])
        else
          then_chan
            (then_chan
              (then_chan
                (if \<not> IsEmpty P (cpBroadcastID ch) then SetBroadcastID (cpBroadcastID ch) c else c, [])
                (\<lambda>c. case cpInfo ch of None \<Rightarrow> (c, []) | Some i \<Rightarrow> SetInfo now (ChannelInfoFromPCP i) c))
              (\<lambda>c. case cpTrack ch of None \<Rightarrow> (c, []) | Some t \<Rightarrow> SetTrack (TrackInfoFromPCP t) c))
            (\<lambda>c. case cpPkt ch of None \<Rightarrow> (c, []) | Some p \<Rightarrow> handlePkt P now p c))"

definition learn_host :: "'a pcp \<Rightarrow> time \<Rightarrow> 'a \<Rightarrow> 'a Client \<Rightarrow> 'a Client" where
  "learn_host P now atom c =
     (case parseSourceNode P atom of (node, ok) \<Rightarrow>
        if ok then c\<lparr>rcSourceNodes := SourceNodeList_Add now (rcSourceNodes c) node\<rparr> else c)"

definition on_channel ::
  "('a Channel \<Rightarrow> 'a Channel \<times> 'a effect list) \<Rightarrow> 'a Client \<times> 'a rc_effect list \<Rightarrow> 'a Client \<times> 'a rc_effect list" where
  "on_channel f x = (case x of (c, es) \<Rightarrow> case f (rcCh c) of (ch, es') \<Rightarrow> (c\<lparr>rcCh := ch\<rparr>, es @ map RcChan es'))"

definition bcst_child :: "'a pcp \<Rightarrow> time \<Rightarrow> 'a \<Rightarrow> 'a Client \<times> 'a rc_effect list \<Rightarrow> 'a Client \<times> 'a rc_effect list" where
  "bcst_child P now child x =
     (if Tag P child = tag_of P PCPHost then (learn_host P now child (fst x), snd x)
      else if Tag P child = tag_of P PCPChan then on_channel (handleChan P now child) x
      else x)"

definition handleBcst :: "'a pcp \<Rightarrow> time \<Rightarrow> 'a \<Rightarrow> 'a Client \<Rightarrow> 'a Client \<times> 'a rc_effect list" where
  "handleBcst P now atom c =
     (case RouteBcst P (Some atom) (rcSessionID c) (rcChannelID c) of (local, forwarded) \<Rightarrow>
        let es = (case forwarded of None \<Rightarrow> [] | Some f \<Rightarrow> map RcChan (Channel_Broadcast P None f (rcCh c))) in
        if \<not> local then (c, es) else fold (bcst_child P now) (Children P atom) (c, es))"

definition quit_reason :: "'a pcp \<Rightarrow> 'a \<Rightarrow> stopReason \<times> bool" where
  "quit_reason P atom =
     (if fst (GetInt P atom) = quit_code P PCPErrorUnavailable then (stopReasonUnavailable, False)
      else (stopReasonOffAir, True))"

definition body_atom :: "'a pcp \<Rightarrow> time \<Rightarrow> 'a \<Rightarrow> 'a Client \<Rightarrow> 'a Client \<times> 'a rc_effect list" where
  "body_atom P now atom c =
     (let t = Tag P atom; T = tag_of P in
      if t = T PCPChan then on_channel (handleChan P now atom) (c, [])
      else if t = T PCPHost then (learn_host P now atom c, [])
      else if t = T PCPBcst then handleBcst P now atom c
      else (c, []))"

text \<open>The result is the reason and whether an error is returned with it.\<close>

fun processBody :: "'a pcp \<Rightarrow> 'a net_event list \<Rightarrow> 'a Client \<Rightarrow> (stopReason \<times> bool) \<times> 'a Client \<times> 'a rc_effect list" where
  "processBody P [] c = ((if rcCancelled c then (stopReasonOffAir, False) else (stopReasonError, True)), c, [])"
| "processBody P (e # events) c =
     (if rcCancelled c then ((stopReasonOffAir, False), c, [])
      else case e of
        Broken \<Rightarrow> ((stopReasonError, True), c, [])
      | Cancelled \<Rightarrow> ((stopReasonOffAir, False), c\<lparr>rcCancelled := True\<rparr>, [])
      | Recv now atom \<Rightarrow>
          if Tag P atom = tag_of P PCPQuit then (quit_reason P atom, c, [])
          else case body_atom P now atom c of (c', es) \<Rightarrow>
            case processBody P events c' of (r, c'', es') \<Rightarrow> (r, c'', es @ es'))"

fun processHosts :: "'a pcp \<Rightarrow> 'a net_event list \<Rightarrow> 'a Client \<Rightarrow> (stopReason \<times> bool) \<times> 'a Client" where
  "processHosts P [] c = ((if rcCancelled c then (stopReasonOffAir, False) else (stopReasonError, True)), c)"
| "processHosts P (e # events) c =
     (if rcCancelled c then ((stopReasonOffAir, False), c)
      else case e of
        Broken \<Rightarrow> ((stopReasonError, True), c)
      | Cancelled \<Rightarrow> ((stopReasonOffAir, False), c\<lparr>rcCancelled := True\<rparr>)
      | Recv now atom \<Rightarrow>
          if Tag P atom = tag_of P PCPQuit then (quit_reason P atom, c)
          else processHosts P events (if Tag P atom = tag_of P PCPHost then learn_host P now atom c else c))"

section \<open>One connection\<close>

definition channel_request :: "string \<Rightarrow> gnuid \<Rightarrow> u32 \<Rightarrow> string \<Rightarrow> string" where
  "channel_request addr cid protocol extra =
     ''GET /channel/'' @ EncodeToString cid @ '' HTTP/1.0'' @ CRLF @ ''Host: '' @ addr @ CRLF @
     ''x-peercast-pcp: '' @ Itoa (uint protocol) @ CRLF @ extra @ CRLF"

definition tcp_string :: "addr \<Rightarrow> string" where
  "tcp_string a = (case a of
     TCPAddr p port \<Rightarrow> JoinHostPort (if p = [] then [] else ip_string p) (Itoa port) | OtherAddr s \<Rightarrow> s)"

definition connRemoteIPPort :: "'a pcp \<Rightarrow> addr \<Rightarrow> u32 \<times> u16" where
  "connRemoteIPPort P a = (case a of TCPAddr p port \<Rightarrow> (fst (IPv4ToUint32 P p), of_int port) | OtherAddr _ \<Rightarrow> (0, 0))"

definition connLocalIP :: "'a pcp \<Rightarrow> addr \<Rightarrow> u32" where
  "connLocalIP P a = (case a of TCPAddr p _ \<Rightarrow> fst (IPv4ToUint32 P p) | OtherAddr _ \<Rightarrow> 0)"

datatype 'a hs_result = HsFailed stopReason | HsDone int "'a net_event list"

definition accept_oleh :: "'a pcp \<Rightarrow> 'a link \<Rightarrow> int \<Rightarrow> 'a \<Rightarrow> HeloPacket \<Rightarrow> 'a Client \<Rightarrow> 'a Client" where
  "accept_oleh P lk statusCode oleh pkt c =
     (let c1 = c\<lparr>rcNetwork := map_option (\<lambda>n. Observe P n oleh) (rcNetwork c)\<rparr>;
          c2 = (if hpRemoteIP pkt \<noteq> 0 then Client_SetGlobalIP (hpRemoteIP pkt) c1 else c1)
      in if statusCode = 200 then
           (case lkRemote lk of
              TCPAddr p port \<Rightarrow>
                c2\<lparr>rcCh := SetUpstreamAddr (tcp_string (lkRemote lk))
                             (SetUpstreamNodeInfo (hpSessionID pkt) (fst (IPv4ToUint32 P p)) (of_int port) (rcCh c2))\<rparr>
            | OtherAddr _ \<Rightarrow> c2)
         else c2)"

definition handshake ::
  "'a pcp \<Rightarrow> 'a link \<Rightarrow> string \<Rightarrow> 'a Client \<Rightarrow> 'a hs_result \<times> 'a Client \<times> 'a rc_effect list" where
  "handshake P lk addr c =
     (let req = RcText (channel_request addr (rcChannelID c) (ProtocolVersion (AddrIP (lkRemote lk)))
                  (''x-peercast-pos: '' @ Itoa (uint (ContentPosition (buffer (rcCh c)))) @ CRLF));
          pp = (if rcNetwork c \<noteq> None then HeloPort (rcNetwork c) (AddrIP (lkLocal lk)) (rcListenPort c) else (rcListenPort c, 0));
          helo = RcAtom (BuildHeloAtom P \<lparr>hpAgent = AgentName, hpSessionID = rcSessionID c, hpVersion = PCPVersion,
                   hpPort = fst pp, hpPing = snd pp, hpRemoteIP = 0, hpBCID = zeroID\<rparr>)
      in if \<not> lkWriteGet lk then (HsFailed stopReasonError, c, [])
         else if \<not> lkWriteHelo lk then (HsFailed stopReasonError, c, [req])
         else case readHTTPStatus (lkReply lk) of
           None \<Rightarrow> (HsFailed stopReasonError, c, [req, helo])
         | Some (statusCode, rest) \<Rightarrow>
             if statusCode \<noteq> 200 \<and> statusCode \<noteq> 503 then (HsFailed stopReasonError, c, [req, helo])
             else (case lkDecode lk rest of
               Recv now oleh # events \<Rightarrow>
                 if Tag P oleh \<noteq> tag_of P PCPOleh then
                   (HsFailed (if Tag P oleh = tag_of P PCPQuit then fst (quit_reason P oleh) else stopReasonError), c, [req, helo])
                 else (case ParseHelo P oleh of (pkt, ok) \<Rightarrow>
                   if \<not> ok then (HsFailed stopReasonError, c, [req, helo])
                   else (HsDone statusCode events, accept_oleh P lk statusCode oleh pkt c, [req, helo]))
             | _ \<Rightarrow> (HsFailed stopReasonError, c, [req, helo])))"

definition connectTo ::
  "'a pcp \<Rightarrow> 'a link \<Rightarrow> string \<Rightarrow> 'a Client \<Rightarrow> (stopReason \<times> bool) \<times> 'a Client \<times> 'a rc_effect list" where
  "connectTo P lk addr c =
     (let result =
        (if rcBumpPending c \<or> \<not> lkDial lk then ((stopReasonError, True), c, [])
         else case handshake P lk addr c of
           (HsFailed reason, c1, es) \<Rightarrow> ((reason, True), c1, es)
         | (HsDone statusCode events, c1, es) \<Rightarrow>
             if statusCode = 503 then (case processHosts P events c1 of (r, c2) \<Rightarrow> (r, c2, es))
             else
               let c2 = c1\<lparr>rcLocalAddress := AddrIP (lkLocal lk), rcUpstreamAddress := AddrIP (lkRemote lk),
                          rcCh := SetUpstreamBcst (Some (lkSender lk)) (rcCh c1)\<rparr>
               in case processBody P events c2 of (r, c3, es') \<Rightarrow>
                 (r, c3\<lparr>rcCh := SourceDisconnected (SetUpstreamBcst None (rcCh c3))\<rparr>,
                  es @ es' @ [RcAtom (NewIntAtom P (tag_of P PCPQuit) (quit_code P PCPErrorShutdown))]))
      in case result of (r, c', es) \<Rightarrow>
        (r, (if lkCancel lk then Client_Stop else id) ((if lkBump lk then Client_Reconnect else id) c'), es))"

section \<open>The reconnect loop\<close>

record 'a attempt =
  atStart :: time
  atEnd :: time
  atOrder :: "gnuid list"
  atRnd :: "nat \<Rightarrow> rat"
  atLink :: "'a link"

definition ignore_addr :: "time \<Rightarrow> string \<Rightarrow> 'a Client \<Rightarrow> 'a Client" where
  "ignore_addr now addr c = c\<lparr>rcIgnoredNodes := Ignored_Add now (rcIgnoredNodes c) addr\<rparr>"

text \<open>One turn: whether \<^verbatim>\<open>Run\<close> returns, the address dialled (empty if none), and the new state.\<close>

definition run_turn :: "'a pcp \<Rightarrow> 'a attempt \<Rightarrow> 'a Client \<Rightarrow> bool \<times> string \<times> 'a Client \<times> 'a rc_effect list" where
  "run_turn P a c =
     (if rcCancelled c then (True, [], c, [])
      else case selectSourceHost (atRnd a) (atStart a) (SourceNodeList_List (atOrder a) (atStart a) (rcSourceNodes c))
                  (rcIgnoredNodes c) (rcTrackerAddr c) (rcGlobalIP c) of
        (target, ig) \<Rightarrow>
          let c1 = c\<lparr>rcIgnoredNodes := ig\<rparr> in
          if target = [] then (True, [], c1, [])
          else case connectTo P (atLink a) target c1 of ((reason, err), c2, es) \<Rightarrow>
            let c3 = c2\<lparr>rcBumpPending := False\<rparr> in
            if rcBumpPending c2 then
              (False, target, if target \<noteq> rcTrackerAddr c3 then ignore_addr (atEnd a) target c3 else c3, es)
            else if reason = stopReasonUnavailable then (False, target, ignore_addr (atEnd a) target c3, es)
            else if reason = stopReasonOffAir \<or> reason = stopReasonError then
              (if target \<noteq> rcTrackerAddr c3 then (False, target, ignore_addr (atEnd a) target c3, es)
               else (True, target, c3, es))
            else (False, target, c3, es))"

text \<open>Whether the loop has ended, the addresses it dialled, and the state and effects so far.\<close>

fun Run_loop :: "'a pcp \<Rightarrow> 'a attempt list \<Rightarrow> 'a Client \<Rightarrow> bool \<times> string list \<times> 'a Client \<times> 'a rc_effect list" where
  "Run_loop P [] c = (False, [], c, [])"
| "Run_loop P (a # as) c =
     (case run_turn P a c of (stopped, target, c', es) \<Rightarrow>
        let dialled = (if target = [] then [] else [target]) in
        if stopped then
          (case CloseAll (rcCh c') of (ch, es') \<Rightarrow> (True, dialled, c'\<lparr>rcCh := ch\<rparr>, es @ map RcChan es'))
        else case Run_loop P as c' of (st, ds, c'', es'') \<Rightarrow> (st, dialled @ ds, c'', es @ es''))"

section \<open>Announcing to the upstream\<close>

definition bcstInterval :: int where
  "bcstInterval = 120 * second"

text \<open>\<open>check\<close> is what the manager's slot closure answers, see \<open>Manager\<close>.\<close>

definition buildRelayBcstAtom :: "'a pcp \<Rightarrow> time \<Rightarrow> bool \<times> bool \<Rightarrow> u32 \<Rightarrow> u32 \<Rightarrow> u16 \<Rightarrow> 'a Client \<Rightarrow> 'a" where
  "buildRelayBcstAtom P now check localIP uphostIP uphostPort c =
     (let ch = rcCh c; T = tag_of P; full = SlotStatus check 0 0 ch;
          host = BuildHostAtom P
            \<lparr>paNetwork = rcNetwork c, paLocalAddress = rcLocalAddress c, paGlobalAddress = [],
             paUpstreamAddress = rcUpstreamAddress c, paFirewalled = False, paSessionID = rcSessionID c,
             paLocalIP = localIP, paGlobalIP = rcGlobalIP c, paListenPort = rcListenPort c, paChannelID = rcChannelID c,
             paNumListeners = numListeners ch, paNumRelays = numRelays ch, paUptime = UptimeSeconds now ch,
             paOldPos = OldestPos (buffer ch), paNewPos = NewestPos (buffer ch), paIsTracker = False,
             paHasGlobalIP = (rcGlobalIP c \<noteq> 0), paRelayFull = fst full, paDirectFull = snd full, paTrackerAtom = False,
             paIsReceiving = IsReceiving now ch, paUphostIP = uphostIP, paUphostPort = uphostPort, paUphostHops = 1\<rparr>
      in NewParentAtom P (T PCPBcst)
        [NewByteAtom P (T PCPBcstTTL) 11, NewByteAtom P (T PCPBcstHops) 0, NewIDAtom P (T PCPBcstFrom) (rcSessionID c),
         NewByteAtom P (T PCPBcstGroup) (flag_of P PCPBcstGroupTrackers), NewIDAtom P (T PCPBcstChanID) (rcChannelID c),
         NewIntAtom P (T PCPBcstVersion) PCPVersion, NewIntAtom P (T PCPBcstVersionVP) PCPVersionVP,
         NewBytesAtom P (T PCPBcstVersionExPrefix) (ascii ExPrefix), NewShortAtom P (T PCPBcstVersionExNumber) ExNumber, host])"

definition bool_text :: "bool \<Rightarrow> string" where
  "bool_text b = (if b then ''true'' else ''false'')"

text \<open>The closure \<^verbatim>\<open>snapshot\<close>, which prints what an announcement depends on.\<close>

definition host_snapshot :: "time \<Rightarrow> bool \<times> bool \<Rightarrow> 'a Client \<Rightarrow> string" where
  "host_snapshot now check c =
     (let ch = rcCh c; full = SlotStatus check 0 0 ch in
      case Status (rcNetwork c) (rcLocalAddress c) of (p, kn, op) \<Rightarrow>
        Itoa (numListeners ch) @ ''/'' @ Itoa (numRelays ch) @ ''/'' @ bool_text (IsReceiving now ch) @ ''/'' @
        bool_text (fst full) @ ''/'' @ bool_text (snd full) @ ''/'' @ ip_string p @ ''/'' @ bool_text kn @ ''/'' @ bool_text op)"

text \<open>
  The loop that announces: it wakes up to stop, to forward a queued atom, on its two tickers.  A
  write that fails closes the connection; for a queued atom it also ends the loop.
\<close>

datatype 'a bcst_event = StopBcst | Queued 'a bool | Tick | StatCheck

record bcst_state =
  bsLast :: string
  bsClosed :: bool
  bsDone :: bool
  bsResetTick :: bool

definition bcst_start :: "'a pcp \<Rightarrow> time \<Rightarrow> bool \<times> bool \<Rightarrow> 'a link \<Rightarrow> bool \<Rightarrow> 'a Client \<Rightarrow> bcst_state \<times> 'a rc_effect list" where
  "bcst_start P now check lk wrote c =
     (case connRemoteIPPort P (lkRemote lk) of (uip, uport) \<Rightarrow>
        (\<lparr>bsLast = host_snapshot now check c, bsClosed = \<not> wrote, bsDone = False, bsResetTick = False\<rparr>,
         [RcAtom (buildRelayBcstAtom P now check (connLocalIP P (lkLocal lk)) uip uport c)]))"

definition bcst_step ::
  "'a pcp \<Rightarrow> time \<Rightarrow> bool \<times> bool \<Rightarrow> 'a link \<Rightarrow> bool \<Rightarrow> 'a Client \<Rightarrow> 'a bcst_event \<Rightarrow> bcst_state \<Rightarrow> bcst_state \<times> 'a rc_effect list" where
  "bcst_step P now check lk wrote c e st =
     (case connRemoteIPPort P (lkRemote lk) of (uip, uport) \<Rightarrow>
        let announce = [RcAtom (buildRelayBcstAtom P now check (connLocalIP P (lkLocal lk)) uip uport c)];
            state = host_snapshot now check c;
            st1 = st\<lparr>bsResetTick := False\<rparr>;
            told = st1\<lparr>bsLast := state, bsClosed := bsClosed st \<or> \<not> wrote\<rparr>
        in (case e of
             StopBcst \<Rightarrow> (st1\<lparr>bsDone := True\<rparr>, [])
           | Queued a ok \<Rightarrow> if ok then (st1, [RcAtom a]) else (st1\<lparr>bsClosed := True, bsDone := True\<rparr>, [])
           | Tick \<Rightarrow> (told, announce)
           | StatCheck \<Rightarrow> if state \<noteq> bsLast st then (told\<lparr>bsResetTick := True\<rparr>, announce) else (st1, [])))"

section \<open>Finding the tracker\<close>

fun readTrackerHost :: "'a pcp \<Rightarrow> 'a net_event list \<Rightarrow> gnuid \<Rightarrow> u32 \<Rightarrow> string option" where
  "readTrackerHost P (Recv now atom # events) cid ours =
     (if Tag P atom = tag_of P PCPHost then
        (if (case FindChild P atom (tag_of P PCPHostChanID) of
               None \<Rightarrow> False | Some i \<Rightarrow> snd (GetID P i) \<and> fst (GetID P i) \<noteq> cid)
         then readTrackerHost P events cid ours
         else (case parseSourceNode P atom of (node, ok) \<Rightarrow>
                 if \<not> ok \<or> \<not> snIsTracker node then readTrackerHost P events cid ours
                 else if connectAddr node ours \<noteq> [] then Some (connectAddr node ours)
                 else readTrackerHost P events cid ours))
      else if Tag P atom = tag_of P PCPQuit then None
      else readTrackerHost P events cid ours)"
| "readTrackerHost P _ cid ours = None"

definition findTrackerAt :: "'a pcp \<Rightarrow> 'a link \<Rightarrow> string \<Rightarrow> gnuid \<Rightarrow> u32 \<Rightarrow> string option" where
  "findTrackerAt P lk ypAddr cid ours =
     (if \<not> lkDial lk \<or> \<not> lkWriteGet lk \<or> \<not> lkWriteHelo lk then None
      else case readHTTPStatus (lkReply lk) of
        None \<Rightarrow> None
      | Some (status, rest) \<Rightarrow>
          if status = 200 then Some ypAddr
          else if status = 503 then readTrackerHost P (lkDecode lk rest) cid ours
          else None)"

text \<open>What is written to the YP: the request, the handshake and, once it has answered, a quit.\<close>

definition findTrackerWrites :: "'a pcp \<Rightarrow> 'a link \<Rightarrow> string \<Rightarrow> gnuid \<Rightarrow> gnuid \<Rightarrow> 'a rc_effect list" where
  "findTrackerWrites P lk ypAddr cid sid =
     (if \<not> lkDial lk \<or> \<not> lkWriteGet lk then []
      else [RcText (channel_request ypAddr cid (ProtocolVersion (AddrIP (lkRemote lk))) [])] @
        (if \<not> lkWriteHelo lk then []
         else [RcAtom (BuildHeloAtom P \<lparr>hpAgent = AgentName, hpSessionID = sid, hpVersion = PCPVersion, hpPort = 0,
                 hpPing = 0, hpRemoteIP = 0, hpBCID = zeroID\<rparr>)] @
           (if readHTTPStatus (lkReply lk) = None then []
            else [RcAtom (NewIntAtom P (tag_of P PCPQuit) (err_of P PCPErrorQuit))])))"

fun FindTracker :: "'a pcp \<Rightarrow> (string \<times> 'a link) list \<Rightarrow> gnuid \<Rightarrow> u32 \<Rightarrow> string option" where
  "FindTracker P [] cid ours = None"
| "FindTracker P ((yp, lk) # yps) cid ours =
     (case findTrackerAt P lk yp cid ours of Some addr \<Rightarrow> Some addr | None \<Rightarrow> FindTracker P yps cid ours)"

section \<open>What a connection leaves of the reconnect state\<close>

text \<open>Only \<^verbatim>\<open>Run\<close> and \<^verbatim>\<open>Reconnect\<close> touch what the loop decides with.\<close>

definition same_run :: "'a Client \<Rightarrow> 'a Client \<Rightarrow> bool" where
  "same_run c c' \<longleftrightarrow> rcIgnoredNodes c' = rcIgnoredNodes c \<and> rcTrackerAddr c' = rcTrackerAddr c \<and>
     rcBumpPending c' = rcBumpPending c \<and> rcSessionID c' = rcSessionID c \<and> rcChannelID c' = rcChannelID c"

lemma same_run_refl [simp]: "same_run c c"
  by (simp add: same_run_def)

lemma same_run_trans: "same_run c d \<Longrightarrow> same_run d e \<Longrightarrow> same_run c e"
  by (simp add: same_run_def)

lemma same_run_learn [simp]: "same_run c (learn_host P now atom c)"
  by (simp add: same_run_def learn_host_def split: prod.splits)

lemma same_run_on_channel [simp]: "same_run (fst x) (fst (on_channel f x))"
  by (simp add: same_run_def on_channel_def split: prod.splits)

lemma same_run_bcst_child: "same_run (fst x) (fst (bcst_child P now child x))"
  by (simp add: bcst_child_def)

lemma same_run_fold: "same_run (fst x) (fst (fold (bcst_child P now) cs x))"
proof (induction cs arbitrary: x)
  case (Cons a cs)
  from same_run_trans [OF same_run_bcst_child Cons.IH] show ?case by simp
qed simp

lemma same_run_body_atom: "same_run c (fst (body_atom P now atom c))"
proof -
  have "same_run c (fst (handleBcst P now atom c))"
    using same_run_fold [of "(c, es)" P now for es] by (auto simp: handleBcst_def Let_def split: prod.splits)
  moreover have "same_run c (fst (on_channel f (c, [])))" for f using same_run_on_channel [of "(c, [])" f] by simp
  ultimately show ?thesis by (simp add: body_atom_def Let_def)
qed

text \<open>The loops, one event at a time.\<close>

lemma processBody_Cons:
  "fst (processBody P (e # events) c) =
     (if rcCancelled c then (stopReasonOffAir, False)
      else case e of Broken \<Rightarrow> (stopReasonError, True) | Cancelled \<Rightarrow> (stopReasonOffAir, False)
        | Recv now atom \<Rightarrow> if Tag P atom = tag_of P PCPQuit then quit_reason P atom
            else fst (processBody P events (fst (body_atom P now atom c))))"
  "fst (snd (processBody P (e # events) c)) =
     (if rcCancelled c then c
      else case e of Broken \<Rightarrow> c | Cancelled \<Rightarrow> c\<lparr>rcCancelled := True\<rparr>
        | Recv now atom \<Rightarrow> if Tag P atom = tag_of P PCPQuit then c
            else fst (snd (processBody P events (fst (body_atom P now atom c)))))"
  by (simp_all split: net_event.splits prod.splits)

lemma processBody_same: "same_run c (fst (snd (processBody P events c)))"
proof (induction events arbitrary: c)
  case (Cons e events)
  have "same_run c (fst (snd (processBody P events (fst (body_atom P now atom c)))))" for now atom
    by (rule same_run_trans [OF same_run_body_atom Cons.IH])
  then show ?case unfolding processBody_Cons by (auto simp: same_run_def split: net_event.splits)
qed simp

lemma processHosts_same: "same_run c (snd (processHosts P events c))"
proof (induction events arbitrary: c)
  case (Cons e events)
  have "same_run c (snd (processHosts P events (learn_host P now atom c)))" for now atom
    by (rule same_run_trans [OF same_run_learn Cons.IH])
  with Cons.IH show ?case by (auto simp: same_run_def split: net_event.splits)
qed simp

text \<open>Every way a connection ends has a reason.\<close>

lemma quit_reason_not_none: "fst (quit_reason P atom) \<noteq> stopReasonNone"
  by (simp add: quit_reason_def)

lemma processBody_reason: "fst (fst (processBody P events c)) \<noteq> stopReasonNone"
  by (induction events arbitrary: c)
    (auto simp: quit_reason_not_none processBody_Cons simp del: processBody.simps(2) split: net_event.splits)

lemma processHosts_reason: "fst (fst (processHosts P events c)) \<noteq> stopReasonNone"
  by (induction events arbitrary: c) (auto simp: quit_reason_not_none split: net_event.splits)

lemma accept_oleh_same [simp]: "same_run c (accept_oleh P lk st oleh pkt c)"
  by (simp add: accept_oleh_def same_run_def Let_def Client_SetGlobalIP_def split: addr.splits)

lemma handshake_same: "same_run c (fst (snd (handshake P lk addr c)))"
  by (auto simp: handshake_def Let_def split: option.splits prod.splits list.splits net_event.splits)

lemma handshake_reason: "fst (handshake P lk addr c) \<noteq> HsFailed stopReasonNone"
  by (auto simp: handshake_def Let_def quit_reason_not_none split: option.splits prod.splits list.splits net_event.splits)

lemma same_run_simps:
  "same_run c (d\<lparr>rcCh := ch\<rparr>) = same_run c d" "same_run (c\<lparr>rcLocalAddress := x, rcUpstreamAddress := y, rcCh := ch\<rparr>) d = same_run c d"
  "same_run c (d\<lparr>rcCancelled := b\<rparr>) = same_run c d"
  by (simp_all add: same_run_def)

lemma connectTo_facts:
  assumes run: "connectTo P lk addr c = ((reason, err), c', es)" and bump: "\<not> lkBump lk"
  shows "reason \<noteq> stopReasonNone" "same_run c c'"
proof -
  obtain h c1 es1 where h: "handshake P lk addr c = (h, c1, es1)" by (metis prod_cases3)
  have c1: "same_run c c1" using handshake_same [of c P lk addr] h by simp
  obtain d where d: "c' = (if lkCancel lk then Client_Stop d else d)" "reason \<noteq> stopReasonNone \<and> same_run c d"
  proof (cases "rcBumpPending c \<or> \<not> lkDial lk")
    case True
    then show ?thesis using that run bump by (auto simp: connectTo_def Let_def split: if_splits)
  next
    case dial: False
    show ?thesis
    proof (cases h)
      case (HsFailed r)
      then have "reason = r" "c' = (if lkCancel lk then Client_Stop c1 else c1)"
        using run dial h bump by (auto simp: connectTo_def Let_def split: if_splits)
      moreover have "r \<noteq> stopReasonNone" using handshake_reason [of P lk addr c] h HsFailed by auto
      ultimately show ?thesis using that c1 by blast
    next
      case (HsDone st events)
      show ?thesis
      proof (cases "st = 503")
        case True
        obtain r2 e2 c2 where p: "processHosts P events c1 = ((r2, e2), c2)" by (metis surj_pair)
        have "reason = r2" "c' = (if lkCancel lk then Client_Stop c2 else c2)"
          using run dial h HsDone True p bump by (auto simp: connectTo_def Let_def split: if_splits)
        moreover have "r2 \<noteq> stopReasonNone" "same_run c1 c2"
          using processHosts_reason [of P events c1] processHosts_same [of c1 P events] p by simp_all
        ultimately show ?thesis using that c1 same_run_trans by blast
      next
        case False
        let ?c2 = "c1\<lparr>rcLocalAddress := AddrIP (lkLocal lk), rcUpstreamAddress := AddrIP (lkRemote lk),
            rcCh := SetUpstreamBcst (Some (lkSender lk)) (rcCh c1)\<rparr>"
        obtain r3 e3 c3 es3 where p: "processBody P events ?c2 = ((r3, e3), c3, es3)" by (metis surj_pair)
        have "reason = r3" "c' = (let d = c3\<lparr>rcCh := SourceDisconnected (SetUpstreamBcst None (rcCh c3))\<rparr> in if lkCancel lk then Client_Stop d else d)"
          using run dial h HsDone False p bump by (auto simp: connectTo_def Let_def split: if_splits)
        moreover have "r3 \<noteq> stopReasonNone" "same_run c1 c3"
          using processBody_reason [of P events ?c2] processBody_same [of ?c2 P events] p by (simp_all add: same_run_simps)
        ultimately show ?thesis using that c1 same_run_trans by (auto simp: Let_def same_run_simps split: if_splits)
      qed
    qed
  qed
  then show "reason \<noteq> stopReasonNone" "same_run c c'" by (auto simp: Client_Stop_def same_run_simps)
qed

section \<open>The loop ends\<close>

lemma ignored_at_Add: "d \<noteq> a \<Longrightarrow> ignored_at t (Ignored_Add t0 ig a) d = ignored_at t ig d"
  by (cases "entries ig d") (simp_all add: Ignored_Add_def ignored_at_def)

lemma run_turn_facts:
  assumes run: "run_turn P a c = (stopped, target, c', es)"
    and c: "\<not> rcBumpPending c" "\<not> lkBump (atLink a)" "\<forall>i. 0 \<le> atRnd a i"
  shows "\<not> stopped \<Longrightarrow> target \<noteq> []" "target \<noteq> [] \<Longrightarrow> \<not> ignored_at (atStart a) (rcIgnoredNodes c) target"
    "\<not> rcBumpPending c'" "threshold (rcIgnoredNodes c') = threshold (rcIgnoredNodes c)"
    "\<not> stopped \<Longrightarrow> t \<le> atEnd a + threshold (rcIgnoredNodes c) \<Longrightarrow> ignored_at t (rcIgnoredNodes c') target"
    "atStart a \<le> t \<Longrightarrow> d \<noteq> target \<Longrightarrow> ignored_at t (rcIgnoredNodes c') d = ignored_at t (rcIgnoredNodes c) d"
proof -
  let ?sel = "selectSourceHost (atRnd a) (atStart a) (SourceNodeList_List (atOrder a) (atStart a) (rcSourceNodes c))
      (rcIgnoredNodes c) (rcTrackerAddr c) (rcGlobalIP c)"
  obtain tg ig where sel: "?sel = (tg, ig)" by fastforce
  note spec = selectSourceHost_spec [OF c(3) sel [symmetric]]
  have keep: "atStart a \<le> t \<Longrightarrow> ignored_at t ig d = ignored_at t (rcIgnoredNodes c) d" for t d using spec by simp
  have thr: "threshold ig = threshold (rcIgnoredNodes c)" using selectSourceHost_threshold [of "atRnd a" "atStart a"] sel by (metis snd_conv)
  have free: "\<not> ignored_at (atStart a) (rcIgnoredNodes c) tg" if "tg \<noteq> []"
  proof (cases "\<exists>n \<in> set (SourceNodeList_List (atOrder a) (atStart a) (rcSourceNodes c)). candidate (atStart a) (rcIgnoredNodes c) (rcGlobalIP c) n")
    case True
    then show ?thesis using spec by (auto simp: best_of_def candidate_def)
  next
    case False
    then have "tg = (if rcTrackerAddr c \<noteq> [] \<and> \<not> ignored_at (atStart a) (rcIgnoredNodes c) (rcTrackerAddr c) then rcTrackerAddr c else [])"
      using spec by simp
    then show ?thesis using that by (auto split: if_splits)
  qed
  let ?c1 = "c\<lparr>rcIgnoredNodes := ig\<rparr>"
  obtain reason err c2 es2 where con: "connectTo P (atLink a) tg ?c1 = ((reason, err), c2, es2)" by (metis surj_pair)
  note facts = connectTo_facts [OF con c(2)]
  have c2: "rcIgnoredNodes c2 = ig" "\<not> rcBumpPending c2" using facts(2) c(1) by (simp_all add: same_run_def)
  have cases: "(stopped \<and> target = [] \<and> (c' = c \<or> c' = ?c1)) \<or>
     (target = tg \<and> tg \<noteq> [] \<and> ((stopped \<and> c' = c2\<lparr>rcBumpPending := False\<rparr>) \<or>
        (\<not> stopped \<and> c' = ignore_addr (atEnd a) tg (c2\<lparr>rcBumpPending := False\<rparr>))))"
    using run sel con c2(2) facts(1) by (cases reason) (auto simp: run_turn_def Let_def split: if_splits)
  then show "\<not> stopped \<Longrightarrow> target \<noteq> []" "target \<noteq> [] \<Longrightarrow> \<not> ignored_at (atStart a) (rcIgnoredNodes c) target"
    "\<not> rcBumpPending c'" "threshold (rcIgnoredNodes c') = threshold (rcIgnoredNodes c)"
    using free c(1) c2 thr by (auto simp: ignore_addr_def Ignored_Add_def)
  show "\<not> stopped \<Longrightarrow> t \<le> atEnd a + threshold (rcIgnoredNodes c) \<Longrightarrow> ignored_at t (rcIgnoredNodes c') target"
    using cases c2 thr by (auto simp: ignore_addr_def Ignored_Add_def ignored_at_def)
  show "atStart a \<le> t \<Longrightarrow> d \<noteq> target \<Longrightarrow> ignored_at t (rcIgnoredNodes c') d = ignored_at t (rcIgnoredNodes c) d"
    using cases c2(1) keep [of t d] by (auto simp: ignore_addr_def ignored_at_Add)
qed

lemma Run_loop_distinct:
  assumes "Run_loop P as c = (stopped, dialled, c', es)" "\<not> rcBumpPending c" "threshold (rcIgnoredNodes c) = ignoredDuration"
    and "sorted (map atStart as)"
    and "\<forall>a \<in> set as. \<not> lkBump (atLink a) \<and> (\<forall>i. 0 \<le> atRnd a i) \<and> atStart a \<le> t0 + ignoredDuration \<and> t0 \<le> atEnd a"
    and "\<forall>d \<in> D. \<forall>t. (\<forall>a \<in> set as. atStart a \<ge> lo) \<and> lo \<le> t \<and> t \<le> t0 + ignoredDuration \<longrightarrow> ignored_at t (rcIgnoredNodes c) d"
    and "\<forall>a \<in> set as. lo \<le> atStart a"
  shows "distinct dialled \<and> set dialled \<inter> D = {} \<and> (\<not> stopped \<longrightarrow> length dialled = length as) \<and> (stopped \<longrightarrow> outputs (rcCh c') = [])"
  using assms
proof (induction as arbitrary: c stopped dialled c' es D lo)
  case (Cons a as)
  obtain st target c1 es1 where turn: "run_turn P a c = (st, target, c1, es1)" by (metis prod_cases4)
  have a: "\<not> lkBump (atLink a)" "\<forall>i. 0 \<le> atRnd a i" "atStart a \<le> t0 + ignoredDuration" "t0 \<le> atEnd a" "lo \<le> atStart a"
    using Cons.prems(5,7) by simp_all
  note facts = run_turn_facts [OF turn Cons.prems(2) a(1,2)]
  have new: "target \<noteq> [] \<Longrightarrow> target \<notin> D" using facts(2) Cons.prems(6,7) a(3,5) by blast
  show ?case
  proof (cases st)
    case True
    then show ?thesis using Cons.prems(1) turn new by (auto simp: CloseAll_def Let_def SourceDisconnected_def split: if_splits)
  next
    case False
    obtain st2 ds2 c2 es2 where rest: "Run_loop P as c1 = (st2, ds2, c2, es2)" by (metis prod_cases4)
    have tgt: "target \<noteq> []" using facts(1) False by simp
    have res: "stopped = st2" "dialled = target # ds2" "c' = c2" using Cons.prems(1) turn rest False tgt by auto
    have lo: "\<forall>b \<in> set as. atStart a \<le> atStart b" using Cons.prems(4) by simp
    have "\<forall>d \<in> insert target D. \<forall>t. (\<forall>b \<in> set as. atStart b \<ge> atStart a) \<and> atStart a \<le> t \<and> t \<le> t0 + ignoredDuration \<longrightarrow> ignored_at t (rcIgnoredNodes c1) d"
    proof (intro ballI allI impI)
      fix d t assume d: "d \<in> insert target D" and t: "(\<forall>b \<in> set as. atStart b \<ge> atStart a) \<and> atStart a \<le> t \<and> t \<le> t0 + ignoredDuration"
      show "ignored_at t (rcIgnoredNodes c1) d"
      proof (cases "d = target")
        case True
        then show ?thesis using facts(5) [OF False, of t] t a(4) Cons.prems(3) by simp
      next
        case False
        then have "ignored_at t (rcIgnoredNodes c) d" using d t Cons.prems(6,7) a(5) by (metis insert_iff order_trans)
        then show ?thesis using facts(6) [of t d] False t by simp
      qed
    qed
    from Cons.IH [OF rest facts(3) _ _ _ this lo] Cons.prems(3-5) facts(4)
    have "distinct ds2 \<and> set ds2 \<inter> insert target D = {} \<and> (\<not> st2 \<longrightarrow> length ds2 = length as) \<and> (st2 \<longrightarrow> outputs (rcCh c2) = [])" by simp
    then show ?thesis using res new [OF tgt] by auto
  qed
qed simp


definition demo_link :: "wire_atom link" where
  "demo_link = \<lparr>lkDial = False, lkLocal = OtherAddr [], lkRemote = OtherAddr [], lkWriteGet = False, lkWriteHelo = False,
     lkReply = [], lkDecode = (\<lambda>_. []), lkSender = 0, lkBump = False, lkCancel = False\<rparr>"

definition demo_attempt :: "time \<Rightarrow> wire_atom attempt" where
  "demo_attempt t = \<lparr>atStart = t, atEnd = t + 1, atOrder = [], atRnd = (\<lambda>_. 0), atLink = demo_link\<rparr>"

definition demo_client :: "wire_atom Client" where
  "demo_client = NewClient ''1.2.3.4:7144'' zeroID (replicate 16 1) 7144 None demo_chan"


section \<open>The channel follows the packets received\<close>

text \<open>The abstract effect of a packet on the channel's buffer.\<close>

definition apply_pkt :: "'a pcp \<Rightarrow> time \<Rightarrow> ContentBuffer \<Rightarrow> ChanPktData \<Rightarrow> ContentBuffer" where
  "apply_pkt P now b p =
     (if pktData p = [] then b
      else if pktType p = NewID4 P ''head'' then fst (SetHeader b (pktData p) (pktPos p))
      else if pktType p = NewID4 P ''data'' then Write now b (pktData p) (pktPos p) (pktContinuation p)
      else b)"

definition chan_pkts :: "'a pcp \<Rightarrow> 'a \<Rightarrow> ChanPktData list" where
  "chan_pkts P atom =
     (case ParseChanPacket P atom of (ch, ok) \<Rightarrow> if \<not> ok then [] else (case cpPkt ch of None \<Rightarrow> [] | Some p \<Rightarrow> [p]))"

definition body_pkts :: "'a pcp \<Rightarrow> gnuid \<Rightarrow> gnuid \<Rightarrow> 'a \<Rightarrow> ChanPktData list" where
  "body_pkts P sid cid atom =
     (if Tag P atom = tag_of P PCPChan then chan_pkts P atom
      else if Tag P atom \<noteq> tag_of P PCPHost \<and> Tag P atom = tag_of P PCPBcst \<and> fst (RouteBcst P (Some atom) sid cid)
      then concat (map (chan_pkts P) (filter (\<lambda>a. Tag P a \<noteq> tag_of P PCPHost \<and> Tag P a = tag_of P PCPChan) (Children P atom)))
      else [])"

text \<open>The atoms received before the connection ends, with the times they arrived at.\<close>

fun received :: "'a pcp \<Rightarrow> 'a net_event list \<Rightarrow> (time \<times> 'a) list" where
  "received P (Recv now atom # events) =
     (if Tag P atom = tag_of P PCPQuit then [] else (now, atom) # received P events)"
| "received P _ = []"

lemma buffer_SetTrack [simp]: "buffer (fst (SetTrack t c)) = buffer c"
  by (simp add: SetTrack_def)

lemma buffer_SetInfo_relay [simp]: "buffer (fst (SetInfo now i c)) = buffer c"
  by (simp add: SetInfo_def SetInfoWithAudit_def split: option.splits prod.splits)

lemma fst_then_chan: "fst (then_chan x f) = fst (f (fst x))"
  by (simp add: then_chan_def split: prod.splits)

lemma buffer_handlePkt: "buffer (fst (handlePkt P now p c)) = apply_pkt P now (buffer c) p"
  by (auto simp: handlePkt_def apply_pkt_def Channel_SetHeader_def Channel_Write_def split: prod.splits)

lemma buffer_handleChan: "buffer (fst (handleChan P now atom c)) = foldl (apply_pkt P now) (buffer c) (chan_pkts P atom)"
  by (simp add: handleChan_def chan_pkts_def fst_then_chan buffer_handlePkt SetBroadcastID_def split: prod.splits option.splits)

lemma bcst_child_buffer:
  "buffer (rcCh (fst (bcst_child P now a x))) = foldl (apply_pkt P now) (buffer (rcCh (fst x)))
     (if Tag P a \<noteq> tag_of P PCPHost \<and> Tag P a = tag_of P PCPChan then chan_pkts P a else [])"
  using buffer_handleChan [of P now a "rcCh (fst x)"]
  by (auto simp: bcst_child_def learn_host_def on_channel_def split: prod.splits)

lemma fold_bcst_buffer:
  "buffer (rcCh (fst (fold (bcst_child P now) cs x))) = foldl (apply_pkt P now) (buffer (rcCh (fst x)))
     (concat (map (chan_pkts P) (filter (\<lambda>a. Tag P a \<noteq> tag_of P PCPHost \<and> Tag P a = tag_of P PCPChan) cs)))"
  by (induction cs arbitrary: x) (auto simp: bcst_child_buffer)

lemma fold_bcst_cancelled: "rcCancelled (fst (fold (bcst_child P now) cs x)) = rcCancelled (fst x)"
proof -
  have "rcCancelled (fst (bcst_child P now a y)) = rcCancelled (fst y)" for a y
    by (simp add: bcst_child_def learn_host_def on_channel_def split: prod.splits)
  then show ?thesis by (induction cs arbitrary: x) simp_all
qed

lemma body_atom_buffer:
  "buffer (rcCh (fst (body_atom P now atom c))) = foldl (apply_pkt P now) (buffer (rcCh c)) (body_pkts P (rcSessionID c) (rcChannelID c) atom)"
  "rcCancelled (fst (body_atom P now atom c)) = rcCancelled c"
  using buffer_handleChan [of P now atom "rcCh c"] fold_bcst_buffer [of P now "Children P atom" "(c, es)" for es]
    fold_bcst_cancelled [of P now "Children P atom" "(c, es)" for es]
  by (auto simp: body_atom_def body_pkts_def handleBcst_def learn_host_def on_channel_def Let_def split: prod.splits)

lemma processBody_buffer:
  "\<not> rcCancelled c \<Longrightarrow>
   buffer (rcCh (fst (snd (processBody P events c)))) =
     foldl (\<lambda>b (now, atom). foldl (apply_pkt P now) b (body_pkts P (rcSessionID c) (rcChannelID c) atom))
       (buffer (rcCh c)) (received P events)"
proof (induction events arbitrary: c)
  case (Cons e events)
  show ?case
  proof (cases e)
    case (Recv now atom)
    have "rcSessionID (fst (body_atom P now atom c)) = rcSessionID c" "rcChannelID (fst (body_atom P now atom c)) = rcChannelID c"
      using same_run_body_atom [of c P now atom] by (simp_all add: same_run_def)
    then show ?thesis
      using Recv Cons.IH [of "fst (body_atom P now atom c)"] Cons.prems body_atom_buffer [of P now atom c]
      by (simp add: processBody_Cons del: processBody.simps(2))
  qed (use Cons.prems in simp_all)
qed simp

text \<open>
  A relay's buffer is a function of the packets its upstream sends, in order.  Whatever else
  arrives with them (host reports, broadcasts, metadata, unknown atoms), while the connection lasts
  the buffer is the one obtained by applying the packets of the channel atoms received before
  the quit or the failure, one after the other: a head packet replaces the header, a data packet
  is written with its position and flags, and nothing else touches it.
\<close>

theorem relay_buffer_refines:
  assumes "\<not> rcCancelled c" "processBody P events c = (r, c', es)"
  shows "buffer (rcCh c') =
    foldl (\<lambda>b (now, atom). foldl (apply_pkt P now) b (body_pkts P (rcSessionID c) (rcChannelID c) atom))
      (buffer (rcCh c)) (received P events)"
  using processBody_buffer [OF assms(1), of P events] assms(2) by simp

theorem relay_buffer_refines_witness:
  "buffer (rcCh (fst (snd (processBody wire_pcp [Recv 5 (WAtom (pad4 ''host'') [] []), Broken] demo_client)))) = buffer (rcCh demo_client)"
proof -
  obtain r c' es where run: "processBody wire_pcp [Recv 5 (WAtom (pad4 ''host'') [] []), Broken] demo_client = (r, c', es)" by (metis prod_cases3)
  have "\<not> rcCancelled demo_client" by (simp add: demo_client_def NewClient_def)
  from relay_buffer_refines [OF this run] run show ?thesis
    by (simp add: body_pkts_def wire_sel pad4_def ascii_def)
qed

end
