(* ===== verification/Servent_Pcp.thy ===== *)
theory Servent_Pcp
  imports Relay_Client
begin

text \<open>
  \<^verbatim>\<open>internal/servent/rate.go\<close>, \<^verbatim>\<open>output_base.go\<close> and \<^verbatim>\<open>pcp.go\<close>: an output that relays a channel to a
  downstream node.

  The channel is an argument of each operation, as the output sees it at that instant.  What an
  operation sends is returned as a list of writes; whether a write succeeds is an argument.  A
  notification channel of capacity one is a flag, the queue of broadcast atoms a list of at most
  eight.  The stream loop is a state machine whose steps are the pieces of code between two points at
  which other goroutines can run; where \<^verbatim>\<open>select\<close> may choose, the choice is an argument.
\<close>

section \<open>Send rate\<close>

record byteCounter =
  bcCurrent :: int
  bcPrevious :: int
  bcBucketT :: time

definition byteCounter0 :: byteCounter where
  "byteCounter0 = \<lparr>bcCurrent = 0, bcPrevious = 0, bcBucketT = 0\<rparr>"

definition counter_add :: "time \<Rightarrow> int \<Rightarrow> byteCounter \<Rightarrow> byteCounter" where
  "counter_add now n c =
     (if n \<le> 0 then c
      else
        let c1 = (if bcBucketT c = 0 then c\<lparr>bcBucketT := now\<rparr> else c);
            c2 = (if now - bcBucketT c1 \<ge> second then \<lparr>bcCurrent = 0, bcPrevious = bcCurrent c1, bcBucketT = now\<rparr> else c1)
        in c2\<lparr>bcCurrent := bcCurrent c2 + n\<rparr>)"

definition counter_rate :: "time \<Rightarrow> byteCounter \<Rightarrow> int \<times> byteCounter" where
  "counter_rate now c =
     (if bcBucketT c = 0 then (0, c)
      else
        let elapsed = now - bcBucketT c in
        if elapsed \<ge> 2 * second then (0, c\<lparr>bcPrevious := 0, bcCurrent := 0\<rparr>)
        else if elapsed \<ge> second then (bcCurrent c, \<lparr>bcCurrent = 0, bcPrevious = bcCurrent c, bcBucketT = now\<rparr>)
        else (bcPrevious c, c))"

section \<open>The common part of outputs\<close>

record outputBase =
  obID :: int
  obRemoteAddr :: string
  obClosed :: bool
  obHeader :: bool
  obInfo :: bool
  obTrack :: bool

definition newOutputBase :: "addr \<Rightarrow> int \<Rightarrow> outputBase" where
  "newOutputBase remote i =
     \<lparr>obID = i, obRemoteAddr = tcp_string remote, obClosed = False, obHeader = False, obInfo = False, obTrack = False\<rparr>"

definition Base_NotifyHeader :: "outputBase \<Rightarrow> outputBase" where
  "Base_NotifyHeader b = b\<lparr>obHeader := True\<rparr>"

definition Base_NotifyInfo :: "outputBase \<Rightarrow> outputBase" where
  "Base_NotifyInfo b = b\<lparr>obInfo := True\<rparr>"

definition Base_NotifyTrack :: "outputBase \<Rightarrow> outputBase" where
  "Base_NotifyTrack b = b\<lparr>obTrack := True\<rparr>"

definition Base_Close :: "outputBase \<Rightarrow> outputBase" where
  "Base_Close b = b\<lparr>obClosed := True\<rparr>"

section \<open>A relay output\<close>

definition outputQueueTimeout :: int where
  "outputQueueTimeout = 5 * second"

definition maxContentBodyLen :: nat where
  "maxContentBodyLen = 15 * 1024"

datatype 'a wire = WText string | WAtomOut 'a | WBytes "byte list"

record 'a PCPOutput =
  poBase :: outputBase
  poLocal :: addr
  poRemote :: addr
  poSessionID :: gnuid
  poPeerID :: gnuid
  poBcst :: "'a list"
  poGlobalIP :: u32
  poListenPort :: u16
  poRemotePort :: u16
  poPeerAgent :: string
  poPeerVersion :: u32
  poMaxRelays :: int
  poMaxListeners :: int
  poEvicted :: bool

definition newPCPOutputStream :: "addr \<Rightarrow> addr \<Rightarrow> gnuid \<Rightarrow> int \<Rightarrow> u32 \<Rightarrow> u16 \<Rightarrow> int \<Rightarrow> int \<Rightarrow> 'a PCPOutput" where
  "newPCPOutputStream local remote sid i gip port maxRelays maxListeners =
     \<lparr>poBase = newOutputBase remote i, poLocal = local, poRemote = remote, poSessionID = sid, poPeerID = zeroID,
      poBcst = [], poGlobalIP = gip, poListenPort = port, poRemotePort = 0, poPeerAgent = [], poPeerVersion = 0,
      poMaxRelays = maxRelays, poMaxListeners = maxListeners, poEvicted = False\<rparr>"

definition IsFirewalled :: "'a PCPOutput \<Rightarrow> bool" where
  "IsFirewalled o' \<longleftrightarrow> poRemotePort o' = 0"

definition Evict :: "'a PCPOutput \<Rightarrow> 'a PCPOutput" where
  "Evict o' = o'\<lparr>poEvicted := True, poBase := Base_Close (poBase o')\<rparr>"

definition Out_SendBcst :: "'a \<Rightarrow> 'a PCPOutput \<Rightarrow> 'a PCPOutput" where
  "Out_SendBcst atom o' = (if length (poBcst o') < 8 then o'\<lparr>poBcst := poBcst o' @ [atom]\<rparr> else o')"

text \<open>The output as its channel registers it.\<close>

definition as_output :: "nat \<Rightarrow> 'a PCPOutput \<Rightarrow> OutputStream" where
  "as_output ref o' =
     \<lparr>oRef = ref, oType = OutputStreamPCP, oID = obID (poBase o'), oRemoteAddr = obRemoteAddr (poBase o'),
      oPeer = Some \<lparr>pePeerID = poPeerID o', peFirewalled = IsFirewalled o', peRemotePort = poRemotePort o',
        peAgent = poPeerAgent o', peVersion = poPeerVersion o'\<rparr>\<rparr>"

definition isSiteLocal :: "ip \<Rightarrow> bool" where
  "isSiteLocal p =
     (if IsPrivate p \<or> IsLinkLocalUnicast p then True
      else let q = To4 p in
        if q = [] then False
        else q ! 0 = 10 \<or> (q ! 0 = 172 \<and> q ! 1 \<ge> 16 \<and> q ! 1 \<le> 31) \<or> (q ! 0 = 192 \<and> q ! 1 = 168) \<or>
             (q ! 0 = 169 \<and> q ! 1 = 254))"

definition ipToUint32 :: "'a pcp \<Rightarrow> addr \<Rightarrow> u32" where
  "ipToUint32 P a = (case a of TCPAddr p _ \<Rightarrow> fst (IPv4ToUint32 P p) | OtherAddr _ \<Rightarrow> 0)"

subsection \<open>The reachability check\<close>

definition ping_magic :: "ip \<Rightarrow> byte list" where
  "ping_magic remoteIP = ascii ''pcp'' @ [10, 4, 0, 0, 0, ucast (ProtocolVersion remoteIP), 0, 0, 0]"

record 'a ping_link =
  plDial :: bool
  plWriteMagic :: bool
  plWriteHelo :: bool
  plReply :: "'a net_event"

definition pingHost :: "'a pcp \<Rightarrow> 'a ping_link \<Rightarrow> gnuid \<Rightarrow> bool" where
  "pingHost P pl peerID \<longleftrightarrow>
     plDial pl \<and> plWriteMagic pl \<and> plWriteHelo pl \<and>
     (case plReply pl of
        Recv _ oleh \<Rightarrow>
          Tag P oleh = tag_of P PCPOleh \<and> snd (ParseHelo P oleh) \<and> hpSessionID (fst (ParseHelo P oleh)) = peerID
      | _ \<Rightarrow> False)"

text \<open>The other side of the check: what a node answers to \<^verbatim>\<open>pcp\n\<close> and a handshake.\<close>

definition handlePing :: "'a pcp \<Rightarrow> bool \<Rightarrow> 'a net_event \<Rightarrow> bool \<Rightarrow> gnuid \<Rightarrow> 'a wire list" where
  "handlePing P gotMagic helo wroteOleh sid =
     (if \<not> gotMagic then []
      else case helo of
        Recv _ a \<Rightarrow>
          if Tag P a \<noteq> tag_of P PCPHelo then []
          else if \<not> wroteOleh then []
          else [WAtomOut (BuildOlehAtom P \<lparr>hpAgent = AgentName, hpSessionID = sid, hpVersion = PCPVersion, hpPort = 0,
                  hpPing = 0, hpRemoteIP = 0, hpBCID = zeroID\<rparr>),
                WAtomOut (NewIntAtom P (tag_of P PCPQuit) (quit_code P PCPErrorShutdown))]
      | _ \<Rightarrow> [])"

subsection \<open>The handshake\<close>

datatype relay_error =
  ReadRequest | WriteResponse | ReadHelo | NotHelo | ParseHeloFailed | Loopback | NotIdentified | NoVersion
| BadAgentVersion | NotTCP | WriteOleh | WriteOK

record 'a relay_in =
  riRequest :: bool
  riPos :: string
  riWriteResponse :: bool
  riHelo :: "'a net_event"
  riPing :: "'a ping_link"
  riWriteOleh :: bool
  riWriteOK :: bool

definition relay_response :: "bool \<Rightarrow> string" where
  "relay_response admitted =
     (if admitted then ''HTTP/1.0 200 OK'' else ''HTTP/1.0 503 Unavailable'') @ CRLF @
     ''Content-Type: application/x-peercast-pcp'' @ CRLF @ CRLF"

definition start_pos :: "string \<Rightarrow> u32" where
  "start_pos v = (if v = [] then 0 else case ParseUint10 32 v of Some n \<Rightarrow> of_nat n | None \<Rightarrow> 0)"

definition helo_problem :: "'a pcp \<Rightarrow> gnuid \<Rightarrow> HeloPacket \<Rightarrow> (relay_error \<times> pcp_error) option" where
  "helo_problem P sid helo =
     (if hpSessionID helo = sid then Some (Loopback, PCPErrorLoopback)
      else if hpSessionID helo = zeroID then Some (NotIdentified, PCPErrorNotIdentified)
      else if hpVersion helo = 0 then Some (NoVersion, PCPErrorBadAgent)
      else if hpVersion helo < PCPClientMinVersion then Some (BadAgentVersion, PCPErrorBadAgent)
      else None)"

definition oleh_atom :: "'a pcp \<Rightarrow> addr \<Rightarrow> gnuid \<Rightarrow> u16 \<Rightarrow> 'a" where
  "oleh_atom P remote sid port =
     (let o1 = BuildOlehAtom P \<lparr>hpAgent = AgentName, hpSessionID = sid, hpVersion = PCPVersion, hpPort = port,
                 hpPing = 0, hpRemoteIP = ipToUint32 P remote, hpBCID = zeroID\<rparr>;
          o2 = ReplaceChild P o1 (NewShortAtom P (tag_of P PCPHeloPort) port)
      in ReplaceChild P o2 (IPAtom P (tag_of P PCPHeloRemoteIP) (AddrIP remote)))"

text \<open>
  The port a peer may be reached at; \<open>None\<close> stands for the type assertion that fails on an
  address that is not TCP.
\<close>

definition remote_port :: "'a pcp \<Rightarrow> addr \<Rightarrow> 'a ping_link \<Rightarrow> HeloPacket \<Rightarrow> u16 option" where
  "remote_port P remote pl helo =
     (if hpPing helo \<noteq> 0 then
        (case remote of
           TCPAddr p _ \<Rightarrow> Some (if \<not> isSiteLocal p \<and> pingHost P pl (hpSessionID helo) then hpPing helo else 0)
         | OtherAddr _ \<Rightarrow> None)
      else if hpPort helo \<noteq> 0 then Some (hpPort helo) else Some 0)"

definition relay_handshake ::
  "'a pcp \<Rightarrow> 'a relay_in \<Rightarrow> bool \<Rightarrow> 'a PCPOutput \<Rightarrow> (relay_error + u32) \<times> 'a PCPOutput \<times> 'a wire list" where
  "relay_handshake P r admitted o' =
     (let resp = WText (relay_response admitted);
          quit = (\<lambda>e. WAtomOut (NewIntAtom P (tag_of P PCPQuit) (quit_code P e)))
      in if \<not> riRequest r then (Inl ReadRequest, o', [])
         else if \<not> riWriteResponse r then (Inl WriteResponse, o', [])
         else (case riHelo r of
           Recv _ a \<Rightarrow>
             if Tag P a \<noteq> tag_of P PCPHelo then (Inl NotHelo, o', [resp])
             else (case ParseHeloPacket P a of (helo, ok) \<Rightarrow>
               if \<not> ok then (Inl ParseHeloFailed, o', [resp, quit PCPErrorNotIdentified])
               else
                 let o1 = o'\<lparr>poPeerID := hpSessionID helo\<rparr> in
                 (case helo_problem P (poSessionID o') helo of
                    Some (e, code) \<Rightarrow> (Inl e, o1, [resp, quit code])
                  | None \<Rightarrow>
                      (case remote_port P (poRemote o') (riPing r) helo of
                         None \<Rightarrow> (Inl NotTCP, o1, [resp])
                       | Some port \<Rightarrow>
                           let o2 = o1\<lparr>poRemotePort := port, poPeerAgent := hpAgent helo, poPeerVersion := hpVersion helo\<rparr>;
                               oleh = WAtomOut (oleh_atom P (poRemote o') (poSessionID o') port);
                               ok1 = WAtomOut (NewIntAtom P (tag_of P PCPOK) 1)
                           in if \<not> riWriteOleh r then (Inl WriteOleh, o2, [resp])
                              else if admitted then
                                (if \<not> riWriteOK r then (Inl WriteOK, o2, [resp, oleh])
                                 else (Inr (start_pos (riPos r)), o2, [resp, oleh, ok1]))
                              else (Inr (start_pos (riPos r)), o2, [resp, oleh]))))
         | _ \<Rightarrow> (Inl ReadHelo, o', [resp])))"

subsection \<open>Atoms\<close>

definition buildChanAtom :: "'a pcp \<Rightarrow> gnuid \<Rightarrow> gnuid \<Rightarrow> ChannelInfo \<Rightarrow> TrackInfo \<Rightarrow> byte list \<Rightarrow> u32 \<Rightarrow> 'a" where
  "buildChanAtom P cid bcid i t hdr pos =
     BuildChanAtom P \<lparr>cpID = cid, cpBroadcastID = bcid, cpInfo = Some (ChannelInfo_ToPCP i), cpTrack = Some (TrackInfo_ToPCP t),
       cpPkt = Some \<lparr>pktType = NewID4 P ''head'', pktPos = pos, pktData = hdr, pktContinuation = 0\<rparr>\<rparr>"

definition pkt_atom :: "'a pcp \<Rightarrow> gnuid \<Rightarrow> ChanPktData \<Rightarrow> 'a" where
  "pkt_atom P cid p = BuildChanAtom P \<lparr>cpID = cid, cpBroadcastID = zeroID, cpInfo = None, cpTrack = None, cpPkt = Some p\<rparr>"

text \<open>What reading the node's and the manager's state contributes to a HOST atom.\<close>

record host_env =
  heNow :: time
  heOrder :: "gnuid list"
  heCheck :: "bool \<times> bool"
  heNetwork :: "NetworkState option"
  heRnd :: "nat \<Rightarrow> rat"

definition Out_buildHostAtom :: "'a pcp \<Rightarrow> host_env \<Rightarrow> 'a Channel \<Rightarrow> 'a PCPOutput \<Rightarrow> 'a" where
  "Out_buildHostAtom P E ch o' =
     (let full = SlotStatus (heCheck E) (poMaxRelays o') (poMaxListeners o') ch in
      BuildHostAtom P (HostAtomParams0
        \<lparr>paNetwork := heNetwork E, paLocalAddress := AddrIP (poLocal o'), paSessionID := poSessionID o',
         paLocalIP := ipToUint32 P (poLocal o'), paGlobalIP := poGlobalIP o', paListenPort := poListenPort o',
         paChannelID := chID ch, paNumListeners := TotalListeners (heOrder E) (heNow E) ch,
         paNumRelays := TotalRelays (heOrder E) (heNow E) ch, paUptime := UptimeSeconds (heNow E) ch,
         paOldPos := OldestPos (buffer ch), paNewPos := NewestPos (buffer ch), paIsTracker := isBroadcasting ch,
         paIsReceiving := IsReceiving (heNow E) ch, paHasGlobalIP := (poGlobalIP o' \<noteq> 0),
         paRelayFull := fst full, paDirectFull := snd full\<rparr>))"

text \<open>Atoms written one after the other until a write fails: what was written, and whether all was.\<close>

fun write_all :: "(nat \<Rightarrow> bool) \<Rightarrow> nat \<Rightarrow> 'a list \<Rightarrow> 'a list \<times> nat \<times> bool" where
  "write_all ok n [] = ([], n, True)"
| "write_all ok n (a # as) =
     (if ok n then (case write_all ok (Suc n) as of (ws, m, done) \<Rightarrow> (a # ws, m, done)) else ([], Suc n, False))"

definition sendInitial :: "'a pcp \<Rightarrow> host_env \<Rightarrow> (nat \<Rightarrow> bool) \<Rightarrow> 'a Channel \<Rightarrow> 'a PCPOutput \<Rightarrow> 'a list \<times> bool" where
  "sendInitial P E ok ch o' =
     (case write_all ok 0
        [buildChanAtom P (chID ch) (broadcastID ch) (info ch) (track ch) (fst (Header (buffer ch))) (snd (Header (buffer ch))),
         Out_buildHostAtom P E ch o'] of (ws, _, done) \<Rightarrow> (ws, done))"

definition sendQuit :: "'a pcp \<Rightarrow> pcp_error \<Rightarrow> 'a" where
  "sendQuit P e = NewIntAtom P (tag_of P PCPQuit) (quit_code P e)"

definition sendAlternativeHostsAndQuit :: "'a pcp \<Rightarrow> host_env \<Rightarrow> (nat \<Rightarrow> bool) \<Rightarrow> pcp_error \<Rightarrow> 'a Channel \<Rightarrow> 'a PCPOutput \<Rightarrow> 'a list" where
  "sendAlternativeHostsAndQuit P E ok e ch o' =
     fst (write_all ok 0 (Channel_SelectSourceHosts P (heRnd E) (heNow E) 8 (poPeerID o') (ipToUint32 P (poRemote o')) ch))
       @ [sendQuit P e]"

definition sendRelayDenied :: "'a pcp \<Rightarrow> host_env \<Rightarrow> (nat \<Rightarrow> bool) \<Rightarrow> 'a Channel \<Rightarrow> 'a PCPOutput \<Rightarrow> 'a list" where
  "sendRelayDenied P E ok ch o' = sendAlternativeHostsAndQuit P E ok PCPErrorUnavailable ch o'"

definition sendUpstreamHostAndQuit :: "'a pcp \<Rightarrow> pcp_error \<Rightarrow> 'a Channel \<Rightarrow> 'a list" where
  "sendUpstreamHostAndQuit P e ch =
     (case UpstreamNodeInfo ch of (upSID, upIP, upPort) \<Rightarrow>
        let upHost = (case SplitHostPort (upstreamAddr ch) of None \<Rightarrow> [] | Some hp \<Rightarrow> fst hp);
            upAddress = ParseIP upHost
        in (if upSID \<noteq> zeroID \<and> (upIP \<noteq> 0 \<or> upAddress \<noteq> [])
            then [BuildHostAtom P (HostAtomParams0\<lparr>paSessionID := upSID, paGlobalIP := upIP, paGlobalAddress := upAddress,
                    paListenPort := upPort, paChannelID := chID ch\<rparr>)]
            else []) @ [sendQuit P e])"

definition wrapBcstIfBroadcasting :: "'a pcp \<Rightarrow> gnuid \<Rightarrow> 'a Channel \<Rightarrow> 'a \<Rightarrow> 'a" where
  "wrapBcstIfBroadcasting P sid ch chanAtom =
     (if \<not> isBroadcasting ch then chanAtom
      else let T = tag_of P in
        NewParentAtom P (T PCPBcst)
          [NewByteAtom P (T PCPBcstTTL) 11, NewByteAtom P (T PCPBcstHops) 0, NewIDAtom P (T PCPBcstFrom) sid,
           NewByteAtom P (T PCPBcstGroup) (flag_of P PCPBcstGroupRelays), NewIDAtom P (T PCPBcstChanID) (chID ch),
           NewIntAtom P (T PCPBcstVersion) PCPVersion, NewIntAtom P (T PCPBcstVersionVP) PCPVersionVP,
           NewBytesAtom P (T PCPBcstVersionExPrefix) (ascii ExPrefix), NewShortAtom P (T PCPBcstVersionExNumber) ExNumber,
           chanAtom])"

definition sendInfoUpdate :: "'a pcp \<Rightarrow> gnuid \<Rightarrow> 'a Channel \<Rightarrow> 'a" where
  "sendInfoUpdate P sid ch =
     wrapBcstIfBroadcasting P sid ch
       (BuildChanAtom P \<lparr>cpID = chID ch, cpBroadcastID = zeroID, cpInfo = Some (ChannelInfo_ToPCP (info ch)), cpTrack = None, cpPkt = None\<rparr>)"

definition sendTrackUpdate :: "'a pcp \<Rightarrow> gnuid \<Rightarrow> 'a Channel \<Rightarrow> 'a" where
  "sendTrackUpdate P sid ch =
     wrapBcstIfBroadcasting P sid ch
       (BuildChanAtom P \<lparr>cpID = chID ch, cpBroadcastID = zeroID, cpInfo = None, cpTrack = Some (TrackInfo_ToPCP (track ch)), cpPkt = None\<rparr>)"

section \<open>Sending content\<close>

record streamCursor =
  scPos :: u32
  scWaiting :: bool
  scStarted :: time

definition startCursor :: "time \<Rightarrow> 'a Channel \<Rightarrow> u32 \<Rightarrow> streamCursor" where
  "startCursor now ch reqPos =
     (let b = buffer ch; cur = \<lparr>scPos = snd (Header b), scWaiting = True, scStarted = now\<rparr> in
      if \<not> HasData b then cur
      else
        let oldest = OldestPos b; newestEnd = ContentPosition b in
        if reqPos = 0 \<or> PosBefore reqPos oldest then cur\<lparr>scPos := oldest\<rparr>
        else if PosBefore newestEnd reqPos then cur\<lparr>scPos := newestEnd\<rparr>
        else cur\<lparr>scPos := reqPos\<rparr>)"

text \<open>The inner loop: the pieces a packet is sent in.\<close>

function packet_chunks :: "'a pcp \<Rightarrow> u32 \<Rightarrow> byte \<Rightarrow> byte \<Rightarrow> byte list \<Rightarrow> ChanPktData list" where
  "packet_chunks P pos flags orig data =
     (if data = [] then []
      else
        let chunk = (if length data > maxContentBodyLen then take maxContentBodyLen data else data) in
        \<lparr>pktType = NewID4 P ''data'', pktPos = pos, pktData = chunk, pktContinuation = flags\<rparr> #
          packet_chunks P (pos + of_nat (length chunk)) (orig OR 1) orig (drop (length chunk) data))"
  by pat_completeness auto
termination
  by (relation "measure (\<lambda>(P, pos, flags, orig, data). length data)") (auto simp: maxContentBodyLen_def)

declare packet_chunks.simps [simp del]

definition content_chunks :: "'a pcp \<Rightarrow> Content \<Rightarrow> ChanPktData list" where
  "content_chunks P p = packet_chunks P (Pos p) (ContFlags p) (ContFlags p) (Data p)"

text \<open>The outer loop: the new cursor, the atoms written, and whether every write succeeded.\<close>

fun send_packets ::
  "'a pcp \<Rightarrow> (nat \<Rightarrow> bool) \<Rightarrow> nat \<Rightarrow> 'a Channel \<Rightarrow> Content list \<Rightarrow> streamCursor \<Rightarrow> streamCursor \<times> 'a list \<times> bool" where
  "send_packets P ok n ch [] cur = (cur, [], True)"
| "send_packets P ok n ch (p # ps) cur =
     (if scWaiting cur \<and> \<not> CanStartContent p ch
      then send_packets P ok n ch ps (cur\<lparr>scPos := Pos p + of_nat (length (Data p))\<rparr>)
      else
        case write_all ok n (map (pkt_atom P (chID ch)) (content_chunks P p)) of (ws, m, done) \<Rightarrow>
          if \<not> done then (cur\<lparr>scWaiting := False\<rparr>, ws, False)
          else case send_packets P ok m ch ps (cur\<lparr>scWaiting := False, scPos := Pos p + of_nat (length (Data p))\<rparr>) of
            (cur', ws', done') \<Rightarrow> (cur', ws @ ws', done'))"

definition sendDataPackets ::
  "'a pcp \<Rightarrow> time \<Rightarrow> (nat \<Rightarrow> bool) \<Rightarrow> 'a Channel \<Rightarrow> Content list \<Rightarrow> streamCursor \<Rightarrow> streamCursor \<times> 'a list \<times> bool" where
  "sendDataPackets P now ok ch ps cur0 =
     (case ps of
        [] \<Rightarrow> (cur0, [], True)
      | p # _ \<Rightarrow>
          let cur = (if scStarted cur0 = 0 then cur0\<lparr>scStarted := now\<rparr> else cur0);
              queued = (if Timestamp p < scStarted cur then scStarted cur else Timestamp p)
          in if now - queued > outputQueueTimeout then (cur, [sendQuit P PCPErrorSkip], False)
             else send_packets P ok 0 ch ps cur)"

definition header_atom :: "'a pcp \<Rightarrow> 'a Channel \<Rightarrow> 'a" where
  "header_atom P ch =
     pkt_atom P (chID ch) \<lparr>pktType = NewID4 P ''head'', pktPos = snd (Header (buffer ch)), pktData = fst (Header (buffer ch)), pktContinuation = 0\<rparr>"

definition sendHeaderUpdate :: "'a pcp \<Rightarrow> 'a Channel \<Rightarrow> streamCursor \<Rightarrow> streamCursor \<times> 'a" where
  "sendHeaderUpdate P ch cur = (cur\<lparr>scPos := snd (Header (buffer ch)), scWaiting := True\<rparr>, header_atom P ch)"

section \<open>The stream loop\<close>

datatype notif = NInfo | NTrack | NHeader | NBcst

datatype wake = WakeClose | WakeSignal | WakeNote notif

datatype stream_phase = PDrain | PRead nat | PWait nat | PDone

record 'a pcp_stream =
  psOut :: "'a PCPOutput"
  psCur :: streamCursor
  psPhase :: stream_phase

definition pending :: "'a PCPOutput \<Rightarrow> notif \<Rightarrow> bool" where
  "pending o' n = (case n of
     NInfo \<Rightarrow> obInfo (poBase o') | NTrack \<Rightarrow> obTrack (poBase o') | NHeader \<Rightarrow> obHeader (poBase o') | NBcst \<Rightarrow> poBcst o' \<noteq> [])"

definition pending_notes :: "'a PCPOutput \<Rightarrow> notif list" where
  "pending_notes o' = filter (pending o') [NInfo, NTrack, NHeader, NBcst]"

text \<open>Taking one notification and the atom it sends.\<close>

definition take_note :: "'a pcp \<Rightarrow> 'a Channel \<Rightarrow> notif \<Rightarrow> 'a PCPOutput \<Rightarrow> streamCursor \<Rightarrow> 'a PCPOutput \<times> streamCursor \<times> 'a" where
  "take_note P ch n o' cur = (case n of
     NInfo \<Rightarrow> (o'\<lparr>poBase := (poBase o')\<lparr>obInfo := False\<rparr>\<rparr>, cur, sendInfoUpdate P (poSessionID o') ch)
   | NTrack \<Rightarrow> (o'\<lparr>poBase := (poBase o')\<lparr>obTrack := False\<rparr>\<rparr>, cur, sendTrackUpdate P (poSessionID o') ch)
   | NHeader \<Rightarrow> (o'\<lparr>poBase := (poBase o')\<lparr>obHeader := False\<rparr>\<rparr>, sendHeaderUpdate P ch cur)
   | NBcst \<Rightarrow> (o'\<lparr>poBcst := tl (poBcst o')\<rparr>, cur, hd (poBcst o')))"

definition backlog :: "'a PCPOutput \<Rightarrow> nat" where
  "backlog o' = length (poBcst o') + length (filter (pending o') [NInfo, NTrack, NHeader])"

lemma take_note_backlog: "pending o' n \<Longrightarrow> backlog (fst (take_note P ch n o' cur)) < backlog o'"
  by (cases n; cases "poBcst o'") (auto simp: take_note_def backlog_def pending_def sendHeaderUpdate_def)

text \<open>\<open>pick\<close> chooses among the pending notifications, as \<^verbatim>\<open>select\<close> does at random.\<close>

definition choose_note :: "nat \<Rightarrow> 'a PCPOutput \<Rightarrow> notif" where
  "choose_note k o' = pending_notes o' ! (k mod length (pending_notes o'))"

lemma choose_note_pending: "pending_notes o' \<noteq> [] \<Longrightarrow> pending o' (choose_note k o')"
proof -
  assume "pending_notes o' \<noteq> []"
  then have "choose_note k o' \<in> set (pending_notes o')" unfolding choose_note_def by (intro nth_mem) simp
  then show ?thesis unfolding pending_notes_def set_filter by blast
qed

function drainNotifications ::
  "'a pcp \<Rightarrow> (nat \<Rightarrow> nat) \<Rightarrow> (nat \<Rightarrow> bool) \<Rightarrow> nat \<Rightarrow> 'a Channel \<Rightarrow> 'a PCPOutput \<Rightarrow> streamCursor \<Rightarrow> bool \<times> 'a PCPOutput \<times> streamCursor \<times> 'a list" where
  "drainNotifications P pick ok k ch o' cur =
     (if pending_notes o' = [] then (True, o', cur, [])
      else case take_note P ch (choose_note (pick k) o') o' cur of (o1, cur1, atom) \<Rightarrow>
        if \<not> ok k then (False, o1, cur1, [])
        else case drainNotifications P pick ok (Suc k) ch o1 cur1 of (r, o2, cur2, ws) \<Rightarrow> (r, o2, cur2, atom # ws))"
  by pat_completeness auto
termination
proof (relation "measure (\<lambda>(P, pick, ok, k, ch, o', cur). backlog o')", goal_cases)
  case (2 P pick ok k ch o' cur o1 y cur1 atom)
  then have "o1 = fst (take_note P ch (choose_note (pick k) o') o' cur)" by (metis fst_conv)
  with 2(1) show ?case by (simp add: take_note_backlog choose_note_pending)
qed simp

declare drainNotifications.simps [simp del]

text \<open>
  One piece of \<^verbatim>\<open>streamLoop\<close> at a channel \<open>ch\<close>: draining and taking the signal channel, reading and
  sending, or the blocking wait, which consumes what \<open>w\<close> names; a wait for something that is not
  there does not move.  Another goroutine may change the channel or the output between two pieces.
\<close>

record stream_env =
  seNow :: time
  sePick :: "nat \<Rightarrow> nat"
  seOk :: "nat \<Rightarrow> bool"
  seWake :: wake
  seHost :: host_env

definition leave :: "'a pcp_stream \<Rightarrow> 'a pcp_stream" where
  "leave s = s\<lparr>psPhase := PDone\<rparr>"

definition drain_piece :: "'a pcp \<Rightarrow> stream_env \<Rightarrow> 'a Channel \<Rightarrow> 'a pcp_stream \<Rightarrow> 'a pcp_stream \<times> 'a list" where
  "drain_piece P E ch s =
     (case drainNotifications P (sePick E) (seOk E) 0 ch (psOut s) (psCur s) of (good, o', cur, ws) \<Rightarrow>
        (\<lparr>psOut = o', psCur = cur, psPhase = (if good then PRead (Signal (buffer ch)) else PDone)\<rparr>, ws))"

definition read_piece :: "'a pcp \<Rightarrow> stream_env \<Rightarrow> nat \<Rightarrow> 'a Channel \<Rightarrow> 'a pcp_stream \<Rightarrow> 'a pcp_stream \<times> 'a list" where
  "read_piece P E sig ch s =
     (let ps = Since (buffer ch) (scPos (psCur s)) in
      if ps = [] then (s\<lparr>psPhase := PWait sig\<rparr>, [])
      else if pending (psOut s) NHeader then
        (case take_note P ch NHeader (psOut s) (psCur s) of (o', cur, atom) \<Rightarrow>
           if seOk E 0 then (\<lparr>psOut = o', psCur = cur, psPhase = PDrain\<rparr>, [atom])
           else (\<lparr>psOut = o', psCur = cur, psPhase = PDone\<rparr>, []))
      else (case sendDataPackets P (seNow E) (seOk E) ch ps (psCur s) of (cur, ws, good) \<Rightarrow>
              (s\<lparr>psCur := cur, psPhase := (if good then PDrain else PDone)\<rparr>, ws)))"

definition wait_piece :: "'a pcp \<Rightarrow> stream_env \<Rightarrow> nat \<Rightarrow> 'a Channel \<Rightarrow> 'a pcp_stream \<Rightarrow> 'a pcp_stream \<times> 'a list" where
  "wait_piece P E sig ch s =
     (case seWake E of
        WakeClose \<Rightarrow>
          if \<not> obClosed (poBase (psOut s)) then (s, [])
          else (leave s,
                if poEvicted (psOut s)
                then sendAlternativeHostsAndQuit P (seHost E) (seOk E) PCPErrorUnavailable ch (psOut s)
                else sendUpstreamHostAndQuit P PCPErrorShutdown ch)
      | WakeSignal \<Rightarrow> if signalled (buffer ch) sig then (s\<lparr>psPhase := PDrain\<rparr>, []) else (s, [])
      | WakeNote n \<Rightarrow>
          if \<not> pending (psOut s) n then (s, [])
          else (case take_note P ch n (psOut s) (psCur s) of (o', cur, atom) \<Rightarrow>
                  if seOk E 0 then (\<lparr>psOut = o', psCur = cur, psPhase = PDrain\<rparr>, [atom])
                  else (\<lparr>psOut = o', psCur = cur, psPhase = PDone\<rparr>, [])))"

definition streamLoop_step :: "'a pcp \<Rightarrow> stream_env \<Rightarrow> 'a Channel \<Rightarrow> 'a pcp_stream \<Rightarrow> 'a pcp_stream \<times> 'a list" where
  "streamLoop_step P E ch s =
     (case psPhase s of
        PDrain \<Rightarrow> drain_piece P E ch s
      | PRead sig \<Rightarrow> read_piece P E sig ch s
      | PWait sig \<Rightarrow> wait_piece P E sig ch s
      | PDone \<Rightarrow> (s, []))"

text \<open>\<^verbatim>\<open>runStreaming\<close>: the initial atoms, then the loop; and what it leaves of the channel at the end.\<close>

definition runStreaming_start ::
  "'a pcp \<Rightarrow> time \<Rightarrow> host_env \<Rightarrow> (nat \<Rightarrow> bool) \<Rightarrow> u32 \<Rightarrow> 'a Channel \<Rightarrow> 'a PCPOutput \<Rightarrow> 'a pcp_stream \<times> 'a list" where
  "runStreaming_start P now E ok startPos ch o' =
     (case sendInitial P E ok ch o' of (ws, good) \<Rightarrow>
        (\<lparr>psOut = o', psCur = startCursor now ch startPos, psPhase = (if good then PDrain else PDone)\<rparr>, ws))"

definition runStreaming_end :: "'a pcp \<Rightarrow> 'a PCPOutput \<Rightarrow> 'a Channel \<Rightarrow> 'a Channel" where
  "runStreaming_end P o' ch = Channel_RemoveNodeStats P (poPeerID o') ch"

section \<open>What the downstream node sends\<close>

definition observe_host :: "'a pcp \<Rightarrow> time \<Rightarrow> 'a PCPOutput \<Rightarrow> 'a \<Rightarrow> 'a Channel \<Rightarrow> 'a Channel" where
  "observe_host P now o' host ch =
     (case HostID P (Some host) of (sid, ok) \<Rightarrow>
        if ok \<and> sid \<noteq> poSessionID o' then Channel_ObserveHost P now host (poPeerID o') ch else ch)"

definition forwardBcst :: "'a pcp \<Rightarrow> time \<Rightarrow> nat \<Rightarrow> 'a PCPOutput \<Rightarrow> 'a \<Rightarrow> 'a Channel \<Rightarrow> 'a Channel \<times> 'a effect list" where
  "forwardBcst P now ref o' a ch =
     (case RouteBcst P (Some a) (poSessionID o') (chID ch) of (local, forwarded) \<Rightarrow>
        let ch' = (if local then fold (observe_host P now o') (FindChildren P a (tag_of P PCPHost)) ch else ch) in
        (ch', case forwarded of None \<Rightarrow> [] | Some f \<Rightarrow> Channel_Broadcast P (Some (as_output ref o')) f ch'))"

fun readLoop :: "'a pcp \<Rightarrow> nat \<Rightarrow> 'a net_event list \<Rightarrow> 'a PCPOutput \<Rightarrow> 'a Channel \<Rightarrow> 'a PCPOutput \<times> 'a Channel \<times> 'a effect list" where
  "readLoop P ref (Recv now a # events) o' ch =
     (if Tag P a = tag_of P PCPBcst then
        (case forwardBcst P now ref o' a ch of (ch', es) \<Rightarrow>
           case readLoop P ref events o' ch' of (o'', ch'', es') \<Rightarrow> (o'', ch'', es @ es'))
      else if Tag P a = tag_of P PCPQuit then (o'\<lparr>poBase := Base_Close (poBase o')\<rparr>, ch, [])
      else readLoop P ref events o' ch)"
| "readLoop P ref _ o' ch = (o'\<lparr>poBase := Base_Close (poBase o')\<rparr>, ch, [])"

text \<open>Two helpers of \<^verbatim>\<open>pcp.go\<close> that nothing calls.\<close>

definition extractNodeStats :: "'a pcp \<Rightarrow> time \<Rightarrow> 'a \<Rightarrow> 'a Channel \<Rightarrow> 'a Channel" where
  "extractNodeStats P now host ch =
     (case FindChild P host (tag_of P PCPHostID) of
        None \<Rightarrow> ch
      | Some sidAtom \<Rightarrow>
          (case GetID P sidAtom of (sid, ok) \<Rightarrow>
             if \<not> ok then ch
             else
               let int_child = (\<lambda>t. case FindChild P host (tag_of P t) of
                     None \<Rightarrow> 0 | Some a \<Rightarrow> (case GetInt P a of (v, good) \<Rightarrow> if good then uint v else 0))
               in Channel_UpdateNodeStats now sid (int_child PCPHostNumListeners) (int_child PCPHostNumRelays) ch))"

definition rebuild_child :: "'a pcp \<Rightarrow> byte \<Rightarrow> 'a \<Rightarrow> 'a" where
  "rebuild_child P ttl c =
     (if Tag P c = tag_of P PCPBcstTTL then NewByteAtom P (tag_of P PCPBcstTTL) (ttl - 1)
      else if Tag P c = tag_of P PCPBcstHops then
        (case GetByte P c of (hops, ok) \<Rightarrow> if ok then NewByteAtom P (tag_of P PCPBcstHops) (hops + 1) else c)
      else c)"

definition rebuildBcst :: "'a pcp \<Rightarrow> 'a \<Rightarrow> byte \<Rightarrow> 'a" where
  "rebuildBcst P a ttl = NewParentAtom P (tag_of P PCPBcst) (map (rebuild_child P ttl) (Children P a))"

section \<open>The pieces of a packet\<close>

definition pkt_content :: "time \<Rightarrow> ChanPktData \<Rightarrow> Content" where
  "pkt_content t p = \<lparr>Pos = pktPos p, Data = pktData p, ContFlags = pktContinuation p, Timestamp = t\<rparr>"

lemma pkt_content_simps [simp]:
  "Pos (pkt_content t p) = pktPos p" "Data (pkt_content t p) = pktData p"
  "ContFlags (pkt_content t p) = pktContinuation p" "Timestamp (pkt_content t p) = t"
  by (simp_all add: pkt_content_def)

lemma packet_chunks_Nil [simp]: "packet_chunks P pos f orig [] = []"
  by (simp add: packet_chunks.simps)

lemma packet_chunks_step:
  "d \<noteq> [] \<Longrightarrow> packet_chunks P pos f orig d =
     \<lparr>pktType = NewID4 P ''data'', pktPos = pos, pktData = take maxContentBodyLen d, pktContinuation = f\<rparr> #
       packet_chunks P (pos + of_nat (min (length d) maxContentBodyLen)) (orig OR 1) orig (drop maxContentBodyLen d)"
  by (subst packet_chunks.simps) (auto simp: Let_def min_def)

lemma chunk_induct [case_names Nil Chunk]:
  assumes "Q []" "\<And>d. d \<noteq> [] \<Longrightarrow> Q (drop maxContentBodyLen d) \<Longrightarrow> Q d"
  shows "Q d"
proof (induction d rule: length_induct)
  case (1 d)
  then show ?case using assms by (cases "d = []") (auto simp: maxContentBodyLen_def)
qed

lemma packet_chunks_data: "concat (map pktData (packet_chunks P pos f orig d)) = d"
  by (induction d arbitrary: pos f rule: chunk_induct) (simp_all add: packet_chunks_step)

lemma maxContentBodyLen_pos [simp]: "0 < maxContentBodyLen" "maxContentBodyLen \<noteq> 0"
  by (simp_all add: maxContentBodyLen_def)

lemma packet_chunks_pieces:
  "c \<in> set (packet_chunks P pos f orig d) \<Longrightarrow>
     pktType c = NewID4 P ''data'' \<and> pktData c \<noteq> [] \<and> length (pktData c) \<le> maxContentBodyLen"
  by (induction d arbitrary: pos f rule: chunk_induct) (auto simp: packet_chunks_step)

lemma packet_chunks_flags:
  "map pktContinuation (packet_chunks P pos f orig d) =
     (if d = [] then [] else f # replicate (length (packet_chunks P pos f orig d) - 1) (orig OR 1))"
proof (induction d arbitrary: pos f rule: chunk_induct)
  case (Chunk d)
  let ?r = "drop maxContentBodyLen d" and ?pos = "pos + of_nat (min (length d) maxContentBodyLen)"
  have "map pktContinuation (packet_chunks P ?pos (orig OR 1) orig ?r)
      = replicate (length (packet_chunks P ?pos (orig OR 1) orig ?r)) (orig OR 1)"
    unfolding Chunk.IH by (cases "?r = []") (simp_all add: packet_chunks_step)
  with Chunk.hyps show ?case by (simp add: packet_chunks_step)
qed simp

lemma packet_chunks_hd: "d \<noteq> [] \<Longrightarrow> packet_chunks P pos f orig d \<noteq> [] \<and> pktPos (hd (packet_chunks P pos f orig d)) = pos"
  by (simp add: packet_chunks_step)

lemma packet_chunks_contiguous: "contiguous (map (pkt_content t) (packet_chunks P pos f orig d))"
proof (induction d arbitrary: pos f rule: chunk_induct)
  case (Chunk d)
  let ?r = "drop maxContentBodyLen d" and ?pos = "pos + of_nat (min (length d) maxContentBodyLen)"
  show ?case
  proof (cases "?r = []")
    case True
    then show ?thesis using Chunk.hyps by (simp add: packet_chunks_step)
  next
    case False
    then obtain c cs where cs: "packet_chunks P ?pos (orig OR 1) orig ?r = c # cs" "pktPos c = ?pos"
      using packet_chunks_hd by (metis list.exhaust_sel)
    have "contiguous (map (pkt_content t) (c # cs))" using Chunk.IH [of ?pos "orig OR 1"] cs(1) by simp
    then show ?thesis using cs packet_chunks_step [OF Chunk.hyps, of P pos f orig] by (simp add: end_pos_def)
  qed
qed simp

lemma packet_chunks_end:
  assumes "d \<noteq> []"
  shows "end_pos (last (map (pkt_content t) (packet_chunks P pos f orig d))) = pos + of_nat (length d)"
proof -
  obtain c cs where cs: "packet_chunks P pos f orig d = c # cs" "pktPos c = pos"
    using packet_chunks_hd [OF assms] by (metis list.exhaust_sel)
  have "total_bytes (map (pkt_content t) (c # cs)) = length (concat (map pktData (c # cs)))"
    by (simp add: total_bytes_def length_concat comp_def)
  also have "\<dots> = length d" using packet_chunks_data [of P pos f orig d] cs(1) by simp
  finally show ?thesis
    using contiguous_end [of "pkt_content t c" "map (pkt_content t) cs"] packet_chunks_contiguous [of t P pos f orig d] cs by simp
qed

lemma content_chunks_flags:
  assumes "Data p \<noteq> []"
  shows "pktContinuation (hd (content_chunks P p)) = ContFlags p"
    and "c \<in> set (tl (content_chunks P p)) \<Longrightarrow> pktContinuation c = ContFlags p OR 1"
proof -
  have *: "map pktContinuation (content_chunks P p) = ContFlags p # replicate (length (content_chunks P p) - 1) (ContFlags p OR 1)"
    using assms packet_chunks_flags [of P "Pos p" "ContFlags p" "ContFlags p" "Data p"] by (simp add: content_chunks_def)
  then obtain x xs where xs: "content_chunks P p = x # xs" by (cases "content_chunks P p") simp_all
  show "pktContinuation (hd (content_chunks P p)) = ContFlags p" using * xs by simp
  assume "c \<in> set (tl (content_chunks P p))"
  then have "pktContinuation c \<in> set (map pktContinuation xs)" using xs by simp
  also have "map pktContinuation xs = replicate (length xs) (ContFlags p OR 1)" using * xs by simp
  finally show "pktContinuation c = ContFlags p OR 1" by simp
qed

text \<open>
  Splitting for the wire loses nothing.  The pieces a packet is sent in are non-empty and at most
  15 KiB each, their data in order is the packet's data, each piece starts where the previous one
  ended, the last one where the packet ends; the first piece keeps the packet's flags, every other has
  the fragment flag added to them.
\<close>

theorem content_chunks_exact:
  "concat (map pktData (content_chunks P p)) = Data p \<and>
   (\<forall>c \<in> set (content_chunks P p). 0 < length (pktData c) \<and> length (pktData c) \<le> 15 * 1024) \<and>
   contiguous (map (pkt_content t) (content_chunks P p)) \<and>
   (Data p \<noteq> [] \<longrightarrow>
      pktPos (hd (content_chunks P p)) = Pos p \<and>
      end_pos (last (map (pkt_content t) (content_chunks P p))) = end_pos p \<and>
      pktContinuation (hd (content_chunks P p)) = ContFlags p \<and>
      (\<forall>c \<in> set (tl (content_chunks P p)). pktContinuation c = ContFlags p OR 1))"
  using packet_chunks_data [of P "Pos p" "ContFlags p" "ContFlags p" "Data p"] packet_chunks_hd [of "Data p" P "Pos p"]
    packet_chunks_contiguous [of t P "Pos p" "ContFlags p" "ContFlags p" "Data p"]
    packet_chunks_end [of "Data p" t P "Pos p" "ContFlags p" "ContFlags p"]
    packet_chunks_pieces [of _ P "Pos p" "ContFlags p" "ContFlags p" "Data p"] content_chunks_flags [where p = p and P = P]
  by (auto simp: content_chunks_def end_pos_def maxContentBodyLen_def)

text \<open>A packet of 20000 bytes, which does not fit one piece.\<close>

definition demo_long_packet :: Content where
  "demo_long_packet = \<lparr>Pos = 100, Data = replicate 20000 7, ContFlags = 2, Timestamp = 0\<rparr>"

theorem content_chunks_exact_witness:
  "pktPos (hd (content_chunks wire_pcp demo_long_packet)) = 100 \<and>
   pktContinuation (hd (content_chunks wire_pcp demo_long_packet)) = 2 \<and>
   concat (map pktData (content_chunks wire_pcp demo_long_packet)) = replicate 20000 7"
proof -
  have "Data demo_long_packet \<noteq> []" by (simp add: demo_long_packet_def)
  then show ?thesis
    using content_chunks_exact [where P = wire_pcp and p = demo_long_packet and t = 0] by (simp add: demo_long_packet_def)
qed

section \<open>Who is let in\<close>

definition quit_wire :: "'a pcp \<Rightarrow> pcp_error \<Rightarrow> 'a wire" where
  "quit_wire P e = WAtomOut (sendQuit P e)"

lemma helo_problem_None:
  "helo_problem P sid helo = None \<longleftrightarrow>
     hpSessionID helo \<noteq> sid \<and> hpSessionID helo \<noteq> zeroID \<and> hpVersion helo \<noteq> 0 \<and> PCPClientMinVersion \<le> hpVersion helo"
  by (auto simp: helo_problem_def not_less)

lemma relay_handshake_passes:
  assumes "relay_handshake P r admitted o' = (Inr pos, o2, ws)"
  obtains t a helo port where "riHelo r = Recv t a" "ParseHeloPacket P a = (helo, True)"
    "helo_problem P (poSessionID o') helo = None" "remote_port P (poRemote o') (riPing r) helo = Some port"
    "o2 = o'\<lparr>poPeerID := hpSessionID helo, poRemotePort := port, poPeerAgent := hpAgent helo, poPeerVersion := hpVersion helo\<rparr>"
    "ws = WText (relay_response admitted) # WAtomOut (oleh_atom P (poRemote o') (poSessionID o') port) #
         (if admitted then [WAtomOut (NewIntAtom P (tag_of P PCPOK) 1)] else [])"
    "pos = start_pos (riPos r)"
proof (cases "riHelo r")
  case (Recv t a)
  obtain helo ok where parse: "ParseHeloPacket P a = (helo, ok)" by fastforce
  have "riRequest r" "riWriteResponse r" "Tag P a = tag_of P PCPHelo" ok "helo_problem P (poSessionID o') helo = None"
    using assms Recv parse by (auto simp: relay_handshake_def Let_def split: if_splits option.splits)
  note base = this
  obtain port where port: "remote_port P (poRemote o') (riPing r) helo = Some port"
    using assms Recv parse base by (auto simp: relay_handshake_def Let_def split: option.splits)
  then show thesis using that [OF Recv _ base(5) port] parse base assms Recv
    by (auto simp: relay_handshake_def Let_def split: if_splits)
qed (use assms in \<open>auto simp: relay_handshake_def Let_def split: if_splits\<close>)

lemma relay_handshake_rejects:
  assumes "riRequest r" "riWriteResponse r" "riHelo r = Recv t a" "Tag P a = tag_of P PCPHelo"
    "ParseHeloPacket P a = (helo, True)" "helo_problem P (poSessionID o') helo = Some (e, code)"
  shows "relay_handshake P r admitted o' = (Inl e, o'\<lparr>poPeerID := hpSessionID helo\<rparr>, [WText (relay_response admitted), quit_wire P code])"
  using assms by (simp add: relay_handshake_def Let_def quit_wire_def sendQuit_def)

lemma remote_port_rule:
  assumes "remote_port P remote pl helo = Some port"
  shows "hpPing helo = 0 \<Longrightarrow> port = hpPort helo"
    and "hpPing helo \<noteq> 0 \<Longrightarrow> port \<noteq> 0 \<Longrightarrow> port = hpPing helo \<and> pingHost P pl (hpSessionID helo) \<and>
      (\<exists>p n. remote = TCPAddr p n \<and> \<not> isSiteLocal p)"
  using assms by (auto simp: remote_port_def split: if_splits addr.splits)

text \<open>
  C11.  A downstream node passes the handshake only if it identified itself, is not this very node, and
  speaks a supported protocol version; the port recorded for it is the one it claimed or, when it asked
  for a check, one that this node reached from outside and found to be the same peer, never on a local
  network.  It is sent the response that says whether there is room, and the acceptance only if there
  is.  A node turned away for one of these reasons is sent that response and a quit with the reason,
  and nothing more.
\<close>

theorem relay_handshake_screens:
  assumes run: "relay_handshake P r admitted o' = (res, o2, ws)"
  shows "(\<forall>pos. res = Inr pos \<longrightarrow>
       pos = start_pos (riPos r) \<and>
       (\<exists>t a helo. riHelo r = Recv t a \<and> ParseHeloPacket P a = (helo, True) \<and>
          poPeerID o2 = hpSessionID helo \<and> poPeerID o2 \<noteq> poSessionID o2 \<and> poPeerID o2 \<noteq> zeroID \<and>
          poPeerVersion o2 = hpVersion helo \<and> PCPClientMinVersion \<le> poPeerVersion o2 \<and>
          (hpPing helo = 0 \<longrightarrow> poRemotePort o2 = hpPort helo) \<and>
          (hpPing helo \<noteq> 0 \<and> poRemotePort o2 \<noteq> 0 \<longrightarrow> poRemotePort o2 = hpPing helo \<and>
             pingHost P (riPing r) (poPeerID o2) \<and> (\<exists>p port. poRemote o' = TCPAddr p port \<and> \<not> isSiteLocal p))) \<and>
       ws = WText (relay_response admitted) # WAtomOut (oleh_atom P (poRemote o') (poSessionID o') (poRemotePort o2)) #
         (if admitted then [WAtomOut (NewIntAtom P (tag_of P PCPOK) 1)] else [])) \<and>
   (\<forall>t a helo e code. riRequest r \<and> riWriteResponse r \<and> riHelo r = Recv t a \<and> Tag P a = tag_of P PCPHelo \<and>
      ParseHeloPacket P a = (helo, True) \<and> helo_problem P (poSessionID o') helo = Some (e, code) \<longrightarrow>
      res = Inl e \<and> ws = [WText (relay_response admitted), quit_wire P code])"
proof (intro conjI allI impI)
  fix pos assume "res = Inr pos"
  with run have pass: "relay_handshake P r admitted o' = (Inr pos, o2, ws)" by simp
  from pass obtain t a helo port where h: "riHelo r = Recv t a" "ParseHeloPacket P a = (helo, True)"
    "helo_problem P (poSessionID o') helo = None" "remote_port P (poRemote o') (riPing r) helo = Some port"
    "o2 = o'\<lparr>poPeerID := hpSessionID helo, poRemotePort := port, poPeerAgent := hpAgent helo, poPeerVersion := hpVersion helo\<rparr>"
    by (rule relay_handshake_passes)
  show "\<exists>t a helo. riHelo r = Recv t a \<and> ParseHeloPacket P a = (helo, True) \<and>
          poPeerID o2 = hpSessionID helo \<and> poPeerID o2 \<noteq> poSessionID o2 \<and> poPeerID o2 \<noteq> zeroID \<and>
          poPeerVersion o2 = hpVersion helo \<and> PCPClientMinVersion \<le> poPeerVersion o2 \<and>
          (hpPing helo = 0 \<longrightarrow> poRemotePort o2 = hpPort helo) \<and>
          (hpPing helo \<noteq> 0 \<and> poRemotePort o2 \<noteq> 0 \<longrightarrow> poRemotePort o2 = hpPing helo \<and>
             pingHost P (riPing r) (poPeerID o2) \<and> (\<exists>p port. poRemote o' = TCPAddr p port \<and> \<not> isSiteLocal p))"
    using h remote_port_rule [OF h(4)] by (intro exI [of _ t] exI [of _ a] exI [of _ helo]) (simp add: helo_problem_None)
  from pass show "ws = WText (relay_response admitted) # WAtomOut (oleh_atom P (poRemote o') (poSessionID o') (poRemotePort o2)) #
         (if admitted then [WAtomOut (NewIntAtom P (tag_of P PCPOK) 1)] else [])" "pos = start_pos (riPos r)"
    by (auto elim: relay_handshake_passes)
qed (use run relay_handshake_rejects in \<open>fastforce+\<close>)

definition demo_output :: "wire_atom PCPOutput" where
  "demo_output = newPCPOutputStream (OtherAddr []) (TCPAddr (v4prefix @ [8, 8, 8, 8]) 7144) (replicate 16 1) 1 0 7144 0 0"

definition demo_helo :: "wire_atom relay_in" where
  "demo_helo = \<lparr>riRequest = True, riPos = ''70'', riWriteResponse = True,
     riHelo = Recv 5 (wire_helo ''helo'' \<lparr>hpAgent = [], hpSessionID = replicate 16 2, hpVersion = 1218, hpPort = 7144, hpPing = 0,
       hpRemoteIP = 0, hpBCID = zeroID\<rparr>),
     riPing = \<lparr>plDial = False, plWriteMagic = False, plWriteHelo = False, plReply = Broken\<rparr>, riWriteOleh = True, riWriteOK = True\<rparr>"

theorem relay_handshake_screens_witness:
  "poPeerID (fst (snd (relay_handshake wire_pcp demo_helo True demo_output))) \<noteq> zeroID"
proof -
  obtain res o2 ws where run: "relay_handshake wire_pcp demo_helo True demo_output = (res, o2, ws)" by (metis prod_cases3)
  have parse: "ParseHeloPacket wire_pcp (wire_helo ''helo'' h) = (h\<lparr>hpAgent := [], hpBCID := zeroID\<rparr>, True)"
    if "length (hpSessionID h) = 16" for h
    using that by (cases h) (auto simp: wire_sel wire_helo_def un_wire_helo_def wire_child_def pad4_def ascii_def Let_def)
  let ?h = "\<lparr>hpAgent = [], hpSessionID = replicate 16 2, hpVersion = 1218, hpPort = 7144, hpPing = 0, hpRemoteIP = 0, hpBCID = zeroID\<rparr>"
  have "ParseHeloPacket wire_pcp (wire_helo ''helo'' ?h) = (?h, True)" using parse [of ?h] by simp
  moreover have "helo_problem wire_pcp (replicate 16 1) ?h = None"
    by (simp add: helo_problem_None PCPClientMinVersion_def zeroID_def)
  moreover have "Tag wire_pcp (wire_helo ''helo'' ?h) = tag_of wire_pcp PCPHelo" by (simp add: wire_sel wire_helo_def)
  ultimately have "\<exists>pos. res = Inr pos"
    using run by (auto simp: relay_handshake_def demo_helo_def demo_output_def newPCPOutputStream_def remote_port_def Let_def)
  then show ?thesis using relay_handshake_screens [OF run] run by auto
qed

end
