(* ===== verification/Follower.thy ===== *)
theory Follower
  imports Content_Buffer
begin

text \<open>
  How the outputs follow a buffer.  A relay output remembers a position and reads with \<^verbatim>\<open>Since\<close>, a
  viewer's output remembers the last packet and reads with \<^verbatim>\<open>PacketsAfter\<close>; both rely on the same
  contract, the locale \<open>follower\<close>: a write adds exactly the written packet to what is unread, as
  long as fewer packets are unread than the ring holds, and after reading to the end nothing is
  unread.
\<close>

locale follower =
  fixes unread :: "ContentBuffer \<Rightarrow> 'c \<Rightarrow> Content list"
    and wanted :: "'c \<Rightarrow> Content \<Rightarrow> bool"
    and caught_up :: "ContentBuffer \<Rightarrow> 'c \<Rightarrow> bool"
    and mark :: "Content \<Rightarrow> 'c"
    and sound :: "ContentBuffer \<Rightarrow> bool"
    and fits :: "ContentBuffer \<Rightarrow> Content \<Rightarrow> bool"
  assumes unread_window: "unread b c = dropWhile (\<lambda>p. \<not> wanted c p) (contents b)"
    and sound_buf: "sound b \<Longrightarrow> buf_inv b"
    and sound_put: "sound b \<Longrightarrow> fits b q \<Longrightarrow> sound (write_content b q)"
    and wanted_put: "sound b \<Longrightarrow> caught_up b c \<Longrightarrow> fits b q \<Longrightarrow> wanted c q"
    and not_wanted: "sound b \<Longrightarrow> p \<in> set (contents b) \<Longrightarrow> \<not> wanted (mark (last (contents b))) p"
    and caught_up_mark: "sound b \<Longrightarrow> contents b \<noteq> [] \<Longrightarrow> caught_up b (mark (last (contents b)))"
begin

lemma unread_split:
  obtains pre where "contents b = pre @ unread b c" "\<forall>p \<in> set pre. \<not> wanted c p"
    "unread b c \<noteq> [] \<longrightarrow> wanted c (hd (unread b c))"
proof
  show "contents b = takeWhile (\<lambda>p. \<not> wanted c p) (contents b) @ unread b c"
    by (simp add: unread_window)
  show "\<forall>p \<in> set (takeWhile (\<lambda>p. \<not> wanted c p) (contents b)). \<not> wanted c p"
    by (auto dest: set_takeWhileD)
  show "unread b c \<noteq> [] \<longrightarrow> wanted c (hd (unread b c))"
    using hd_dropWhile [of "\<lambda>p. \<not> wanted c p" "contents b"] by (auto simp: unread_window)
qed

lemma last_unread: "unread b c \<noteq> [] \<Longrightarrow> contents b \<noteq> [] \<and> last (unread b c) = last (contents b)"
  by (rule unread_split [of b c]) auto

lemma unread_put:
  assumes "sound b" "fits b q" "length (unread b c) < capacity b" "unread b c = [] \<longrightarrow> caught_up b c"
  shows "unread (write_content b q) c = unread b c @ [q]"
proof -
  obtain pre where pre: "contents b = pre @ unread b c" "\<forall>p \<in> set pre. \<not> wanted c p"
    "unread b c \<noteq> [] \<longrightarrow> wanted c (hd (unread b c))"
    by (rule unread_split)
  let ?k = "length pre + length (unread b c) + 1 - capacity b"
  have "contents (write_content b q) = take_last (capacity b) (pre @ unread b c @ [q])"
    using ringbuf.window_write [OF sound_buf [OF assms(1)], of q] pre(1) by simp
  also have "\<dots> = drop ?k pre @ unread b c @ [q]"
    using assms(3) by (simp add: take_last_def)
  finally have c: "contents (write_content b q) = drop ?k pre @ unread b c @ [q]" .
  have "wanted c (hd (unread b c @ [q]))"
    using pre(3) assms wanted_put by (cases "unread b c") auto
  moreover have "\<forall>p \<in> set (drop ?k pre). \<not> wanted c p" using pre(2) by (auto dest: in_set_dropD)
  ultimately show ?thesis
    unfolding unread_window [of "write_content b q"] c by (cases "unread b c") (auto simp: dropWhile_append2)
qed

lemma unread_mark: "sound b \<Longrightarrow> unread b (mark (last (contents b))) = []"
  using not_wanted by (simp add: unread_window)

text \<open>Having read everything, a reader finds what was written since.\<close>

lemma follows:
  assumes "sound b" "contents b \<noteq> []" "length qs \<le> capacity b"
    and "\<forall>k < length qs. fits (foldl write_content b (take k qs)) (qs ! k)"
  shows "unread (foldl write_content b qs) (mark (last (contents b))) = qs \<and> sound (foldl write_content b qs)"
  using assms(3,4)
proof (induction qs rule: rev_induct)
  case Nil
  then show ?case using assms(1) by (simp add: unread_mark)
next
  case (snoc q qs)
  let ?b = "foldl write_content b qs" and ?c = "mark (last (contents b))"
  have "\<forall>k < length qs. fits (foldl write_content b (take k qs)) (qs ! k)"
  proof (intro allI impI)
    fix k assume "k < length qs"
    then show "fits (foldl write_content b (take k qs)) (qs ! k)" using snoc.prems(2) by (auto simp: nth_append dest: spec [of _ k])
  qed
  then have IH: "unread ?b ?c = qs" "sound ?b" using snoc by auto
  have fit: "fits ?b q" using snoc.prems(2) by (auto dest: spec [of _ "length qs"])
  have cap: "capacity ?b = capacity b" using ringbuf.cap_writes [OF sound_buf [OF assms(1)]] by simp
  have "unread ?b ?c = [] \<longrightarrow> caught_up ?b ?c" using IH(1) caught_up_mark [OF assms(1,2)] by auto
  from unread_put [OF IH(2) fit _ this] IH cap snoc.prems(1) sound_put [OF IH(2) fit] show ?case by simp
qed

end

section \<open>Following by position\<close>

definition window_ok :: "ContentBuffer \<Rightarrow> bool" where
  "window_ok b \<longleftrightarrow> buf_inv b \<and> contiguous (contents b) \<and> total_bytes (contents b) < 2 ^ 31 \<and>
     (\<forall>p \<in> set (contents b). Data p \<noteq> [])"

text \<open>The packet a source writes next: it starts where the last one ended, or after the header.\<close>

definition next_ok :: "ContentBuffer \<Rightarrow> Content \<Rightarrow> bool" where
  "next_ok b q \<longleftrightarrow> Data q \<noteq> [] \<and> total_bytes (contents b) + length (Data q) < 2 ^ 31 \<and>
     (if contents b = [] then \<not> PosBefore (Pos q) (headerPos b) else Pos q = end_pos (last (contents b)))"

definition level :: "ContentBuffer \<Rightarrow> u32 \<Rightarrow> bool" where
  "level b pos \<longleftrightarrow> (if contents b = [] then pos = headerPos b else \<not> PosBefore (end_pos (last (contents b))) pos)"

lemma contiguous_suffix: "contiguous (xs @ ys) \<Longrightarrow> contiguous ys"
  by (simp add: contiguous_append)

lemma contents_put_drop:
  assumes "buf_inv b"
  obtains k where "contents (write_content b q) = drop k (contents b @ [q])"
  using ringbuf.window_write [OF assms, of q] by (auto simp: take_last_def simp del: drop_append)

lemma contents_put_last:
  assumes "buf_inv b"
  shows "contents (write_content b q) \<noteq> []" "last (contents (write_content b q)) = q"
proof -
  have c: "contents (write_content b q) = drop (Suc (length (contents b)) - capacity b) (contents b @ [q])"
    using ringbuf.window_write [OF assms, of q] by (simp add: take_last_def)
  have "Suc (length (contents b)) - capacity b < Suc (length (contents b))" using capacity_pos [of b] by linarith
  then show "contents (write_content b q) \<noteq> []" "last (contents (write_content b q)) = q"
    unfolding c by (simp_all add: last_drop not_le del: drop_append)
qed

lemma window_ok_put:
  assumes "window_ok b" "next_ok b q"
  shows "window_ok (write_content b q)"
proof -
  let ?all = "contents b @ [q]"
  obtain k where c: "contents (write_content b q) = drop k ?all"
    using assms(1) contents_put_drop unfolding window_ok_def by blast
  have "contiguous ?all" using assms by (auto simp: window_ok_def next_ok_def contiguous_append)
  then have "contiguous (drop k ?all)" by (metis append_take_drop_id contiguous_suffix)
  moreover have "total_bytes (drop k ?all) \<le> total_bytes ?all"
    by (metis append_take_drop_id le_add2 total_bytes_simps(3))
  moreover have "\<forall>p \<in> set (drop k ?all). Data p \<noteq> []"
    using assms by (auto dest!: in_set_dropD simp: window_ok_def next_ok_def simp del: drop_append)
  ultimately show ?thesis using assms unfolding window_ok_def next_ok_def c
    by (auto simp: write_content_def simp del: drop_append)
qed

interpretation by_pos: follower Since "\<lambda>pos p. \<not> PosBefore (Pos p) pos" level end_pos window_ok next_ok
proof unfold_locales
  fix b c q
  show "window_ok b \<Longrightarrow> level b c \<Longrightarrow> next_ok b q \<Longrightarrow> \<not> PosBefore (Pos q) c"
    by (auto simp: level_def next_ok_def split: if_splits)
qed (auto simp: Since_contents window_ok_put, auto simp: window_ok_def level_def intro: contiguous_before_end)

section \<open>Following by the last packet\<close>

definition timed_ok :: "ContentBuffer \<Rightarrow> bool" where
  "timed_ok b \<longleftrightarrow> window_ok b \<and> sorted (map Timestamp (contents b)) \<and> (\<forall>p \<in> set (contents b). 0 < Timestamp p)"

definition next_timed :: "ContentBuffer \<Rightarrow> Content \<Rightarrow> bool" where
  "next_timed b q \<longleftrightarrow> next_ok b q \<and> 0 < Timestamp q \<and> (contents b \<noteq> [] \<longrightarrow> Timestamp (last (contents b)) \<le> Timestamp q)"

definition up_to :: "ContentBuffer \<Rightarrow> Content \<Rightarrow> bool" where
  "up_to b c \<longleftrightarrow> (if contents b = [] then Timestamp c = 0 else c = last (contents b))"

lemma sorted_last: "sorted (xs :: int list) \<Longrightarrow> x \<in> set xs \<Longrightarrow> x \<le> last xs"
  by (induction xs) auto

lemma timed_ok_put:
  assumes "timed_ok b" "next_timed b q"
  shows "timed_ok (write_content b q)"
proof -
  have b: "buf_inv b" "window_ok (write_content b q)"
    using assms window_ok_put by (auto simp: timed_ok_def window_ok_def next_timed_def)
  obtain k where c: "contents (write_content b q) = drop k (contents b @ [q])" using contents_put_drop [OF b(1)] .
  have "sorted (map Timestamp (contents b @ [q]))"
    using assms sorted_last [of "map Timestamp (contents b)"]
    by (cases "contents b = []") (force simp: timed_ok_def next_timed_def sorted_append last_map)+
  then have "sorted (map Timestamp (contents (write_content b q)))" unfolding c by (metis drop_map sorted_wrt_drop)
  moreover have "\<forall>p \<in> set (contents (write_content b q)). 0 < Timestamp p"
    using assms unfolding c by (auto dest!: in_set_dropD simp: timed_ok_def next_timed_def simp del: drop_append)
  ultimately show ?thesis using b by (simp add: timed_ok_def)
qed

lemma contiguous_not_behind:
  assumes "contiguous xs" "total_bytes xs < 2 ^ 31" "p \<in> set xs"
  shows "\<not> PosBefore (Pos (last xs)) (Pos p)"
proof -
  obtain us vs where xs: "xs = us @ p # vs" using assms(3) by (auto simp: in_set_conv_decomp)
  show ?thesis
  proof (cases "vs = []")
    case False
    let ?m = "butlast (p # vs)"
    have pv: "p # vs = ?m @ [last xs]" "?m \<noteq> []" using False xs by auto
    have m: "contiguous ?m" "Pos (last xs) = end_pos (last ?m)"
      using assms(1) pv unfolding xs by (metis contiguous_append list.sel(1) not_Cons_self2)+
    have "Pos (last xs) = Pos p + of_nat (total_bytes ?m)"
      using contiguous_end [of p "tl ?m"] m pv False by (cases vs) auto
    moreover have "total_bytes ?m < 2 ^ 31" using assms(2) pv(1) xs by (metis add_lessD1 le_add2 order_le_less_trans total_bytes_simps(3))
    ultimately show ?thesis using not_PosBefore_behind by simp
  qed (simp add: xs)
qed

lemma newer_next:
  assumes "timed_ok b" "up_to b c" "next_timed b q"
  shows "newer_than c q"
proof (cases "contents b = []")
  case False
  then have c: "c = last (contents b)" "c \<in> set (contents b)" using assms(2) by (simp_all add: up_to_def)
  obtain us where us: "contents b = us @ [c]" using False c(1) by (metis append_butlast_last_id)
  have "total_bytes (us @ [c]) < 2 ^ 31" "Data c \<noteq> []" using assms(1) c(2) us by (auto simp: timed_ok_def window_ok_def)
  then have "PosBefore (Pos c) (end_pos c)" unfolding end_pos_def by (intro PosBefore_ahead) auto
  then show ?thesis using assms(3) False c(1) by (auto simp: newer_than_def next_timed_def next_ok_def)
qed (use assms(2) in \<open>simp add: newer_than_def up_to_def\<close>)

lemma not_newer:
  assumes "timed_ok b" "p \<in> set (contents b)"
  shows "\<not> newer_than (last (contents b)) p"
proof -
  have "contents b \<noteq> []" using assms(2) by auto
  then have "Timestamp p \<le> Timestamp (last (contents b))" "0 < Timestamp (last (contents b))"
    using assms sorted_last [of "map Timestamp (contents b)" "Timestamp p"] by (auto simp: timed_ok_def last_map)
  moreover have "\<not> PosBefore (Pos (last (contents b))) (Pos p)"
    using assms by (intro contiguous_not_behind) (auto simp: timed_ok_def window_ok_def)
  ultimately show ?thesis by (auto simp: newer_than_def)
qed

interpretation by_time: follower PacketsAfter newer_than up_to "\<lambda>p. p" timed_ok next_timed
  by unfold_locales (auto simp: PacketsAfter_contents timed_ok_put newer_next not_newer, auto simp: timed_ok_def window_ok_def up_to_def)

end
