(* ===== verification/Relay_Stream.thy ===== *)
theory Relay_Stream
  imports Servent_Pcp Follower "HOL-Library.Sublist"
begin

text \<open>
  The stream loop of a relay output beside the goroutine that writes the channel's buffer: whatever
  the interleaving, what is sent is the stream from the first packet a decoder can start at, every
  byte once and in order, and the loop never sleeps on data.

  \<open>stream_run\<close> is the joint system between two changes of the stream header.  Its steps are the
  pieces of \<^verbatim>\<open>streamLoop\<close>, a write to the buffer, and changes by other goroutines to the rest of the
  channel or to the output's notifications.  \<open>hist\<close> collects the packets from the output's starting
  position on, \<open>out\<close> the atoms it has written.  A write is contiguous with the previous packet and
  finds the output less than a buffer behind; half of the 32-bit position space is enough for the
  packets held.
\<close>

definition starts :: "'a Channel \<Rightarrow> Content list \<Rightarrow> Content list" where
  "starts ch ps = dropWhile (\<lambda>p. \<not> CanStartContent p ch) ps"

definition pieces :: "'a pcp \<Rightarrow> Content list \<Rightarrow> ChanPktData list" where
  "pieces P ps = concat (map (content_chunks P) ps)"

definition atom_pkts :: "'a pcp \<Rightarrow> 'a \<Rightarrow> ChanPktData list" where
  "atom_pkts P a = (if Tag P a = tag_of P PCPChan then filter (\<lambda>p. pktType p = NewID4 P ''data'') (chan_pkts P a) else [])"

definition stream_pkts :: "'a pcp \<Rightarrow> 'a list \<Rightarrow> ChanPktData list" where
  "stream_pkts P as = concat (map (atom_pkts P) as)"

text \<open>A channel atom of the stream carries data or nothing.\<close>

definition clean :: "'a pcp \<Rightarrow> 'a \<Rightarrow> bool" where
  "clean P a \<longleftrightarrow> (Tag P a = tag_of P PCPChan \<longrightarrow> (\<forall>p \<in> set (chan_pkts P a). pktType p = NewID4 P ''data'' \<and> pktData p \<noteq> []))"

text \<open>Notifications other than a new header, and queued broadcasts.\<close>

definition quiet :: "'a pcp \<Rightarrow> 'a PCPOutput \<Rightarrow> bool" where
  "quiet P o' \<longleftrightarrow> \<not> obHeader (poBase o') \<and> (\<forall>a \<in> set (poBcst o'). Tag P a = tag_of P PCPBcst)"

inductive stream_run :: "'a pcp \<Rightarrow> 'a Channel \<Rightarrow> 'a pcp_stream \<Rightarrow> Content list \<Rightarrow> 'a list \<Rightarrow> bool"
  for P :: "'a pcp" where
  start:
    "window_ok (buffer ch) \<Longrightarrow> header (buffer ch) \<noteq> None \<Longrightarrow> quiet P o' \<Longrightarrow> cur = startCursor now ch reqPos \<Longrightarrow>
     stream_run P ch \<lparr>psOut = o', psCur = cur, psPhase = PDrain\<rparr> (Since (buffer ch) (scPos cur)) []"
| new_header:
    "window_ok (buffer ch) \<Longrightarrow> quiet P o' \<Longrightarrow>
     contents (buffer ch) \<noteq> [] \<longrightarrow> Pos (hd (contents (buffer ch))) = headerPos (buffer ch) + of_nat k \<and>
       k + total_bytes (contents (buffer ch)) < 2 ^ 31 \<Longrightarrow>
     cur = fst (sendHeaderUpdate P ch cur0) \<Longrightarrow>
     stream_run P ch \<lparr>psOut = o', psCur = cur, psPhase = PDrain\<rparr> (Since (buffer ch) (scPos cur)) []"
| put:
    "stream_run P ch s hist out \<Longrightarrow> q = \<lparr>Pos = pos, Data = d, ContFlags = f, Timestamp = now\<rparr> \<Longrightarrow> next_ok (buffer ch) q \<Longrightarrow>
     length (Since (buffer ch) (scPos (psCur s))) < capacity (buffer ch) \<Longrightarrow>
     stream_run P (Channel_Write now d pos f ch) s (hist @ [q]) out"
| other:
    "stream_run P ch s hist out \<Longrightarrow> buffer ch' = buffer ch \<Longrightarrow> stream_run P ch' s hist out"
| notify:
    "stream_run P ch s hist out \<Longrightarrow> quiet P o' \<Longrightarrow> stream_run P ch (s\<lparr>psOut := o'\<rparr>) hist out"
| step:
    "stream_run P ch s hist out \<Longrightarrow> streamLoop_step P E ch s = (s', ws) \<Longrightarrow> seWake E \<noteq> WakeClose \<Longrightarrow>
     stream_run P ch s' hist (out @ ws)"

text \<open>Both ways to start leave a position from which the stream can be followed.\<close>

lemma level_startCursor:
  assumes b: "window_ok (buffer ch)" "header (buffer ch) \<noteq> None"
  shows "level (buffer ch) (scPos (startCursor now ch reqPos))"
proof (cases "contents (buffer ch) = []")
  case True
  with b(1) have "\<not> HasData (buffer ch)" by (simp add: window_ok_def HasData_def contents_empty_iff)
  with True show ?thesis by (simp add: startCursor_def level_def Header_def Let_def)
next
  case False
  then have data: "HasData (buffer ch)" using b(1) by (simp add: window_ok_def HasData_def contents_empty_iff)
  then have pos: "ContentPosition (buffer ch) = end_pos (last (contents (buffer ch)))" "OldestPos (buffer ch) = Pos (hd (contents (buffer ch)))"
    using positions_of_contents [of "buffer ch"] b by (simp_all add: window_ok_def)
  moreover have "\<not> PosBefore (end_pos (last (contents (buffer ch)))) (Pos (hd (contents (buffer ch))))"
    using contiguous_end [of "hd (contents (buffer ch))" "tl (contents (buffer ch))"] b(1) False
    by (simp add: window_ok_def not_PosBefore_behind)
  ultimately show ?thesis using data False by (simp add: startCursor_def level_def Let_def)
qed

section \<open>What the pieces of the loop send\<close>

lemma stream_pkts_simps [simp]:
  "stream_pkts P [] = []" "stream_pkts P (a # as) = atom_pkts P a @ stream_pkts P as"
  "stream_pkts P (as @ bs) = stream_pkts P as @ stream_pkts P bs"
  by (simp_all add: stream_pkts_def)

lemma pieces_simps [simp]:
  "pieces P [] = []" "pieces P (p # ps) = content_chunks P p @ pieces P ps" "pieces P (ps @ qs) = pieces P ps @ pieces P qs"
  by (simp_all add: pieces_def)

lemma starts_simps [simp]:
  "starts ch [] = []" "starts ch (p # ps) = (if CanStartContent p ch then p # ps else starts ch ps)"
  by (simp_all add: starts_def)

lemma starts_append: "starts ch (ps @ qs) = (if starts ch ps = [] then starts ch qs else starts ch ps @ qs)"
  by (induction ps) auto

lemma starts_prefix: "prefix (pieces P (starts ch ps)) (pieces P (starts ch (ps @ qs)))"
  by (simp add: starts_append)

lemma starts_same_header: "header (buffer ch') = header (buffer ch) \<Longrightarrow> starts ch' ps = starts ch ps"
  by (simp add: starts_def CanStartContent_def Header_def header_bytes_def)

lemma atom_pkts_chunk:
  assumes "chan_laws P" "pktData c \<noteq> []" "pktType c = NewID4 P ''data''"
  shows "atom_pkts P (pkt_atom P cid c) = [c]"
  using assms chan_laws_atom(2,3) [OF assms(1), of "\<lparr>cpID = cid, cpBroadcastID = zeroID, cpInfo = None, cpTrack = None, cpPkt = Some c\<rparr>" c]
    chan_laws_atom(1) [OF assms(1)]
  by (simp add: atom_pkts_def chan_pkts_def pkt_atom_def case_prod_unfold)

lemma clean_chunk:
  assumes "chan_laws P" "pktData c \<noteq> []" "pktType c = NewID4 P ''data''"
  shows "clean P (pkt_atom P cid c)"
  using assms chan_laws_atom(2,3) [OF assms(1), of "\<lparr>cpID = cid, cpBroadcastID = zeroID, cpInfo = None, cpTrack = None, cpPkt = Some c\<rparr>" c]
  by (simp add: clean_def chan_pkts_def pkt_atom_def case_prod_unfold)

lemma clean_packet: "chan_laws P \<Longrightarrow> a \<in> set (map (pkt_atom P cid) (content_chunks P p)) \<Longrightarrow> clean P a"
  by (auto simp: content_chunks_def dest!: packet_chunks_pieces intro!: clean_chunk)

lemma stream_pkts_chunks:
  "chan_laws P \<Longrightarrow> \<forall>c \<in> set cs. pktData c \<noteq> [] \<and> pktType c = NewID4 P ''data'' \<Longrightarrow>
   stream_pkts P (map (pkt_atom P cid) cs) = cs"
  by (induction cs) (auto simp: atom_pkts_chunk)

lemma write_all_prefix:
  assumes "write_all ok n as = (ws, m, b)"
  shows "prefix ws as" "b \<Longrightarrow> ws = as"
proof -
  have "prefix ws as \<and> (b \<longrightarrow> ws = as)"
    using assms
  proof (induction as arbitrary: n ws m b)
    case (Cons a as)
    obtain w1 m1 b1 where w: "write_all ok (Suc n) as = (w1, m1, b1)" by (metis prod_cases3)
    show ?case using Cons.IH [OF w] Cons.prems w by (auto split: if_splits)
  qed simp
  then show "prefix ws as" "b \<Longrightarrow> ws = as" by simp_all
qed

lemma write_all_True: "write_all (\<lambda>_. True) n as = (as, n + length as, True)"
  by (induction as arbitrary: n) simp_all

lemma prefix_stream_pkts: "prefix as bs \<Longrightarrow> prefix (stream_pkts P as) (stream_pkts P bs)"
  by (auto simp: prefix_def)

lemma stream_pkts_packet: "chan_laws P \<Longrightarrow> stream_pkts P (map (pkt_atom P cid) (content_chunks P p)) = content_chunks P p"
  using stream_pkts_chunks [of P "content_chunks P p"] packet_chunks_pieces [where P = P and d = "Data p"] by (simp add: content_chunks_def)

lemma send_packets_bytes:
  assumes "chan_laws P" "send_packets P ok n ch ps cur = (cur', ws, good)"
  shows "prefix (stream_pkts P ws) (pieces P (if scWaiting cur then starts ch ps else ps))"
    and "good \<Longrightarrow> stream_pkts P ws = pieces P (if scWaiting cur then starts ch ps else ps)"
    and "good \<Longrightarrow> scWaiting cur' \<longleftrightarrow> scWaiting cur \<and> starts ch ps = []"
    and "good \<Longrightarrow> scPos cur' = (if ps = [] then scPos cur else end_pos (last ps))"
    and "\<forall>a \<in> set ws. clean P a"
  using assms(2)
proof (atomize (full), induction ps arbitrary: n cur cur' ws good)
  case (Cons p ps)
  show ?case
  proof (cases "scWaiting cur \<and> \<not> CanStartContent p ch")
    case True
    then show ?thesis using Cons.IH [of n "cur\<lparr>scPos := Pos p + of_nat (length (Data p))\<rparr>" cur' ws good] Cons.prems
      by (auto simp: end_pos_def)
  next
    case False
    obtain w1 m d1 where w: "write_all ok n (map (pkt_atom P (chID ch)) (content_chunks P p)) = (w1, m, d1)" by (metis prod_cases3)
    have cl: "\<forall>a \<in> set w1. clean P a" using set_mono_prefix [OF write_all_prefix(1) [OF w]] clean_packet [OF assms(1)] by blast
    note w1 = write_all_prefix [OF w] and pb = stream_pkts_packet [OF assms(1), of "chID ch" p]
    show ?thesis
    proof (cases d1)
      case no: False
      have "prefix (stream_pkts P w1) (content_chunks P p)" using prefix_stream_pkts [OF w1(1), of P] pb by simp
      then show ?thesis using False no w Cons.prems cl by (auto intro: prefix_prefix)
    next
      case True
      obtain c2 w2 d2 where rest: "send_packets P ok m ch ps (cur\<lparr>scWaiting := False, scPos := Pos p + of_nat (length (Data p))\<rparr>) = (c2, w2, d2)"
        by (metis prod_cases3)
      have res: "cur' = c2" "ws = w1 @ w2" "good = d2" using False True w rest Cons.prems by auto
      have "w1 = map (pkt_atom P (chID ch)) (content_chunks P p)" using w1(2) True by simp
      then have "stream_pkts P ws = content_chunks P p @ stream_pkts P w2" using pb res(2) by simp
      moreover have "(if scWaiting cur then starts ch (p # ps) else p # ps) = p # ps" using False by auto
      ultimately show ?thesis using Cons.IH [OF rest] res False cl by (auto simp: end_pos_def)
    qed
  qed
qed simp

lemma sendDataPackets_cases:
  assumes "sendDataPackets P now ok ch ps cur = (cur', ws, good)" "ps \<noteq> []"
  shows "\<exists>cur0. scWaiting cur0 = scWaiting cur \<and>
    ((ws = [sendQuit P PCPErrorSkip] \<and> \<not> good) \<or> send_packets P ok 0 ch ps cur0 = (cur', ws, good))"
proof -
  let ?cur = "if scStarted cur = 0 then cur\<lparr>scStarted := now\<rparr> else cur"
  have "(ws = [sendQuit P PCPErrorSkip] \<and> \<not> good) \<or> send_packets P ok 0 ch ps ?cur = (cur', ws, good)"
    using assms by (cases ps) (auto simp: sendDataPackets_def Let_def simp del: send_packets.simps split: if_splits)
  then show ?thesis by (intro exI [of _ ?cur]) simp
qed

text \<open>What a notification sends carries no data, unless the header changed.\<close>

lemma take_note_quiet:
  assumes laws: "chan_laws P" "atom_laws P" and n: "quiet P o'" "pending o' n" and run: "take_note P ch n o' cur = (o1, cur1, atom)"
  shows "quiet P o1" "cur1 = cur" "atom_pkts P atom = []" "clean P atom"
proof -
  have no_pkt: "chan_pkts P (BuildChanAtom P c) = []" if "cpPkt c = None" for c
    using chan_laws_atom(4) [OF laws(1) that] by (simp add: chan_pkts_def case_prod_unfold)
  have bcst: "tag_of P PCPBcst \<noteq> tag_of P PCPChan" using laws(1) by (simp add: wire_simps)
  then have wrap: "atom_pkts P (wrapBcstIfBroadcasting P sid ch a) = (if isBroadcasting ch then [] else atom_pkts P a)" for sid a
    using laws(2) by (simp add: wrapBcstIfBroadcasting_def atom_pkts_def Let_def wire_simps)
  have upd: "atom_pkts P (sendInfoUpdate P sid ch) = []" "atom_pkts P (sendTrackUpdate P sid ch) = []" for sid
    using no_pkt by (simp_all add: sendInfoUpdate_def sendTrackUpdate_def wrap) (simp_all add: atom_pkts_def)
  have cl: "clean P (sendInfoUpdate P sid ch)" "clean P (sendTrackUpdate P sid ch)" for sid
    using no_pkt bcst laws(2) by (simp_all add: clean_def sendInfoUpdate_def sendTrackUpdate_def wrapBcstIfBroadcasting_def Let_def wire_simps)
  have "quiet P o1 \<and> cur1 = cur \<and> atom_pkts P atom = [] \<and> clean P atom"
  proof (cases n)
    case NInfo
    with n run upd(1) cl(1) show ?thesis by (auto simp: take_note_def quiet_def)
  next
    case NTrack
    with n run upd(2) cl(2) show ?thesis by (auto simp: take_note_def quiet_def)
  next
    case NHeader
    with n show ?thesis by (simp add: quiet_def pending_def)
  next
    case NBcst
    then obtain a as where as: "poBcst o' = a # as" using n(2) by (cases "poBcst o'") (simp_all add: pending_def)
    with NBcst n(1) run bcst show ?thesis by (auto simp: take_note_def quiet_def atom_pkts_def clean_def)
  qed
  then show "quiet P o1" "cur1 = cur" "atom_pkts P atom = []" "clean P atom" by simp_all
qed

lemma drain_quiet:
  assumes laws: "chan_laws P" "atom_laws P"
  shows "quiet P o' \<Longrightarrow> drainNotifications P pick ok k ch o' cur = (good, o2, cur2, ws) \<Longrightarrow>
    quiet P o2 \<and> cur2 = cur \<and> stream_pkts P ws = [] \<and> (\<forall>a \<in> set ws. clean P a)"
proof (induction "backlog o'" arbitrary: k o' cur good o2 cur2 ws rule: less_induct)
  case less
  show ?case
  proof (cases "pending_notes o' = []")
    case True
    then show ?thesis using less.prems by (simp add: drainNotifications.simps)
  next
    case False
    let ?n = "choose_note (pick k) o'"
    obtain o1 cur1 atom where nt: "take_note P ch ?n o' cur = (o1, cur1, atom)" by (metis prod_cases3)
    have pend: "pending o' ?n" using choose_note_pending [OF False] .
    note q = take_note_quiet [OF laws less.prems(1) pend nt]
    have small: "backlog o1 < backlog o'" using take_note_backlog [OF pend, of P ch cur] nt by simp
    obtain g2 o3 cur3 w3 where rest: "drainNotifications P pick ok (Suc k) ch o1 cur1 = (g2, o3, cur3, w3)" by (metis prod_cases4)
    show ?thesis
      using less.prems(2) False nt rest less.hyps [OF small q(1) rest] q
      by (subst (asm) drainNotifications.simps) (auto split: if_splits)
  qed
qed

section \<open>The invariant\<close>

definition following :: "'a pcp \<Rightarrow> 'a Channel \<Rightarrow> 'a pcp_stream \<Rightarrow> Content list \<Rightarrow> Content list \<Rightarrow> 'a list \<Rightarrow> bool" where
  "following P ch s con rest out \<longleftrightarrow>
     Since (buffer ch) (scPos (psCur s)) = rest \<and> (rest = [] \<longrightarrow> level (buffer ch) (scPos (psCur s))) \<and>
     stream_pkts P out = pieces P (starts ch con) \<and> (scWaiting (psCur s) \<longleftrightarrow> starts ch con = []) \<and>
     (\<forall>sig. psPhase s = PRead sig \<longrightarrow> sig \<le> sigCh (buffer ch)) \<and>
     (\<forall>sig. psPhase s = PWait sig \<longrightarrow> sig \<le> sigCh (buffer ch) \<and> (rest \<noteq> [] \<longrightarrow> signalled (buffer ch) sig))"

definition stream_inv :: "'a pcp \<Rightarrow> 'a Channel \<Rightarrow> 'a pcp_stream \<Rightarrow> Content list \<Rightarrow> 'a list \<Rightarrow> bool" where
  "stream_inv P ch s hist out \<longleftrightarrow> window_ok (buffer ch) \<and> quiet P (psOut s) \<and> (\<forall>a \<in> set out. clean P a) \<and>
     (if psPhase s = PDone then prefix (stream_pkts P out) (pieces P (starts ch hist))
      else \<exists>con rest. hist = con @ rest \<and> following P ch s con rest out)"

lemma stream_inv_start:
  assumes "window_ok (buffer ch)" "quiet P o'" "level (buffer ch) (scPos cur)" "scWaiting cur"
  shows "stream_inv P ch \<lparr>psOut = o', psCur = cur, psPhase = PDrain\<rparr> (Since (buffer ch) (scPos cur)) []"
  using assms by (auto simp: stream_inv_def following_def intro!: exI [of _ "[]"])

lemma buffer_Channel_Write:
  "buffer (Channel_Write now d pos f ch) = write_content (buffer ch) \<lparr>Pos = pos, Data = d, ContFlags = f, Timestamp = now\<rparr>"
  by (simp add: Channel_Write_def write_content_def)

lemma stream_inv_put:
  assumes inv: "stream_inv P ch s hist out" and q: "q = \<lparr>Pos = pos, Data = d, ContFlags = f, Timestamp = now\<rparr>"
    and put: "next_ok (buffer ch) q" "length (Since (buffer ch) (scPos (psCur s))) < capacity (buffer ch)"
  shows "stream_inv P (Channel_Write now d pos f ch) s (hist @ [q]) out" (is "stream_inv P ?ch' s _ out")
proof -
  have b: "buffer ?ch' = write_content (buffer ch) q" by (simp add: buffer_Channel_Write q)
  have win: "window_ok (buffer ch)" using inv by (simp add: stream_inv_def)
  have win': "window_ok (buffer ?ch')" unfolding b by (rule window_ok_put [OF win put(1)])
  have st: "starts ?ch' ps = starts ch ps" for ps by (rule starts_same_header) (simp add: b write_content_def)
  show ?thesis
  proof (cases "psPhase s = PDone")
    case True
    with inv win' show ?thesis
      by (auto simp: stream_inv_def st intro: prefix_order.trans [OF _ starts_prefix])
  next
    case False
    then obtain con rest where c: "hist = con @ rest" "following P ch s con rest out" using inv by (auto simp: stream_inv_def)
    have "Since (buffer ?ch') (scPos (psCur s)) = rest @ [q]"
      unfolding b using by_pos.unread_put [OF win put] c(2) by (auto simp: following_def)
    then have "following P ?ch' s con (rest @ [q]) out"
      using c(2) by (auto simp: following_def st b signalled_def write_content_def)
    with False inv win' c(1) show ?thesis by (auto simp: stream_inv_def)
  qed
qed

lemma stream_inv_other:
  assumes "stream_inv P ch s hist out" "buffer ch' = buffer ch"
  shows "stream_inv P ch' s hist out"
proof -
  have "starts ch' ps = starts ch ps" for ps by (rule starts_same_header) (simp add: assms(2))
  then have "following P ch' s con rest out = following P ch s con rest out" for con rest
    using assms(2) by (simp add: following_def)
  then show ?thesis using assms starts_same_header [of ch' ch] by (simp add: stream_inv_def)
qed

lemma stream_inv_notify: "stream_inv P ch s hist out \<Longrightarrow> quiet P o' \<Longrightarrow> stream_inv P ch (s\<lparr>psOut := o'\<rparr>) hist out"
proof -
  have "following P ch (s\<lparr>psOut := o'\<rparr>) con rest out = following P ch s con rest out" for con rest
    by (simp add: following_def)
  then show "stream_inv P ch s hist out \<Longrightarrow> quiet P o' \<Longrightarrow> stream_inv P ch (s\<lparr>psOut := o'\<rparr>) hist out"
    by (simp add: stream_inv_def)
qed

text \<open>A piece that sends no data and leaves the cursor where it is.\<close>

lemma stream_inv_idle:
  assumes "stream_inv P ch s hist out" "psPhase s \<noteq> PDone" "quiet P (psOut s')" "psCur s' = psCur s" "stream_pkts P ws = []" "\<forall>a \<in> set ws. clean P a"
    and "psPhase s' \<in> {PDrain, PDone} \<or> psPhase s' = PRead (sigCh (buffer ch)) \<or> psPhase s' = psPhase s"
  shows "stream_inv P ch s' hist (out @ ws)"
proof -
  obtain con rest where c: "hist = con @ rest" "following P ch s con rest out" using assms(1,2) by (auto simp: stream_inv_def)
  then have pre: "prefix (stream_pkts P (out @ ws)) (pieces P (starts ch hist))"
    using starts_prefix [of P ch con rest] assms(5) by (simp add: following_def)
  have "following P ch s' con rest (out @ ws)" if "psPhase s' \<noteq> PDone"
    using c(2) assms(4,5,7) that by (auto simp: following_def)
  with assms(1,3,6) c(1) pre show ?thesis by (auto simp: stream_inv_def)
qed

lemma stream_inv_drain:
  assumes "chan_laws P" "atom_laws P" "stream_inv P ch s hist out" "psPhase s = PDrain" "drain_piece P E ch s = (s', ws)"
  shows "stream_inv P ch s' hist (out @ ws)"
proof -
  obtain good o' cur where d: "drainNotifications P (sePick E) (seOk E) 0 ch (psOut s) (psCur s) = (good, o', cur, ws)"
    and s': "s' = \<lparr>psOut = o', psCur = cur, psPhase = (if good then PRead (Signal (buffer ch)) else PDone)\<rparr>"
    using assms(5) by (auto simp: drain_piece_def split: prod.splits)
  have "quiet P (psOut s)" using assms(3) by (simp add: stream_inv_def)
  from drain_quiet [OF assms(1,2) this d] show ?thesis
    using assms(4) s' by (intro stream_inv_idle [OF assms(3)]) (auto simp: Signal_def)
qed

lemma stream_inv_wait:
  assumes "chan_laws P" "atom_laws P" "stream_inv P ch s hist out" "psPhase s = PWait sig" "wait_piece P E sig ch s = (s', ws)"
    "seWake E \<noteq> WakeClose"
  shows "stream_inv P ch s' hist (out @ ws)"
proof (cases "seWake E")
  case WakeSignal
  then show ?thesis using assms by (intro stream_inv_idle [OF assms(3)]) (auto simp: wait_piece_def stream_inv_def split: if_splits)
next
  case (WakeNote n)
  obtain o1 cur1 atom where nt: "take_note P ch n (psOut s) (psCur s) = (o1, cur1, atom)" by (metis prod_cases3)
  have q: "quiet P (psOut s)" using assms(3) by (simp add: stream_inv_def)
  show ?thesis
  proof (cases "pending (psOut s) n")
    case True
    from take_note_quiet [OF assms(1,2) q True nt] show ?thesis
      using assms(4,5) WakeNote True nt by (intro stream_inv_idle [OF assms(3)]) (auto simp: wait_piece_def split: if_splits)
  next
    case False
    then show ?thesis using assms(4,5) WakeNote q by (intro stream_inv_idle [OF assms(3)]) (auto simp: wait_piece_def)
  qed
qed (use assms(6) in simp)

lemma stream_inv_read:
  assumes laws: "chan_laws P" "atom_laws P" and inv: "stream_inv P ch s hist out" and ph: "psPhase s = PRead sig"
    and run: "read_piece P E sig ch s = (s', ws)"
  shows "stream_inv P ch s' hist (out @ ws)"
proof -
  let ?ps = "Since (buffer ch) (scPos (psCur s))"
  obtain con where c: "hist = con @ ?ps" "following P ch s con ?ps out" using inv ph by (auto simp: stream_inv_def following_def)
  have win: "window_ok (buffer ch)" "quiet P (psOut s)" "\<not> pending (psOut s) NHeader" "\<forall>a \<in> set out. clean P a"
    using inv by (auto simp: stream_inv_def quiet_def pending_def)
  show ?thesis
  proof (cases "?ps = []")
    case True
    then have "s' = s\<lparr>psPhase := PWait sig\<rparr>" "ws = []" using run by (simp_all add: read_piece_def)
    moreover have "following P ch (s\<lparr>psPhase := PWait sig\<rparr>) con ?ps out" using c(2) ph True by (auto simp: following_def)
    ultimately show ?thesis using win c(1) by (auto simp: stream_inv_def)
  next
    case False
    obtain cur good where sd: "sendDataPackets P (seNow E) (seOk E) ch ?ps (psCur s) = (cur, ws, good)"
      and s': "s' = s\<lparr>psCur := cur, psPhase := (if good then PDrain else PDone)\<rparr>"
      using run False win(3) by (auto simp: read_piece_def Let_def split: prod.splits)
    have total: "pieces P (starts ch con) @ pieces P (if scWaiting (psCur s) then starts ch ?ps else ?ps) = pieces P (starts ch hist)"
      using c by (auto simp: following_def starts_append)
    obtain cur0 where w0: "scWaiting cur0 = scWaiting (psCur s)" and
      cases: "(ws = [sendQuit P PCPErrorSkip] \<and> \<not> good) \<or> send_packets P (seOk E) 0 ch ?ps cur0 = (cur, ws, good)"
      using sendDataPackets_cases [OF sd False] by blast
    from cases show ?thesis
    proof
      assume a: "ws = [sendQuit P PCPErrorSkip] \<and> \<not> good"
      have "tag_of P PCPQuit \<noteq> tag_of P PCPChan" using laws(1) by (simp add: wire_simps)
      then have "atom_pkts P (sendQuit P PCPErrorSkip) = []" using laws(2) by (simp add: sendQuit_def atom_pkts_def wire_simps)
      moreover have "clean P (sendQuit P PCPErrorSkip)"
        using \<open>tag_of P PCPQuit \<noteq> tag_of P PCPChan\<close> laws(2) by (simp add: sendQuit_def clean_def wire_simps)
      ultimately show ?thesis using a s' win c starts_prefix [of P ch con ?ps] by (simp add: stream_inv_def following_def)
    next
      assume sp: "send_packets P (seOk E) 0 ch ?ps cur0 = (cur, ws, good)"
      note sent = send_packets_bytes [OF laws(1) sp]
      show ?thesis
      proof (cases good)
        case no: False
        have "stream_pkts P out = pieces P (starts ch con)" using c(2) by (simp add: following_def)
        then have "prefix (stream_pkts P (out @ ws)) (pieces P (starts ch hist))"
          using sent(1) w0 unfolding total [symmetric] by simp
        then show ?thesis using no s' win sent(5) by (auto simp: stream_inv_def)
      next
        case True
        have last: "last ?ps = last (contents (buffer ch))" "contents (buffer ch) \<noteq> []" using by_pos.last_unread [OF False] by simp_all
        have "following P ch s' hist [] (out @ ws)"
          using sent(2-4) [OF True] True False s' w0 c total last by_pos.unread_mark [OF win(1)]
          by (auto simp: following_def level_def starts_append)
        then show ?thesis using True s' win sent(5) by (auto simp: stream_inv_def)
      qed
    qed
  qed
qed

lemma stream_inv_prefix: "stream_inv P ch s hist out \<Longrightarrow> prefix (stream_pkts P out) (pieces P (starts ch hist))"
  using starts_prefix by (fastforce simp: stream_inv_def following_def split: if_splits)

lemma stream_run_inv:
  assumes "chan_laws P" "atom_laws P"
  shows "stream_run P ch s hist out \<Longrightarrow> stream_inv P ch s hist out"
proof (induction rule: stream_run.induct)
  case (start ch o' cur now reqPos)
  then show ?case
    by (intro stream_inv_start) (auto simp: level_startCursor, auto simp: startCursor_def Let_def)
next
  case (new_header ch o' k cur cur0)
  have "level (buffer ch) (headerPos (buffer ch))"
  proof (cases "contents (buffer ch)")
    case (Cons p ps)
    have "contiguous (p # ps)" using new_header(1) Cons by (simp add: window_ok_def)
    from contiguous_end [OF this] new_header(3) Cons
    have "end_pos (last (contents (buffer ch))) = headerPos (buffer ch) + of_nat (k + total_bytes (p # ps))" by simp
    then show ?thesis using new_header(3) Cons not_PosBefore_behind [of "k + total_bytes (p # ps)"] by (simp add: level_def)
  qed (simp add: level_def)
  then show ?case using new_header by (intro stream_inv_start) (auto simp: sendHeaderUpdate_def Header_def)
next
  case (step ch s hist out E s' ws)
  show ?case
  proof (cases "psPhase s")
    case PDone
    with step show ?thesis by (simp add: streamLoop_step_def)
  qed (use step stream_inv_drain [OF assms] stream_inv_read [OF assms] stream_inv_wait [OF assms] in \<open>auto simp: streamLoop_step_def\<close>)
qed (auto intro: stream_inv_put stream_inv_other stream_inv_notify)

section \<open>Properties\<close>


definition demo_source :: "wire_atom Channel" where
  "demo_source = fst (Channel_SetHeader [70] 0 (New 5 zeroID zeroID 0))"

definition demo_packet :: Content where
  "demo_packet = \<lparr>Pos = 1, Data = [1, 2, 3], ContFlags = 0, Timestamp = 6\<rparr>"

definition hop_relay :: "wire_atom pcp_stream" where
  "hop_relay = \<lparr>psOut = demo_output, psCur = startCursor 5 demo_source 0, psPhase = PDrain\<rparr>"

definition hop_env :: stream_env where
  "hop_env = \<lparr>seNow = 7, sePick = (\<lambda>_. 0), seOk = (\<lambda>_. True), seWake = WakeSignal,
     seHost = \<lparr>heNow = 7, heOrder = [], heCheck = (False, False), heNetwork = None, heRnd = (\<lambda>_. 0)\<rparr>\<rparr>"

definition demo_sent :: "wire_atom list" where
  "demo_sent = [pkt_atom wire_pcp zeroID \<lparr>pktType = pad4 ''data'', pktPos = 1, pktData = [1, 2, 3], pktContinuation = 0\<rparr>]"

lemma demo_source_facts:
  shows "contents (buffer demo_source) = []" "header (buffer demo_source) = Some [70]" "headerPos (buffer demo_source) = 0"
    "capacity (buffer demo_source) = 64" "buf_inv (buffer demo_source)" "\<not> HasData (buffer demo_source)"
    by (simp_all add: demo_source_def Channel_SetHeader_def New_def SetHeader_def NewContentBuffer_def contents_def capacity_def
        buf_inv_def Let_def header_bytes_def HasData_def DefaultContentBufferSize_def)

lemma demo_run:
  "\<exists>s. stream_run wire_pcp (Channel_Write 6 [1, 2, 3] 1 0 demo_source) s [demo_packet] demo_sent \<and> psPhase s = PDrain \<and>
     Since (buffer (Channel_Write 6 [1, 2, 3] 1 0 demo_source)) (scPos (psCur s)) = []"
proof -
  let ?ch = "Channel_Write 6 [1, 2, 3] 1 0 demo_source"
  note empty = demo_source_facts
  have q: "quiet wire_pcp demo_output" by (simp add: quiet_def demo_output_def newPCPOutputStream_def newOutputBase_def)
  have cur: "scPos (startCursor 5 demo_source 0) = 0" using empty by (simp add: startCursor_def Let_def Header_def)
  have s0: "Since (buffer demo_source) 0 = []" using empty by (simp add: Since_contents)
  have "stream_run wire_pcp demo_source hop_relay [] []"
    using stream_run.start [of demo_source wire_pcp demo_output "startCursor 5 demo_source 0" 5 0] empty q cur s0
    by (simp add: hop_relay_def window_ok_def)
  then have run: "stream_run wire_pcp ?ch hop_relay [demo_packet] []"
    using stream_run.put [of wire_pcp demo_source hop_relay "[]" "[]" demo_packet 1 "[1, 2, 3]" 0 6] empty cur s0
    by (simp add: hop_relay_def demo_packet_def PosBefore_def next_ok_def)
  obtain s1 w1 where d1: "streamLoop_step wire_pcp hop_env ?ch hop_relay = (s1, w1)" by fastforce
  obtain s2 w2 where d2: "streamLoop_step wire_pcp hop_env ?ch s1 = (s2, w2)" by fastforce
  have run2: "stream_run wire_pcp ?ch s2 [demo_packet] (w1 @ w2)"
    using stream_run.step [OF stream_run.step [OF run d1] d2] by (simp add: hop_env_def)
  have c1: "contents (buffer ?ch) = [demo_packet]"
    using contents_Write [OF empty(5)] empty by (simp add: Channel_Write_def demo_packet_def take_last_def)
  have pend: "pending_notes demo_output = []" "\<not> pending demo_output NHeader"
    by (simp_all add: pending_notes_def pending_def demo_output_def newPCPOutputStream_def newOutputBase_def)
  have chunk: "content_chunks wire_pcp demo_packet = [\<lparr>pktType = pad4 ''data'', pktPos = 1, pktData = [1, 2, 3], pktContinuation = 0\<rparr>]"
    by (simp add: content_chunks_def demo_packet_def packet_chunks_step maxContentBodyLen_def wire_sel)
  have "s1 = \<lparr>psOut = demo_output, psCur = startCursor 5 demo_source 0, psPhase = PRead (Signal (buffer ?ch))\<rparr>" "w1 = []"
    using d1 pend by (simp_all add: streamLoop_step_def hop_relay_def drain_piece_def drainNotifications.simps)
  then have "psPhase s2 = PDrain" "scPos (psCur s2) = 4" "w2 = map (pkt_atom wire_pcp (chID ?ch)) (content_chunks wire_pcp demo_packet)"
    using d2 pend cur c1
    by (auto simp: streamLoop_step_def read_piece_def Since_contents PosBefore_def demo_packet_def sendDataPackets_def Let_def
        hop_env_def write_all_True outputQueueTimeout_def CanStartContent_def split: if_splits)
  moreover have "chID ?ch = zeroID" by (simp add: Channel_Write_def demo_source_def Channel_SetHeader_def New_def split: prod.splits)
  ultimately show ?thesis
    using run2 c1 \<open>w1 = []\<close> chunk
    by (intro exI [of _ s2]) (simp add: Since_contents demo_packet_def PosBefore_def demo_sent_def)
qed


section \<open>One relay hop\<close>

text \<open>The packets offered to the output are contiguous, and the buffer ends with the last of them.\<close>

lemma Since_window:
  assumes "window_ok b"
  shows "contiguous (Since b pos)" "p \<in> set (Since b pos) \<Longrightarrow> Data p \<noteq> []"
proof -
  obtain pre where "contents b = pre @ Since b pos" by (rule by_pos.unread_split)
  then show "contiguous (Since b pos)" "p \<in> set (Since b pos) \<Longrightarrow> Data p \<noteq> []"
    using assms unfolding window_ok_def by (metis contiguous_suffix, metis Un_iff set_append)
qed

lemma stream_run_hist:
  "stream_run P ch s hist out \<Longrightarrow>
     window_ok (buffer ch) \<and> contiguous hist \<and> (\<forall>p \<in> set hist. Data p \<noteq> []) \<and>
     (hist \<noteq> [] \<longrightarrow> contents (buffer ch) \<noteq> [] \<and> last hist = last (contents (buffer ch)))"
proof (induction rule: stream_run.induct)
  case (put ch s hist out q pos d f now)
  have b: "buffer (Channel_Write now d pos f ch) = write_content (buffer ch) q" by (simp add: buffer_Channel_Write put(2))
  have "contiguous (hist @ [q])" using put by (cases "hist = []") (auto simp: contiguous_append next_ok_def)
  moreover have "contents (write_content (buffer ch) q) \<noteq> []" "last (contents (write_content (buffer ch) q)) = q"
    using contents_put_last [of "buffer ch" q] put.IH by (simp_all add: window_ok_def)
  ultimately show ?case using put window_ok_put [of "buffer ch" q] unfolding b by (auto simp: next_ok_def)
qed (auto simp: Since_window by_pos.last_unread)

lemma contiguous_cong:
  "map (\<lambda>p. (Pos p, Data p)) xs = map (\<lambda>p. (Pos p, Data p)) ys \<Longrightarrow> contiguous xs = contiguous ys"
proof (induction xs arbitrary: ys rule: contiguous.induct)
  case (1 p q ps)
  then obtain p' q' ps' where "ys = p' # q' # ps'" by (auto simp: Cons_eq_map_conv)
  with 1(1) [of "q' # ps'"] 1(2) show ?case by (simp add: end_pos_def)
qed (auto simp: Cons_eq_map_conv)

lemma pieces_contiguous:
  "contiguous ps \<Longrightarrow> \<forall>p \<in> set ps. Data p \<noteq> [] \<Longrightarrow>
   contiguous (map (pkt_content t) (pieces P ps)) \<and> (ps \<noteq> [] \<longrightarrow> pieces P ps \<noteq> [] \<and> pktPos (hd (pieces P ps)) = Pos (hd ps))"
proof (induction ps)
  case (Cons p ps)
  have d: "Data p \<noteq> []" using Cons.prems by simp
  have hd: "content_chunks P p \<noteq> []" "pktPos (hd (content_chunks P p)) = Pos p"
    using packet_chunks_hd [OF d, of P "Pos p" "ContFlags p" "ContFlags p"] by (simp_all add: content_chunks_def)
  have lst: "end_pos (last (map (pkt_content t) (content_chunks P p))) = end_pos p"
    using packet_chunks_end [OF d] by (simp add: content_chunks_def end_pos_def)
  have cc: "contiguous (map (pkt_content t) (content_chunks P p))"
    unfolding content_chunks_def by (rule packet_chunks_contiguous)
  show ?case
  proof (cases ps)
    case Nil
    then show ?thesis using hd cc by simp
  next
    case (Cons q qs)
    have IH: "contiguous (map (pkt_content t) (pieces P ps))" "pieces P ps \<noteq> []" "pktPos (hd (pieces P ps)) = Pos q"
      using Cons.IH Cons.prems \<open>ps = q # qs\<close> by auto
    have "Pos (hd (map (pkt_content t) (pieces P ps))) = Pos q" using IH by (simp add: hd_map)
    then have "contiguous (map (pkt_content t) (content_chunks P p) @ map (pkt_content t) (pieces P ps))"
      unfolding contiguous_append using cc IH lst Cons.prems(1) \<open>ps = q # qs\<close> by simp
    then show ?thesis using hd by simp
  qed
qed simp

lemma pieces_data: "concat (map pktData (pieces P ps)) = concat (map Data ps)"
  by (induction ps) (simp_all add: content_chunks_def packet_chunks_data)

text \<open>What the downstream node writes into its buffer.\<close>

definition relayed :: "'a pcp \<Rightarrow> (time \<times> 'a) list \<Rightarrow> Content list" where
  "relayed P rs = concat (map (\<lambda>(now, a). map (pkt_content now) (atom_pkts P a)) rs)"

lemma relayed_pkts: "map (\<lambda>p. (Pos p, Data p, ContFlags p)) (relayed P rs)
    = map (\<lambda>p. (pktPos p, pktData p, pktContinuation p)) (stream_pkts P (map snd rs))"
  by (induction rs) (auto simp: relayed_def)

lemma apply_data:
  "chan_laws P \<Longrightarrow> \<forall>p \<in> set ps. pktType p = NewID4 P ''data'' \<and> pktData p \<noteq> [] \<Longrightarrow>
   foldl (apply_pkt P now) b ps = foldl write_content b (map (pkt_content now) ps)"
  by (induction ps arbitrary: b) (auto simp: apply_pkt_def write_content_def wire_simps)

lemma relayed_buffer:
  assumes "chan_laws P"
  shows "\<forall>a \<in> set (map snd rs). clean P a \<and> (Tag P a \<noteq> tag_of P PCPChan \<longrightarrow> body_pkts P sid cid a = []) \<Longrightarrow>
    foldl (\<lambda>b (now, atom). foldl (apply_pkt P now) b (body_pkts P sid cid atom)) b rs = foldl write_content b (relayed P rs)"
proof (induction rs arbitrary: b)
  case (Cons x rs)
  obtain now a where x: "x = (now, a)" by fastforce
  have "body_pkts P sid cid a = atom_pkts P a \<and> (\<forall>p \<in> set (atom_pkts P a). pktType p = NewID4 P ''data'' \<and> pktData p \<noteq> [])"
    using Cons.prems x by (auto simp: clean_def body_pkts_def atom_pkts_def)
  then have "foldl (apply_pkt P now) b (body_pkts P sid cid a) = foldl write_content b (map (pkt_content now) (atom_pkts P a))"
    using apply_data [OF assms] by auto
  then show ?case using Cons x by (simp add: relayed_def)
qed (simp add: relayed_def)

text \<open>
  C1.  One relay hop is transparent.  A downstream node that receives the atoms a relay output has
  sent (all of them or a beginning, at whatever times, the broadcasts among them carrying no packets)
  appends to its own buffer exactly the packets in them, with their positions and flags; these
  hold the upstream's bytes from the first startable packet on, in order, with no gap between two of
  them.
\<close>

theorem relay_hop_transparent:
  assumes up: "stream_run P ch s hist out" and laws: "chan_laws P" "atom_laws P"
    and down: "processBody P events c = (r, c', es)" "\<not> rcCancelled c" "buf_inv (buffer (rcCh c))"
    and recv: "prefix (map snd (received P events)) out"
    and bcst: "\<forall>a \<in> set out. Tag P a \<noteq> tag_of P PCPChan \<longrightarrow> body_pkts P (rcSessionID c) (rcChannelID c) a = []"
  shows "\<exists>ps. contents (buffer (rcCh c')) = take_last (capacity (buffer (rcCh c))) (contents (buffer (rcCh c)) @ ps) \<and>
    map (\<lambda>p. (Pos p, Data p, ContFlags p)) ps =
      map (\<lambda>p. (pktPos p, pktData p, pktContinuation p)) (stream_pkts P (map snd (received P events))) \<and>
    contiguous ps \<and> prefix (concat (map Data ps)) (concat (map Data (starts ch hist))) \<and>
    (ps \<noteq> [] \<longrightarrow> Pos (hd ps) = Pos (hd (starts ch hist)))"
proof (intro exI conjI)
  let ?rs = "received P events" and ?st = "starts ch hist"
  let ?ps = "relayed P ?rs"
  note inv = stream_run_inv [OF laws up] and hist = stream_run_hist [OF up]
  obtain more' where out: "out = map snd ?rs @ more'" using recv by (auto simp: prefix_def)
  have "prefix (stream_pkts P out) (pieces P ?st)"
    by (rule stream_inv_prefix [OF inv])
  then obtain pz where pz: "pieces P ?st = stream_pkts P (map snd ?rs) @ pz" using out by (auto simp: prefix_def)
  have st: "contiguous ?st" "\<forall>p \<in> set ?st. Data p \<noteq> []"
    using hist unfolding starts_def by (metis append_take_drop_id contiguous_suffix dropWhile_eq_drop, auto dest: set_dropWhileD)
  have same: "map (\<lambda>p. (Pos p, Data p)) ?ps = map (\<lambda>p. (Pos p, Data p)) (map (pkt_content 0) (stream_pkts P (map snd ?rs)))"
    using relayed_pkts [of P ?rs] by (auto simp: list_eq_iff_nth_eq)
  show "map (\<lambda>p. (Pos p, Data p, ContFlags p)) ?ps =
      map (\<lambda>p. (pktPos p, pktData p, pktContinuation p)) (stream_pkts P (map snd ?rs))" by (rule relayed_pkts)
  show "contiguous ?ps"
    using pieces_contiguous [OF st, of 0 P] pz contiguous_cong [OF same] by (simp add: contiguous_append)
  have "map Data ?ps = map pktData (stream_pkts P (map snd ?rs))"
    using arg_cong [OF same, of "map snd"] by (simp add: comp_def)
  then have "concat (map Data ?ps) @ concat (map pktData pz) = concat (map Data ?st)"
    using pieces_data [of P ?st] pz by simp
  then show "prefix (concat (map Data ?ps)) (concat (map Data ?st))" by (metis prefixI)
  have "hd (pieces P ?st) = hd (stream_pkts P (map snd ?rs))" if "stream_pkts P (map snd ?rs) \<noteq> []" using pz that by simp
  then show "?ps \<noteq> [] \<longrightarrow> Pos (hd ?ps) = Pos (hd ?st)"
    using same pieces_contiguous [OF st, of 0 P] pz
    by (cases ?ps; cases "stream_pkts P (map snd ?rs)"; cases "?st = []") auto
  have "\<forall>a \<in> set (map snd ?rs). clean P a \<and> (Tag P a \<noteq> tag_of P PCPChan \<longrightarrow> body_pkts P (rcSessionID c) (rcChannelID c) a = [])"
    using inv bcst out by (simp add: stream_inv_def)
  from relayed_buffer [OF laws(1) this, of "buffer (rcCh c)"] processBody_buffer [OF down(2), of P events] down(1)
  have "buffer (rcCh c') = foldl write_content (buffer (rcCh c)) ?ps" by simp
  then show "contents (buffer (rcCh c')) = take_last (capacity (buffer (rcCh c))) (contents (buffer (rcCh c)) @ ?ps)"
    using ringbuf.window_writes [OF down(3)] by simp
qed

theorem relay_hop_transparent_witness:
  "concat (map Data (contents (buffer (rcCh (fst (snd (processBody wire_pcp (map (Recv 8) demo_sent) demo_client))))))) = [1, 2, 3]"
proof -
  obtain s where run: "stream_run wire_pcp (Channel_Write 6 [1, 2, 3] 1 0 demo_source) s [demo_packet] demo_sent"
    using demo_run by blast
  obtain r c' es where down: "processBody wire_pcp (map (Recv 8) demo_sent) demo_client = (r, c', es)" by (metis prod_cases3)
  have b: "contents (buffer (rcCh demo_client)) = []" "capacity (buffer (rcCh demo_client)) = 64" "buf_inv (buffer (rcCh demo_client))"
    "\<not> rcCancelled demo_client"
    by (simp_all add: demo_client_def NewClient_def demo_chan_def AddOutput_def New_def demo_out_def)
  have pkts: "stream_pkts wire_pcp demo_sent = [\<lparr>pktType = pad4 ''data'', pktPos = 1, pktData = [1, 2, 3], pktContinuation = 0\<rparr>]"
    by (simp add: demo_sent_def atom_pkts_chunk wire_sel)
  have tag: "Tag wire_pcp a = tag_of wire_pcp PCPChan" if "a \<in> set demo_sent" for a
    using that by (simp add: demo_sent_def pkt_atom_def wire_simps)
  have rcv: "map snd (received wire_pcp (map (Recv 8) demo_sent)) = demo_sent"
    using tag by (simp add: demo_sent_def wire_simps)
  from relay_hop_transparent [OF run _ _ down b(4,3)] tag rcv b pkts
  obtain ps where "contents (buffer (rcCh c')) = take_last 64 ps" "map (\<lambda>p. (Pos p, Data p, ContFlags p)) ps = [(1, [1, 2, 3], 0)]"
    by auto
  then show ?thesis using down by (auto simp: take_last_def)
qed

end
