(* ===== verification/Flv.thy ===== *)
theory Flv
  imports Go_Net
begin

text \<open>
  The stateless parts of \<^verbatim>\<open>internal/rtmp\<close>: FLV tags (\<^verbatim>\<open>server.go\<close>) and the limiter of publish
  attempts (\<^verbatim>\<open>publish_limiter.go\<close>).

  The reference for the tags is \<open>flv_tags\<close>, a reader of the FLV container format that checks
  every length and back pointer.  The limiter's counters are related to the attempts admitted
  in an interval of any number of minutes.
\<close>

unbundle bit_operations_syntax

section \<open>FLV tags\<close>

definition makeFLVTag :: "byte \<Rightarrow> u32 \<Rightarrow> byte list \<Rightarrow> byte list" where
  "makeFLVTag tagType timestamp body =
     (let dataSize = length body in
      [tagType, of_nat (dataSize div 2 ^ 16), of_nat (dataSize div 2 ^ 8), of_nat dataSize,
       ucast (drop_bit 16 timestamp), ucast (drop_bit 8 timestamp), ucast timestamp,
       ucast (drop_bit 24 timestamp), 0, 0, 0] @ body)"

text \<open>\<^verbatim>\<open>binary.BigEndian.PutUint32\<close>.\<close>

definition PutUint32 :: "u32 \<Rightarrow> byte list" where
  "PutUint32 v = [ucast (drop_bit 24 v), ucast (drop_bit 16 v), ucast (drop_bit 8 v), ucast v]"

definition appendFLVTagWithBackPointer :: "byte list \<Rightarrow> byte list \<Rightarrow> byte list" where
  "appendFLVTagWithBackPointer buf tag = buf @ tag @ PutUint32 (of_nat (length tag))"

definition isMediaTag :: "byte list \<Rightarrow> bool" where
  "isMediaTag tag =
     (if length tag < 13 then False
      else if tag ! 0 = 9 then tag ! 11 AND 0x0F \<noteq> 7 \<or> (tag ! 12 = 1 \<and> length tag > 16)
      else if tag ! 0 = 8 then drop_bit 4 (tag ! 11) \<noteq> 10 \<or> (tag ! 12 = 1 \<and> length tag > 13)
      else False)"

section \<open>Reading the container format\<close>

definition be_nat :: "byte list \<Rightarrow> nat" where
  "be_nat bs = foldl (\<lambda>a b. a * 256 + unat b) 0 bs"

type_synonym flv_frame = "byte \<times> u32 \<times> byte list"

function flv_tags :: "byte list \<Rightarrow> flv_frame list option" where
  "flv_tags bs =
     (if bs = [] then Some []
      else if length bs < 15 then None
      else
        let n = be_nat (take 3 (drop 1 bs));
            ts = be_nat (bs ! 7 # take 3 (drop 4 bs))
        in if length bs < 15 + n \<or> be_nat (take 4 (drop (11 + n) bs)) \<noteq> 11 + n then None
           else map_option ((#) (bs ! 0, of_nat ts, take n (drop 11 bs))) (flv_tags (drop (15 + n) bs)))"
  by pat_completeness auto
termination
  by (relation "measure length") auto

declare flv_tags.simps [simp del]

definition frame_bytes :: "flv_frame \<Rightarrow> byte list" where
  "frame_bytes f = (case f of (ty, ts, body) \<Rightarrow> appendFLVTagWithBackPointer [] (makeFLVTag ty ts body))"

text \<open>The length of an RTMP message, and of an FLV body, is a 24-bit field.\<close>

definition frame_ok :: "flv_frame \<Rightarrow> bool" where
  "frame_ok f \<longleftrightarrow> length (snd (snd f)) < 2 ^ 24"

lemma unat_drop_bit_u32: "unat (drop_bit k (w :: u32)) = unat w div 2 ^ k"
  by (metis unsigned_drop_bit_eq drop_bit_eq_div take_bit_length_eq unsigned_take_bit_eq)

lemma unat_byte_of_u32: "unat (ucast (w :: u32) :: byte) = unat w mod 256"
  by (simp only: unsigned_ucast_eq take_bit_eq_mod) simp

lemma unat_byte_of_nat: "unat (of_nat n :: byte) = n mod 256"
  by (simp add: unat_of_nat)

lemmas byte_reads = unat_byte_of_u32 unat_drop_bit_u32 unat_byte_of_nat

lemma div_256_steps: "n div 65536 = n div 256 div 256" "n div 16777216 = n div 256 div 256 div (256 :: nat)"
  by (simp_all flip: div_mult2_eq)

lemma be_nat_3: "n < 2 ^ 24 \<Longrightarrow> (n div 65536 mod 256 * 256 + n div 256 mod 256) * 256 + n mod 256 = (n :: nat)"
  unfolding div_256_steps by (simp add: less_mult_imp_div_less)

lemma be_nat_4:
  "n < 2 ^ 32 \<Longrightarrow> ((n div 16777216 mod 256 * 256 + n div 65536 mod 256) * 256 + n div 256 mod 256) * 256 + n mod 256 = (n :: nat)"
  unfolding div_256_steps by (simp add: less_mult_imp_div_less)

lemma be_nat_PutUint32: "be_nat (PutUint32 v) = unat v"
  using be_nat_4 [of "unat v"] unsigned_less [of v, where ?'a = nat]
  unfolding be_nat_def PutUint32_def by (simp only: foldl.simps byte_reads) simp

lemma length_makeFLVTag [simp]: "length (makeFLVTag ty ts body) = 11 + length body"
  by (simp add: makeFLVTag_def Let_def)

lemma length_PutUint32 [simp]: "length (PutUint32 v) = 4"
  by (simp add: PutUint32_def)

lemma length_frame_bytes [simp]: "length (frame_bytes (ty, ts, body)) = 15 + length body"
  by (simp add: frame_bytes_def appendFLVTagWithBackPointer_def)

lemma be_nat_back_pointer: "n < 2 ^ 24 \<Longrightarrow> be_nat (PutUint32 (of_nat (11 + n))) = 11 + n"
  unfolding be_nat_PutUint32 by (subst unat_of_nat) simp

lemma be_nat_size:
  "n < 2 ^ 24 \<Longrightarrow> be_nat [of_nat (n div 2 ^ 16), of_nat (n div 2 ^ 8), of_nat n] = n"
  using be_nat_3 [of n] by (simp add: be_nat_def byte_reads algebra_simps)

lemma be_nat_timestamp:
  "be_nat [ucast (drop_bit 24 ts), ucast (drop_bit 16 ts), ucast (drop_bit 8 ts), ucast (ts :: u32)] = unat ts"
  using be_nat_PutUint32 [of ts] by (simp add: PutUint32_def)

lemma flv_tags_frame:
  assumes "frame_ok f"
  shows "flv_tags (frame_bytes f @ rest) = map_option ((#) f) (flv_tags rest)"
proof -
  obtain ty ts body where f: "f = (ty, ts, body)" by (cases f) auto
  let ?n = "length body" and ?bs = "frame_bytes f @ rest"
  have n: "?n < 2 ^ 24" using assms f by (simp add: frame_ok_def)
  obtain pre where pre: "pre = [ty, of_nat (?n div 2 ^ 16), of_nat (?n div 2 ^ 8), of_nat ?n,
       ucast (drop_bit 16 ts), ucast (drop_bit 8 ts), ucast ts, ucast (drop_bit 24 ts), 0, 0, 0]" by blast
  have bs: "?bs = pre @ body @ PutUint32 (of_nat (11 + ?n)) @ rest"
    by (simp add: pre f frame_bytes_def appendFLVTagWithBackPointer_def makeFLVTag_def Let_def)
  have len: "length pre = 11" by (simp add: pre)
  have size: "be_nat (take 3 (drop 1 ?bs)) = ?n" using be_nat_size [OF n] unfolding bs pre by simp
  have time: "be_nat (?bs ! 7 # take 3 (drop 4 ?bs)) = unat ts"
    using be_nat_timestamp [of ts] unfolding bs pre by (simp add: nth_Cons')
  have tail: "take 4 (drop (11 + ?n) ?bs) = PutUint32 (of_nat (11 + ?n))"
    "drop (15 + ?n) ?bs = rest" "take ?n (drop 11 ?bs) = body" "?bs ! 0 = ty" "length ?bs = 15 + ?n + length rest"
    unfolding bs by (simp_all add: len nth_append, simp add: pre)
  have "?bs \<noteq> []" using tail(5) by (metis length_greater_0_conv add_gr_0 zero_less_numeral)
  then show ?thesis
    unfolding flv_tags.simps [of ?bs] Let_def size time tail be_nat_back_pointer [OF n]
    by (auto simp: f)
qed

text \<open>
  A stream of tags written by \<^verbatim>\<open>makeFLVTag\<close> and \<^verbatim>\<open>appendFLVTagWithBackPointer\<close> is a valid FLV
  body: a reader that follows the size fields and checks each back pointer recovers every frame's
  type, its full 32-bit timestamp and its payload, in order, whatever the payloads contain.
\<close>

theorem flv_stream_roundtrip:
  assumes "\<forall>f \<in> set frames. frame_ok f"
  shows "flv_tags (concat (map (\<lambda>(ty, ts, body). appendFLVTagWithBackPointer [] (makeFLVTag ty ts body)) frames)) = Some frames"
proof -
  have "flv_tags (concat (map frame_bytes frames)) = Some frames"
    using assms by (induction frames) (simp_all add: flv_tags_frame, simp add: flv_tags.simps)
  moreover have "frame_bytes = (\<lambda>(ty, ts, body). appendFLVTagWithBackPointer [] (makeFLVTag ty ts body))"
    by (simp add: fun_eq_iff frame_bytes_def)
  ultimately show ?thesis by simp
qed

theorem flv_stream_roundtrip_witness:
  "flv_tags (appendFLVTagWithBackPointer [] (makeFLVTag 9 0x01020304 [0x17, 1])) = Some [(9, 0x01020304, [0x17, 1])]"
  using flv_stream_roundtrip [of "[(9, 0x01020304, [0x17, 1])]"] by (simp add: frame_ok_def)

section \<open>The limiter of publish attempts\<close>

definition isShortStreamKey :: "string \<Rightarrow> bool" where
  "isShortStreamKey key \<longleftrightarrow>
     length key = 6 \<and>
     (\<forall>c \<in> set (take 2 key). char_code CHR ''a'' \<le> char_code c \<and> char_code c \<le> char_code CHR ''z'') \<and>
     (\<forall>c \<in> set (drop 2 key). char_code CHR ''0'' \<le> char_code c \<and> char_code c \<le> char_code CHR ''9'')"

text \<open>
  The nil map of a new limiter reads as the empty map; it is replaced before the first write,
  because the zero time is not after any clock reading.
\<close>

record publishLimiter =
  limUntil :: time
  limTotal :: int
  limByIP :: "string \<rightharpoonup> int"

definition newPublishLimiter :: publishLimiter where
  "newPublishLimiter = \<lparr>limUntil = 0, limTotal = 0, limByIP = Map.empty\<rparr>"

definition limiter_host :: "string \<Rightarrow> string" where
  "limiter_host remote =
     (let host = (case SplitHostPort remote of None \<Rightarrow> remote | Some hp \<Rightarrow> fst hp);
          p = ParseIP host
      in if p \<noteq> [] then ip_string p else host)"

definition by_ip :: "publishLimiter \<Rightarrow> string \<Rightarrow> int" where
  "by_ip l host = (case limByIP l host of None \<Rightarrow> 0 | Some n \<Rightarrow> n)"

definition limiter_roll :: "time \<Rightarrow> publishLimiter \<Rightarrow> publishLimiter" where
  "limiter_roll now l =
     (if \<not> now < limUntil l then \<lparr>limUntil = now + 60 * second, limTotal = 0, limByIP = Map.empty\<rparr> else l)"

definition limiter_allow :: "time \<Rightarrow> string \<Rightarrow> publishLimiter \<Rightarrow> bool \<times> publishLimiter" where
  "limiter_allow now remote l =
     (let host = limiter_host remote; l1 = limiter_roll now l in
      if limTotal l1 \<ge> 120 \<or> by_ip l1 host \<ge> 10 then (False, l1)
      else (True, l1\<lparr>limTotal := limTotal l1 + 1, limByIP := (limByIP l1)(host \<mapsto> by_ip l1 host + 1)\<rparr>))"

text \<open>The attempts admitted out of a sequence of attempts, as the hosts they came from.\<close>

fun limiter_run :: "(time \<times> string) list \<Rightarrow> publishLimiter \<Rightarrow> string list \<times> publishLimiter" where
  "limiter_run [] l = ([], l)"
| "limiter_run ((now, remote) # as) l =
     (case limiter_allow now remote l of (ok, l') \<Rightarrow>
        case limiter_run as l' of (hosts, l'') \<Rightarrow> (if ok then limiter_host remote # hosts else hosts, l''))"

definition limiter_inv :: "publishLimiter \<Rightarrow> bool" where
  "limiter_inv l \<longleftrightarrow> 0 \<le> limTotal l \<and> limTotal l \<le> 120 \<and> (\<forall>h. 0 \<le> by_ip l h \<and> by_ip l h \<le> 10)"

lemma limiter_inv_new: "limiter_inv newPublishLimiter"
  by (simp add: limiter_inv_def newPublishLimiter_def by_ip_def)

lemma limiter_inv_allow: "limiter_inv l \<Longrightarrow> limiter_inv (snd (limiter_allow now remote l))"
  by (auto simp: limiter_inv_def limiter_allow_def limiter_roll_def by_ip_def Let_def)

lemma limiter_inv_run: "limiter_inv l \<Longrightarrow> limiter_inv (snd (limiter_run as l))"
  by (induction as l rule: limiter_run.induct) (auto split: prod.splits, metis limiter_inv_allow snd_conv)

text \<open>
  How many windows can still open before \<open>T\<close>, and with that a budget: what the open window has
  left plus a full window for each of the others.  Every admitted attempt uses up one.
\<close>

definition windows_left :: "time \<Rightarrow> publishLimiter \<Rightarrow> int" where
  "windows_left T l = (if limUntil l < T then (T - limUntil l - 1) div (60 * second) + 1 else 0)"

lemma windows_left_roll:
  assumes "now < T" "\<not> now < limUntil l"
  shows "windows_left T (limiter_roll now l) + 1 \<le> windows_left T l"
proof -
  have "(T - (now + 60 * second) - 1) div (60 * second) = (T - now - 1) div (60 * second) - 1"
    using div_mult_self1 [of "60 * second" "T - now - 1" "-1"] by (simp add: algebra_simps)
  moreover have "(T - now - 1) div (60 * second) \<le> (T - limUntil l - 1) div (60 * second)"
    using assms(2) by (intro zdiv_mono1) auto
  moreover have "0 \<le> (T - now - 1) div (60 * second)" using assms(1) by (intro div_int_pos_iff [THEN iffD2]) auto
  ultimately show ?thesis using assms by (auto simp: windows_left_def limiter_roll_def)
qed

lemma limiter_budget_step:
  assumes "limiter_inv l" "now < T" "limiter_allow now remote l = (ok, l')"
  shows "(if ok then 1 else 0) + (120 - limTotal l') + 120 * windows_left T l' \<le> 120 - limTotal l + 120 * windows_left T l"
    "(if ok \<and> limiter_host remote = h then 1 else 0) + (10 - by_ip l' h) + 10 * windows_left T l' \<le> 10 - by_ip l h + 10 * windows_left T l"
proof -
  let ?l = "limiter_roll now l"
  have inv: "0 \<le> limTotal l" "limTotal l \<le> 120" "0 \<le> by_ip l h" "by_ip l h \<le> 10" using assms(1) by (simp_all add: limiter_inv_def)
  have roll: "120 - limTotal ?l + 120 * windows_left T ?l \<le> 120 - limTotal l + 120 * windows_left T l \<and>
    10 - by_ip ?l h + 10 * windows_left T ?l \<le> 10 - by_ip l h + 10 * windows_left T l"
  proof (cases "now < limUntil l")
    case False
    then have "limTotal ?l = 0" "by_ip ?l h = 0" by (simp_all add: limiter_roll_def by_ip_def)
    with windows_left_roll [OF assms(2) False] inv show ?thesis by linarith
  qed (simp add: limiter_roll_def)
  have w: "windows_left T l' = windows_left T ?l"
    using assms(3) by (auto simp: limiter_allow_def Let_def windows_left_def split: if_splits)
  show "(if ok then 1 else 0) + (120 - limTotal l') + 120 * windows_left T l' \<le> 120 - limTotal l + 120 * windows_left T l"
    using roll assms(3) unfolding w by (auto simp: limiter_allow_def Let_def split: if_splits)
  show "(if ok \<and> limiter_host remote = h then 1 else 0) + (10 - by_ip l' h) + 10 * windows_left T l' \<le> 10 - by_ip l h + 10 * windows_left T l"
    using roll assms(3) unfolding w by (auto simp: limiter_allow_def Let_def by_ip_def split: if_splits)
qed

lemma limiter_budget:
  assumes "limiter_inv l" "\<forall>(now, remote) \<in> set as. now < T"
  shows "int (length (fst (limiter_run as l))) + (120 - limTotal (snd (limiter_run as l))) \<le> 120 - limTotal l + 120 * windows_left T l
    \<and> int (count_list (fst (limiter_run as l)) h) + (10 - by_ip (snd (limiter_run as l)) h) \<le> 10 - by_ip l h + 10 * windows_left T l"
  using assms
proof (induction as l rule: limiter_run.induct)
  case (1 l)
  have "0 \<le> windows_left T l" by (simp add: windows_left_def)
  then show ?case by simp
next
  case (2 now remote as l)
  obtain ok l' where a: "limiter_allow now remote l = (ok, l')" by fastforce
  obtain hosts l'' where b: "limiter_run as l' = (hosts, l'')" by fastforce
  have inv: "limiter_inv l'" using limiter_inv_allow [OF "2.prems"(1), of now remote] a by simp
  have "now < T" using "2.prems"(2) by simp
  note step = limiter_budget_step [OF "2.prems"(1) this a]
  from "2.IH" [OF a [symmetric] inv] "2.prems"(2) step(1) step(2) [of h] a b show ?case by auto
qed

text \<open>The first attempt of an interval opens the window it is counted in.\<close>

lemma limiter_run_roll: "limiter_run ((now, remote) # as) l = limiter_run ((now, remote) # as) (limiter_roll now l)"
proof -
  have "limiter_roll now (limiter_roll now l) = limiter_roll now l" by (simp add: limiter_roll_def)
  then show ?thesis by (simp add: limiter_allow_def Let_def)
qed

lemma limiter_interval:
  assumes "limiter_inv l" "\<forall>(now, remote) \<in> set as. now < t + int k * (60 * second)" "t \<le> limUntil l"
  shows "length (fst (limiter_run as l)) \<le> 120 * (k + 1) \<and> count_list (fst (limiter_run as l)) h \<le> 10 * (k + 1)"
proof -
  let ?T = "t + int k * (60 * second)"
  have "windows_left ?T l \<le> int k"
  proof (cases "limUntil l < ?T")
    case True
    have "(?T - limUntil l - 1) div (60 * second) \<le> (-1 + int k * (60 * second)) div (60 * second)"
      using assms(3) by (intro zdiv_mono1) auto
    also have "\<dots> = int k - 1" by (subst div_mult_self1) simp_all
    finally show ?thesis using True by (simp add: windows_left_def)
  qed (simp add: windows_left_def)
  moreover have "limiter_inv (snd (limiter_run as l))" using assms(1) by (rule limiter_inv_run)
  then have "limTotal (snd (limiter_run as l)) \<le> 120 \<and> by_ip (snd (limiter_run as l)) h \<le> 10" by (simp add: limiter_inv_def)
  moreover have "0 \<le> limTotal l \<and> 0 \<le> by_ip l h" using assms(1) by (simp add: limiter_inv_def)
  ultimately have "int (length (fst (limiter_run as l))) \<le> int (120 * (k + 1)) \<and>
      int (count_list (fst (limiter_run as l)) h) \<le> int (10 * (k + 1))"
    using limiter_budget [OF assms(1,2), of h] unfolding of_nat_mult of_nat_add of_nat_numeral of_nat_1
    by (auto simp del: One_nat_def)
  then show ?thesis unfolding of_nat_le_iff .
qed

lemma limiter_inv_roll: "limiter_inv l \<Longrightarrow> limiter_inv (limiter_roll now l)"
  by (auto simp: limiter_inv_def limiter_roll_def by_ip_def)

text \<open>
  Reconnecting does not help an attacker guessing short keys: from any state the limiter
  reaches, at most 120 attempts in all and 10 from one address are admitted per window of a
  minute, so attempts made within \<open>k\<close> minutes are admitted at most \<open>120 \<cdot> (k + 1)\<close> times in all and
  \<open>10 \<cdot> (k + 1)\<close> times from one address, whatever their order; and once the current window has
  passed, an attempt is admitted.
\<close>

theorem publish_limiter_bounds:
  assumes "l = snd (limiter_run earlier newPublishLimiter)"
    and "\<forall>(now, remote) \<in> set as. t \<le> now \<and> now < t + int k * (60 * second)"
  shows "length (fst (limiter_run as l)) \<le> 120 * (k + 1) \<and>
         count_list (fst (limiter_run as l)) host \<le> 10 * (k + 1) \<and>
         (limUntil l \<le> now \<longrightarrow> fst (limiter_allow now remote l))"
proof -
  have inv: "limiter_inv l" unfolding assms(1) by (rule limiter_inv_run [OF limiter_inv_new])
  have "limUntil l \<le> now \<longrightarrow> fst (limiter_allow now remote l)"
    by (simp add: limiter_allow_def limiter_roll_def Let_def by_ip_def)
  moreover have "length (fst (limiter_run as l)) \<le> 120 * (k + 1) \<and> count_list (fst (limiter_run as l)) host \<le> 10 * (k + 1)"
  proof (cases as)
    case (Cons a as')
    obtain now remote where a: "a = (now, remote)" by fastforce
    with assms(2) Cons have "t \<le> limUntil (limiter_roll now l)" by (auto simp: limiter_roll_def)
    from limiter_interval [OF limiter_inv_roll [OF inv] _ this, of as k host] assms(2) show ?thesis
      using limiter_run_roll [of now remote as' l] unfolding Cons a by fastforce
  qed simp
  ultimately show ?thesis by blast
qed

theorem publish_limiter_bounds_witness:
  "count_list (fst (limiter_run (replicate 30 (5, ''1.2.3.4:99'')) newPublishLimiter)) ''1.2.3.4'' \<le> 20"
  using publish_limiter_bounds [of newPublishLimiter "[]" "replicate 30 (5, ''1.2.3.4:99'')" 5 1 "''1.2.3.4''" 0 "[]"] by simp

end
