(* ===== verification/Channel_Id.thy ===== *)
theory Channel_Id
  imports Pcp_Lib Go_Utf8
begin

text \<open>
  \<^verbatim>\<open>internal/id\<close>: the channel identifier derived from a broadcast and its metadata, and the
  broadcast identifier kept in a file across restarts.
\<close>

section \<open>Channel identifiers\<close>

text \<open>The second loop of \<^verbatim>\<open>ChannelID\<close>; \<open>k\<close> rounds are left, \<open>i\<close> is the next index.\<close>

fun mix_loop :: "string \<Rightarrow> string \<Rightarrow> nat \<Rightarrow> nat \<Rightarrow> nat \<Rightarrow> nat \<Rightarrow> gnuid \<Rightarrow> gnuid" where
  "mix_loop name genre 0 i s1 s2 d = d"
| "mix_loop name genre (Suc k) i s1 s2 d =
     (let ipb = d ! (i mod 16);
          ipb1 = (if s1 < length name then ipb XOR byte_of (name ! s1) else ipb);
          s1' = (if s1 < length name then s1 + 1 else 0);
          ipb2 = (if s2 < length genre then ipb1 XOR byte_of (genre ! s2) else ipb1);
          s2' = (if s2 < length genre then s2 + 1 else 0)
      in mix_loop name genre k (Suc i) s1' s2' (d[i mod 16 := ipb2]))"

definition ChannelID :: "gnuid \<Rightarrow> string \<Rightarrow> string \<Rightarrow> u32 \<Rightarrow> gnuid" where
  "ChannelID broadcastID name genre bitrate =
     (let d = map (\<lambda>x. x XOR ucast bitrate) broadcastID;
          maxLen = (if length genre > length name then length genre else length name);
          n = (maxLen div 16 + 1) * 16
      in mix_loop name genre n 0 0 0 d)"

text \<open>
  The reference: a string is repeated with one empty slot after each copy, and byte \<open>j\<close> of the
  identifier is mixed with every slot whose index is \<open>j\<close> modulo 16.
\<close>

definition cyc :: "string \<Rightarrow> nat \<Rightarrow> byte" where
  "cyc s i = (let k = i mod (length s + 1) in if k < length s then byte_of (s ! k) else 0)"

definition mix_byte :: "string \<Rightarrow> string \<Rightarrow> nat \<Rightarrow> nat \<Rightarrow> byte" where
  "mix_byte name genre n j =
     foldr (\<lambda>i b. b XOR cyc name i XOR cyc genre i) (filter (\<lambda>i. i mod 16 = j) [0..<n]) 0"

definition mix_rounds :: "string \<Rightarrow> string \<Rightarrow> nat" where
  "mix_rounds name genre = (max (length name) (length genre) div 16 + 1) * 16"

section \<open>The persistent broadcast identifier\<close>

text \<open>
  The file operations are answers of the environment, numbered by attempt: reading the file gives
  its content, reports that it does not exist, or fails; writing the temporary file succeeds or
  not; publishing it with a link succeeds, finds the file already there, or fails.  \<open>rand\<close> are the
  random bytes of each attempt.  The result is the identifier and, when this call published it,
  the content it wrote.
\<close>

datatype file_read = Content string | NotExist | ReadError
datatype link_result = Linked | LinkExists | LinkError

datatype id_error = InvalidID | EmptyID | IOFailed

record id_env =
  read_file :: "nat \<Rightarrow> file_read"
  rand_bytes :: "nat \<Rightarrow> byte list"
  tmp_ok :: "nat \<Rightarrow> bool"
  link_file :: "nat \<Rightarrow> link_result"

definition parse_broadcast_id :: "string \<Rightarrow> id_error + gnuid" where
  "parse_broadcast_id content =
     (case DecodeString (TrimSpace content) of
        None \<Rightarrow> Inl InvalidID
      | Some b \<Rightarrow> if length b \<noteq> 16 then Inl InvalidID else if b = zeroID then Inl EmptyID else Inr b)"

definition new_broadcast_id :: "byte list \<Rightarrow> gnuid" where
  "new_broadcast_id rand = rand[0 := rand ! 0 AND 0xFE]"

definition broadcast_id_text :: "gnuid \<Rightarrow> string" where
  "broadcast_id_text i = EncodeToString i @ [CHR 0x0A]"

text \<open>Each retry follows a concurrent creation of the file; \<open>fuel\<close> bounds the retries.\<close>

fun LoadOrCreateBroadcastID :: "nat \<Rightarrow> id_env \<Rightarrow> nat \<Rightarrow> (id_error + gnuid \<times> string option) option" where
  "LoadOrCreateBroadcastID 0 E k = None"
| "LoadOrCreateBroadcastID (Suc fuel) E k =
     (case read_file E k of
        Content c \<Rightarrow> Some (map_sum id (\<lambda>i. (i, None)) (parse_broadcast_id c))
      | ReadError \<Rightarrow> Some (Inl IOFailed)
      | NotExist \<Rightarrow>
          (let i = new_broadcast_id (rand_bytes E k) in
           if \<not> tmp_ok E k then Some (Inl IOFailed)
           else case link_file E k of
             LinkExists \<Rightarrow> LoadOrCreateBroadcastID fuel E (Suc k)
           | LinkError \<Rightarrow> Some (Inl IOFailed)
           | Linked \<Rightarrow> Some (Inr (i, Some (broadcast_id_text i)))))"

section \<open>Lemmas\<close>

lemma length_mix_loop [simp]: "length (mix_loop name genre k i s1 s2 d) = length d"
  by (induction k arbitrary: i s1 s2 d) (simp_all add: Let_def)

lemma cyc_next: "(if i mod (n + 1) < n then i mod (n + 1) + 1 else 0) = Suc i mod (n + 1)"
proof -
  have "i mod Suc n < n \<longleftrightarrow> i mod Suc n \<noteq> n" using mod_less_divisor [of "Suc n" i] by linarith
  then show ?thesis using mod_Suc [of i "Suc n"] by (simp del: mod_less)
qed

lemma xor_cyc: "(if i mod (length s + 1) < length s then b XOR byte_of (s ! (i mod (length s + 1))) else b) = b XOR cyc s i"
  by (simp add: cyc_def Let_def)

text \<open>One round mixes one byte.\<close>

lemma mix_loop_step:
  "mix_loop name genre (Suc k) i (i mod (length name + 1)) (i mod (length genre + 1)) d =
     mix_loop name genre k (Suc i) (Suc i mod (length name + 1)) (Suc i mod (length genre + 1))
       (d[i mod 16 := d ! (i mod 16) XOR cyc name i XOR cyc genre i])"
  by (simp only: mix_loop.simps Let_def cyc_next xor_cyc xor.assoc)

lemma mix_loop_spec:
  assumes "length d = 16" "j < 16"
  shows "mix_loop name genre k i (i mod (length name + 1)) (i mod (length genre + 1)) d ! j =
     d ! j XOR foldr (\<lambda>i b. b XOR cyc name i XOR cyc genre i) (filter (\<lambda>i. i mod 16 = j) [i..<i + k]) 0"
  using assms
proof (induction k arbitrary: i d)
  case (Suc k)
  let ?d = "d[i mod 16 := d ! (i mod 16) XOR cyc name i XOR cyc genre i]"
  have up: "[i..<i + Suc k] = i # [Suc i..<Suc i + k]" by (simp add: upt_conv_Cons del: upt_Suc)
  have IH: "mix_loop name genre (Suc k) i (i mod (length name + 1)) (i mod (length genre + 1)) d ! j =
    ?d ! j XOR foldr (\<lambda>i b. b XOR cyc name i XOR cyc genre i) (filter (\<lambda>i. i mod 16 = j) [Suc i..<Suc i + k]) 0"
    unfolding mix_loop_step using Suc.IH [of ?d "Suc i"] Suc.prems by simp
  show ?case unfolding IH up using Suc.prems
    by (cases "i mod 16 = j") (simp_all add: xor.assoc xor.left_commute xor.commute)
qed simp

lemma ChannelID_nth:
  assumes "length b = 16" "j < 16"
  shows "ChannelID b name genre rate ! j = b ! j XOR ucast rate XOR mix_byte name genre (mix_rounds name genre) j"
  using mix_loop_spec [of "map (\<lambda>x. x XOR ucast rate) b" j name genre "mix_rounds name genre" 0] assms
  by (simp add: ChannelID_def Let_def mix_rounds_def mix_byte_def max_def xor.assoc split: if_splits)

lemma length_ChannelID [simp]: "length (ChannelID b name genre rate) = length b"
  by (simp add: ChannelID_def Let_def)

lemma xor_right_cancel: "x XOR m = y XOR m \<Longrightarrow> x = y" for x y m :: byte
proof -
  assume "x XOR m = y XOR m"
  then have "(x XOR m) XOR m = (y XOR m) XOR m" by simp
  then show ?thesis by (simp add: xor.assoc)
qed

lemma hex_char_visible: "n < 16 \<Longrightarrow> char_code (hex_char n) \<in> {33..<128}"
  by (auto simp: hex_char_def)

lemma Encode_visible: "c \<in> set (EncodeToString bs) \<Longrightarrow> char_code c \<in> {33..<128}"
proof (induction bs)
  case (Cons b bs)
  have "unat b div 16 < 16" using unat_bound256 [of b] by simp
  moreover have "unat b mod 16 < 16" by simp
  ultimately show ?case using Cons hex_char_visible by (auto simp del: atLeastLessThan_iff)
qed simp

lemma parse_broadcast_id_text: "length i = 16 \<Longrightarrow> i \<noteq> zeroID \<Longrightarrow> parse_broadcast_id (broadcast_id_text i) = Inr i"
proof -
  assume "length i = 16" "i \<noteq> zeroID"
  moreover from this have "EncodeToString i \<noteq> []" by (cases i) auto
  then have "TrimSpace (broadcast_id_text i) = EncodeToString i"
    using Encode_visible TrimSpace_newline by (simp add: broadcast_id_text_def)
  ultimately show ?thesis by (simp add: parse_broadcast_id_def)
qed

lemma map_sum_published: "map_sum id (\<lambda>i. (i, None)) r \<noteq> Inr (i, Some t)"
  by (cases r) auto

section \<open>Properties\<close>

text \<open>
  The channel identifier is that of peercast-yt: the broadcast identifier, each byte mixed with
  the low byte of the bitrate and with the slots of the repeated name and genre that fall on it.
\<close>

theorem ChannelID_reference:
  assumes "length b = 16"
  shows "ChannelID b name genre rate =
    map (\<lambda>j. b ! j XOR ucast rate XOR mix_byte name genre (mix_rounds name genre) j) [0..<16]"
  using assms by (intro nth_equalityI) (simp_all add: ChannelID_nth)

theorem ChannelID_reference_witness:
  "ChannelID zeroID ''AB'' ''C'' 256 ! 0 = ucast (256 :: u32) XOR mix_byte ''AB'' ''C'' (mix_rounds ''AB'' ''C'') 0"
proof -
  have "length zeroID = 16" by (simp add: zeroID_def)
  from ChannelID_reference [OF this, of "''AB''" "''C''" 256] show ?thesis by (simp add: zeroID_def)
qed

text \<open>
  With the same metadata, two nodes have the same channel identifier only if they have the same
  broadcast identifier: a node's channels cannot collide with those of another by metadata alone.
\<close>

theorem ChannelID_inj_broadcast:
  assumes "length b = 16" "length b' = 16"
  shows "ChannelID b name genre rate = ChannelID b' name genre rate \<longleftrightarrow> b = b'"
proof
  assume eq: "ChannelID b name genre rate = ChannelID b' name genre rate"
  show "b = b'"
  proof (rule nth_equalityI)
    show "length b = length b'" using assms by simp
    fix j assume "j < length b"
    with assms eq ChannelID_nth [of b j name genre rate] ChannelID_nth [of b' j name genre rate]
    have "b ! j XOR (ucast rate XOR mix_byte name genre (mix_rounds name genre) j) =
      b' ! j XOR (ucast rate XOR mix_byte name genre (mix_rounds name genre) j)" by (simp add: xor.assoc)
    then show "b ! j = b' ! j" by (rule xor_right_cancel)
  qed
qed simp

theorem ChannelID_inj_broadcast_witness:
  "ChannelID zeroID ''a'' ''b'' 0 \<noteq> ChannelID (replicate 16 1) ''a'' ''b'' 0"
proof -
  have "length zeroID = 16" "length (replicate 16 (1 :: byte)) = 16" "zeroID \<noteq> replicate 16 1"
    by (simp_all add: zeroID_def)
  then show ?thesis using ChannelID_inj_broadcast by blast
qed

text \<open>
  The broadcast identifier is stable and never silently replaced.  What a first start
  publishes, every later start reads back; a file that cannot be parsed is an error and nothing is
  written; and the call returns as soon as one attempt is not beaten by a concurrent creator.
\<close>

theorem broadcast_id_persists:
  assumes "length (rand_bytes E k) = 16"
  shows "(LoadOrCreateBroadcastID fuel E k = Some (Inr (i, Some content)) \<and> read_file E' m = Content content \<and>
            i \<noteq> zeroID \<and> length i = 16 \<longrightarrow> LoadOrCreateBroadcastID (Suc n) E' m = Some (Inr (i, None))) \<and>
         (read_file E k = Content c \<and> parse_broadcast_id c = Inl e \<longrightarrow>
            LoadOrCreateBroadcastID (Suc fuel) E k = Some (Inl e)) \<and>
         ((\<forall>x < m. read_file E (k + x) = NotExist \<and> tmp_ok E (k + x) \<and> link_file E (k + x) = LinkExists) \<and>
            (read_file E (k + m) \<noteq> NotExist \<or> \<not> tmp_ok E (k + m) \<or> link_file E (k + m) \<noteq> LinkExists) \<longrightarrow>
            LoadOrCreateBroadcastID (Suc m) E k \<noteq> None)"
proof -
  have written: "content = broadcast_id_text i" if "LoadOrCreateBroadcastID fuel E k = Some (Inr (i, Some content))" for content i
    using that by (induction fuel E k rule: LoadOrCreateBroadcastID.induct)
      (auto simp: Let_def map_sum_published split: file_read.splits link_result.splits if_splits)
  have ret: "LoadOrCreateBroadcastID (Suc m) E k \<noteq> None"
    if "\<forall>x < m. read_file E (k + x) = NotExist \<and> tmp_ok E (k + x) \<and> link_file E (k + x) = LinkExists"
       "read_file E (k + m) \<noteq> NotExist \<or> \<not> tmp_ok E (k + m) \<or> link_file E (k + m) \<noteq> LinkExists"
    using that
  proof (induction m arbitrary: k)
    case 0
    then show ?case by (auto simp: Let_def split: file_read.splits link_result.splits)
  next
    case (Suc m)
    from Suc.prems(1) have "read_file E k = NotExist \<and> tmp_ok E k \<and> link_file E k = LinkExists" by force
    moreover have "LoadOrCreateBroadcastID (Suc m) E (Suc k) \<noteq> None"
      by (rule Suc.IH) (use Suc.prems in \<open>auto dest: spec [where x = "Suc _"]\<close>)
    ultimately show ?case by (simp add: Let_def)
  qed
  show ?thesis using written ret parse_broadcast_id_text by auto
qed

definition id_env_demo :: "byte list \<Rightarrow> file_read \<Rightarrow> id_env" where
  "id_env_demo r f = \<lparr>read_file = (\<lambda>_. f), rand_bytes = (\<lambda>_. r), tmp_ok = (\<lambda>_. True), link_file = (\<lambda>_. Linked)\<rparr>"

theorem broadcast_id_persists_witness:
  "LoadOrCreateBroadcastID 1 (id_env_demo [] (Content (broadcast_id_text (replicate 16 2)))) 0 = Some (Inr (replicate 16 2, None))"
proof -
  let ?r = "replicate 16 (2 :: byte)"
  have "new_broadcast_id ?r = ?r" "length ?r = 16" "?r \<noteq> zeroID" by code_simp+
  then have "LoadOrCreateBroadcastID 1 (id_env_demo ?r NotExist) 0 = Some (Inr (?r, Some (broadcast_id_text ?r)))"
    by (simp add: id_env_demo_def Let_def)
  with broadcast_id_persists [of "id_env_demo ?r NotExist" 0 1 ?r "broadcast_id_text ?r"
      "id_env_demo [] (Content (broadcast_id_text ?r))" 0 0]
    \<open>length ?r = 16\<close> \<open>?r \<noteq> zeroID\<close>
  show ?thesis by (simp add: id_env_demo_def)
qed

end
