(* ===== verification/Stream_Keys.thy ===== *)
theory Stream_Keys
  imports Go_Std "HOL-Library.List_Lexorder" "HOL-Library.Char_ord"
begin

text \<open>
  \<^verbatim>\<open>internal/channel/stream_key_store.go\<close>: the two maps between accounts and stream keys and their
  cache file.  The file is represented by the accounts it encodes; whether a save succeeds is an
  argument, and a save is atomic (temporary file and rename).  A map is iterated in the order given.
\<close>

datatype key_error = ErrStreamKeyAssigned | CacheIO | CacheParse

datatype cache_file = CacheMissing | CacheUnreadable | CacheGarbled | CacheAccounts "(string \<times> string) list"

record StreamKeyStore =
  cachePath :: string
  accounts :: "string \<rightharpoonup> string"
  streamKeys :: "string \<rightharpoonup> string"
  cacheFile :: "(string \<rightharpoonup> string) option"

definition NewStreamKeyStore :: StreamKeyStore where
  "NewStreamKeyStore = \<lparr>cachePath = [], accounts = Map.empty, streamKeys = Map.empty, cacheFile = None\<rparr>"

definition SetCachePath :: "string \<Rightarrow> StreamKeyStore \<Rightarrow> StreamKeyStore" where
  "SetCachePath path s = s\<lparr>cachePath := path\<rparr>"

definition load_entry :: "string \<times> string \<Rightarrow> StreamKeyStore \<Rightarrow> StreamKeyStore" where
  "load_entry e s = (case e of (name, key) \<Rightarrow>
     s\<lparr>accounts := (accounts s)(name \<mapsto> key), streamKeys := (streamKeys s)(key \<mapsto> name)\<rparr>)"

definition LoadCache :: "cache_file \<Rightarrow> StreamKeyStore \<Rightarrow> key_error option \<times> StreamKeyStore" where
  "LoadCache f s =
     (if cachePath s = [] then (None, s)
      else case f of
        CacheMissing \<Rightarrow> (None, s)
      | CacheUnreadable \<Rightarrow> (Some CacheIO, s)
      | CacheGarbled \<Rightarrow> (Some CacheParse, s)
      | CacheAccounts es \<Rightarrow> (None, fold load_entry es s))"

definition saveCache :: "bool \<Rightarrow> StreamKeyStore \<Rightarrow> bool \<times> StreamKeyStore" where
  "saveCache ok s =
     (if cachePath s = [] then (True, s)
      else if ok then (True, s\<lparr>cacheFile := Some (accounts s)\<rparr>) else (False, s))"

definition IssueStreamKey :: "bool \<Rightarrow> string \<Rightarrow> string \<Rightarrow> StreamKeyStore \<Rightarrow> key_error option \<times> StreamKeyStore" where
  "IssueStreamKey ok accountName streamKey s =
     (if (case streamKeys s streamKey of Some owner \<Rightarrow> owner \<noteq> accountName | None \<Rightarrow> False)
      then (Some ErrStreamKeyAssigned, s)
      else
        let old = accounts s accountName;
            s1 = (case old of Some k \<Rightarrow> s\<lparr>streamKeys := (streamKeys s)(k := None)\<rparr> | None \<Rightarrow> s);
            s2 = s1\<lparr>accounts := (accounts s1)(accountName \<mapsto> streamKey),
                     streamKeys := (streamKeys s1)(streamKey \<mapsto> accountName)\<rparr>
        in case saveCache ok s2 of
             (True, s3) \<Rightarrow> (None, s3)
           | (False, s3) \<Rightarrow>
               (let s4 = s3\<lparr>streamKeys := (streamKeys s3)(streamKey := None)\<rparr> in
                (Some CacheIO,
                 case old of
                   Some k \<Rightarrow> s4\<lparr>accounts := (accounts s4)(accountName \<mapsto> k), streamKeys := (streamKeys s4)(k \<mapsto> accountName)\<rparr>
                 | None \<Rightarrow> s4\<lparr>accounts := (accounts s4)(accountName := None)\<rparr>)))"

definition RevokeStreamKey :: "bool \<Rightarrow> string \<Rightarrow> StreamKeyStore \<Rightarrow> bool \<times> StreamKeyStore" where
  "RevokeStreamKey ok accountName s =
     (case accounts s accountName of
        None \<Rightarrow> (False, s)
      | Some key \<Rightarrow>
          (True, snd (saveCache ok (s\<lparr>accounts := (accounts s)(accountName := None),
                                      streamKeys := (streamKeys s)(key := None)\<rparr>))))"

definition IsIssuedKey :: "string \<Rightarrow> StreamKeyStore \<Rightarrow> bool" where
  "IsIssuedKey key s \<longleftrightarrow> streamKeys s key \<noteq> None"

text \<open>\<open>order\<close> enumerates the accounts; the result is sorted by account name.\<close>

definition List_keys :: "string list \<Rightarrow> StreamKeyStore \<Rightarrow> (string \<times> string) list" where
  "List_keys order s =
     sort_key fst (List.map_filter (\<lambda>name. map_option (Pair name) (accounts s name)) order)"

section \<open>Invariant\<close>

text \<open>The two maps are inverse to each other.\<close>

definition keys_inv :: "StreamKeyStore \<Rightarrow> bool" where
  "keys_inv s \<longleftrightarrow> (\<forall>a k. accounts s a = Some k \<longleftrightarrow> streamKeys s k = Some a)"

lemma keys_invD: "keys_inv s \<Longrightarrow> accounts s a = Some k \<Longrightarrow> accounts s b = Some k \<Longrightarrow> a = b"
  by (metis keys_inv_def option.inject)

lemma keys_inv_New: "keys_inv NewStreamKeyStore"
  by (simp add: keys_inv_def NewStreamKeyStore_def)

lemma saveCache_maps [simp]:
  "accounts (snd (saveCache ok s)) = accounts s" "streamKeys (snd (saveCache ok s)) = streamKeys s"
  "cachePath (snd (saveCache ok s)) = cachePath s"
  by (auto simp: saveCache_def)

text \<open>Assigning a key that no other account holds keeps the maps inverse.\<close>

lemma keys_inv_assign:
  assumes "keys_inv s" "streamKeys s k = None \<or> streamKeys s k = Some a"
    and sk: "sk = (case accounts s a of Some k' \<Rightarrow> (streamKeys s)(k' := None) | None \<Rightarrow> streamKeys s)"
  shows "((accounts s)(a \<mapsto> k)) b = Some j \<longleftrightarrow> (sk(k \<mapsto> a)) j = Some b"
proof -
  have fwd: "streamKeys s j = Some b" if "accounts s b = Some j" for b j using assms(1) that by (simp add: keys_inv_def)
  have bwd: "accounts s b = Some j" if "streamKeys s j = Some b" for b j using assms(1) that by (simp add: keys_inv_def)
  have sk': "sk j = Some b \<longleftrightarrow> streamKeys s j = Some b \<and> b \<noteq> a" for j b
  proof (cases "accounts s a")
    case None
    then have "streamKeys s j \<noteq> Some a" using bwd [of j a] by auto
    with None show ?thesis by (auto simp: sk)
  next
    case (Some k')
    then have "streamKeys s j = Some a \<longleftrightarrow> j = k'" using bwd [of j a] fwd [of a k'] by auto
    with Some show ?thesis by (auto simp: sk)
  qed
  show ?thesis
  proof (cases "j = k")
    case True
    have "accounts s b \<noteq> Some k" if "b \<noteq> a" using fwd [of b k] assms(2) that by auto
    with True show ?thesis by auto
  next
    case False
    have "accounts s b = Some j \<longleftrightarrow> streamKeys s j = Some b" using fwd [of b j] bwd [of j b] by blast
    then show ?thesis using False sk' [of j b] by auto
  qed
qed

lemma Issue_success:
  assumes "IssueStreamKey ok a k s = (None, s')"
  shows "(streamKeys s k = None \<or> streamKeys s k = Some a) \<and> accounts s' = (accounts s)(a \<mapsto> k) \<and>
    streamKeys s' = (case accounts s a of Some k' \<Rightarrow> (streamKeys s)(k' := None) | None \<Rightarrow> streamKeys s)(k \<mapsto> a) \<and>
    (cachePath s \<noteq> [] \<longrightarrow> cacheFile s' = Some (accounts s')) \<and> cachePath s' = cachePath s"
  using assms
  by (auto simp: IssueStreamKey_def Let_def saveCache_def split: option.splits if_splits)

lemma Issue_failure:
  assumes "keys_inv s" "IssueStreamKey ok a k s = (Some e, s')"
  shows "s' = s"
proof (cases "streamKeys s k = None \<or> streamKeys s k = Some a")
  case True
  have inv: "accounts s a = Some k' \<longleftrightarrow> streamKeys s k' = Some a" for k' using assms(1) by (simp add: keys_inv_def)
  show ?thesis
  proof (cases "accounts s a")
    case None
    then have "streamKeys s k = None" using True inv by auto
    then show ?thesis using assms(2) None
      by (auto simp: IssueStreamKey_def Let_def saveCache_def fun_upd_idem split: if_splits)
  next
    case (Some k')
    then have k': "streamKeys s k' = Some a" "streamKeys s k = None \<or> k = k'" using True inv [of k'] inv [of k] by auto
    then have "((streamKeys s)(k' := None, k \<mapsto> a, k := None, k' \<mapsto> a)) = streamKeys s" by (auto simp: fun_eq_iff)
    then show ?thesis using assms(2) Some k'
      by (auto simp: IssueStreamKey_def Let_def saveCache_def fun_upd_idem split: if_splits)
  qed
next
  case False
  then show ?thesis using assms(2) by (auto simp: IssueStreamKey_def split: option.splits if_splits)
qed

lemma keys_inv_Issue: "keys_inv s \<Longrightarrow> keys_inv (snd (IssueStreamKey ok a k s))"
proof (cases "IssueStreamKey ok a k s")
  case (Pair e s')
  assume inv: "keys_inv s"
  show ?thesis
  proof (cases e)
    case None
    from Issue_success [OF Pair [unfolded None]] keys_inv_assign [OF inv _ refl, of k a] Pair
    show ?thesis unfolding keys_inv_def by simp
  next
    case (Some x)
    with Issue_failure [OF inv, of ok a k x s'] Pair inv show ?thesis by simp
  qed
qed

lemma keys_inv_Revoke: "keys_inv s \<Longrightarrow> keys_inv (snd (RevokeStreamKey ok a s))"
proof (cases "accounts s a")
  case (Some k)
  assume inv: "keys_inv s"
  have "((accounts s)(a := None)) b = Some j \<longleftrightarrow> ((streamKeys s)(k := None)) j = Some b" for b j
  proof -
    have "accounts s a = Some j \<longleftrightarrow> j = k" "accounts s b = Some k \<longrightarrow> b = a"
      using Some keys_invD [OF inv] by auto
    moreover have "accounts s b = Some j \<longleftrightarrow> streamKeys s j = Some b" using inv by (simp add: keys_inv_def)
    ultimately show ?thesis unfolding fun_upd_apply by (metis option.distinct(1))
  qed
  then show ?thesis using Some by (simp add: RevokeStreamKey_def keys_inv_def)
qed (simp add: RevokeStreamKey_def)

section \<open>Properties\<close>

datatype key_op = KIssue bool string string | KRevoke bool string | KPath string

fun key_step :: "key_op \<Rightarrow> StreamKeyStore \<Rightarrow> StreamKeyStore" where
  "key_step (KIssue ok a k) s = snd (IssueStreamKey ok a k s)"
| "key_step (KRevoke ok a) s = snd (RevokeStreamKey ok a s)"
| "key_step (KPath p) s = SetCachePath p s"

lemma key_steps_inv: "keys_inv s \<Longrightarrow> keys_inv (fold key_step ops s)"
proof (induction ops arbitrary: s)
  case (Cons x ops)
  then have "keys_inv (key_step x s)"
    by (cases x) (simp_all add: keys_inv_Issue keys_inv_Revoke, simp add: SetCachePath_def keys_inv_def)
  with Cons.IH show ?case by simp
qed simp

text \<open>
  C32.  After any sequence of issues and revocations, whichever of their saves fail, the account and
  key maps are inverse to each other: no key belongs to two accounts and no account has two keys.
\<close>

theorem stream_keys_inverse:
  assumes "s = fold key_step ops NewStreamKeyStore"
  shows "(accounts s a = Some k \<longleftrightarrow> streamKeys s k = Some a) \<and>
         (accounts s a = Some k \<and> accounts s b = Some k \<longrightarrow> a = b)"
  using key_steps_inv [OF keys_inv_New, of ops] assms keys_invD by (auto simp: keys_inv_def)

theorem stream_keys_inverse_witness:
  "streamKeys (fold key_step [KIssue True ''bob'' ''k1'', KIssue True ''eve'' ''k1''] NewStreamKeyStore) ''k1'' = Some ''bob''"
  using stream_keys_inverse [OF refl, of "[KIssue True ''bob'' ''k1'', KIssue True ''eve'' ''k1'']" "''bob''" "''k1''"]
  by (simp add: IssueStreamKey_def NewStreamKeyStore_def saveCache_def Let_def)

text \<open>
  Issuing a key is all or nothing.  On success the account has exactly the new key, its old key
  is no longer issued, other accounts are as before and the cache file holds the accounts; on an
  error, whether the key belongs to another account or the save failed, nothing has changed.
\<close>

theorem IssueStreamKey_atomic:
  assumes "keys_inv s" "IssueStreamKey ok a k s = (e, s')"
  shows "(e = None \<longrightarrow> accounts s' = (accounts s)(a \<mapsto> k) \<and> IsIssuedKey k s' \<and>
            (\<forall>k'. accounts s a = Some k' \<and> k' \<noteq> k \<longrightarrow> \<not> IsIssuedKey k' s') \<and>
            (\<forall>k'. k' \<noteq> k \<and> accounts s a \<noteq> Some k' \<longrightarrow> IsIssuedKey k' s' = IsIssuedKey k' s) \<and>
            (cachePath s \<noteq> [] \<longrightarrow> cacheFile s' = Some (accounts s'))) \<and>
         (e \<noteq> None \<longrightarrow> s' = s) \<and>
         (e = None \<longleftrightarrow> (streamKeys s k = None \<or> streamKeys s k = Some a) \<and> (ok \<or> cachePath s = []))"
proof (cases e)
  case None
  with assms(2) have res: "IssueStreamKey ok a k s = (None, s')" by simp
  moreover have "ok \<or> cachePath s = []"
    using res by (auto simp: IssueStreamKey_def Let_def saveCache_def split: option.splits if_splits)
  ultimately show ?thesis
    using Issue_success [OF res] None by (auto simp: IsIssuedKey_def split: option.splits)
next
  case (Some x)
  then have "\<not> ((streamKeys s k = None \<or> streamKeys s k = Some a) \<and> (ok \<or> cachePath s = []))"
    using assms(2) by (auto simp: IssueStreamKey_def Let_def saveCache_def split: option.splits if_splits)
  with Issue_failure [OF assms(1)] assms(2) Some show ?thesis by blast
qed

theorem IssueStreamKey_atomic_witness:
  "\<exists>s'. IssueStreamKey False ''bob'' ''k2'' (snd (IssueStreamKey True ''bob'' ''k1'' (SetCachePath ''keys.json'' NewStreamKeyStore)))
      = (Some CacheIO, s') \<and> s' = snd (IssueStreamKey True ''bob'' ''k1'' (SetCachePath ''keys.json'' NewStreamKeyStore))"
proof -
  let ?s = "snd (IssueStreamKey True ''bob'' ''k1'' (SetCachePath ''keys.json'' NewStreamKeyStore))"
  have "keys_inv (SetCachePath ''keys.json'' NewStreamKeyStore)"
    by (simp add: keys_inv_def SetCachePath_def NewStreamKeyStore_def)
  then have "keys_inv ?s" by (rule keys_inv_Issue)
  moreover obtain e s' where r: "IssueStreamKey False ''bob'' ''k2'' ?s = (e, s')" by fastforce
  moreover from r have "e = Some CacheIO"
    by (simp add: IssueStreamKey_def SetCachePath_def NewStreamKeyStore_def saveCache_def Let_def)
  ultimately show ?thesis using IssueStreamKey_atomic by blast
qed

lemma load_entries:
  "distinct (map fst es) \<Longrightarrow> distinct (map snd es) \<Longrightarrow>
     accounts (fold load_entry es s) x = (accounts s ++ map_of es) x \<and>
     streamKeys (fold load_entry es s) x = (streamKeys s ++ map_of (map prod.swap es)) x"
proof (induction es arbitrary: s)
  case (Cons e es)
  obtain n k where e: "e = (n, k)" by fastforce
  have "map_of es n = None" "map_of (map prod.swap es) k = None"
    using Cons.prems e by (auto simp: map_of_eq_None_iff image_image)
  with Cons.IH [of "load_entry (n, k) s"] Cons.prems show ?case
    unfolding e by (auto simp: load_entry_def [of "(n, k)"] map_add_def split: option.splits)
qed simp

text \<open>
  Keys survive a restart: loading, into a new store, the cache file that the last successful save
  wrote gives back the same accounts and the same issued keys, in whatever order they are read.
\<close>

theorem stream_keys_survive_restart:
  assumes "keys_inv s" "path \<noteq> []" "distinct (map fst es)" "map_of es = accounts s"
    "LoadCache (CacheAccounts es) (SetCachePath path NewStreamKeyStore) = (e, s')"
  shows "e = None \<and> accounts s' = accounts s \<and> streamKeys s' = streamKeys s"
proof -
  have mem: "(n, k) \<in> set es \<longleftrightarrow> accounts s n = Some k" for n k
    using assms(3,4) by (metis map_of_eq_Some_iff)
  have inj: "n = n'" if "(n, k) \<in> set es" "(n', k) \<in> set es" for n n' k
    using keys_invD [OF assms(1)] that mem by blast
  then have d: "distinct (map snd es)"
    using assms(3) by (fastforce simp: distinct_map inj_on_def)
  have "s' = fold load_entry es (SetCachePath path NewStreamKeyStore)" "e = None"
    using assms(2,5) by (simp_all add: LoadCache_def SetCachePath_def)
  moreover have "map_of (map prod.swap es) k = streamKeys s k" for k
  proof -
    have "distinct (map fst (map prod.swap es))" using d by (simp add: comp_def)
    then have "map_of (map prod.swap es) k = Some n \<longleftrightarrow> (n, k) \<in> set es" for n
      by (subst map_of_eq_Some_iff) auto
    then show ?thesis using mem assms(1) by (metis keys_inv_def not_Some_eq)
  qed
  ultimately show ?thesis
    using load_entries [OF assms(3) d, of "SetCachePath path NewStreamKeyStore"] assms(4)
    by (auto simp: SetCachePath_def NewStreamKeyStore_def fun_eq_iff)
qed

theorem stream_keys_survive_restart_witness:
  "accounts (snd (LoadCache (CacheAccounts [(''bob'', ''k1'')]) (SetCachePath ''f'' NewStreamKeyStore))) ''bob'' = Some ''k1''"
proof -
  let ?s = "snd (IssueStreamKey True ''bob'' ''k1'' NewStreamKeyStore)"
  obtain e s' where r: "LoadCache (CacheAccounts [(''bob'', ''k1'')]) (SetCachePath ''f'' NewStreamKeyStore) = (e, s')" by fastforce
  have "keys_inv ?s" by (intro keys_inv_Issue keys_inv_New)
  moreover have acc: "accounts ?s = [''bob'' \<mapsto> ''k1'']"
    by (simp add: IssueStreamKey_def NewStreamKeyStore_def saveCache_def Let_def)
  ultimately have "accounts s' = accounts ?s" using stream_keys_survive_restart [OF _ _ _ _ r, of ?s] by simp
  with r acc show ?thesis by simp
qed

text \<open>A revocation whose save fails takes effect in memory only: the file still holds the key.\<close>

lemma revoke_save_failure:
  "cachePath s \<noteq> [] \<Longrightarrow> accounts s a = Some k \<Longrightarrow>
     fst (RevokeStreamKey False a s) \<and> \<not> IsIssuedKey k (snd (RevokeStreamKey False a s)) \<and>
     cacheFile (snd (RevokeStreamKey False a s)) = cacheFile s"
  by (simp add: RevokeStreamKey_def saveCache_def IsIssuedKey_def)

end
