(* ===== verification/Manager.thy ===== *)
theory Manager
  imports Channel Channel_Id Stream_Keys "HOL-Library.AList"
begin

text \<open>
  \<^verbatim>\<open>internal/channel/manager.go\<close>, \<^verbatim>\<open>policy.go\<close> and \<^verbatim>\<open>cleaner.go\<close>: the registry of active channels.

  A \<^verbatim>\<open>*Channel\<close> is a reference into the manager's store, so that two maps can hold the same
  channel and a pointer comparison is equality of references.  Relay handles are numbers; calls
  on them, like the effects of channel operations, are returned as a list.  The map of relays is an
  association list with distinct keys, whose length the code reads.  Iteration over the map of
  channels follows an order given as an argument.
\<close>

datatype mgr_error =
  KeyNotIssued | KeyActive | ErrNoRelayFactory | ErrRelayChannelLimit | NoReconnectableSource

datatype 'a mgr_effect =
  ChanEffect nat "'a effect" | RelayRun nat | RelayStop nat | RelaySetGlobalIP nat u32 | RelayReconnect nat

record 'a Manager =
  mgrAudit :: bool
  mgrNetwork :: NetworkState
  MaxRelays :: int
  MaxListeners :: int
  MaxRelaysTotal :: int
  MaxUpstreamKbps :: int
  mgrBroadcastID :: gnuid
  keys :: StreamKeyStore
  ContentBufferSeconds :: rat
  hasNewRelay :: bool
  MaxRelayChannels :: int
  globalIP :: u32
  byID :: "gnuid \<rightharpoonup> nat"
  byStreamKey :: "string \<rightharpoonup> nat"
  streamKeyByID :: "gnuid \<rightharpoonup> string"
  relays :: "(gnuid \<times> nat) list"
  store :: "nat \<Rightarrow> 'a Channel"
  nextRef :: nat

definition NewManager :: "gnuid \<Rightarrow> 'a Manager" where
  "NewManager bid =
     \<lparr>mgrAudit = False, mgrNetwork = NetworkState0, MaxRelays = 0, MaxListeners = 0, MaxRelaysTotal = 0,
      MaxUpstreamKbps = 0, mgrBroadcastID = bid, keys = NewStreamKeyStore, ContentBufferSeconds = 0,
      hasNewRelay = False, MaxRelayChannels = 0, globalIP = 0, byID = Map.empty, byStreamKey = Map.empty,
      streamKeyByID = Map.empty, relays = [], store = (\<lambda>_. New 0 zeroID zeroID 0), nextRef = 0\<rparr>"

section \<open>Stream keys\<close>

definition Manager_IssueStreamKey :: "bool \<Rightarrow> string \<Rightarrow> string \<Rightarrow> 'a Manager \<Rightarrow> key_error option \<times> 'a Manager" where
  "Manager_IssueStreamKey ok a k m = (case IssueStreamKey ok a k (keys m) of (e, s) \<Rightarrow> (e, m\<lparr>keys := s\<rparr>))"

definition Manager_RevokeStreamKey :: "bool \<Rightarrow> string \<Rightarrow> 'a Manager \<Rightarrow> bool \<times> 'a Manager" where
  "Manager_RevokeStreamKey ok a m = (case RevokeStreamKey ok a (keys m) of (b, s) \<Rightarrow> (b, m\<lparr>keys := s\<rparr>))"

definition StreamKeyOwner :: "string list \<Rightarrow> string \<Rightarrow> 'a Manager \<Rightarrow> string" where
  "StreamKeyOwner order key m =
     (case find (\<lambda>e. snd e = key) (List_keys order (keys m)) of None \<Rightarrow> [] | Some e \<Rightarrow> fst e)"

section \<open>Channels\<close>

definition configureChannel :: "'a Channel \<Rightarrow> 'a Channel" where
  "configureChannel ch = ch\<lparr>slotCheck := True\<rparr>"

definition channelIDForBroadcast :: "gnuid \<Rightarrow> string \<Rightarrow> string \<Rightarrow> string \<Rightarrow> u32 \<Rightarrow> gnuid" where
  "channelIDForBroadcast bid streamKey name genre bitrate =
     ChannelID bid (name @ [CHR 0x00] @ streamKey) genre bitrate"

definition alloc :: "'a Channel \<Rightarrow> 'a Manager \<Rightarrow> nat \<times> 'a Manager" where
  "alloc ch m = (nextRef m, m\<lparr>store := (store m)(nextRef m := ch), nextRef := Suc (nextRef m)\<rparr>)"

text \<open>What varies between runs: the clock, random bytes and the order in which accounts are listed.\<close>

record bc_env =
  bcNow :: time
  bcRand :: "byte list"
  bcOrder :: "string list"

definition new_broadcast_channel ::
  "bc_env \<Rightarrow> string \<Rightarrow> ChannelInfo \<Rightarrow> TrackInfo \<Rightarrow> Actor \<Rightarrow> string option \<Rightarrow> bool \<Rightarrow> 'a Manager \<Rightarrow> 'a Channel \<times> Event list" where
  "new_broadcast_channel E streamKey ci tr actor inputGenre pending m =
     (let cid = channelIDForBroadcast (mgrBroadcastID m) streamKey (Name ci) (Genre ci) (Bitrate ci);
          size = ContentBufferSizeForBitrate (Bitrate ci) (ContentBufferSeconds m);
          ch = (configureChannel (New (bcNow E) cid (mgrBroadcastID m) (int size)))
                 \<lparr>isBroadcasting := True, info := ci, track := tr\<rparr>;
          settings = (AuditSettings ci)\<lparr>stInputGenre := inputGenre\<rparr>
      in if mgrAudit m then
           (case NewRun (bcNow E) (audit_ID (bcRand E)) (EncodeToString cid)
                   (StreamKeyOwner (bcOrder E) streamKey m) actor settings pending of
              (r, es) \<Rightarrow> (ch\<lparr>AuditRun := Some r\<rparr>, es))
         else (ch, []))"

definition BroadcastWithAudit ::
  "bc_env \<Rightarrow> string \<Rightarrow> ChannelInfo \<Rightarrow> TrackInfo \<Rightarrow> Actor \<Rightarrow> string option \<Rightarrow> bool \<Rightarrow> 'a Manager \<Rightarrow>
     (mgr_error + nat) \<times> 'a Manager \<times> 'a mgr_effect list" where
  "BroadcastWithAudit E streamKey ci tr actor inputGenre pending m =
     (if \<not> IsIssuedKey streamKey (keys m) then (Inl KeyNotIssued, m, [])
      else if byStreamKey m streamKey \<noteq> None then (Inl KeyActive, m, [])
      else case new_broadcast_channel E streamKey ci tr actor inputGenre pending m of (ch, es) \<Rightarrow>
        case alloc ch m of (r, m1) \<Rightarrow>
          (Inr r, m1\<lparr>byID := (byID m1)(chID ch \<mapsto> r), byStreamKey := (byStreamKey m1)(streamKey \<mapsto> r),
                     streamKeyByID := (streamKeyByID m1)(chID ch \<mapsto> streamKey)\<rparr>,
           map (ChanEffect r \<circ> AuditEmit) es))"

definition Manager_Broadcast ::
  "bc_env \<Rightarrow> string \<Rightarrow> ChannelInfo \<Rightarrow> TrackInfo \<Rightarrow> 'a Manager \<Rightarrow> (mgr_error + nat) \<times> 'a Manager \<times> 'a mgr_effect list" where
  "Manager_Broadcast E streamKey ci tr m =
     BroadcastWithAudit E streamKey ci tr (Actor_of ''admin'') None False m"

text \<open>Ending the audit run and closing every output of a channel.\<close>

definition end_channel :: "string list \<Rightarrow> time \<Rightarrow> Actor \<Rightarrow> string \<Rightarrow> 'a Channel \<Rightarrow> 'a Channel \<times> 'a effect list" where
  "end_channel order now a reason ch =
     (let ended = (case AuditRun ch of
                     None \<Rightarrow> (ch, [])
                   | Some r \<Rightarrow> (case Run_End order now a reason r of
                                  (r', es) \<Rightarrow> (ch\<lparr>AuditRun := Some r'\<rparr>, map AuditEmit es)))
      in case CloseAll (fst ended) of (ch', effs) \<Rightarrow> (ch', snd ended @ effs))"

definition stopInstance ::
  "string list \<Rightarrow> time \<Rightarrow> gnuid \<Rightarrow> nat option \<Rightarrow> Actor \<Rightarrow> string \<Rightarrow> 'a Manager \<Rightarrow> bool \<times> 'a Manager \<times> 'a mgr_effect list" where
  "stopInstance order now cid expected a reason m =
     (case byID m cid of
        None \<Rightarrow> (False, m, [])
      | Some r \<Rightarrow>
          if expected \<noteq> None \<and> expected \<noteq> Some r then (False, m, [])
          else
            let key = (case streamKeyByID m cid of None \<Rightarrow> [] | Some k \<Rightarrow> k);
                relay = map_of (relays m) cid;
                m1 = m\<lparr>byStreamKey := (byStreamKey m)(key := None), byID := (byID m)(cid := None),
                       streamKeyByID := (streamKeyByID m)(cid := None), relays := AList.delete cid (relays m)\<rparr>
            in case end_channel order now a reason (store m r) of (ch', effs) \<Rightarrow>
              (True, m1\<lparr>store := (store m1)(r := ch')\<rparr>,
               (case relay of None \<Rightarrow> [] | Some h \<Rightarrow> [RelayStop h]) @ map (ChanEffect r) effs))"

definition StopWithAudit ::
  "string list \<Rightarrow> time \<Rightarrow> gnuid \<Rightarrow> Actor \<Rightarrow> string \<Rightarrow> 'a Manager \<Rightarrow> bool \<times> 'a Manager \<times> 'a mgr_effect list" where
  "StopWithAudit order now cid a reason m = stopInstance order now cid None a reason m"

definition Manager_Stop :: "string list \<Rightarrow> time \<Rightarrow> gnuid \<Rightarrow> 'a Manager \<Rightarrow> bool \<times> 'a Manager \<times> 'a mgr_effect list" where
  "Manager_Stop order now cid m = StopWithAudit order now cid (Actor_of ''admin'') ''admin_stop'' m"

definition StopInstance ::
  "string list \<Rightarrow> time \<Rightarrow> nat \<Rightarrow> Actor \<Rightarrow> string \<Rightarrow> 'a Manager \<Rightarrow> bool \<times> 'a Manager \<times> 'a mgr_effect list" where
  "StopInstance order now r a reason m = stopInstance order now (chID (store m r)) (Some r) a reason m"

fun end_channels :: "(nat \<Rightarrow> string list) \<Rightarrow> time \<Rightarrow> nat list \<Rightarrow> 'a Manager \<Rightarrow> 'a Manager \<times> 'a mgr_effect list" where
  "end_channels inputs now [] m = (m, [])"
| "end_channels inputs now (r # rs) m =
     (case end_channel (inputs r) now (Actor_of ''system'') ''server_shutdown'' (store m r) of (ch', effs) \<Rightarrow>
        case end_channels inputs now rs (m\<lparr>store := (store m)(r := ch')\<rparr>) of (m', effs') \<Rightarrow>
          (m', map (ChanEffect r) effs @ effs'))"

text \<open>\<open>order\<close> enumerates the active channels.\<close>

definition Manager_List :: "gnuid list \<Rightarrow> 'a Manager \<Rightarrow> nat list" where
  "Manager_List order m = List.map_filter (byID m) order"

definition StopAll ::
  "gnuid list \<Rightarrow> (nat \<Rightarrow> string list) \<Rightarrow> time \<Rightarrow> 'a Manager \<Rightarrow> 'a Manager \<times> 'a mgr_effect list" where
  "StopAll order inputs now m =
     (let chans = Manager_List order m;
          m1 = m\<lparr>byID := Map.empty, byStreamKey := Map.empty, streamKeyByID := Map.empty, relays := []\<rparr>
      in case end_channels inputs now chans m1 of (m2, effs) \<Rightarrow>
        (m2, map (RelayStop \<circ> snd) (relays m) @ effs))"

definition AddRelayChannel :: "nat \<Rightarrow> nat \<Rightarrow> 'a Manager \<Rightarrow> 'a Manager" where
  "AddRelayChannel r h m =
     m\<lparr>byID := (byID m)(chID (store m r) \<mapsto> r), relays := AList.update (chID (store m r)) h (relays m)\<rparr>"

text \<open>\<open>h\<close> is the handle the relay factory returns.\<close>

definition StartRelay ::
  "time \<Rightarrow> nat \<Rightarrow> gnuid \<Rightarrow> string \<Rightarrow> 'a Manager \<Rightarrow> (mgr_error + nat) \<times> 'a Manager \<times> 'a mgr_effect list" where
  "StartRelay now h cid addr m =
     (if \<not> hasNewRelay m then (Inl ErrNoRelayFactory, m, [])
      else case byID m cid of
        Some r \<Rightarrow> (Inr r, m, [])
      | None \<Rightarrow>
          if MaxRelayChannels m > 0 \<and> int (length (relays m)) \<ge> MaxRelayChannels m
          then (Inl ErrRelayChannelLimit, m, [])
          else
            let ch = (configureChannel (New now cid zeroID 0))\<lparr>source := addr, upstreamAddr := addr\<rparr> in
            case alloc ch m of (r, m1) \<Rightarrow>
              (Inr r, m1\<lparr>byID := (byID m1)(cid \<mapsto> r), relays := AList.update cid h (relays m1)\<rparr>,
               [RelaySetGlobalIP h (globalIP m), RelayRun h]))"

definition Reconnect :: "(nat \<Rightarrow> bool) \<Rightarrow> gnuid \<Rightarrow> 'a Manager \<Rightarrow> mgr_error option \<times> 'a mgr_effect list" where
  "Reconnect reconnectable cid m =
     (case map_of (relays m) cid of
        Some h \<Rightarrow> if reconnectable h then (None, [RelayReconnect h]) else (Some NoReconnectableSource, [])
      | None \<Rightarrow> (Some NoReconnectableSource, []))"

section \<open>Lookups and totals\<close>

definition GetByStreamKey :: "string \<Rightarrow> 'a Manager \<Rightarrow> nat option" where
  "GetByStreamKey key m = byStreamKey m key"

definition GetByID :: "gnuid \<Rightarrow> 'a Manager \<Rightarrow> nat option" where
  "GetByID cid m = byID m cid"

definition StreamKeyByID :: "gnuid \<Rightarrow> 'a Manager \<Rightarrow> string option" where
  "StreamKeyByID cid m = streamKeyByID m cid"

definition Manager_TotalRelays :: "gnuid list \<Rightarrow> 'a Manager \<Rightarrow> int" where
  "Manager_TotalRelays order m = sum_list (map (\<lambda>r. numRelays (store m r)) (Manager_List order m))"

definition TotalSendRate :: "gnuid list \<Rightarrow> (nat \<Rightarrow> int) \<Rightarrow> 'a Manager \<Rightarrow> int" where
  "TotalSendRate order sendRate m =
     sum_list (map (\<lambda>r. sum_list (map cnSendRate (Connections sendRate (store m r)))) (Manager_List order m))"

text \<open>The closure \<^verbatim>\<open>configureChannel\<close> installs; a send rate is not negative, so \<open>div\<close> is Go's division.\<close>

definition slot_check :: "gnuid list \<Rightarrow> (nat \<Rightarrow> int) \<Rightarrow> 'a Channel \<Rightarrow> 'a Manager \<Rightarrow> bool \<times> bool" where
  "slot_check order sendRate ch m =
     (let bandwidthFull = (MaxUpstreamKbps m > 0 \<and> TotalSendRate order sendRate m * 8 div 1000 \<ge> MaxUpstreamKbps m);
          relayFull = (MaxRelaysTotal m > 0 \<and> Manager_TotalRelays order m \<ge> MaxRelaysTotal m)
      in (bandwidthFull \<or> relayFull \<or> IsRelayFull (MaxRelays m) ch, bandwidthFull \<or> IsDirectFull (MaxListeners m) ch))"

definition SetGlobalIP :: "u32 \<Rightarrow> 'a Manager \<Rightarrow> 'a Manager \<times> 'a mgr_effect list" where
  "SetGlobalIP p m = (m\<lparr>globalIP := p\<rparr>, map (\<lambda>e. RelaySetGlobalIP (snd e) p) (relays m))"

section \<open>The cleaner\<close>

definition cleanerInterval :: int where
  "cleanerInterval = 5 * second"

record Cleaner =
  inactiveLimit :: int
  inactive :: "gnuid \<rightharpoonup> time"

definition NewCleaner :: "int \<Rightarrow> Cleaner" where
  "NewCleaner limit = \<lparr>inactiveLimit = limit, inactive = Map.empty\<rparr>"

definition is_idle :: "'a Channel \<Rightarrow> bool" where
  "is_idle ch \<longleftrightarrow> numListeners ch = 0 \<and> numRelays ch = 0"

definition clean_channel ::
  "string list \<Rightarrow> time \<Rightarrow> nat \<Rightarrow> Cleaner \<times> 'a Manager \<times> 'a mgr_effect list \<Rightarrow> Cleaner \<times> 'a Manager \<times> 'a mgr_effect list" where
  "clean_channel order now r st =
     (case st of (c, m, effs) \<Rightarrow>
        let ch = store m r; i = chID ch in
        if isBroadcasting ch then st
        else if is_idle ch then
          (case inactive c i of
             None \<Rightarrow> (c\<lparr>inactive := (inactive c)(i \<mapsto> now)\<rparr>, m, effs)
           | Some firstSeen \<Rightarrow>
               if now - firstSeen > inactiveLimit c then
                 (case Manager_Stop order now i m of
                    (_, m', effs') \<Rightarrow> (c\<lparr>inactive := (inactive c)(i := None)\<rparr>, m', effs @ effs'))
               else st)
        else (c\<lparr>inactive := (inactive c)(i := None)\<rparr>, m, effs))"

definition cleanup ::
  "gnuid list \<Rightarrow> string list \<Rightarrow> time \<Rightarrow> Cleaner \<Rightarrow> 'a Manager \<Rightarrow> Cleaner \<times> 'a Manager \<times> 'a mgr_effect list" where
  "cleanup corder order now c m =
     (if inactiveLimit c \<le> 0 then (c, m, [])
      else
        case fold (clean_channel order now) (Manager_List corder m) (c, m, []) of (c', m', effs) \<Rightarrow>
          (c'\<lparr>inactive := (\<lambda>i. if byID m' i = None then None else inactive c' i)\<rparr>, m', effs))"

section \<open>Invariant\<close>

definition mgr_inv :: "'a Manager \<Rightarrow> bool" where
  "mgr_inv m \<longleftrightarrow>
     (\<forall>i r. byID m i = Some r \<longrightarrow> r < nextRef m \<and> chID (store m r) = i) \<and>
     (\<forall>k r. byStreamKey m k = Some r \<longleftrightarrow> (\<exists>i. streamKeyByID m i = Some k \<and> byID m i = Some r)) \<and>
     (\<forall>i k. streamKeyByID m i = Some k \<longrightarrow> k \<noteq> [] \<and> (\<exists>r. byID m i = Some r \<and> isBroadcasting (store m r))) \<and>
     distinct (map fst (relays m)) \<and>
     (\<forall>i \<in> fst ` set (relays m). \<exists>r. byID m i = Some r \<and> \<not> isBroadcasting (store m r)) \<and>
     (\<forall>i. byID m i \<noteq> None \<longrightarrow> streamKeyByID m i \<noteq> None \<or> i \<in> fst ` set (relays m))"

lemma mgr_invI:
  assumes "\<And>i r. byID m i = Some r \<Longrightarrow> r < nextRef m \<and> chID (store m r) = i"
    "\<And>k r. byStreamKey m k = Some r \<longleftrightarrow> (\<exists>i. streamKeyByID m i = Some k \<and> byID m i = Some r)"
    "\<And>i k. streamKeyByID m i = Some k \<Longrightarrow> k \<noteq> [] \<and> (\<exists>r. byID m i = Some r \<and> isBroadcasting (store m r))"
    "distinct (map fst (relays m))"
    "\<And>i. i \<in> fst ` set (relays m) \<Longrightarrow> \<exists>r. byID m i = Some r \<and> \<not> isBroadcasting (store m r)"
    "\<And>i r. byID m i = Some r \<Longrightarrow> streamKeyByID m i \<noteq> None \<or> i \<in> fst ` set (relays m)"
  shows "mgr_inv m"
  unfolding mgr_inv_def using assms by (intro conjI allI impI ballI; blast)

lemma mgr_inv_ref: "mgr_inv m \<Longrightarrow> byID m i = Some r \<Longrightarrow> r < nextRef m \<and> chID (store m r) = i"
  unfolding mgr_inv_def by (elim conjE) blast

lemma mgr_inv_keys:
  "mgr_inv m \<Longrightarrow> byStreamKey m k = Some r \<longleftrightarrow> (\<exists>i. streamKeyByID m i = Some k \<and> byID m i = Some r)"
  unfolding mgr_inv_def by (elim conjE) (erule allE)+

lemma mgr_inv_broadcast:
  "mgr_inv m \<Longrightarrow> streamKeyByID m i = Some k \<Longrightarrow> k \<noteq> [] \<and> (\<exists>r. byID m i = Some r \<and> isBroadcasting (store m r))"
  unfolding mgr_inv_def by (elim conjE) blast

lemma mgr_inv_relays:
  "mgr_inv m \<Longrightarrow> distinct (map fst (relays m))"
  "mgr_inv m \<Longrightarrow> i \<in> fst ` set (relays m) \<Longrightarrow> \<exists>r. byID m i = Some r \<and> \<not> isBroadcasting (store m r)"
  "mgr_inv m \<Longrightarrow> byID m i = Some r \<Longrightarrow> streamKeyByID m i \<noteq> None \<or> i \<in> fst ` set (relays m)"
  unfolding mgr_inv_def by (elim conjE, blast)+

lemma byID_inj: "mgr_inv m \<Longrightarrow> byID m i = Some r \<Longrightarrow> byID m j = Some r \<Longrightarrow> i = j"
  by (metis mgr_inv_ref)

text \<open>A key has at most one channel.\<close>

lemma streamKeyByID_inj:
  assumes inv: "mgr_inv m" and k: "streamKeyByID m i = Some k" "streamKeyByID m j = Some k"
  shows "i = j"
proof -
  obtain r s where rs: "byID m i = Some r" "byID m j = Some s"
    using mgr_inv_broadcast [OF inv k(1)] mgr_inv_broadcast [OF inv k(2)] by blast
  have "byStreamKey m k = Some r" "byStreamKey m k = Some s"
    using mgr_inv_keys [OF inv] k rs by blast+
  with rs byID_inj [OF inv] show ?thesis by simp
qed

lemma mgr_inv_cong:
  assumes inv: "mgr_inv m" and eq: "byID m' = byID m" "byStreamKey m' = byStreamKey m"
    "streamKeyByID m' = streamKeyByID m" "relays m' = relays m" and le: "nextRef m \<le> nextRef m'"
    and ch: "\<And>r. r < nextRef m \<Longrightarrow> chID (store m' r) = chID (store m r) \<and> isBroadcasting (store m' r) = isBroadcasting (store m r)"
  shows "mgr_inv m'"
proof (rule mgr_invI; unfold eq)
  fix i r assume "byID m i = Some r"
  then show "r < nextRef m' \<and> chID (store m' r) = i" "streamKeyByID m i \<noteq> None \<or> i \<in> fst ` set (relays m)"
    using mgr_inv_ref [OF inv] ch le mgr_inv_relays(3) [OF inv] by (auto intro: less_le_trans)
next
  fix i k assume "streamKeyByID m i = Some k"
  then show "k \<noteq> [] \<and> (\<exists>r. byID m i = Some r \<and> isBroadcasting (store m' r))"
    using mgr_inv_broadcast [OF inv] mgr_inv_ref [OF inv] ch by metis
next
  fix i assume "i \<in> fst ` set (relays m)"
  then show "\<exists>r. byID m i = Some r \<and> \<not> isBroadcasting (store m' r)"
    using mgr_inv_relays(2) [OF inv] mgr_inv_ref [OF inv] ch by metis
qed (simp_all add: mgr_inv_keys [OF inv] mgr_inv_relays(1) [OF inv])

lemma mgr_inv_New: "mgr_inv (NewManager bid)"
  by (simp add: mgr_inv_def NewManager_def)

lemma end_channel_simps:
  "chID (fst (end_channel order now a reason ch)) = chID ch"
  "isBroadcasting (fst (end_channel order now a reason ch)) = isBroadcasting ch"
  "outputs (fst (end_channel order now a reason ch)) = []"
  by (simp_all add: end_channel_def Let_def CloseAll_def SourceDisconnected_def split: option.splits prod.splits)

lemma mgr_inv_add_broadcast:
  assumes inv: "mgr_inv m" and new: "byID m cid = None" "byStreamKey m k = None" "k \<noteq> []"
    and ch: "chID ch = cid" "isBroadcasting ch"
    and m': "m' = m\<lparr>store := (store m)(nextRef m := ch), nextRef := Suc (nextRef m), byID := (byID m)(cid \<mapsto> nextRef m),
      byStreamKey := (byStreamKey m)(k \<mapsto> nextRef m), streamKeyByID := (streamKeyByID m)(cid \<mapsto> k)\<rparr>"
  shows "mgr_inv m'"
proof (rule mgr_invI)
  fix i r assume "byID m' i = Some r"
  then show "r < nextRef m' \<and> chID (store m' r) = i" "streamKeyByID m' i \<noteq> None \<or> i \<in> fst ` set (relays m')"
    using mgr_inv_ref [OF inv, of i r] mgr_inv_relays(3) [OF inv, of i r] ch(1) by (auto simp: m' split: if_splits)
next
  fix k' r
  have nokey: "streamKeyByID m i \<noteq> Some k" for i
    using mgr_inv_keys [OF inv, of k] mgr_inv_broadcast [OF inv, of i k] new(2) by auto
  have cid: "streamKeyByID m cid = None" using mgr_inv_broadcast [OF inv, of cid] new(1) by fastforce
  show "byStreamKey m' k' = Some r \<longleftrightarrow> (\<exists>i. streamKeyByID m' i = Some k' \<and> byID m' i = Some r)"
  proof (cases "k' = k")
    case True
    then show ?thesis using nokey by (auto simp: m')
  next
    case False
    then have "(\<exists>i. streamKeyByID m' i = Some k' \<and> byID m' i = Some r) \<longleftrightarrow>
      (\<exists>i. streamKeyByID m i = Some k' \<and> byID m i = Some r)"
      using cid by (simp add: m') (metis option.distinct(1))
    then show ?thesis using False mgr_inv_keys [OF inv, of k' r] by (simp add: m')
  qed
next
  fix i k' assume "streamKeyByID m' i = Some k'"
  then show "k' \<noteq> [] \<and> (\<exists>r. byID m' i = Some r \<and> isBroadcasting (store m' r))"
    using mgr_inv_broadcast [OF inv, of i k'] mgr_inv_ref [OF inv] ch(2) new(3)
    by (auto simp: m' split: if_splits)
next
  fix i assume "i \<in> fst ` set (relays m')"
  then obtain r where "byID m i = Some r" "\<not> isBroadcasting (store m r)"
    using mgr_inv_relays(2) [OF inv] by (auto simp: m')
  then show "\<exists>r. byID m' i = Some r \<and> \<not> isBroadcasting (store m' r)"
    using mgr_inv_ref [OF inv, of i r] new(1) by (auto simp: m')
qed (simp add: m' mgr_inv_relays(1) [OF inv])

lemma mgr_inv_add_relay:
  assumes inv: "mgr_inv m" and new: "byID m cid = None" and ch: "chID ch = cid" "\<not> isBroadcasting ch"
    and m': "m' = m\<lparr>store := (store m)(nextRef m := ch), nextRef := Suc (nextRef m), byID := (byID m)(cid \<mapsto> nextRef m),
      relays := AList.update cid h (relays m)\<rparr>"
  shows "mgr_inv m'"
proof (rule mgr_invI)
  fix i r assume "byID m' i = Some r"
  then show "r < nextRef m' \<and> chID (store m' r) = i" "streamKeyByID m' i \<noteq> None \<or> i \<in> fst ` set (relays m')"
    using mgr_inv_ref [OF inv, of i r] mgr_inv_relays(3) [OF inv, of i r] ch(1)
    by (auto simp: m' dom_update split: if_splits)
next
  fix k r
  have "streamKeyByID m cid = None" using mgr_inv_broadcast [OF inv, of cid] new(1) by fastforce
  then show "byStreamKey m' k = Some r \<longleftrightarrow> (\<exists>i. streamKeyByID m' i = Some k \<and> byID m' i = Some r)"
    using mgr_inv_keys [OF inv, of k r] by (simp add: m') (metis option.distinct(1))
next
  fix i k assume "streamKeyByID m' i = Some k"
  then obtain r where "k \<noteq> []" "byID m i = Some r" "isBroadcasting (store m r)"
    using mgr_inv_broadcast [OF inv, of i k] by (auto simp: m')
  then show "k \<noteq> [] \<and> (\<exists>r. byID m' i = Some r \<and> isBroadcasting (store m' r))"
    using mgr_inv_ref [OF inv, of i r] new by (auto simp: m')
next
  fix i assume "i \<in> fst ` set (relays m')"
  then have "i = cid \<or> i \<in> fst ` set (relays m)" by (auto simp: m' dom_update)
  then consider "i = cid" | r where "i \<noteq> cid" "byID m i = Some r" "\<not> isBroadcasting (store m r)"
    using mgr_inv_relays(2) [OF inv, of i] by blast
  then show "\<exists>r. byID m' i = Some r \<and> \<not> isBroadcasting (store m' r)"
    by cases (use mgr_inv_ref [OF inv, of i] ch in \<open>auto simp: m'\<close>)
qed (simp add: m' distinct_update mgr_inv_relays(1) [OF inv])

text \<open>Deregistering a channel; the key of a relay is the empty string, which no broadcast has.\<close>

lemma mgr_inv_remove:
  assumes inv: "mgr_inv m" and r: "byID m cid = Some r"
    and ch: "chID ch = cid" "isBroadcasting ch = isBroadcasting (store m r)"
    and key: "key = (case streamKeyByID m cid of None \<Rightarrow> [] | Some k \<Rightarrow> k)"
    and m': "m' = m\<lparr>byStreamKey := (byStreamKey m)(key := None), byID := (byID m)(cid := None),
      streamKeyByID := (streamKeyByID m)(cid := None), relays := AList.delete cid (relays m),
      store := (store m)(r := ch)\<rparr>"
  shows "mgr_inv m'"
proof -
  have other: "s \<noteq> r" if "byID m i = Some s" "i \<noteq> cid" for i s using byID_inj [OF inv r] that by auto
  have nokey: "i = cid" if "streamKeyByID m i = Some key" for i
    using streamKeyByID_inj [OF inv that] mgr_inv_broadcast [OF inv that] key by (auto split: option.splits)
  have del: "fst ` set (AList.delete cid (relays m)) = fst ` set (relays m) - {cid}"
    using arg_cong [OF AList.delete_keys [of cid "relays m"], of set] by simp
  show ?thesis
  proof (rule mgr_invI)
    fix i s assume "byID m' i = Some s"
    then have "byID m i = Some s" "i \<noteq> cid" by (auto simp: m' split: if_splits)
    then show "s < nextRef m' \<and> chID (store m' s) = i" "streamKeyByID m' i \<noteq> None \<or> i \<in> fst ` set (relays m')"
      using mgr_inv_ref [OF inv] mgr_inv_relays(3) [OF inv] other del by (auto simp: m')
  next
    fix k s
    show "byStreamKey m' k = Some s \<longleftrightarrow> (\<exists>i. streamKeyByID m' i = Some k \<and> byID m' i = Some s)"
    proof (cases "k = key")
      case True
      then show ?thesis using nokey by (auto simp: m' split: if_splits)
    next
      case False
      then have "streamKeyByID m cid \<noteq> Some k" using key by (auto split: option.splits)
      then have "(\<exists>i. streamKeyByID m' i = Some k \<and> byID m' i = Some s) \<longleftrightarrow>
        (\<exists>i. streamKeyByID m i = Some k \<and> byID m i = Some s)" by (simp add: m') (metis option.distinct(1))
      then show ?thesis using False mgr_inv_keys [OF inv, of k s] by (simp add: m')
    qed
  next
    fix i k assume "streamKeyByID m' i = Some k"
    then have "streamKeyByID m i = Some k" "i \<noteq> cid" by (auto simp: m' split: if_splits)
    then obtain s where "k \<noteq> []" "byID m i = Some s" "isBroadcasting (store m s)"
      using mgr_inv_broadcast [OF inv, of i k] by auto
    with \<open>i \<noteq> cid\<close> show "k \<noteq> [] \<and> (\<exists>r. byID m' i = Some r \<and> isBroadcasting (store m' r))"
      using other by (auto simp: m')
  next
    fix i assume "i \<in> fst ` set (relays m')"
    then have "i \<in> fst ` set (relays m)" "i \<noteq> cid" using del by (auto simp: m')
    then obtain s where "byID m i = Some s" "\<not> isBroadcasting (store m s)" using mgr_inv_relays(2) [OF inv] by blast
    with \<open>i \<noteq> cid\<close> show "\<exists>r. byID m' i = Some r \<and> \<not> isBroadcasting (store m' r)" using other by (auto simp: m')
  qed (simp add: m' distinct_delete mgr_inv_relays(1) [OF inv])
qed

lemma mgr_inv_stopInstance: "mgr_inv m \<Longrightarrow> mgr_inv (fst (snd (stopInstance order now cid ex a reason m)))"
proof (cases "byID m cid")
  case (Some r)
  assume inv: "mgr_inv m"
  let ?ch = "fst (end_channel order now a reason (store m r))"
  have "chID ?ch = cid" "isBroadcasting ?ch = isBroadcasting (store m r)"
    using mgr_inv_ref [OF inv Some] by (simp_all add: end_channel_simps)
  from mgr_inv_remove [OF inv Some this refl refl] inv Some show ?thesis
    by (auto simp: stopInstance_def Let_def split: prod.splits)
qed (simp add: stopInstance_def)

lemma end_channels_maps:
  "byID (fst (end_channels inputs now rs m)) = byID m \<and> byStreamKey (fst (end_channels inputs now rs m)) = byStreamKey m \<and>
   streamKeyByID (fst (end_channels inputs now rs m)) = streamKeyByID m \<and> relays (fst (end_channels inputs now rs m)) = relays m"
proof (induction rs arbitrary: m)
  case (Cons r rs)
  obtain ch' effs where 1: "end_channel (inputs r) now (Actor_of ''system'') ''server_shutdown'' (store m r) = (ch', effs)"
    by fastforce
  obtain m' effs' where 2: "end_channels inputs now rs (m\<lparr>store := (store m)(r := ch')\<rparr>) = (m', effs')" by fastforce
  show ?case using Cons.IH [of "m\<lparr>store := (store m)(r := ch')\<rparr>"] unfolding 2 by (simp add: 1 2)
qed simp

lemma mgr_inv_StopAll: "mgr_inv (fst (StopAll order inputs now m))"
proof -
  let ?m1 = "m\<lparr>byID := Map.empty, byStreamKey := Map.empty, streamKeyByID := Map.empty, relays := []\<rparr>"
  obtain m2 effs where m2: "end_channels inputs now (Manager_List order m) ?m1 = (m2, effs)" by fastforce
  then have "byID m2 = Map.empty" "byStreamKey m2 = Map.empty" "streamKeyByID m2 = Map.empty" "relays m2 = []"
    using end_channels_maps [of inputs now "Manager_List order m" ?m1] by auto
  then have "mgr_inv m2" by (intro mgr_invI) auto
  with m2 show ?thesis by (simp add: StopAll_def Let_def)
qed

section \<open>Reachable states\<close>

text \<open>
  A broadcast is started under a stream key that is not empty, and under a channel identifier that
  is not active; the code does not check the latter, see \<open>colliding_keys\<close> below.
\<close>

inductive mgr_reach :: "'a Manager \<Rightarrow> bool" where
  new: "mgr_reach (NewManager bid)"
| configure: "mgr_reach m \<Longrightarrow> mgr_reach (m\<lparr>mgrAudit := au, mgrNetwork := net, MaxRelays := a, MaxListeners := b,
    MaxRelaysTotal := c, MaxUpstreamKbps := d, keys := ks, ContentBufferSeconds := e, hasNewRelay := f,
    MaxRelayChannels := g, globalIP := p\<rparr>)"
| broadcast: "mgr_reach m \<Longrightarrow> k \<noteq> [] \<Longrightarrow>
    byID m (channelIDForBroadcast (mgrBroadcastID m) k (Name ci) (Genre ci) (Bitrate ci)) = None \<Longrightarrow>
    mgr_reach (fst (snd (BroadcastWithAudit E k ci tr a ig pending m)))"
| stop: "mgr_reach m \<Longrightarrow> mgr_reach (fst (snd (stopInstance order now cid ex a reason m)))"
| stop_all: "mgr_reach m \<Longrightarrow> mgr_reach (fst (StopAll corder inputs now m))"
| start_relay: "mgr_reach m \<Longrightarrow> mgr_reach (fst (snd (StartRelay now h cid addr m)))"
| channel: "mgr_reach m \<Longrightarrow> chID ch = chID (store m r) \<Longrightarrow> isBroadcasting ch = isBroadcasting (store m r) \<Longrightarrow>
    mgr_reach (m\<lparr>store := (store m)(r := ch)\<rparr>)"

lemma new_broadcast_channel_simps:
  "chID (fst (new_broadcast_channel E k ci tr a ig pending m)) =
     channelIDForBroadcast (mgrBroadcastID m) k (Name ci) (Genre ci) (Bitrate ci)"
  "isBroadcasting (fst (new_broadcast_channel E k ci tr a ig pending m))"
  by (simp_all add: new_broadcast_channel_def Let_def configureChannel_def New_def split: prod.splits)

lemma Broadcast_result:
  assumes "BroadcastWithAudit E k ci tr a ig pending m = (Inr r, m', effs)"
  shows "IsIssuedKey k (keys m)" "byStreamKey m k = None" "r = nextRef m"
    "m' = m\<lparr>store := (store m)(nextRef m := fst (new_broadcast_channel E k ci tr a ig pending m)), nextRef := Suc (nextRef m),
       byID := (byID m)(channelIDForBroadcast (mgrBroadcastID m) k (Name ci) (Genre ci) (Bitrate ci) \<mapsto> nextRef m),
       byStreamKey := (byStreamKey m)(k \<mapsto> nextRef m),
       streamKeyByID := (streamKeyByID m)(channelIDForBroadcast (mgrBroadcastID m) k (Name ci) (Genre ci) (Bitrate ci) \<mapsto> k)\<rparr>"
  using assms new_broadcast_channel_simps(1) [of E k ci tr a ig pending m]
  by (auto simp: BroadcastWithAudit_def alloc_def split: if_splits prod.splits)

lemma Broadcast_error: "BroadcastWithAudit E k ci tr a ig pending m = (Inl e, m', effs) \<Longrightarrow> m' = m \<and> effs = []"
  by (auto simp: BroadcastWithAudit_def alloc_def split: if_splits prod.splits)

lemma StartRelay_result:
  assumes "StartRelay now h cid addr m = (res, m', effs)"
  shows "m' = m \<and> effs = [] \<or>
    byID m cid = None \<and> \<not> (MaxRelayChannels m > 0 \<and> int (length (relays m)) \<ge> MaxRelayChannels m) \<and> res = Inr (nextRef m) \<and>
    m' = m\<lparr>store := (store m)(nextRef m := (configureChannel (New now cid zeroID 0))\<lparr>source := addr, upstreamAddr := addr\<rparr>),
      nextRef := Suc (nextRef m), byID := (byID m)(cid \<mapsto> nextRef m), relays := AList.update cid h (relays m)\<rparr> \<and>
    effs = [RelaySetGlobalIP h (globalIP m), RelayRun h]"
  using assms by (auto simp: StartRelay_def alloc_def Let_def split: if_splits option.splits)

lemma length_update_new: "i \<notin> fst ` set xs \<Longrightarrow> length (AList.update i v xs) = Suc (length xs)"
  by (induction xs) auto

lemma mgr_reach_inv: "mgr_reach m \<Longrightarrow> mgr_inv m"
proof (induction rule: mgr_reach.induct)
  case (configure m)
  show ?case by (rule mgr_inv_cong [OF configure.IH]) simp_all
next
  case (broadcast m k ci E tr a ig pending)
  obtain res m' effs where run: "BroadcastWithAudit E k ci tr a ig pending m = (res, m', effs)" by (metis prod_cases3)
  show ?case
  proof (cases res)
    case (Inl e)
    with run broadcast.IH Broadcast_error show ?thesis by fastforce
  next
    case (Inr r)
    note res = Broadcast_result [OF run [unfolded Inr]]
    from mgr_inv_add_broadcast [OF broadcast.IH broadcast.hyps(3) res(2) broadcast.hyps(2)
        new_broadcast_channel_simps res(4)] run show ?thesis by simp
  qed
next
  case (start_relay m now h cid addr)
  obtain res m' effs where run: "StartRelay now h cid addr m = (res, m', effs)" by (metis prod_cases3)
  show ?case
    using StartRelay_result [OF run] start_relay.IH run
      mgr_inv_add_relay [OF start_relay.IH, of cid "(configureChannel (New now cid zeroID 0))\<lparr>source := addr, upstreamAddr := addr\<rparr>"]
    by (auto simp: configureChannel_def New_def)
next
  case (channel m ch r)
  show ?case by (rule mgr_inv_cong [OF channel.IH]) (use channel.hyps in auto)
qed (simp_all add: mgr_inv_New mgr_inv_stopInstance mgr_inv_StopAll)

section \<open>Properties\<close>


text \<open>
  C29.  The life of a broadcast.  Only an issued key without an active channel starts one; while it
  runs the key is refused; stopping it frees the key, which stays issued; and starting it again
  with the same metadata gives the same channel identifier.
\<close>

theorem broadcast_lifecycle:
  assumes "mgr_reach m" "BroadcastWithAudit E k ci tr a ig pending m = (Inr r, m1, effs)"
    "cid = chID (store m1 r)" "stopInstance order now cid None a' reason m1 = (ok, m2, effs')"
  shows "IsIssuedKey k (keys m) \<and> GetByStreamKey k m = None \<and> GetByStreamKey k m1 = Some r \<and> GetByID cid m1 = Some r \<and>
    fst (BroadcastWithAudit E' k ci' tr' a ig' pending' m1) = Inl KeyActive \<and>
    ok \<and> GetByStreamKey k m2 = None \<and> GetByID cid m2 = None \<and> IsIssuedKey k (keys m2) \<and>
    (\<exists>r' m3 effs''. BroadcastWithAudit E' k ci tr' a ig' pending' m2 = (Inr r', m3, effs'') \<and> chID (store m3 r') = cid)"
proof -
  note res = Broadcast_result [OF assms(2)]
  let ?cid = "channelIDForBroadcast (mgrBroadcastID m) k (Name ci) (Genre ci) (Bitrate ci)"
  have cid: "cid = ?cid" using assms(3) res by (simp add: new_broadcast_channel_simps)
  have m1: "byStreamKey m1 k = Some r" "byID m1 cid = Some r" "streamKeyByID m1 cid = Some k" "keys m1 = keys m"
    "mgrBroadcastID m1 = mgrBroadcastID m"
    using res cid by simp_all
  then have m2: "ok" "byStreamKey m2 k = None" "byID m2 cid = None" "keys m2 = keys m" "mgrBroadcastID m2 = mgrBroadcastID m"
    using assms(4) by (auto simp: stopInstance_def Let_def split: prod.splits)
  obtain x m3 effs'' where again: "BroadcastWithAudit E' k ci tr' a ig' pending' m2 = (x, m3, effs'')" by (metis prod_cases3)
  then obtain r' where "x = Inr r'" using res(1) m2 by (auto simp: BroadcastWithAudit_def alloc_def split: prod.splits if_splits)
  with Broadcast_result [of E' k ci tr' a ig' pending' m2 r' m3 effs''] again m2 cid
  have "chID (store m3 r') = cid" by (simp add: new_broadcast_channel_simps)
  with again \<open>x = Inr r'\<close> m1 m2 res(1,2) show ?thesis
    by (simp add: GetByStreamKey_def GetByID_def BroadcastWithAudit_def)
qed

text \<open>
  Stopping a channel stops all of it and nothing else: its relay client is told to stop, every
  output is closed, the channel ends up without outputs and unreachable by identifier or key, and
  all other active channels are untouched.
\<close>

theorem stop_is_complete:
  assumes "mgr_reach m" "byID m cid = Some r" "ex = None \<or> ex = Some r"
    "stopInstance order now cid ex a reason m = (ok, m', effs)"
  shows "ok \<and> GetByID cid m' = None \<and> (\<forall>k. GetByStreamKey k m' \<noteq> Some r) \<and> outputs (store m' r) = [] \<and>
    (\<forall>o' \<in> set (outputs (store m r)). ChanEffect r (CloseOut (oRef o')) \<in> set effs) \<and>
    (\<forall>h. map_of (relays m) cid = Some h \<longrightarrow> RelayStop h \<in> set effs \<and> map_of (relays m') cid = None) \<and>
    (\<forall>i s. i \<noteq> cid \<and> GetByID i m = Some s \<longrightarrow> GetByID i m' = Some s \<and> store m' s = store m s)"
proof -
  note inv = mgr_reach_inv [OF assms(1)]
  have inv': "mgr_inv m'" using mgr_inv_stopInstance [OF inv, of order now cid ex a reason] assms(4) by simp
  obtain ch' es where ch': "end_channel order now a reason (store m r) = (ch', es)" by fastforce
  then have closed: "outputs ch' = []" "\<forall>o' \<in> set (outputs (store m r)). CloseOut (oRef o') \<in> set es"
    using end_channel_simps(3) [of order now a reason "store m r"]
    by (auto simp: end_channel_def Let_def CloseAll_def SourceDisconnected_def split: option.splits prod.splits)
  have res: "ok" "byID m' = (byID m)(cid := None)" "store m' = (store m)(r := ch')" "relays m' = AList.delete cid (relays m)"
    "effs = (case map_of (relays m) cid of None \<Rightarrow> [] | Some h \<Rightarrow> [RelayStop h]) @ map (ChanEffect r) es"
    using assms(2-4) ch' by (auto simp: stopInstance_def Let_def)
  have other: "s \<noteq> r" if "byID m i = Some s" "i \<noteq> cid" for i s using byID_inj [OF inv assms(2)] that by auto
  then have "byStreamKey m' k \<noteq> Some r" for k
    using mgr_inv_keys [OF inv', of k r] res(2) assms(2) by auto
  with res closed other show ?thesis
    by (auto simp: GetByID_def GetByStreamKey_def delete_conv')
qed

text \<open>
  Relays are started on demand within the limit: an active channel is returned as it is and
  nothing is started; otherwise a new relay channel is registered with its client, which is given
  the node's global address and run, unless the number of relay channels has reached the limit.
\<close>

theorem StartRelay_on_demand:
  assumes "mgr_reach m" "hasNewRelay m" "StartRelay now h cid addr m = (res, m', effs)"
  shows "(\<forall>r. GetByID cid m = Some r \<longrightarrow> res = Inr r \<and> m' = m \<and> effs = []) \<and>
    (GetByID cid m = None \<longrightarrow>
       (if 0 < MaxRelayChannels m \<and> MaxRelayChannels m \<le> int (length (relays m))
        then res = Inl ErrRelayChannelLimit \<and> m' = m \<and> effs = []
        else (\<exists>r. res = Inr r \<and> GetByID cid m' = Some r \<and> chID (store m' r) = cid \<and> \<not> isBroadcasting (store m' r) \<and>
               map_of (relays m') cid = Some h \<and> effs = [RelaySetGlobalIP h (globalIP m), RelayRun h]))) \<and>
    (0 < MaxRelayChannels m \<and> int (length (relays m)) \<le> MaxRelayChannels m \<longrightarrow>
       int (length (relays m')) \<le> MaxRelayChannels m)"
proof -
  have "length (AList.update cid h (relays m)) = Suc (length (relays m))" if "byID m cid = None"
  proof -
    have "cid \<notin> fst ` set (relays m)" using mgr_inv_relays(2) [OF mgr_reach_inv [OF assms(1)], of cid] that by auto
    then show ?thesis by (rule length_update_new)
  qed
  then show ?thesis
    using assms(2,3) by (auto simp: GetByID_def StartRelay_def alloc_def Let_def configureChannel_def New_def update_conv'
        split: if_splits option.splits)
qed

subsection \<open>The cleaner\<close>

definition stale :: "Cleaner \<Rightarrow> time \<Rightarrow> 'a Channel \<Rightarrow> bool" where
  "stale c now ch \<longleftrightarrow> \<not> isBroadcasting ch \<and> is_idle ch \<and>
     (case inactive c (chID ch) of None \<Rightarrow> False | Some t \<Rightarrow> now - t > inactiveLimit c)"

text \<open>What one pass records about a channel it looks at.\<close>

definition tick :: "Cleaner \<Rightarrow> time \<Rightarrow> 'a Channel \<Rightarrow> time option" where
  "tick c now ch =
     (if isBroadcasting ch then inactive c (chID ch)
      else if \<not> is_idle ch \<or> stale c now ch then None
      else case inactive c (chID ch) of None \<Rightarrow> Some now | Some t \<Rightarrow> Some t)"

lemma stop_frame:
  assumes "mgr_inv m" "byID m i = Some r" "Manager_Stop order now i m = (ok, m', effs)"
  shows "mgr_inv m'" "byID m' i = None" "j \<noteq> i \<Longrightarrow> byID m' j = byID m j" "s \<noteq> r \<Longrightarrow> store m' s = store m s"
proof -
  show "mgr_inv m'"
    using mgr_inv_stopInstance [OF assms(1), of order now i None "Actor_of ''admin''" "''admin_stop''"] assms(3)
    by (simp add: Manager_Stop_def StopWithAudit_def)
qed (use assms(2,3) in \<open>auto simp: Manager_Stop_def StopWithAudit_def stopInstance_def Let_def split: prod.splits\<close>)

lemma clean_channel_step:
  assumes "mgr_inv m" "byID m i = Some r" "clean_channel order now r (c, m, effs) = (c1, m1, effs1)"
  shows "mgr_inv m1" "inactiveLimit c1 = inactiveLimit c" "inactive c1 = (inactive c)(i := tick c now (store m r))"
    "byID m1 i = (if stale c now (store m r) then None else Some r)" "j \<noteq> i \<Longrightarrow> byID m1 j = byID m j"
    "s \<noteq> r \<Longrightarrow> store m1 s = store m s" "\<not> stale c now (store m r) \<Longrightarrow> store m1 r = store m r"
proof -
  have i: "chID (store m r) = i" using mgr_inv_ref [OF assms(1,2)] by simp
  consider "stale c now (store m r)" | "\<not> stale c now (store m r)" by blast
  then have "mgr_inv m1 \<and> inactiveLimit c1 = inactiveLimit c \<and> inactive c1 = (inactive c)(i := tick c now (store m r)) \<and>
    byID m1 i = (if stale c now (store m r) then None else Some r) \<and> (j \<noteq> i \<longrightarrow> byID m1 j = byID m j) \<and>
    (s \<noteq> r \<longrightarrow> store m1 s = store m s) \<and> (\<not> stale c now (store m r) \<longrightarrow> store m1 r = store m r)" for j s
  proof cases
    case 1
    obtain ok m' effs' where stop: "Manager_Stop order now i m = (ok, m', effs')" by (metis prod_cases3)
    with 1 assms(3) i have "m1 = m'" "c1 = c\<lparr>inactive := (inactive c)(i := None)\<rparr>"
      by (auto simp: clean_channel_def Let_def stale_def split: option.splits)
    with 1 stop_frame [OF assms(1,2) stop] show ?thesis by (auto simp: tick_def stale_def)
  next
    case 2
    with assms i show ?thesis
      by (auto simp: clean_channel_def Let_def stale_def tick_def fun_upd_idem split: option.splits if_splits)
  qed
  then show "mgr_inv m1" "inactiveLimit c1 = inactiveLimit c" "inactive c1 = (inactive c)(i := tick c now (store m r))"
    "byID m1 i = (if stale c now (store m r) then None else Some r)" "j \<noteq> i \<Longrightarrow> byID m1 j = byID m j"
    "s \<noteq> r \<Longrightarrow> store m1 s = store m s" "\<not> stale c now (store m r) \<Longrightarrow> store m1 r = store m r"
    by blast+
qed

lemma clean_channels:
  assumes "mgr_inv m" "distinct rs" "\<forall>r \<in> set rs. byID m (chID (store m r)) = Some r"
    "fold (clean_channel order now) rs (c, m, effs) = (c', m', effs')"
  shows "mgr_inv m' \<and> inactiveLimit c' = inactiveLimit c \<and>
    (\<forall>i. byID m i = None \<longrightarrow> byID m' i = None \<and> inactive c' i = inactive c i) \<and>
    (\<forall>i r. byID m i = Some r \<longrightarrow>
       byID m' i = (if r \<in> set rs \<and> stale c now (store m r) then None else Some r) \<and>
       (\<not> (r \<in> set rs \<and> stale c now (store m r)) \<longrightarrow> store m' r = store m r) \<and>
       inactive c' i = (if r \<in> set rs then tick c now (store m r) else inactive c i))"
  using assms
proof (induction rs arbitrary: c m effs)
  case (Cons r rs)
  let ?i = "chID (store m r)"
  obtain c1 m1 effs1 where 1: "clean_channel order now r (c, m, effs) = (c1, m1, effs1)" by (metis prod_cases3)
  have reg: "byID m ?i = Some r" using Cons.prems(3) by simp
  note step = clean_channel_step [OF Cons.prems(1) reg 1]
  have id: "chID (store m s) = i" "s \<in> set rs \<Longrightarrow> s \<noteq> r" if "byID m i = Some s" for i s
    using mgr_inv_ref [OF Cons.prems(1) that] Cons.prems(2) by auto
  have rest: "\<forall>s \<in> set rs. byID m1 (chID (store m1 s)) = Some s"
  proof
    fix s assume s: "s \<in> set rs"
    then have "byID m (chID (store m s)) = Some s" "s \<noteq> r" using Cons.prems(2,3) by auto
    moreover from this reg have "chID (store m s) \<noteq> ?i" by auto
    ultimately show "byID m1 (chID (store m1 s)) = Some s" using step(5,6) by simp
  qed
  have fold: "fold (clean_channel order now) rs (c1, m1, effs1) = (c', m', effs')" using Cons.prems(4) 1 by simp
  note IH = Cons.IH [OF step(1) _ rest fold]
  have same: "stale c1 now (store m1 s) = stale c now (store m s)" "tick c1 now (store m1 s) = tick c now (store m s)"
    if "byID m i = Some s" "s \<noteq> r" for i s
  proof -
    have "chID (store m s) \<noteq> ?i" using reg id(1) [OF that(1)] that by auto
    then have eqs: "store m1 s = store m s" "inactive c1 (chID (store m s)) = inactive c (chID (store m s))"
      using step(3,6) that(2) by simp_all
    show "stale c1 now (store m1 s) = stale c now (store m s)" "tick c1 now (store m1 s) = tick c now (store m s)"
      unfolding tick_def stale_def eqs step(2) by (rule refl)+
  qed
  have key: "byID m' i = (if s \<in> set (r # rs) \<and> stale c now (store m s) then None else Some s) \<and>
      (\<not> (s \<in> set (r # rs) \<and> stale c now (store m s)) \<longrightarrow> store m' s = store m s) \<and>
      inactive c' i = (if s \<in> set (r # rs) then tick c now (store m s) else inactive c i)" if "byID m i = Some s" for i s
  proof (cases "s = r")
    case True
    then have i: "i = ?i" using id(1) [OF that] by simp
    show ?thesis
    proof (cases "stale c now (store m r)")
      case stale: True
      then have "byID m1 i = None" using step(4) i by simp
      with IH Cons.prems(2) show ?thesis using True stale step(3) i by simp
    next
      case False
      then have "byID m1 i = Some r" "store m1 r = store m r" using step(4,7) i by simp_all
      with IH Cons.prems(2) show ?thesis using True False step(3) i by simp
    qed
  next
    case False
    then have "i \<noteq> ?i" using reg that by auto
    then have "byID m1 i = Some s" "store m1 s = store m s" "inactive c1 i = inactive c i" using step(3,5,6) that False by simp_all
    with IH Cons.prems(2) show ?thesis using False same [OF that False] by simp
  qed
  have none: "byID m' i = None \<and> inactive c' i = inactive c i" if "byID m i = None" for i
  proof -
    have "i \<noteq> ?i" using reg that by auto
    then have "byID m1 i = None" "inactive c1 i = inactive c i" using step(3,5) that by simp_all
    with IH Cons.prems(2) show ?thesis by simp
  qed
  from key none IH Cons.prems(2) step(2) show ?case by simp
qed simp

text \<open>
  The cleaner removes exactly the relay channels that have stayed idle.  In one pass a channel is
  stopped if and only if it is a relay, has no listener and no relay, and was first seen idle more
  than the limit ago; every other channel is untouched.  The time of first idleness is started when
  a relay is seen idle, kept while it stays idle, and cleared as soon as it is used or gone.
\<close>

theorem cleaner_removes_idle_relays:
  assumes "mgr_reach m" "0 < inactiveLimit c" "distinct corder" "dom (byID m) \<subseteq> set corder"
    "cleanup corder order now c m = (c', m', effs)" "byID m i = Some r"
  shows "(byID m' i = None \<longleftrightarrow>
            \<not> isBroadcasting (store m r) \<and> numListeners (store m r) = 0 \<and> numRelays (store m r) = 0 \<and>
            (\<exists>t. inactive c i = Some t \<and> inactiveLimit c < now - t)) \<and>
         (byID m' i \<noteq> None \<longrightarrow> byID m' i = Some r \<and> store m' r = store m r) \<and>
         (\<not> isBroadcasting (store m r) \<longrightarrow>
            inactive c' i =
              (if byID m' i = None \<or> numListeners (store m r) \<noteq> 0 \<or> numRelays (store m r) \<noteq> 0 then None
               else Some (case inactive c i of None \<Rightarrow> now | Some t \<Rightarrow> t)))"
proof -
  note inv = mgr_reach_inv [OF assms(1)]
  let ?rs = "Manager_List corder m"
  obtain c1 effs1 where fold: "fold (clean_channel order now) ?rs (c, m, []) = (c1, m', effs1)"
    and c': "c' = c1\<lparr>inactive := (\<lambda>i. if byID m' i = None then None else inactive c1 i)\<rparr>"
    using assms(2,5) by (auto simp: cleanup_def split: prod.splits)
  have mem: "s \<in> set ?rs \<longleftrightarrow> (\<exists>j \<in> set corder. byID m j = Some s)" for s
    by (simp add: Manager_List_def set_map_filter)
  have "inj_on (\<lambda>j. the (byID m j)) {j. byID m j \<noteq> None}"
    by (rule inj_onI) (use byID_inj [OF inv] in auto)
  then have "distinct ?rs"
    using assms(3) by (auto simp: Manager_List_def map_filter_def distinct_map comp_def intro: inj_on_subset)
  moreover have "\<forall>s \<in> set ?rs. byID m (chID (store m s)) = Some s" using mem mgr_inv_ref [OF inv] by auto
  ultimately have res: "byID m' i = (if r \<in> set ?rs \<and> stale c now (store m r) then None else Some r)"
    "\<not> (r \<in> set ?rs \<and> stale c now (store m r)) \<longrightarrow> store m' r = store m r"
    "inactive c1 i = (if r \<in> set ?rs then tick c now (store m r) else inactive c i)"
    using clean_channels [OF inv _ _ fold] assms(6) by blast+
  have "r \<in> set ?rs" using mem assms(4,6) by blast
  moreover have "chID (store m r) = i" using mgr_inv_ref [OF inv assms(6)] by simp
  ultimately show ?thesis
    using res by (auto simp: c' stale_def is_idle_def tick_def split: option.splits)
qed

subsection \<open>Colliding channel identifiers\<close>

text \<open>
  The identifier folds the name and key together with exclusive or, so two issued keys can produce
  the same one.  Starting the second broadcast then takes over the identifier of the first, which
  can no longer be stopped, and whose key stays refused.
\<close>

lemma colliding_keys:
  assumes "mgr_reach m" "k \<noteq> k'" "IsIssuedKey k (keys m)" "IsIssuedKey k' (keys m)"
    "byStreamKey m k = None" "byStreamKey m k' = None"
    and cid: "channelIDForBroadcast (mgrBroadcastID m) k (Name ci) (Genre ci) (Bitrate ci) = cid"
      "channelIDForBroadcast (mgrBroadcastID m) k' (Name ci) (Genre ci) (Bitrate ci) = cid"
    and run: "BroadcastWithAudit E k ci tr a ig p m = (Inr r, m1, e1)" "BroadcastWithAudit E' k' ci tr a ig p m1 = (Inr r', m2, e2)"
      "stopInstance order now cid None a reason m2 = (ok, m3, e3)"
  shows "ok \<and> byID m3 cid = None \<and> byStreamKey m3 k = Some r \<and> outputs (store m3 r) = outputs (store m1 r) \<and>
    fst (stopInstance order now cid None a reason m3) = False \<and>
    fst (BroadcastWithAudit E'' k ci' tr a ig p m3) = Inl KeyActive"
proof -
  note r1 = Broadcast_result [OF run(1)] and r2 = Broadcast_result [OF run(2)]
  have "byID m2 cid = Some r'" "streamKeyByID m2 cid = Some k'" "byStreamKey m2 k = Some r" "r \<noteq> r'" "keys m2 = keys m"
    "store m2 r = store m1 r"
    using r1 r2 cid assms(2) by simp_all
  then have "ok" "byID m3 cid = None" "byStreamKey m3 k = Some r" "store m3 r = store m1 r" "keys m3 = keys m"
    using run(3) assms(2) by (auto simp: stopInstance_def Let_def split: prod.splits)
  then show ?thesis using assms(3) by (simp add: stopInstance_def BroadcastWithAudit_def)
qed

definition collide1 :: string where
  "collide1 = (replicate 39 (CHR ''a''))[9 := CHR ''b'']"

definition collide2 :: string where
  "collide2 = (replicate 39 (CHR ''a''))[25 := CHR ''b'']"

lemma collision_exists:
  assumes "length bid = 16"
  shows "collide1 \<noteq> collide2 \<and> channelIDForBroadcast bid collide1 [] [] 0 = channelIDForBroadcast bid collide2 [] [] 0"
proof
  show "collide1 \<noteq> collide2" by code_simp
  have "map (mix_byte ([CHR 0x00] @ collide1) [] 48) [0..<16] = map (mix_byte ([CHR 0x00] @ collide2) [] 48) [0..<16]"
    by code_simp
  then have "mix_byte ([CHR 0x00] @ collide1) [] 48 j = mix_byte ([CHR 0x00] @ collide2) [] 48 j" if "j < 16" for j
    using that by simp
  moreover have "mix_rounds ([CHR 0x00] @ collide1) [] = 48" "mix_rounds ([CHR 0x00] @ collide2) [] = 48" by code_simp+
  ultimately show "channelIDForBroadcast bid collide1 [] [] 0 = channelIDForBroadcast bid collide2 [] [] 0"
    unfolding channelIDForBroadcast_def using assms by (intro nth_equalityI) (simp_all add: ChannelID_nth)
qed

section \<open>An example\<close>

definition demo_mgr :: "wire_atom Manager" where
  "demo_mgr = (NewManager (replicate 16 2))\<lparr>keys := snd (IssueStreamKey True ''bob'' ''k1'' NewStreamKeyStore),
     hasNewRelay := True, MaxRelayChannels := 1\<rparr>"

definition demo_env :: bc_env where
  "demo_env = \<lparr>bcNow = 5, bcRand = replicate 16 1, bcOrder = [''bob'']\<rparr>"

lemma demo_mgr_reach: "mgr_reach demo_mgr"
proof -
  have "demo_mgr = (NewManager (replicate 16 2))\<lparr>mgrAudit := False, mgrNetwork := NetworkState0, MaxRelays := 0,
     MaxListeners := 0, MaxRelaysTotal := 0, MaxUpstreamKbps := 0, keys := keys demo_mgr, ContentBufferSeconds := 0,
     hasNewRelay := True, MaxRelayChannels := 1, globalIP := 0\<rparr>"
    by (simp add: demo_mgr_def NewManager_def)
  then show ?thesis using mgr_reach.configure [OF mgr_reach.new] by metis
qed

lemma demo_mgr_keys: "IsIssuedKey ''k1'' (keys demo_mgr)" "byStreamKey demo_mgr k = None" "byID demo_mgr i = None"
  "relays demo_mgr = []" "hasNewRelay demo_mgr" "MaxRelayChannels demo_mgr = 1"
  by (simp_all add: demo_mgr_def NewManager_def IsIssuedKey_def IssueStreamKey_def NewStreamKeyStore_def saveCache_def Let_def)

lemma demo_broadcast:
  obtains r m effs where
    "BroadcastWithAudit demo_env ''k1'' ChannelInfo0 TrackInfo0 (Actor_of ''admin'') None False demo_mgr = (Inr r, m, effs)"
    "mgr_reach m"
proof -
  obtain x m effs where run:
    "BroadcastWithAudit demo_env ''k1'' ChannelInfo0 TrackInfo0 (Actor_of ''admin'') None False demo_mgr = (x, m, effs)"
    by (metis prod_cases3)
  moreover from run have "\<exists>r. x = Inr r"
    using demo_mgr_keys(1,2) by (auto simp: BroadcastWithAudit_def alloc_def split: prod.splits)
  moreover have "mgr_reach (fst (snd (BroadcastWithAudit demo_env ''k1'' ChannelInfo0 TrackInfo0 (Actor_of ''admin'') None False demo_mgr)))"
    by (rule mgr_reach.broadcast [OF demo_mgr_reach]) (simp_all add: demo_mgr_keys)
  ultimately show ?thesis using that by auto
qed


theorem broadcast_lifecycle_witness:
  "\<exists>r m1 effs. BroadcastWithAudit demo_env ''k1'' ChannelInfo0 TrackInfo0 (Actor_of ''admin'') None False demo_mgr = (Inr r, m1, effs) \<and>
     fst (BroadcastWithAudit demo_env ''k1'' ChannelInfo0 TrackInfo0 (Actor_of ''admin'') None False m1) = Inl KeyActive"
proof -
  obtain r m1 effs where run:
    "BroadcastWithAudit demo_env ''k1'' ChannelInfo0 TrackInfo0 (Actor_of ''admin'') None False demo_mgr = (Inr r, m1, effs)" "mgr_reach m1"
    by (rule demo_broadcast)
  obtain ok m2 effs' where stop: "stopInstance [] 9 (chID (store m1 r)) None (Actor_of ''admin'') ''stop'' m1 = (ok, m2, effs')"
    by (metis prod_cases3)
  from broadcast_lifecycle [OF demo_mgr_reach run(1) refl stop] run(1) show ?thesis by blast
qed

theorem stop_is_complete_witness:
  "\<exists>r m1 effs. BroadcastWithAudit demo_env ''k1'' ChannelInfo0 TrackInfo0 (Actor_of ''admin'') None False demo_mgr = (Inr r, m1, effs) \<and>
     fst (stopInstance [] 9 (chID (store m1 r)) (Some r) (Actor_of ''admin'') ''stop'' m1)"
proof -
  obtain r m1 effs where run:
    "BroadcastWithAudit demo_env ''k1'' ChannelInfo0 TrackInfo0 (Actor_of ''admin'') None False demo_mgr = (Inr r, m1, effs)" "mgr_reach m1"
    by (rule demo_broadcast)
  obtain ok m2 effs' where stop: "stopInstance [] 9 (chID (store m1 r)) (Some r) (Actor_of ''admin'') ''stop'' m1 = (ok, m2, effs')"
    by (metis prod_cases3)
  have "byID m1 (chID (store m1 r)) = Some r" using Broadcast_result [OF run(1)] by (simp add: new_broadcast_channel_simps)
  from stop_is_complete [OF run(2) this _ stop] run(1) stop show ?thesis by auto
qed

definition demo_relay :: "wire_atom Manager" where
  "demo_relay = fst (snd (StartRelay 5 7 (replicate 16 9) ''1.2.3.4:7144'' demo_mgr))"

lemma demo_relay_props: "mgr_reach demo_relay" "byID demo_relay = [replicate 16 9 \<mapsto> 0]" "relays demo_relay = [(replicate 16 9, 7)]"
  "hasNewRelay demo_relay" "MaxRelayChannels demo_relay = 1" "\<not> isBroadcasting (store demo_relay 0)"
  "numListeners (store demo_relay 0) = 0" "numRelays (store demo_relay 0) = 0"
  unfolding demo_relay_def
  by (rule mgr_reach.start_relay [OF demo_mgr_reach])
    (simp_all add: StartRelay_def demo_mgr_def NewManager_def alloc_def Let_def configureChannel_def New_def)

theorem StartRelay_on_demand_witness:
  "fst (StartRelay 6 8 (replicate 16 3) ''5.6.7.8:7144'' demo_relay) = Inl ErrRelayChannelLimit"
proof -
  obtain res m' effs where run: "StartRelay 6 8 (replicate 16 3) ''5.6.7.8:7144'' demo_relay = (res, m', effs)" by (metis prod_cases3)
  from StartRelay_on_demand [OF demo_relay_props(1,4) run] run show ?thesis
    by (simp add: GetByID_def demo_relay_props)
qed

theorem cleaner_removes_idle_relays_witness:
  "byID (fst (snd (cleanup [replicate 16 9] [] 50 \<lparr>inactiveLimit = 30, inactive = [replicate 16 9 \<mapsto> 10]\<rparr> demo_relay))) (replicate 16 9) = None"
proof -
  let ?c = "\<lparr>inactiveLimit = 30, inactive = [replicate 16 9 \<mapsto> 10]\<rparr>"
  obtain c' m' effs where run: "cleanup [replicate 16 9] [] 50 ?c demo_relay = (c', m', effs)" by (metis prod_cases3)
  from cleaner_removes_idle_relays [OF demo_relay_props(1) _ _ _ run, of "replicate 16 9" 0] run show ?thesis
    by (simp add: demo_relay_props)
qed

end
