(* ===== verification/Rtmp.thy ===== *)
theory Rtmp
  imports Flv Manager
begin

text \<open>
  \<^verbatim>\<open>internal/rtmp/server.go\<close>: the handler of one encoder connection and the way it feeds a channel.

  A session is the handler together with what it shares with the rest of the process: the
  channel manager, the limiter of publish attempts and the flag that the server is closing.  The
  effects of a callback on outputs and relays and the audit events it sends are appended to the
  session.  The AMF0 decoder is a package of its own: it is an argument, a function from the bytes
  of an \<^verbatim>\<open>onMetaData\<close> message to the properties of its object, if it has one.  A float64 is a
  rational.  What the clock, the random generator and the iteration orders of maps contribute to
  a callback is the record \<open>rtmp_env\<close>.
\<close>

datatype amf_value = AmfNumber rat | AmfString string | AmfOther

record amf0 =
  amfMeta :: "byte list \<Rightarrow> (string \<rightharpoonup> amf_value) option"
  floatOther :: "string \<Rightarrow> rat option"

record rtmp_env =
  eNow :: time
  eNewID :: string
  eAccounts :: "string list"
  eInputs :: "string list"

datatype rtmp_error = RateLimited | KeyRejected | ReadFailed

record handler =
  hShuttingDown :: bool
  hAuditSink :: bool
  hConnectionID :: string
  hInputChannel :: "nat option"
  hRemoteAddr :: string
  hLimited :: bool
  hStreamKey :: string
  hMetaTag :: "byte list option"
  hAvcTag :: "byte list option"
  hAacTag :: "byte list option"
  hMetaPayload :: "byte list"
  hHeaderAppliedTo :: "nat option"
  hInfoAppliedTo :: "nat option"
  hStreamPos :: u32

record 'a session =
  hnd :: handler
  mgr :: "'a Manager"
  lim :: publishLimiter
  closing :: bool
  effs :: "'a mgr_effect list"
  sent :: "Event list"

definition newHandler :: "'a Manager \<Rightarrow> string \<Rightarrow> byte list \<Rightarrow> handler" where
  "newHandler m remote rnd =
     \<lparr>hShuttingDown = False, hAuditSink = mgrAudit m, hConnectionID = audit_ID rnd, hInputChannel = None,
      hRemoteAddr = remote, hLimited = False, hStreamKey = [], hMetaTag = None, hAvcTag = None, hAacTag = None,
      hMetaPayload = [], hHeaderAppliedTo = None, hInfoAppliedTo = None, hStreamPos = 0\<rparr>"

text \<open>The \<^verbatim>\<open>OnConnect\<close> callback of \<^verbatim>\<open>NewServer\<close>.\<close>

definition OnConnect :: "'a Manager \<Rightarrow> publishLimiter \<Rightarrow> bool \<Rightarrow> string \<Rightarrow> byte list \<Rightarrow> 'a session" where
  "OnConnect m l cl remote rnd =
     \<lparr>hnd = (newHandler m remote rnd)\<lparr>hLimited := True, hShuttingDown := True\<rparr>, mgr = m, lim = l,
      closing = cl, effs = [], sent = []\<rparr>"

definition Server_Close :: "'a session \<Rightarrow> 'a session" where
  "Server_Close s = s\<lparr>closing := True\<rparr>"

text \<open>A call of an operation of channel \<open>r\<close>.\<close>

definition on_chan :: "nat \<Rightarrow> ('a Channel \<Rightarrow> 'a Channel \<times> 'a effect list) \<Rightarrow> 'a session \<Rightarrow> 'a session" where
  "on_chan r f s =
     (case f (store (mgr s) r) of (c, es) \<Rightarrow>
        s\<lparr>mgr := (mgr s)\<lparr>store := (store (mgr s))(r := c)\<rparr>, effs := effs s @ map (ChanEffect r) es\<rparr>)"

definition on_run :: "(Run \<Rightarrow> Run \<times> Event list) \<Rightarrow> 'a Channel \<Rightarrow> 'a Channel \<times> 'a effect list" where
  "on_run f c =
     (case AuditRun c of
        None \<Rightarrow> (c, [])
      | Some r \<Rightarrow> (case f r of (r', es) \<Rightarrow> (c\<lparr>AuditRun := Some r'\<rparr>, map AuditEmit es)))"

definition handler_ch :: "'a session \<Rightarrow> nat option" where
  "handler_ch s = (if hStreamKey (hnd s) = [] then None else GetByStreamKey (hStreamKey (hnd s)) (mgr s))"

section \<open>Publishing\<close>

definition recordPublish :: "rtmp_env \<Rightarrow> string \<Rightarrow> string \<Rightarrow> string \<Rightarrow> 'a session \<Rightarrow> 'a session" where
  "recordPublish E outcome reason key s =
     (let owner = (if key \<noteq> [] then StreamKeyOwner (eAccounts E) key (mgr s) else []);
          e = Event0\<lparr>evType := ''rtmp.publish'', evActor := (Actor_of ''rtmp'')\<lparr>acIP := hRemoteAddr (hnd s)\<rparr>,
                evOwner := owner, evOutcome := outcome, evReason := reason, evConnectionID := hConnectionID (hnd s)\<rparr>
      in if hAuditSink (hnd s) then s\<lparr>sent := sent s @ [e]\<rparr> else s)"

definition OnPublish :: "rtmp_env \<Rightarrow> string \<Rightarrow> 'a session \<Rightarrow> rtmp_error option \<times> 'a session" where
  "OnPublish E key s =
     (let limited = (isShortStreamKey key \<and> hLimited (hnd s));
          attempt = (if limited then limiter_allow (eNow E) (hRemoteAddr (hnd s)) (lim s) else (True, lim s));
          s1 = s\<lparr>lim := snd attempt\<rparr>
      in if \<not> fst attempt then (Some RateLimited, recordPublish E ''failure'' ''rate_limited'' [] s1)
         else if \<not> IsIssuedKey key (keys (mgr s1)) then (Some KeyRejected, recordPublish E ''failure'' ''unknown_key'' [] s1)
         else (None, recordPublish E ''success'' [] key (s1\<lparr>hnd := (hnd s1)\<lparr>hStreamKey := key\<rparr>\<rparr>)))"

section \<open>Metadata\<close>

text \<open>\<^verbatim>\<open>ReplaceAllString(val, "$1")\<close> for the pattern \<^verbatim>\<open>(\d+)k\<close>: a \<^verbatim>\<open>k\<close> right after a digit goes.\<close>

fun strip_kbps :: "bool \<Rightarrow> string \<Rightarrow> string" where
  "strip_kbps after_digit [] = []"
| "strip_kbps after_digit (c # s) =
     (if after_digit \<and> c = CHR ''k'' then strip_kbps False s else c # strip_kbps (is_digit c) s)"

definition float_sign :: "string \<Rightarrow> rat \<times> string" where
  "float_sign s = (case s of
     c # cs \<Rightarrow> if c = CHR ''-'' then (-1, cs) else if c = CHR ''+'' then (1, cs) else (1, s)
   | [] \<Rightarrow> (1, s))"

definition float_exp :: "string \<Rightarrow> int option" where
  "float_exp s = (case s of
     [] \<Rightarrow> Some 0
   | c # cs \<Rightarrow>
       if c \<noteq> CHR ''e'' \<and> c \<noteq> CHR ''E'' then None
       else case float_sign cs of (sg, ds) \<Rightarrow>
         if ds \<noteq> [] \<and> (\<forall>d \<in> set ds. is_digit d) then Some (if sg < 0 then - int (digits_val ds) else int (digits_val ds))
         else None)"

definition scale10 :: "rat \<Rightarrow> int \<Rightarrow> rat" where
  "scale10 v e = (if e \<ge> 0 then v * 10 ^ nat e else v / 10 ^ nat (- e))"

text \<open>
  \<^verbatim>\<open>strconv.ParseFloat(s, 64)\<close> on decimal syntax, without the final rounding; a magnitude that
  rounds to infinity is an error.  Other syntax (hexadecimal, \<^verbatim>\<open>inf\<close>, \<^verbatim>\<open>nan\<close>) is left to
  \<open>floatOther\<close>.
\<close>

definition ParseFloat :: "amf0 \<Rightarrow> string \<Rightarrow> rat option" where
  "ParseFloat A s =
     (case float_sign s of (sg, u) \<Rightarrow>
        let ds = takeWhile is_digit u; r = dropWhile is_digit u;
            fs = (if r \<noteq> [] \<and> hd r = CHR ''.'' then takeWhile is_digit (tl r) else []);
            r' = (if r \<noteq> [] \<and> hd r = CHR ''.'' then dropWhile is_digit (tl r) else r)
        in (case (ds @ fs, float_exp r') of
             (d # ds', Some e) \<Rightarrow>
               let v = sg * scale10 (of_nat (digits_val (d # ds'))) (e - int (length fs)) in
               if abs v \<ge> 2 ^ 1024 - 2 ^ 970 then None else Some v
           | _ \<Rightarrow> floatOther A s))"

definition parseMaxBitrate :: "amf0 \<Rightarrow> amf_value option \<Rightarrow> rat option" where
  "parseMaxBitrate A v = (case v of
     None \<Rightarrow> None
   | Some (AmfNumber f) \<Rightarrow> if f > 0 then Some f else None
   | Some (AmfString t) \<Rightarrow>
       (case ParseFloat A (strip_kbps False t) of
          Some f \<Rightarrow> if f > 0 then Some f else None
        | None \<Rightarrow> None)
   | Some AmfOther \<Rightarrow> None)"

text \<open>\<^verbatim>\<open>uint32(f)\<close>: truncation, modulo \<open>2\<^sup>32\<close> as the conversion is compiled for 64-bit machines.\<close>

definition u32_of_float :: "rat \<Rightarrow> u32" where
  "u32_of_float f = of_int (if f \<ge> 0 then \<lfloor>f\<rfloor> else \<lceil>f\<rceil>)"

definition meta_info :: "amf0 \<Rightarrow> (string \<rightharpoonup> amf_value) \<Rightarrow> ChannelInfo \<Rightarrow> ChannelInfo" where
  "meta_info A m i =
     (let i1 = (case parseMaxBitrate A (m ''maxBitrate'') of
                  Some br \<Rightarrow> i\<lparr>Bitrate := u32_of_float br\<rparr>
                | None \<Rightarrow> (case m ''videodatarate'' of Some (AmfNumber f) \<Rightarrow> i\<lparr>Bitrate := u32_of_float f\<rparr> | _ \<Rightarrow> i));
          i2 = (case m ''audiodatarate'' of Some (AmfNumber f) \<Rightarrow> i1\<lparr>Bitrate := Bitrate i1 + u32_of_float f\<rparr> | _ \<Rightarrow> i1)
      in if CType i2 = [] then i2\<lparr>CType := ''FLV'', MIMEType := ''video/x-flv'', Ext := ''.flv''\<rparr> else i2)"

definition applyMetaInfo :: "amf0 \<Rightarrow> rtmp_env \<Rightarrow> 'a session \<Rightarrow> 'a session" where
  "applyMetaInfo A E s =
     (if hMetaPayload (hnd s) = [] then s
      else case handler_ch s of
        None \<Rightarrow> s
      | Some r \<Rightarrow>
          if hInfoAppliedTo (hnd s) = Some r then s
          else (case amfMeta A (hMetaPayload (hnd s)) of
            None \<Rightarrow> s
          | Some m \<Rightarrow>
              (on_chan r (SetInfo (eNow E) (meta_info A m (info (store (mgr s) r)))) s)
                \<lparr>hnd := (hnd s)\<lparr>hInfoAppliedTo := Some r\<rparr>\<rparr>))"

section \<open>The head packet and the data\<close>

definition opt_tag :: "byte list option \<Rightarrow> byte list" where
  "opt_tag t = (case t of None \<Rightarrow> [] | Some tag \<Rightarrow> appendFLVTagWithBackPointer [] tag)"

definition flv_head :: "handler \<Rightarrow> byte list" where
  "flv_head h =
     ascii ''FLV'' @ [1, (if hAvcTag h \<noteq> None then 1 else 0) OR (if hAacTag h \<noteq> None then 4 else 0), 0, 0, 0, 9, 0, 0, 0, 0]
       @ opt_tag (hMetaTag h) @ opt_tag (hAvcTag h) @ opt_tag (hAacTag h)"

definition rebuildHeader :: "amf0 \<Rightarrow> rtmp_env \<Rightarrow> 'a session \<Rightarrow> 'a session" where
  "rebuildHeader A E s0 =
     (if hAvcTag (hnd s0) = None \<and> hAacTag (hnd s0) = None then s0
      else let s = applyMetaInfo A E s0 in
        case handler_ch s of
          None \<Rightarrow> s
        | Some r \<Rightarrow>
            let h = hnd s; head = flv_head h; buf = buffer (store (mgr s) r); fresh = (hHeaderAppliedTo h \<noteq> Some r);
                pos = (if fresh then ContentPosition buf else hStreamPos h)
            in if \<not> fresh \<and> fst (Header buf) = head then s
               else (on_chan r (Channel_SetHeader head pos) s)
                      \<lparr>hnd := h\<lparr>hStreamPos := pos + of_nat (length head), hHeaderAppliedTo := Some r\<rparr>\<rparr>)"

definition leave_input :: "rtmp_env \<Rightarrow> 'a session \<Rightarrow> 'a session" where
  "leave_input E s =
     (case hInputChannel (hnd s) of
        None \<Rightarrow> s
      | Some i \<Rightarrow>
          if handler_ch s = Some i then s
          else (on_chan i (on_run (Run_EndInput (eNow E) (hConnectionID (hnd s)) ''target_changed'')) s)
                 \<lparr>hnd := (hnd s)\<lparr>hInputChannel := None\<rparr>\<rparr>)"

definition write_tag :: "rtmp_env \<Rightarrow> nat \<Rightarrow> byte list \<Rightarrow> byte \<Rightarrow> 'a session \<Rightarrow> 'a session" where
  "write_tag E r tag contFlags s =
     (let data = appendFLVTagWithBackPointer [] tag; h = hnd s; pos = hStreamPos h;
          s1 = (on_chan r (\<lambda>c. (Channel_Write (eNow E) data pos contFlags c, [])) s)
                 \<lparr>hnd := h\<lparr>hStreamPos := pos + of_nat (length data), hInputChannel := Some r\<rparr>\<rparr>
      in if isMediaTag tag
         then on_chan r (on_run (Run_Media (eNow E) (eNewID E) (hConnectionID h) (hRemoteAddr h))) s1
         else s1)"

definition writeData :: "amf0 \<Rightarrow> rtmp_env \<Rightarrow> byte list \<Rightarrow> byte \<Rightarrow> 'a session \<Rightarrow> 'a session" where
  "writeData A E tag contFlags s0 =
     (let s = leave_input E (applyMetaInfo A E s0) in
      case handler_ch s of
        None \<Rightarrow> s
      | Some r \<Rightarrow> write_tag E r tag contFlags (if hHeaderAppliedTo (hnd s) \<noteq> Some r then rebuildHeader A E s else s))"

section \<open>Callbacks\<close>

definition OnSetDataFrame :: "amf0 \<Rightarrow> rtmp_env \<Rightarrow> byte list \<Rightarrow> 'a session \<Rightarrow> 'a session" where
  "OnSetDataFrame A E payload s =
     rebuildHeader A E (applyMetaInfo A E
       (s\<lparr>hnd := (hnd s)\<lparr>hMetaTag := Some (makeFLVTag 18 0 payload), hMetaPayload := payload\<rparr>\<rparr>))"

text \<open>A payload that cannot be read to its end is \<open>None\<close>.\<close>

definition OnVideo :: "amf0 \<Rightarrow> rtmp_env \<Rightarrow> u32 \<Rightarrow> byte list option \<Rightarrow> 'a session \<Rightarrow> rtmp_error option \<times> 'a session" where
  "OnVideo A E timestamp payload s =
     (case payload of
        None \<Rightarrow> (Some ReadFailed, s)
      | Some body \<Rightarrow>
          if length body < 2 then (None, s)
          else if body ! 0 = 0x17 \<and> body ! 1 = 0 then
            (None, rebuildHeader A E (s\<lparr>hnd := (hnd s)\<lparr>hAvcTag := Some (makeFLVTag 9 0 body)\<rparr>\<rparr>))
          else (None, writeData A E (makeFLVTag 9 timestamp body) (if body ! 0 \<noteq> 0x17 then 2 else 0) s))"

definition OnAudio :: "amf0 \<Rightarrow> rtmp_env \<Rightarrow> u32 \<Rightarrow> byte list option \<Rightarrow> 'a session \<Rightarrow> rtmp_error option \<times> 'a session" where
  "OnAudio A E timestamp payload s =
     (case payload of
        None \<Rightarrow> (Some ReadFailed, s)
      | Some body \<Rightarrow>
          if length body < 2 then (None, s)
          else if body ! 0 = 0xAF \<and> body ! 1 = 0 then
            (None, rebuildHeader A E (s\<lparr>hnd := (hnd s)\<lparr>hAacTag := Some (makeFLVTag 8 0 body)\<rparr>\<rparr>))
          else (None, writeData A E (makeFLVTag 8 timestamp body) 4 s))"

definition OnClose :: "rtmp_env \<Rightarrow> 'a session \<Rightarrow> 'a session" where
  "OnClose E s0 =
     (let reason = (if hShuttingDown (hnd s0) \<and> closing s0 then ''server_shutdown'' else ''encoder_disconnect'');
          s = (case hInputChannel (hnd s0) of
                 None \<Rightarrow> s0
               | Some i \<Rightarrow> on_chan i (on_run (Run_EndInput (eNow E) (hConnectionID (hnd s0)) reason)) s0)
      in if hStreamKey (hnd s) = [] then s
         else case GetByStreamKey (hStreamKey (hnd s)) (mgr s) of
           None \<Rightarrow> s
         | Some r \<Rightarrow>
             if hInputChannel (hnd s) \<noteq> None \<and> hInputChannel (hnd s) \<noteq> Some r then s
             else case StopInstance (eInputs E) (eNow E) r ((Actor_of ''rtmp'')\<lparr>acIP := hRemoteAddr (hnd s)\<rparr>) reason (mgr s) of
               (_, m, es) \<Rightarrow> s\<lparr>mgr := m, effs := effs s @ es\<rparr>)"

section \<open>The byte stream of a channel\<close>

text \<open>
  What the outputs see of a channel that an encoder feeds: a head packet, then packets whose
  positions follow on; \<open>pos\<close> is where the next packet will start.
\<close>

definition fed :: "ContentBuffer \<Rightarrow> u32 \<Rightarrow> bool" where
  "fed b pos \<longleftrightarrow>
     (\<exists>h. header b = Some h \<and> contiguous (contents b) \<and>
        pos = (if ContentBuffer.count b = 0 then headerPos b + of_nat (length h) else end_pos (last (contents b))) \<and>
        (0 < ContentBuffer.count b \<and> ContentBuffer.count b \<le> capacity b \<longrightarrow> Pos (hd (contents b)) = headerPos b + of_nat (length h)))"

lemma contiguous_take_last: "contiguous xs \<Longrightarrow> contiguous (take_last n xs)"
  using contiguous_append [of "take (length xs - n) xs" "drop (length xs - n) xs"] by (simp add: take_last_def)

lemma fed_ContentPosition: "buf_inv b \<Longrightarrow> fed b pos \<Longrightarrow> pos = ContentPosition b"
proof -
  assume b: "buf_inv b" and f: "fed b pos"
  have "last (contents b) = ring b (ContentBuffer.count b - 1)" if "0 < ContentBuffer.count b"
  proof -
    have "packets b \<noteq> []" using b that by (auto simp: buf_inv_def)
    then have "ring_start b < ContentBuffer.count b" using that by (auto simp: ring_start_def)
    then show ?thesis by (simp add: contents_def last_map)
  qed
  with f show ?thesis
    by (cases "ContentBuffer.count b = 0") (auto simp: fed_def ContentPosition_def end_pos_def Let_def)
qed

lemma fed_SetHeader:
  assumes "snd (SetHeader b d pos)"
  shows "fed (fst (SetHeader b d pos)) (pos + of_nat (length d))"
  using assms by (auto simp: fed_def SetHeader_def contents_def)

lemma fed_Write:
  assumes "buf_inv b" "fed b pos"
  shows "fed (Write now b d pos f) (pos + of_nat (length d))"
proof -
  let ?p = "\<lparr>Pos = pos, Data = d, ContFlags = f, Timestamp = now\<rparr>"
  from assms(2) obtain h where h: "header b = Some h" "contiguous (contents b)"
    "pos = (if ContentBuffer.count b = 0 then headerPos b + of_nat (length h) else end_pos (last (contents b)))"
    "0 < ContentBuffer.count b \<and> ContentBuffer.count b \<le> capacity b \<longrightarrow> Pos (hd (contents b)) = headerPos b + of_nat (length h)"
    by (auto simp: fed_def)
  have e: "contents b = [] \<longleftrightarrow> ContentBuffer.count b = 0" using contents_empty_iff [OF assms(1)] .
  have "contiguous (contents b @ [?p])" using h(2,3) e by (auto simp: contiguous_append)
  then have "contiguous (contents (Write now b d pos f))"
    by (simp add: contents_Write [OF assms(1)] contiguous_take_last)
  moreover have "end_pos (last (contents (Write now b d pos f))) = pos + of_nat (length d)"
    by (simp add: contents_Write [OF assms(1)] last_take_last end_pos_def)
  moreover have "Pos (hd (contents (Write now b d pos f))) = headerPos b + of_nat (length h)" if "Suc (ContentBuffer.count b) \<le> capacity b"
  proof -
    have "length (contents b @ [?p]) \<le> capacity b" using that length_contents [OF assms(1)] by simp
    then have "contents (Write now b d pos f) = contents b @ [?p]" by (simp only: contents_Write [OF assms(1)] take_last_all)
    then show ?thesis using h(3,4) e that by (cases "contents b") auto
  qed
  ultimately show ?thesis using h(1) by (auto simp: fed_def)
qed

text \<open>A packet that is one FLV tag with its back pointer, and a head packet of whole tags.\<close>

definition whole_tag :: "byte list \<Rightarrow> bool" where
  "whole_tag d \<longleftrightarrow> (\<exists>f. frame_ok f \<and> d = frame_bytes f)"

definition flv_header :: "byte list \<Rightarrow> bool" where
  "flv_header h \<longleftrightarrow>
     (\<exists>flags frames. h = ascii ''FLV'' @ [1, flags, 0, 0, 0, 9, 0, 0, 0, 0] @ concat (map frame_bytes frames) \<and>
        frames \<noteq> [] \<and> (\<forall>f \<in> set frames. frame_ok f))"

lemma flv_tags_concat:
  "\<forall>f \<in> set fs. frame_ok f \<Longrightarrow> flv_tags (concat (map frame_bytes fs)) = Some fs"
  by (induction fs) (simp_all add: flv_tags_frame, simp add: flv_tags.simps)

lemma whole_tags_frames: "\<forall>d \<in> set ds. whole_tag d \<Longrightarrow> \<exists>fs. ds = map frame_bytes fs \<and> (\<forall>f \<in> set fs. frame_ok f)"
proof (induction ds)
  case (Cons d ds)
  then obtain f fs where "frame_ok f" "d = frame_bytes f" "ds = map frame_bytes fs" "\<forall>f \<in> set fs. frame_ok f"
    by (auto simp: whole_tag_def)
  then show ?case by (intro exI [of _ "f # fs"]) simp
qed simp

lemma flv_header_stream:
  assumes "flv_header h" "\<forall>d \<in> set ds. whole_tag d"
  shows "\<exists>frames. flv_tags (drop 13 (h @ concat ds)) = Some frames"
proof -
  obtain flags fs where h: "h = ascii ''FLV'' @ [1, flags, 0, 0, 0, 9, 0, 0, 0, 0] @ concat (map frame_bytes fs)"
    "\<forall>f \<in> set fs. frame_ok f" using assms(1) by (auto simp: flv_header_def)
  obtain gs where gs: "ds = map frame_bytes gs" "\<forall>f \<in> set gs. frame_ok f"
    using whole_tags_frames [OF assms(2)] by auto
  have "drop 13 (h @ concat ds) = concat (map frame_bytes (fs @ gs))" by (simp add: h(1) gs(1) ascii_def)
  then show ?thesis using flv_tags_concat [of "fs @ gs"] h(2) gs(2) by auto
qed

section \<open>Sessions of one encoder\<close>

text \<open>
  The states of an encoder that is the only one to publish with the key \<open>K\<close>: it connects before
  anything was written to the channel of its key, and between its callbacks the manager may
  start and stop channels, of this key and others, and channels may change in every respect but
  their media buffers.  An RTMP message is shorter than \<open>2\<^sup>24\<close> bytes.
\<close>

inductive enc_reach :: "amf0 \<Rightarrow> string \<Rightarrow> 'a session \<Rightarrow> bool" for A K where
  connect: "mgr_reach m \<Longrightarrow>
    (\<And>r. byStreamKey m K = Some r \<Longrightarrow> header (buffer (store m r)) = None \<and> contents (buffer (store m r)) = [] \<and> buf_inv (buffer (store m r))) \<Longrightarrow>
    enc_reach A K (OnConnect m l cl remote rnd)"
| publish: "enc_reach A K s \<Longrightarrow> OnPublish E key s = (e, s') \<Longrightarrow> key = K \<or> e \<noteq> None \<Longrightarrow> enc_reach A K s'"
| meta: "enc_reach A K s \<Longrightarrow> length payload < 2 ^ 24 \<Longrightarrow> enc_reach A K (OnSetDataFrame A E payload s)"
| video: "enc_reach A K s \<Longrightarrow> (\<And>body. payload = Some body \<Longrightarrow> length body < 2 ^ 24) \<Longrightarrow> OnVideo A E ts payload s = (e, s') \<Longrightarrow> enc_reach A K s'"
| audio: "enc_reach A K s \<Longrightarrow> (\<And>body. payload = Some body \<Longrightarrow> length body < 2 ^ 24) \<Longrightarrow> OnAudio A E ts payload s = (e, s') \<Longrightarrow> enc_reach A K s'"
| broadcast: "enc_reach A K s \<Longrightarrow> BroadcastWithAudit B k ci tr a ig pending (mgr s) = (res, m', es) \<Longrightarrow> enc_reach A K (s\<lparr>mgr := m'\<rparr>)"
| stop: "enc_reach A K s \<Longrightarrow> stopInstance order now cid ex a reason (mgr s) = (ok, m', es) \<Longrightarrow> enc_reach A K (s\<lparr>mgr := m'\<rparr>)"
| other: "enc_reach A K s \<Longrightarrow> byStreamKey m' = byStreamKey (mgr s) \<Longrightarrow> nextRef m' = nextRef (mgr s) \<Longrightarrow>
    (\<And>r. buffer (store m' r) = buffer (store (mgr s) r)) \<Longrightarrow> enc_reach A K (s\<lparr>mgr := m', lim := l, closing := cl\<rparr>)"

definition tag_ok :: "byte list option \<Rightarrow> bool" where
  "tag_ok t \<longleftrightarrow> (\<forall>tag. t = Some tag \<longrightarrow> whole_tag (appendFLVTagWithBackPointer [] tag))"

definition media_ok :: "ContentBuffer \<Rightarrow> bool" where
  "media_ok b \<longleftrightarrow> buf_inv b \<and> (\<forall>p \<in> set (contents b). whole_tag (Data p))"

definition enc_inv :: "string \<Rightarrow> handler \<Rightarrow> 'a Manager \<Rightarrow> bool" where
  "enc_inv K h m \<longleftrightarrow>
     tag_ok (hMetaTag h) \<and> tag_ok (hAvcTag h) \<and> tag_ok (hAacTag h) \<and>
     (hHeaderAppliedTo h \<noteq> None \<longrightarrow> hAvcTag h \<noteq> None \<or> hAacTag h \<noteq> None) \<and> (hStreamKey h = [] \<or> hStreamKey h = K) \<and>
     (\<forall>r. byStreamKey m K = Some r \<longrightarrow> r < nextRef m \<and> media_ok (buffer (store m r)) \<and>
        (hHeaderAppliedTo h = Some r \<or> header (buffer (store m r)) = None)) \<and>
     (\<forall>r. hHeaderAppliedTo h = Some r \<longrightarrow> r < nextRef m \<and> media_ok (buffer (store m r)) \<and>
        fed (buffer (store m r)) (hStreamPos h) \<and> flv_header (header_bytes (buffer (store m r))))"

lemma enc_inv_cong:
  assumes "enc_inv K h m" "hMetaTag h' = hMetaTag h" "hAvcTag h' = hAvcTag h" "hAacTag h' = hAacTag h"
    "hStreamKey h' = hStreamKey h" "hHeaderAppliedTo h' = hHeaderAppliedTo h" "hStreamPos h' = hStreamPos h"
    "byStreamKey m' = byStreamKey m" "nextRef m' = nextRef m" "\<And>r. buffer (store m' r) = buffer (store m r)"
  shows "enc_inv K h' m'"
  using assms unfolding enc_inv_def by simp

lemma on_chan_simps [simp]:
  "hnd (on_chan r f s) = hnd s" "byStreamKey (mgr (on_chan r f s)) = byStreamKey (mgr s)"
  "nextRef (mgr (on_chan r f s)) = nextRef (mgr s)" "handler_ch (on_chan r f s) = handler_ch s"
  "store (mgr (on_chan r f s)) = (store (mgr s))(r := fst (f (store (mgr s) r)))" "byID (mgr (on_chan r f s)) = byID (mgr s)"
  by (simp_all add: on_chan_def handler_ch_def GetByStreamKey_def split: prod.splits)

lemma buffer_SetInfo [simp]: "buffer (fst (SetInfo now i c)) = buffer c"
  by (simp add: SetInfo_def SetInfoWithAudit_def split: option.splits prod.splits)

lemma buffer_on_run [simp]: "buffer (fst (on_run f c)) = buffer c"
  by (simp add: on_run_def split: option.splits prod.splits)

lemma on_chan_same_buffer:
  "(\<And>c. buffer (fst (f c)) = buffer c) \<Longrightarrow> buffer (store (mgr (on_chan r f s)) q) = buffer (store (mgr s) q)"
  by simp

lemma whole_tag_make: "length body < 2 ^ 24 \<Longrightarrow> whole_tag (appendFLVTagWithBackPointer [] (makeFLVTag ty ts body))"
  unfolding whole_tag_def by (intro exI [of _ "(ty, ts, body)"]) (simp add: frame_bytes_def frame_ok_def)

lemma applyMetaInfo_keeps:
  "handler_ch (applyMetaInfo A E s) = handler_ch s" "hStreamKey (hnd (applyMetaInfo A E s)) = hStreamKey (hnd s)"
  "enc_inv K (hnd s) (mgr s) \<Longrightarrow> enc_inv K (hnd (applyMetaInfo A E s)) (mgr (applyMetaInfo A E s))"
  by (auto simp: applyMetaInfo_def handler_ch_def GetByStreamKey_def elim!: enc_inv_cong split: option.splits)

lemma leave_input_keeps:
  "handler_ch (leave_input E s) = handler_ch s"
  "enc_inv K (hnd s) (mgr s) \<Longrightarrow> enc_inv K (hnd (leave_input E s)) (mgr (leave_input E s))"
  by (auto simp: leave_input_def handler_ch_def GetByStreamKey_def elim!: enc_inv_cong split: option.splits)

lemma enc_inv_channel:
  assumes "enc_inv K (hnd s) (mgr s)" "handler_ch s = Some r"
  shows "byStreamKey (mgr s) K = Some r" "r < nextRef (mgr s)" "media_ok (buffer (store (mgr s) r))"
    "hHeaderAppliedTo (hnd s) = Some r \<or> header (buffer (store (mgr s) r)) = None"
proof -
  have "hStreamKey (hnd s) = K" "byStreamKey (mgr s) (hStreamKey (hnd s)) = Some r"
    using assms by (auto simp: enc_inv_def handler_ch_def GetByStreamKey_def split: if_splits)
  with assms(1) show "byStreamKey (mgr s) K = Some r" "r < nextRef (mgr s)" "media_ok (buffer (store (mgr s) r))"
    "hHeaderAppliedTo (hnd s) = Some r \<or> header (buffer (store (mgr s) r)) = None"
    by (auto simp: enc_inv_def)
qed

lemma opt_tag_frames: "tag_ok t \<Longrightarrow> \<exists>fs. opt_tag t = concat (map frame_bytes fs) \<and> (\<forall>f \<in> set fs. frame_ok f) \<and> (t \<noteq> None \<longrightarrow> fs \<noteq> [])"
proof (cases t)
  case (Some tag)
  assume "tag_ok t"
  with Some obtain f where "frame_ok f" "appendFLVTagWithBackPointer [] tag = frame_bytes f"
    by (auto simp: tag_ok_def whole_tag_def)
  with Some show ?thesis by (intro exI [of _ "[f]"]) (simp add: opt_tag_def)
qed (auto simp: opt_tag_def intro: exI [of _ "[]"])

lemma flv_header_head:
  assumes "tag_ok (hMetaTag h)" "tag_ok (hAvcTag h)" "tag_ok (hAacTag h)" "hAvcTag h \<noteq> None \<or> hAacTag h \<noteq> None"
  shows "flv_header (flv_head h)"
proof -
  obtain xs ys zs where "opt_tag (hMetaTag h) = concat (map frame_bytes xs)" "\<forall>f \<in> set xs. frame_ok f"
    "opt_tag (hAvcTag h) = concat (map frame_bytes ys)" "\<forall>f \<in> set ys. frame_ok f"
    "opt_tag (hAacTag h) = concat (map frame_bytes zs)" "\<forall>f \<in> set zs. frame_ok f" "ys \<noteq> [] \<or> zs \<noteq> []"
    using opt_tag_frames [OF assms(1)] opt_tag_frames [OF assms(2)] opt_tag_frames [OF assms(3)] assms(4) by blast
  then show ?thesis unfolding flv_header_def flv_head_def
    by (intro exI [of _ "(if hAvcTag h \<noteq> None then 1 else 0) OR (if hAacTag h \<noteq> None then 4 else 0)"]
        exI [of _ "xs @ ys @ zs"]) auto
qed

lemma fst_Channel_SetHeader: "fst (Channel_SetHeader d pos c) = c\<lparr>buffer := fst (SetHeader (buffer c) d pos)\<rparr>"
  by (simp add: Channel_SetHeader_def split: prod.splits)

lemma rebuildHeader_ch: "handler_ch (rebuildHeader A E s) = handler_ch s"
proof -
  have "byStreamKey (mgr (applyMetaInfo A E s)) = byStreamKey (mgr s)"
    by (auto simp: applyMetaInfo_def split: option.splits)
  then show ?thesis
    by (auto simp: rebuildHeader_def Let_def handler_ch_def GetByStreamKey_def applyMetaInfo_keeps split: option.splits)
qed

lemma rebuildHeader_applied:
  "hAvcTag (hnd s) \<noteq> None \<or> hAacTag (hnd s) \<noteq> None \<Longrightarrow> handler_ch s = Some r \<Longrightarrow> hHeaderAppliedTo (hnd (rebuildHeader A E s)) = Some r"
  by (auto simp: rebuildHeader_def Let_def applyMetaInfo_keeps)

lemma media_ok_SetHeader: "media_ok b \<Longrightarrow> media_ok (fst (SetHeader b d pos))"
  by (auto simp: media_ok_def contents_SetHeader)

lemma enc_inv_rebuildHeader:
  assumes "enc_inv K (hnd s0) (mgr s0)"
  shows "enc_inv K (hnd (rebuildHeader A E s0)) (mgr (rebuildHeader A E s0))"
proof -
  let ?s = "applyMetaInfo A E s0"
  let ?h = "hnd ?s" and ?head = "flv_head (hnd ?s)"
  have inv: "enc_inv K (hnd ?s) (mgr ?s)" using assms by (rule applyMetaInfo_keeps)
  have tags: "hAvcTag ?h = hAvcTag (hnd s0)" "hAacTag ?h = hAacTag (hnd s0)" by (auto simp: applyMetaInfo_def split: option.splits)
  show ?thesis
  proof (cases "(hAvcTag (hnd s0) = None \<and> hAacTag (hnd s0) = None) \<or> handler_ch ?s = None")
    case True
    then show ?thesis using assms inv by (auto simp: rebuildHeader_def Let_def)
  next
    case False
    then obtain r where r: "handler_ch ?s = Some r" and tg: "hAvcTag ?h \<noteq> None \<or> hAacTag ?h \<noteq> None" using tags by auto
    let ?b = "buffer (store (mgr ?s) r)"
    note ch = enc_inv_channel [OF inv r]
    show ?thesis
    proof (cases "hHeaderAppliedTo ?h = Some r \<and> fst (Header ?b) = ?head")
      case True
      then show ?thesis using inv r tg tags by (auto simp: rebuildHeader_def Let_def)
    next
      case ne: False
      define pos where "pos = (if hHeaderAppliedTo ?h \<noteq> Some r then ContentPosition ?b else hStreamPos ?h)"
      have "header_bytes ?b \<noteq> ?head"
        using ch(4) ne by (auto simp: Header_def header_bytes_def flv_head_def ascii_def)
      then have changed: "snd (SetHeader ?b ?head pos)" by (simp add: SetHeader_def)
      then have "header_bytes (fst (SetHeader ?b ?head pos)) = ?head" by (auto simp: SetHeader_def header_bytes_def split: if_splits)
      moreover have "flv_header ?head" using inv tg by (intro flv_header_head) (auto simp: enc_inv_def)
      moreover have "rebuildHeader A E s0 = (on_chan r (Channel_SetHeader ?head pos) ?s)
          \<lparr>hnd := ?h\<lparr>hStreamPos := pos + of_nat (length ?head), hHeaderAppliedTo := Some r\<rparr>\<rparr>"
        using r tg tags ne by (auto simp: rebuildHeader_def Let_def pos_def)
      ultimately show ?thesis using inv ch tg fed_SetHeader [OF changed] media_ok_SetHeader [of ?b ?head pos]
        by (simp add: enc_inv_def fst_Channel_SetHeader)
    qed
  qed
qed

lemma media_ok_Write: "media_ok b \<Longrightarrow> whole_tag d \<Longrightarrow> media_ok (Write now b d pos f)"
  using set_take_last_subset by (fastforce simp: media_ok_def contents_Write)

lemma enc_inv_write_tag:
  assumes inv: "enc_inv K (hnd s) (mgr s)" and r: "handler_ch s = Some r"
    and app: "hHeaderAppliedTo (hnd s) = Some r \<or> hHeaderAppliedTo (hnd s) = None"
    and tag: "whole_tag (appendFLVTagWithBackPointer [] tag)"
  shows "enc_inv K (hnd (write_tag E r tag f s)) (mgr (write_tag E r tag f s))"
proof -
  let ?d = "appendFLVTagWithBackPointer [] tag" and ?pos = "hStreamPos (hnd s)"
  define s1 where "s1 = (on_chan r (\<lambda>c. (Channel_Write (eNow E) ?d ?pos f c, [])) s)
     \<lparr>hnd := (hnd s)\<lparr>hStreamPos := ?pos + of_nat (length ?d), hInputChannel := Some r\<rparr>\<rparr>"
  note ch = enc_inv_channel [OF inv r]
  have "fed (Write (eNow E) (buffer (store (mgr s) r)) ?d ?pos f) (?pos + of_nat (length ?d))" if "hHeaderAppliedTo (hnd s) = Some r"
    using that inv ch(3) by (intro fed_Write) (auto simp: enc_inv_def media_ok_def)
  moreover have "header_bytes (Write (eNow E) (buffer (store (mgr s) r)) ?d ?pos f) = header_bytes (buffer (store (mgr s) r))"
    by (simp add: header_bytes_def)
  ultimately have "enc_inv K (hnd s1) (mgr s1)"
    using inv app ch media_ok_Write [OF ch(3) tag] by (auto simp: enc_inv_def s1_def Channel_Write_def)
  moreover have "write_tag E r tag f s = s1 \<or> (\<exists>g. write_tag E r tag f s = on_chan r (on_run g) s1)"
    by (auto simp: write_tag_def Let_def s1_def)
  ultimately show ?thesis by (auto elim!: enc_inv_cong)
qed

lemma enc_inv_writeData:
  assumes inv: "enc_inv K (hnd s0) (mgr s0)" and tag: "whole_tag (appendFLVTagWithBackPointer [] tag)"
  shows "enc_inv K (hnd (writeData A E tag f s0)) (mgr (writeData A E tag f s0))"
proof -
  let ?s = "leave_input E (applyMetaInfo A E s0)"
  have inv': "enc_inv K (hnd ?s) (mgr ?s)" using inv by (intro leave_input_keeps applyMetaInfo_keeps)
  show ?thesis
  proof (cases "handler_ch ?s")
    case None
    with inv' show ?thesis by (simp add: writeData_def Let_def)
  next
    case (Some r)
    let ?t = "if hHeaderAppliedTo (hnd ?s) \<noteq> Some r then rebuildHeader A E ?s else ?s"
    have t: "enc_inv K (hnd ?t) (mgr ?t)" "handler_ch ?t = Some r"
      using inv' Some by (simp_all add: enc_inv_rebuildHeader rebuildHeader_ch)
    have "hHeaderAppliedTo (hnd ?t) = Some r \<or> hHeaderAppliedTo (hnd ?t) = None"
    proof (cases "hAvcTag (hnd ?s) \<noteq> None \<or> hAacTag (hnd ?s) \<noteq> None")
      case True
      then show ?thesis using rebuildHeader_applied [OF True Some] by simp
    next
      case False
      then have "rebuildHeader A E ?s = ?s" by (simp add: rebuildHeader_def)
      then show ?thesis using False inv' by (auto simp: enc_inv_def)
    qed
    from enc_inv_write_tag [OF t this tag] Some show ?thesis by (simp add: writeData_def Let_def)
  qed
qed

lemma enc_inv_set_tag:
  assumes "enc_inv K h m" "length body < 2 ^ 24"
  shows "enc_inv K (h\<lparr>hMetaTag := Some (makeFLVTag 18 0 body), hMetaPayload := body\<rparr>) m"
    "enc_inv K (h\<lparr>hAvcTag := Some (makeFLVTag 9 0 body)\<rparr>) m" "enc_inv K (h\<lparr>hAacTag := Some (makeFLVTag 8 0 body)\<rparr>) m"
  using assms whole_tag_make [OF assms(2)] by (simp_all add: enc_inv_def tag_ok_def)

lemma enc_inv_video: "enc_inv K (hnd s) (mgr s) \<Longrightarrow> (\<And>body. payload = Some body \<Longrightarrow> length body < 2 ^ 24) \<Longrightarrow>
    enc_inv K (hnd (snd (OnVideo A E ts payload s))) (mgr (snd (OnVideo A E ts payload s)))"
  by (auto simp: OnVideo_def enc_inv_writeData whole_tag_make enc_inv_set_tag intro!: enc_inv_rebuildHeader split: option.splits)

lemma enc_inv_audio: "enc_inv K (hnd s) (mgr s) \<Longrightarrow> (\<And>body. payload = Some body \<Longrightarrow> length body < 2 ^ 24) \<Longrightarrow>
    enc_inv K (hnd (snd (OnAudio A E ts payload s))) (mgr (snd (OnAudio A E ts payload s)))"
  by (auto simp: OnAudio_def enc_inv_writeData whole_tag_make enc_inv_set_tag intro!: enc_inv_rebuildHeader split: option.splits)

lemma recordPublish_simps [simp]: "hnd (recordPublish E out reason key s) = hnd s" "mgr (recordPublish E out reason key s) = mgr s"
  by (simp_all add: recordPublish_def Let_def)

lemma OnPublish_result:
  "OnPublish E key s = (e, s') \<Longrightarrow> mgr s' = mgr s \<and> hnd s' = (if e = None then (hnd s)\<lparr>hStreamKey := key\<rparr> else hnd s)"
  by (auto simp: OnPublish_def Let_def split: if_splits)

lemma enc_inv_publish:
  "enc_inv K (hnd s) (mgr s) \<Longrightarrow> OnPublish E key s = (e, s') \<Longrightarrow> key = K \<or> e \<noteq> None \<Longrightarrow> enc_inv K (hnd s') (mgr s')"
  using OnPublish_result [of E key s e s'] by (auto simp: enc_inv_def)

lemma buffer_end_channel: "end_channel order now a reason c = (c', es) \<Longrightarrow> buffer c' = buffer c"
  by (auto simp: end_channel_def Let_def CloseAll_def SourceDisconnected_def split: option.splits prod.splits)

lemma stopInstance_media:
  assumes "stopInstance order now cid ex a reason m = (ok, m', es)"
  shows "nextRef m' = nextRef m" "buffer (store m' r) = buffer (store m r)" "byStreamKey m' k = Some q \<Longrightarrow> byStreamKey m k = Some q"
  using assms by (auto simp: stopInstance_def Let_def buffer_end_channel split: option.splits if_splits prod.splits)

lemma new_broadcast_media:
  "header (buffer (fst (new_broadcast_channel B k ci tr a ig pending m))) = None"
  "media_ok (buffer (fst (new_broadcast_channel B k ci tr a ig pending m)))"
  by (simp_all add: new_broadcast_channel_def Let_def configureChannel_def New_def media_ok_def split: prod.splits,
      simp_all add: NewContentBuffer_def Let_def)

lemma enc_inv_broadcast:
  assumes inv: "enc_inv K h m" and run: "BroadcastWithAudit B k ci tr a ig pending m = (res, m', es)"
  shows "enc_inv K h m'"
proof (cases res)
  case (Inl e)
  then have "m' = m" using Broadcast_error run by blast
  with inv show ?thesis by simp
next
  case (Inr r)
  note res = Broadcast_result [OF run [unfolded Inr]]
  have "byStreamKey m' K = Some q \<Longrightarrow> q = nextRef m \<and> K = k \<or> byStreamKey m K = Some q \<and> q < nextRef m" for q
    using inv by (auto simp: res(4) enc_inv_def split: if_splits)
  moreover have "q < nextRef m \<Longrightarrow> store m' q = store m q" for q by (simp add: res(4))
  moreover have "nextRef m' = Suc (nextRef m)" "store m' (nextRef m) = fst (new_broadcast_channel B k ci tr a ig pending m)"
    by (simp_all add: res(4))
  ultimately show ?thesis using inv new_broadcast_media unfolding enc_inv_def by (metis less_SucI lessI)
qed

lemma enc_inv_stop:
  "enc_inv K h m \<Longrightarrow> stopInstance order now cid ex a reason m = (ok, m', es) \<Longrightarrow> enc_inv K h m'"
  using stopInstance_media [of order now cid ex a reason m ok m' es] unfolding enc_inv_def by metis

lemma enc_reach_inv: "enc_reach A K s \<Longrightarrow> enc_inv K (hnd s) (mgr s)"
proof (induction rule: enc_reach.induct)
  case (connect m l cl remote rnd)
  have "\<exists>i. byID m i = Some r" if "byStreamKey m K = Some r" for r
    using mgr_inv_keys [OF mgr_reach_inv [OF connect(1)]] that by blast
  then have "r < nextRef m" if "byStreamKey m K = Some r" for r
    using mgr_inv_ref [OF mgr_reach_inv [OF connect(1)]] that by blast
  then show ?case using connect(2) by (simp add: enc_inv_def OnConnect_def newHandler_def tag_ok_def media_ok_def)
next
  case (publish s E key e s')
  then show ?case using enc_inv_publish by blast
next
  case (meta s payload E)
  then show ?case unfolding OnSetDataFrame_def
    by (intro enc_inv_rebuildHeader applyMetaInfo_keeps) (simp add: enc_inv_set_tag)
next
  case (video s payload E ts e s')
  then show ?case using enc_inv_video [of K s payload A E ts] by simp
next
  case (audio s payload E ts e s')
  then show ?case using enc_inv_audio [of K s payload A E ts] by simp
next
  case (other s m' l cl)
  then show ?case by (auto elim!: enc_inv_cong)
next
  case (broadcast s B k ci tr a ig pending res m' es)
  then show ?case using enc_inv_broadcast [OF broadcast.IH broadcast.hyps(2)] by simp
next
  case (stop s order now cid ex a reason ok m' es)
  then show ?case using enc_inv_stop [OF stop.IH stop.hyps(2)] by simp
qed

section \<open>Properties\<close>

text \<open>
  C4.  What viewers of an encoder's channel receive is one well-formed FLV stream.  Whatever the
  encoder sends, in whatever order with the creation and the stopping of channels, once the
  channel of its key has a head packet: the head packet followed by the buffered packets reads as
  an FLV file header and whole tags with correct back pointers; the packets' positions are
  contiguous and, while the ring has not overflowed, follow the head packet's; and the
  handler's next position is where the buffer ends, so the next packet will follow on as well.
\<close>

theorem encoder_stream_well_formed:
  assumes "enc_reach A K s" "GetByStreamKey K (mgr s) = Some r" "b = buffer (store (mgr s) r)" "header b = Some h"
  shows "take 4 h = ascii ''FLV'' @ [1] \<and>
    (\<exists>frames. flv_tags (drop 13 (h @ concat (map Data (contents b)))) = Some frames) \<and>
    contiguous (contents b) \<and>
    (contents b \<noteq> [] \<and> length (contents b) < capacity b \<longrightarrow> Pos (hd (contents b)) = headerPos b + of_nat (length h)) \<and>
    hStreamPos (hnd s) = ContentPosition b"
proof -
  note inv = enc_reach_inv [OF assms(1)]
  have "hHeaderAppliedTo (hnd s) = Some r" using inv assms(2-4) by (auto simp: enc_inv_def GetByStreamKey_def)
  then have ok: "media_ok b" "fed b (hStreamPos (hnd s))" "flv_header h"
    using inv assms(3,4) by (auto simp: enc_inv_def header_bytes_def)
  have bi: "buf_inv b" and tags: "\<forall>d \<in> set (map Data (contents b)). whole_tag d" using ok(1) by (auto simp: media_ok_def)
  have "take 4 h = ascii ''FLV'' @ [1]" using ok(3) by (auto simp: flv_header_def ascii_def)
  moreover have "contiguous (contents b)" using ok(2) by (auto simp: fed_def)
  moreover have "Pos (hd (contents b)) = headerPos b + of_nat (length h)" if "contents b \<noteq> []" "length (contents b) < capacity b"
    using ok(2) that assms(4) length_contents [OF bi] contents_empty_iff [OF bi] by (auto simp: fed_def)
  ultimately show ?thesis
    using flv_header_stream [OF ok(3) tags] fed_ContentPosition [OF bi ok(2)] by blast
qed

lemma new_broadcast_contents: "contents (buffer (fst (new_broadcast_channel B k ci tr a ig pending m))) = []"
  by (simp add: new_broadcast_channel_def Let_def configureChannel_def New_def split: prod.splits)

definition demo_amf :: amf0 where
  "demo_amf = \<lparr>amfMeta = (\<lambda>_. None), floatOther = (\<lambda>_. None)\<rparr>"

definition demo_rtmp :: rtmp_env where
  "demo_rtmp = \<lparr>eNow = 7, eNewID = [], eAccounts = [''bob''], eInputs = []\<rparr>"

lemma demo_published:
  obtains s r where "enc_reach demo_amf ''k1'' (s :: wire_atom session)" "hStreamKey (hnd s) = ''k1''" "handler_ch s = Some r"
    "mgr_reach (mgr s)" "hInputChannel (hnd s) = None" "GetByStreamKey ''k1'' (mgr s) = Some r"
proof -
  obtain r m es where run:
    "BroadcastWithAudit demo_env ''k1'' ChannelInfo0 TrackInfo0 (Actor_of ''admin'') None False demo_mgr = (Inr r, m, es)" "mgr_reach m"
    by (rule demo_broadcast)
  note res = Broadcast_result [OF run(1)]
  let ?s = "OnConnect m newPublishLimiter False ''1.2.3.4:99'' [1]"
  obtain e s' where pub: "OnPublish demo_rtmp ''k1'' ?s = (e, s')" by fastforce
  have m: "byStreamKey m ''k1'' = Some r" "store m r = fst (new_broadcast_channel demo_env ''k1'' ChannelInfo0 TrackInfo0 (Actor_of ''admin'') None False demo_mgr)"
    "keys m = keys demo_mgr" using res(3,4) by simp_all
  have "enc_reach demo_amf ''k1'' ?s"
  proof (rule enc_reach.connect [OF run(2)])
    fix q assume "byStreamKey m ''k1'' = Some q"
    then show "header (buffer (store m q)) = None \<and> contents (buffer (store m q)) = [] \<and> buf_inv (buffer (store m q))"
      using m(1,2) by (simp add: new_broadcast_media(1) new_broadcast_contents new_broadcast_media(2) [unfolded media_ok_def, THEN conjunct1])
  qed
  moreover have "isShortStreamKey ''k1'' = False" by (simp add: isShortStreamKey_def)
  then have "e = None" using pub m(3) demo_mgr_keys(1) by (auto simp: OnPublish_def Let_def OnConnect_def split: if_splits)
  moreover have "mgr ?s = m" "hInputChannel (hnd ?s) = None" by (simp_all add: OnConnect_def newHandler_def)
  ultimately show ?thesis
    using that [OF enc_reach.publish [OF _ pub]] OnPublish_result [OF pub] m(1) run(2)
    by (simp add: handler_ch_def GetByStreamKey_def)
qed

theorem encoder_stream_well_formed_witness:
  "\<exists>s r h. header (buffer (store (mgr (s :: wire_atom session)) r)) = Some h \<and> take 4 h = ascii ''FLV'' @ [1] \<and>
     hStreamPos (hnd s) = ContentPosition (buffer (store (mgr s) r))"
proof -
  obtain s r where s: "enc_reach demo_amf ''k1'' (s :: wire_atom session)" "hStreamKey (hnd s) = ''k1''" "handler_ch s = Some r"
    by (rule demo_published)
  obtain e s' where v: "OnVideo demo_amf demo_rtmp 0 (Some [0x17, 0]) s = (e, s')" by fastforce
  have reach: "enc_reach demo_amf ''k1'' s'" using s(1) _ v by (rule enc_reach.video) auto
  let ?s1 = "s\<lparr>hnd := (hnd s)\<lparr>hAvcTag := Some (makeFLVTag 9 0 [0x17, 0])\<rparr>\<rparr>"
  have s': "s' = rebuildHeader demo_amf demo_rtmp ?s1" using v by (simp add: OnVideo_def)
  have ch1: "handler_ch ?s1 = Some r" using s(3) by (simp add: handler_ch_def split: if_splits)
  have "hHeaderAppliedTo (hnd s') = Some r" unfolding s' by (rule rebuildHeader_applied [OF _ ch1]) simp
  with enc_reach_inv [OF reach] obtain h where h: "header (buffer (store (mgr s') r)) = Some h" by (auto simp: enc_inv_def fed_def)
  have "handler_ch s' = Some r" using ch1 unfolding s' by (simp add: rebuildHeader_ch)
  then have "GetByStreamKey ''k1'' (mgr s') = Some r"
    using enc_inv_channel(1) [OF enc_reach_inv [OF reach]] by (simp add: GetByStreamKey_def)
  from encoder_stream_well_formed [OF reach this refl h] h show ?thesis by blast
qed

lemma applyMetaInfo_media:
  "hHeaderAppliedTo (hnd (applyMetaInfo A E s)) = hHeaderAppliedTo (hnd s)" "hStreamPos (hnd (applyMetaInfo A E s)) = hStreamPos (hnd s)"
  "buffer (store (mgr (applyMetaInfo A E s)) q) = buffer (store (mgr s) q)"
  by (auto simp: applyMetaInfo_def split: option.splits)

lemma leave_input_media:
  "hHeaderAppliedTo (hnd (leave_input E s)) = hHeaderAppliedTo (hnd s)" "hStreamPos (hnd (leave_input E s)) = hStreamPos (hnd s)"
  "buffer (store (mgr (leave_input E s)) q) = buffer (store (mgr s) q)"
  by (auto simp: leave_input_def split: option.splits)

lemma writeData_contents:
  assumes "handler_ch s = Some r" "hHeaderAppliedTo (hnd s) = Some r" "b = buffer (store (mgr s) r)" "buf_inv b"
  shows "contents (buffer (store (mgr (writeData A E tag f s)) r)) =
    take_last (capacity b) (contents b @ [\<lparr>Pos = hStreamPos (hnd s), Data = appendFLVTagWithBackPointer [] tag, ContFlags = f, Timestamp = eNow E\<rparr>])"
proof -
  let ?s = "leave_input E (applyMetaInfo A E s)"
  have "writeData A E tag f s = write_tag E r tag f ?s"
    using assms(1,2) by (simp add: writeData_def Let_def leave_input_keeps applyMetaInfo_keeps leave_input_media applyMetaInfo_media)
  moreover have "buffer (store (mgr (write_tag E r tag f ?s)) r) =
      Write (eNow E) (buffer (store (mgr ?s) r)) (appendFLVTagWithBackPointer [] tag) (hStreamPos (hnd ?s)) f"
    by (simp add: write_tag_def Let_def Channel_Write_def)
  ultimately show ?thesis
    using assms(3,4) by (simp add: leave_input_media applyMetaInfo_media contents_Write)
qed

lemma rebuildHeader_contents:
  "buffer (store (mgr (rebuildHeader A E s)) q) = buffer (store (mgr s) q) \<or> contents (buffer (store (mgr (rebuildHeader A E s)) q)) = []"
proof -
  have "fst (SetHeader b d p) = b \<or> contents (fst (SetHeader b d p)) = []" for b d p by (auto simp: SetHeader_def contents_def)
  then show ?thesis
    by (auto simp: rebuildHeader_def Let_def applyMetaInfo_media fst_Channel_SetHeader split: option.splits)
qed

text \<open>
  Each frame goes where it belongs.  On the channel that has the session's head packet, an AVC
  or AAC sequence header is never buffered as data: it repeats the current head packet and
  nothing changes, or the head packet is replaced and the ring emptied.  Any other frame of at
  least two bytes is appended as one FLV tag at the session's position, with the flag that tells
  viewers whether they can start at it: none for a key frame, interframe or audio otherwise.
\<close>

theorem encoder_frames:
  assumes "handler_ch s = Some r" "hHeaderAppliedTo (hnd s) = Some r" "b = buffer (store (mgr s) r)" "buf_inv b"
    and "OnVideo A E ts (Some body) s = (e, s')" "OnAudio A E ts (Some body) s = (e2, s2)" "2 \<le> length body"
  shows "(if body ! 0 = 0x17 \<and> body ! 1 = 0 then buffer (store (mgr s') r) = b \<or> contents (buffer (store (mgr s') r)) = []
       else contents (buffer (store (mgr s') r)) = take_last (capacity b) (contents b @
         [\<lparr>Pos = hStreamPos (hnd s), Data = appendFLVTagWithBackPointer [] (makeFLVTag 9 ts body),
           ContFlags = if body ! 0 = 0x17 then 0 else 2, Timestamp = eNow E\<rparr>])) \<and>
      (if body ! 0 = 0xAF \<and> body ! 1 = 0 then buffer (store (mgr s2) r) = b \<or> contents (buffer (store (mgr s2) r)) = []
       else contents (buffer (store (mgr s2) r)) = take_last (capacity b) (contents b @
         [\<lparr>Pos = hStreamPos (hnd s), Data = appendFLVTagWithBackPointer [] (makeFLVTag 8 ts body),
           ContFlags = 4, Timestamp = eNow E\<rparr>]))"
    (is "(if ?avc then _ else _) \<and> (if ?aac then _ else _)")
proof -
  have seq: "buffer (store (mgr (rebuildHeader A E (s\<lparr>hnd := h\<rparr>))) r) = b \<or>
      contents (buffer (store (mgr (rebuildHeader A E (s\<lparr>hnd := h\<rparr>))) r)) = []" for h
    using rebuildHeader_contents [of A E "s\<lparr>hnd := h\<rparr>" r] assms(3) by simp
  note data = writeData_contents [OF assms(1-4)]
  have v: "?avc \<Longrightarrow> s' = rebuildHeader A E (s\<lparr>hnd := (hnd s)\<lparr>hAvcTag := Some (makeFLVTag 9 0 body)\<rparr>\<rparr>)"
    "\<not> ?avc \<Longrightarrow> s' = writeData A E (makeFLVTag 9 ts body) (if body ! 0 = 0x17 then 0 else 2) s"
    using assms(5,7) by (auto simp: OnVideo_def split: if_splits)
  have a: "?aac \<Longrightarrow> s2 = rebuildHeader A E (s\<lparr>hnd := (hnd s)\<lparr>hAacTag := Some (makeFLVTag 8 0 body)\<rparr>\<rparr>)"
    "\<not> ?aac \<Longrightarrow> s2 = writeData A E (makeFLVTag 8 ts body) 4 s"
    using assms(6,7) by (auto simp: OnAudio_def split: if_splits)
  show ?thesis
  proof (intro conjI)
    show "if ?avc then buffer (store (mgr s') r) = b \<or> contents (buffer (store (mgr s') r)) = []
       else contents (buffer (store (mgr s') r)) = take_last (capacity b) (contents b @
         [\<lparr>Pos = hStreamPos (hnd s), Data = appendFLVTagWithBackPointer [] (makeFLVTag 9 ts body),
           ContFlags = if body ! 0 = 0x17 then 0 else 2, Timestamp = eNow E\<rparr>])"
    proof (cases ?avc)
      case False
      show ?thesis unfolding v(2) [OF False] data using False by (simp only: if_False)
    qed (simp only: v if_True seq simp_thms)
    show "if ?aac then buffer (store (mgr s2) r) = b \<or> contents (buffer (store (mgr s2) r)) = []
       else contents (buffer (store (mgr s2) r)) = take_last (capacity b) (contents b @
         [\<lparr>Pos = hStreamPos (hnd s), Data = appendFLVTagWithBackPointer [] (makeFLVTag 8 ts body),
           ContFlags = 4, Timestamp = eNow E\<rparr>])"
    proof (cases ?aac)
      case False
      show ?thesis unfolding a(2) [OF False] data using False by (simp only: if_False)
    qed (simp only: a if_True seq simp_thms)
  qed
qed

theorem encoder_frames_witness:
  "\<exists>s r. handler_ch (s :: wire_atom session) = Some r \<and>
     length (contents (buffer (store (mgr (snd (OnAudio demo_amf demo_rtmp 5 (Some [0xAF, 1]) s))) r))) \<ge> 1"
proof -
  obtain s r where s: "enc_reach demo_amf ''k1'' (s :: wire_atom session)" "handler_ch s = Some r"
    by (rule demo_published)
  let ?s1 = "s\<lparr>hnd := (hnd s)\<lparr>hAvcTag := Some (makeFLVTag 9 0 [0x17, 0])\<rparr>\<rparr>"
  let ?s = "rebuildHeader demo_amf demo_rtmp ?s1"
  have v: "OnVideo demo_amf demo_rtmp 0 (Some [0x17, 0]) s = (None, ?s)" by (simp add: OnVideo_def)
  have "enc_reach demo_amf ''k1'' ?s" using s(1) _ v by (rule enc_reach.video) auto
  note inv = enc_reach_inv [OF this]
  have ch1: "handler_ch ?s1 = Some r" using s(2) by (simp add: handler_ch_def split: if_splits)
  then have ch2: "handler_ch ?s = Some r" by (simp add: rebuildHeader_ch)
  have app: "hHeaderAppliedTo (hnd ?s) = Some r" by (rule rebuildHeader_applied [OF _ ch1]) simp
  have bi: "buf_inv (buffer (store (mgr ?s) r))" using enc_inv_channel(3) [OF inv ch2] by (simp add: media_ok_def)
  obtain e s' where vid: "OnVideo demo_amf demo_rtmp 5 (Some [0xAF, 1]) ?s = (e, s')" by fastforce
  obtain e2 s2 where aud: "OnAudio demo_amf demo_rtmp 5 (Some [0xAF, 1]) ?s = (e2, s2)" by fastforce
  have "length (contents (buffer (store (mgr s2) r))) \<ge> 1"
    using encoder_frames [OF ch2 app refl bi vid aud] capacity_pos [of "buffer (store (mgr ?s) r)"]
    by (simp add: Suc_le_eq)
  with aud ch2 show ?thesis by (intro exI [of _ ?s] exI [of _ r]) simp
qed



lemma on_run_keeps: "chID (fst (on_run f c)) = chID c" "isBroadcasting (fst (on_run f c)) = isBroadcasting c" "outputs (fst (on_run f c)) = outputs c"
  by (simp_all add: on_run_def split: option.splits prod.splits)

lemma mgr_inv_on_run: "mgr_inv (mgr s) \<Longrightarrow> mgr_inv (mgr (on_chan i (on_run f) s))"
  by (erule mgr_inv_cong) (auto simp: on_chan_def on_run_keeps split: prod.splits, (metis fst_conv on_run_keeps)+)

lemma StopInstance_maps:
  assumes inv: "mgr_inv m" and r: "byStreamKey m K = Some r" and run: "StopInstance order now r a reason m = (ok, m', es)"
  shows "K \<noteq> []" "byID m (chID (store m r)) = Some r" "byStreamKey m' K = None" "byID m' = (byID m)(chID (store m r) := None)"
    "outputs (store m' r) = []"
proof -
  obtain i where i: "streamKeyByID m i = Some K" "byID m i = Some r" using mgr_inv_keys [OF inv] r by blast
  then have cid: "chID (store m r) = i" using mgr_inv_ref [OF inv] by blast
  show "K \<noteq> []" using mgr_inv_broadcast [OF inv i(1)] by blast
  show "byID m (chID (store m r)) = Some r" using i(2) cid by simp
  have "outputs (fst (end_channel order now a reason (store m r))) = []" by (rule end_channel_simps)
  then show "byStreamKey m' K = None" "byID m' = (byID m)(chID (store m r) := None)" "outputs (store m' r) = []"
    using run i cid by (auto simp: StopInstance_def stopInstance_def Let_def split: prod.splits)
qed

text \<open>
  When an encoder disconnects, its channel stops and no other.  If the channel of its key is the
  one it was feeding, or it has fed none, that channel is deregistered and all its outputs are
  closed.  If the key has meanwhile been given a new channel, the new channel stays.  Every other
  channel stays in either case.
\<close>

theorem OnClose_stops_own_channel:
  assumes "mgr_reach (mgr s)" "hStreamKey (hnd s) = K" "GetByStreamKey K (mgr s) = Some r" "s' = OnClose E s"
  shows "(if hInputChannel (hnd s) = None \<or> hInputChannel (hnd s) = Some r
          then GetByStreamKey K (mgr s') = None \<and> GetByID (chID (store (mgr s) r)) (mgr s') = None \<and> outputs (store (mgr s') r) = []
          else GetByStreamKey K (mgr s') = Some r \<and> GetByID (chID (store (mgr s) r)) (mgr s') = Some r) \<and>
         (\<forall>i. i \<noteq> chID (store (mgr s) r) \<longrightarrow> GetByID i (mgr s') = GetByID i (mgr s))"
proof -
  define reason where "reason = (if hShuttingDown (hnd s) \<and> closing s then ''server_shutdown'' else ''encoder_disconnect'')"
  define s1 where "s1 = (case hInputChannel (hnd s) of
                 None \<Rightarrow> s
               | Some i \<Rightarrow> on_chan i (on_run (Run_EndInput (eNow E) (hConnectionID (hnd s)) reason)) s)"
  have s1: "hnd s1 = hnd s" "byStreamKey (mgr s1) = byStreamKey (mgr s)" "byID (mgr s1) = byID (mgr s)" "mgr_inv (mgr s1)"
    "chID (store (mgr s1) r) = chID (store (mgr s) r)"
    using mgr_reach_inv [OF assms(1)] by (simp_all add: s1_def on_run_keeps mgr_inv_on_run split: option.splits)
  obtain ok m es where run: "StopInstance (eInputs E) (eNow E) r ((Actor_of ''rtmp'')\<lparr>acIP := hRemoteAddr (hnd s1)\<rparr>) reason (mgr s1) = (ok, m, es)"
    by (metis prod_cases3)
  have key: "byStreamKey (mgr s1) K = Some r" using assms(3) s1(2) by (simp add: GetByStreamKey_def)
  note stop = StopInstance_maps [OF s1(4) key run]
  have "s' = (if hInputChannel (hnd s) = None \<or> hInputChannel (hnd s) = Some r then s1\<lparr>mgr := m, effs := effs s1 @ es\<rparr> else s1)"
    using stop(1) key run s1(1) assms(2)
    unfolding assms(4) OnClose_def Let_def reason_def [symmetric] s1_def [symmetric] GetByStreamKey_def by auto
  then show ?thesis using stop s1 key by (auto simp: GetByStreamKey_def GetByID_def)
qed

theorem OnClose_stops_own_channel_witness:
  "\<exists>s. handler_ch (s :: wire_atom session) \<noteq> None \<and> GetByStreamKey ''k1'' (mgr (OnClose demo_rtmp s)) = None"
proof -
  obtain s r where s: "hStreamKey (hnd (s :: wire_atom session)) = ''k1''" "handler_ch s = Some r"
    "mgr_reach (mgr s)" "hInputChannel (hnd s) = None" "GetByStreamKey ''k1'' (mgr s) = Some r"
    by (rule demo_published)
  from OnClose_stops_own_channel [OF s(3,1,5) refl] s show ?thesis by (intro exI [of _ s]) simp
qed

end
