(* ===== verification/Servent_Http.thy ===== *)
theory Servent_Http
  imports Relay_Stream
begin

text \<open>
  \<^verbatim>\<open>internal/servent/http.go\<close>: an output that sends the stream to a media player.

  As for a relay output, \<^verbatim>\<open>run\<close> is a state machine whose steps are the pieces of code between two
  points at which another goroutine matters; each sees the channel at one instant.  A write is an
  element of the result, or ends the output if \<open>heOk\<close> says that it failed; what a failed write may
  have delivered in part is not counted.  The goroutine that watches the read side only calls
  \<^verbatim>\<open>Close\<close>.
\<close>

definition infoWaitTimeout :: int where
  "infoWaitTimeout = 10 * second"

definition firstDataTimeout :: int where
  "firstDataTimeout = 30 * second"

definition statusGatewayTimeout :: string where
  "statusGatewayTimeout = ''HTTP/1.0 504 Gateway Timeout'' @ CRLF @ CRLF"

definition sanitizeHeaderValue :: "string \<Rightarrow> string" where
  "sanitizeHeaderValue s = filter (\<lambda>c. c \<noteq> CHR 0x0D \<and> c \<noteq> CHR 0x0A) s"

definition http_response :: "ChannelInfo \<Rightarrow> string" where
  "http_response i =
     ''HTTP/1.0 200 OK'' @ CRLF @
     ''Content-Type: '' @ sanitizeHeaderValue (if MIMEType i = [] then ''video/x-flv'' else MIMEType i) @ CRLF @
     ''icy-name: '' @ sanitizeHeaderValue (Name i) @ CRLF @
     ''icy-genre: '' @ sanitizeHeaderValue (Genre i) @ CRLF @
     ''icy-url: '' @ sanitizeHeaderValue (URL i) @ CRLF @
     ''icy-bitrate: '' @ Itoa (uint (Bitrate i)) @ CRLF @ CRLF"

datatype http_write = HText string | HBytes "byte list"

datatype http_phase =
  HInfo | HRespond | HCheck | HCapture | HFirst nat | HHeader | HTop | HRead nat | HWait nat | HDone

datatype http_wake = HClose | HSignal | HNoteInfo | HNoteHeader | HTimer

record http_stream =
  htBase :: outputBase
  htInfo :: ChannelInfo
  htSent :: Content
  htWaiting :: bool
  htPhase :: http_phase

record http_env =
  htOk :: "nat \<Rightarrow> bool"
  htWake :: http_wake

definition newHTTPOutputStream :: "addr \<Rightarrow> int \<Rightarrow> outputBase" where
  "newHTTPOutputStream remote i = newOutputBase remote i"

text \<open>The output as its channel registers it.\<close>

definition as_http_output :: "nat \<Rightarrow> outputBase \<Rightarrow> OutputStream" where
  "as_http_output ref b =
     \<lparr>oRef = ref, oType = OutputStreamHTTP, oID = obID b, oRemoteAddr = obRemoteAddr b, oPeer = None\<rparr>"

definition http_start :: "outputBase \<Rightarrow> 'a Channel \<Rightarrow> http_stream" where
  "http_start b ch =
     \<lparr>htBase = b, htInfo = info ch, htSent = zeroContent, htWaiting = True,
      htPhase = (if CType (info ch) = [] then HInfo else HRespond)\<rparr>"

definition goto :: "http_phase \<Rightarrow> http_stream \<Rightarrow> http_stream" where
  "goto ph s = s\<lparr>htPhase := ph\<rparr>"

definition wait_info :: "http_env \<Rightarrow> 'a Channel \<Rightarrow> http_stream \<Rightarrow> http_stream \<times> http_write list" where
  "wait_info E ch s =
     (case htWake E of
        HNoteInfo \<Rightarrow>
          if \<not> obInfo (htBase s) then (s, [])
          else (s\<lparr>htBase := (htBase s)\<lparr>obInfo := False\<rparr>, htInfo := info ch,
                  htPhase := (if CType (info ch) = [] then HInfo else HRespond)\<rparr>, [])
      | HClose \<Rightarrow> if obClosed (htBase s) then (goto HDone s, []) else (s, [])
      | HTimer \<Rightarrow> (goto HDone s, [HText statusGatewayTimeout])
      | _ \<Rightarrow> (s, []))"

definition wait_first :: "http_env \<Rightarrow> nat \<Rightarrow> 'a Channel \<Rightarrow> http_stream \<Rightarrow> http_stream" where
  "wait_first E sig ch s =
     (case htWake E of
        HSignal \<Rightarrow> if signalled (buffer ch) sig then goto HHeader s else s
      | HClose \<Rightarrow> if obClosed (htBase s) then goto HDone s else s
      | HTimer \<Rightarrow> goto HDone s
      | _ \<Rightarrow> s)"

definition drop_header_note :: "http_stream \<Rightarrow> http_stream" where
  "drop_header_note s = s\<lparr>htBase := (htBase s)\<lparr>obHeader := False\<rparr>\<rparr>"

definition first_header :: "http_env \<Rightarrow> 'a Channel \<Rightarrow> http_stream \<Rightarrow> http_stream \<times> http_write list" where
  "first_header E ch s =
     (let s1 = drop_header_note s; h = fst (Header (buffer ch)) in
      if h = [] then (goto HTop s1, [])
      else if htOk E 0 then (goto HTop s1, [HBytes h])
      else (goto HDone s1, []))"

definition writeHeaderUpdate :: "http_env \<Rightarrow> 'a Channel \<Rightarrow> http_stream \<Rightarrow> bool \<times> http_stream \<times> http_write list" where
  "writeHeaderUpdate E ch s =
     (let h = fst (Header (buffer ch)) in
      if h = [] then (True, s, [])
      else if \<not> htOk E 0 then (False, s, [])
      else (True, s\<lparr>htSent := zeroContent, htWaiting := True\<rparr>, [HBytes h]))"

definition header_note :: "http_env \<Rightarrow> 'a Channel \<Rightarrow> http_phase \<Rightarrow> http_stream \<Rightarrow> http_stream \<times> http_write list" where
  "header_note E ch next s =
     (case writeHeaderUpdate E ch (drop_header_note s) of (good, s1, ws) \<Rightarrow> (goto (if good then next else HDone) s1, ws))"

definition loop_top :: "http_env \<Rightarrow> 'a Channel \<Rightarrow> http_stream \<Rightarrow> http_stream \<times> http_write list" where
  "loop_top E ch s =
     (if obHeader (htBase s) then header_note E ch (HRead (Signal (buffer ch))) s
      else (goto (HRead (Signal (buffer ch))) s, []))"

text \<open>The inner loop over the packets read: the last packet handled, whether it still waits, and the writes.\<close>

fun write_packets ::
  "(nat \<Rightarrow> bool) \<Rightarrow> nat \<Rightarrow> 'a Channel \<Rightarrow> Content list \<Rightarrow> Content \<Rightarrow> bool \<Rightarrow> Content \<times> bool \<times> http_write list \<times> bool" where
  "write_packets ok n ch [] sent waiting = (sent, waiting, [], True)"
| "write_packets ok n ch (p # ps) sent waiting =
     (if waiting \<and> \<not> CanStartContent p ch then write_packets ok n ch ps p waiting
      else if \<not> ok n then (sent, False, [], False)
      else case write_packets ok (Suc n) ch ps p False of (sent', w', ws, good) \<Rightarrow> (sent', w', HBytes (Data p) # ws, good))"

definition read_packets :: "http_env \<Rightarrow> nat \<Rightarrow> 'a Channel \<Rightarrow> http_stream \<Rightarrow> http_stream \<times> http_write list" where
  "read_packets E sig ch s =
     (let ps = PacketsAfter (buffer ch) (htSent s) in
      if ps = [] then (goto (HWait sig) s, [])
      else case write_packets (htOk E) 0 ch ps (htSent s) (htWaiting s) of (sent, w, ws, good) \<Rightarrow>
        (s\<lparr>htSent := sent, htWaiting := w, htPhase := (if good then HTop else HDone)\<rparr>, ws))"

definition wait_more :: "http_env \<Rightarrow> nat \<Rightarrow> 'a Channel \<Rightarrow> http_stream \<Rightarrow> http_stream \<times> http_write list" where
  "wait_more E sig ch s =
     (case htWake E of
        HClose \<Rightarrow> if obClosed (htBase s) then (goto HDone s, []) else (s, [])
      | HNoteHeader \<Rightarrow> if obHeader (htBase s) then header_note E ch HTop s else (s, [])
      | HSignal \<Rightarrow> if signalled (buffer ch) sig then (goto HTop s, []) else (s, [])
      | _ \<Rightarrow> (s, []))"

definition http_step :: "http_env \<Rightarrow> 'a Channel \<Rightarrow> http_stream \<Rightarrow> http_stream \<times> http_write list" where
  "http_step E ch s =
     (case htPhase s of
        HInfo \<Rightarrow> wait_info E ch s
      | HRespond \<Rightarrow> if htOk E 0 then (goto HCheck s, [HText (http_response (htInfo s))]) else (goto HDone s, [])
      | HCheck \<Rightarrow> (goto (if HasData (buffer ch) then HHeader else HCapture) s, [])
      | HCapture \<Rightarrow> (goto (HFirst (Signal (buffer ch))) s, [])
      | HFirst sig \<Rightarrow> (wait_first E sig ch s, [])
      | HHeader \<Rightarrow> first_header E ch s
      | HTop \<Rightarrow> loop_top E ch s
      | HRead sig \<Rightarrow> read_packets E sig ch s
      | HWait sig \<Rightarrow> wait_more E sig ch s
      | HDone \<Rightarrow> (s, []))"

section \<open>Response headers\<close>

fun header_lines :: "string \<Rightarrow> string list" where
  "header_lines [] = []"
| "header_lines (c # s) =
     (if c = CHR 0x0A then [] # header_lines s
      else case header_lines s of [] \<Rightarrow> [[c]] | l # ls \<Rightarrow> (c # l) # ls)"

lemma header_lines_line:
  "CHR 0x0A \<notin> set l \<Longrightarrow> header_lines (l @ CHR 0x0A # s) = l # header_lines s"
  by (induction l) (auto split: list.splits)

lemma sanitize_no_newline [simp]: "CHR 0x0A \<notin> set (sanitizeHeaderValue s)" "CHR 0x0D \<notin> set (sanitizeHeaderValue s)"
  by (simp_all add: sanitizeHeaderValue_def)

lemma Itoa_no_newline: "0 \<le> n \<Longrightarrow> CHR 0x0A \<notin> set (Itoa n)"
  using Itoa_nat_digits [of "nat n"] by (auto simp: Itoa_def list_all_iff is_digit_def)

lemma header_lines_concat:
  "\<forall>l \<in> set ls. CHR 0x0A \<notin> set l \<Longrightarrow> header_lines (concat (map (\<lambda>l. l @ CRLF) ls)) = map (\<lambda>l. l @ [CHR 0x0D]) ls"
proof (induction ls)
  case (Cons l ls)
  then show ?case using header_lines_line [of "l @ [CHR 0x0D]" "concat (map (\<lambda>l. l @ CRLF) ls)"] by (simp add: CRLF_def)
qed simp

text \<open>
  A stranger's metadata cannot inject headers.  Whatever the channel's name, genre, URL and MIME
  type contain, the response to a viewer has exactly seven lines: the status, five header fields with
  these values less their line breaks, and the empty line that ends the headers.
\<close>

theorem http_response_lines:
  "header_lines (http_response i) =
     map (\<lambda>l. l @ [CHR 0x0D])
       [''HTTP/1.0 200 OK'',
        ''Content-Type: '' @ sanitizeHeaderValue (if MIMEType i = [] then ''video/x-flv'' else MIMEType i),
        ''icy-name: '' @ sanitizeHeaderValue (Name i), ''icy-genre: '' @ sanitizeHeaderValue (Genre i),
        ''icy-url: '' @ sanitizeHeaderValue (URL i), ''icy-bitrate: '' @ Itoa (uint (Bitrate i)), []]"
proof -
  let ?ls = "[''HTTP/1.0 200 OK'',
        ''Content-Type: '' @ sanitizeHeaderValue (if MIMEType i = [] then ''video/x-flv'' else MIMEType i),
        ''icy-name: '' @ sanitizeHeaderValue (Name i), ''icy-genre: '' @ sanitizeHeaderValue (Genre i),
        ''icy-url: '' @ sanitizeHeaderValue (URL i), ''icy-bitrate: '' @ Itoa (uint (Bitrate i)), []]"
  have "http_response i = concat (map (\<lambda>l. l @ CRLF) ?ls)" by (simp add: http_response_def)
  moreover have "\<forall>l \<in> set ?ls. CHR 0x0A \<notin> set l" by (simp add: Itoa_no_newline)
  ultimately show ?thesis by (simp only: header_lines_concat)
qed

section \<open>A viewer beside the writer of the buffer\<close>

definition data_of :: "Content list \<Rightarrow> byte list" where
  "data_of ps = concat (map Data ps)"

fun written :: "http_write list \<Rightarrow> byte list" where
  "written [] = []"
| "written (HBytes b # ws) = b @ written ws"
| "written (HText t # ws) = written ws"

text \<open>
  The joint system from one stream header to the next; \<open>hist\<close> is what the buffer has held since then,
  \<open>out\<close> what has been written after the header.
\<close>

inductive http_run :: "'a Channel \<Rightarrow> http_stream \<Rightarrow> Content list \<Rightarrow> http_write list \<Rightarrow> bool" where
  start:
    "timed_ok (buffer ch) \<Longrightarrow> htSent s = zeroContent \<Longrightarrow> htWaiting s \<Longrightarrow> first_header E ch s = (s', ws) \<Longrightarrow>
     http_run ch s' (contents (buffer ch)) []"
| new_header:
    "timed_ok (buffer ch) \<Longrightarrow> header_note E ch HTop s = (s', [HBytes h]) \<Longrightarrow>
     http_run ch s' (contents (buffer ch)) []"
| put:
    "http_run ch s hist out \<Longrightarrow> q = \<lparr>Pos = pos, Data = d, ContFlags = f, Timestamp = now\<rparr> \<Longrightarrow> next_timed (buffer ch) q \<Longrightarrow>
     length (PacketsAfter (buffer ch) (htSent s)) < capacity (buffer ch) \<Longrightarrow>
     http_run (Channel_Write now d pos f ch) s (hist @ [q]) out"
| other:
    "http_run ch s hist out \<Longrightarrow> buffer ch' = buffer ch \<Longrightarrow> http_run ch' s hist out"
| notify:
    "http_run ch s hist out \<Longrightarrow> \<not> obHeader b \<Longrightarrow> http_run ch (s\<lparr>htBase := b\<rparr>) hist out"
| step:
    "http_run ch s hist out \<Longrightarrow> http_step E ch s = (s', ws) \<Longrightarrow> http_run ch s' hist (out @ ws)"

lemma written_append [simp]: "written (xs @ ys) = written xs @ written ys"
  by (induction xs rule: written.induct) simp_all

lemma data_of_simps [simp]:
  "data_of [] = []" "data_of (p # ps) = Data p @ data_of ps" "data_of (ps @ qs) = data_of ps @ data_of qs"
  by (simp_all add: data_of_def)

lemma starts_data_prefix: "prefix (data_of (starts ch ps)) (data_of (starts ch (ps @ qs)))"
  by (simp add: starts_append)

lemma write_packets_sent:
  assumes "write_packets ok n ch ps sent w = (sent', w', ws, good)"
  shows "prefix (written ws) (data_of (if w then starts ch ps else ps)) \<and>
    (good \<longrightarrow> written ws = data_of (if w then starts ch ps else ps) \<and> (w' \<longleftrightarrow> w \<and> starts ch ps = []) \<and>
       sent' = (if ps = [] then sent else last ps))"
  using assms
proof (induction ps arbitrary: n sent w ws)
  case (Cons p ps)
  show ?case
  proof (cases "w \<and> \<not> CanStartContent p ch")
    case True
    then show ?thesis using Cons.IH [of n p w ws] Cons.prems by auto
  next
    case False
    obtain s1 w1 ws1 g1 where rest: "write_packets ok (Suc n) ch ps p False = (s1, w1, ws1, g1)" by (metis prod_cases4)
    show ?thesis
    proof (cases "ok n")
      case True
      then have res: "sent' = s1" "w' = w1" "good = g1" "ws = HBytes (Data p) # ws1" using False rest Cons.prems by auto
      have "(if w then starts ch (p # ps) else p # ps) = p # ps" using False by auto
      then show ?thesis using Cons.IH [of "Suc n" p False ws1] rest res False by auto
    qed (use False Cons.prems in auto)
  qed
qed simp

definition viewing :: "'a Channel \<Rightarrow> http_stream \<Rightarrow> Content list \<Rightarrow> Content list \<Rightarrow> http_write list \<Rightarrow> bool" where
  "viewing ch s con rest out \<longleftrightarrow>
     PacketsAfter (buffer ch) (htSent s) = rest \<and> (rest = [] \<longrightarrow> up_to (buffer ch) (htSent s)) \<and>
     written out = data_of (starts ch con) \<and> (htWaiting s \<longleftrightarrow> starts ch con = []) \<and>
     (case htPhase s of HTop \<Rightarrow> True | HRead sig \<Rightarrow> sig \<le> sigCh (buffer ch)
      | HWait sig \<Rightarrow> sig \<le> sigCh (buffer ch) \<and> (rest \<noteq> [] \<longrightarrow> signalled (buffer ch) sig) | _ \<Rightarrow> False)"

definition view_inv :: "'a Channel \<Rightarrow> http_stream \<Rightarrow> Content list \<Rightarrow> http_write list \<Rightarrow> bool" where
  "view_inv ch s hist out \<longleftrightarrow> timed_ok (buffer ch) \<and> \<not> obHeader (htBase s) \<and>
     (if htPhase s = HDone then prefix (written out) (data_of (starts ch hist))
      else \<exists>con rest. hist = con @ rest \<and> viewing ch s con rest out)"

lemma view_inv_start:
  assumes "timed_ok (buffer ch)" "\<not> obHeader (htBase s)" "htSent s = zeroContent" "htWaiting s" "htPhase s = HTop \<or> htPhase s = HDone"
  shows "view_inv ch s (contents (buffer ch)) []"
proof -
  have "PacketsAfter (buffer ch) zeroContent = contents (buffer ch)"
    by (cases "contents (buffer ch)") (simp_all add: PacketsAfter_contents newer_than_def zeroContent_def)
  then show ?thesis
    using assms by (auto simp: view_inv_def viewing_def up_to_def zeroContent_def intro!: exI [of _ "[]"])
qed

lemma view_inv_put:
  assumes inv: "view_inv ch s hist out" and q: "q = \<lparr>Pos = pos, Data = d, ContFlags = f, Timestamp = now\<rparr>"
    and put: "next_timed (buffer ch) q" "length (PacketsAfter (buffer ch) (htSent s)) < capacity (buffer ch)"
  shows "view_inv (Channel_Write now d pos f ch) s (hist @ [q]) out" (is "view_inv ?ch' s _ out")
proof -
  have b: "buffer ?ch' = write_content (buffer ch) q" by (simp add: buffer_Channel_Write q)
  have ok: "timed_ok (buffer ch)" using inv by (simp add: view_inv_def)
  have ok': "timed_ok (buffer ?ch')" unfolding b by (rule timed_ok_put [OF ok put(1)])
  have st: "starts ?ch' ps = starts ch ps" for ps by (rule starts_same_header) (simp add: b write_content_def)
  show ?thesis
  proof (cases "htPhase s = HDone")
    case True
    with inv ok' show ?thesis by (auto simp: view_inv_def st intro: prefix_order.trans [OF _ starts_data_prefix])
  next
    case False
    then obtain con rest where c: "hist = con @ rest" "viewing ch s con rest out" using inv by (auto simp: view_inv_def)
    have "PacketsAfter (buffer ?ch') (htSent s) = rest @ [q]"
      unfolding b using by_time.unread_put [OF ok put] c(2) by (auto simp: viewing_def)
    then have "viewing ?ch' s con (rest @ [q]) out"
      using c(2) by (auto simp: viewing_def st b signalled_def write_content_def split: http_phase.splits)
    with False inv ok' c(1) show ?thesis by (auto simp: view_inv_def)
  qed
qed

lemma view_inv_other:
  assumes "view_inv ch s hist out" "buffer ch' = buffer ch"
  shows "view_inv ch' s hist out"
proof -
  have "starts ch' ps = starts ch ps" for ps by (rule starts_same_header) (simp add: assms(2))
  then have "viewing ch' s con rest out = viewing ch s con rest out" for con rest
    unfolding viewing_def assms(2) by simp
  then show ?thesis using assms starts_same_header [of ch' ch] by (simp add: view_inv_def)
qed

lemma view_inv_idle:
  assumes "view_inv ch s hist out" "htPhase s \<noteq> HDone" "\<not> obHeader (htBase s')" "htSent s' = htSent s" "htWaiting s' = htWaiting s"
    and "htPhase s' \<in> {HTop, HDone} \<or> htPhase s' = HRead (sigCh (buffer ch)) \<or> htPhase s' = htPhase s"
  shows "view_inv ch s' hist out"
proof -
  obtain con rest where c: "hist = con @ rest" "viewing ch s con rest out" using assms(1,2) by (auto simp: view_inv_def)
  then have pre: "prefix (written out) (data_of (starts ch hist))" using starts_data_prefix [of ch con rest] by (simp add: viewing_def)
  have "viewing ch s' con rest out" if "htPhase s' \<noteq> HDone"
    using c(2) assms(4-6) that by (auto simp: viewing_def)
  with assms(1,3) c(1) pre show ?thesis by (auto simp: view_inv_def)
qed

lemma view_inv_read:
  assumes inv: "view_inv ch s hist out" and ph: "htPhase s = HRead sig" and run: "read_packets E sig ch s = (s', ws)"
  shows "view_inv ch s' hist (out @ ws)"
proof -
  let ?ps = "PacketsAfter (buffer ch) (htSent s)"
  obtain con where c: "hist = con @ ?ps" "viewing ch s con ?ps out" using inv ph by (auto simp: view_inv_def viewing_def)
  have ok: "timed_ok (buffer ch)" "\<not> obHeader (htBase s)" using inv by (simp_all add: view_inv_def)
  show ?thesis
  proof (cases "?ps = []")
    case True
    then have "s' = goto (HWait sig) s" "ws = []" using run by (simp_all add: read_packets_def)
    moreover have "viewing ch (goto (HWait sig) s) con ?ps out" using c(2) ph True by (auto simp: viewing_def goto_def)
    ultimately show ?thesis using ok c(1) by (auto simp: view_inv_def goto_def)
  next
    case False
    obtain sent w good where wp: "write_packets (htOk E) 0 ch ?ps (htSent s) (htWaiting s) = (sent, w, ws, good)"
      and s': "s' = s\<lparr>htSent := sent, htWaiting := w, htPhase := (if good then HTop else HDone)\<rparr>"
      using run False by (auto simp: read_packets_def Let_def split: prod.splits)
    note sent = write_packets_sent [OF wp]
    have total: "data_of (starts ch con) @ data_of (if htWaiting s then starts ch ?ps else ?ps) = data_of (starts ch hist)"
      using c by (auto simp: viewing_def starts_append)
    have w0: "written out = data_of (starts ch con)" using c(2) by (simp add: viewing_def)
    show ?thesis
    proof (cases good)
      case no: False
      have "prefix (written (out @ ws)) (data_of (starts ch hist))"
        using sent w0 unfolding total [symmetric] by simp
      then show ?thesis using no s' ok by (simp add: view_inv_def)
    next
      case True
      have last: "last ?ps = last (contents (buffer ch))" "contents (buffer ch) \<noteq> []" using by_time.last_unread [OF False] by simp_all
      have "viewing ch s' hist [] (out @ ws)"
        using sent True False s' w0 c total last by_time.unread_mark [OF ok(1)]
        by (auto simp: viewing_def up_to_def starts_append)
      then show ?thesis using True s' ok by (auto simp: view_inv_def)
    qed
  qed
qed

lemma view_inv_step:
  assumes inv: "view_inv ch s hist out" and run: "http_step E ch s = (s', ws)"
  shows "view_inv ch s' hist (out @ ws)"
proof -
  have quiet: "\<not> obHeader (htBase s)" using inv by (simp add: view_inv_def)
  show ?thesis
  proof (cases "htPhase s")
    case HTop
    then have s': "s' = s\<lparr>htPhase := HRead (sigCh (buffer ch))\<rparr>" "ws = []"
      using run quiet by (simp_all add: http_step_def loop_top_def goto_def Signal_def)
    have "view_inv ch s' hist out" by (rule view_inv_idle [OF inv]) (simp_all add: HTop quiet s')
    then show ?thesis using s' by simp
  next
    case (HRead sig)
    then show ?thesis using view_inv_read [OF inv HRead, of E s' ws] run by (simp add: http_step_def)
  next
    case (HWait sig)
    then have s': "ws = []" "s' = s \<or> s' = s\<lparr>htPhase := HTop\<rparr> \<or> s' = s\<lparr>htPhase := HDone\<rparr>"
      using run quiet by (auto simp: http_step_def wait_more_def goto_def split: http_wake.splits if_splits)
    have "view_inv ch s' hist out" by (rule view_inv_idle [OF inv]) (use HWait quiet s'(2) in auto)
    then show ?thesis using s' by simp
  next
    case HDone
    then show ?thesis using inv run by (simp add: http_step_def)
  qed (use inv in \<open>auto simp: view_inv_def viewing_def\<close>)
qed

lemma view_inv_notify:
  assumes "view_inv ch s hist out" "\<not> obHeader b"
  shows "view_inv ch (s\<lparr>htBase := b\<rparr>) hist out"
proof (cases "htPhase s = HDone")
  case True
  then show ?thesis using assms by (simp add: view_inv_def)
next
  case False
  show ?thesis by (rule view_inv_idle [OF assms(1) False]) (use assms(2) in simp_all)
qed

lemma http_run_inv: "http_run ch s hist out \<Longrightarrow> view_inv ch s hist out"
proof (induction rule: http_run.induct)
  case (start ch s E s' ws)
  then have "\<not> obHeader (htBase s') \<and> htSent s' = zeroContent \<and> htWaiting s' \<and> (htPhase s' = HTop \<or> htPhase s' = HDone)"
    by (auto simp: first_header_def Let_def drop_header_note_def goto_def split: if_splits)
  with start(1) show ?case by (intro view_inv_start) auto
next
  case (new_header ch E s s' h)
  then have "\<not> obHeader (htBase s') \<and> htSent s' = zeroContent \<and> htWaiting s' \<and> (htPhase s' = HTop \<or> htPhase s' = HDone)"
    by (auto simp: header_note_def writeHeaderUpdate_def Let_def drop_header_note_def goto_def split: if_splits)
  with new_header(1) show ?case by (intro view_inv_start) auto
qed (auto intro: view_inv_put view_inv_other view_inv_notify view_inv_step)


definition demo_viewer :: http_stream where
  "demo_viewer = (http_start (newOutputBase (OtherAddr []) 1) demo_source)\<lparr>htPhase := HHeader\<rparr>"

definition demo_writes :: http_env where
  "demo_writes = \<lparr>htOk = (\<lambda>_. True), htWake = HSignal\<rparr>"


end
