(* ===== verification/Servent_Listener.thy ===== *)
theory Servent_Listener
  imports Servent_Http Manager
begin

text \<open>
  \<^verbatim>\<open>internal/servent/listener.go\<close>: what becomes of a connection to the PeerCast port, and the on-demand
  relay that \<^verbatim>\<open>main.go\<close> installs.

  A request is given as \<^verbatim>\<open>net/http\<close> parses it.  Channels are references into the manager's store.
  A handler of a streaming connection is split where it runs outside the admission lock: opening
  and checking admission, joining after the handshake, and leaving.
\<close>

record Listener =
  lsSessionID :: gnuid
  lsPort :: int
  lsMaxRelays :: int
  lsMaxRelaysTotal :: int
  lsMaxListeners :: int
  lsMaxUpstreamKbps :: int
  lsGlobalIP :: u32
  lsNextConnID :: int
  lsHasAPI :: bool
  lsViewerToken :: string
  lsRelayRequestFromAny :: bool

definition NewListener :: "gnuid \<Rightarrow> int \<Rightarrow> int \<Rightarrow> int \<Rightarrow> int \<Rightarrow> int \<Rightarrow> Listener" where
  "NewListener sid port maxRelays maxRelaysTotal maxListeners maxUpstreamKbps =
     \<lparr>lsSessionID = sid, lsPort = port, lsMaxRelays = maxRelays, lsMaxRelaysTotal = maxRelaysTotal,
      lsMaxListeners = maxListeners, lsMaxUpstreamKbps = maxUpstreamKbps, lsGlobalIP = 0, lsNextConnID = 0,
      lsHasAPI = False, lsViewerToken = [], lsRelayRequestFromAny = False\<rparr>"

definition SetAPIHandler :: "Listener \<Rightarrow> Listener" where
  "SetAPIHandler l = l\<lparr>lsHasAPI := True\<rparr>"

definition Listener_SetGlobalIP :: "u32 \<Rightarrow> Listener \<Rightarrow> Listener" where
  "Listener_SetGlobalIP p l = l\<lparr>lsGlobalIP := p\<rparr>"

definition next_conn_id :: "Listener \<Rightarrow> int \<times> Listener" where
  "next_conn_id l = (lsNextConnID l + 1, l\<lparr>lsNextConnID := lsNextConnID l + 1\<rparr>)"

section \<open>Dispatch\<close>

datatype route = RRelay | RStream | RPls | RPing | RApi | RClosed

text \<open>\<open>s\<close> is what the peer sends until it stops; \<^verbatim>\<open>Peek\<close> sees at most 64 bytes of it.\<close>

definition peeked :: "string \<Rightarrow> string" where
  "peeked s = (if take 4 s = ''pcp'' @ [LF] then take 4 s else take 64 s)"

definition handle_conn :: "Listener \<Rightarrow> string \<Rightarrow> route" where
  "handle_conn l s =
     (let peek = peeked s in
      if length peek < 4 then RClosed
      else if HasPrefix peek ''GET /channel/'' then RRelay
      else if HasPrefix peek ''GET /stream/'' then RStream
      else if HasPrefix peek ''GET /pls/'' then RPls
      else if HasPrefix peek (''pcp'' @ [LF]) then RPing
      else if HasPrefix peek ''POST /api'' \<or> HasPrefix peek ''OPTIONS /api'' then (if lsHasAPI l then RApi else RClosed)
      else RClosed)"

section \<open>Requests\<close>

definition statusBadRequest :: string where "statusBadRequest = ''HTTP/1.0 400 Bad Request'' @ CRLF @ CRLF"
definition statusForbidden :: string where "statusForbidden = ''HTTP/1.0 403 Forbidden'' @ CRLF @ CRLF"
definition statusNotFound :: string where "statusNotFound = ''HTTP/1.0 404 Not Found'' @ CRLF @ CRLF"
definition statusServiceUnavailable :: string where
  "statusServiceUnavailable = ''HTTP/1.0 503 Service Unavailable'' @ CRLF @ CRLF"

definition hex_id :: "string \<Rightarrow> gnuid option" where
  "hex_id s = (case DecodeString s of Some b \<Rightarrow> if length b = 16 then Some b else None | None \<Rightarrow> None)"

definition parseChannelIDFromPath :: "string \<Rightarrow> string \<Rightarrow> gnuid option" where
  "parseChannelIDFromPath peek pathPrefix =
     (case Index peek pathPrefix of
        None \<Rightarrow> None
      | Some idx \<Rightarrow>
          let start = idx + length pathPrefix in
          if start + 32 > length peek then None else hex_id (take 32 (drop start peek)))"

definition parseChannelIDPath :: "string \<Rightarrow> string \<Rightarrow> gnuid option" where
  "parseChannelIDPath path pre =
     (if \<not> HasPrefix path pre then None
      else
        let rest = drop (length pre) path; ext = drop 32 rest in
        if length rest < 32 then None
        else if ext \<noteq> [] \<and> (hd ext \<noteq> CHR ''.'' \<or> length ext = 1 \<or> (\<exists>c \<in> set (tl ext). c = CHR ''/'' \<or> c = CHR ''.'')) then None
        else hex_id (take 32 rest))"

definition parseTip :: "string \<Rightarrow> string option" where
  "parseTip tip =
     (if tip = [] then Some []
      else case SplitHostPort tip of
        None \<Rightarrow> None
      | Some (host, portStr) \<Rightarrow>
          if host = [] then None
          else (case Atoi portStr of None \<Rightarrow> None | Some port \<Rightarrow> if port < 1 \<or> port > 65535 then None else Some tip))"

record http_request =
  rqPath :: string
  rqTip :: string
  rqHost :: string
  rqAuthorization :: string

record viewerRequest =
  vrChannelID :: gnuid
  vrTip :: string
  vrHost :: string
  vrAuthorization :: string

definition viewerRequest0 :: viewerRequest where
  "viewerRequest0 = \<lparr>vrChannelID = zeroID, vrTip = [], vrHost = [], vrAuthorization = []\<rparr>"

text \<open>The request and the status to answer with, empty if it is well formed; \<open>None\<close> if reading failed.\<close>

definition parseViewerRequest :: "http_request option \<Rightarrow> string \<Rightarrow> (viewerRequest \<times> string) option" where
  "parseViewerRequest rq pre =
     (case rq of
        None \<Rightarrow> None
      | Some r \<Rightarrow>
          (case parseChannelIDPath (rqPath r) pre of
             None \<Rightarrow> Some (viewerRequest0, statusBadRequest)
           | Some cid \<Rightarrow>
               (case parseTip (rqTip r) of
                  None \<Rightarrow> Some (viewerRequest0, statusBadRequest)
                | Some tip \<Rightarrow> Some (\<lparr>vrChannelID = cid, vrTip = tip, vrHost = rqHost r, vrAuthorization = rqAuthorization r\<rparr>, []))))"

definition viewerAllowed :: "Listener \<Rightarrow> viewerRequest \<Rightarrow> bool" where
  "viewerAllowed l vr \<longleftrightarrow> lsViewerToken l = [] \<or> vrAuthorization vr = ''Bearer '' @ lsViewerToken l"

definition isPrivateAddr :: "addr \<Rightarrow> bool" where
  "isPrivateAddr a = (case a of TCPAddr p _ \<Rightarrow> IsLoopback p \<or> IsPrivate p \<or> IsLinkLocalUnicast p | OtherAddr _ \<Rightarrow> False)"

section \<open>Finding the channel\<close>

datatype od_error = TrackerNotFound | MgrFailed mgr_error

type_synonym 'a on_demand = "gnuid \<Rightarrow> string \<Rightarrow> 'a Manager \<Rightarrow> (od_error + nat option) \<times> 'a Manager \<times> 'a mgr_effect list"

text \<open>The closure of \<^verbatim>\<open>main.go\<close>; \<open>yps\<close> are the links to the configured YPs.\<close>

definition OnDemandRelay :: "'a pcp \<Rightarrow> (string \<times> 'a link) list \<Rightarrow> time \<Rightarrow> nat \<Rightarrow> 'a on_demand" where
  "OnDemandRelay P yps now h cid addr m =
     (let start = (\<lambda>up. case StartRelay now h cid up m of
                     (Inl e, m', es) \<Rightarrow> (Inl (MgrFailed e), m', es) | (Inr r, m', es) \<Rightarrow> (Inr (Some r), m', es))
      in if addr \<noteq> [] then start addr
         else case GetByID cid m of
           Some r \<Rightarrow> (Inr (Some r), m, [])
         | None \<Rightarrow> (case FindTracker P yps cid (globalIP m) of
                     None \<Rightarrow> (Inl TrackerNotFound, m, []) | Some up \<Rightarrow> start up))"

definition lookupChannel ::
  "Listener \<Rightarrow> 'a on_demand option \<Rightarrow> gnuid \<Rightarrow> string \<Rightarrow> addr \<Rightarrow> 'a Manager \<Rightarrow> (string + nat) \<times> 'a Manager \<times> 'a mgr_effect list" where
  "lookupChannel l od cid tip remote m =
     (case GetByID cid m of
        Some r \<Rightarrow> (Inr r, m, [])
      | None \<Rightarrow>
          (case od of
             None \<Rightarrow> (Inl statusNotFound, m, [])
           | Some relay \<Rightarrow>
               if \<not> lsRelayRequestFromAny l \<and> \<not> isPrivateAddr remote then (Inl statusForbidden, m, [])
               else (case relay cid tip m of
                       (Inl (MgrFailed ErrRelayChannelLimit), m', es) \<Rightarrow> (Inl statusServiceUnavailable, m', es)
                     | (Inl _, m', es) \<Rightarrow> (Inl statusNotFound, m', es)
                     | (Inr None, m', es) \<Rightarrow> (Inl statusNotFound, m', es)
                     | (Inr (Some r), m', es) \<Rightarrow> (Inr r, m', es))))"

section \<open>Playlists\<close>

definition playlist :: "string \<Rightarrow> string \<Rightarrow> string" where
  "playlist name streamURL = ''#EXTM3U'' @ [LF] @ ''#EXTINF:-1,'' @ name @ [LF] @ streamURL @ [LF]"

definition stream_url :: "Listener \<Rightarrow> viewerRequest \<Rightarrow> string" where
  "stream_url l vr =
     ''http://'' @ (if vrHost vr = [] then ''localhost:'' @ Itoa (lsPort l) else vrHost vr) @
     ''/stream/'' @ EncodeToString (vrChannelID vr)"

definition pls_response :: "string \<Rightarrow> string" where
  "pls_response body =
     ''HTTP/1.0 200 OK'' @ CRLF @ ''Content-Type: audio/x-mpegurl'' @ CRLF @
     ''Content-Length: '' @ Itoa (int (length body)) @ CRLF @ CRLF @ body"

definition handlePLS ::
  "Listener \<Rightarrow> 'a on_demand option \<Rightarrow> http_request option \<Rightarrow> addr \<Rightarrow> 'a Manager \<Rightarrow> string \<times> 'a Manager \<times> 'a mgr_effect list" where
  "handlePLS l od rq remote m =
     (case parseViewerRequest rq ''/pls/'' of
        None \<Rightarrow> ([], m, [])
      | Some (vr, status) \<Rightarrow>
          if \<not> viewerAllowed l vr then (statusForbidden, m, [])
          else if status \<noteq> [] then (status, m, [])
          else (case lookupChannel l od (vrChannelID vr) (vrTip vr) remote m of
                  (Inl st, m', es) \<Rightarrow> (st, m', es)
                | (Inr r, m', es) \<Rightarrow>
                    let nm = Name (info (store m' r)) in
                    (pls_response (playlist (if nm = [] then EncodeToString (vrChannelID vr) else nm) (stream_url l vr)), m', es)))"

section \<open>Admission\<close>

definition isUpstreamFull :: "gnuid list \<Rightarrow> (nat \<Rightarrow> int) \<Rightarrow> Listener \<Rightarrow> 'a Manager \<Rightarrow> bool" where
  "isUpstreamFull order rate l m \<longleftrightarrow>
     lsMaxUpstreamKbps l > 0 \<and> TotalSendRate order rate m * 8 div 1000 \<ge> lsMaxUpstreamKbps l"

definition total_full :: "gnuid list \<Rightarrow> Listener \<Rightarrow> 'a Manager \<Rightarrow> bool" where
  "total_full order l m \<longleftrightarrow> lsMaxRelaysTotal l > 0 \<and> Manager_TotalRelays order m \<ge> lsMaxRelaysTotal l"

definition put_chan :: "nat \<Rightarrow> 'a Channel \<Rightarrow> 'a Manager \<Rightarrow> 'a Manager" where
  "put_chan r c m = m\<lparr>store := (store m)(r := c)\<rparr>"

definition tryAdmit ::
  "gnuid list \<Rightarrow> (nat \<Rightarrow> int) \<Rightarrow> Listener \<Rightarrow> nat \<Rightarrow> OutputStream \<Rightarrow> 'a Manager \<Rightarrow> bool \<times> 'a Manager" where
  "tryAdmit order rate l r o' m =
     (if oType o' = OutputStreamPCP \<and> total_full order l m then (False, m)
      else if isUpstreamFull order rate l m then (False, m)
      else case TryAddOutput o' (lsMaxRelays l) (lsMaxListeners l) (store m r) of
        (c, ok) \<Rightarrow> if ok then (True, put_chan r c m) else (False, m))"

lemma EvictRelay_shrinks:
  assumes "EvictRelay P now c = (True, c', es)"
  shows "length (outputs c') < length (outputs c)"
proof -
  from assms obtain v where v: "find (evictable P now c) (outputs c) = Some v"
    "c' = RemoveOutput v (case SplitHostPort (oRemoteAddr v) of Some (h, _) \<Rightarrow> Ban h (now + relayBanDuration) c | None \<Rightarrow> c)"
    by (auto simp: EvictRelay_def makeRelayable_def Let_def split: option.splits)
  then have mem: "v \<in> set (outputs c)" by (auto simp: find_Some_iff)
  then show ?thesis using v(2) length_pos_if_in_set [OF mem]
    by (auto simp: RemoveOutput_alt Ban_def length_remove1 split: option.splits)
qed

text \<open>The loop that makes room under the global limits; the clock and the send rates are read in each turn.\<close>

function make_room ::
  "'a pcp \<Rightarrow> gnuid list \<Rightarrow> (nat \<Rightarrow> time) \<Rightarrow> (nat \<Rightarrow> nat \<Rightarrow> int) \<Rightarrow> Listener \<Rightarrow> nat \<Rightarrow> nat \<Rightarrow> 'a Manager \<Rightarrow>
   bool \<times> 'a Manager \<times> 'a effect list" where
  "make_room P order clock rate l r k m =
     (if \<not> (total_full order l m \<or> isUpstreamFull order (rate k) l m) then (True, m, [])
      else case EvictRelay P (clock k) (store m r) of (ok, c, es) \<Rightarrow>
        if \<not> ok then (False, m, [])
        else case make_room P order clock rate l r (Suc k) (put_chan r c m) of (ok', m', es') \<Rightarrow> (ok', m', es @ es'))"
  by pat_completeness auto
termination
  by (relation "measure (\<lambda>(P, order, clock, rate, l, r, k, m). length (outputs (store m r)))")
    (auto simp: put_chan_def dest: EvictRelay_shrinks [OF sym])

declare make_room.simps [simp del]

definition canAdmitRelay ::
  "'a pcp \<Rightarrow> gnuid list \<Rightarrow> (nat \<Rightarrow> time) \<Rightarrow> (nat \<Rightarrow> nat \<Rightarrow> int) \<Rightarrow> time \<Rightarrow> Listener \<Rightarrow> nat \<Rightarrow> addr \<Rightarrow> 'a Manager \<Rightarrow>
   bool \<times> 'a Manager \<times> 'a effect list" where
  "canAdmitRelay P order clock rate now l r remote m =
     (case (case remote of TCPAddr p _ \<Rightarrow> HasBanned now (store m r) (ip_string p) | OtherAddr _ \<Rightarrow> (False, store m r)) of (banned, c) \<Rightarrow>
        let m1 = put_chan r c m in
        if banned then (False, m1, [])
        else case make_room P order clock rate l r 0 m1 of (room, m2, es) \<Rightarrow>
          if \<not> room then (False, m2, es)
          else case MakeRelayable P now (lsMaxRelays l) (store m2 r) of (ok, c', es') \<Rightarrow> (ok, put_chan r c' m2, es @ es'))"

section \<open>Streaming connections\<close>

datatype 'a relay_open = RefusedRelay string | OpenedRelay nat "'a PCPOutput" bool

definition handlePCPRelay_open ::
  "'a pcp \<Rightarrow> gnuid list \<Rightarrow> (nat \<Rightarrow> time) \<Rightarrow> (nat \<Rightarrow> nat \<Rightarrow> int) \<Rightarrow> time \<Rightarrow> addr \<Rightarrow> addr \<Rightarrow> string \<Rightarrow> Listener \<Rightarrow> 'a Manager \<Rightarrow>
   'a relay_open \<times> Listener \<times> 'a Manager \<times> 'a effect list" where
  "handlePCPRelay_open P order clock rate now local remote peek l m =
     (case parseChannelIDFromPath peek ''/channel/'' of
        None \<Rightarrow> (RefusedRelay [], l, m, [])
      | Some cid \<Rightarrow>
          (case GetByID cid m of
             None \<Rightarrow> (RefusedRelay statusNotFound, l, m, [])
           | Some r \<Rightarrow>
               if \<not> IsReceiving now (store m r) then (RefusedRelay statusNotFound, l, m, [])
               else (case next_conn_id l of (i, l1) \<Rightarrow>
                 let out = newPCPOutputStream local remote (lsSessionID l) i (lsGlobalIP l) (of_int (lsPort l)) (lsMaxRelays l) (lsMaxListeners l) in
                 (case canAdmitRelay P order clock rate now l1 r remote m of (admitted, m1, es) \<Rightarrow>
                    (OpenedRelay r out admitted, l1, m1, es)))))"

text \<open>After the handshake: \<open>h\<close> is its result, \<open>ref\<close> the output's identity.\<close>

definition handlePCPRelay_join ::
  "'a pcp \<Rightarrow> gnuid list \<Rightarrow> (nat \<Rightarrow> int) \<Rightarrow> host_env \<Rightarrow> (nat \<Rightarrow> bool) \<Rightarrow> nat \<Rightarrow> nat \<Rightarrow> bool \<Rightarrow> (relay_error + u32) \<Rightarrow> 'a PCPOutput \<Rightarrow>
   Listener \<Rightarrow> 'a Manager \<Rightarrow> u32 option \<times> 'a Manager \<times> 'a list" where
  "handlePCPRelay_join P order rate E ok ref r admitted h out l m =
     (case h of
        Inl _ \<Rightarrow> (None, m, [])
      | Inr startPos \<Rightarrow>
          if \<not> admitted then (None, m, sendRelayDenied P E ok (store m r) out)
          else (case tryAdmit order rate l r (as_output ref out) m of
                  (True, m1) \<Rightarrow> (Some startPos, m1, [])
                | (False, m1) \<Rightarrow> (None, m1, sendRelayDenied P E ok (store m1 r) out)))"

definition handlePCPRelay_leave :: "'a pcp \<Rightarrow> nat \<Rightarrow> nat \<Rightarrow> 'a PCPOutput \<Rightarrow> 'a Manager \<Rightarrow> 'a Manager" where
  "handlePCPRelay_leave P ref r out m =
     put_chan r (RemoveOutput (as_output ref out) (runStreaming_end P out (store m r))) m"

definition handleHTTPStream_open ::
  "gnuid list \<Rightarrow> (nat \<Rightarrow> int) \<Rightarrow> nat \<Rightarrow> addr \<Rightarrow> 'a on_demand option \<Rightarrow> http_request option \<Rightarrow> Listener \<Rightarrow> 'a Manager \<Rightarrow>
   (string + nat \<times> outputBase) \<times> Listener \<times> 'a Manager \<times> 'a mgr_effect list" where
  "handleHTTPStream_open order rate ref remote od rq l m =
     (case parseViewerRequest rq ''/stream/'' of
        None \<Rightarrow> (Inl [], l, m, [])
      | Some (vr, status) \<Rightarrow>
          if \<not> viewerAllowed l vr then (Inl statusForbidden, l, m, [])
          else if status \<noteq> [] then (Inl status, l, m, [])
          else (case lookupChannel l od (vrChannelID vr) (vrTip vr) remote m of
                  (Inl st, m1, es) \<Rightarrow> (Inl st, l, m1, es)
                | (Inr r, m1, es) \<Rightarrow>
                    (case next_conn_id l of (i, l1) \<Rightarrow>
                       let out = newHTTPOutputStream remote i in
                       (case tryAdmit order rate l1 r (as_http_output ref out) m1 of
                          (True, m2) \<Rightarrow> (Inr (r, out), l1, m2, es)
                        | (False, m2) \<Rightarrow> (Inl statusServiceUnavailable, l1, m2, es)))))"

definition handleHTTPStream_leave :: "nat \<Rightarrow> nat \<Rightarrow> outputBase \<Rightarrow> 'a Manager \<Rightarrow> 'a Manager" where
  "handleHTTPStream_leave ref r out m = put_chan r (RemoveOutput (as_http_output ref out) (store m r)) m"

section \<open>Requests that come back\<close>

lemma hex_id_Encode [simp]: "length cid = 16 \<Longrightarrow> hex_id (EncodeToString cid) = Some cid"
  by (simp add: hex_id_def)

lemma parseChannelIDPath_of:
  assumes "length cid = 16" "CHR ''/'' \<notin> set ext" "CHR ''.'' \<notin> set ext"
  shows "parseChannelIDPath (pre @ EncodeToString cid) pre = Some cid"
    and "ext \<noteq> [] \<Longrightarrow> parseChannelIDPath (pre @ EncodeToString cid @ CHR ''.'' # ext) pre = Some cid"
  using assms by (auto simp: parseChannelIDPath_def Let_def)

lemma parseChannelIDPath_type: "parseChannelIDPath path pre = Some cid \<Longrightarrow> length cid = 16"
  by (auto simp: parseChannelIDPath_def hex_id_def Let_def split: if_splits option.splits)

lemma channel_request_peek:
  assumes "length cid = 16"
  shows "\<exists>rest. peeked (channel_request addr cid proto extra) = ''GET /channel/'' @ EncodeToString cid @ rest"
proof -
  have "peeked (channel_request addr cid proto extra) = take 64 (channel_request addr cid proto extra)"
    by (simp add: peeked_def channel_request_def LF_def)
  then show ?thesis using assms by (simp add: channel_request_def)
qed

lemma ReadLine_line: "LF \<notin> set l \<Longrightarrow> ReadLine (l @ LF # s) = Some (l @ [LF], s)"
  by (induction l) auto

lemma space_head_codes: "w \<in> set space_encodings \<Longrightarrow> w \<noteq> [] \<and> (char_code (hd w) \<le> 32 \<or> 127 < char_code (hd w))"
  by (auto simp: space_encodings_def code_string_def)

lemma space_ascii: "\<exists>more'. space_encodings = map code_string [[10], [9], [11], [12], [13], [32]] @ more'"
  by (simp add: space_encodings_def)

lemma Fields_loop_space:
  assumes "char_code c = 32 \<or> char_code c = 13 \<or> char_code c = 10"
  shows "Fields_loop cur (c # s) = (if cur = [] then [] else [cur]) @ Fields_loop [] s"
proof -
  obtain more' where sp: "space_encodings = map code_string [[10], [9], [11], [12], [13], [32]] @ more'" using space_ascii by blast
  have "c = char_of (32 :: nat) \<or> c = char_of (13 :: nat) \<or> c = char_of (10 :: nat)" using assms by (metis char_of_char)
  then have "find (\<lambda>w. w \<noteq> [] \<and> HasPrefix (c # s) w) space_encodings = Some [c]"
    unfolding sp by (auto simp: HasPrefix_def code_string_def)
  then show ?thesis by (subst Fields_loop.simps) simp
qed

lemma Fields_loop_char:
  assumes "33 \<le> char_code c" "char_code c < 127"
  shows "Fields_loop cur (c # s) = Fields_loop (cur @ [c]) s"
proof -
  have "w = [] \<or> \<not> HasPrefix (c # s) w" if "w \<in> set space_encodings" for w
    using space_head_codes [OF that] assms by (cases w) (auto simp: HasPrefix_def)
  then have "find (\<lambda>w. w \<noteq> [] \<and> HasPrefix (c # s) w) space_encodings = None" by (auto simp: find_None_iff)
  then show ?thesis by (subst Fields_loop.simps) simp
qed

lemma Fields_loop_Nil: "Fields_loop cur [] = (if cur = [] then [] else [cur])"
proof -
  have "w = [] \<or> \<not> HasPrefix [] w" for w :: string by (auto simp: HasPrefix_def)
  then have "find (\<lambda>w. w \<noteq> [] \<and> HasPrefix [] w) space_encodings = None" by (auto simp: find_None_iff)
  then show ?thesis by (subst Fields_loop.simps) simp
qed

lemma response_fields:
  "Fields (''HTTP/1.0 200 OK'' @ CRLF) = [''HTTP/1.0'', ''200'', ''OK'']"
  "Fields (''HTTP/1.0 503 Unavailable'' @ CRLF) = [''HTTP/1.0'', ''503'', ''Unavailable'']"
  by (simp_all add: Fields_def CRLF_def Fields_loop_space Fields_loop_char Fields_loop_Nil)

lemma status_of_response:
  "readHTTPStatus (relay_response admitted @ atoms) = Some (if admitted then 200 else 503, atoms)"
proof -
  let ?h = "''Content-Type: application/x-peercast-pcp''"
  define st where "st = (if admitted then ''HTTP/1.0 200 OK'' else ''HTTP/1.0 503 Unavailable'')"
  have line: "ReadLine (l @ CRLF @ s) = Some (l @ CRLF, s)" if "LF \<notin> set l" for l s
    using ReadLine_line [of "l @ [CHR 0x0D]" s] that by (simp add: CRLF_def LF_def)
  have resp: "relay_response admitted @ atoms = st @ CRLF @ ?h @ CRLF @ CRLF @ atoms" by (simp add: relay_response_def st_def)
  have one: "ReadLine (st @ CRLF @ ?h @ CRLF @ CRLF @ atoms) = Some (st @ CRLF, ?h @ CRLF @ CRLF @ atoms)"
    by (rule line) (simp add: st_def LF_def)
  have two: "ReadLine (?h @ CRLF @ CRLF @ atoms) = Some (?h @ CRLF, CRLF @ atoms)" by (rule line) (simp add: LF_def)
  have three: "ReadLine (CRLF @ atoms) = Some (CRLF, atoms)" using line [of "[]" atoms] by simp
  have skip: "skip_headers (?h @ CRLF @ CRLF @ atoms) = Some atoms"
    apply (subst skip_headers.simps) unfolding two
    apply (subst skip_headers.simps) using three by (simp add: CRLF_def LF_def)
  have num: "Atoi ''200'' = Some 200" "Atoi ''503'' = Some 503"
    by (simp_all add: Atoi_def parse_digits_def is_digit_def digits_val_def Let_def)
  have code: "length (Fields (st @ CRLF)) = 3" "Atoi (Fields (st @ CRLF) ! 1) = Some (if admitted then 200 else 503)"
    by (cases admitted; simp only: st_def if_True if_False response_fields num list.size nth_Cons_Suc nth_Cons_0 One_nat_def numeral_3_eq_3 add_0_right add_Suc_right)+
  show ?thesis unfolding resp readHTTPStatus_def one using skip code by simp
qed

text \<open>
  C28.  The two ends of a relay connection understand each other.  The request a relay client writes for a
  channel is dispatched by the listener to the relay handler, which reads the same channel from it; and
  the client reads from the listener's answer that it was accepted or that the channel is full, and
  then finds the atoms that follow.
\<close>

theorem relay_request_understood:
  assumes "length cid = 16"
  shows "handle_conn l (channel_request addr cid proto extra) = RRelay \<and>
    parseChannelIDFromPath (peeked (channel_request addr cid proto extra)) ''/channel/'' = Some cid \<and>
    readHTTPStatus (relay_response admitted @ atoms) = Some (if admitted then 200 else 503, atoms)"
proof (intro conjI)
  obtain rest where peek: "peeked (channel_request addr cid proto extra) = ''GET /channel/'' @ EncodeToString cid @ rest"
    using channel_request_peek [OF assms] by blast
  show "handle_conn l (channel_request addr cid proto extra) = RRelay"
    by (simp add: handle_conn_def peek HasPrefix_def)
  have "Index (''GET /channel/'' @ EncodeToString cid @ rest) ''/channel/'' = Some 4"
    by (simp add: HasPrefix_def numeral_eq_Suc)
  then show "parseChannelIDFromPath (peeked (channel_request addr cid proto extra)) ''/channel/'' = Some cid"
    unfolding parseChannelIDFromPath_def peek using assms by (simp add: Let_def)
  show "readHTTPStatus (relay_response admitted @ atoms) = Some (if admitted then 200 else 503, atoms)"
    by (rule status_of_response)
qed

theorem relay_request_understood_witness:
  "parseChannelIDFromPath (peeked (channel_request ''1.2.3.4:7144'' (replicate 16 7) 1 [])) ''/channel/'' = Some (replicate 16 7)"
  using relay_request_understood [of "replicate 16 7" demo0 "''1.2.3.4:7144''" 1 "[]" True "[]" for demo0] by simp

section \<open>The limits\<close>

definition relay_total :: "'a Manager \<Rightarrow> int" where
  "relay_total m = (\<Sum>i \<in> dom (byID m). numRelays (store m (the (byID m i))))"

lemma Manager_TotalRelays_sum:
  assumes "distinct order" "set order = dom (byID m)"
  shows "Manager_TotalRelays order m = relay_total m"
proof -
  have "\<forall>i \<in> set order. byID m i \<noteq> None" using assms(2) by auto
  then have "Manager_List order m = map (\<lambda>i. the (byID m i)) order"
    unfolding Manager_List_def by (induction order) (auto simp: List.map_filter_simps split: option.splits)
  then show ?thesis
    using assms by (simp add: Manager_TotalRelays_def relay_total_def comp_def sum_list_distinct_conv_sum_set)
qed

text \<open>What the rest of the program may do to the registered channels: everything but to add outputs.\<close>

definition no_new_outputs :: "'a Manager \<Rightarrow> 'a Manager \<Rightarrow> bool" where
  "no_new_outputs m m' \<longleftrightarrow> finite (dom (byID m')) \<and> (\<forall>i j r. byID m' i = Some r \<and> byID m' j = Some r \<longrightarrow> i = j) \<and>
     (\<forall>i r. byID m' i = Some r \<longrightarrow>
        (byID m i = Some r \<and> outputs (store m' r) = outputs (store m r) \<and> numRelays (store m' r) = numRelays (store m r) \<and>
           numListeners (store m' r) = numListeners (store m r)) \<or>
        (outputs (store m' r) = [] \<and> numRelays (store m' r) = 0 \<and> numListeners (store m' r) = 0))"

text \<open>The states the registry can reach: admissions, departures and evictions, in any order, between anything else.\<close>

inductive admitted :: "'a pcp \<Rightarrow> Listener \<Rightarrow> 'a Manager \<Rightarrow> bool" for P :: "'a pcp" and l :: Listener where
  none: "byID m = Map.empty \<Longrightarrow> admitted P l m"
| admit: "admitted P l m \<Longrightarrow> distinct order \<Longrightarrow> set order = dom (byID m) \<Longrightarrow> admitted P l (snd (tryAdmit order rate l r o' m))"
| depart: "admitted P l m \<Longrightarrow> admitted P l (put_chan r (RemoveOutput o' (store m r)) m)"
| evict: "admitted P l m \<Longrightarrow> admitted P l (put_chan r (fst (snd (makeRelayable P now mr force (store m r)))) m)"
| other: "admitted P l m \<Longrightarrow> no_new_outputs m m' \<Longrightarrow> admitted P l m'"

definition counted :: "'a Channel \<Rightarrow> bool" where
  "counted c \<longleftrightarrow> numRelays c = int (count_out OutputStreamPCP (outputs c)) \<and> numListeners c = int (count_out OutputStreamHTTP (outputs c))"

definition in_limits :: "Listener \<Rightarrow> 'a Channel \<Rightarrow> bool" where
  "in_limits l c \<longleftrightarrow> counted c \<and> (0 < lsMaxRelays l \<longrightarrow> numRelays c \<le> lsMaxRelays l) \<and> (0 < lsMaxListeners l \<longrightarrow> numListeners c \<le> lsMaxListeners l)"

definition admit_inv :: "Listener \<Rightarrow> 'a Manager \<Rightarrow> bool" where
  "admit_inv l m \<longleftrightarrow> finite (dom (byID m)) \<and> (\<forall>i j r. byID m i = Some r \<and> byID m j = Some r \<longrightarrow> i = j) \<and>
     (\<forall>i r. byID m i = Some r \<longrightarrow> in_limits l (store m r)) \<and> (0 < lsMaxRelaysTotal l \<longrightarrow> relay_total m \<le> lsMaxRelaysTotal l)"

text \<open>Changing one channel changes the total by the change of its counter, if it is registered.\<close>

lemma relay_total_put:
  assumes "finite (dom (byID m))" "\<forall>i j r. byID m i = Some r \<and> byID m j = Some r \<longrightarrow> i = j"
  shows "relay_total (put_chan r c m) = relay_total m + (if r \<in> ran (byID m) then numRelays c - numRelays (store m r) else 0)"
proof (cases "r \<in> ran (byID m)")
  case True
  then obtain i where i: "byID m i = Some r" by (auto simp: ran_def)
  have others: "the (byID m j) \<noteq> r" if "j \<in> dom (byID m) - {i}" for j using that i assms(2) by auto
  have dom: "dom (byID m) = insert i (dom (byID m) - {i})" using i by auto
  have "relay_total (put_chan r c m) = numRelays c + (\<Sum>j \<in> dom (byID m) - {i}. numRelays (store m (the (byID m j))))"
    unfolding relay_total_def put_chan_def using i others assms(1)
    by (simp add: sum.remove [of _ i] dom_def [symmetric]) (simp add: sum.remove [of _ i] domI)
  moreover have "relay_total m = numRelays (store m r) + (\<Sum>j \<in> dom (byID m) - {i}. numRelays (store m (the (byID m j))))"
    unfolding relay_total_def using i assms(1) by (simp add: sum.remove [of _ i] domI)
  ultimately show ?thesis using True by simp
next
  case False
  then have "the (byID m j) \<noteq> r" if "j \<in> dom (byID m)" for j using that by (auto simp: ran_def)
  then show ?thesis using False by (simp add: relay_total_def put_chan_def)
qed

lemma admit_inv_put:
  assumes inv: "admit_inv l m" and c: "r \<in> ran (byID m) \<Longrightarrow> in_limits l c"
    and total: "r \<in> ran (byID m) \<Longrightarrow> 0 < lsMaxRelaysTotal l \<Longrightarrow> relay_total m + numRelays c - numRelays (store m r) \<le> lsMaxRelaysTotal l"
  shows "admit_inv l (put_chan r c m)"
proof -
  have fin: "finite (dom (byID m))" and inj: "\<forall>i j r. byID m i = Some r \<and> byID m j = Some r \<longrightarrow> i = j"
    and lim: "\<And>i r. byID m i = Some r \<Longrightarrow> in_limits l (store m r)"
    and tot: "0 < lsMaxRelaysTotal l \<longrightarrow> relay_total m \<le> lsMaxRelaysTotal l"
    using inv unfolding admit_inv_def by blast+
  have "in_limits l (store (put_chan r c m) r')" if "byID m i = Some r'" for i r'
    using lim [OF that] c that by (auto simp: put_chan_def ran_def)
  moreover have "0 < lsMaxRelaysTotal l \<longrightarrow> relay_total (put_chan r c m) \<le> lsMaxRelaysTotal l"
    using relay_total_put [OF fin inj, of r c] total tot by auto
  moreover have "byID (put_chan r c m) = byID m" by (simp add: put_chan_def)
  ultimately show ?thesis using fin inj unfolding admit_inv_def by auto
qed

lemma in_limits_RemoveOutput:
  "in_limits l c \<Longrightarrow> in_limits l (RemoveOutput o' c) \<and> numRelays (RemoveOutput o' c) \<le> numRelays c"
  by (cases "oType o'") (auto simp: in_limits_def counted_def RemoveOutput_alt count_out_remove1)

lemma makeRelayable_cases:
  "fst (snd (makeRelayable P now mr force c)) = c \<or>
   (\<exists>v c1. fst (snd (makeRelayable P now mr force c)) = RemoveOutput v c1 \<and> (c1 = c \<or> (\<exists>h. c1 = Ban h (now + relayBanDuration) c)))"
proof (cases "find (evictable P now c) (outputs c)")
  case (Some v)
  define c1 where "c1 = (case SplitHostPort (oRemoteAddr v) of Some (h, _) \<Rightarrow> Ban h (now + relayBanDuration) c | None \<Rightarrow> c)"
  have "c1 = c \<or> (\<exists>h. c1 = Ban h (now + relayBanDuration) c)" by (auto simp: c1_def split: option.splits)
  moreover have "fst (snd (makeRelayable P now mr force c)) = c \<or> fst (snd (makeRelayable P now mr force c)) = RemoveOutput v c1"
    using Some by (simp add: makeRelayable_def c1_def Let_def)
  ultimately show ?thesis by blast
qed (simp add: makeRelayable_def)

lemma in_limits_makeRelayable:
  assumes "in_limits l c"
  shows "in_limits l (fst (snd (makeRelayable P now mr force c))) \<and> numRelays (fst (snd (makeRelayable P now mr force c))) \<le> numRelays c"
proof (cases "fst (snd (makeRelayable P now mr force c)) = c")
  case False
  then obtain v c1 where r: "fst (snd (makeRelayable P now mr force c)) = RemoveOutput v c1" "c1 = c \<or> (\<exists>h. c1 = Ban h (now + relayBanDuration) c)"
    using makeRelayable_cases by blast
  then have "in_limits l c1" "numRelays c1 = numRelays c" using assms by (auto simp: Ban_def in_limits_def counted_def)
  then show ?thesis using in_limits_RemoveOutput [of l c1 v] r(1) by simp
qed (use assms in simp)

lemma admit_inv_tryAdmit:
  assumes inv: "admit_inv l m" and order: "distinct order" "set order = dom (byID m)"
  shows "admit_inv l (snd (tryAdmit order rate l r o' m))"
proof (cases "fst (tryAdmit order rate l r o' m)")
  case False
  then have "snd (tryAdmit order rate l r o' m) = m" by (auto simp: tryAdmit_def split: prod.splits if_splits)
  then show ?thesis using inv by simp
next
  case True
  define c where "c = fst (TryAddOutput o' (lsMaxRelays l) (lsMaxListeners l) (store m r))"
  have res: "snd (tryAdmit order rate l r o' m) = put_chan r c m" "snd (TryAddOutput o' (lsMaxRelays l) (lsMaxListeners l) (store m r))"
    "oType o' = OutputStreamPCP \<longrightarrow> \<not> total_full order l m"
    using True by (auto simp: tryAdmit_def c_def split: prod.splits if_splits)
  have lim: "in_limits l (store m r)" if "r \<in> ran (byID m)" using inv that by (auto simp: admit_inv_def ran_def)
  have c: "in_limits l c \<and> numRelays c = numRelays (store m r) + (if oType o' = OutputStreamPCP then 1 else 0)" if "r \<in> ran (byID m)"
    using lim [OF that] res(2) by (cases "oType o'") (auto simp: c_def in_limits_def counted_def TryAddOutput_def slots_full_def split: if_splits)
  have "relay_total m + (if oType o' = OutputStreamPCP then 1 else 0) \<le> lsMaxRelaysTotal l" if "0 < lsMaxRelaysTotal l"
    using res(3) that inv Manager_TotalRelays_sum [OF order] by (auto simp: total_full_def admit_inv_def)
  then show ?thesis unfolding res(1) using c by (intro admit_inv_put [OF inv]) auto
qed

lemma relay_total_other:
  assumes inv: "admit_inv l m" and new: "no_new_outputs m m'"
  shows "relay_total m' \<le> relay_total m"
proof -
  let ?f = "\<lambda>i. numRelays (store m (the (byID m i)))" and ?g = "\<lambda>i. numRelays (store m' (the (byID m' i)))"
  let ?S = "{i \<in> dom (byID m'). ?g i \<noteq> 0}"
  have fin: "finite (dom (byID m))" "finite (dom (byID m'))" using inv new by (auto simp: admit_inv_def no_new_outputs_def)
  have pos: "0 \<le> ?f i" if "i \<in> dom (byID m)" for i
    using inv that by (auto simp: admit_inv_def in_limits_def counted_def)
  have sub: "?S \<subseteq> dom (byID m)" "\<forall>i \<in> ?S. ?g i = ?f i" using new by (auto simp: no_new_outputs_def) (metis option.sel)+
  have "relay_total m' = sum ?g ?S" unfolding relay_total_def using fin(2) by (intro sum.mono_neutral_right) auto
  also have "\<dots> = sum ?f ?S" using sub(2) by simp
  also have "\<dots> \<le> sum ?f (dom (byID m))" using fin(1) sub(1) pos by (intro sum_mono2) auto
  finally show ?thesis by (simp add: relay_total_def)
qed

lemma admitted_inv: "admitted P l m \<Longrightarrow> admit_inv l m"
proof (induction rule: admitted.induct)
  case (none m)
  then show ?case by (simp add: admit_inv_def relay_total_def)
next
  case (depart m r o')
  have "in_limits l (store m r)" if "r \<in> ran (byID m)" using depart.IH that by (auto simp: admit_inv_def ran_def)
  then show ?case using in_limits_RemoveOutput [of l "store m r" o'] depart.IH
    by (intro admit_inv_put) (auto simp: admit_inv_def)
next
  case (evict m r now mr force)
  have "in_limits l (store m r)" if "r \<in> ran (byID m)" using evict.IH that by (auto simp: admit_inv_def ran_def)
  then show ?case using in_limits_makeRelayable [of l "store m r" P now mr force] evict.IH
    by (intro admit_inv_put) (auto simp: admit_inv_def)
next
  case (other m m')
  have new: "finite (dom (byID m'))" "\<forall>i j r. byID m' i = Some r \<and> byID m' j = Some r \<longrightarrow> i = j"
    using other.hyps(2) unfolding no_new_outputs_def by blast+
  have lim: "in_limits l (store m' r)" if r: "byID m' i = Some r" for i r
  proof (cases "outputs (store m' r) = [] \<and> numRelays (store m' r) = 0 \<and> numListeners (store m' r) = 0")
    case True
    then show ?thesis by (simp add: in_limits_def counted_def)
  next
    case False
    then have "byID m i = Some r" "outputs (store m' r) = outputs (store m r)" "numRelays (store m' r) = numRelays (store m r)"
      "numListeners (store m' r) = numListeners (store m r)"
      using other.hyps(2) r unfolding no_new_outputs_def by blast+
    moreover from this(1) have "in_limits l (store m r)" using other.IH unfolding admit_inv_def by blast
    ultimately show ?thesis by (auto simp: in_limits_def counted_def)
  qed
  have "0 < lsMaxRelaysTotal l \<longrightarrow> relay_total m' \<le> lsMaxRelaysTotal l"
    using relay_total_other [OF other.IH other.hyps(2)] other.IH unfolding admit_inv_def by (auto intro: order_trans)
  with new lim show ?case unfolding admit_inv_def by blast
qed (rule admit_inv_tryAdmit)

text \<open>
  C6.  The configured limits are never exceeded.  However connections are admitted, leave and are evicted,
  and whatever else happens to channels in between, no registered channel has more relays or
  listeners than its limits, and the relays of all channels together stay within the global one.
\<close>

theorem limits_never_exceeded:
  assumes "admitted P l m"
  shows "(\<forall>i r. byID m i = Some r \<longrightarrow>
       (0 < lsMaxRelays l \<longrightarrow> int (count_out OutputStreamPCP (outputs (store m r))) \<le> lsMaxRelays l) \<and>
       (0 < lsMaxListeners l \<longrightarrow> int (count_out OutputStreamHTTP (outputs (store m r))) \<le> lsMaxListeners l)) \<and>
    (\<forall>order. 0 < lsMaxRelaysTotal l \<and> distinct order \<and> set order = dom (byID m) \<longrightarrow>
       Manager_TotalRelays order m \<le> lsMaxRelaysTotal l)"
proof -
  have inv: "admit_inv l m" by (rule admitted_inv [OF assms])
  then have "in_limits l (store m r)" if "byID m i = Some r" for i r using that unfolding admit_inv_def by blast
  then have lim: "numRelays (store m r) = int (count_out OutputStreamPCP (outputs (store m r)))"
    "numListeners (store m r) = int (count_out OutputStreamHTTP (outputs (store m r)))"
    "0 < lsMaxRelays l \<longrightarrow> numRelays (store m r) \<le> lsMaxRelays l" "0 < lsMaxListeners l \<longrightarrow> numListeners (store m r) \<le> lsMaxListeners l"
    if "byID m i = Some r" for i r using that unfolding in_limits_def counted_def by blast+
  show ?thesis using lim [unfolded lim(1,2)] inv by (auto simp: admit_inv_def Manager_TotalRelays_sum)
qed

definition demo_listener :: Listener where
  "demo_listener = NewListener (replicate 16 1) 7144 1 5 0 0"

definition demo_registry :: "wire_atom Manager" where
  "demo_registry = (NewManager zeroID)\<lparr>byID := [zeroID \<mapsto> 0]\<rparr>"

theorem limits_never_exceeded_witness:
  "count_out OutputStreamPCP (outputs (store (snd (tryAdmit [zeroID] (\<lambda>_. 0) demo_listener 0 (demo_out 2)
     (snd (tryAdmit [zeroID] (\<lambda>_. 0) demo_listener 0 (demo_out 1) demo_registry)))) 0)) \<le> 1"
proof -
  have "admitted wire_pcp demo_listener (NewManager zeroID)" by (rule admitted.none) (simp add: NewManager_def)
  then have "admitted wire_pcp demo_listener demo_registry"
    by (rule admitted.other) (auto simp: no_new_outputs_def demo_registry_def NewManager_def New_def split: if_splits)
  then have "admitted wire_pcp demo_listener (snd (tryAdmit [zeroID] (\<lambda>_. 0) demo_listener 0 (demo_out 1) demo_registry))" (is "admitted _ _ ?m")
    by (rule admitted.admit) (auto simp: demo_registry_def)
  moreover have id: "byID (snd (tryAdmit [zeroID] rate l r o' m)) = byID m" for rate l r o' and m :: "wire_atom Manager"
    by (simp add: tryAdmit_def put_chan_def split: prod.splits)
  moreover have "set [zeroID] = dom (byID ?m)" unfolding id by (simp add: demo_registry_def)
  ultimately have "admitted wire_pcp demo_listener (snd (tryAdmit [zeroID] (\<lambda>_. 0) demo_listener 0 (demo_out 2) ?m))"
    using admitted.admit [of wire_pcp demo_listener ?m "[zeroID]"] by simp
  from limits_never_exceeded [OF this] show ?thesis
    by (auto simp: id demo_registry_def demo_listener_def NewListener_def)
qed

section \<open>Making room\<close>

lemma total_mono:
  "numRelays c \<le> numRelays (store m r) \<Longrightarrow> Manager_TotalRelays order (put_chan r c m) \<le> Manager_TotalRelays order m"
  by (auto simp: Manager_TotalRelays_def Manager_List_def put_chan_def intro!: sum_list_mono)

definition send_rate :: "(nat \<Rightarrow> int) \<Rightarrow> 'a Channel \<Rightarrow> int" where
  "send_rate rate c = sum_list (map (\<lambda>o'. rate (oRef o')) (outputs c))"

lemma rate_mono:
  assumes "send_rate rate c \<le> send_rate rate (store m r)"
  shows "TotalSendRate order rate (put_chan r c m) \<le> TotalSendRate order rate m"
  using assms by (auto simp: TotalSendRate_def Manager_List_def put_chan_def send_rate_def Connections_def comp_def intro!: sum_list_mono)

lemma sum_list_remove1_le: "\<forall>x \<in> set xs. 0 \<le> (f x :: int) \<Longrightarrow> sum_list (map f (remove1 y xs)) \<le> sum_list (map f xs)"
  by (induction xs) auto

lemma send_rate_makeRelayable:
  assumes "\<forall>x. 0 \<le> rate x"
  shows "send_rate rate (fst (snd (makeRelayable P now mr force c))) \<le> send_rate rate c"
proof (cases "fst (snd (makeRelayable P now mr force c)) = c")
  case False
  then obtain v c1 where r: "fst (snd (makeRelayable P now mr force c)) = RemoveOutput v c1" "c1 = c \<or> (\<exists>h. c1 = Ban h (now + relayBanDuration) c)"
    using makeRelayable_cases by blast
  then have "outputs c1 = outputs c" by (auto simp: Ban_def)
  then show ?thesis using assms r(1) sum_list_remove1_le [of "outputs c" "\<lambda>o'. rate (oRef o')" v]
    by (auto simp: send_rate_def RemoveOutput_alt)
qed simp

lemma make_room_free:
  assumes "make_room P order clock (\<lambda>_. rate) l r k m = (True, m', es)"
  shows "\<not> total_full order l m' \<and> \<not> isUpstreamFull order rate l m'"
  using assms
proof (induction "length (outputs (store m r))" arbitrary: m k es rule: less_induct)
  case less
  show ?case
  proof (cases "total_full order l m \<or> isUpstreamFull order rate l m")
    case False
    then show ?thesis using less.prems by (simp add: make_room.simps)
  next
    case True
    obtain ok c es1 where e: "EvictRelay P (clock k) (store m r) = (ok, c, es1)" by (metis prod_cases3)
    obtain ok2 m2 es2 where rest: "make_room P order clock (\<lambda>_. rate) l r (Suc k) (put_chan r c m) = (ok2, m2, es2)" by (metis prod_cases3)
    have ok: ok ok2 "m2 = m'" using less.prems True e rest by (auto simp: make_room.simps [of P order clock _ l r k m] split: if_splits)
    have "length (outputs (store (put_chan r c m) r)) < length (outputs (store m r))"
      using EvictRelay_shrinks [of P "clock k" "store m r" c es1] e ok(1) by (simp add: put_chan_def)
    from less.hyps [OF this] rest ok show ?thesis by simp
  qed
qed

lemma make_room_admitted:
  "admitted P l m \<Longrightarrow> admitted P l (fst (snd (make_room P order clock rate l r k m)))"
proof (induction "length (outputs (store m r))" arbitrary: m k rule: less_induct)
  case less
  obtain ok c es1 where e: "EvictRelay P (clock k) (store m r) = (ok, c, es1)" by (metis prod_cases3)
  have adm: "admitted P l (put_chan r c m)"
    using admitted.evict [OF less.prems, of r "clock k" 0 True] e by (simp add: EvictRelay_def)
  show ?case
  proof (cases ok)
    case True
    then have "length (outputs (store (put_chan r c m) r)) < length (outputs (store m r))"
      using EvictRelay_shrinks [of P "clock k" "store m r" c es1] e by (simp add: put_chan_def)
    from less.hyps [OF this adm, of "Suc k"] show ?thesis
      using less.prems e by (subst make_room.simps) (auto split: prod.splits)
  qed (use less.prems e in \<open>subst make_room.simps, auto\<close>)
qed

lemma make_room_byID: "byID (fst (snd (make_room P order clock rate l r k m))) = byID m"
proof (induction "length (outputs (store m r))" arbitrary: m k rule: less_induct)
  case less
  obtain ok c es1 where e: "EvictRelay P (clock k) (store m r) = (ok, c, es1)" by (metis prod_cases3)
  show ?case
  proof (cases ok)
    case True
    then have "length (outputs (store (put_chan r c m) r)) < length (outputs (store m r))"
      using EvictRelay_shrinks [of P "clock k" "store m r" c es1] e by (simp add: put_chan_def)
    from less.hyps [OF this, of "Suc k"] show ?thesis
      using e by (subst make_room.simps) (auto simp: put_chan_def split: prod.splits)
  qed (use e in \<open>subst make_room.simps, auto\<close>)
qed

lemma makeRelayable_room:
  assumes lim: "in_limits l c0" and run: "makeRelayable P now (lsMaxRelays l) False c0 = (True, c, es)"
  shows "lsMaxRelays l \<le> 0 \<or> numRelays c < lsMaxRelays l"
proof (cases "lsMaxRelays l \<le> 0 \<or> numRelays c0 < lsMaxRelays l")
  case True
  then show ?thesis using run by (auto simp: makeRelayable_def split: if_splits)
next
  case False
  then obtain v where v: "find (evictable P now c0) (outputs c0) = Some v"
    using run by (auto simp: makeRelayable_def split: option.splits)
  define c1 where "c1 = (case SplitHostPort (oRemoteAddr v) of Some (h, _) \<Rightarrow> Ban h (now + relayBanDuration) c0 | None \<Rightarrow> c0)"
  have c: "c = RemoveOutput v c1" using run v False by (simp add: makeRelayable_def c1_def Let_def)
  have c1: "outputs c1 = outputs c0" "numRelays c1 = numRelays c0" by (auto simp: c1_def Ban_def split: option.splits)
  have "v \<in> set (outputs c0)" "oType v = OutputStreamPCP" using v by (auto simp: find_Some_iff evictable_def)
  then have "numRelays c = numRelays c0 - 1" using c c1 by (simp add: RemoveOutput_alt)
  then show ?thesis using lim False by (simp add: in_limits_def)
qed

text \<open>
  A relay told that there is room finds it.  If the check before the handshake admits a relay, after
  banning it was ruled out and whatever evictions were needed, then at that instant the admission that
  follows the handshake succeeds: no global limit is reached, and its channel has a free slot.
\<close>

theorem admission_checked_is_granted:
  assumes adm: "admitted P l m" and run: "canAdmitRelay P order clock (\<lambda>_. rate) now l r remote m = (True, m', es)"
    and reg: "byID m i = Some r" and out: "oType o' = OutputStreamPCP" and rate: "\<forall>x. 0 \<le> rate x"
  shows "fst (tryAdmit order rate l r o' m')"
proof -
  obtain b c0 where ban: "(case remote of TCPAddr p _ \<Rightarrow> HasBanned now (store m r) (ip_string p) | OtherAddr _ \<Rightarrow> (False, store m r)) = (b, c0)"
    by fastforce
  obtain room m2 es2 where room: "make_room P order clock (\<lambda>_. rate) l r 0 (put_chan r c0 m) = (room, m2, es2)" by (metis prod_cases3)
  obtain ok c es3 where rel: "MakeRelayable P now (lsMaxRelays l) (store m2 r) = (ok, c, es3)" by (metis prod_cases3)
  have res: room ok "m' = put_chan r c m2" using run ban room rel by (auto simp: canAdmitRelay_def Let_def split: if_splits)
  have "outputs c0 = outputs (store m r) \<and> numRelays c0 = numRelays (store m r) \<and> numListeners c0 = numListeners (store m r)"
    using ban by (auto simp: HasBanned_def split: addr.splits option.splits if_splits)
  then have "no_new_outputs m (put_chan r c0 m)"
    using admitted_inv [OF adm] by (auto simp: no_new_outputs_def admit_inv_def put_chan_def)
  from make_room_admitted [OF admitted.other [OF adm this], of order clock "\<lambda>_. rate" r 0] room
  have adm2: "admitted P l m2" by simp
  have free: "\<not> total_full order l m2" "\<not> isUpstreamFull order rate l m2" using make_room_free [of P order clock rate l r 0 _ m2 es2] room res(1) by auto
  have c: "c = fst (snd (makeRelayable P now (lsMaxRelays l) False (store m2 r)))" using rel by (simp add: MakeRelayable_def)
  have "byID m2 i = Some r" using make_room_byID [of P order clock "\<lambda>_. rate" l r 0 "put_chan r c0 m"] room reg by (simp add: put_chan_def)
  then have lim: "in_limits l (store m2 r)" using admitted_inv [OF adm2] by (auto simp: admit_inv_def)
  have fewer: "numRelays c \<le> numRelays (store m2 r)" "send_rate rate c \<le> send_rate rate (store m2 r)"
    using in_limits_makeRelayable [OF lim] send_rate_makeRelayable [OF rate] by (simp_all add: c)
  have "\<not> total_full order l m'" using free(1) total_mono [OF fewer(1)] by (auto simp: total_full_def res(3) intro: order_trans)
  moreover have "\<not> isUpstreamFull order rate l m'"
    using free(2) rate_mono [OF fewer(2), of order] by (auto simp: isUpstreamFull_def res(3) intro: order_trans zdiv_mono1 mult_right_mono)
  moreover have "snd (TryAddOutput o' (lsMaxRelays l) (lsMaxListeners l) c)"
    using makeRelayable_room [OF lim, of P now c es3] rel res(2) out by (auto simp: MakeRelayable_def TryAddOutput_def slots_full_def)
  ultimately show ?thesis by (auto simp: tryAdmit_def res(3) put_chan_def split: prod.splits)
qed

theorem admission_checked_is_granted_witness:
  "fst (tryAdmit [zeroID] (\<lambda>_. 0) demo_listener 0 (demo_out 1)
     (fst (snd (canAdmitRelay wire_pcp [zeroID] (\<lambda>_. 7) (\<lambda>_ _. 0) 7 demo_listener 0 (OtherAddr []) demo_registry))))"
proof -
  have "admitted wire_pcp demo_listener (NewManager zeroID)" by (rule admitted.none) (simp add: NewManager_def)
  then have adm: "admitted wire_pcp demo_listener demo_registry"
    by (rule admitted.other) (auto simp: no_new_outputs_def demo_registry_def NewManager_def New_def split: if_splits)
  have "\<not> total_full [zeroID] demo_listener demo_registry" "\<not> isUpstreamFull [zeroID] (\<lambda>_. 0) demo_listener demo_registry"
    by (simp_all add: total_full_def isUpstreamFull_def demo_listener_def NewListener_def Manager_TotalRelays_def Manager_List_def
        demo_registry_def NewManager_def New_def List.map_filter_simps)
  moreover have "put_chan 0 (store demo_registry 0) demo_registry = demo_registry" by (simp add: put_chan_def)
  moreover have "numRelays (store demo_registry 0) = 0" by (simp add: demo_registry_def NewManager_def New_def)
  ultimately have run: "canAdmitRelay wire_pcp [zeroID] (\<lambda>_. 7) (\<lambda>_. \<lambda>_. 0) 7 demo_listener 0 (OtherAddr []) demo_registry
      = (True, demo_registry, [])"
    by (simp add: canAdmitRelay_def make_room.simps MakeRelayable_def makeRelayable_def demo_listener_def NewListener_def)
  show ?thesis
    using admission_checked_is_granted [OF adm run, of zeroID "demo_out 1"] run by (simp add: demo_registry_def demo_out_def)
qed

section \<open>Who may watch\<close>

lemma status_not_empty: "statusBadRequest \<noteq> []"
  by (simp add: statusBadRequest_def)

lemma parse_cases:
  "parseViewerRequest (Some rq) pre = Some (viewerRequest0, statusBadRequest) \<or>
   (\<exists>cid tip. parseChannelIDPath (rqPath rq) pre = Some cid \<and> parseTip (rqTip rq) = Some tip \<and>
      parseViewerRequest (Some rq) pre =
        Some (\<lparr>vrChannelID = cid, vrTip = tip, vrHost = rqHost rq, vrAuthorization = rqAuthorization rq\<rparr>, []))"
  by (auto simp: parseViewerRequest_def split: option.splits)


definition demo_request :: http_request where
  "demo_request = \<lparr>rqPath = ''/stream/0123456789abcdef0123456789abcdef.flv'', rqTip = ''8.8.8.8:7144'', rqHost = ''node:7144'', rqAuthorization = []\<rparr>"


section \<open>Playlists lead to the stream\<close>

lemma EncodeToString_no_newline: "CHR 0x0A \<notin> set (EncodeToString bs)"
proof (induction bs)
  case (Cons b bs)
  have "hex_char n \<noteq> CHR 0x0A" if "n < 16" for n
    using hex_val_hex_char [OF that] by (auto simp: hex_val_def)
  moreover have "unat b div 16 < 16" "unat b mod 16 < 16" using unat_bound256 [of b] by auto
  ultimately show ?case using Cons by (auto dest: sym)
qed simp

text \<open>
  A playlist leads to its channel.  The answer to a well-formed playlist request for a channel this
  node has announces the length of its body correctly, and, if neither the channel's name nor the
  request's host contains a line break, the body is three lines: the format marker, the name, and a
  link to this host whose path the stream handler reads as the same channel.
\<close>

theorem playlist_links_back:
  assumes vr: "parseViewerRequest (Some rq) ''/pls/'' = Some (vr, [])" "viewerAllowed l vr" "GetByID (vrChannelID vr) m = Some r"
    and port: "0 \<le> lsPort l" and lf: "CHR 0x0A \<notin> set (vrHost vr)" "CHR 0x0A \<notin> set (Name (info (store m r)))"
  shows "\<exists>body host path nm. fst (handlePLS l od (Some rq) remote m) = pls_response body \<and>
    header_lines body = [''#EXTM3U'', ''#EXTINF:-1,'' @ nm, ''http://'' @ host @ path] \<and>
    nm \<noteq> [] \<and> host \<noteq> [] \<and> parseChannelIDPath path ''/stream/'' = Some (vrChannelID vr)"
proof -
  let ?cid = "vrChannelID vr"
  define nm where "nm = (if Name (info (store m r)) = [] then EncodeToString ?cid else Name (info (store m r)))"
  define host where "host = (if vrHost vr = [] then ''localhost:'' @ Itoa (lsPort l) else vrHost vr)"
  have cid: "length ?cid = 16"
    using vr(1) parse_cases [of rq "''/pls/''"] parseChannelIDPath_type status_not_empty by auto
  have fst: "fst (handlePLS l od (Some rq) remote m) = pls_response (playlist nm (stream_url l vr))"
    using vr by (simp add: handlePLS_def lookupChannel_def nm_def Let_def)
  have url: "stream_url l vr = ''http://'' @ host @ ''/stream/'' @ EncodeToString ?cid" by (simp add: stream_url_def host_def)
  have "CHR 0x0A \<notin> set nm" "CHR 0x0A \<notin> set (stream_url l vr)"
    using lf port by (auto simp: nm_def url host_def EncodeToString_no_newline Itoa_no_newline)
  then have "header_lines (playlist nm (stream_url l vr)) = [''#EXTM3U'', ''#EXTINF:-1,'' @ nm, stream_url l vr]"
    using header_lines_line [of "''#EXTM3U''"] header_lines_line [of "''#EXTINF:-1,'' @ nm"] header_lines_line [of "stream_url l vr" "[]"]
    by (simp add: playlist_def LF_def)
  moreover have "parseChannelIDPath (''/stream/'' @ EncodeToString ?cid) ''/stream/'' = Some ?cid"
    using parseChannelIDPath_of(1) [OF cid, of "[]" "''/stream/''"] by simp
  moreover have "nm \<noteq> []" using cid by (cases ?cid) (auto simp: nm_def)
  moreover have "host \<noteq> []" by (simp add: host_def)
  ultimately show ?thesis using fst url
    by (intro exI [of _ "playlist nm (stream_url l vr)"] exI [of _ host] exI [of _ "''/stream/'' @ EncodeToString ?cid"] exI [of _ nm]) simp
qed

definition demo_pls :: http_request where
  "demo_pls = \<lparr>rqPath = ''/pls/'' @ EncodeToString zeroID, rqTip = [], rqHost = ''node:7144'', rqAuthorization = []\<rparr>"

theorem playlist_links_back_witness:
  "\<exists>body. fst (handlePLS demo_listener None (Some demo_pls) (OtherAddr []) demo_registry) = pls_response body \<and> length (header_lines body) = 3"
proof -
  have "parseViewerRequest (Some demo_pls) ''/pls/'' =
      Some (\<lparr>vrChannelID = zeroID, vrTip = [], vrHost = ''node:7144'', vrAuthorization = []\<rparr>, [])"
    using parseChannelIDPath_of(1) [of zeroID "[]" "''/pls/''"]
    by (simp add: parseViewerRequest_def demo_pls_def parseTip_def zeroID_def)
  from playlist_links_back [OF this, of demo_listener demo_registry 0 None "OtherAddr []"] show ?thesis
    by (auto simp: viewerAllowed_def demo_listener_def NewListener_def GetByID_def demo_registry_def NewManager_def New_def ChannelInfo0_def)
qed



end
