(* ===== verification/Yp_Client.thy ===== *)
theory Yp_Client
  imports Relay_Client "HOL-Library.Sublist"
begin

text \<open>
  \<^verbatim>\<open>internal/yp/client.go\<close> and \<^verbatim>\<open>announcements.go\<close>: the connection to a YP, the directory server to
  which the node announces the channels it broadcasts.

  A \<open>world\<close> is what the client sees of the rest of the node at one instant: the clock, the channels
  the manager lists, the shared network state, what the resolver answers, and whether the next
  writes succeed.  A pass over the channels sees one world.  A connection is described by a
  \<open>yp_link\<close>, as in \<open>Relay_Client\<close>; after the handshake the loop takes a list of events, each with its
  world.  The goroutine that reads from the YP turns atoms into events (\<open>yp_reader\<close>).
\<close>

definition bcstTTL :: byte where "bcstTTL = 11"
definition defaultPCPPort :: int where "defaultPCPPort = 7144"
definition retryInitial :: int where "retryInitial = 5 * second"
definition retryMax :: int where "retryMax = 120 * second"
definition defaultInterval :: int where "defaultInterval = 30 * second"

record announcement =
  anChannel :: nat
  anInfo :: ChannelInfo
  anTrack :: TrackInfo
  anReceiving :: bool
  anRelayFull :: bool
  anDirectFull :: bool
  anKnown :: bool
  anOpen :: bool
  anGlobal :: string
  anListeners :: int
  anRelays :: int

record YPClient =
  ycLocalAddress :: ip
  ycAnnounced :: "gnuid \<rightharpoonup> announcement"
  ycAddr :: string
  ycSessionID :: gnuid
  ycBroadcastID :: gnuid
  ycListenPort :: u16
  ycMaxRelays :: int
  ycMaxListeners :: int
  ycGlobalIP :: u32
  ycLocalIP :: u32
  ycStopped :: bool
  ycBump :: bool

record 'a world =
  woNow :: time
  woList :: "nat list"
  woStore :: "nat \<Rightarrow> 'a Channel"
  woNetwork :: "NetworkState option"
  woCheck :: "nat \<Rightarrow> bool \<times> bool"
  woStats :: "gnuid list"
  woOrder :: "gnuid list"
  woLookupIP :: "string \<Rightarrow> ip list option"
  woLookupPort :: "string \<Rightarrow> int option"
  woOk :: "nat \<Rightarrow> bool"

definition NewYPClient :: "string \<Rightarrow> gnuid \<Rightarrow> gnuid \<Rightarrow> int \<Rightarrow> int \<Rightarrow> int \<Rightarrow> YPClient" where
  "NewYPClient addr sid bcid listenPort maxRelays maxListeners =
     \<lparr>ycLocalAddress = [], ycAnnounced = Map.empty, ycAddr = addr, ycSessionID = sid, ycBroadcastID = bcid,
      ycListenPort = of_int (if listenPort \<le> 0 then defaultPCPPort else listenPort),
      ycMaxRelays = maxRelays, ycMaxListeners = maxListeners, ycGlobalIP = 0, ycLocalIP = 0,
      ycStopped = False, ycBump = False\<rparr>"

definition YP_Stop :: "YPClient \<Rightarrow> YPClient" where
  "YP_Stop c = c\<lparr>ycStopped := True\<rparr>"

definition YP_Bump :: "YPClient \<Rightarrow> YPClient" where
  "YP_Bump c = c\<lparr>ycBump := True\<rparr>"

definition hasBroadcastingChannel :: "'a world \<Rightarrow> bool" where
  "hasBroadcastingChannel w = list_ex (\<lambda>r. isBroadcasting (woStore w r)) (woList w)"

definition shouldConnect :: "'a world \<Rightarrow> YPClient \<Rightarrow> bool" where
  "shouldConnect w c =
     (if woList w = [] then False
      else if ycGlobalIP c = 0 \<and> fst (Status (woNetwork w) (ycLocalAddress c)) = [] then True
      else list_ex (\<lambda>r. isBroadcasting (woStore w r)) (woList w))"

section \<open>Announcements\<close>

text \<open>The resolver is the environment's; \<open>None\<close> is an error.\<close>

definition parseHostPort ::
  "'a pcp \<Rightarrow> (string \<Rightarrow> ip list option) \<Rightarrow> (string \<Rightarrow> int option) \<Rightarrow> string \<Rightarrow> (u32 \<times> u16) option" where
  "parseHostPort P lookupIP lookupPort addr =
     (case SplitHostPort addr of
        None \<Rightarrow> None
      | Some (host, portStr) \<Rightarrow>
          (case lookupIP host of
             None \<Rightarrow> None
           | Some [] \<Rightarrow> None
           | Some (p # _) \<Rightarrow>
               if To4 p = [] then None
               else if \<not> snd (IPv4ToUint32 P (To4 p)) then None
               else (case lookupPort portStr of
                       None \<Rightarrow> None
                     | Some n \<Rightarrow> Some (fst (IPv4ToUint32 P (To4 p)), of_int n))))"

definition buildHelo :: "'a pcp \<Rightarrow> NetworkState option \<Rightarrow> YPClient \<Rightarrow> 'a" where
  "buildHelo P net c =
     (let ports = (if net = None then (ycListenPort c, ycListenPort c)
                   else HeloPort net (ycLocalAddress c) (ycListenPort c))
      in BuildHeloAtom P
           \<lparr>hpAgent = AgentName, hpSessionID = ycSessionID c, hpVersion = PCPVersion, hpPort = fst ports,
            hpPing = snd ports, hpRemoteIP = 0, hpBCID = ycBroadcastID c\<rparr>)"

definition host_params :: "'a pcp \<Rightarrow> 'a world \<Rightarrow> nat \<Rightarrow> YPClient \<Rightarrow> HostAtomParams" where
  "host_params P w r c =
     (let ch = woStore w r; full = SlotStatus (woCheck w r) (ycMaxRelays c) (ycMaxListeners c) ch;
          up = (if upstreamAddr ch \<noteq> [] then parseHostPort P (woLookupIP w) (woLookupPort w) (upstreamAddr ch) else None)
      in \<lparr>paNetwork = woNetwork w, paLocalAddress = ycLocalAddress c, paGlobalAddress = [], paUpstreamAddress = [],
          paFirewalled = False, paSessionID = ycSessionID c, paLocalIP = ycLocalIP c, paGlobalIP = ycGlobalIP c,
          paListenPort = ycListenPort c, paChannelID = chID ch,
          paNumListeners = TotalListeners (woStats w) (woNow w) ch, paNumRelays = TotalRelays (woStats w) (woNow w) ch,
          paUptime = UptimeSeconds (woNow w) ch, paOldPos = OldestPos (buffer ch), paNewPos = NewestPos (buffer ch),
          paIsTracker = True, paHasGlobalIP = True, paRelayFull = fst full, paDirectFull = snd full,
          paTrackerAtom = True, paIsReceiving = IsReceiving (woNow w) ch,
          paUphostIP = (case up of None \<Rightarrow> 0 | Some (p, n) \<Rightarrow> p), paUphostPort = (case up of None \<Rightarrow> 0 | Some (p, n) \<Rightarrow> n),
          paUphostHops = 0\<rparr>)"

definition chan_params :: "'a Channel \<Rightarrow> ChanPacket" where
  "chan_params ch =
     \<lparr>cpID = chID ch, cpBroadcastID = broadcastID ch, cpInfo = Some (ChannelInfo_ToPCP (info ch)),
      cpTrack = Some (TrackInfo_ToPCP (track ch)), cpPkt = None\<rparr>"

definition buildBcst :: "'a pcp \<Rightarrow> 'a world \<Rightarrow> nat \<Rightarrow> YPClient \<Rightarrow> 'a" where
  "buildBcst P w r c =
     (let ch = woStore w r; T = tag_of P in
      NewParentAtom P (T PCPBcst)
        [NewByteAtom P (T PCPBcstTTL) bcstTTL, NewByteAtom P (T PCPBcstHops) 0,
         NewIDAtom P (T PCPBcstFrom) (ycSessionID c), NewByteAtom P (T PCPBcstGroup) (flag_of P PCPBcstGroupRoot),
         NewIDAtom P (T PCPBcstChanID) (chID ch), NewIntAtom P (T PCPBcstVersion) PCPVersion,
         NewIntAtom P (T PCPBcstVersionVP) PCPVersionVP, NewBytesAtom P (T PCPBcstVersionExPrefix) (ascii ExPrefix),
         NewShortAtom P (T PCPBcstVersionExNumber) ExNumber,
         BuildChanAtom P (chan_params ch), BuildHostAtom P (host_params P w r c)])"

definition announce_state :: "'a world \<Rightarrow> nat \<Rightarrow> YPClient \<Rightarrow> announcement" where
  "announce_state w r c =
     (let ch = woStore w r; full = SlotStatus (woCheck w r) (ycMaxRelays c) (ycMaxListeners c) ch in
      case Status (woNetwork w) (ycLocalAddress c) of (p, kn, op) \<Rightarrow>
        \<lparr>anChannel = r, anInfo = info ch, anTrack = track ch, anReceiving = IsReceiving (woNow w) ch,
         anRelayFull = fst full, anDirectFull = snd full, anKnown = kn, anOpen = op, anGlobal = ip_string p,
         anListeners = TotalListeners (woStats w) (woNow w) ch, anRelays = TotalRelays (woStats w) (woNow w) ch\<rparr>)"

text \<open>The first loop of \<^verbatim>\<open>sendAnnouncements\<close>; \<open>n\<close> counts the writes.  A failed write ends it.\<close>

fun announce_live ::
  "'a pcp \<Rightarrow> 'a world \<Rightarrow> bool \<Rightarrow> YPClient \<Rightarrow> nat list \<Rightarrow> nat \<Rightarrow> (gnuid \<rightharpoonup> announcement) \<Rightarrow>
   (gnuid \<rightharpoonup> announcement) \<times> nat \<times> 'a list \<times> bool" where
  "announce_live P w force c [] n nxt = (nxt, n, [], True)"
| "announce_live P w force c (r # rs) n nxt =
     (let ch = woStore w r; state = announce_state w r c in
      if \<not> isBroadcasting ch then announce_live P w force c rs n nxt
      else if force \<or> ycAnnounced c (chID ch) \<noteq> Some state then
        (if \<not> woOk w n then (nxt, n, [], False)
         else case announce_live P w force c rs (Suc n) (nxt(chID ch \<mapsto> state)) of
           (nxt', n', ws, good) \<Rightarrow> (nxt', n', buildBcst P w r c # ws, good))
      else announce_live P w force c rs n (nxt(chID ch \<mapsto> state)))"

text \<open>
  The announcement with the receiving flag cleared.  \<^verbatim>\<open>FindChild\<close> finds the host atom in every atom
  \<^verbatim>\<open>buildBcst\<close> makes; the other branch stands for the nil dereference.
\<close>

definition off_air :: "'a pcp \<Rightarrow> 'a \<Rightarrow> 'a" where
  "off_air P a =
     (case FindChild P a (tag_of P PCPHost) of
        None \<Rightarrow> a
      | Some host \<Rightarrow>
          ReplaceChild P a (ReplaceChild P host
            (NewByteAtom P (tag_of P PCPHostFlags1) (atom_Byte P host PCPHostFlags1 AND NOT (flag_of P PCPHostFlags1Recv)))))"

fun announce_gone ::
  "'a pcp \<Rightarrow> 'a world \<Rightarrow> YPClient \<Rightarrow> (gnuid \<rightharpoonup> announcement) \<Rightarrow> gnuid list \<Rightarrow> nat \<Rightarrow> 'a list \<times> bool" where
  "announce_gone P w c nxt [] n = ([], True)"
| "announce_gone P w c nxt (cid # cids) n =
     (case ycAnnounced c cid of
        None \<Rightarrow> announce_gone P w c nxt cids n
      | Some prev \<Rightarrow>
          if nxt cid \<noteq> None then announce_gone P w c nxt cids n
          else if \<not> woOk w n then ([], False)
          else case announce_gone P w c nxt cids (Suc n) of
            (ws, good) \<Rightarrow> (off_air P (buildBcst P w (anChannel prev) c) # ws, good))"

definition sendAnnouncements :: "'a pcp \<Rightarrow> 'a world \<Rightarrow> bool \<Rightarrow> YPClient \<Rightarrow> YPClient \<times> 'a list \<times> bool" where
  "sendAnnouncements P w force c =
     (case announce_live P w force c (woList w) 0 Map.empty of (nxt, n, ws, good) \<Rightarrow>
        if \<not> good then (c, ws, False)
        else case announce_gone P w c nxt (woOrder w) n of (ws', good') \<Rightarrow>
          if \<not> good' then (c, ws @ ws', False)
          else (c\<lparr>ycAnnounced := nxt\<rparr>, ws @ ws', True))"

definition sendAllBcst :: "'a pcp \<Rightarrow> 'a world \<Rightarrow> YPClient \<Rightarrow> YPClient \<times> 'a list \<times> bool" where
  "sendAllBcst P w c = sendAnnouncements P w True c"

section \<open>One connection\<close>

text \<open>The network state is shared, so it is threaded beside the client; the last part is the callback \<^verbatim>\<open>OnGlobalIP\<close>.\<close>

definition handleOleh ::
  "'a pcp \<Rightarrow> 'a \<Rightarrow> YPClient \<Rightarrow> NetworkState option \<Rightarrow> YPClient \<times> NetworkState option \<times> u32 list" where
  "handleOleh P a c net =
     (let net' = map_option (\<lambda>n. Observe P n a) net in
      case ParseHelo P a of (oleh, ok) \<Rightarrow>
        if \<not> ok \<or> hpRemoteIP oleh = 0 then (c, net', [])
        else (c\<lparr>ycGlobalIP := hpRemoteIP oleh\<rparr>, net', [hpRemoteIP oleh]))"

definition parseRoot :: "'a pcp \<Rightarrow> 'a \<Rightarrow> u32 \<times> bool" where
  "parseRoot P a = (case ParseRootPacket P a of (rp, ok) \<Rightarrow> if \<not> ok then (0, False) else (rpUpdateInterval rp, rpUpdate rp))"

definition seconds_of :: "u32 \<Rightarrow> int" where
  "seconds_of n = int (unat n) * second"

text \<open>The atoms up to \<^verbatim>\<open>ok\<close>: the update interval and what follows, or \<open>None\<close> for a failed handshake.\<close>

fun yp_handshake ::
  "'a pcp \<Rightarrow> 'a net_event list \<Rightarrow> int \<Rightarrow> YPClient \<Rightarrow> NetworkState option \<Rightarrow>
   (int \<times> 'a net_event list) option \<times> YPClient \<times> NetworkState option \<times> u32 list" where
  "yp_handshake P (Recv now a # events) interval c net =
     (if Tag P a = tag_of P PCPOleh then
        (case handleOleh P a c net of (c', net', ips) \<Rightarrow>
         case yp_handshake P events interval c' net' of (res, c'', net'', ips') \<Rightarrow> (res, c'', net'', ips @ ips'))
      else if Tag P a = tag_of P PCPRoot then
        yp_handshake P events (if fst (parseRoot P a) > 0 then seconds_of (fst (parseRoot P a)) else interval) c net
      else if Tag P a = tag_of P PCPOK then (Some (interval, events), c, net, [])
      else if Tag P a = tag_of P PCPQuit then (None, c, net, [])
      else yp_handshake P events interval c net)"
| "yp_handshake P _ interval c net = (None, c, net, [])"

datatype 'a yp_event = YStop | YReadErr | YTick | YRoot 'a | YChanges | YBump

fun yp_reader :: "'a pcp \<Rightarrow> 'a net_event list \<Rightarrow> 'a yp_event list" where
  "yp_reader P (Recv now a # events) =
     (if Tag P a = tag_of P PCPRoot then YRoot a # yp_reader P events
      else if Tag P a = tag_of P PCPQuit then [YReadErr]
      else yp_reader P events)"
| "yp_reader P _ = [YReadErr]"

definition quit_atom :: "'a pcp \<Rightarrow> 'a" where
  "quit_atom P = NewIntAtom P (tag_of P PCPQuit) (quit_code P PCPErrorShutdown)"

datatype yp_end = YGoOn | YClean | YError

definition after_send :: "YPClient \<times> 'a list \<times> bool \<Rightarrow> yp_end \<times> YPClient \<times> 'a list" where
  "after_send x = (case x of (c, ws, good) \<Rightarrow> (if good then YGoOn else YError, c, ws))"

text \<open>
  One turn of the loop: whether the connection goes on, the state, what is written, and a new period
  for the ticker.  An event that is not ready does nothing.
\<close>

definition yp_step ::
  "'a pcp \<Rightarrow> 'a world \<Rightarrow> 'a yp_event \<Rightarrow> YPClient \<Rightarrow> (yp_end \<times> YPClient \<times> 'a list) \<times> int option" where
  "yp_step P w e c =
     (case e of
        YStop \<Rightarrow> ((if ycStopped c then (YClean, c, if woOk w 0 then [quit_atom P] else []) else (YGoOn, c, [])), None)
      | YReadErr \<Rightarrow> ((YError, c, []), None)
      | YTick \<Rightarrow> (after_send (sendAllBcst P w c), None)
      | YRoot a \<Rightarrow>
          (case parseRoot P a of (interval, immediate) \<Rightarrow>
             (if immediate then after_send (sendAllBcst P w c) else (YGoOn, c, []),
              if interval > 0 then Some (seconds_of interval) else None))
      | YChanges \<Rightarrow>
          (case sendAnnouncements P w False c of (c', ws, good) \<Rightarrow>
             ((if \<not> good then (YError, c', ws)
               else if \<not> hasBroadcastingChannel w then (YClean, c', ws @ (if woOk w (length ws) then [quit_atom P] else []))
               else (YGoOn, c', ws)), None))
      | YBump \<Rightarrow>
          ((if ycBump c then after_send (sendAllBcst P w (c\<lparr>ycBump := False\<rparr>)) else (YGoOn, c, [])), None))"

fun yp_loop ::
  "'a pcp \<Rightarrow> ('a world \<times> 'a yp_event) list \<Rightarrow> int \<Rightarrow> YPClient \<Rightarrow> yp_end \<times> YPClient \<times> 'a list \<times> int" where
  "yp_loop P [] period c = (YGoOn, c, [], period)"
| "yp_loop P ((w, e) # es) period c =
     (case yp_step P w e c of ((fin, c', ws), renew) \<Rightarrow>
        let period' = (case renew of None \<Rightarrow> period | Some d \<Rightarrow> d) in
        if fin \<noteq> YGoOn then (fin, c', ws, period')
        else case yp_loop P es period' c' of (fin', c'', ws', p) \<Rightarrow> (fin', c'', ws @ ws', p))"

record 'a yp_link =
  ylDial :: bool
  ylLocal :: addr
  ylWriteConnect :: bool
  ylWriteHelo :: bool
  ylNetwork :: "NetworkState option"
  ylInbox :: "'a net_event list"
  ylWorld :: "'a world"
  ylEvents :: "('a world \<times> 'a yp_event) list"

definition open_conn :: "'a pcp \<Rightarrow> 'a yp_link \<Rightarrow> YPClient \<Rightarrow> YPClient" where
  "open_conn P lk c =
     c\<lparr>ycLocalAddress := AddrIP (ylLocal lk),
       ycLocalIP := (case ylLocal lk of TCPAddr p _ \<Rightarrow> fst (IPv4ToUint32 P p) | OtherAddr _ \<Rightarrow> ycLocalIP c)\<rparr>"

text \<open>
  \<^verbatim>\<open>run\<close>: whether the handshake was completed, how it ended, and what was written.  \<open>ylWorld\<close> is the
  world after the handshake, but for the network state, which the handshake may have updated.
\<close>

definition yp_run ::
  "'a pcp \<Rightarrow> 'a yp_link \<Rightarrow> YPClient \<Rightarrow>
   bool \<times> yp_end \<times> YPClient \<times> NetworkState option \<times> 'a list \<times> u32 list" where
  "yp_run P lk c =
     (let net = ylNetwork lk in
      if \<not> ylDial lk then (False, YError, c, net, [], [])
      else
        let hello = NewIntAtom P (tag_of P PCPConnect) (ProtocolVersion (AddrIP (ylLocal lk))) in
        if \<not> ylWriteConnect lk then (False, YError, c\<lparr>ycLocalAddress := AddrIP (ylLocal lk)\<rparr>, net, [], [])
        else let c1 = open_conn P lk c in
        if \<not> ylWriteHelo lk then (False, YError, c1, net, [hello], [])
        else case yp_handshake P (ylInbox lk) defaultInterval c1 net of
          (None, c2, net', ips) \<Rightarrow> (False, YError, c2, net', [hello, buildHelo P net c1], ips)
        | (Some (interval, rest), c2, net', ips) \<Rightarrow>
            let w = (ylWorld lk)\<lparr>woNetwork := net'\<rparr>; c3 = c2\<lparr>ycAnnounced := Map.empty\<rparr>; sent = [hello, buildHelo P net c1] in
            if \<not> hasBroadcastingChannel w then
              (True, YClean, c3, net', sent @ (if woOk w 0 then [quit_atom P] else []), ips)
            else case sendAllBcst P w c3 of (c4, ws, good) \<Rightarrow>
              if \<not> good then (True, YError, c4, net', sent @ ws, ips)
              else case yp_loop P (ylEvents lk) interval c4 of (fin, c5, ws', _) \<Rightarrow>
                (True, fin, c5, net', sent @ ws @ ws', ips))"

section \<open>The reconnect loop\<close>

text \<open>Polls, with whether \<^verbatim>\<open>Stop\<close> was called by then; \<open>None\<close> while it still waits.\<close>

fun waitForChannel :: "('a world \<times> bool) list \<Rightarrow> YPClient \<Rightarrow> bool option" where
  "waitForChannel [] c = None"
| "waitForChannel ((w, stopped) # ps) c =
     (if shouldConnect w c then Some True else if stopped then Some False else waitForChannel ps c)"

record 'a yp_attempt =
  yaPolls :: "('a world \<times> bool) list"
  yaLink :: "'a yp_link"
  yaStopped :: bool

text \<open>\<^verbatim>\<open>Run\<close>: whether it has returned, the pauses it made, and the state.\<close>

fun yp_Run ::
  "'a pcp \<Rightarrow> 'a yp_attempt list \<Rightarrow> int \<Rightarrow> YPClient \<Rightarrow> bool \<times> int list \<times> YPClient \<times> 'a list list" where
  "yp_Run P [] delay c = (False, [], c, [])"
| "yp_Run P (a # as) delay c =
     (case waitForChannel (yaPolls a) c of
        None \<Rightarrow> (False, [], c, [])
      | Some False \<Rightarrow> (True, [], c, [])
      | Some True \<Rightarrow>
          (case yp_run P (yaLink a) c of (conn, fin, c', net', sent, ips) \<Rightarrow>
             let pause = (if conn then retryInitial else delay);
                 after = (if pause * 2 > retryMax then retryMax else pause * 2)
             in if yaStopped a then (True, [], c', [sent])
                else case yp_Run P as after c' of (st, ds, c'', sents) \<Rightarrow>
                  (st, pause # ds, c'', sent # sents)))"

section \<open>What the YP knows\<close>

text \<open>
  \<open>listing\<close> is the YP's entry for a channel: the last broadcast atom with the channel's identifier.
  \<open>displays\<close> says that an entry shows what the node last compared; \<open>on_air\<close> reads the receiving flag.
\<close>

definition bcst_chan :: "'a pcp \<Rightarrow> 'a \<Rightarrow> gnuid option" where
  "bcst_chan P a = (case has P a PCPBcstChanID of Some v \<Rightarrow> if snd (GetID P v) then Some (fst (GetID P v)) else None | None \<Rightarrow> None)"

definition listing :: "'a pcp \<Rightarrow> 'a list \<Rightarrow> gnuid \<Rightarrow> 'a option" where
  "listing P sent cid = find (\<lambda>a. bcst_chan P a = Some cid) (rev sent)"

definition listed_flag :: "'a pcp \<Rightarrow> 'a \<Rightarrow> pcp_flag \<Rightarrow> bool" where
  "listed_flag P a f = (case has P a PCPHost of None \<Rightarrow> False | Some h \<Rightarrow> atom_Byte P h PCPHostFlags1 AND flag_of P f \<noteq> 0)"

definition listed_count :: "'a pcp \<Rightarrow> 'a \<Rightarrow> pcp_tag \<Rightarrow> u32 option" where
  "listed_count P a t = map_option (\<lambda>h. atom_Int P h t) (has P a PCPHost)"

definition listed_chan :: "'a pcp \<Rightarrow> 'a \<Rightarrow> gnuid \<Rightarrow> ChannelInfo \<Rightarrow> TrackInfo \<Rightarrow> bool" where
  "listed_chan P a cid i t \<longleftrightarrow>
     (\<exists>b. has P a PCPChan = Some (BuildChanAtom P \<lparr>cpID = cid, cpBroadcastID = b, cpInfo = Some (ChannelInfo_ToPCP i),
            cpTrack = Some (TrackInfo_ToPCP t), cpPkt = None\<rparr>))"

definition displays :: "'a pcp \<Rightarrow> 'a \<Rightarrow> gnuid \<Rightarrow> announcement \<Rightarrow> bool" where
  "displays P a cid st \<longleftrightarrow>
     listed_chan P a cid (anInfo st) (anTrack st) \<and>
     listed_count P a PCPHostNumListeners = Some (of_int (anListeners st)) \<and>
     listed_count P a PCPHostNumRelays = Some (of_int (anRelays st)) \<and>
     (listed_flag P a PCPHostFlags1Recv \<longleftrightarrow> anReceiving st) \<and>
     (listed_flag P a PCPHostFlags1Relay \<longleftrightarrow> \<not> anRelayFull st) \<and>
     (listed_flag P a PCPHostFlags1Push \<longleftrightarrow> \<not> (anKnown st \<and> anOpen st))"

lemma listing_Nil [simp]: "listing P [] cid = None"
  by (simp add: listing_def)

lemma listing_append:
  "listing P (xs @ ys) cid = (case listing P ys cid of Some a \<Rightarrow> Some a | None \<Rightarrow> listing P xs cid)"
  by (simp add: listing_def find_append split: option.splits)

lemma listing_Cons:
  "listing P (a # ys) cid =
     (case listing P ys cid of Some b \<Rightarrow> Some b | None \<Rightarrow> if bcst_chan P a = Some cid then Some a else None)"
  by (simp add: listing_def find_append split: option.splits)

definition yp_laws :: "'a pcp \<Rightarrow> bool" where
  "yp_laws P \<longleftrightarrow> atom_laws P \<and> tag_laws P \<and> flag_laws P \<and> chan_laws P"

lemma yp_atoms:
  assumes "yp_laws P"
  shows "atom_laws P" "tag_laws P" "flag_laws P" "chan_laws P"
  using assms by (simp_all add: yp_laws_def)

lemma Tag_IPAtom: "atom_laws P \<Longrightarrow> Tag P (IPAtom P t p) = t"
  by (simp add: IPAtom_def atom_laws_data)

lemma Tag_BuildHostAtom: "atom_laws P \<Longrightarrow> Tag P (BuildHostAtom P p) = tag_of P PCPHost"
  by (simp add: BuildHostAtom_def atom_laws_parent)

lemma has_host_child:
  assumes "yp_laws P" "length (paSessionID p) = 16" "length (paChannelID p) = 16"
  shows "has P (BuildHostAtom P p) PCPHostFlags1 = Some (NewByteAtom P (tag_of P PCPHostFlags1) (pa_flags P p))"
    and "has P (BuildHostAtom P p) PCPHostNumListeners = Some (NewIntAtom P (tag_of P PCPHostNumListeners) (of_int (paNumListeners p)))"
    and "has P (BuildHostAtom P p) PCPHostNumRelays = Some (NewIntAtom P (tag_of P PCPHostNumRelays) (of_int (paNumRelays p)))"
  using assms
  by (simp_all add: has_def BuildHostAtom_def host_children_def Let_def yp_atoms atom_laws_parent atom_laws_data
      Tag_IPAtom tag_laws_host host_tags_def)

definition sized :: "'a world \<Rightarrow> nat \<Rightarrow> YPClient \<Rightarrow> bool" where
  "sized w r c \<longleftrightarrow> length (chID (woStore w r)) = 16 \<and> length (ycSessionID c) = 16"

lemma has_buildBcst:
  assumes "yp_laws P" "sized w r c"
  shows "has P (buildBcst P w r c) PCPBcstChanID = Some (NewIDAtom P (tag_of P PCPBcstChanID) (chID (woStore w r)))"
    and "has P (buildBcst P w r c) PCPHost = Some (BuildHostAtom P (host_params P w r c))"
    and "has P (buildBcst P w r c) PCPChan = Some (BuildChanAtom P (chan_params (woStore w r)))"
  using assms
  by (simp_all add: has_def buildBcst_def Let_def sized_def yp_atoms atom_laws_parent atom_laws_data chan_laws_atom(1)
      Tag_BuildHostAtom tag_laws_bcst bcst_tags_def)

lemma host_params_simps [simp]:
  "paSessionID (host_params P w r c) = ycSessionID c" "paChannelID (host_params P w r c) = chID (woStore w r)"
  "paNumListeners (host_params P w r c) = TotalListeners (woStats w) (woNow w) (woStore w r)"
  "paNumRelays (host_params P w r c) = TotalRelays (woStats w) (woNow w) (woStore w r)"
  "paIsReceiving (host_params P w r c) = IsReceiving (woNow w) (woStore w r)"
  "paNetwork (host_params P w r c) = woNetwork w" "paLocalAddress (host_params P w r c) = ycLocalAddress c"
  by (simp_all add: host_params_def Let_def)

lemma bcst_chan_buildBcst: "yp_laws P \<Longrightarrow> sized w r c \<Longrightarrow> bcst_chan P (buildBcst P w r c) = Some (chID (woStore w r))"
  by (simp add: bcst_chan_def has_buildBcst sized_def yp_atoms atom_laws_data)

lemma buildBcst_displays:
  assumes "yp_laws P" "sized w r c" "woNetwork w \<noteq> None" "ycLocalAddress c \<noteq> []"
  shows "displays P (buildBcst P w r c) (chID (woStore w r)) (announce_state w r c)"
proof -
  note fl = pa_flags_bits [OF yp_atoms(3) [OF assms(1)], of "host_params P w r c"]
  have "pa_local P (host_params P w r c) = ycLocalAddress c" using assms(4) by (simp add: pa_local_def or_ip_def)
  then have fw: "pa_firewalled P (host_params P w r c) \<longleftrightarrow> \<not> (anKnown (announce_state w r c) \<and> anOpen (announce_state w r c))"
    using assms(3) by (auto simp: pa_firewalled_def announce_state_def Let_def split: prod.splits)
  have full: "paRelayFull (host_params P w r c) = anRelayFull (announce_state w r c)"
    by (simp add: host_params_def announce_state_def Let_def split: prod.splits)
  have "listed_chan P (buildBcst P w r c) (chID (woStore w r)) (anInfo (announce_state w r c)) (anTrack (announce_state w r c))"
    unfolding listed_chan_def
    by (rule exI [of _ "broadcastID (woStore w r)"])
      (simp add: has_buildBcst [OF assms(1,2)] chan_params_def announce_state_def Let_def split: prod.splits)
  moreover have "anReceiving (announce_state w r c) = IsReceiving (woNow w) (woStore w r)"
    "anListeners (announce_state w r c) = TotalListeners (woStats w) (woNow w) (woStore w r)"
    "anRelays (announce_state w r c) = TotalRelays (woStats w) (woNow w) (woStore w r)"
    by (simp_all add: announce_state_def Let_def split: prod.splits)
  ultimately show ?thesis
    using assms fl fw full
    by (simp add: displays_def listed_count_def listed_flag_def has_buildBcst has_host_child sized_def atom_Byte_def
        atom_Int_def yp_atoms atom_laws_data)
qed

lemma has_ReplaceChild:
  assumes "atom_laws P"
  shows "has P (ReplaceChild P a child) t = (if Tag P child = tag_of P t then Some child else has P a t)"
proof -
  have "find (\<lambda>c. Tag P c = k) (filter (\<lambda>c. Tag P c \<noteq> j) xs) = (if j = k then None else find (\<lambda>c. Tag P c = k) xs)" for j k xs
    by (induction xs) auto
  with assms show ?thesis by (auto simp: has_def ReplaceChild_def atom_laws_parent find_append split: option.splits)
qed

lemma off_air_buildBcst:
  assumes "yp_laws P" "sized w r c"
  shows "bcst_chan P (off_air P (buildBcst P w r c)) = Some (chID (woStore w r))"
    and "\<not> listed_flag P (off_air P (buildBcst P w r c)) PCPHostFlags1Recv"
proof -
  let ?host = "BuildHostAtom P (host_params P w r c)"
  let ?flags = "NewByteAtom P (tag_of P PCPHostFlags1) (atom_Byte P ?host PCPHostFlags1 AND NOT (flag_of P PCPHostFlags1Recv))"
  let ?off = "ReplaceChild P ?host ?flags"
  note laws = yp_atoms [OF assms(1)]
  have off: "off_air P (buildBcst P w r c) = ReplaceChild P (buildBcst P w r c) ?off"
    using has_buildBcst(2) [OF assms] by (simp add: off_air_def has_def)
  have tag: "Tag P ?off = tag_of P PCPHost" by (simp add: ReplaceChild_def laws atom_laws_parent Tag_BuildHostAtom)
  show "bcst_chan P (off_air P (buildBcst P w r c)) = Some (chID (woStore w r))"
    using bcst_chan_buildBcst [OF assms]
    by (simp add: bcst_chan_def off has_ReplaceChild laws tag tag_laws_bcst bcst_tags_def)
  have "atom_Byte P ?off PCPHostFlags1 = atom_Byte P ?host PCPHostFlags1 AND NOT (flag_of P PCPHostFlags1Recv)"
    by (simp add: atom_Byte_def [of P ?off] has_ReplaceChild laws atom_laws_data)
  moreover have "(x AND NOT f) AND f = 0" for x f :: byte by (simp add: and.assoc)
  ultimately show "\<not> listed_flag P (off_air P (buildBcst P w r c)) PCPHostFlags1Recv"
    by (simp add: listed_flag_def off has_ReplaceChild laws tag)
qed

section \<open>The passes over the channels\<close>

text \<open>
  \<open>ids\<close> gives the identifiers of the channels, which never change; \<open>R\<close> are the channels that exist
  during the connection.  The manager lists a channel once, and no two with the same identifier; the
  iteration over \<^verbatim>\<open>announced\<close> meets every key.
\<close>

definition world_ok :: "(nat \<Rightarrow> gnuid) \<Rightarrow> nat set \<Rightarrow> 'a world \<Rightarrow> bool" where
  "world_ok ids R w \<longleftrightarrow>
     set (woList w) \<subseteq> R \<and> inj_on ids (set (woList w)) \<and> ids ` R \<subseteq> set (woOrder w) \<and> woNetwork w \<noteq> None \<and>
     (\<forall>r. chID (woStore w r) = ids r \<and> length (ids r) = 16)"

definition live :: "'a world \<Rightarrow> nat set" where
  "live w = {r \<in> set (woList w). isBroadcasting (woStore w r)}"

lemma announce_live_next:
  assumes "announce_live P w force c rs n nxt = (nxt', n', ws, True)" "\<forall>r. chID (woStore w r) = ids r"
  shows "nxt' cid = Some st \<Longrightarrow>
           nxt cid = Some st \<or> (\<exists>r \<in> set rs. isBroadcasting (woStore w r) \<and> ids r = cid \<and> st = announce_state w r c)"
    and "nxt' cid = None \<Longrightarrow> nxt cid = None \<and> (\<forall>r \<in> set rs. isBroadcasting (woStore w r) \<longrightarrow> ids r \<noteq> cid)"
  using assms
  by (induction rs arbitrary: n nxt ws)
    (auto simp: Let_def split: if_splits prod.splits; fastforce split: if_splits)+

lemma announce_live_listing:
  assumes "announce_live P w force c rs n nxt = (nxt', n', ws, True)" "\<forall>r. chID (woStore w r) = ids r"
    and "\<And>r. bcst_chan P (buildBcst P w r c) = Some (ids r)"
  shows "listing P ws cid = Some a \<Longrightarrow> \<exists>r \<in> set rs. isBroadcasting (woStore w r) \<and> ids r = cid \<and> a = buildBcst P w r c"
    and "r \<in> set rs \<Longrightarrow> isBroadcasting (woStore w r) \<Longrightarrow> listing P ws (ids r) = None \<Longrightarrow>
           ycAnnounced c (ids r) = Some (announce_state w r c)"
  using assms
  by (induction rs arbitrary: n nxt ws)
    (auto simp: Let_def listing_Cons split: if_splits prod.splits option.splits; fastforce split: if_splits)+

lemma announce_gone_listing:
  assumes "announce_gone P w c nxt cids n = (ws, True)"
    and "\<forall>cid prev. ycAnnounced c cid = Some prev \<longrightarrow> bcst_chan P (off_air P (buildBcst P w (anChannel prev) c)) = Some cid"
  shows "listing P ws cid = Some a \<Longrightarrow>
           nxt cid = None \<and> (\<exists>prev. ycAnnounced c cid = Some prev \<and> a = off_air P (buildBcst P w (anChannel prev) c))"
    and "cid \<in> set cids \<Longrightarrow> ycAnnounced c cid \<noteq> None \<Longrightarrow> nxt cid = None \<Longrightarrow> listing P ws cid \<noteq> None"
  using assms(1)
  by (induction cids arbitrary: n ws)
    (auto simp: listing_Cons assms(2) split: if_splits prod.splits option.splits; fastforce)+

text \<open>What holds between two passes: \<open>sent\<close> is everything written since the handshake.\<close>

definition told_inv :: "'a pcp \<Rightarrow> (nat \<Rightarrow> gnuid) \<Rightarrow> nat set \<Rightarrow> YPClient \<Rightarrow> 'a list \<Rightarrow> bool" where
  "told_inv P ids R c sent \<longleftrightarrow>
     length (ycSessionID c) = 16 \<and> ycLocalAddress c \<noteq> [] \<and>
     (\<forall>cid st. ycAnnounced c cid = Some st \<longrightarrow>
        anChannel st \<in> R \<and> ids (anChannel st) = cid \<and> (\<exists>a. listing P sent cid = Some a \<and> displays P a cid st)) \<and>
     (\<forall>cid a. ycAnnounced c cid = None \<longrightarrow> listing P sent cid = Some a \<longrightarrow> \<not> listed_flag P a PCPHostFlags1Recv)"

lemma anChannel_state [simp]: "anChannel (announce_state w r c) = r"
  by (simp add: announce_state_def Let_def split: prod.splits)

text \<open>
  What one pass writes, by channel: the first part has nothing but current announcements, and leaves
  out only channels whose announcement is unchanged; the second switches off exactly the channels that
  were announced before and are not any more.
\<close>

lemma sendAnnouncements_parts:
  assumes "yp_laws P" "world_ok ids R w" "told_inv P ids R c sent" "sendAnnouncements P w force c = (c', ws, True)"
  obtains nxt ws1 ws2 where "c' = c\<lparr>ycAnnounced := nxt\<rparr>" "ws = ws1 @ ws2"
    and "\<And>r. r \<in> live w \<Longrightarrow> nxt (ids r) = Some (announce_state w r c)"
    and "\<And>cid. cid \<notin> ids ` live w \<Longrightarrow> nxt cid = None"
    and "\<And>r. r \<in> live w \<Longrightarrow> listing P ws1 (ids r) = Some (buildBcst P w r c) \<or>
           listing P ws1 (ids r) = None \<and> ycAnnounced c (ids r) = Some (announce_state w r c)"
    and "\<And>cid. cid \<notin> ids ` live w \<Longrightarrow> listing P ws1 cid = None"
    and "\<And>r. r \<in> live w \<Longrightarrow> listing P ws2 (ids r) = None"
    and "\<And>cid. cid \<notin> ids ` live w \<Longrightarrow> listing P ws2 cid = None \<Longrightarrow> ycAnnounced c cid = None"
    and "\<And>cid a. listing P ws2 cid = Some a \<Longrightarrow> \<not> listed_flag P a PCPHostFlags1Recv"
proof -
  obtain nxt n ws1 ws2 where one: "announce_live P w force c (woList w) 0 Map.empty = (nxt, n, ws1, True)"
    and two: "announce_gone P w c nxt (woOrder w) n = (ws2, True)"
    and c': "c' = c\<lparr>ycAnnounced := nxt\<rparr>" and ws: "ws = ws1 @ ws2"
    using assms(4) by (auto simp: sendAnnouncements_def split: prod.splits if_splits)
  have ids: "\<forall>r. chID (woStore w r) = ids r" and inj: "inj_on ids (live w)" and order: "ids ` R \<subseteq> set (woOrder w)"
    using assms(2) by (auto simp: world_ok_def live_def inj_on_def)
  have old: "anChannel st \<in> R \<and> ids (anChannel st) = cid" if "ycAnnounced c cid = Some st" for cid st
    using assms(3) that by (simp add: told_inv_def)
  have sz: "sized w r c" for r using assms(2,3) by (simp add: sized_def world_ok_def told_inv_def)
  note live = announce_live_next [OF one ids]
    announce_live_listing [OF one ids bcst_chan_buildBcst [OF assms(1) sz, unfolded ids [rule_format]]]
  have "\<forall>cid prev. ycAnnounced c cid = Some prev \<longrightarrow> bcst_chan P (off_air P (buildBcst P w (anChannel prev) c)) = Some cid"
    using off_air_buildBcst(1) [OF assms(1) sz] old ids by simp
  note gone = announce_gone_listing [OF two this]
  have nxt: "nxt (ids r) = Some (announce_state w r c)" if "r \<in> live w" for r
    using live(1,2) [of "ids r"] inj that by (cases "nxt (ids r)") (fastforce simp: live_def inj_on_def)+
  have none: "nxt cid = None" if "cid \<notin> ids ` live w" for cid
    using live(1) [of cid] that by (cases "nxt cid") (auto simp: live_def)
  show thesis
  proof (rule that [OF c' ws nxt none])
    show "listing P ws1 (ids r) = Some (buildBcst P w r c) \<or>
        listing P ws1 (ids r) = None \<and> ycAnnounced c (ids r) = Some (announce_state w r c)" if "r \<in> live w" for r
      using live(3) [of "ids r"] live(4) [of r] inj that
      by (cases "listing P ws1 (ids r)") (fastforce simp: live_def inj_on_def)+
    show "listing P ws1 cid = None" if "cid \<notin> ids ` live w" for cid
      using live(3) [of cid] that by (cases "listing P ws1 cid") (auto simp: live_def)
    show "listing P ws2 (ids r) = None" if "r \<in> live w" for r
      using gone(1) [of "ids r"] nxt [OF that] by (cases "listing P ws2 (ids r)") auto
    show "ycAnnounced c cid = None" if "cid \<notin> ids ` live w" "listing P ws2 cid = None" for cid
      using gone(2) [of cid] none [OF that(1)] that(2) order old by (cases "ycAnnounced c cid") auto
    show "\<not> listed_flag P a PCPHostFlags1Recv" if "listing P ws2 cid = Some a" for cid a
      using gone(1) [OF that] off_air_buildBcst(2) [OF assms(1) sz] by auto
  qed
qed

lemma sendAnnouncements_told:
  assumes "yp_laws P" "world_ok ids R w" "told_inv P ids R c sent" "sendAnnouncements P w force c = (c', ws, True)"
  shows "told_inv P ids R c' (sent @ ws)"
    and "r \<in> live w \<Longrightarrow> ycAnnounced c' (ids r) = Some (announce_state w r c)"
    and "cid \<notin> ids ` live w \<Longrightarrow> ycAnnounced c' cid = None"
proof -
  obtain nxt ws1 ws2 where c': "c' = c\<lparr>ycAnnounced := nxt\<rparr>" and ws: "ws = ws1 @ ws2"
    and nxt: "\<And>r. r \<in> live w \<Longrightarrow> nxt (ids r) = Some (announce_state w r c)"
      "\<And>cid. cid \<notin> ids ` live w \<Longrightarrow> nxt cid = None"
    and one: "\<And>r. r \<in> live w \<Longrightarrow> listing P ws1 (ids r) = Some (buildBcst P w r c) \<or>
           listing P ws1 (ids r) = None \<and> ycAnnounced c (ids r) = Some (announce_state w r c)"
      "\<And>cid. cid \<notin> ids ` live w \<Longrightarrow> listing P ws1 cid = None"
    and two: "\<And>r. r \<in> live w \<Longrightarrow> listing P ws2 (ids r) = None"
      "\<And>cid. cid \<notin> ids ` live w \<Longrightarrow> listing P ws2 cid = None \<Longrightarrow> ycAnnounced c cid = None"
      "\<And>cid a. listing P ws2 cid = Some a \<Longrightarrow> \<not> listed_flag P a PCPHostFlags1Recv"
    by (rule sendAnnouncements_parts [OF assms]) (erule that)
  have sz: "sized w r c" "woNetwork w \<noteq> None" "ycLocalAddress c \<noteq> []" "chID (woStore w r) = ids r" for r
    using assms(2,3) by (simp_all add: sized_def world_ok_def told_inv_def)
  have on: "\<exists>a. listing P (sent @ ws) (ids r) = Some a \<and> displays P a (ids r) (announce_state w r c)" if "r \<in> live w" for r
    using one(1) [OF that] two(1) [OF that] assms(3) buildBcst_displays [OF assms(1) sz(1-3), of r]
    by (auto simp: ws listing_append told_inv_def sz(4) split: option.splits)
  have off: "\<not> listed_flag P a PCPHostFlags1Recv" if "cid \<notin> ids ` live w" "listing P (sent @ ws) cid = Some a" for cid a
    using that(2) one(2) [OF that(1)] two(2) [OF that(1)] two(3) [of cid] assms(3)
    by (cases "listing P ws2 cid") (auto simp: ws listing_append told_inv_def)
  have "anChannel st \<in> R \<and> ids (anChannel st) = cid \<and> (\<exists>a. listing P (sent @ ws) cid = Some a \<and> displays P a cid st)"
    if st: "nxt cid = Some st" for cid st
  proof -
    obtain r where "r \<in> live w" "cid = ids r" "st = announce_state w r c" using nxt st by (metis imageE option.distinct(1) option.inject)
    moreover have "live w \<subseteq> R" using assms(2) by (auto simp: world_ok_def live_def)
    ultimately show ?thesis using on [of r] by auto
  qed
  moreover have "\<not> listed_flag P a PCPHostFlags1Recv" if "nxt cid = None" "listing P (sent @ ws) cid = Some a" for cid a
    using nxt(1) that by (intro off) auto
  ultimately show "told_inv P ids R c' (sent @ ws)"
    using assms(3) by (simp add: told_inv_def c')
  show "r \<in> live w \<Longrightarrow> ycAnnounced c' (ids r) = Some (announce_state w r c)"
    and "cid \<notin> ids ` live w \<Longrightarrow> ycAnnounced c' cid = None"
    using nxt by (simp_all add: c')
qed

section \<open>The connection keeps the YP up to date\<close>

lemma told_inv_cong:
  "told_inv P ids R c sent \<Longrightarrow> told_inv P ids R (c\<lparr>ycBump := b\<rparr>) sent"
  by (simp add: told_inv_def)

lemma yp_step_told:
  assumes "yp_laws P" "world_ok ids R w" "told_inv P ids R c sent" "yp_step P w e c = ((YGoOn, c', ws), renew)"
  shows "told_inv P ids R c' (sent @ ws)"
proof -
  have pass: "told_inv P ids R c' (sent @ ws)" if "told_inv P ids R d sent" "sendAnnouncements P w force d = (c', ws, True)" for d force
    by (rule sendAnnouncements_told(1) [OF assms(1,2) that])
  show ?thesis
    using assms(3,4) pass [OF assms(3)] pass [OF told_inv_cong [OF assms(3)]]
    by (auto simp: yp_step_def after_send_def sendAllBcst_def split: yp_event.splits prod.splits if_splits)
qed

lemma yp_loop_told:
  assumes "yp_laws P" "\<forall>(w, e) \<in> set es. world_ok ids R w" "told_inv P ids R c sent" "yp_loop P es period c = (YGoOn, c', ws, p)"
  shows "told_inv P ids R c' (sent @ ws)"
  using assms(2-4)
proof (induction es arbitrary: period c sent ws)
  case (Cons x es)
  obtain w e where x: "x = (w, e)" by fastforce
  obtain c1 ws1 renew ws2 period1 where step: "yp_step P w e c = ((YGoOn, c1, ws1), renew)"
    and rest: "yp_loop P es period1 c1 = (YGoOn, c', ws2, p)" and ws: "ws = ws1 @ ws2"
    using Cons.prems(3) by (auto simp: x Let_def split: prod.splits if_splits)
  have "told_inv P ids R c1 (sent @ ws1)"
    by (rule yp_step_told [OF assms(1) _ Cons.prems(2) step]) (use Cons.prems(1) x in auto)
  from Cons.IH [OF _ this rest] show ?case using Cons.prems(1) by (simp add: ws)
qed simp

text \<open>
  C34.  The directory shows the current state.  After the first announcement and any events of a
  connection that is still up, a pass over the channels leaves the YP with this: for every broadcasting
  channel the last broadcast atom sent for it shows the channel's present name and track, its listener and relay
  counts, whether it receives data, whether it has free relay slots and whether the node's port is closed; and
  for every other channel ever announced the last atom says that it is not receiving.  Channels that did not change
  are not sent again for this.
\<close>

theorem yp_listing_current:
  assumes "yp_laws P" "\<forall>(v, e) \<in> set es. world_ok ids R v" "world_ok ids R w0" "world_ok ids R w"
    and "ycAnnounced c0 = Map.empty" "length (ycSessionID c0) = 16" "ycLocalAddress c0 \<noteq> []"
    and "sendAllBcst P w0 c0 = (c1, ws0, True)" "yp_loop P es period c1 = (YGoOn, c2, ws1, p)"
    and "sendAnnouncements P w force c2 = (c3, ws2, True)"
  shows "(\<forall>r \<in> live w. \<exists>a. listing P (ws0 @ ws1 @ ws2) (ids r) = Some a \<and> displays P a (ids r) (announce_state w r c2)) \<and>
         (\<forall>cid a. cid \<notin> ids ` live w \<longrightarrow> listing P (ws0 @ ws1 @ ws2) cid = Some a \<longrightarrow> \<not> listed_flag P a PCPHostFlags1Recv)"
proof -
  have "told_inv P ids R c0 []" using assms(5-7) by (simp add: told_inv_def)
  then have "told_inv P ids R c1 ws0"
    using sendAnnouncements_told(1) [OF assms(1,3)] assms(8) by (simp add: sendAllBcst_def) (metis append_Nil)
  then have "told_inv P ids R c2 (ws0 @ ws1)" by (rule yp_loop_told [OF assms(1,2) _ assms(9)])
  note last = sendAnnouncements_told [OF assms(1,4) this assms(10)]
  then show ?thesis unfolding told_inv_def append_assoc by metis
qed

section \<open>Retrying\<close>

text \<open>Whether the attempts completed their handshakes, and the pauses that follow from that.\<close>

fun outcomes :: "'a pcp \<Rightarrow> 'a yp_attempt list \<Rightarrow> YPClient \<Rightarrow> bool list" where
  "outcomes P [] c = []"
| "outcomes P (a # as) c = (case yp_run P (yaLink a) c of (conn, fin, c', rest) \<Rightarrow> conn # outcomes P as c')"

fun pauses :: "int \<Rightarrow> bool list \<Rightarrow> int list" where
  "pauses delay [] = []"
| "pauses delay (b # bs) = (let p = (if b then retryInitial else delay) in p # pauses (min retryMax (p * 2)) bs)"

lemma yp_Run_pauses:
  "yp_Run P as delay c = (st, ds, c', sents) \<Longrightarrow> ds = take (length ds) (pauses delay (outcomes P as c))"
proof (induction as arbitrary: delay c st ds sents)
  case (Cons a as)
  have clip: "(if retryMax < x then retryMax else x) = min retryMax x" for x by simp
  show ?case using Cons.prems
    by (auto simp: Let_def clip split: option.splits bool.splits prod.splits if_splits dest!: Cons.IH)
qed simp

text \<open>The failed attempts at the end of a list of outcomes.\<close>

definition failures :: "bool list \<Rightarrow> nat" where
  "failures bs = length (takeWhile Not (rev bs))"

lemma failures_Cons:
  "failures (b # bs) = (if failures bs = length bs then length bs + (if b then 0 else 1) else failures bs)"
proof (cases "\<forall>x \<in> set bs. \<not> x")
  case True
  then have "length (takeWhile Not (rev bs)) = length bs" by (metis length_rev set_rev takeWhile_eq_all_conv)
  moreover have "takeWhile Not (rev bs @ [b]) = rev bs @ takeWhile Not [b]" by (rule takeWhile_append2) (use True in auto)
  ultimately show ?thesis by (simp add: failures_def)
next
  case False
  then obtain x where "x \<in> set (rev bs)" "\<not> \<not> x" by auto
  then have "takeWhile Not (rev bs @ [b]) = takeWhile Not (rev bs)" by (rule takeWhile_append1)
  moreover have "length (takeWhile Not (rev bs)) \<noteq> length bs"
  proof
    assume "length (takeWhile Not (rev bs)) = length bs"
    then have "takeWhile Not (rev bs) = rev bs" by (metis length_rev order_refl takeWhile_eq_take take_all)
    then show False using False by (metis set_rev takeWhile_eq_all_conv)
  qed
  ultimately show ?thesis by (simp add: failures_def)
qed

lemma failures_take: "failures (take n bs) \<le> n"
  using length_takeWhile_le [of Not "rev (take n bs)"] by (simp add: failures_def)

lemma retry_bounds: "0 < retryInitial" "retryInitial \<le> retryMax"
  by (simp_all add: retryInitial_def retryMax_def)

lemma pauses_nth:
  assumes "i < length bs"
  shows "pauses (min retryMax (retryInitial * 2 ^ j)) bs ! i =
           min retryMax (retryInitial * 2 ^ (if failures (take (Suc i) bs) = Suc i then j + i else failures (take (Suc i) bs)))"
  using assms
proof (induction bs arbitrary: i j)
  case (Cons b bs)
  let ?j = "if b then 0 else j"
  have p: "(if b then retryInitial else min retryMax (retryInitial * 2 ^ j)) = min retryMax (retryInitial * 2 ^ ?j)"
    using retry_bounds by simp
  have "min retryMax (min retryMax x * 2) = min retryMax (x * 2)" if "0 \<le> x" for x
    using retry_bounds that by (simp add: min_def)
  then have nxt: "min retryMax (min retryMax (retryInitial * 2 ^ ?j) * 2) = min retryMax (retryInitial * 2 ^ Suc ?j)"
    using retry_bounds by (simp add: mult.commute mult.left_commute)
  show ?case
  proof (cases i)
    case 0
    then show ?thesis using retry_bounds by (simp add: failures_def Let_def)
  next
    case (Suc k)
    then show ?thesis
      using Cons.IH [of k "Suc ?j"] Cons.prems failures_take [of "Suc k" bs]
      by (simp del: power_Suc add: p nxt Let_def failures_Cons min_absorb2)
  qed
qed simp

text \<open>
  Retrying.  Whatever the connection attempts do, the pause after an attempt is five seconds,
  doubled once for every failed attempt since the last completed handshake (before any has been
  completed, since the first), and never more than two minutes.
\<close>

theorem yp_retry_pauses:
  assumes "yp_Run P as retryInitial c = (st, ds, c', sents)" "i < length ds"
  shows "ds ! i = min (120 * second) (5 * second * 2 ^
           (let k = failures (take (Suc i) (outcomes P as c)) in if k = Suc i then i else k))"
proof -
  have ds: "ds = take (length ds) (pauses retryInitial (outcomes P as c))" by (rule yp_Run_pauses [OF assms(1)])
  have len: "length (pauses d bs) = length bs" for d bs by (induction bs arbitrary: d) (simp_all add: Let_def)
  have "i < length (outcomes P as c)" using ds assms(2) len by (metis length_take min_less_iff_conj)
  then have "pauses retryInitial (outcomes P as c) ! i =
      min retryMax (retryInitial * 2 ^ (let k = failures (take (Suc i) (outcomes P as c)) in if k = Suc i then i else k))"
    using pauses_nth [of i "outcomes P as c" 0] retry_bounds by (simp add: Let_def)
  then show ?thesis using ds assms(2) by (metis nth_take retryInitial_def retryMax_def)
qed

section \<open>A node that only relays\<close>

lemma yp_handshake_address:
  "yp_handshake P ins interval c net = (res, c', net', ips) \<Longrightarrow>
     ycGlobalIP c' = (if ips = [] then ycGlobalIP c else last ips) \<and> 0 \<notin> set ips"
proof (induction ins arbitrary: interval c net ips)
  case (Cons x ins)
  show ?case
  proof (cases x)
    case (Recv t a)
    show ?thesis using Cons.prems
      by (auto simp: Recv handleOleh_def Let_def split: if_splits prod.splits dest!: Cons.IH)
  qed (use Cons.prems in auto)
qed simp

text \<open>
  A node that only relays connects to learn its address and no longer.  While neither the client nor
  the network state knows an address, any channel is a reason to connect.  When no channel is
  broadcast, a completed connection writes the greeting and a quit and nothing else and ends without an error;
  and once the YP has told an address, only a broadcasting channel is a reason to connect again.
\<close>

theorem relay_only_learns_address:
  assumes "yp_run P lk c = (True, fin, c', net', sent, ips)" "\<not> hasBroadcastingChannel (ylWorld lk)"
  shows "fin = YClean \<and> ycAnnounced c' = Map.empty \<and>
         prefix sent [NewIntAtom P (tag_of P PCPConnect) (ProtocolVersion (AddrIP (ylLocal lk))),
           buildHelo P (ylNetwork lk) (open_conn P lk c), quit_atom P] \<and>
         (ips \<noteq> [] \<longrightarrow> (\<forall>w. shouldConnect w c' \<longleftrightarrow> live w \<noteq> {})) \<and>
         (ycGlobalIP c' = 0 \<longrightarrow> (\<forall>w. fst (Status (woNetwork w) (ycLocalAddress c')) = [] \<longrightarrow> shouldConnect w c' \<longleftrightarrow> woList w \<noteq> []))"
proof -
  obtain interval rest c2 where hs: "yp_handshake P (ylInbox lk) defaultInterval (open_conn P lk c) (ylNetwork lk) = (Some (interval, rest), c2, net', ips)"
    and c': "c' = c2\<lparr>ycAnnounced := Map.empty\<rparr>" and fin: "fin = YClean"
    and sent: "sent = [NewIntAtom P (tag_of P PCPConnect) (ProtocolVersion (AddrIP (ylLocal lk))), buildHelo P (ylNetwork lk) (open_conn P lk c)]
      @ (if woOk (ylWorld lk) 0 then [quit_atom P] else [])"
    using assms by (auto simp: yp_run_def Let_def hasBroadcastingChannel_def split: if_splits prod.splits option.splits)
  have "ycGlobalIP c' \<noteq> 0" if "ips \<noteq> []"
  proof -
    have "ycGlobalIP c' = last ips" "0 \<notin> set ips" using yp_handshake_address [OF hs] that by (auto simp: c')
    then show ?thesis using last_in_set [OF that] by metis
  qed
  then show ?thesis
    using fin by (auto simp: c' sent shouldConnect_def list_ex_iff live_def)
qed

section \<open>Examples\<close>

definition demo_listed :: "bool \<Rightarrow> wire_atom Channel" where
  "demo_listed b = (New 0 (replicate 16 1) (replicate 16 2) 8)\<lparr>isBroadcasting := b\<rparr>"

definition demo_world :: "bool \<Rightarrow> wire_atom world" where
  "demo_world b = \<lparr>woNow = 100 * second, woList = [0], woStore = (\<lambda>_. demo_listed b), woNetwork = Some NetworkState0,
     woCheck = (\<lambda>_. (False, False)), woStats = [], woOrder = [replicate 16 1], woLookupIP = (\<lambda>_. None),
     woLookupPort = (\<lambda>_. None), woOk = (\<lambda>_. True)\<rparr>"

definition demo_yp :: YPClient where
  "demo_yp = (NewYPClient ''yp:7144'' (replicate 16 3) (replicate 16 4) 0 0 0)\<lparr>ycLocalAddress := [10, 0, 0, 1]\<rparr>"

lemma demo_world_ok: "world_ok (\<lambda>_. replicate 16 1) {0} (demo_world b)"
  by (simp add: world_ok_def demo_world_def demo_listed_def New_def Let_def)

definition demo_first :: "YPClient \<times> wire_atom list \<times> bool" where
  "demo_first = sendAllBcst wire_pcp (demo_world True) demo_yp"

definition demo_second :: "YPClient \<times> wire_atom list \<times> bool" where
  "demo_second = sendAnnouncements wire_pcp (demo_world False) False (fst demo_first)"

theorem yp_listing_current_witness:
  "map_option (\<lambda>a. listed_flag wire_pcp a PCPHostFlags1Recv)
     (listing wire_pcp (fst (snd demo_first) @ [] @ fst (snd demo_second)) (replicate 16 1)) \<noteq> Some True"
proof -
  obtain c1 ws0 g0 where one: "sendAllBcst wire_pcp (demo_world True) demo_yp = (c1, ws0, g0)" by (metis prod_cases3)
  obtain c2 ws1 g1 where two: "sendAnnouncements wire_pcp (demo_world False) False c1 = (c2, ws1, g1)" by (metis prod_cases3)
  have g0 g1 using one two
    by (auto simp: sendAllBcst_def sendAnnouncements_def demo_world_def Let_def split: prod.splits if_splits option.splits)
  moreover have "yp_laws wire_pcp" by (simp add: yp_laws_def)
  moreover have "live (demo_world False) = {}" by (simp add: live_def demo_world_def demo_listed_def)
  ultimately show ?thesis
    using yp_listing_current [of wire_pcp "[]" "\<lambda>_. replicate 16 1" "{0}" "demo_world True" "demo_world False" demo_yp c1 ws0 0 c1 "[]" 0 False c2 ws1]
      demo_world_ok one two
    by (auto simp: demo_first_def demo_second_def demo_yp_def NewYPClient_def)
qed

definition demo_yp_link :: "bool \<Rightarrow> wire_atom yp_link" where
  "demo_yp_link up = \<lparr>ylDial = up, ylLocal = TCPAddr [10, 0, 0, 1] 40000, ylWriteConnect = True, ylWriteHelo = True,
     ylNetwork = Some NetworkState0,
     ylInbox = [Recv 1 (WAtom (pad4 ''oleh'') [] [WAtom (pad4 ''rip'') [1, 2, 3, 4] []]), Recv 2 (WAtom (pad4 ''ok'') [1, 0, 0, 0] [])],
     ylWorld = demo_world False, ylEvents = []\<rparr>"

definition demo_yp_down :: "wire_atom yp_attempt" where
  "demo_yp_down = \<lparr>yaPolls = [(demo_world True, False)], yaLink = demo_yp_link False, yaStopped = False\<rparr>"

theorem yp_retry_pauses_witness:
  "fst (snd (yp_Run wire_pcp [demo_yp_down, demo_yp_down] retryInitial demo_yp)) ! 1 = 10 * second"
proof -
  obtain st ds c' sents where run: "yp_Run wire_pcp [demo_yp_down, demo_yp_down] retryInitial demo_yp = (st, ds, c', sents)"
    by (metis prod_cases4)
  have w: "shouldConnect (demo_world True) demo_yp"
    by (simp add: shouldConnect_def demo_world_def demo_listed_def)
  have r: "yp_run wire_pcp (demo_yp_link False) demo_yp = (False, YError, demo_yp, Some NetworkState0, [], [])"
    by (simp add: yp_run_def demo_yp_link_def)
  have "length ds = 2" using run by (auto simp: demo_yp_down_def w r Let_def)
  moreover have "outcomes wire_pcp [demo_yp_down, demo_yp_down] demo_yp = [False, False]" by (simp add: demo_yp_down_def r)
  ultimately show ?thesis
    using yp_retry_pauses [OF run, of 1] run by (simp add: failures_def Let_def)
qed

lemma demo_oleh_address:
  "ParseHelo wire_pcp (WAtom (pad4 ''oleh'') [] [WAtom (pad4 ''rip'') [1, 2, 3, 4] []]) = (oleh, ok) \<Longrightarrow> ok \<and> hpRemoteIP oleh \<noteq> 0"
proof -
  have "To4 (v4prefix @ [4, 3, 2, 1]) = [4, 3, 2, 1]" by (simp add: To4_def v4prefix_def)
  moreover have "un_le4 [1, 2, 3, 4] \<noteq> 0" by (simp add: un_le4_def)
  moreover have "le4 (un_le4 [1, 2, 3, 4]) = [1, 2, 3, 4]"
  proof -
    have "le_bytes 4 n = le_bytes (Suc (Suc (Suc (Suc 0)))) n" for n by (simp only: eval_nat_numeral BitM.simps)
    then show ?thesis by (simp add: un_le4_def le4_def)
  qed
  ultimately show "ParseHelo wire_pcp (WAtom (pad4 ''oleh'') [] [WAtom (pad4 ''rip'') [1, 2, 3, 4] []]) = (oleh, ok) \<Longrightarrow> ok \<and> hpRemoteIP oleh \<noteq> 0"
    by (auto simp: ParseHelo_def wire_sel AtomIP_def un_wire_helo_def Let_def)
qed

lemma demo_ok_tag: "pad4 ''ok'' \<noteq> pad4 ''oleh''" "pad4 ''ok'' \<noteq> pad4 ''root''"
  by (simp_all add: pad4_def ascii_def)

lemma demo_handshake:
  "\<exists>c' net' x. yp_handshake wire_pcp (ylInbox (demo_yp_link True)) k c net = (Some (k, []), c', net', [x])"
  by (cases "ParseHelo wire_pcp (WAtom (pad4 ''oleh'') [] [WAtom (pad4 ''rip'') [1, 2, 3, 4] []])")
    (auto simp: demo_yp_link_def wire_sel handleOleh_def Let_def demo_ok_tag dest!: demo_oleh_address)

theorem relay_only_learns_address_witness:
  "fst (yp_run wire_pcp (demo_yp_link True) demo_yp) \<and>
   \<not> shouldConnect (demo_world False) (fst (snd (snd (yp_run wire_pcp (demo_yp_link True) demo_yp))))"
proof -
  obtain c2 net2 x where hs: "yp_handshake wire_pcp (ylInbox (demo_yp_link True)) defaultInterval
      (open_conn wire_pcp (demo_yp_link True) demo_yp) (ylNetwork (demo_yp_link True)) = (Some (defaultInterval, []), c2, net2, [x])"
    using demo_handshake by blast
  have quiet: "\<not> hasBroadcastingChannel (ylWorld (demo_yp_link True))" "live (demo_world False) = {}"
    "\<not> hasBroadcastingChannel ((ylWorld (demo_yp_link True))\<lparr>woNetwork := net2\<rparr>)"
    "ylDial (demo_yp_link True)" "ylWriteConnect (demo_yp_link True)" "ylWriteHelo (demo_yp_link True)"
    by (simp_all add: demo_yp_link_def demo_world_def demo_listed_def hasBroadcastingChannel_def live_def)
  obtain fin c' net' sent where run: "yp_run wire_pcp (demo_yp_link True) demo_yp = (True, fin, c', net', sent, [x])"
    using hs quiet by (auto simp: yp_run_def Let_def)
  have "shouldConnect (demo_world False) c' \<longleftrightarrow> live (demo_world False) \<noteq> {}"
    using relay_only_learns_address [OF run quiet(1)] by blast
  then show ?thesis using run quiet(2) by simp
qed

end
