(* ===== verification/Go_Url.thy ===== *)
theory Go_Url
  imports Go_Utf8
begin

text \<open>
  Go's \<^verbatim>\<open>net/url\<close>: \<^verbatim>\<open>Parse\<close> with the fields the code reads, \<^verbatim>\<open>Hostname\<close>, \<^verbatim>\<open>Port\<close> and \<^verbatim>\<open>ParseQuery\<close>; and
  \<^verbatim>\<open>strings.Cut\<close>, \<^verbatim>\<open>strings.Split\<close> and \<^verbatim>\<open>strings.ToLower\<close> as far as a comparison with ASCII text can tell.
\<close>

section \<open>Cutting strings\<close>

definition HasSuffix :: "string \<Rightarrow> string \<Rightarrow> bool" where
  "HasSuffix s p \<longleftrightarrow> length p \<le> length s \<and> drop (length s - length p) s = p"

definition TrimSuffix :: "string \<Rightarrow> string \<Rightarrow> string" where
  "TrimSuffix s p = (if HasSuffix s p then take (length s - length p) s else s)"

definition TrimPrefix :: "string \<Rightarrow> string \<Rightarrow> string" where
  "TrimPrefix s p = (if HasPrefix s p then drop (length p) s else s)"

definition Contains :: "string \<Rightarrow> string \<Rightarrow> bool" where
  "Contains s p \<longleftrightarrow> Index s p \<noteq> None"

text \<open>\<^verbatim>\<open>strings.Cut\<close>: what is before and after the first separator, and whether there was one.\<close>

definition Cut :: "string \<Rightarrow> string \<Rightarrow> string \<times> string \<times> bool" where
  "Cut s sep = (case Index s sep of None \<Rightarrow> (s, [], False) | Some i \<Rightarrow> (take i s, drop (i + length sep) s, True))"

lemma Index_bound: "Index s p = Some i \<Longrightarrow> i + length p \<le> length s"
proof (induction s arbitrary: i)
  case (Cons c s)
  have "length p \<le> length (c # s)" if "HasPrefix (c # s) p" using that by (metis HasPrefix_iff le_add1 length_append)
  then show ?case using Cons by (auto split: if_splits)
qed (simp split: if_splits)

text \<open>\<^verbatim>\<open>strings.Split\<close> for a separator that is not empty.\<close>

function Split :: "string \<Rightarrow> string \<Rightarrow> string list" where
  "Split s sep =
     (case Index s sep of
        None \<Rightarrow> [s]
      | Some i \<Rightarrow> if sep = [] then [s] else take i s # Split (drop (i + length sep) s) sep)"
  by pat_completeness auto
termination
proof (relation "measure (\<lambda>(s, sep). length s)", goal_cases)
  case (2 s sep i)
  then have "0 < length sep" "i + length sep \<le> length s" by (auto dest: Index_bound)
  then have "length s - (i + length sep) < length s" by linarith
  then show ?case by simp
qed simp

declare Split.simps [simp del]

definition ToLower :: "string \<Rightarrow> string" where
  "ToLower s = map lower_char s"

text \<open>
  Two letters outside ASCII have a lower case inside it: the dotted capital I and the Kelvin sign.
\<close>

fun lower_ascii :: "string \<Rightarrow> string" where
  "lower_ascii [] = []"
| "lower_ascii (c # s) =
     (if char_code c = 0xC4 \<and> s \<noteq> [] \<and> char_code (hd s) = 0xB0 then CHR ''i'' # lower_ascii (tl s)
      else if char_code c = 0xE2 \<and> length s \<ge> 2 \<and> char_code (hd s) = 0x84 \<and> char_code (hd (tl s)) = 0xAA
      then CHR ''k'' # lower_ascii (tl (tl s))
      else lower_char c # lower_ascii s)"

section \<open>Escapes\<close>

datatype url_mode = EncHost | EncZone | EncOther | EncQuery

definition is_alpha :: "char \<Rightarrow> bool" where
  "is_alpha c \<longleftrightarrow> (let n = char_code c in (65 \<le> n \<and> n \<le> 90) \<or> (97 \<le> n \<and> n \<le> 122))"

definition is_alnum :: "char \<Rightarrow> bool" where
  "is_alnum c \<longleftrightarrow> is_alpha c \<or> is_digit c"

text \<open>\<^verbatim>\<open>shouldEscape\<close> in a host.\<close>

definition host_escape :: "char \<Rightarrow> bool" where
  "host_escape c \<longleftrightarrow> \<not> is_alnum c \<and> c \<notin> set ''!$&()*+,;=:[]<>-_.~'' \<and> char_code c \<noteq> 34 \<and> char_code c \<noteq> 39"

fun unescape :: "url_mode \<Rightarrow> string \<Rightarrow> string option" where
  "unescape m [] = Some []"
| "unescape m (c # s) =
     (if c = CHR ''%'' then
        (case s of
           h # l # r \<Rightarrow>
             (case (hex_val h, hex_val l) of
                (Some a, Some b) \<Rightarrow>
                  let v = char_of (16 * a + b); pct = (h = CHR ''2'' \<and> l = CHR ''5'') in
                  if m = EncHost \<and> a < 8 \<and> \<not> pct then None
                  else if m = EncZone \<and> \<not> pct \<and> v \<noteq> CHR '' '' \<and> host_escape v then None
                  else map_option ((#) v) (unescape m r)
              | _ \<Rightarrow> None)
         | _ \<Rightarrow> None)
      else if (m = EncHost \<or> m = EncZone) \<and> char_code c < 128 \<and> host_escape c then None
      else map_option ((#) (if c = CHR ''+'' \<and> m = EncQuery then CHR '' '' else c)) (unescape m s))"

section \<open>Parse\<close>

record URL =
  uScheme :: string
  uUser :: bool
  uHost :: string
  uPath :: string
  uRawQuery :: string
  uFragment :: string

definition URL0 :: URL where
  "URL0 = \<lparr>uScheme = [], uUser = False, uHost = [], uPath = [], uRawQuery = [], uFragment = []\<rparr>"

text \<open>\<^verbatim>\<open>getScheme\<close>: the scheme and the rest; a colon at the start is an error.\<close>

fun get_scheme :: "string \<Rightarrow> string \<Rightarrow> string \<Rightarrow> (string \<times> string) option" where
  "get_scheme raw acc [] = Some ([], raw)"
| "get_scheme raw acc (c # s) =
     (if is_alpha c then get_scheme raw (acc @ [c]) s
      else if is_digit c \<or> c \<in> set ''+-.'' then (if acc = [] then Some ([], raw) else get_scheme raw (acc @ [c]) s)
      else if c = CHR '':'' then (if acc = [] then None else Some (acc, s))
      else Some ([], raw))"

definition validOptionalPort :: "string \<Rightarrow> bool" where
  "validOptionalPort p \<longleftrightarrow> p = [] \<or> (hd p = CHR '':'' \<and> list_all is_digit (tl p))"

definition parseHost :: "string \<Rightarrow> string option" where
  "parseHost h =
     (if HasPrefix h ''['' then
        (case LastIndexByte h CHR '']'' of
           None \<Rightarrow> None
         | Some i \<Rightarrow>
             if \<not> validOptionalPort (drop (Suc i) h) then None
             else case Index (take i h) ''%25'' of
                    None \<Rightarrow> unescape EncHost h
                  | Some z \<Rightarrow>
                      (case (unescape EncHost (take z h), unescape EncZone (drop z (take i h)), unescape EncHost (drop i h)) of
                         (Some a, Some b, Some c) \<Rightarrow> Some (a @ b @ c)
                       | _ \<Rightarrow> None))
      else case LastIndexByte h CHR '':'' of
             None \<Rightarrow> unescape EncHost h
           | Some i \<Rightarrow> if validOptionalPort (drop i h) then unescape EncHost h else None)"

definition valid_userinfo :: "string \<Rightarrow> bool" where
  "valid_userinfo s \<longleftrightarrow> list_all (\<lambda>c. is_alnum c \<or> c \<in> set ''-._:~!$&()*+,;=%@'' \<or> char_code c = 39) s"

text \<open>\<^verbatim>\<open>parseAuthority\<close>: whether there is user information, and the host.\<close>

definition parseAuthority :: "string \<Rightarrow> (bool \<times> string) option" where
  "parseAuthority a =
     (case LastIndexByte a CHR ''@'' of
        None \<Rightarrow> map_option (Pair False) (parseHost a)
      | Some i \<Rightarrow>
          (case parseHost (drop (Suc i) a) of
             None \<Rightarrow> None
           | Some h \<Rightarrow>
               let u = take i a; parts = (case Cut u '':'' of (n, p, _) \<Rightarrow> [n, p]) in
               if valid_userinfo u \<and> list_all (\<lambda>x. unescape EncOther x \<noteq> None) parts then Some (True, h) else None))"

definition url_parse :: "string \<Rightarrow> URL option" where
  "url_parse raw =
     (if list_ex (\<lambda>c. char_code c < 32 \<or> char_code c = 127) raw then None
      else if raw = ''*'' then Some (URL0\<lparr>uPath := ''*''\<rparr>)
      else case get_scheme raw [] raw of
        None \<Rightarrow> None
      | Some (scheme0, rest0) \<Rightarrow>
          let scheme = ToLower scheme0;
              (rest, query) = (if HasSuffix rest0 ''?'' \<and> length (filter ((=) CHR ''?'') rest0) = 1
                               then (take (length rest0 - 1) rest0, [])
                               else case Cut rest0 ''?'' of (r, q, _) \<Rightarrow> (r, q));
              u = URL0\<lparr>uScheme := scheme, uRawQuery := query\<rparr>
          in if \<not> HasPrefix rest ''/'' \<and> scheme \<noteq> [] then Some u
             else if \<not> HasPrefix rest ''/'' \<and> CHR '':'' \<in> set (fst (Cut rest ''/'')) then None
             else if (scheme \<noteq> [] \<or> \<not> HasPrefix rest ''///'') \<and> HasPrefix rest ''//'' then
               (let a = drop 2 rest; i = (case Index a ''/'' of None \<Rightarrow> length a | Some i \<Rightarrow> i) in
                case (parseAuthority (take i a), unescape EncOther (drop i a)) of
                  (Some (user, host), Some path) \<Rightarrow> Some (u\<lparr>uUser := user, uHost := host, uPath := path\<rparr>)
                | _ \<Rightarrow> None)
             else map_option (\<lambda>path. u\<lparr>uPath := path\<rparr>) (unescape EncOther rest))"

definition url_Parse :: "string \<Rightarrow> URL option" where
  "url_Parse raw =
     (case Cut raw ''#'' of (u, frag, _) \<Rightarrow>
        case url_parse u of
          None \<Rightarrow> None
        | Some r \<Rightarrow> if frag = [] then Some r else map_option (\<lambda>f. r\<lparr>uFragment := f\<rparr>) (unescape EncOther frag))"

definition url_host_port :: "string \<Rightarrow> string \<times> string" where
  "url_host_port hp =
     (let (h, p) = (case LastIndexByte hp CHR '':'' of
          None \<Rightarrow> (hp, [])
        | Some i \<Rightarrow> if validOptionalPort (drop i hp) then (take i hp, drop (Suc i) hp) else (hp, []))
      in (if HasPrefix h ''['' \<and> HasSuffix h '']'' then take (length h - 2) (tl h) else h, p))"

definition Hostname :: "URL \<Rightarrow> string" where
  "Hostname u = fst (url_host_port (uHost u))"

definition Port :: "URL \<Rightarrow> string" where
  "Port u = snd (url_host_port (uHost u))"

section \<open>Queries\<close>

text \<open>\<^verbatim>\<open>ParseQuery\<close>: the pairs in order, and whether there was no error.\<close>

definition query_pair :: "string \<Rightarrow> (string \<times> string) option" where
  "query_pair piece =
     (case Cut piece ''='' of (k, v, _) \<Rightarrow>
        case (unescape EncQuery k, unescape EncQuery v) of (Some k', Some v') \<Rightarrow> Some (k', v') | _ \<Rightarrow> None)"

definition ParseQuery :: "string \<Rightarrow> (string \<times> string) list \<times> bool" where
  "ParseQuery q =
     (let pieces = filter (\<lambda>p. p \<noteq> []) (Split q ''&'');
          good = (\<lambda>p. CHR '';'' \<notin> set p \<and> query_pair p \<noteq> None)
      in (map (the \<circ> query_pair) (filter good pieces), list_all good pieces))"

text \<open>\<^verbatim>\<open>Values.Get\<close> and the values of a key.\<close>

definition query_values :: "(string \<times> string) list \<Rightarrow> string \<Rightarrow> string list" where
  "query_values q k = map snd (filter (\<lambda>e. fst e = k) q)"

definition query_get :: "(string \<times> string) list \<Rightarrow> string \<Rightarrow> string" where
  "query_get q k = (case query_values q k of [] \<Rightarrow> [] | v # _ \<Rightarrow> v)"

end
