(* ===== verification/Config.thy ===== *)
theory Config
  imports Go_Url Audit_Run
begin

text \<open>
  \<^verbatim>\<open>internal/config/config.go\<close>: the configuration file, its defaults and checks, and the entries for YPs.  The TOML
  decoder is a library and an argument: it turns the text and the defaults into a configuration.
\<close>

record YP =
  ypChannelsURL :: string
  ypName :: string
  ypAddr :: string

record AuditConf =
  auEnabled :: bool
  auNodeID :: string
  auSpoolDir :: string
  auRetentionDays :: int

record SiteConf =
  siTrustedProxies :: "string list"
  siBroadcastHistoryDir :: string
  siAdminXIDs :: "string list"
  siMaxRelayChannels :: int
  siDevLogin :: bool
  siEnabled :: bool
  siListen :: string
  siOrigin :: string
  siBasePath :: string
  siUIDir :: string
  siRTMPURL :: string
  siMaxViewers :: int
  siMaxViewersPerUser :: int

record Config =
  cfPublicIPv4 :: string
  cfAudit :: AuditConf
  cfSite :: SiteConf
  cfRTMPPort :: int
  cfPeercastPort :: int
  cfLogLevel :: string
  cfMaxRelays :: int
  cfMaxRelaysTotal :: int
  cfMaxListeners :: int
  cfMaxUpstreamKbps :: int
  cfContentBufferSeconds :: rat
  cfChannelCleanupMinutes :: int
  cfRelayRequestFrom :: string
  cfMaxRelayChannels :: int
  cfAdminUser :: string
  cfAdminPass :: string
  cfAllowedOrigins :: "string list"
  cfYPs :: "YP list"

definition AuditConf0 :: AuditConf where
  "AuditConf0 = \<lparr>auEnabled = False, auNodeID = [], auSpoolDir = [], auRetentionDays = 0\<rparr>"

definition SiteConf0 :: SiteConf where
  "SiteConf0 =
     \<lparr>siTrustedProxies = [], siBroadcastHistoryDir = [], siAdminXIDs = [], siMaxRelayChannels = 0, siDevLogin = False,
      siEnabled = False, siListen = [], siOrigin = [], siBasePath = [], siUIDir = [], siRTMPURL = [], siMaxViewers = 0,
      siMaxViewersPerUser = 0\<rparr>"

definition defaults :: Config where
  "defaults =
     \<lparr>cfPublicIPv4 = [], cfAudit = AuditConf0, cfSite = SiteConf0, cfRTMPPort = 1935, cfPeercastPort = 7144,
      cfLogLevel = ''info'', cfMaxRelays = 0, cfMaxRelaysTotal = 0, cfMaxListeners = 0, cfMaxUpstreamKbps = 0,
      cfContentBufferSeconds = 0, cfChannelCleanupMinutes = 20, cfRelayRequestFrom = ''private'', cfMaxRelayChannels = 0,
      cfAdminUser = [], cfAdminPass = [], cfAllowedOrigins = [], cfYPs = []\<rparr>"

section \<open>YP entries\<close>

datatype config_error =
  UnsupportedScheme string | BadRelayRequestFrom | ReadFailed | ParseFailed | BadPublicIPv4 | BadNodeID | BadRetention
| NoYP | YPNotFound

definition HostPort :: "string \<Rightarrow> config_error + string" where
  "HostPort addr =
     (case url_Parse addr of
        None \<Rightarrow> Inr addr
      | Some u \<Rightarrow>
          if uScheme u = [] then Inr addr
          else if uScheme u \<noteq> ''pcp'' then Inl (UnsupportedScheme (uScheme u))
          else Inr (JoinHostPort (Hostname u) (if Port u = [] then ''7144'' else Port u)))"

definition FindYP :: "string \<Rightarrow> Config \<Rightarrow> config_error + YP" where
  "FindYP name c =
     (case cfYPs c of
        [] \<Rightarrow> Inl NoYP
      | y # _ \<Rightarrow> if name = [] then Inr y
                 else (case find (\<lambda>y. ypName y = name) (cfYPs c) of None \<Rightarrow> Inl YPNotFound | Some y \<Rightarrow> Inr y))"

section \<open>Settings given as words\<close>

definition RelayRequestFromAny :: "Config \<Rightarrow> config_error + bool" where
  "RelayRequestFromAny c =
     (let w = lower_ascii (cfRelayRequestFrom c) in
      if w = [] \<or> w = ''private'' then Inr False else if w = ''any'' then Inr True else Inl BadRelayRequestFrom)"

datatype Level = LevelDebug | LevelInfo | LevelWarn | LevelError

definition SlogLevel :: "Config \<Rightarrow> Level" where
  "SlogLevel c =
     (let w = lower_ascii (cfLogLevel c) in
      if w = ''debug'' then LevelDebug
      else if w = ''warn'' \<or> w = ''warning'' then LevelWarn
      else if w = ''error'' then LevelError
      else LevelInfo)"

section \<open>Loading\<close>

definition public_ipv4_ok :: "string \<Rightarrow> bool" where
  "public_ipv4_ok s \<longleftrightarrow>
     (let p = ParseIP s in p \<noteq> [] \<and> To4 p \<noteq> [] \<and> IsGlobalUnicast p \<and> \<not> IsPrivate p \<and> \<not> IsLoopback p)"

definition node_id_ok :: "string \<Rightarrow> bool" where
  "node_id_ok s \<longleftrightarrow>
     s \<noteq> [] \<and> length s \<le> 64 \<and> list_all (\<lambda>c. is_alnum c \<or> c = CHR ''.'' \<or> c = CHR ''_'' \<or> c = CHR ''-'') s"

definition Load :: "string option \<Rightarrow> (string \<Rightarrow> Config \<Rightarrow> Config option) \<Rightarrow> config_error + Config" where
  "Load data decode =
     (case data of
        None \<Rightarrow> Inl ReadFailed
      | Some s \<Rightarrow>
          (case decode s defaults of
             None \<Rightarrow> Inl ParseFailed
           | Some c \<Rightarrow>
               if cfPublicIPv4 c \<noteq> [] \<and> \<not> public_ipv4_ok (cfPublicIPv4 c) then Inl BadPublicIPv4
               else if auEnabled (cfAudit c) \<and> \<not> node_id_ok (auNodeID (cfAudit c)) then Inl BadNodeID
               else if auEnabled (cfAudit c) \<and> (auRetentionDays (cfAudit c) < 0 \<or> auRetentionDays (cfAudit c) > 36500)
               then Inl BadRetention
               else Inr c))"

section \<open>Addresses of YPs\<close>

text \<open>Characters of a host name.\<close>

definition host_char :: "char \<Rightarrow> bool" where
  "host_char c \<longleftrightarrow> is_alnum c \<or> c = CHR ''.'' \<or> c = CHR ''-''"

lemma unescape_plain:
  "list_all (\<lambda>c. c \<noteq> CHR ''%'' \<and> (host_escape c \<longrightarrow> 128 \<le> char_code c)) s \<Longrightarrow> m \<noteq> EncQuery \<Longrightarrow> unescape m s = Some s"
  by (induction s) auto

lemma Index_absent: "set p \<inter> set s = {} \<Longrightarrow> p \<noteq> [] \<Longrightarrow> Index s p = None"
proof (induction s)
  case (Cons c s)
  have "\<not> HasPrefix (c # s) p" using Cons.prems by (cases p) (auto simp: HasPrefix_def)
  then show ?case using Cons by auto
qed simp

lemma Index_char: "c \<notin> set s \<Longrightarrow> Index (s @ c # t) [c] = Some (length s)"
  by (induction s) (auto simp: HasPrefix_def)

lemma Cut_absent: "set p \<inter> set s = {} \<Longrightarrow> p \<noteq> [] \<Longrightarrow> Cut s p = (s, [], False)"
  by (simp add: Cut_def Index_absent)

lemma host_char_plain:
  assumes "host_char c"
  shows "c \<noteq> CHR ''%'' \<and> \<not> host_escape c \<and> c \<notin> set ''[]@:/?#'' \<and> \<not> (char_code c < 32 \<or> char_code c = 127)"
proof -
  have "is_alnum c \<Longrightarrow> char_code c \<in> {48..57} \<union> {65..90} \<union> {97..122}"
    by (auto simp: is_alnum_def is_alpha_def is_digit_def Let_def)
  then have "char_code c \<in> {45, 46} \<union> {48..57} \<union> {65..90} \<union> {97..122}" using assms by (auto simp: host_char_def)
  then have "char_code c \<notin> {37, 91, 93, 64, 58, 47, 63, 35} \<and> 32 \<le> char_code c \<and> char_code c < 127" by auto
  then show ?thesis using assms by (auto simp: host_char_def host_escape_def)
qed

lemma HasSuffix_last: "HasSuffix s [c] \<Longrightarrow> c \<in> set s"
  unfolding HasSuffix_def by (metis in_set_dropD list.set_intros(1))

lemma digit_plain:
  assumes "is_digit c"
  shows "host_char c"
  using assms by (simp add: host_char_def is_alnum_def)

text \<open>The parts of an address: a host name and digits.\<close>

lemma host_chars:
  assumes "list_all host_char h"
  shows "set h \<inter> set ''[]@:/?#'' = {}" "\<not> list_ex (\<lambda>c. char_code c < 32 \<or> char_code c = 127) h"
    "m \<noteq> EncQuery \<Longrightarrow> unescape m h = Some h"
proof -
  have c: "c \<noteq> CHR ''%''" "\<not> host_escape c" "c \<notin> set ''[]@:/?#''" "\<not> (char_code c < 32 \<or> char_code c = 127)" if "c \<in> set h" for c
    using host_char_plain [OF bspec [OF assms [unfolded list_all_iff] that]] by blast+
  show "set h \<inter> set ''[]@:/?#'' = {}" using c(3) by (simp only: disjoint_iff) blast
  show "\<not> list_ex (\<lambda>c. char_code c < 32 \<or> char_code c = 127) h" using c(4) by (simp only: list_ex_iff) blast
  show "unescape m h = Some h" if "m \<noteq> EncQuery"
    by (rule unescape_plain [OF _ that]) (use c(1,2) in \<open>simp add: list_all_iff\<close>)
qed

lemma get_scheme_host:
  "list_all host_char h \<Longrightarrow> acc \<noteq> [] \<Longrightarrow> get_scheme raw acc (h @ CHR '':'' # s) = Some (acc @ h, s)"
proof (induction h arbitrary: acc)
  case Nil
  then show ?case by (simp add: is_alpha_def is_digit_def)
next
  case (Cons c h)
  then have "is_alpha c \<or> is_digit c \<or> c \<in> set ''+-.''" by (auto simp: host_char_def is_alnum_def)
  then show ?case using Cons by auto
qed

lemma url_Parse_pcp:
  assumes "list_all host_char h" "list_all is_digit n" "a = h \<or> a = h @ CHR '':'' # n"
  shows "url_Parse (''pcp://'' @ a @ ''/'') = Some (URL0\<lparr>uScheme := ''pcp'', uHost := a, uPath := ''/''\<rparr>)"
proof -
  have n: "list_all host_char n" using assms(2) digit_plain by (auto simp: list_all_iff)
  note h = host_chars [OF assms(1)] and n' = host_chars [OF n]
  have free: "set ''[]@/?#'' \<inter> set a = {}" "\<not> list_ex (\<lambda>c. char_code c < 32 \<or> char_code c = 127) a"
    using assms(3) h n' by auto
  have colon: "CHR '':'' \<notin> set h" "CHR '':'' \<notin> set n" using h(1) n'(1) by auto
  have "unescape EncHost (xs @ ys) = Some (xs @ ys)" if "unescape EncHost xs = Some xs" "unescape EncHost ys = Some ys" "list_all host_char xs" for xs ys
    using that(3,2) by (induction xs) (auto simp: host_char_plain)
  moreover have "unescape EncHost (CHR '':'' # n) = Some (CHR '':'' # n)" using n'(3) by (simp add: host_escape_def is_alnum_def is_alpha_def is_digit_def)
  ultimately have esc: "unescape EncHost a = Some a" using assms(1,3) h(3) by auto
  have last: "LastIndexByte a CHR '':'' = (if a = h then None else Some (length h))"
    using assms(3) colon by (auto simp: LastIndexByte_append LastIndexByte_None_iff)
  have "\<not> HasPrefix a ''[''" using free(1) by (auto simp: HasPrefix_iff)
  then have host: "parseHost a = Some a"
    using assms(2,3) esc last by (auto simp: parseHost_def validOptionalPort_def)
  have "LastIndexByte a CHR ''@'' = None" using free(1) by (simp add: LastIndexByte_None_iff)
  then have auth: "parseAuthority a = Some (False, a)" by (simp add: parseAuthority_def host)
  let ?rest = "''//'' @ a @ ''/''"
  have q: "\<not> HasSuffix ?rest ''?''" using HasSuffix_last [of ?rest "CHR ''?''"] free(1) by auto
  have cut: "Cut ?rest ''?'' = (?rest, [], False)" by (rule Cut_absent) (use free(1) in auto)
  have frag: "Cut (''pcp://'' @ a @ ''/'') ''#'' = (''pcp://'' @ a @ ''/'', [], False)" by (rule Cut_absent) (use free(1) in auto)
  have slash: "Index (a @ ''/'') ''/'' = Some (length a)" by (rule Index_char) (use free(1) in auto)
  have sch: "get_scheme (''pcp://'' @ a @ ''/'') [] (''pcp://'' @ a @ ''/'') = Some (''pcp'', ?rest)"
    by (simp add: is_alpha_def is_digit_def)
  have low: "ToLower ''pcp'' = ''pcp''" by (simp add: ToLower_def lower_char_def)
  have "url_parse (''pcp://'' @ a @ ''/'') = Some (URL0\<lparr>uScheme := ''pcp'', uHost := a, uPath := ''/''\<rparr>)"
    unfolding url_parse_def sch using free(2) q cut slash auth low
    by (simp add: HasPrefix_def Let_def URL0_def)
  then show ?thesis unfolding url_Parse_def frag by simp
qed

text \<open>
  C1.  What an entry for a YP may look like.  A \<^verbatim>\<open>pcp\<close> address gives the host with its port or 7144.  A plain address
  \<^verbatim>\<open>host:port\<close> is taken as it is when the host starts with a digit; when it starts with a letter, the host is read
  as the scheme of an address and the entry is refused.
\<close>

theorem HostPort_addresses:
  assumes "list_all host_char h" "h \<noteq> []" "list_all is_digit n" "n \<noteq> []" "ToLower h \<noteq> ''pcp''"
  shows "HostPort (''pcp://'' @ h @ ''/'') = Inr (h @ '':7144'') \<and> HostPort (''pcp://'' @ (h @ CHR '':'' # n) @ ''/'') = Inr (h @ CHR '':'' # n) \<and>
     HostPort (h @ CHR '':'' # n) = (if is_digit (hd h) \<or> \<not> is_alnum (hd h) then Inr (h @ CHR '':'' # n) else Inl (UnsupportedScheme (ToLower h)))"
proof -
  have n: "list_all host_char n" using assms(3) digit_plain by (auto simp: list_all_iff)
  note h = host_chars [OF assms(1)] and n' = host_chars [OF n]
  have colon: "CHR '':'' \<notin> set h" "CHR '':'' \<notin> set n" using h(1) n'(1) by auto
  have no_b: "\<not> HasPrefix h ''[''" using h(1) by (auto simp: HasPrefix_iff)
  have split: "url_host_port h = (h, [])" "url_host_port (h @ CHR '':'' # n) = (h, n)"
    using LastIndexByte_None_iff [THEN iffD2, OF colon(1)] LastIndexByte_append [OF colon(2)] no_b assms(3)
    by (simp_all add: url_host_port_def validOptionalPort_def)
  let ?p = "h @ CHR '':'' # n"
  obtain c h' where ch: "h = c # h'" "host_char c" using assms(1,2) by (cases h) auto
  have frag: "Cut ?p ''#'' = (?p, [], False)" by (rule Cut_absent) (use h(1) n'(1) in auto)
  have ctl: "\<not> list_ex (\<lambda>c. char_code c < 32 \<or> char_code c = 127) ?p" using h(2) n'(2) by simp
  have slash: "Cut ?p ''/'' = (?p, [], False)" by (rule Cut_absent) (use h(1) n'(1) in auto)
  have q: "\<not> HasSuffix ?p ''?''" "\<not> HasSuffix n ''?''"
    using HasSuffix_last [of ?p "CHR ''?''"] HasSuffix_last [of n "CHR ''?''"] h(1) n'(1) by auto
  have cut: "Cut ?p ''?'' = (?p, [], False)" "Cut n ''?'' = (n, [], False)" by (rule Cut_absent, use h(1) n'(1) in auto)+
  have root: "\<not> HasPrefix ?p ''/''" "\<not> HasPrefix n ''/''" using h(1) n'(1) by (auto simp: HasPrefix_iff ch)
  have plain: "HostPort ?p = (if is_digit (hd h) \<or> \<not> is_alnum (hd h) then Inr ?p else Inl (UnsupportedScheme (ToLower h)))"
  proof (cases "is_alpha c")
    case True
    then have sch: "get_scheme ?p [] ?p = Some (h, n)" using get_scheme_host [of h' "[c]"] assms(1) by (simp add: ch)
    have "\<not> is_digit c" using True by (auto simp: is_alpha_def is_digit_def Let_def)
    moreover have "ToLower h \<noteq> []" by (simp add: ch ToLower_def)
    moreover have "?p \<noteq> ''*''" by (simp add: ch)
    ultimately have "url_parse ?p = Some (URL0\<lparr>uScheme := ToLower h\<rparr>)" "\<not> is_digit (hd h)" "is_alnum (hd h)" "ToLower h \<noteq> []"
      using ctl sch q(2) cut(2) root(2) True by (simp_all add: url_parse_def URL0_def is_alnum_def) (simp_all add: ch is_alnum_def)
    then show ?thesis using assms(5) by (simp add: HostPort_def url_Parse_def frag URL0_def)
  next
    case False
    then have c: "is_digit c \<or> c \<in> set ''+-.''" using ch(2) by (auto simp: host_char_def is_alnum_def)
    then have sch: "get_scheme ?p [] ?p = Some ([], ?p)" using False by (simp add: ch)
    have "?p \<noteq> ''*''" by (simp add: ch)
    moreover have "is_digit c \<or> \<not> is_alnum c" using False by (simp add: is_alnum_def)
    ultimately have "url_parse ?p = None" "is_digit (hd h) \<or> \<not> is_alnum (hd h)"
      using ctl sch q(1) cut(1) root(1) slash by (simp_all add: url_parse_def ToLower_def) (simp_all add: ch)
    then show ?thesis by (simp add: HostPort_def url_Parse_def frag)
  qed
  have pcp: "HostPort (''pcp://'' @ a @ ''/'') = Inr (JoinHostPort h (if p = [] then ''7144'' else p))"
    if "a = h \<or> a = ?p" "url_host_port a = (h, p)" for a p
    using url_Parse_pcp [OF assms(1,3) that(1)] that(2) by (simp add: HostPort_def Hostname_def Port_def URL0_def)
  show ?thesis using pcp [OF _ split(1)] pcp [OF _ split(2)] plain assms(4) colon by (simp add: JoinHostPort_def)
qed

theorem HostPort_addresses_witness:
  "HostPort ''pcp://yp.example/'' = Inr ''yp.example:7144'' \<and> HostPort ''yp.example:7144'' = Inl (UnsupportedScheme ''yp.example'')"
proof -
  have "list_all host_char ''yp.example''" "list_all is_digit ''7144''" "ToLower ''yp.example'' = ''yp.example''" "\<not> is_digit CHR ''y''" "is_alnum CHR ''y''"
    by (simp_all add: host_char_def is_alnum_def is_alpha_def is_digit_def ToLower_def lower_char_def)
  with HostPort_addresses [of "''yp.example''" "''7144''"] show ?thesis by simp
qed

end
