(* ===== verification/Site_Client.thy ===== *)
theory Site_Client
  imports Go_Url Audit_Run
begin

text \<open>
  \<^verbatim>\<open>internal/site/client_ip.go\<close>: the address a request came from when trusted proxies pass it on.  An address of
  \<^verbatim>\<open>net/netip\<close> is its 4 or 16 bytes and its zone.
\<close>

type_synonym netip_addr = "ip \<times> string"

type_synonym netip_prefix = "ip \<times> nat"

definition netip_ParseAddr :: "string \<Rightarrow> netip_addr option" where
  "netip_ParseAddr h =
     map_option (\<lambda>p. (if CHR '':'' \<in> set h then p else drop 12 p, drop 1 (dropWhile (\<lambda>c. c \<noteq> CHR ''%'') h))) (ParseAddr h)"

definition Unmap :: "netip_addr \<Rightarrow> netip_addr" where
  "Unmap a = (if length (fst a) = 16 \<and> To4 (fst a) \<noteq> [] then (To4 (fst a), []) else a)"

definition netip_String :: "netip_addr \<Rightarrow> string" where
  "netip_String a = ip_string (fst a) @ (if snd a = [] then [] else ''%'' @ snd a)"

text \<open>\<^verbatim>\<open>netip.ParsePrefix\<close>: no zone, and a length without leading zero or sign that the address has.\<close>

definition ParsePrefix :: "string \<Rightarrow> netip_prefix option" where
  "ParsePrefix s =
     (case LastIndexByte s CHR ''/'' of
        None \<Rightarrow> None
      | Some i \<Rightarrow>
          let b = drop (Suc i) s in
          (case (netip_ParseAddr (take i s), Atoi b) of
             (Some (p, zone), Some n) \<Rightarrow>
               if zone \<noteq> [] \<or> (length b > 1 \<and> \<not> (49 \<le> char_code (hd b) \<and> char_code (hd b) \<le> 57)) \<or> n < 0 \<or> n > int (8 * length p)
               then None else Some (p, nat n)
           | _ \<Rightarrow> None))"

definition ip_number :: "ip \<Rightarrow> int" where
  "ip_number p = foldl (\<lambda>n b. 256 * n + uint b) 0 p"

text \<open>\<^verbatim>\<open>Prefix.Contains\<close>: an address of the same family, without a zone, that starts with the same bits.\<close>

definition prefix_contains :: "netip_prefix \<Rightarrow> netip_addr \<Rightarrow> bool" where
  "prefix_contains r a \<longleftrightarrow>
     (case r of (p, n) \<Rightarrow>
        snd a = [] \<and> length (fst a) = length p \<and>
        ip_number (fst a) div 2 ^ (8 * length p - n) = ip_number p div 2 ^ (8 * length p - n))"

definition trustedProxy :: "netip_prefix list \<Rightarrow> netip_addr \<Rightarrow> bool" where
  "trustedProxy ps a \<longleftrightarrow> list_ex (\<lambda>r. prefix_contains r (Unmap a)) ps"

text \<open>The loop over the chain of hops, from the last one to the first.\<close>

fun hop_walk :: "netip_prefix list \<Rightarrow> netip_addr \<Rightarrow> string list \<Rightarrow> netip_addr" where
  "hop_walk ps peer [] = peer"
| "hop_walk ps peer (h # hs) =
     (if \<not> trustedProxy ps peer then peer
      else case netip_ParseAddr (TrimSpace h) of
        None \<Rightarrow> peer
      | Some a \<Rightarrow> hop_walk ps (Unmap a) hs)"

fun join_comma :: "string list \<Rightarrow> string" where
  "join_comma [] = []"
| "join_comma [v] = v"
| "join_comma (v # w # vs) = v @ '','' @ join_comma (w # vs)"

text \<open>The values of the header \<^verbatim>\<open>X-Forwarded-For\<close>, in the order they were sent.\<close>

definition broadcastClientIP :: "netip_prefix list \<Rightarrow> string \<Rightarrow> string list \<Rightarrow> string" where
  "broadcastClientIP ps remote forwarded =
     (case SplitHostPort remote of
        None \<Rightarrow> []
      | Some (host, _) \<Rightarrow>
          (case netip_ParseAddr host of
             None \<Rightarrow> []
           | Some a \<Rightarrow>
               if \<not> trustedProxy ps (Unmap a) then netip_String (Unmap a)
               else netip_String (hop_walk ps (Unmap a) (rev (Split (join_comma forwarded) '','')))))"

section \<open>What a client can claim\<close>

text \<open>A hop that is a trusted proxy.\<close>

definition trusted_hop :: "netip_prefix list \<Rightarrow> string \<Rightarrow> bool" where
  "trusted_hop ps h \<longleftrightarrow> (case netip_ParseAddr (TrimSpace h) of None \<Rightarrow> False | Some a \<Rightarrow> trustedProxy ps (Unmap a))"

lemma hop_walk_append:
  "list_ex (\<lambda>h. \<not> trusted_hop ps h) hs \<Longrightarrow> hop_walk ps peer (hs @ gs) = hop_walk ps peer hs"
proof (induction hs arbitrary: peer)
  case (Cons h hs)
  show ?case
  proof (cases "trusted_hop ps h")
    case True
    then show ?thesis using Cons by (auto simp: trusted_hop_def split: option.splits)
  next
    case False
    have stop: "hop_walk ps a ks = a" if "\<not> trustedProxy ps a" for a ks using that by (cases ks) simp_all
    show ?thesis using False by (auto simp: trusted_hop_def stop split: option.splits)
  qed
qed simp

text \<open>The address found is that of the first hop that is not a trusted proxy, if all later ones are.\<close>

lemma hop_walk_finds:
  assumes "trustedProxy ps peer" "list_all (trusted_hop ps) later" "netip_ParseAddr (TrimSpace h) = Some a" "\<not> trustedProxy ps (Unmap a)"
  shows "hop_walk ps peer (later @ h # hs) = Unmap a"
  using assms(1,2)
proof (induction later arbitrary: peer)
  case Nil
  then show ?case using assms(3,4) by (cases hs) simp_all
next
  case (Cons g gs)
  then obtain b where b: "netip_ParseAddr (TrimSpace g) = Some b" "trustedProxy ps (Unmap b)"
    by (auto simp: trusted_hop_def split: option.splits)
  then show ?case using Cons.IH [OF b(2)] Cons.prems by simp
qed

lemma Split_comma_append:
  "Split (x @ CHR '','' # y) '','' = Split x '','' @ Split y '',''"
proof (induction x arbitrary: y rule: length_induct)
  case (1 x)
  show ?case
  proof (cases "Index x '',''")
    case None
    then have "CHR '','' \<notin> set x" by (induction x) (auto simp: HasPrefix_def split: if_splits)
    then have "Index (x @ CHR '','' # y) '','' = Some (length x)" by (induction x) (auto simp: HasPrefix_def)
    then show ?thesis using None by (subst (1 2) Split.simps) simp
  next
    case (Some i)
    have i: "Index (x @ CHR '','' # y) '','' = Some i \<and> i < length x" using Some
      by (induction x arbitrary: i) (auto simp: HasPrefix_def split: if_splits)
    then have "length (drop (Suc i) x) < length x" by auto
    with 1 have "Split (drop (Suc i) x @ CHR '','' # y) '','' = Split (drop (Suc i) x) '','' @ Split y '',''" by blast
    then show ?thesis using i Some by (subst (1 2) Split.simps) simp
  qed
qed

lemma join_comma_snoc: "vs \<noteq> [] \<Longrightarrow> join_comma (vs @ [w]) = join_comma vs @ CHR '','' # w"
  by (induction vs rule: join_comma.induct) auto

text \<open>
  C39.  A client cannot choose its address.  When the header values that trusted proxies added name one hop that is no
  trusted proxy, nothing before them matters, in the same value or in others, and if the later hops are all trusted proxies
  the address is that hop's.  Without a trusted proxy at the socket the header is not read at all.
\<close>

theorem client_ip_not_chosen:
  assumes "h \<in> set (Split v '','')" "\<not> trusted_hop ps h"
  shows "broadcastClientIP ps remote (pre @ [fake @ '','' @ v]) = broadcastClientIP ps remote [v] \<and>
         broadcastClientIP ps remote (pre @ [v]) = broadcastClientIP ps remote [v] \<and>
         (\<forall>host port a b before later. SplitHostPort remote = Some (host, port) \<and> netip_ParseAddr host = Some a \<and>
            trustedProxy ps (Unmap a) \<and> Split v '','' = before @ h # later \<and> list_all (trusted_hop ps) later \<and>
            netip_ParseAddr (TrimSpace h) = Some b \<longrightarrow> broadcastClientIP ps remote [v] = netip_String (Unmap b))"
proof -
  have ex: "list_ex (\<lambda>h. \<not> trusted_hop ps h) (rev (Split v '',''))" using assms by (auto simp: list_ex_iff)
  have tail: "\<exists>ws. Split (join_comma (pre @ [w @ CHR '','' # v])) '','' = ws @ Split v '',''"
    "\<exists>ws. Split (join_comma (pre @ [v])) '','' = ws @ Split v '',''" for w
    by (cases "pre = []"; simp add: join_comma_snoc Split_comma_append)+
  have same: "broadcastClientIP ps remote vs = broadcastClientIP ps remote [v]"
    if "Split (join_comma vs) '','' = ws @ Split v '',''" for vs ws
    using hop_walk_append [OF ex, of _ "rev ws"] that by (simp add: broadcastClientIP_def split: option.splits prod.splits)
  have "broadcastClientIP ps remote [v] = netip_String (Unmap b)"
    if "SplitHostPort remote = Some (host, port)" "netip_ParseAddr host = Some a" "trustedProxy ps (Unmap a)"
      "Split v '','' = before @ h # later" "list_all (trusted_hop ps) later" "netip_ParseAddr (TrimSpace h) = Some b"
    for host port a b before later
  proof -
    have "list_all (trusted_hop ps) (rev later)" using that(5) by (simp add: list_all_iff)
    moreover have "\<not> trustedProxy ps (Unmap b)" using assms(2) that(6) by (simp add: trusted_hop_def)
    ultimately show ?thesis
      using hop_walk_finds [OF that(3) _ that(6), of "rev later" "rev before"] that by (simp add: broadcastClientIP_def)
  qed
  then show ?thesis using same tail by (metis append_Cons append_Nil)
qed

lemma client_ip_not_chosen_witness:
  "broadcastClientIP [([10, 0, 0, 0], 8)] ''10.0.0.1:443'' [''1.1.1.1,198.51.100.7, 10.0.0.2''] = ''198.51.100.7'' \<and>
   ParsePrefix ''10.0.0.0/8'' = Some ([10, 0, 0, 0], 8)"
proof -
  have h: "''198.51.100.7'' \<in> set (Split ''198.51.100.7, 10.0.0.2'' '','')" "\<not> trusted_hop [([10, 0, 0, 0], 8)] ''198.51.100.7''"
    by code_simp+
  have "broadcastClientIP [([10, 0, 0, 0], 8)] ''10.0.0.1:443'' [''198.51.100.7, 10.0.0.2''] = ''198.51.100.7''"
    "ParsePrefix ''10.0.0.0/8'' = Some ([10, 0, 0, 0], 8)" by code_simp+
  then show ?thesis using client_ip_not_chosen [OF h, of "''10.0.0.1:443''" "[]" "''1.1.1.1''"] by simp
qed

end
