(* ===== verification/Go_Json.thy ===== *)
theory Go_Json
  imports Go_Url
begin

text \<open>
  \<^verbatim>\<open>encoding/json\<close> as far as the handlers use it: a decoded text is a value of the type below (numbers keep their
  literal), and \<^verbatim>\<open>Unmarshal\<close> fills a Go value from it.  A mismatch of types is an error, \<^verbatim>\<open>null\<close> leaves the Go
  value as it is, members of an object are taken in order onto the same struct, and a member that matches no field exactly
  may match one up to case.
\<close>

datatype json =
  JNull | JBool bool | JNum string | JStr string | JArr "json list" | JObj "(string \<times> json) list"

type_synonym 'a decoder = "json \<Rightarrow> 'a \<Rightarrow> 'a option"

fun into_string :: "string decoder" where
  "into_string JNull old = Some old"
| "into_string (JStr s) old = Some s"
| "into_string _ old = None"

fun into_uint32 :: "32 word decoder" where
  "into_uint32 JNull old = Some old"
| "into_uint32 (JNum t) old = map_option of_nat (ParseUint10 32 t)"
| "into_uint32 _ old = None"

fun into_int :: "int decoder" where
  "into_int JNull old = Some old"
| "into_int (JNum t) old = Atoi t"
| "into_int _ old = None"

text \<open>\<^verbatim>\<open>json.RawMessage\<close> takes any value, \<^verbatim>\<open>null\<close> too.\<close>

definition into_raw :: "json decoder" where
  "into_raw j old = Some j"

text \<open>A slice of values that each start as \<open>zero\<close>.\<close>

fun into_elems :: "'a decoder \<Rightarrow> 'a \<Rightarrow> json list \<Rightarrow> 'a list option" where
  "into_elems D zero [] = Some []"
| "into_elems D zero (j # js) =
     (case D j zero of
        None \<Rightarrow> None
      | Some x \<Rightarrow> map_option ((#) x) (into_elems D zero js))"

fun into_slice :: "'a decoder \<Rightarrow> 'a \<Rightarrow> json \<Rightarrow> 'a list option" where
  "into_slice D zero JNull = Some []"
| "into_slice D zero (JArr js) = into_elems D zero js"
| "into_slice D zero _ = None"

text \<open>Two letters outside ASCII fold to a letter of ASCII: the long s and the sign of Kelvin.\<close>

fun fold_name :: "string \<Rightarrow> string" where
  "fold_name [] = []"
| "fold_name (c # s) =
     (if char_code c = 0xC5 \<and> s \<noteq> [] \<and> char_code (hd s) = 0xBF then CHR ''s'' # fold_name (drop 1 s)
      else if char_code c = 0xE2 \<and> length s \<ge> 2 \<and> char_code (s ! 0) = 0x84 \<and> char_code (s ! 1) = 0xAA
      then CHR ''k'' # fold_name (drop 2 s)
      else lower_char c # fold_name s)"

definition field_decoder :: "(string \<times> 'a decoder) list \<Rightarrow> string \<Rightarrow> 'a decoder option" where
  "field_decoder fs name =
     (case map_of fs name of
        Some D \<Rightarrow> Some D
      | None \<Rightarrow> map_option snd (find (\<lambda>f. fold_name (fst f) = fold_name name) fs))"

fun into_members :: "(string \<times> 'a decoder) list \<Rightarrow> (string \<times> json) list \<Rightarrow> 'a \<Rightarrow> 'a option" where
  "into_members fs [] r = Some r"
| "into_members fs ((k, j) # ms) r =
     (case field_decoder fs k of
        None \<Rightarrow> into_members fs ms r
      | Some D \<Rightarrow> (case D j r of None \<Rightarrow> None | Some r' \<Rightarrow> into_members fs ms r'))"

fun into_struct :: "(string \<times> 'a decoder) list \<Rightarrow> 'a decoder" where
  "into_struct fs JNull r = Some r"
| "into_struct fs (JObj ms) r = into_members fs ms r"
| "into_struct fs _ r = None"

text \<open>Decoding into a field of a struct.\<close>

definition on_field :: "('a \<Rightarrow> 'b) \<Rightarrow> ('b \<Rightarrow> 'a \<Rightarrow> 'a) \<Rightarrow> 'b decoder \<Rightarrow> 'a decoder" where
  "on_field get set' D j r = map_option (\<lambda>x. set' x r) (D j (get r))"

lemma into_elems_length: "into_elems D zero js = Some xs \<Longrightarrow> length xs = length js"
  by (induction js arbitrary: xs) (auto split: option.splits)

lemma into_elems_raw [simp]: "into_elems into_raw zero js = Some js"
  by (induction js) (simp_all add: into_raw_def)

text \<open>Numbers in results.\<close>

definition jint :: "int \<Rightarrow> json" where
  "jint i = JNum (Itoa i)"

end
