(* ===== verification/Site_Session.thy ===== *)
theory Site_Session
  imports Site_Client Config Manager Go_Json
begin

text \<open>
  \<^verbatim>\<open>internal/site/server.go\<close>, \<^verbatim>\<open>admin.go\<close> and parts of \<^verbatim>\<open>audit.go\<close>: the web site's settings, login with X,
  sessions, the checks before a handler runs, and viewer slots.

  A request holds what the handlers read of it, a response what they set; texts shown to users are left out.  Random
  tokens are arguments.  The maps of sessions and flows are association lists with distinct keys, since the code reads
  their sizes.  Closing the channel \<^verbatim>\<open>Done\<close> of a session, which ends its streams, is an effect.
\<close>

section \<open>Settings\<close>

datatype site_error =
  NegativeRelayLimit | BadBasePath | BadOrigin | OriginNeedsHTTPS | DevLoginExposed | BadViewerLimits | BadRTMPURL
| BadAdminID | NoXClient | BadProxy string

record site_server =
  svCfg :: SiteConf
  svTrusted :: "netip_prefix list"
  svAdmins :: "string list"
  svClientID :: string

definition base_path_ok :: "string \<Rightarrow> bool" where
  "base_path_ok s \<longleftrightarrow>
     s = [] \<or> (hd s = CHR ''/'' \<and> list_all (\<lambda>w. w \<noteq> [] \<and> list_all (\<lambda>c. is_alnum c \<or> c \<in> set ''_-'') w) (Split (tl s) ''/''))"

definition loopback_host :: "string \<Rightarrow> bool" where
  "loopback_host h \<longleftrightarrow> (if ParseIP h \<noteq> [] then IsLoopback (ParseIP h) else h = ''localhost'')"

text \<open>The checks of \<^verbatim>\<open>New\<close> on the origin, and whether it names this machine.\<close>

definition check_origin :: "string \<Rightarrow> site_error + URL" where
  "check_origin origin =
     (case url_Parse origin of
        None \<Rightarrow> Inl BadOrigin
      | Some u \<Rightarrow>
          if uHost u = [] \<or> uUser u \<or> uRawQuery u \<noteq> [] \<or> uFragment u \<noteq> [] \<or> (uPath u \<noteq> [] \<and> uPath u \<noteq> ''/'') then Inl BadOrigin
          else if uScheme u \<noteq> ''https'' \<and> \<not> (uScheme u = ''http'' \<and> loopback_host (Hostname u)) then Inl OriginNeedsHTTPS
          else Inr u)"

definition dev_login_ok :: "string \<Rightarrow> URL \<Rightarrow> bool" where
  "dev_login_ok listen u \<longleftrightarrow>
     (case SplitHostPort listen of
        None \<Rightarrow> False
      | Some (host, _) \<Rightarrow> ParseIP host \<noteq> [] \<and> IsLoopback (ParseIP host) \<and> loopback_host (Hostname u) \<and> uScheme u = ''http'')"

definition rtmp_url_ok :: "string \<Rightarrow> bool" where
  "rtmp_url_ok s \<longleftrightarrow>
     (case url_Parse s of
        None \<Rightarrow> False
      | Some r \<Rightarrow> uHost r \<noteq> [] \<and> (uScheme r = ''rtmp'' \<or> uScheme r = ''rtmps'') \<and> \<not> uUser r \<and> uRawQuery r = [] \<and> uFragment r = [])"

definition x_id_ok :: "string \<Rightarrow> bool" where
  "x_id_ok v \<longleftrightarrow> v \<noteq> [] \<and> length v \<le> 32 \<and> list_all is_digit v"

definition or_default :: "string \<Rightarrow> string \<Rightarrow> string" where
  "or_default s d = (if s = [] then d else s)"

definition or_default_int :: "int \<Rightarrow> int \<Rightarrow> int" where
  "or_default_int n d = (if n = 0 then d else n)"

definition site_defaults :: "SiteConf \<Rightarrow> SiteConf" where
  "site_defaults c =
     c\<lparr>siMaxRelayChannels := or_default_int (siMaxRelayChannels c) 8, siOrigin := TrimSuffix (siOrigin c) ''/'',
       siListen := or_default (siListen c) ''127.0.0.1:8080'',
       siBroadcastHistoryDir := or_default (siBroadcastHistoryDir c) ''site-data/broadcast-history'',
       siUIDir := or_default (siUIDir c) ''ui/dist'', siMaxViewers := or_default_int (siMaxViewers c) 20,
       siMaxViewersPerUser := or_default_int (siMaxViewersPerUser c) 2\<rparr>"

text \<open>\<open>clientID\<close> and \<open>secret\<close> are those of the environment.\<close>

definition NewSite :: "SiteConf \<Rightarrow> string \<Rightarrow> string \<Rightarrow> site_error + site_server" where
  "NewSite cfg clientID secret =
     (if siMaxRelayChannels cfg < 0 then Inl NegativeRelayLimit
      else if \<not> base_path_ok (siBasePath cfg) then Inl BadBasePath
      else case check_origin (siOrigin cfg) of
        Inl e \<Rightarrow> Inl e
      | Inr u \<Rightarrow>
          let c = site_defaults cfg in
          if siDevLogin c \<and> \<not> dev_login_ok (siListen c) u then Inl DevLoginExposed
          else if siMaxViewers c < 1 \<or> siMaxViewersPerUser c < 1 then Inl BadViewerLimits
          else if \<not> rtmp_url_ok (siRTMPURL c) then Inl BadRTMPURL
          else if \<not> list_all x_id_ok (siAdminXIDs c) then Inl BadAdminID
          else if \<not> siDevLogin c \<and> (clientID = [] \<or> secret = []) then Inl NoXClient
          else (case find (\<lambda>v. ParsePrefix v = None) (siTrustedProxies c) of
            Some v \<Rightarrow> Inl (BadProxy v)
          | None \<Rightarrow> Inr \<lparr>svCfg = c, svTrusted = List.map_filter ParsePrefix (siTrustedProxies c), svAdmins = siAdminXIDs c,
              svClientID = clientID\<rparr>))"

section \<open>State, requests and responses\<close>

definition sessionCookie :: string where "sessionCookie = ''mi_session''"
definition flowCookie :: string where "flowCookie = ''mi_oauth''"
definition sessionTTL :: int where "sessionTTL = 12 * (3600 * second)"

record user =
  usID :: string
  usName :: string

record site_session =
  ssAuditRef :: string
  ssUser :: user
  ssCSRF :: string
  ssExpires :: time

record flow =
  fwState :: string
  fwVerifier :: string
  fwExpires :: time
  fwNext :: string

text \<open>
  The files of earlier broadcasts, by path: what \<^verbatim>\<open>encoding/json\<close> reads from the first 512 KiB and nothing after it, or
  \<open>HistBad\<close> for a file that cannot be read so.
\<close>

record broadcastSettings =
  bsName :: string
  bsGenre :: string
  bsDescription :: string
  bsComment :: string
  bsContactURL :: string

record historyEntry =
  heSettings :: broadcastSettings
  heCreatedAt :: time

datatype history_file = HistBad | HistFile int "historyEntry list"

record 'a site_state =
  seMgr :: "'a Manager"
  seHistory :: "string \<rightharpoonup> history_file"
  seSessions :: "(string \<times> site_session) list"
  seFlows :: "(string \<times> flow) list"
  seViewers :: "string \<rightharpoonup> int"
  seTotal :: int

datatype 'a site_effect = SessionDone string | SiteAudit Event | SiteMgr "'a mgr_effect" | SiteBump

record site_request =
  sqMethod :: string
  sqHost :: string
  sqOrigin :: string
  sqCSRF :: string
  sqRemote :: string
  sqForwarded :: "string list"
  sqSession :: "string option"
  sqFlow :: "string option"
  sqQuery :: string
  sqPathID :: string

record cookie =
  ckName :: string
  ckValue :: string
  ckPath :: string
  ckMaxAge :: int
  ckSecure :: bool

record site_response =
  spStatus :: int
  spLocation :: "string option"
  spCookies :: "cookie list"
  spBody :: "json option"

type_synonym 'a site_result = "site_response \<times> 'a site_state \<times> 'a site_effect list"

definition status_only :: "int \<Rightarrow> site_response" where
  "status_only n = \<lparr>spStatus = n, spLocation = None, spCookies = [], spBody = None\<rparr>"

definition site_reply :: "json \<Rightarrow> site_response" where
  "site_reply j = (status_only 200)\<lparr>spBody := Some j\<rparr>"

definition site_redirect :: "int \<Rightarrow> string \<Rightarrow> site_response" where
  "site_redirect n target = (status_only n)\<lparr>spLocation := Some target\<rparr>"

definition site_cookie :: "site_server \<Rightarrow> string \<Rightarrow> string \<Rightarrow> int \<Rightarrow> cookie" where
  "site_cookie V name v age =
     \<lparr>ckName = name, ckValue = v, ckPath = siBasePath (svCfg V) @ ''/'', ckMaxAge = age,
      ckSecure = HasPrefix (siOrigin (svCfg V)) ''https://''\<rparr>"

definition with_cookie :: "cookie \<Rightarrow> site_response \<Rightarrow> site_response" where
  "with_cookie c r = r\<lparr>spCookies := c # spCookies r\<rparr>"

text \<open>The first value of a key of the query; malformed parts are skipped.\<close>

definition query_value :: "site_request \<Rightarrow> string \<Rightarrow> string" where
  "query_value q k = query_get (fst (ParseQuery (sqQuery q))) k"

section \<open>Identities\<close>

definition site_account :: "site_session \<Rightarrow> string" where
  "site_account ss = (if usID (ssUser ss) = ''dev-local'' then ''site:dev:local'' else ''site:x:'' @ usID (ssUser ss))"

definition isAdmin :: "site_server \<Rightarrow> site_session \<Rightarrow> bool" where
  "isAdmin V ss \<longleftrightarrow> \<not> siDevLogin (svCfg V) \<and> usID (ssUser ss) \<in> set (svAdmins V)"

definition auditActor :: "site_server \<Rightarrow> site_request \<Rightarrow> site_session option \<Rightarrow> Actor" where
  "auditActor V q ss =
     (let a = (Actor_of (if siDevLogin (svCfg V) then ''development'' else ''site''))
                \<lparr>acIP := broadcastClientIP (svTrusted V) (sqRemote q) (sqForwarded q)\<rparr>
      in case ss of
        None \<Rightarrow> a
      | Some x \<Rightarrow> a\<lparr>acAccount := site_account x, acName := usName (ssUser x), acSession := ssAuditRef x\<rparr>)"

definition site_audit :: "'a site_state \<Rightarrow> Event \<Rightarrow> 'a site_effect list" where
  "site_audit st e = (if mgrAudit (seMgr st) then [SiteAudit e] else [])"

section \<open>Paths\<close>

definition parseID :: "string \<Rightarrow> gnuid option" where
  "parseID s = (case DecodeString s of None \<Rightarrow> None | Some b \<Rightarrow> if length b \<noteq> 16 then None else Some b)"

definition safeReturnPath :: "string \<Rightarrow> string" where
  "safeReturnPath path =
     (if path = ''/broadcast'' \<or> path = ''/'' then path
      else if HasPrefix path ''/channels/'' then
        (case parseID (TrimPrefix path ''/channels/'') of None \<Rightarrow> ''/'' | Some i \<Rightarrow> ''/channels/'' @ EncodeToString i)
      else ''/'')"

definition returnPath :: "site_server \<Rightarrow> string \<Rightarrow> string" where
  "returnPath V s =
     (let base = siBasePath (svCfg V) in
      if base \<noteq> [] \<and> \<not> HasPrefix s (base @ ''/'') then base @ ''/''
      else
        let v = (if base \<noteq> [] then TrimPrefix s base else s) in
        if v = ''/admin'' \<or> v = ''/admin/'' then base @ ''/admin'' else base @ safeReturnPath v)"

section \<open>Sessions\<close>

definition pruneLocked :: "time \<Rightarrow> 'a site_state \<Rightarrow> 'a site_state \<times> 'a site_effect list" where
  "pruneLocked now st =
     (let live = (\<lambda>e. now < ssExpires (snd e)) in
      (st\<lparr>seFlows := filter (\<lambda>e. now < fwExpires (snd e)) (seFlows st), seSessions := filter live (seSessions st)\<rparr>,
       map (SessionDone \<circ> fst) (filter (\<lambda>e. \<not> live e) (seSessions st))))"

definition authenticate ::
  "time \<Rightarrow> site_request \<Rightarrow> 'a site_state \<Rightarrow> site_session option \<times> 'a site_state \<times> 'a site_effect list" where
  "authenticate now q st =
     (case sqSession q of
        None \<Rightarrow> (None, st, [])
      | Some c \<Rightarrow> (case pruneLocked now st of (st1, effs) \<Rightarrow> (map_of (seSessions st1) c, st1, effs)))"

definition drop_session :: "string \<Rightarrow> 'a site_state \<Rightarrow> 'a site_state \<times> 'a site_effect list" where
  "drop_session c st =
     (case map_of (seSessions st) c of
        None \<Rightarrow> (st, [])
      | Some _ \<Rightarrow> (st\<lparr>seSessions := AList.delete c (seSessions st)\<rparr>, [SessionDone c]))"

text \<open>The tokens drawn are the identifier of the session, its CSRF token and its reference in the audit log.\<close>

record session_draw =
  dwID :: string
  dwCSRF :: string
  dwRef :: "byte list"

definition startSession ::
  "site_server \<Rightarrow> time \<Rightarrow> session_draw \<Rightarrow> site_request \<Rightarrow> user \<Rightarrow> 'a site_state \<Rightarrow>
     cookie option \<times> 'a site_state \<times> 'a site_effect list" where
  "startSession V now d q u st =
     (case pruneLocked now st of (st1, effs1) \<Rightarrow>
        if length (seSessions st1) \<ge> 10000 then (None, st1, effs1)
        else
          case (case sqSession q of None \<Rightarrow> (st1, []) | Some c \<Rightarrow> drop_session c st1) of (st2, effs2) \<Rightarrow>
            let ss = \<lparr>ssAuditRef = audit_ID (dwRef d), ssUser = u, ssCSRF = dwCSRF d, ssExpires = now + sessionTTL\<rparr> in
            (Some (site_cookie V sessionCookie (dwID d) (sessionTTL div second)),
             st2\<lparr>seSessions := AList.update (dwID d) ss (seSessions st2)\<rparr>,
             effs1 @ effs2 @ site_audit st2 (Event0\<lparr>evType := ''auth.login'', evActor := auditActor V q (Some ss), evOutcome := ''success''\<rparr>)))"

section \<open>Login\<close>

text \<open>\<open>challenge\<close> is the encoded SHA-256 of the verifier; the query is given by its values.\<close>

definition authorize_query :: "site_server \<Rightarrow> (string \<Rightarrow> string) \<Rightarrow> flow \<Rightarrow> (string \<times> string) list" where
  "authorize_query V challenge f =
     [(''response_type'', ''code''), (''client_id'', svClientID V),
      (''redirect_uri'', siOrigin (svCfg V) @ siBasePath (svCfg V) @ ''/auth/x/callback''), (''scope'', ''tweet.read users.read''),
      (''state'', fwState f), (''code_challenge'', challenge (fwVerifier f)), (''code_challenge_method'', ''S256'')]"

definition site_login ::
  "(string \<Rightarrow> string) \<Rightarrow> ((string \<times> string) list \<Rightarrow> string) \<Rightarrow> site_server \<Rightarrow> time \<Rightarrow> string \<times> string \<times> string \<Rightarrow>
     site_request \<Rightarrow> 'a site_state \<Rightarrow> 'a site_result" where
  "site_login challenge encode V now draws q st =
     (case (draws, pruneLocked now st) of ((i, state, verifier), (st1, effs)) \<Rightarrow>
        if length (seFlows st1) \<ge> 1000 then (status_only 503, st1, effs)
        else
          let fs = (case sqFlow q of None \<Rightarrow> seFlows st1 | Some c \<Rightarrow> AList.delete c (seFlows st1));
              f = \<lparr>fwState = state, fwVerifier = verifier, fwExpires = now + 5 * (60 * second),
                   fwNext = returnPath V (query_value q ''next'')\<rparr>
          in (with_cookie (site_cookie V flowCookie i 300)
                (site_redirect 302 (''https://x.com/i/oauth2/authorize?'' @ encode (authorize_query V challenge f))),
              st1\<lparr>seFlows := AList.update i f fs\<rparr>, effs))"

text \<open>
  \<^verbatim>\<open>exchange\<close>: \<open>token\<close> and \<open>me\<close> are what the provider answers to the two requests, \<open>None\<close> without
  a JSON value of status 200.
\<close>

definition token_reply :: "json option \<Rightarrow> (string \<times> string) option" where
  "token_reply t =
     (case t of
        None \<Rightarrow> None
      | Some j \<Rightarrow> into_struct [(''access_token'', on_field fst (\<lambda>x r. (x, snd r)) into_string),
                             (''token_type'', on_field snd (\<lambda>x r. (fst r, x)) into_string)] j ([], []))"

definition into_user :: "user decoder" where
  "into_user = into_struct
     [(''id'', on_field usID (\<lambda>x. usID_update (\<lambda>_. x)) into_string), (''name'', on_field usName (\<lambda>x. usName_update (\<lambda>_. x)) into_string)]"

definition me_reply :: "json option \<Rightarrow> user option" where
  "me_reply t =
     (case t of
        None \<Rightarrow> None
      | Some j \<Rightarrow> into_struct [(''data'', into_user)] j \<lparr>usID = [], usName = []\<rparr>)"

definition exchange :: "json option \<Rightarrow> (string \<Rightarrow> json option) \<Rightarrow> user option" where
  "exchange token me =
     (case token_reply token of
        None \<Rightarrow> None
      | Some (access, kind) \<Rightarrow>
          if access = [] \<or> fold_name kind \<noteq> ''bearer'' then None
          else (case me_reply (me access) of
            None \<Rightarrow> None
          | Some u \<Rightarrow> if \<not> x_id_ok (usID u) then None else Some u))"

text \<open>\<open>answers\<close> are those of the provider to the exchange of a code with a verifier.\<close>

definition login_failure :: "site_server \<Rightarrow> site_request \<Rightarrow> string \<Rightarrow> string \<Rightarrow> Event" where
  "login_failure V q outcome reason =
     Event0\<lparr>evType := ''auth.login'', evActor := auditActor V q None, evOutcome := outcome, evReason := reason\<rparr>"

definition site_callback ::
  "site_server \<Rightarrow> time \<Rightarrow> session_draw \<Rightarrow> (string \<Rightarrow> string \<Rightarrow> json option \<times> (string \<Rightarrow> json option)) \<Rightarrow>
     site_request \<Rightarrow> 'a site_state \<Rightarrow> 'a site_result" where
  "site_callback V now d answers q st =
     (case sqFlow q of
        None \<Rightarrow> (status_only 400, st, site_audit st (login_failure V q ''failure'' ''invalid_callback''))
      | Some c \<Rightarrow>
          let f = map_of (seFlows st) c;
              st1 = st\<lparr>seFlows := AList.delete c (seFlows st)\<rparr>;
              clear = site_cookie V flowCookie [] (- 1);
              code = query_value q ''code''; err = query_value q ''error'';
              valid = (case f of None \<Rightarrow> False | Some f \<Rightarrow> now < fwExpires f \<and> fwState f = query_value q ''state'')
          in
          if \<not> valid \<or> code = [] \<or> err \<noteq> [] then
            (with_cookie clear (status_only 400), st1,
             site_audit st1 (if valid \<and> err = ''access_denied'' then login_failure V q ''cancelled'' ''user_cancelled''
                             else login_failure V q ''failure'' ''invalid_callback''))
          else case f of None \<Rightarrow> (status_only 400, st1, []) | Some f \<Rightarrow>
            (case answers code (fwVerifier f) of (token, me) \<Rightarrow>
               case exchange token me of
                 None \<Rightarrow> (with_cookie clear (status_only 502), st1,
                   site_audit st1 (login_failure V q ''failure'' ''oauth_exchange_failed''))
               | Some u \<Rightarrow>
                   (case startSession V now d q u st1 of
                      (None, st2, effs) \<Rightarrow> (with_cookie clear (status_only 503), st2,
                        effs @ site_audit st2 (login_failure V q ''failure'' ''session_capacity''))
                    | (Some k, st2, effs) \<Rightarrow>
                        (with_cookie clear (with_cookie k (site_redirect 303 (returnPath V (fwNext f)))), st2, effs))))"

text \<open>The name of the local development user, in UTF-8.\<close>

definition dev_user :: user where
  "dev_user =
     \<lparr>usID = ''dev-local'',
      usName = code_string
        [0xE3, 0x83, 0xAD, 0xE3, 0x83, 0xBC, 0xE3, 0x82, 0xAB, 0xE3, 0x83, 0xAB, 0xE9, 0x96, 0x8B, 0xE7, 0x99, 0xBA,
        0xE3, 0x83, 0xA6, 0xE3, 0x83, 0xBC, 0xE3, 0x82, 0xB6, 0xE3, 0x83, 0xBC]\<rparr>"

definition developmentLogin ::
  "site_server \<Rightarrow> time \<Rightarrow> session_draw \<Rightarrow> site_request \<Rightarrow> 'a site_state \<Rightarrow> 'a site_result" where
  "developmentLogin V now d q st =
     (if sqOrigin q \<noteq> siOrigin (svCfg V)
      then (status_only 403, st, site_audit st (login_failure V q ''failure'' ''development_login_rejected''))
      else case startSession V now d q dev_user st of
        (None, st1, effs) \<Rightarrow>
          (status_only 503, st1, effs @ site_audit st1 (login_failure V q ''failure'' ''development_login_rejected''))
      | (Some k, st1, effs) \<Rightarrow> (with_cookie k (site_reply (JObj [(''ok'', JBool True)])), st1, effs))"

definition site_logout :: "site_server \<Rightarrow> site_request \<Rightarrow> site_session \<Rightarrow> 'a site_state \<Rightarrow> 'a site_result" where
  "site_logout V q ss st =
     (case (case sqSession q of None \<Rightarrow> (st, []) | Some c \<Rightarrow> drop_session c st) of (st1, effs) \<Rightarrow>
        (with_cookie (site_cookie V sessionCookie [] (- 1)) (site_reply (JObj [(''ok'', JBool True)])), st1,
         site_audit st (Event0\<lparr>evType := ''auth.logout'', evActor := auditActor V q (Some ss), evOutcome := ''success''\<rparr>) @ effs))"

section \<open>The gate\<close>

definition user_json :: "user \<Rightarrow> json" where
  "user_json u = JObj [(''id'', JStr (usID u)), (''name'', JStr (usName u))]"

definition site_me :: "site_server \<Rightarrow> time \<Rightarrow> site_request \<Rightarrow> 'a site_state \<Rightarrow> 'a site_result" where
  "site_me V now q st =
     (case authenticate now q st of
        (None, st1, effs) \<Rightarrow>
          (site_reply (JObj [(''devLogin'', JBool (siDevLogin (svCfg V))), (''user'', JNull)]), st1, effs)
      | (Some ss, st1, effs) \<Rightarrow>
          (site_reply (JObj [(''admin'', JBool (isAdmin V ss)), (''csrf'', JStr (ssCSRF ss)), (''devLogin'', JBool (siDevLogin (svCfg V))),
             (''user'', user_json (ssUser ss))]), st1, effs))"

text \<open>What runs before a protected handler.\<close>

definition protected ::
  "site_server \<Rightarrow> time \<Rightarrow> site_request \<Rightarrow> (site_session \<Rightarrow> 'a site_state \<Rightarrow> 'a site_result) \<Rightarrow> 'a site_state \<Rightarrow> 'a site_result" where
  "protected V now q h st =
     (case authenticate now q st of
        (None, st1, effs) \<Rightarrow> (status_only 401, st1, effs)
      | (Some ss, st1, effs) \<Rightarrow>
          if sqMethod q \<noteq> ''GET'' \<and> (sqOrigin q \<noteq> siOrigin (svCfg V) \<or> sqCSRF q \<noteq> ssCSRF ss)
          then (status_only 403, st1, effs)
          else (case h ss st1 of (r, st2, effs2) \<Rightarrow> (r, st2, effs @ effs2)))"

text \<open>What runs before any handler; \<open>None\<close> lets the request through.\<close>

definition outer_gate :: "site_server \<Rightarrow> site_request \<Rightarrow> int option" where
  "outer_gate V q =
     (if siDevLogin (svCfg V) \<and>
         \<not> (case SplitHostPort (sqRemote q) of
              None \<Rightarrow> False
            | Some (host, _) \<Rightarrow> ParseIP host \<noteq> [] \<and> IsLoopback (ParseIP host) \<and>
                (case url_Parse (siOrigin (svCfg V)) of None \<Rightarrow> False | Some u \<Rightarrow> sqHost q = uHost u))
      then Some 403
      else if sqOrigin q \<noteq> [] \<and> sqOrigin q \<noteq> siOrigin (svCfg V) then Some 403
      else None)"

section \<open>Viewer slots\<close>

definition viewers_of :: "string \<Rightarrow> 'a site_state \<Rightarrow> int" where
  "viewers_of u st = (case seViewers st u of None \<Rightarrow> 0 | Some n \<Rightarrow> n)"

text \<open>The start of \<^verbatim>\<open>stream\<close>: a slot is taken, or the status is returned.\<close>

definition stream_open ::
  "site_server \<Rightarrow> site_request \<Rightarrow> site_session \<Rightarrow> 'a site_state \<Rightarrow> (int + gnuid) \<times> 'a site_state" where
  "stream_open V q ss st =
     (case parseID (sqPathID q) of
        None \<Rightarrow> (Inl 400, st)
      | Some i \<Rightarrow>
          if sqQuery q \<noteq> [] then (Inl 400, st)
          else
            let u = usID (ssUser ss) in
            if seTotal st \<ge> siMaxViewers (svCfg V) \<or> viewers_of u st \<ge> siMaxViewersPerUser (svCfg V) then (Inl 429, st)
            else (Inr i, st\<lparr>seTotal := seTotal st + 1, seViewers := (seViewers st)(u \<mapsto> viewers_of u st + 1)\<rparr>))"

definition stream_close :: "site_session \<Rightarrow> 'a site_state \<Rightarrow> 'a site_state" where
  "stream_close ss st =
     (let u = usID (ssUser ss); n = viewers_of u st - 1 in
      st\<lparr>seTotal := seTotal st - 1, seViewers := (seViewers st)(u := (if n = 0 then None else Some n))\<rparr>)"

end
