(* ===== verification/Site_Login.thy ===== *)
theory Site_Login
  imports Site_Session
begin

text \<open>
  What the sessions of the site guarantee: every session was opened by a login that this server started, requests
  that change something carry the session's own token, viewers stay within their limits, and a login never leads away
  from the site.
\<close>

section \<open>Runs\<close>

datatype site_op =
  OpLogin time "string \<times> string \<times> string" site_request
| OpCallback time session_draw "string \<Rightarrow> string \<Rightarrow> json option \<times> (string \<Rightarrow> json option)" site_request
| OpLogout time site_request
| OpRequest time site_request

text \<open>The operations on sessions when logins go through X; any other request only looks its session up.\<close>

fun site_do ::
  "(string \<Rightarrow> string) \<Rightarrow> ((string \<times> string) list \<Rightarrow> string) \<Rightarrow> site_server \<Rightarrow> site_op \<Rightarrow> 'a site_state \<Rightarrow> 'a site_state" where
  "site_do ch enc V (OpLogin now draws q) st = fst (snd (site_login ch enc V now draws q st))"
| "site_do ch enc V (OpCallback now d answers q) st = fst (snd (site_callback V now d answers q st))"
| "site_do ch enc V (OpLogout now q) st = fst (snd (protected V now q (site_logout V q) st))"
| "site_do ch enc V (OpRequest now q) st = fst (snd (authenticate now q st))"

definition site_ops ::
  "(string \<Rightarrow> string) \<Rightarrow> ((string \<times> string) list \<Rightarrow> string) \<Rightarrow> site_server \<Rightarrow> site_op list \<Rightarrow> 'a site_state \<Rightarrow> 'a site_state" where
  "site_ops ch enc V ops st = fold (site_do ch enc V) ops st"

lemma site_ops_simps [simp]:
  "site_ops ch enc V [] st = st" "site_ops ch enc V (ops @ [x]) st = site_do ch enc V x (site_ops ch enc V ops st)"
  by (simp_all add: site_ops_def)

section \<open>Tables\<close>

definition tables_ok :: "'a site_state \<Rightarrow> bool" where
  "tables_ok st \<longleftrightarrow> distinct (map fst (seSessions st)) \<and> distinct (map fst (seFlows st))"

definition sess :: "'a site_state \<Rightarrow> string \<Rightarrow> site_session option" where
  "sess st c = map_of (seSessions st) c"

definition flow_of :: "'a site_state \<Rightarrow> string \<Rightarrow> flow option" where
  "flow_of st c = map_of (seFlows st) c"

lemma prune_tables:
  assumes "tables_ok st"
  shows "tables_ok (fst (pruneLocked now st))"
    "sess (fst (pruneLocked now st)) c = (case sess st c of None \<Rightarrow> None | Some s \<Rightarrow> if now < ssExpires s then Some s else None)"
    "flow_of (fst (pruneLocked now st)) c = (case flow_of st c of None \<Rightarrow> None | Some f \<Rightarrow> if now < fwExpires f then Some f else None)"
  using assms map_of_filter_snd [of "seSessions st" "\<lambda>s. now < ssExpires s" c] map_of_filter_snd [of "seFlows st" "\<lambda>f. now < fwExpires f" c]
  by (simp_all add: tables_ok_def pruneLocked_def Let_def distinct_filter_fst sess_def flow_of_def)

lemma drop_tables:
  assumes "tables_ok st"
  shows "tables_ok (fst (drop_session d st))" "sess (fst (drop_session d st)) c = (if c = d then None else sess st c)"
    "flow_of (fst (drop_session d st)) c = flow_of st c"
  using assms by (auto simp: tables_ok_def drop_session_def sess_def flow_of_def distinct_delete delete_conv' split: option.splits)

lemma authenticate_tables:
  assumes "tables_ok st"
  shows "tables_ok (fst (snd (authenticate now q st)))"
    "sess (fst (snd (authenticate now q st))) c = Some s \<Longrightarrow> sess st c = Some s"
    "flow_of (fst (snd (authenticate now q st))) c = Some f \<Longrightarrow> flow_of st c = Some f"
    "fst (authenticate now q st) = Some s \<Longrightarrow> \<exists>c. sqSession q = Some c \<and> sess st c = Some s \<and> now < ssExpires s"
  using assms prune_tables [OF assms, of now]
  by (auto simp: authenticate_def sess_def split: option.splits prod.splits if_splits)

text \<open>What \<open>startSession\<close> does to the tables.\<close>

definition opened :: "time \<Rightarrow> session_draw \<Rightarrow> user \<Rightarrow> site_session" where
  "opened now d u = \<lparr>ssAuditRef = audit_ID (dwRef d), ssUser = u, ssCSRF = dwCSRF d, ssExpires = now + sessionTTL\<rparr>"

lemma start_tables:
  assumes "tables_ok st" "startSession V now d q u st = (k, st', effs)"
  shows "tables_ok st'" "flow_of st' c = Some f \<Longrightarrow> flow_of st c = Some f"
    "sess st' c = Some s \<Longrightarrow> sess st c = Some s \<or> (k \<noteq> None \<and> c = dwID d \<and> s = opened now d u)"
proof -
  obtain st1 effs1 where p: "pruneLocked now st = (st1, effs1)" by fastforce
  have st1: "tables_ok st1" "\<And>c s. sess st1 c = Some s \<Longrightarrow> sess st c = Some s" "\<And>c f. flow_of st1 c = Some f \<Longrightarrow> flow_of st c = Some f"
    using prune_tables [OF assms(1), of now] p by (auto split: option.splits if_splits)
  obtain st2 effs2 where m: "(case sqSession q of None \<Rightarrow> (st1, []) | Some c \<Rightarrow> drop_session c st1) = (st2, effs2 :: 'a site_effect list)" by fastforce
  have st2: "tables_ok st2" "\<And>c s. sess st2 c = Some s \<Longrightarrow> sess st c = Some s" "\<And>c f. flow_of st2 c = Some f \<Longrightarrow> flow_of st c = Some f"
    using m drop_tables [OF st1(1)] st1 by (auto split: option.splits if_splits dest!: arg_cong [where f = fst])
  have r: "k = None \<and> st' = st1 \<or>
      k \<noteq> None \<and> st' = st2\<lparr>seSessions := AList.update (dwID d) (opened now d u) (seSessions st2)\<rparr>"
    using assms(2) p m by (auto simp: startSession_def Let_def opened_def split: if_splits)
  show "tables_ok st'" using r st1(1) st2(1) by (auto simp: tables_ok_def distinct_update)
  show "flow_of st' c = Some f \<Longrightarrow> flow_of st c = Some f" using r st1(3) st2(3) by (auto simp: flow_of_def)
  show "sess st' c = Some s \<Longrightarrow> sess st c = Some s \<or> (k \<noteq> None \<and> c = dwID d \<and> s = opened now d u)"
    using r st1(2) st2(2) by (auto simp: sess_def update_conv' split: if_splits)
qed

section \<open>Sessions come from logins\<close>

text \<open>The answer a code and a flow lead to.\<close>

definition redeemed :: "(string \<Rightarrow> string \<Rightarrow> json option \<times> (string \<Rightarrow> json option)) \<Rightarrow> site_request \<Rightarrow> time \<Rightarrow> flow \<Rightarrow> user \<Rightarrow> bool" where
  "redeemed answers q now f u \<longleftrightarrow>
     now < fwExpires f \<and> query_value q ''state'' = fwState f \<and> query_value q ''code'' \<noteq> [] \<and> query_value q ''error'' = [] \<and>
     exchange (fst (answers (query_value q ''code'') (fwVerifier f))) (snd (answers (query_value q ''code'') (fwVerifier f))) = Some u"

lemma callback_tables:
  assumes ok: "tables_ok st" and r: "site_callback V now d answers q st = (r, st', effs)"
  shows "tables_ok st'" "flow_of st' c = Some f \<Longrightarrow> flow_of st c = Some f \<and> sqFlow q \<noteq> Some c"
    "sess st' c = Some s \<Longrightarrow> sess st c = Some s \<or>
       (c = dwID d \<and> (\<exists>i f u. sqFlow q = Some i \<and> flow_of st i = Some f \<and> redeemed answers q now f u \<and> s = opened now d u))"
proof -
  show "tables_ok st'" and "flow_of st' c = Some f \<Longrightarrow> flow_of st c = Some f \<and> sqFlow q \<noteq> Some c" and
    "sess st' c = Some s \<Longrightarrow> sess st c = Some s \<or>
       (c = dwID d \<and> (\<exists>i f u. sqFlow q = Some i \<and> flow_of st i = Some f \<and> redeemed answers q now f u \<and> s = opened now d u))"
  proof (atomize (full), cases "sqFlow q")
    case None
    then show "tables_ok st' \<and> (flow_of st' c = Some f \<longrightarrow> flow_of st c = Some f \<and> sqFlow q \<noteq> Some c) \<and>
      (sess st' c = Some s \<longrightarrow> sess st c = Some s \<or>
         (c = dwID d \<and> (\<exists>i f u. sqFlow q = Some i \<and> flow_of st i = Some f \<and> redeemed answers q now f u \<and> s = opened now d u)))"
      using r ok by (simp add: site_callback_def)
  next
    case (Some i)
    let ?st1 = "st\<lparr>seFlows := AList.delete i (seFlows st)\<rparr>"
    have ok1: "tables_ok ?st1" using ok by (auto simp: tables_ok_def distinct_delete)
    have flows: "flow_of ?st1 k = Some g \<Longrightarrow> flow_of st k = Some g \<and> k \<noteq> i" for k g
      by (auto simp: flow_of_def delete_conv' split: if_splits)
    have same: "sess ?st1 k = sess st k" for k by (simp add: sess_def)
    consider "st' = ?st1"
      | f0 u k where "flow_of st i = Some f0" "redeemed answers q now f0 u" "startSession V now d q u ?st1 = (k, st', snd (snd (startSession V now d q u ?st1)))"
      using r Some
      by (auto simp: site_callback_def Let_def flow_of_def redeemed_def split: option.splits if_splits prod.splits)
    then show "tables_ok st' \<and> (flow_of st' c = Some f \<longrightarrow> flow_of st c = Some f \<and> sqFlow q \<noteq> Some c) \<and>
      (sess st' c = Some s \<longrightarrow> sess st c = Some s \<or>
         (c = dwID d \<and> (\<exists>i f u. sqFlow q = Some i \<and> flow_of st i = Some f \<and> redeemed answers q now f u \<and> s = opened now d u)))"
    proof cases
      case 1
      then show ?thesis using ok1 flows same Some by auto
    next
      case 2
      note st = start_tables [OF ok1 2(3)]
      show ?thesis using st(1) st(2) [of c f] st(3) [of c s] flows [of c f] same [of c] Some 2(1,2) by auto
    qed
  qed
qed

lemma login_tables:
  assumes ok: "tables_ok st" and r: "site_login ch enc V now (i, state, verifier) q st = (r, st', effs)"
  shows "tables_ok st'" "sess st' c = Some s \<Longrightarrow> sess st c = Some s"
    "flow_of st' c = Some f \<Longrightarrow> flow_of st c = Some f \<or>
       (c = i \<and> fwState f = state \<and> fwVerifier f = verifier \<and> fwExpires f = now + 5 * (60 * second))"
proof -
  obtain st1 effs1 where p: "pruneLocked now st = (st1, effs1)" by fastforce
  have st1: "tables_ok st1" "sess st1 c = Some s \<Longrightarrow> sess st c = Some s" "flow_of st1 c = Some f \<Longrightarrow> flow_of st c = Some f"
    using prune_tables [OF ok, of now] p by (auto split: option.splits if_splits)
  have "st' = st1 \<or> (\<exists>fs n. (fs = seFlows st1 \<or> (\<exists>k. fs = AList.delete k (seFlows st1))) \<and>
      st' = st1\<lparr>seFlows := AList.update i \<lparr>fwState = state, fwVerifier = verifier, fwExpires = now + 5 * (60 * second), fwNext = n\<rparr> fs\<rparr>)"
    using r p by (auto simp: site_login_def Let_def split: if_splits option.splits)
  then show "tables_ok st'" "sess st' c = Some s \<Longrightarrow> sess st c = Some s"
    "flow_of st' c = Some f \<Longrightarrow> flow_of st c = Some f \<or>
       (c = i \<and> fwState f = state \<and> fwVerifier f = verifier \<and> fwExpires f = now + 5 * (60 * second))"
    using st1 by (auto simp: tables_ok_def sess_def flow_of_def distinct_update distinct_delete update_conv' delete_conv' split: if_splits)
qed

lemma logout_tables:
  assumes ok: "tables_ok st" and r: "protected V now q (site_logout V q) st = (r, st', effs)"
  shows "tables_ok st'" "sess st' c = Some s \<Longrightarrow> sess st c = Some s" "flow_of st' c = Some f \<Longrightarrow> flow_of st c = Some f"
    "spStatus r = 200 \<Longrightarrow> sqSession q = Some c \<Longrightarrow> sess st' c = None"
proof -
  obtain a st1 effs1 where p: "authenticate now q st = (a, st1, effs1)" by (metis prod_cases3)
  have st1: "tables_ok st1" "sess st1 c = Some s \<Longrightarrow> sess st c = Some s" "flow_of st1 c = Some f \<Longrightarrow> flow_of st c = Some f"
    using authenticate_tables [OF ok, of now q] p by auto
  consider "st' = st1" "spStatus r \<noteq> 200" | k where "sqSession q = Some k" "st' = fst (drop_session k st1)"
    using r p by (auto simp: protected_def site_logout_def status_only_def authenticate_def split: option.splits if_splits prod.splits)
  then show "tables_ok st'" "sess st' c = Some s \<Longrightarrow> sess st c = Some s" "flow_of st' c = Some f \<Longrightarrow> flow_of st c = Some f"
    "spStatus r = 200 \<Longrightarrow> sqSession q = Some c \<Longrightarrow> sess st' c = None"
    by (cases; use st1 drop_tables [OF st1(1)] in \<open>auto split: if_splits\<close>)+
qed

text \<open>A flow that a login started with this cookie, and that no callback has used since.\<close>

fun redeems :: "string \<Rightarrow> site_op \<Rightarrow> bool" where
  "redeems i (OpCallback now d answers q) = (sqFlow q = Some i)"
| "redeems i _ = False"

definition flow_issued :: "site_op list \<Rightarrow> string \<Rightarrow> flow \<Rightarrow> bool" where
  "flow_issued ops i f \<longleftrightarrow>
     (\<exists>pre t q mid. ops = pre @ OpLogin t (i, fwState f, fwVerifier f) q # mid \<and> fwExpires f = t + 5 * (60 * second) \<and>
        list_all (\<lambda>x. \<not> redeems i x) mid)"

text \<open>A successful logout of a session.\<close>

fun logs_out :: "site_server \<Rightarrow> 'a site_state \<Rightarrow> string \<Rightarrow> site_op \<Rightarrow> bool" where
  "logs_out V st c (OpLogout t q) = (sqSession q = Some c \<and> spStatus (fst (protected V t q (site_logout V q) st)) = 200)"
| "logs_out V st c _ = False"

text \<open>
  The session \<open>s\<close> under the identifier \<open>c\<close> was opened by a callback that redeemed a flow issued before, and was not
  logged out since.
\<close>

definition session_granted ::
  "(string \<Rightarrow> string) \<Rightarrow> ((string \<times> string) list \<Rightarrow> string) \<Rightarrow> site_server \<Rightarrow> 'a site_state \<Rightarrow> site_op list \<Rightarrow> string \<Rightarrow> site_session \<Rightarrow> bool" where
  "session_granted ch enc V st0 ops c s \<longleftrightarrow>
     (\<exists>pre t d answers q post i f u. ops = pre @ OpCallback t d answers q # post \<and> dwID d = c \<and> s = opened t d u \<and>
        sqFlow q = Some i \<and> flow_issued pre i f \<and> redeemed answers q t f u \<and>
        (\<forall>post1 x post2. post = post1 @ x # post2 \<longrightarrow>
           \<not> logs_out V (site_ops ch enc V (pre @ OpCallback t d answers q # post1) st0) c x))"

lemma flow_issued_snoc: "flow_issued ops i f \<Longrightarrow> \<not> redeems i x \<Longrightarrow> flow_issued (ops @ [x]) i f"
  unfolding flow_issued_def by (elim exE conjE) (rule exI, rule exI, rule exI, rule_tac x = "mid @ [x]" in exI, simp)

lemma session_granted_snoc:
  assumes "session_granted ch enc V st0 ops c s" "\<not> logs_out V (site_ops ch enc V ops st0) c x"
  shows "session_granted ch enc V st0 (ops @ [x]) c s"
proof -
  obtain pre t d answers q post i f u where g: "ops = pre @ OpCallback t d answers q # post" "dwID d = c" "s = opened t d u"
    "sqFlow q = Some i" "flow_issued pre i f" "redeemed answers q t f u"
    "\<forall>post1 x post2. post = post1 @ x # post2 \<longrightarrow> \<not> logs_out V (site_ops ch enc V (pre @ OpCallback t d answers q # post1) st0) c x"
    using assms(1) unfolding session_granted_def by blast
  have "\<not> logs_out V (site_ops ch enc V (pre @ OpCallback t d answers q # post1) st0) c y" if "post @ [x] = post1 @ y # post2" for post1 y post2
  proof (cases post2 rule: rev_cases)
    case Nil
    then show ?thesis using that assms(2) g(1) by simp
  next
    case (snoc zs z)
    then show ?thesis using that g(7) by simp
  qed
  then show ?thesis unfolding session_granted_def using g(1-6) by (intro exI [of _ pre] exI [of _ t] exI [of _ d] exI [of _ answers]
    exI [of _ q] exI [of _ "post @ [x]"] exI [of _ i] exI [of _ f] exI [of _ u]) simp
qed

lemma site_ops_inv:
  assumes "seSessions st0 = []" "seFlows st0 = []"
  shows "tables_ok (site_ops ch enc V ops st0) \<and>
         (\<forall>i f. flow_of (site_ops ch enc V ops st0) i = Some f \<longrightarrow> flow_issued ops i f) \<and>
         (\<forall>c s. sess (site_ops ch enc V ops st0) c = Some s \<longrightarrow> session_granted ch enc V st0 ops c s)"
proof (induction ops rule: rev_induct)
  case Nil
  show ?case using assms by (simp add: tables_ok_def flow_of_def sess_def)
next
  case (snoc x ops)
  let ?st = "site_ops ch enc V ops st0"
  note ok = snoc.IH [THEN conjunct1]
  have fl: "flow_of ?st i = Some f \<Longrightarrow> flow_issued ops i f" and se: "sess ?st c = Some s \<Longrightarrow> session_granted ch enc V st0 ops c s" for i f c s
    using snoc.IH by blast+
  show ?case
  proof (cases x)
    case (OpLogin now draws q)
    obtain i state verifier where d: "draws = (i, state, verifier)" by (cases draws)
    obtain r st' effs where r: "site_login ch enc V now (i, state, verifier) q ?st = (r, st', effs)" by (metis prod_cases3)
    note t = login_tables [OF ok r]
    have "flow_issued (ops @ [x]) k f" if "flow_of st' k = Some f" for k f
    proof (cases "flow_of ?st k = Some f")
      case True
      then show ?thesis using fl flow_issued_snoc OpLogin by simp
    next
      case False
      then have "k = i" "fwState f = state" "fwVerifier f = verifier" "fwExpires f = now + 5 * (60 * second)" using t(3) that by blast+
      then show ?thesis using OpLogin d unfolding flow_issued_def by (intro exI [of _ ops] exI [of _ now] exI [of _ q] exI [of _ "[]"]) simp
    qed
    then show ?thesis using t(1) session_granted_snoc [OF se [OF t(2)]] r OpLogin d by simp
  next
    case (OpCallback now d answers q)
    obtain r st' effs where r: "site_callback V now d answers q ?st = (r, st', effs)" by (metis prod_cases3)
    note t = callback_tables [OF ok r]
    have f: "flow_issued (ops @ [x]) k g" if "flow_of st' k = Some g" for k g
      using t(2) [OF that] fl flow_issued_snoc OpCallback by simp
    have "session_granted ch enc V st0 (ops @ [x]) c s" if "sess st' c = Some s" for c s
    proof (cases "sess ?st c = Some s")
      case True
      then show ?thesis using session_granted_snoc [OF se] OpCallback by simp
    next
      case False
      then obtain i f u where n: "c = dwID d" "sqFlow q = Some i" "flow_of ?st i = Some f" "redeemed answers q now f u" "s = opened now d u"
        using t(3) [OF \<open>sess st' c = Some s\<close>] False by blast
      then show ?thesis using fl [OF n(3)] OpCallback unfolding session_granted_def
        by (intro exI [of _ ops] exI [of _ now] exI [of _ d] exI [of _ answers] exI [of _ q] exI [of _ "[]"] exI [of _ i] exI [of _ f] exI [of _ u]) simp
    qed
    then show ?thesis using t(1) f r OpCallback by simp
  next
    case (OpLogout now q)
    obtain r st' effs where r: "protected V now q (site_logout V q) ?st = (r, st', effs)" by (metis prod_cases3)
    note t = logout_tables [OF ok r]
    have "session_granted ch enc V st0 (ops @ [x]) c s" if "sess st' c = Some s" for c s
    proof -
      have "\<not> logs_out V ?st c x" using t(4) [of c] that r OpLogout by auto
      then show ?thesis by (rule session_granted_snoc [OF se [OF t(2) [OF that]]])
    qed
    then show ?thesis using t(1) t(3) fl flow_issued_snoc r OpLogout by (auto simp del: site_ops_simps(1))
  next
    case (OpRequest now q)
    note t = authenticate_tables [OF ok, of now q]
    show ?thesis using t(1) flow_issued_snoc [OF fl [OF t(3)]] session_granted_snoc [OF se [OF t(2)]] OpRequest by simp
  qed
qed

text \<open>
  C12.  Only people who logged in get in.  Whatever requests came before, a protected handler that is reached (that does not
  answer 401 or 403) was asked with the cookie of a session that is less than twelve hours old and not logged out; it was opened
  by a callback whose code the provider answered with this user, and that callback carried the state and the cookie of a login
  started less than five minutes before and not used since; and a request that is not a GET came from the site's own
  origin with the session's token.
\<close>

theorem site_access:
  assumes "protected V now q h (site_ops ch enc V ops st0) = (r, st', effs)" "spStatus r \<noteq> 401" "spStatus r \<noteq> 403"
    and "seSessions st0 = []" "seFlows st0 = []"
  shows "\<exists>c (s :: site_session). sqSession q = Some c \<and> now < ssExpires s \<and> (sqMethod q = ''GET'' \<or> sqOrigin q = siOrigin (svCfg V) \<and> sqCSRF q = ssCSRF s) \<and>
    (\<exists>pre t d answers q' post i f u pre0 t0 q0 mid. ops = pre @ OpCallback t d answers q' # post \<and>
       dwID d = c \<and> ssCSRF s = dwCSRF d \<and> ssUser s = u \<and> ssExpires s = t + sessionTTL \<and>
       sqFlow q' = Some i \<and> redeemed answers q' t f u \<and>
       pre = pre0 @ OpLogin t0 (i, fwState f, fwVerifier f) q0 # mid \<and> t < t0 + 5 * (60 * second) \<and> list_all (\<lambda>x. \<not> redeems i x) mid \<and>
       (\<forall>post1 x post2. post = post1 @ x # post2 \<longrightarrow>
          \<not> logs_out V (site_ops ch enc V (pre @ OpCallback t d answers q' # post1) st0) c x))"
proof -
  note inv = site_ops_inv [OF assms(4,5), of ch enc V ops]
  obtain a st1 effs1 where p: "authenticate now q (site_ops ch enc V ops st0) = (a, st1, effs1)" by (metis prod_cases3)
  obtain s where s: "a = Some s" "sqMethod q = ''GET'' \<or> sqOrigin q = siOrigin (svCfg V) \<and> sqCSRF q = ssCSRF s"
    using assms(1-3) p by (auto simp: protected_def status_only_def split: option.splits if_splits)
  obtain c where c: "sqSession q = Some c" "sess (site_ops ch enc V ops st0) c = Some s" "now < ssExpires s"
    using authenticate_tables(4) [OF inv [THEN conjunct1], of now q s] p s(1) by auto
  then have "session_granted ch enc V st0 ops c s" using inv by blast
  then obtain pre t d answers q' post i f u where g: "ops = pre @ OpCallback t d answers q' # post" "dwID d = c" "s = opened t d u"
    "sqFlow q' = Some i" "flow_issued pre i f" "redeemed answers q' t f u"
    "\<forall>post1 x post2. post = post1 @ x # post2 \<longrightarrow> \<not> logs_out V (site_ops ch enc V (pre @ OpCallback t d answers q' # post1) st0) c x"
    unfolding session_granted_def by blast
  obtain pre0 t0 q0 mid where f: "pre = pre0 @ OpLogin t0 (i, fwState f, fwVerifier f) q0 # mid" "fwExpires f = t0 + 5 * (60 * second)"
    "list_all (\<lambda>x. \<not> redeems i x) mid"
    using g(5) unfolding flow_issued_def by blast
  have o: "ssCSRF s = dwCSRF d" "ssUser s = u" "ssExpires s = t + sessionTTL" using g(3) by (simp_all add: opened_def)
  have "t < t0 + 5 * (60 * second)" using g(6) f(2) by (simp add: redeemed_def)
  with c(1,3) s(2) g(1,2,4,6,7) f(1,3) o show ?thesis
    by (intro exI [of _ c] exI [of _ s] conjI exI [of _ pre] exI [of _ t] exI [of _ d] exI [of _ answers] exI [of _ q']
      exI [of _ post] exI [of _ i] exI [of _ f] exI [of _ u] exI [of _ pre0] exI [of _ t0] exI [of _ q0] exI [of _ mid])
qed

section \<open>An example\<close>

definition demo_site :: site_server where
  "demo_site =
     \<lparr>svCfg = site_defaults (SiteConf0\<lparr>siOrigin := ''https://mi.example''\<rparr>), svTrusted = [], svAdmins = [], svClientID = ''c''\<rparr>"

definition demo_web :: "string \<Rightarrow> site_request" where
  "demo_web query =
     \<lparr>sqMethod = ''GET'', sqHost = ''mi.example'', sqOrigin = [], sqCSRF = [], sqRemote = ''192.0.2.1:4000'', sqForwarded = [],
      sqSession = Some ''sid'', sqFlow = Some ''fid'', sqQuery = query, sqPathID = []\<rparr>"

definition demo_draw :: session_draw where
  "demo_draw = \<lparr>dwID = ''sid'', dwCSRF = ''tok'', dwRef = replicate 16 1\<rparr>"

definition demo_answers :: "string \<Rightarrow> string \<Rightarrow> json option \<times> (string \<Rightarrow> json option)" where
  "demo_answers code verifier =
     (Some (JObj [(''access_token'', JStr ''a''), (''token_type'', JStr ''Bearer'')]),
      \<lambda>_. Some (JObj [(''data'', JObj [(''id'', JStr ''42''), (''name'', JStr ''Bob'')])]))"

definition demo_site_ops :: "site_op list" where
  "demo_site_ops =
     [OpLogin 0 (''fid'', ''st'', ''v'') (demo_web []), OpCallback 10 demo_draw demo_answers (demo_web ''code=x&state=st'')]"

definition demo_site_state :: "wire_atom site_state" where
  "demo_site_state = \<lparr>seMgr = demo_mgr, seHistory = Map.empty, seSessions = [], seFlows = [], seViewers = Map.empty, seTotal = 0\<rparr>"

lemma demo_queries:
  "query_value (demo_web ''code=x&state=st'') ''state'' = ''st''" "query_value (demo_web ''code=x&state=st'') ''code'' = ''x''"
  "query_value (demo_web ''code=x&state=st'') ''error'' = []"
  by code_simp+

lemma demo_exchange:
  "exchange (fst (demo_answers c v)) (snd (demo_answers c v)) = Some \<lparr>usID = ''42'', usName = ''Bob''\<rparr>"
proof -
  have "fold_name ''Bearer'' = ''bearer''" by code_simp
  then show ?thesis
    by (simp add: exchange_def demo_answers_def token_reply_def me_reply_def into_user_def field_decoder_def on_field_def x_id_ok_def
        is_digit_def)
qed

lemma demo_session:
  "authenticate 20 (demo_web []) (site_ops ch enc demo_site demo_site_ops demo_site_state) =
     (Some (opened 10 demo_draw \<lparr>usID = ''42'', usName = ''Bob''\<rparr>), site_ops ch enc demo_site demo_site_ops demo_site_state, [])"
proof -
  have login: "fst (snd (site_login ch enc demo_site 0 (''fid'', ''st'', ''v'') (demo_web []) demo_site_state)) =
      demo_site_state\<lparr>seFlows := [(''fid'', \<lparr>fwState = ''st'', fwVerifier = ''v'', fwExpires = 5 * (60 * second),
        fwNext = returnPath demo_site (query_value (demo_web []) ''next'')\<rparr>)]\<rparr>"
    by (simp add: site_login_def Let_def pruneLocked_def demo_site_state_def demo_web_def)
  have sf: "sqFlow (demo_web x) = Some ''fid''" "sqSession (demo_web x) = Some ''sid''" for x by (simp_all add: demo_web_def)
  have e: "seSessions demo_site_state = []" "seFlows demo_site_state = []" by (simp_all add: demo_site_state_def)
  let ?a = "demo_answers ''x'' ''v''" and ?u = "\<lparr>usID = ''42'', usName = ''Bob''\<rparr>"
  let ?st1 = "demo_site_state\<lparr>seFlows := [(''fid'', \<lparr>fwState = ''st'', fwVerifier = ''v'', fwExpires = 5 * (60 * second),
        fwNext = returnPath demo_site (query_value (demo_web []) ''next'')\<rparr>)]\<rparr>"
  have a: "(case ?a of (token, me) \<Rightarrow> F token me) = F (fst ?a) (snd ?a)" for F :: "json option \<Rightarrow> (string \<Rightarrow> json option) \<Rightarrow> wire_atom site_result"
    by (simp add: case_prod_beta)
  have "startSession demo_site 10 demo_draw (demo_web ''code=x&state=st'') ?u (?st1\<lparr>seFlows := []\<rparr>) =
      (Some (site_cookie demo_site sessionCookie ''sid'' 43200), demo_site_state\<lparr>seSessions := [(''sid'', opened 10 demo_draw ?u)]\<rparr>,
       site_audit demo_site_state (Event0\<lparr>evType := ''auth.login'', evActor := auditActor demo_site (demo_web ''code=x&state=st'') (Some (opened 10 demo_draw ?u)), evOutcome := ''success''\<rparr>))"
    by (simp add: startSession_def pruneLocked_def e sf drop_session_def opened_def demo_draw_def sessionTTL_def site_audit_def demo_site_state_def Let_def)
  then have "fst (snd (site_callback demo_site 10 demo_draw demo_answers (demo_web ''code=x&state=st'') ?st1)) =
      demo_site_state\<lparr>seSessions := [(''sid'', opened 10 demo_draw ?u)]\<rparr>"
    using demo_exchange [of "''x''" "''v''"] by (simp add: site_callback_def sf demo_queries a Let_def)
  then have "site_ops ch enc demo_site demo_site_ops demo_site_state =
      demo_site_state\<lparr>seSessions := [(''sid'', opened 10 demo_draw ?u)]\<rparr>"
    by (simp add: site_ops_def demo_site_ops_def login)
  then show ?thesis
    by (simp add: authenticate_def sf pruneLocked_def opened_def sessionTTL_def demo_site_state_def)
qed

lemma site_access_witness:
  "\<exists>c (s :: site_session). sqSession (demo_web []) = Some c \<and> 20 < ssExpires s"
proof -
  let ?h = "\<lambda>ss st. (site_reply JNull, st, [])"
  have p: "protected demo_site 20 (demo_web []) ?h (site_ops (\<lambda>v. v) (\<lambda>q. []) demo_site demo_site_ops demo_site_state) =
      (site_reply JNull, site_ops (\<lambda>v. v) (\<lambda>q. []) demo_site demo_site_ops demo_site_state, [])"
    using demo_session by (simp add: protected_def demo_web_def)
  have "spStatus (site_reply JNull) \<noteq> 401" "spStatus (site_reply JNull) \<noteq> 403" by (simp_all add: site_reply_def status_only_def)
  from site_access [OF p this] show ?thesis by (simp add: demo_site_state_def) blast
qed

section \<open>Viewers\<close>

text \<open>The streams that are open after some requests; anything else leaves the slots alone.\<close>

inductive viewer_run :: "site_server \<Rightarrow> 'a site_state \<Rightarrow> site_session list \<Rightarrow> bool" for V where
  start: "seTotal st = 0 \<Longrightarrow> seViewers st = Map.empty \<Longrightarrow> viewer_run V st []"
| opens: "viewer_run V st os \<Longrightarrow> stream_open V q ss st = (Inr i, st') \<Longrightarrow> viewer_run V st' (ss # os)"
| refused: "viewer_run V st os \<Longrightarrow> stream_open V q ss st = (Inl n, st') \<Longrightarrow> viewer_run V st' os"
| closes: "viewer_run V st os \<Longrightarrow> ss \<in> set os \<Longrightarrow> viewer_run V (stream_close ss st) (remove1 ss os)"
| other: "viewer_run V st os \<Longrightarrow> seTotal st' = seTotal st \<Longrightarrow> seViewers st' = seViewers st \<Longrightarrow> viewer_run V st' os"

definition open_of :: "string \<Rightarrow> site_session list \<Rightarrow> nat" where
  "open_of u os = length (filter (\<lambda>s. usID (ssUser s) = u) os)"

lemma open_of_simps [simp]:
  "open_of u [] = 0" "open_of u (s # os) = (if usID (ssUser s) = u then 1 else 0) + open_of u os"
  by (simp_all add: open_of_def)

lemma open_of_remove1:
  "s \<in> set os \<Longrightarrow> open_of u os = (if usID (ssUser s) = u then 1 else 0) + open_of u (remove1 s os)"
  by (induction os) auto

definition slots_for :: "site_session list \<Rightarrow> string \<rightharpoonup> int" where
  "slots_for os u = (if open_of u os = 0 then None else Some (int (open_of u os)))"

lemma slots_viewers: "seViewers st = slots_for os \<Longrightarrow> viewers_of u st = int (open_of u os)"
  by (simp add: viewers_of_def slots_for_def)

lemma slots_for_Cons: "slots_for (s # os) = (slots_for os)(usID (ssUser s) \<mapsto> int (open_of (usID (ssUser s)) os) + 1)"
  by (rule ext) (simp add: slots_for_def)

lemma slots_for_remove1:
  assumes "s \<in> set os" and n: "n = int (open_of (usID (ssUser s)) os) - 1"
  shows "slots_for (remove1 s os) = (slots_for os)(usID (ssUser s) := (if n = 0 then None else Some n))"
  using open_of_remove1 [OF assms(1)] n by (intro ext) (simp add: slots_for_def)

lemma viewer_run_inv:
  assumes "viewer_run V st os" "1 \<le> siMaxViewers (svCfg V)" "1 \<le> siMaxViewersPerUser (svCfg V)"
  shows "seTotal st = int (length os) \<and> int (length os) \<le> siMaxViewers (svCfg V) \<and>
         (\<forall>u. int (open_of u os) \<le> siMaxViewersPerUser (svCfg V)) \<and> seViewers st = slots_for os"
  using assms
proof (induction rule: viewer_run.induct)
  case (opens st os q ss i st')
  have v: "viewers_of u st = int (open_of u os)" for u using opens by (intro slots_viewers) blast
  then show ?case using opens by (auto simp: stream_open_def Let_def slots_for_Cons split: option.splits if_splits)
next
  case (closes st os ss)
  have v: "viewers_of u st = int (open_of u os)" for u using closes by (intro slots_viewers) blast
  have "length os = Suc (length (remove1 ss os))" using closes.hyps(2) by (simp add: length_remove1) (metis Suc_pred length_pos_if_in_set)
  moreover have "\<forall>u. int (open_of u (remove1 ss os)) \<le> siMaxViewersPerUser (svCfg V)"
  proof
    fix u
    have "int (open_of u os) \<le> siMaxViewersPerUser (svCfg V)" using closes by blast
    then show "int (open_of u (remove1 ss os)) \<le> siMaxViewersPerUser (svCfg V)" using open_of_remove1 [OF closes.hyps(2), of u] by simp
  qed
  ultimately show ?case using closes slots_for_remove1 [OF closes.hyps(2) refl]
    by (simp add: stream_close_def Let_def v)
next
  case (refused st os q ss n st')
  have "st' = st" using refused.hyps(2) by (auto simp: stream_open_def Let_def split: option.splits if_splits)
  then show ?case using refused by simp
next
  case (start st)
  then show ?case by (simp add: slots_for_def fun_eq_iff)
qed simp

text \<open>
  Viewers stay within their limits.  However streams are opened, refused and closed, the count of slots is the number of
  open streams, neither they nor those of one user exceed the configured limits, and when all are closed no entry is left.
\<close>

theorem viewer_limits:
  assumes "NewSite cfg clientID secret = Inr V" "viewer_run V st os"
  shows "seTotal st = int (length os) \<and> seTotal st \<le> siMaxViewers (svCfg V) \<and>
         int (open_of u os) \<le> siMaxViewersPerUser (svCfg V) \<and> (os = [] \<longrightarrow> seViewers st = Map.empty)"
proof -
  have "1 \<le> siMaxViewers (svCfg V)" "1 \<le> siMaxViewersPerUser (svCfg V)"
    using assms(1) by (auto simp: NewSite_def Let_def split: if_splits sum.splits option.splits)
  then show ?thesis using viewer_run_inv [OF assms(2)] by (auto simp: fun_eq_iff slots_for_def)
qed

section \<open>Ways back\<close>

lemma base_path_kept: "NewSite cfg clientID secret = Inr V \<Longrightarrow> base_path_ok (siBasePath (svCfg V))"
  by (auto simp: NewSite_def Let_def site_defaults_def split: if_splits sum.splits option.splits)

lemma base_path_start:
  assumes "base_path_ok b" "b \<noteq> []"
  shows "\<exists>c w. b = CHR ''/'' # c # w \<and> c \<noteq> CHR ''/''"
proof -
  obtain w where w: "b = CHR ''/'' # w" "list_all (\<lambda>w. w \<noteq> []) (Split w ''/'')"
    using assms by (cases b) (auto simp: base_path_ok_def list_all_iff)
  have "w \<noteq> []" using w(2) by (subst (asm) Split.simps) auto
  moreover have "hd w \<noteq> CHR ''/''"
  proof
    assume "hd w = CHR ''/''"
    with \<open>w \<noteq> []\<close> have "Index w ''/'' = Some 0" by (cases w) (simp_all add: HasPrefix_def)
    then show False using w(2) by (subst (asm) Split.simps) simp
  qed
  ultimately show ?thesis using w(1) by (cases w) auto
qed

definition site_page :: "string \<Rightarrow> bool" where
  "site_page p \<longleftrightarrow> p \<in> {''/'', ''/broadcast'', ''/admin''} \<or> (\<exists>i. length i = 16 \<and> p = ''/channels/'' @ EncodeToString i)"

lemma safeReturnPath_page: "site_page (safeReturnPath p)"
  by (auto simp: safeReturnPath_def site_page_def parseID_def split: option.splits)

lemma returnPath_page: "\<exists>page. returnPath V s = siBasePath (svCfg V) @ page \<and> site_page page"
proof -
  have "site_page ''/''" "site_page ''/admin''" by (simp_all add: site_page_def)
  then show ?thesis using safeReturnPath_page by (simp add: returnPath_def Let_def)
qed

text \<open>
  C40.  A login leads back to a page of the site.  Whatever a link asks for, the path returned to is the base path followed by one
  of the site's pages, a channel page with an identifier of sixteen bytes included, and never starts like another host's address.
\<close>

theorem return_path_local:
  assumes "NewSite cfg clientID secret = Inr V"
  shows "(\<exists>page. returnPath V s = siBasePath (svCfg V) @ page \<and> site_page page) \<and>
         HasPrefix (returnPath V s) ''/'' \<and> \<not> HasPrefix (returnPath V s) ''//''"
proof -
  let ?b = "siBasePath (svCfg V)"
  obtain page where p: "returnPath V s = ?b @ page" "site_page page" using returnPath_page by blast
  have start: "\<exists>w. page = CHR ''/'' # w \<and> (w = [] \<or> hd w \<noteq> CHR ''/'')" using p(2) by (auto simp: site_page_def)
  have "HasPrefix (?b @ page) ''/'' \<and> \<not> HasPrefix (?b @ page) ''//''"
  proof (cases "?b = []")
    case True
    obtain w where w: "page = CHR ''/'' # w" "w = [] \<or> hd w \<noteq> CHR ''/''" using start by blast
    then show ?thesis using True by (cases w) (auto simp: HasPrefix_def)
  next
    case False
    from base_path_start [OF base_path_kept [OF assms] this] show ?thesis by (auto simp: HasPrefix_def)
  qed
  then show ?thesis using p by auto
qed

definition demo_conf :: SiteConf where
  "demo_conf = SiteConf0\<lparr>siOrigin := ''https://mi.example'', siBasePath := ''/mi'', siRTMPURL := ''rtmp://mi.example/live''\<rparr>"

lemma demo_conf_ok: "\<exists>V. NewSite demo_conf ''id'' ''secret'' = Inr V \<and> siBasePath (svCfg V) = ''/mi'' \<and> siMaxViewers (svCfg V) = 20"
proof -
  have "check_origin ''https://mi.example'' = Inr (URL0\<lparr>uScheme := ''https'', uHost := ''mi.example''\<rparr>)" "rtmp_url_ok ''rtmp://mi.example/live''"
    "base_path_ok ''/mi''" by code_simp+
  then show ?thesis
    by (simp add: NewSite_def demo_conf_def SiteConf0_def Let_def site_defaults_def or_default_def or_default_int_def)
qed

lemma return_path_local_witness:
  "\<exists>V. NewSite demo_conf ''id'' ''secret'' = Inr V \<and> HasPrefix (returnPath V ''//evil.example'') ''/mi/''"
proof -
  obtain V where V: "NewSite demo_conf ''id'' ''secret'' = Inr V" "siBasePath (svCfg V) = ''/mi''" using demo_conf_ok by blast
  have "returnPath V ''//evil.example'' = ''/mi/''" using V(2) by (simp add: returnPath_def HasPrefix_def)
  then show ?thesis using return_path_local [OF V(1), of "''//evil.example''"] V(1) by (auto simp: HasPrefix_def)
qed

lemma viewer_limits_witness:
  "\<exists>V (st :: wire_atom site_state). NewSite demo_conf ''id'' ''secret'' = Inr V \<and>
     viewer_run V st [opened 10 demo_draw \<lparr>usID = ''42'', usName = ''Bob''\<rparr>] \<and> seTotal st = 1 \<and> 1 \<le> siMaxViewersPerUser (svCfg V)"
proof -
  obtain V where V: "NewSite demo_conf ''id'' ''secret'' = Inr V" "siMaxViewers (svCfg V) = 20" "siBasePath (svCfg V) = ''/mi''"
    using demo_conf_ok by blast
  have two: "siMaxViewersPerUser (svCfg V) \<ge> 1" using V(1) by (auto simp: NewSite_def Let_def split: if_splits sum.splits option.splits)
  let ?s = "opened 10 demo_draw \<lparr>usID = ''42'', usName = ''Bob''\<rparr>"
  let ?q = "(demo_web [])\<lparr>sqPathID := EncodeToString (replicate 16 7)\<rparr>"
  obtain i st' where o: "stream_open V ?q ?s demo_site_state = (Inr i, st')"
    using V(2) two by (auto simp: stream_open_def parseID_def demo_web_def demo_site_state_def viewers_of_def Let_def)
  have "viewer_run V demo_site_state []" by (rule viewer_run.start) (simp_all add: demo_site_state_def)
  from viewer_run.opens [OF this o] have run: "viewer_run V st' [?s]" .
  show ?thesis using V(1) run viewer_limits [OF V(1) run, of "''42''"] two by auto
qed

end
