(* ===== verification/Site_Broadcast.thy ===== *)
theory Site_Broadcast
  imports Site_Session Flv
begin

text \<open>
  \<^verbatim>\<open>internal/site/broadcast.go\<close>, \<^verbatim>\<open>broadcast_history.go\<close> and \<^verbatim>\<open>stream_key.go\<close>: a user's stream key, the user's
  broadcast, and the settings of earlier ones.  The handlers hold the lock \<^verbatim>\<open>mutate\<close>, so each is one step.
\<close>

text \<open>
  What varies between runs: the clock, random bytes, the order of map iterations, whether the key cache and the history could
  be written; and whether a function to wake the YP client is set.
\<close>

record site_env =
  wnNow :: time
  wnRand :: "byte list"
  wnAccounts :: "string list"
  wnInputs :: "string list"
  wnNodes :: "gnuid list"
  wnChans :: "gnuid list"
  wnSaved :: "nat \<Rightarrow> bool"
  wnHistory :: bool
  wnBump :: bool

section \<open>Stream keys\<close>

text \<open>The text for a number below 26 * 26 * 10000, which is drawn uniformly.\<close>

definition four_digits :: "string \<Rightarrow> string" where
  "four_digits s = replicate (4 - length s) CHR ''0'' @ s"

definition shortStreamKey :: "nat \<Rightarrow> string" where
  "shortStreamKey n =
     [char_of (97 + n div (26 * 10000)), char_of (97 + (n div 10000) mod 26)] @ four_digits (Itoa (int (n mod 10000)))"

definition site_key :: "string list \<Rightarrow> site_session \<Rightarrow> 'a Manager \<Rightarrow> string" where
  "site_key order ss m =
     (case find (\<lambda>e. fst e = site_account ss) (List_keys order (keys m)) of None \<Rightarrow> [] | Some e \<Rightarrow> snd e)"

datatype issue_error = DrawFailed | KeyError key_error | NoUnusedKey

text \<open>\<open>gen i\<close> is what attempt \<open>i\<close> draws, \<open>saved i\<close> whether its key could be saved.\<close>

fun issue_loop ::
  "nat \<Rightarrow> nat \<Rightarrow> (nat \<Rightarrow> string option) \<Rightarrow> (nat \<Rightarrow> bool) \<Rightarrow> string \<Rightarrow> string \<Rightarrow> 'a Manager \<Rightarrow> (issue_error + string) \<times> 'a Manager" where
  "issue_loop 0 i gen saved owner old m = (Inl NoUnusedKey, m)"
| "issue_loop (Suc n) i gen saved owner old m =
     (case gen i of
        None \<Rightarrow> (Inl DrawFailed, m)
      | Some key \<Rightarrow>
          if key = old \<or> IsIssuedKey key (keys m) then issue_loop n (Suc i) gen saved owner old m
          else (case Manager_IssueStreamKey (saved i) owner key m of
            (None, m') \<Rightarrow> (Inr key, m')
          | (Some ErrStreamKeyAssigned, m') \<Rightarrow> issue_loop n (Suc i) gen saved owner old m'
          | (Some e, m') \<Rightarrow> (Inl (KeyError e), m')))"

definition issueShortKey ::
  "(nat \<Rightarrow> string option) \<Rightarrow> (nat \<Rightarrow> bool) \<Rightarrow> string \<Rightarrow> string \<Rightarrow> 'a Manager \<Rightarrow> (issue_error + string) \<times> 'a Manager" where
  "issueShortKey gen saved owner old m = issue_loop 128 0 gen saved owner old m"

definition operation_event :: "site_server \<Rightarrow> site_request \<Rightarrow> site_session \<Rightarrow> string \<Rightarrow> int \<Rightarrow> Event" where
  "operation_event V q ss kind code =
     Event0\<lparr>evType := kind, evActor := auditActor V q (Some ss), evOwner := site_account ss,
       evOutcome := (if code \<ge> 400 then ''failure'' else ''success''),
       evReason := (if code \<ge> 400 then ''operation_rejected'' else [])\<rparr>"

definition rotateKey ::
  "site_env \<Rightarrow> (nat \<Rightarrow> nat option) \<Rightarrow> site_server \<Rightarrow> site_request \<Rightarrow> site_session \<Rightarrow> 'a site_state \<Rightarrow> 'a site_result" where
  "rotateKey E draw V q ss st =
     (let m = seMgr st; old = site_key (wnAccounts E) ss m;
          kind = (if old \<noteq> [] then ''key.rotate'' else ''key.issue'');
          r = (if GetByStreamKey old m \<noteq> None then (status_only 409, m)
               else if old = [] \<and> length (List_keys (wnAccounts E) (keys m)) \<ge> 10000 then (status_only 503, m)
               else case issueShortKey (\<lambda>i. map_option shortStreamKey (draw i)) (wnSaved E) (site_account ss) old m of
                 (Inl _, m') \<Rightarrow> (status_only 500, m')
               | (Inr key, m') \<Rightarrow> (site_reply (JObj [(''streamKey'', JStr key)]), m'))
      in (fst r, st\<lparr>seMgr := snd r\<rparr>, site_audit st (operation_event V q ss kind (spStatus (fst r)))))"

section \<open>Earlier broadcasts\<close>

text \<open>\<open>sha\<close> is SHA-256.\<close>

definition historyPath :: "(string \<Rightarrow> byte list) \<Rightarrow> site_server \<Rightarrow> string \<Rightarrow> string" where
  "historyPath sha V owner = siBroadcastHistoryDir (svCfg V) @ ''/'' @ EncodeToString (sha owner) @ ''.json''"

definition readHistory :: "(string \<Rightarrow> byte list) \<Rightarrow> site_server \<Rightarrow> string \<Rightarrow> 'a site_state \<Rightarrow> historyEntry list option" where
  "readHistory sha V owner st =
     (case seHistory st (historyPath sha V owner) of
        None \<Rightarrow> Some []
      | Some HistBad \<Rightarrow> None
      | Some (HistFile version es) \<Rightarrow> if version \<noteq> 1 \<or> length es > 10 then None else Some es)"

text \<open>The file is replaced by renaming, so a failure leaves the old one.\<close>

definition saveHistory ::
  "(string \<Rightarrow> byte list) \<Rightarrow> site_env \<Rightarrow> site_server \<Rightarrow> string \<Rightarrow> broadcastSettings \<Rightarrow> historyEntry list \<Rightarrow> 'a site_state \<Rightarrow> bool \<times> 'a site_state" where
  "saveHistory sha E V owner settings previous st =
     (let es = \<lparr>heSettings = settings, heCreatedAt = wnNow E\<rparr> # previous in
      if wnHistory E
      then (True, st\<lparr>seHistory := (seHistory st)(historyPath sha V owner \<mapsto> HistFile 1 (if length es > 10 then take 10 es else es))\<rparr>)
      else (False, st))"

section \<open>What is shown of a channel\<close>

record channelView =
  cvID :: string
  cvName :: string
  cvGenre :: string
  cvDescription :: string
  cvComment :: string
  cvUptime :: "int option"
  cvContactURL :: string
  cvContentType :: string
  cvBitrate :: u32
  cvReceiving :: bool
  cvListeners :: int
  cvYellowPage :: string
  cvPlayable :: "bool option"

definition view :: "site_env \<Rightarrow> 'a Channel \<Rightarrow> channelView" where
  "view E ch =
     (let i = info ch in
      \<lparr>cvID = EncodeToString (chID ch), cvName = Name i, cvGenre = Genre i, cvDescription = Desc i, cvComment = Comment i,
       cvUptime = (if isBroadcasting ch then Some (uint (UptimeSeconds (wnNow E) ch)) else None), cvContactURL = URL i,
       cvContentType = CType i, cvBitrate = Bitrate i, cvReceiving = IsReceiving (wnNow E) ch,
       cvListeners = TotalListeners (wnNodes E) (wnNow E) ch, cvYellowPage = [], cvPlayable = None\<rparr>)"

text \<open>Fields that are empty are left out where the code says so.\<close>

definition omit_empty :: "string \<Rightarrow> string \<Rightarrow> (string \<times> json) list" where
  "omit_empty name s = (if s = [] then [] else [(name, JStr s)])"

definition view_json :: "channelView \<Rightarrow> json" where
  "view_json v =
     JObj ([(''id'', JStr (cvID v)), (''name'', JStr (cvName v)), (''genre'', JStr (cvGenre v)), (''description'', JStr (cvDescription v))] @
       omit_empty ''comment'' (cvComment v) @ (case cvUptime v of None \<Rightarrow> [] | Some n \<Rightarrow> [(''uptime'', jint n)]) @
       [(''contactUrl'', JStr (cvContactURL v)), (''contentType'', JStr (cvContentType v)), (''bitrate'', jint (uint (cvBitrate v))),
        (''receiving'', JBool (cvReceiving v)), (''listeners'', jint (cvListeners v))] @
       omit_empty ''yellowPage'' (cvYellowPage v) @ (case cvPlayable v of None \<Rightarrow> [] | Some b \<Rightarrow> [(''playable'', JBool b)]))"

definition history_json :: "(time \<Rightarrow> string) \<Rightarrow> historyEntry \<Rightarrow> json" where
  "history_json T e =
     (let s = heSettings e in
      JObj [(''name'', JStr (bsName s)), (''genre'', JStr (bsGenre s)), (''description'', JStr (bsDescription s)),
        (''comment'', JStr (bsComment s)), (''contactUrl'', JStr (bsContactURL s)), (''createdAt'', JStr (T (heCreatedAt e)))])"

text \<open>\<open>T\<close> formats a time.\<close>

definition broadcastInfo ::
  "(time \<Rightarrow> string) \<Rightarrow> (string \<Rightarrow> byte list) \<Rightarrow> site_env \<Rightarrow> site_server \<Rightarrow> site_session \<Rightarrow> 'a site_state \<Rightarrow> 'a site_result" where
  "broadcastInfo T sha E V ss st =
     (let m = seMgr st; key = site_key (wnAccounts E) ss m;
          own = (case GetByStreamKey key m of None \<Rightarrow> JNull | Some r \<Rightarrow> view_json (view E (store m r)))
      in case readHistory sha V (site_account ss) st of
           None \<Rightarrow> (status_only 500, st, [])
         | Some h \<Rightarrow> (site_reply (JObj [(''channel'', own), (''history'', JArr (map (history_json T) h)),
             (''rtmpUrl'', JStr (siRTMPURL (svCfg V))), (''streamKey'', JStr key)]), st, []))"

section \<open>A new broadcast\<close>

record broadcastInput =
  biName :: string
  biGenre :: string
  biDescription :: string
  biComment :: string
  biContactURL :: string
  biBitrate :: int

definition broadcastInput0 :: broadcastInput where
  "broadcastInput0 = \<lparr>biName = [], biGenre = [], biDescription = [], biComment = [], biContactURL = [], biBitrate = 0\<rparr>"

definition input_fields :: "(string \<times> broadcastInput decoder) list" where
  "input_fields =
     [(''name'', on_field biName (\<lambda>x. biName_update (\<lambda>_. x)) into_string),
      (''genre'', on_field biGenre (\<lambda>x. biGenre_update (\<lambda>_. x)) into_string),
      (''description'', on_field biDescription (\<lambda>x. biDescription_update (\<lambda>_. x)) into_string),
      (''comment'', on_field biComment (\<lambda>x. biComment_update (\<lambda>_. x)) into_string),
      (''contactUrl'', on_field biContactURL (\<lambda>x. biContactURL_update (\<lambda>_. x)) into_string),
      (''bitrate'', on_field biBitrate (\<lambda>x. biBitrate_update (\<lambda>_. x)) into_int)]"

text \<open>With \<^verbatim>\<open>DisallowUnknownFields\<close> a member that matches no field is an error.\<close>

definition known_fields :: "(string \<times> 'b decoder) list \<Rightarrow> json \<Rightarrow> bool" where
  "known_fields fs j \<longleftrightarrow> (case j of JObj ms \<Rightarrow> list_all (\<lambda>m. field_decoder fs (fst m) \<noteq> None) ms | _ \<Rightarrow> True)"

text \<open>The body is \<open>None\<close> unless it is exactly one JSON value within 8192 bytes.\<close>

definition read_input :: "json option \<Rightarrow> broadcastInput option" where
  "read_input body =
     (case body of
        None \<Rightarrow> None
      | Some j \<Rightarrow> if known_fields input_fields j then into_struct input_fields j broadcastInput0 else None)"

definition with_prefix :: "string \<Rightarrow> string" where
  "with_prefix g = (if \<not> HasPrefix g ''yp'' then ''yp'' @ g else g)"

text \<open>Trimming; the genre of the form is kept beside the one for the YP.\<close>

definition trim_input :: "broadcastInput \<Rightarrow> broadcastInput" where
  "trim_input i = i\<lparr>biName := TrimSpace (biName i), biGenre := TrimSpace (biGenre i), biContactURL := TrimSpace (biContactURL i)\<rparr>"

definition contact_ok :: "string \<Rightarrow> bool" where
  "contact_ok s \<longleftrightarrow>
     s = [] \<or> (case url_Parse s of
        None \<Rightarrow> False
      | Some u \<Rightarrow> Hostname u \<noteq> [] \<and> (uScheme u = ''http'' \<or> uScheme u = ''https'') \<and> \<not> uUser u)"

text \<open>The lengths are tested before the contact URL is trimmed.\<close>

definition input_ok :: "broadcastInput \<Rightarrow> bool" where
  "input_ok i \<longleftrightarrow>
     TrimSpace (biName i) \<noteq> [] \<and> length (TrimSpace (biName i)) \<le> 256 \<and> length (with_prefix (TrimSpace (biGenre i))) \<le> 256 \<and>
     length (biDescription i) \<le> 2048 \<and> length (biComment i) \<le> 2048 \<and> length (biContactURL i) \<le> 2048 \<and>
     0 \<le> biBitrate i \<and> biBitrate i \<le> 2147483647 \<and> contact_ok (TrimSpace (biContactURL i))"

definition input_info :: "broadcastInput \<Rightarrow> ChannelInfo" where
  "input_info i =
     \<lparr>Name = biName i, URL = biContactURL i, Desc = biDescription i, Comment = biComment i, Genre = with_prefix (biGenre i),
      CType = ''FLV'', MIMEType = ''video/x-flv'', Ext = ''.flv'', Bitrate = of_int (biBitrate i)\<rparr>"

definition input_settings :: "broadcastInput \<Rightarrow> broadcastSettings" where
  "input_settings i =
     \<lparr>bsName = biName i, bsGenre = biGenre i, bsDescription = biDescription i, bsComment = biComment i, bsContactURL = biContactURL i\<rparr>"

definition commit_run :: "time \<Rightarrow> nat \<Rightarrow> 'a Manager \<Rightarrow> 'a Manager \<times> 'a site_effect list" where
  "commit_run now r m =
     (case AuditRun (store m r) of
        None \<Rightarrow> (m, [])
      | Some run \<Rightarrow> (case Run_Commit now run of
          (run', es) \<Rightarrow> (m\<lparr>store := (store m)(r := (store m r)\<lparr>AuditRun := Some run'\<rparr>)\<rparr>, map (SiteMgr \<circ> ChanEffect r \<circ> AuditEmit) es)))"

definition site_bump :: "site_env \<Rightarrow> 'a site_effect list" where
  "site_bump E = (if wnBump E then [SiteBump] else [])"

definition rejects :: "site_server \<Rightarrow> site_request \<Rightarrow> site_session \<Rightarrow> int \<Rightarrow> 'a site_state \<Rightarrow> 'a site_result" where
  "rejects V q ss code st = (status_only code, st, site_audit st (operation_event V q ss ''broadcast.create'' code))"

text \<open>The part under the lock, with the trimmed input.\<close>

definition create_broadcast ::
  "(string \<Rightarrow> byte list) \<Rightarrow> site_env \<Rightarrow> site_server \<Rightarrow> site_request \<Rightarrow> site_session \<Rightarrow> broadcastInput \<Rightarrow> 'a site_state \<Rightarrow> 'a site_result" where
  "create_broadcast sha E V q ss i st =
     (let m = seMgr st; key = site_key (wnAccounts E) ss m; owner = site_account ss;
          clientIP = broadcastClientIP (svTrusted V) (sqRemote q) (sqForwarded q); actor = auditActor V q (Some ss) in
      if key = [] then rejects V q ss 409 st
      else if GetByStreamKey key m \<noteq> None then rejects V q ss 409 st
      else case readHistory sha V owner st of
        None \<Rightarrow> rejects V q ss 500 st
      | Some history \<Rightarrow>
          if clientIP = [] then rejects V q ss 400 st
          else (case BroadcastWithAudit \<lparr>bcNow = wnNow E, bcRand = wnRand E, bcOrder = wnAccounts E\<rparr> key (input_info i)
                  (TrackInfo0\<lparr>tiCreator := clientIP @ '' via PecaMI''\<rparr>) actor (Some (biGenre i)) True m of
            (Inl _, m1, effs) \<Rightarrow> (case rejects V q ss 409 (st\<lparr>seMgr := m1\<rparr>) of (r, st1, effs1) \<Rightarrow> (r, st1, map SiteMgr effs @ effs1))
          | (Inr r, m1, effs) \<Rightarrow>
              (case saveHistory sha E V owner (input_settings i) history (st\<lparr>seMgr := m1\<rparr>) of
                 (False, st1) \<Rightarrow>
                   (case StopInstance (wnInputs E) (wnNow E) r actor ''setup_rollback'' m1 of
                      (_, m2, effs2) \<Rightarrow> (status_only 500, st1\<lparr>seMgr := m2\<rparr>, map SiteMgr (effs @ effs2)))
               | (True, st1) \<Rightarrow>
                   (case commit_run (wnNow E) r m1 of
                      (m2, effs2) \<Rightarrow> (site_reply (view_json (view E (store m2 r))), st1\<lparr>seMgr := m2\<rparr>,
                        map SiteMgr effs @ effs2 @ site_bump E)))))"

definition site_broadcast ::
  "(string \<Rightarrow> byte list) \<Rightarrow> site_env \<Rightarrow> json option \<Rightarrow> site_server \<Rightarrow> site_request \<Rightarrow> site_session \<Rightarrow> 'a site_state \<Rightarrow> 'a site_result" where
  "site_broadcast sha E body V q ss st =
     (case read_input body of
        None \<Rightarrow> rejects V q ss 400 st
      | Some i \<Rightarrow> if \<not> input_ok i then rejects V q ss 400 st else create_broadcast sha E V q ss (trim_input i) st)"

definition stopBroadcast ::
  "site_env \<Rightarrow> site_server \<Rightarrow> site_request \<Rightarrow> site_session \<Rightarrow> 'a site_state \<Rightarrow> 'a site_result" where
  "stopBroadcast E V q ss st =
     (let m = seMgr st in
      case (case GetByStreamKey (site_key (wnAccounts E) ss m) m of
              None \<Rightarrow> (m, [])
            | Some r \<Rightarrow> (case StopInstance (wnInputs E) (wnNow E) r (auditActor V q (Some ss)) ''user_stop'' m of (_, m', effs) \<Rightarrow> (m', effs)))
      of (m', effs) \<Rightarrow> (site_reply (JObj [(''ok'', JBool True)]), st\<lparr>seMgr := m'\<rparr>, map SiteMgr effs @ site_bump E))"

section \<open>Keys\<close>

lemma four_digits_Itoa:
  assumes "n < 10000"
  shows "length (four_digits (Itoa (int n))) = 4" "\<forall>c \<in> set (four_digits (Itoa (int n))). 48 \<le> char_code c \<and> char_code c \<le> 57"
    "digits_val (four_digits (Itoa (int n))) = n"
proof -
  have d: "Itoa (int n) = Itoa_nat n" by (simp add: Itoa_def)
  have len: "m < 10 ^ Suc k \<Longrightarrow> length (Itoa_nat m) \<le> Suc k" for m k
  proof (induction k arbitrary: m)
    case 0
    then show ?case by (subst Itoa_nat.simps) simp
  next
    case (Suc k)
    then have "m div 10 < 10 ^ Suc k" by (simp add: div_less_iff_less_mult mult.commute)
    with Suc.IH have "length (Itoa_nat (m div 10)) \<le> Suc k" by blast
    then show ?case by (subst Itoa_nat.simps) simp
  qed
  have l: "length (Itoa_nat n) \<le> 4" using len [of n 3] assms by simp
  then show "length (four_digits (Itoa (int n))) = 4" by (simp add: four_digits_def d)
  show "\<forall>c \<in> set (four_digits (Itoa (int n))). 48 \<le> char_code c \<and> char_code c \<le> 57"
    using Itoa_nat_no_sep [of _ n] by (auto simp: four_digits_def d)
  have z: "foldl (\<lambda>a c. 10 * a + (char_code c - 48)) 0 (replicate k CHR ''0'') = 0" for k
    by (induction k) simp_all
  show "digits_val (four_digits (Itoa (int n))) = n"
    using Itoa_nat_digits [of n] by (simp add: four_digits_def d digits_val_def z)
qed

lemma shortStreamKey_short: "n < 26 * 26 * 10000 \<Longrightarrow> isShortStreamKey (shortStreamKey n)"
proof -
  assume "n < 26 * 26 * 10000"
  then have "n div (26 * 10000) < 26" "(n div 10000) mod 26 < 26" by (simp_all add: div_less_iff_less_mult)
  moreover have "n mod 10000 < 10000" by simp
  ultimately show "isShortStreamKey (shortStreamKey n)"
    using four_digits_Itoa(1,2) [of "n mod 10000"] by (simp add: isShortStreamKey_def shortStreamKey_def)
qed

text \<open>Reading a short key as a number.\<close>

definition short_key_value :: "string \<Rightarrow> nat" where
  "short_key_value k = ((char_code (k ! 0) - 97) * 26 + (char_code (k ! 1) - 97)) * 10000 + digits_val (drop 2 k)"

lemma short_key_value_key: "n < 26 * 26 * 10000 \<Longrightarrow> short_key_value (shortStreamKey n) = n"
proof -
  assume "n < 26 * 26 * 10000"
  then have lt: "n div (26 * 10000) < 26" "(n div 10000) mod 26 < 26" by (simp_all add: div_less_iff_less_mult)
  have "n div 10000 div 26 = n div (26 * 10000)" by (simp add: div_mult2_eq [symmetric] mult.commute)
  then have "n div (26 * 10000) * 26 + (n div 10000) mod 26 = n div 10000" by (metis div_mult_mod_eq)
  then show "short_key_value (shortStreamKey n) = n"
    using lt four_digits_Itoa(3) [of "n mod 10000"] by (simp add: short_key_value_def shortStreamKey_def)
qed

lemma issue_loop_result:
  assumes "keys_inv (keys m)" "issue_loop n i gen saved owner old m = (r, m')"
  shows "(case r of
     Inl e \<Rightarrow> m' = m
   | Inr k \<Rightarrow> (\<exists>j < i + n. gen j = Some k) \<and> k \<noteq> old \<and> \<not> IsIssuedKey k (keys m) \<and>
       (\<exists>ok. IssueStreamKey ok owner k (keys m) = (None, keys m')) \<and> m' = m\<lparr>keys := keys m'\<rparr>)"
  using assms(2)
proof (induction n arbitrary: i)
  case (Suc n)
  show ?case
  proof (cases "gen i")
    case None
    then show ?thesis using Suc.prems by auto
  next
    case (Some k)
    obtain e s where iss: "IssueStreamKey (saved i) owner k (keys m) = (e, s)" by fastforce
    have again: ?thesis if "issue_loop n (Suc i) gen saved owner old m = (r, m')"
      using Suc.IH [OF that] by (auto split: sum.splits)
    have keep: "s = keys m" if "e = Some x" for x using Issue_failure [OF assms(1)] iss that by blast
    show ?thesis
    proof (cases "k = old \<or> IsIssuedKey k (keys m)")
      case True
      then show ?thesis using Suc.prems Some again by simp
    next
      case False
      then show ?thesis
      proof (cases e)
        case None
        then have "r = Inr k" "m' = m\<lparr>keys := s\<rparr>" using Suc.prems Some False iss by (simp_all add: Manager_IssueStreamKey_def)
        then show ?thesis using False Some iss None by (cases "saved i") (auto intro!: exI [of _ i])
      next
        case (Some x)
        then have "s = keys m" by (rule keep)
        then show ?thesis using Suc.prems \<open>gen i = Some k\<close> False iss Some again
          by (cases x) (auto simp: Manager_IssueStreamKey_def)
      qed
    qed
  qed
qed auto

text \<open>
  A key from the site.  Whatever is drawn, a successful call gives the account one short key that nobody had, one of
  6,760,000 that differ for different draws, and takes back the account's previous key; a failure changes nothing.
\<close>

theorem short_key_issued:
  assumes "keys_inv (keys m)" "\<forall>i n. draw i = Some n \<longrightarrow> n < 26 * 26 * 10000"
    and "issueShortKey (\<lambda>i. map_option shortStreamKey (draw i)) saved owner old m = (r, m')"
  shows "(\<forall>e. r = Inl e \<longrightarrow> m' = m) \<and> inj_on shortStreamKey {..<26 * 26 * 10000} \<and>
         (\<forall>k. r = Inr k \<longrightarrow> isShortStreamKey k \<and> k \<noteq> old \<and> \<not> IsIssuedKey k (keys m) \<and>
            accounts (keys m') = (accounts (keys m))(owner \<mapsto> k) \<and> IsIssuedKey k (keys m') \<and>
            (\<forall>k'. accounts (keys m) owner = Some k' \<longrightarrow> \<not> IsIssuedKey k' (keys m')))"
proof -
  note res = issue_loop_result [OF assms(1) assms(3) [unfolded issueShortKey_def]]
  have "inj_on shortStreamKey {..<26 * 26 * 10000}"
    by (rule inj_on_inverseI [of _ short_key_value]) (simp add: short_key_value_key)
  moreover have "isShortStreamKey k \<and> k \<noteq> old \<and> \<not> IsIssuedKey k (keys m) \<and>
      accounts (keys m') = (accounts (keys m))(owner \<mapsto> k) \<and> IsIssuedKey k (keys m') \<and>
      (\<forall>k'. accounts (keys m) owner = Some k' \<longrightarrow> \<not> IsIssuedKey k' (keys m'))" if "r = Inr k" for k
  proof -
    note got = res [unfolded that sum.case]
    obtain j where "map_option shortStreamKey (draw j) = Some k" using got by blast
    then have "isShortStreamKey k" using assms(2) shortStreamKey_short by auto
    moreover obtain ok where ok: "IssueStreamKey ok owner k (keys m) = (None, keys m')" using got by blast
    moreover have "\<not> IsIssuedKey k (keys m)" "k \<noteq> old" using got by blast+
    moreover from this have "accounts (keys m) owner \<noteq> Some k" using assms(1) by (simp add: keys_inv_def IsIssuedKey_def)
    ultimately show ?thesis using Issue_success [OF ok] by (auto simp: IsIssuedKey_def)
  qed
  ultimately show ?thesis using res by auto
qed

lemma short_key_issued_witness:
  "\<exists>m'. issueShortKey (\<lambda>i. map_option shortStreamKey (Some 10001)) (\<lambda>_. True) ''site:x:42'' [] demo_mgr = (Inr (shortStreamKey 10001), m') \<and>
     accounts (keys m') ''site:x:42'' = Some (shortStreamKey 10001)"
proof -
  have "isShortStreamKey (shortStreamKey 10001)" by (rule shortStreamKey_short) simp
  then have len: "length (shortStreamKey 10001) = 6" by (simp add: isShortStreamKey_def)
  then have "shortStreamKey 10001 \<noteq> []" "shortStreamKey 10001 \<noteq> ''k1''" by (auto dest: arg_cong [where f = length])
  note k = this this [symmetric]
  have inv: "keys_inv (keys demo_mgr)" using keys_inv_Issue [OF keys_inv_New] by (simp add: demo_mgr_def NewManager_def)
  obtain r m' where r: "issueShortKey (\<lambda>i. map_option shortStreamKey (Some 10001)) (\<lambda>_. True) ''site:x:42'' [] demo_mgr = (r, m')" by fastforce
  have "issueShortKey (\<lambda>i. map_option shortStreamKey (Some 10001)) (\<lambda>_. True) ''site:x:42'' [] demo_mgr =
      issue_loop (Suc 127) 0 (\<lambda>i. Some (shortStreamKey 10001)) (\<lambda>_. True) ''site:x:42'' [] demo_mgr"
    by (simp add: issueShortKey_def)
  also have "\<exists>m'. \<dots> = (Inr (shortStreamKey 10001), m')"
    by (simp only: issue_loop.simps)
      (simp add: k demo_mgr_def NewManager_def IsIssuedKey_def IssueStreamKey_def NewStreamKeyStore_def saveCache_def Let_def Manager_IssueStreamKey_def)
  finally have "r = Inr (shortStreamKey 10001)" using r by auto
  then show ?thesis using short_key_issued [OF inv _ r] r by auto
qed

section \<open>Creating and stopping\<close>

text \<open>What the manager has registered.\<close>

definition registered :: "'a Manager \<Rightarrow> (gnuid \<rightharpoonup> nat) \<times> (string \<rightharpoonup> nat) \<times> (gnuid \<rightharpoonup> string) \<times> (gnuid \<times> nat) list \<times> StreamKeyStore" where
  "registered m = (byID m, byStreamKey m, streamKeyByID m, relays m, keys m)"

text \<open>The identifier a broadcast of the input gets.\<close>

definition input_id :: "string \<Rightarrow> broadcastInput \<Rightarrow> 'a Manager \<Rightarrow> gnuid" where
  "input_id key i m =
     channelIDForBroadcast (mgrBroadcastID m) key (biName (trim_input i)) (with_prefix (biGenre (trim_input i))) (of_int (biBitrate i))"

lemma broadcast_registered:
  assumes b: "BroadcastWithAudit E key ci tr a g p m = (x, m1, effs)"
  shows "(case x of
     Inl e \<Rightarrow> m1 = m
   | Inr r \<Rightarrow> byStreamKey m key = None \<and> r = nextRef m \<and> nextRef m1 = Suc r \<and>
       chID (store m1 r) = channelIDForBroadcast (mgrBroadcastID m) key (Name ci) (Genre ci) (Bitrate ci) \<and>
       registered m1 = ((byID m)(chID (store m1 r) \<mapsto> r), (byStreamKey m)(key \<mapsto> r), (streamKeyByID m)(chID (store m1 r) \<mapsto> key),
         relays m, keys m) \<and>
       info (store m1 r) = ci \<and> track (store m1 r) = tr \<and> isBroadcasting (store m1 r))"
  using b
  by (auto simp: BroadcastWithAudit_def new_broadcast_channel_def alloc_def Let_def configureChannel_def New_def registered_def
      split: if_splits prod.splits)

lemma stop_registered:
  assumes "byID m cid = Some r" "streamKeyByID m cid = Some key" "chID (store m r) = cid"
    and "StopInstance inputs now r a reason m = (ok, m', effs)"
  shows "registered m' = ((byID m)(cid := None), (byStreamKey m)(key := None), (streamKeyByID m)(cid := None), AList.delete cid (relays m), keys m)"
  using assms by (auto simp: StopInstance_def stopInstance_def Let_def registered_def split: prod.splits)

lemma commit_registered:
  assumes "commit_run now r m = (m', effs)"
  shows "registered m' = registered m \<and> info (store m' r) = info (store m r) \<and> track (store m' r) = track (store m r)"
  using assms by (auto simp: commit_run_def registered_def split: option.splits prod.splits)

lemma saved_history:
  assumes "saveHistory sha E V owner s previous st = (ok, st')"
  shows "seMgr st' = seMgr st" "\<not> ok \<Longrightarrow> seHistory st' = seHistory st"
    "ok \<Longrightarrow> seHistory st' = (seHistory st)(historyPath sha V owner \<mapsto> HistFile 1 (take 10 (\<lparr>heSettings = s, heCreatedAt = wnNow E\<rparr> # previous)))"
  using assms by (auto simp: saveHistory_def Let_def split: if_splits)


definition demo_user_session :: site_session where
  "demo_user_session = \<lparr>ssAuditRef = audit_ID (replicate 16 1), ssUser = \<lparr>usID = ''42'', usName = ''Bob''\<rparr>, ssCSRF = ''tok'', ssExpires = 100\<rparr>"

definition demo_site_env :: "bool \<Rightarrow> site_env" where
  "demo_site_env ok =
     \<lparr>wnNow = 5, wnRand = replicate 16 1, wnAccounts = [''site:x:42''], wnInputs = [], wnNodes = [], wnChans = [], wnSaved = (\<lambda>_. True),
      wnHistory = ok, wnBump = True\<rparr>"

definition demo_site_server :: site_server where
  "demo_site_server = \<lparr>svCfg = site_defaults (SiteConf0\<lparr>siOrigin := ''https://mi.example''\<rparr>), svTrusted = [], svAdmins = [], svClientID = ''c''\<rparr>"

definition demo_site_request :: site_request where
  "demo_site_request =
     \<lparr>sqMethod = ''POST'', sqHost = ''mi.example'', sqOrigin = ''https://mi.example'', sqCSRF = ''tok'', sqRemote = ''192.0.2.1:4000'',
      sqForwarded = [], sqSession = Some ''sid'', sqFlow = None, sqQuery = [], sqPathID = []\<rparr>"

definition demo_owner_state :: "wire_atom site_state" where
  "demo_owner_state =
     \<lparr>seMgr = (NewManager (replicate 16 2))\<lparr>keys := snd (IssueStreamKey True ''site:x:42'' ''ab0001'' NewStreamKeyStore)\<rparr>,
      seHistory = Map.empty, seSessions = [], seFlows = [], seViewers = Map.empty, seTotal = 0\<rparr>"

definition demo_body :: json where
  "demo_body = JObj [(''name'', JStr '' Chess ''), (''genre'', JStr ''game''), (''bitrate'', JNum ''500'')]"


text \<open>
  A user can only stop the user's own channel.  After a stop every other channel, with its key and state, is as before,
  and the user's key has no channel.
\<close>

theorem site_stop_own:
  assumes "stopBroadcast E V q ss st = (r, st', effs)" "mgr_inv (seMgr st)"
    and "byID (seMgr st) cid = Some ref" "streamKeyByID (seMgr st) cid \<noteq> Some (site_key (wnAccounts E) ss (seMgr st))"
  shows "byID (seMgr st') cid = Some ref \<and> streamKeyByID (seMgr st') cid = streamKeyByID (seMgr st) cid \<and>
         store (seMgr st') ref = store (seMgr st) ref \<and> map_of (relays (seMgr st')) cid = map_of (relays (seMgr st)) cid \<and>
         byStreamKey (seMgr st') (site_key (wnAccounts E) ss (seMgr st)) = None"
proof (cases "GetByStreamKey (site_key (wnAccounts E) ss (seMgr st)) (seMgr st)")
  case None
  then show ?thesis using assms(1,3) by (auto simp: stopBroadcast_def Let_def GetByStreamKey_def)
next
  case (Some r0)
  let ?key = "site_key (wnAccounts E) ss (seMgr st)"
  have own: "\<exists>i. streamKeyByID (seMgr st) i = Some ?key \<and> byID (seMgr st) i = Some r0"
    using mgr_inv_keys [OF assms(2), of ?key r0] Some by (simp add: GetByStreamKey_def)
  then obtain i where i: "streamKeyByID (seMgr st) i = Some ?key" "byID (seMgr st) i = Some r0" by blast
  have c: "chID (store (seMgr st) r0) = i" using mgr_inv_ref [OF assms(2) i(2)] by simp
  have ne: "cid \<noteq> i" "ref \<noteq> r0" using i assms(3,4) byID_inj [OF assms(2), of cid r0 i] by auto
  show ?thesis
    using assms(1,3) Some i c ne
    by (auto simp: stopBroadcast_def Let_def StopInstance_def stopInstance_def delete_conv' split: prod.splits)
qed

lemma demo_owner_broadcast:
  obtains r m c effs where
    "BroadcastWithAudit demo_env ''ab0001'' ChannelInfo0 TrackInfo0 (Actor_of ''42'') None False
       ((seMgr demo_owner_state)\<lparr>hasNewRelay := True\<rparr>) = (Inr r, m, effs)"
    "mgr_reach m" "byStreamKey m = [''ab0001'' \<mapsto> r]" "byID m = [c \<mapsto> r]" "hasNewRelay m" "MaxRelayChannels m = 0"
    "keys m = keys (seMgr demo_owner_state)"
proof -
  let ?m = "(seMgr demo_owner_state)\<lparr>hasNewRelay := True\<rparr>"
  let ?c = "channelIDForBroadcast (mgrBroadcastID ?m) ''ab0001'' (Name ChannelInfo0) (Genre ChannelInfo0) (Bitrate ChannelInfo0)"
  note defs = demo_owner_state_def NewManager_def
  have "?m = (NewManager (replicate 16 2))\<lparr>mgrAudit := False, mgrNetwork := NetworkState0, MaxRelays := 0,
     MaxListeners := 0, MaxRelaysTotal := 0, MaxUpstreamKbps := 0, keys := keys ?m, ContentBufferSeconds := 0,
     hasNewRelay := True, MaxRelayChannels := 0, globalIP := 0\<rparr>"
    by (simp add: defs)
  then have reach: "mgr_reach ?m" using mgr_reach.configure [OF mgr_reach.new] by metis
  obtain x m effs where run: "BroadcastWithAudit demo_env ''ab0001'' ChannelInfo0 TrackInfo0 (Actor_of ''42'') None False ?m = (x, m, effs)"
    by (metis prod_cases3)
  have iss: "IsIssuedKey ''ab0001'' (keys ?m)" "byStreamKey ?m k = None" for k
    by (simp_all add: defs IsIssuedKey_def IssueStreamKey_def NewStreamKeyStore_def saveCache_def)
  then obtain r where x: "x = Inr r" using run by (auto simp: BroadcastWithAudit_def alloc_def split: prod.splits)
  note res = Broadcast_result [OF run [unfolded x]]
  have "mgr_reach (fst (snd (BroadcastWithAudit demo_env ''ab0001'' ChannelInfo0 TrackInfo0 (Actor_of ''42'') None False ?m)))"
    by (rule mgr_reach.broadcast [OF reach]) (simp_all add: defs)
  then have "mgr_reach m" by (simp add: run)
  moreover have "byID m = [?c \<mapsto> r]" "byStreamKey m = [''ab0001'' \<mapsto> r]" "hasNewRelay m" "MaxRelayChannels m = 0"
    "keys m = keys (seMgr demo_owner_state)"
    unfolding res(3,4) by (simp_all add: defs)
  ultimately show thesis using run x that by blast
qed

lemma site_stop_own_witness:
  "\<exists>(m :: wire_atom Manager) h cid ref r st' effs. byID m cid = Some ref \<and> map_of (relays m) cid = Some h \<and> byStreamKey m ''ab0001'' \<noteq> None \<and>
     stopBroadcast (demo_site_env True) demo_site_server demo_site_request demo_user_session (demo_owner_state\<lparr>seMgr := m\<rparr>) = (r, st', effs) \<and>
     byID (seMgr st') cid = Some ref \<and> map_of (relays (seMgr st')) cid = Some h \<and> byStreamKey (seMgr st') ''ab0001'' = None"
proof -
  obtain r c and m :: "wire_atom Manager" where b: "mgr_reach m" "byStreamKey m = [''ab0001'' \<mapsto> r]" "byID m = [c \<mapsto> r]" "hasNewRelay m"
    "MaxRelayChannels m = 0" "keys m = keys (seMgr demo_owner_state)"
    by (rule demo_owner_broadcast) blast
  define cid :: gnuid where "cid = (if c = replicate 16 9 then replicate 16 8 else replicate 16 9)"
  have ne: "cid \<noteq> c" by (simp add: cid_def)
  define m2 where "m2 = fst (snd (StartRelay 5 7 cid ''1.2.3.4:7144'' m))"
  have reach: "mgr_reach m2" unfolding m2_def by (rule mgr_reach.start_relay [OF b(1)])
  have m2: "byID m2 cid = Some (nextRef m)" "map_of (relays m2) cid = Some 7" "byStreamKey m2 = byStreamKey m" "keys m2 = keys m"
    "streamKeyByID m2 = streamKeyByID m"
    using ne b(3-5) by (simp_all add: m2_def StartRelay_def alloc_def Let_def update_conv')
  have key: "site_key (wnAccounts (demo_site_env True)) demo_user_session m2 = ''ab0001''"
    by (simp add: site_key_def site_account_def demo_user_session_def demo_site_env_def List_keys_def m2(4) b(6) List.map_filter_def
        demo_owner_state_def IssueStreamKey_def NewStreamKeyStore_def saveCache_def)
  have "streamKeyByID m cid = None" using mgr_inv_broadcast [OF mgr_reach_inv [OF b(1)], of cid] ne b(3) by fastforce
  then have "streamKeyByID (seMgr (demo_owner_state\<lparr>seMgr := m2\<rparr>)) cid \<noteq> Some (site_key (wnAccounts (demo_site_env True)) demo_user_session (seMgr (demo_owner_state\<lparr>seMgr := m2\<rparr>)))"
    by (simp add: m2)
  moreover obtain s st' effs where run: "stopBroadcast (demo_site_env True) demo_site_server demo_site_request demo_user_session
      (demo_owner_state\<lparr>seMgr := m2\<rparr>) = (s, st', effs)" by (metis prod_cases3)
  ultimately have "byID (seMgr st') cid = Some (nextRef m) \<and> map_of (relays (seMgr st')) cid = Some 7 \<and> byStreamKey (seMgr st') ''ab0001'' = None"
    using site_stop_own [OF run, of cid "nextRef m"] mgr_reach_inv [OF reach] m2(1,2) key by simp
  moreover have "byStreamKey m2 ''ab0001'' \<noteq> None" using m2(3) b(2) by simp
  ultimately show ?thesis using run m2(1,2) by blast
qed

end
