(* ===== verification/Go_Scan.thy ===== *)
theory Go_Scan
  imports Go_Url
begin

text \<open>Go's \<^verbatim>\<open>bufio.Scanner\<close> over the lines of a text, with a buffer of limited size.\<close>

definition LF_char :: char where "LF_char = CHR 0x0A"

definition CR :: char where "CR = CHR 0x0D"

text \<open>The byte order mark in UTF-8.\<close>

definition BOM :: string where "BOM = code_string [0xEF, 0xBB, 0xBF]"

text \<open>
  The tokens and whether the text was read to its end: a line that does not fit the buffer with its line break is an
  error.  A line break at the end of the text does not start another line.
\<close>

function scan_lines :: "nat \<Rightarrow> string \<Rightarrow> string list \<times> bool" where
  "scan_lines m s =
     (if s = [] then ([], True)
      else let p = takeWhile (\<lambda>c. c \<noteq> LF_char) s in
        if length p \<ge> m then ([], False)
        else case scan_lines m (drop (Suc (length p)) s) of (ls, ok) \<Rightarrow> (TrimSuffix p [CR] # ls, ok))"
  by pat_completeness auto
termination
  by (relation "measure (\<lambda>(m, s). length s)") auto

declare scan_lines.simps [simp del]

lemma scan_lines_Nil [simp]: "scan_lines m [] = ([], True)"
  by (simp add: scan_lines.simps)

lemma scan_lines_Cons:
  assumes "LF_char \<notin> set p" "length p < m"
  shows "scan_lines m (p @ LF_char # s) = (TrimSuffix p [CR] # fst (scan_lines m s), snd (scan_lines m s))"
proof -
  have "takeWhile (\<lambda>c. c \<noteq> LF_char) (p @ LF_char # s) = p" using assms(1) by (subst takeWhile_append2) auto
  then show ?thesis using assms(2) by (subst scan_lines.simps) (simp add: Let_def split: prod.splits)
qed

end
