(* ===== verification/Catalog.thy ===== *)
theory Catalog
  imports Config Go_Scan
begin

text \<open>
  \<^verbatim>\<open>internal/catalog/catalog.go\<close>: the lists of channels that YPs publish, how they are read, and the cache all callers
  share.  \<^verbatim>\<open>html.UnescapeString\<close>, with its table of entities, is an argument; so is what a server answers.  A
  message for the user is a flag.
\<close>

definition cacheTTL :: int where "cacheTTL = 60 * second"

definition staleTTL :: int where "staleTTL = 5 * (60 * second)"

definition maxBytes :: nat where "maxBytes = 4 * 1024 * 1024"

record CatChannel =
  ccYellowPage :: string
  ccName :: string
  ccChannelID :: string
  ccTracker :: string
  ccContactURL :: string
  ccGenre :: string
  ccDescription :: string
  ccComment :: string
  ccContentType :: string
  ccCreator :: string
  ccAlbum :: string
  ccTrackTitle :: string
  ccTrackURL :: string
  ccListeners :: "int option"
  ccRelays :: "int option"
  ccBitrate :: "int option"
  ccUptime :: "int option"

section \<open>Reading a list\<close>

definition integer :: "string \<Rightarrow> int option" where
  "integer s = Atoi (TrimSpace s)"

definition uptime :: "string \<Rightarrow> int option" where
  "uptime s =
     (case Split s '':'' of
        [_] \<Rightarrow> integer s
      | [a, b] \<Rightarrow>
          (case (integer a, integer b) of
             (Some h, Some m) \<Rightarrow> if h < 0 \<or> h > 1000000 \<or> m < 0 \<or> m > 59 then None else Some ((h * 60 + m) * 60)
           | _ \<Rightarrow> None)
      | _ \<Rightarrow> None)"

definition upper_char :: "char \<Rightarrow> char" where
  "upper_char c = (if 97 \<le> char_code c \<and> char_code c \<le> 122 then char_of (char_code c - 32) else c)"

definition field :: "(string \<Rightarrow> string) \<Rightarrow> string list \<Rightarrow> nat \<Rightarrow> string" where
  "field H p i = (if i < length p then H (p ! i) else [])"

definition row_of :: "(string \<Rightarrow> string) \<Rightarrow> string \<Rightarrow> string list \<Rightarrow> CatChannel" where
  "row_of H name p =
     \<lparr>ccYellowPage = name, ccName = field H p 0, ccChannelID = map upper_char (p ! 1), ccTracker = field H p 2,
      ccContactURL = field H p 3, ccGenre = field H p 4, ccDescription = field H p 5, ccComment = field H p 17,
      ccContentType = field H p 9, ccCreator = field H p 10, ccAlbum = field H p 11, ccTrackTitle = field H p 12,
      ccTrackURL = field H p 13, ccListeners = integer (p ! 6), ccRelays = integer (p ! 7), ccBitrate = integer (p ! 8),
      ccUptime = uptime (field H p 15)\<rparr>"

text \<open>The loop over the lines: \<open>n\<close> rows have been read.\<close>

fun parse_lines :: "(string \<Rightarrow> string) \<Rightarrow> string \<Rightarrow> nat \<Rightarrow> string list \<Rightarrow> CatChannel list option" where
  "parse_lines H name n [] = Some []"
| "parse_lines H name n (l # ls) =
     (let line = TrimSuffix l [CR] in
      if TrimSpace line = [] then parse_lines H name n ls
      else
        let p = Split line ''<>'' in
        if length p < 10 then None
        else case DecodeString (p ! 1) of
          Some b \<Rightarrow>
            if length b \<noteq> 16 then parse_lines H name n ls
            else if Suc n > 10000 then None
            else map_option ((#) (row_of H name p)) (parse_lines H name (Suc n) ls)
        | None \<Rightarrow> parse_lines H name n ls)"

definition catalog_parse :: "(string \<Rightarrow> string) \<Rightarrow> string \<Rightarrow> string \<Rightarrow> CatChannel list option" where
  "catalog_parse H body name =
     (if \<not> valid_utf8 body then None
      else case scan_lines (64 * 1024) (TrimPrefix body BOM) of (ls, ok) \<Rightarrow>
        case parse_lines H name 0 ls of None \<Rightarrow> None | Some rows \<Rightarrow> if ok then Some rows else None)"

section \<open>Fetching\<close>

definition redirect_ok :: "nat \<Rightarrow> URL \<Rightarrow> bool" where
  "redirect_ok via u \<longleftrightarrow> \<not> (via \<ge> 5 \<or> uUser u \<or> (uScheme u \<noteq> ''http'' \<and> uScheme u \<noteq> ''https''))"

definition channels_url_ok :: "string \<Rightarrow> bool" where
  "channels_url_ok s \<longleftrightarrow>
     (case url_Parse s of
        None \<Rightarrow> False
      | Some u \<Rightarrow> uHost u \<noteq> [] \<and> \<not> uUser u \<and> uFragment u = [] \<and> (uScheme u = ''http'' \<or> uScheme u = ''https''))"

record http_answer =
  haStatus :: int
  haContentType :: string
  haBody :: "string option"

text \<open>\<open>None\<close> is an answer that did not come; a body of \<open>None\<close> could not be read.\<close>

definition fetch :: "(string \<Rightarrow> string) \<Rightarrow> http_answer option \<Rightarrow> YP \<Rightarrow> CatChannel list option" where
  "fetch H answer entry =
     (if \<not> channels_url_ok (ypChannelsURL entry) then None
      else case answer of
        None \<Rightarrow> None
      | Some a \<Rightarrow>
          if haStatus a \<noteq> 200 \<or> Contains (lower_ascii (haContentType a)) ''text/html'' then None
          else case haBody a of
            None \<Rightarrow> None
          | Some s \<Rightarrow> if length (take (maxBytes + 1) s) > maxBytes then None
                     else catalog_parse H (take (maxBytes + 1) s) (ypName entry))"

section \<open>The shared cache\<close>

record source_state =
  scYP :: YP
  scRows :: "CatChannel list"
  scUpdated :: time
  scErr :: bool

record CatStatus =
  csName :: string
  csConfigured :: bool
  csError :: bool
  csStale :: bool
  csUpdatedAt :: "time option"

record Catalog =
  ctSources :: "source_state list"
  ctNext :: time
  ctInflight :: bool

definition NewCatalog :: "YP list \<Rightarrow> Catalog" where
  "NewCatalog entries =
     \<lparr>ctSources = map (\<lambda>y. \<lparr>scYP = y, scRows = [], scUpdated = 0, scErr = False\<rparr>) entries, ctNext = 0, ctInflight = False\<rparr>"

text \<open>The locked part of \<^verbatim>\<open>Update\<close>: whether a refresh is started; the caller waits if one is in flight.\<close>

definition update_call :: "time \<Rightarrow> Catalog \<Rightarrow> bool \<times> Catalog" where
  "update_call now c =
     (if \<not> ctInflight c \<and> \<not> now < ctNext c then (True, c\<lparr>ctInflight := True\<rparr>) else (False, c))"

text \<open>One goroutine of \<^verbatim>\<open>refresh\<close>; \<open>result\<close> is what \<^verbatim>\<open>fetch\<close> returned, an error when the context ended first.\<close>

definition refresh_source :: "time \<Rightarrow> CatChannel list option \<Rightarrow> source_state \<Rightarrow> source_state" where
  "refresh_source now result s =
     (if ypChannelsURL (scYP s) = [] then s
      else case result of
        None \<Rightarrow> s\<lparr>scErr := True\<rparr>
      | Some rows \<Rightarrow> s\<lparr>scRows := rows, scUpdated := now, scErr := False\<rparr>)"

definition refresh_one :: "nat \<Rightarrow> time \<Rightarrow> CatChannel list option \<Rightarrow> Catalog \<Rightarrow> Catalog" where
  "refresh_one i now result c = c\<lparr>ctSources := (ctSources c)[i := refresh_source now result (ctSources c ! i)]\<rparr>"

definition refresh_done :: "time \<Rightarrow> Catalog \<Rightarrow> Catalog" where
  "refresh_done now c = c\<lparr>ctNext := now + cacheTTL, ctInflight := False\<rparr>"

definition source_status :: "time \<Rightarrow> source_state \<Rightarrow> CatStatus" where
  "source_status now s =
     \<lparr>csName = ypName (scYP s), csConfigured = (ypChannelsURL (scYP s) \<noteq> []), csError = scErr s,
      csStale = (now - scUpdated s < staleTTL \<and> scErr s), csUpdatedAt = (if scUpdated s = 0 then None else Some (scUpdated s))\<rparr>"

definition Snapshot :: "time \<Rightarrow> Catalog \<Rightarrow> CatChannel list \<times> CatStatus list" where
  "Snapshot now c =
     (concat (map (\<lambda>s. if now - scUpdated s < staleTTL then scRows s else []) (ctSources c)), map (source_status now) (ctSources c))"

section \<open>Trackers\<close>

definition special_v4 :: "ip \<Rightarrow> bool" where
  "special_v4 v \<longleftrightarrow>
     v ! 0 = 0 \<or> v ! 0 \<ge> 240 \<or> (v ! 0 = 100 \<and> v ! 1 AND 0xc0 = 64) \<or> (v ! 0 = 198 \<and> v ! 1 AND 0xfe = 18)"

definition public_ip :: "ip \<Rightarrow> bool" where
  "public_ip p \<longleftrightarrow> p \<noteq> [] \<and> IsGlobalUnicast p \<and> \<not> IsPrivate p \<and> \<not> IsLoopback p \<and> \<not> IsLinkLocalUnicast p"

definition PublicTracker :: "string \<Rightarrow> bool" where
  "PublicTracker addr \<longleftrightarrow>
     (case SplitHostPort addr of
        None \<Rightarrow> False
      | Some (host, port) \<Rightarrow>
          let p = ParseIP host in
          \<not> (To4 p \<noteq> [] \<and> special_v4 (To4 p)) \<and>
          (case Atoi port of None \<Rightarrow> False | Some n \<Rightarrow> n > 0 \<and> n \<le> 65535 \<and> public_ip p))"

section \<open>Blocks of addresses\<close>

text \<open>An IPv4 address as a number, and the blocks no tracker may be in, by first address and prefix length.\<close>

definition v4_number :: "nat \<Rightarrow> nat \<Rightarrow> nat \<Rightarrow> nat \<Rightarrow> nat" where
  "v4_number a b c d = a * 2 ^ 24 + b * 2 ^ 16 + c * 2 ^ 8 + d"

definition in_block :: "nat \<Rightarrow> nat \<times> nat \<Rightarrow> bool" where
  "in_block n p \<longleftrightarrow> n div 2 ^ (32 - snd p) = fst p div 2 ^ (32 - snd p)"

definition special_blocks :: "(nat \<times> nat) list" where
  "special_blocks =
     [(v4_number 0 0 0 0, 8), (v4_number 10 0 0 0, 8), (v4_number 100 64 0 0, 10), (v4_number 127 0 0 0, 8),
      (v4_number 169 254 0 0, 16), (v4_number 172 16 0 0, 12), (v4_number 192 168 0 0, 16), (v4_number 198 18 0 0, 15),
      (v4_number 224 0 0 0, 4), (v4_number 240 0 0 0, 4)]"

lemma high_bits: "(b :: byte) AND NOT (mask k) = push_bit k (drop_bit k b)"
  by (rule bit_word_eqI) (auto simp: bit_simps)

lemma high_bits_eq:
  assumes "NOT (mask k) = (m :: byte)" "push_bit k (drop_bit k w) = w" "unat (drop_bit k w) = n"
  shows "(b AND m = w) = (unat b div 2 ^ k = n)"
proof -
  have "b AND m = w \<longleftrightarrow> drop_bit k b = drop_bit k w"
  proof
    assume "b AND m = w"
    then have "drop_bit k (push_bit k (drop_bit k b)) = drop_bit k w" by (simp add: assms(1) [symmetric] high_bits)
    moreover have "drop_bit k (push_bit k (drop_bit k b)) = drop_bit k b" by (rule bit_word_eqI) (auto simp: bit_simps dest: bit_imp_le_length)
    ultimately show "drop_bit k b = drop_bit k w" by simp
  next
    assume "drop_bit k b = drop_bit k w"
    then show "b AND m = w" using assms(2) by (simp add: assms(1) [symmetric] high_bits)
  qed
  also have "\<dots> \<longleftrightarrow> unat (drop_bit k b) = n" using assms(3) by (simp only: word_unat_eq_iff)
  also have "\<dots> \<longleftrightarrow> unat b div 2 ^ k = n" unfolding unat_drop_bit_eq by (simp only: drop_bit_eq_div)
  finally show ?thesis .
qed

lemma byte_masks:
  "(b AND 0xc0 = (64 :: byte)) = (unat b div 64 = 1)" "(b AND 0xfe = (18 :: byte)) = (unat b div 2 = 9)"
  "(b AND 0xf0 = (16 :: byte)) = (unat b div 16 = 1)" "(b AND 0xf0 = (0xe0 :: byte)) = (unat b div 16 = 14)"
  using high_bits_eq [of 6 "0xc0" 64 1 b] high_bits_eq [of 1 "0xfe" 18 9 b] high_bits_eq [of 4 "0xf0" 16 1 b] high_bits_eq [of 4 "0xf0" "0xe0" 14 b]
  by (simp_all add: mask_eq_exp_minus_1)

lemma byte_eq_iff: "(b = (w :: byte)) = (unat b = unat w)"
  by (simp add: word_unat_eq_iff)

lemma v4_number_div:
  assumes "b < 256" "c < 256" "d < 256"
  shows "v4_number a b c d div 2 ^ 16 = a * 256 + b" "v4_number a b c d div 2 ^ 24 = a" "v4_number a b c d div 2 ^ 28 = a div 16"
    "v4_number a b c d div 2 ^ 22 = a * 4 + b div 64" "v4_number a b c d div 2 ^ 20 = a * 16 + b div 16"
    "v4_number a b c d div 2 ^ 17 = a * 128 + b div 2"
proof -
  show h: "v4_number a b c d div 2 ^ 16 = a * 256 + b"
    by (rule div_nat_eqI) (use assms in \<open>simp_all add: v4_number_def\<close>)
  have low: "v4_number a b c d div 2 ^ (16 + k) = (a * 256 + b) div 2 ^ k" for k
    unfolding h [symmetric] by (simp only: power_add div_mult2_eq)
  have d8: "(a * 256 + b) div 2 ^ 8 = a" using assms(1) by simp
  then have d12: "(a * 256 + b) div 2 ^ 12 = a div 16" using div_mult2_eq [of "a * 256 + b" "2 ^ 8" 16] by simp
  have up: "(a * (m * k) + b) div k = a * m + b div k" if "0 < k" for m k :: nat
    using that div_mult_self4 [of k "a * m" b] by (simp add: algebra_simps)
  show "v4_number a b c d div 2 ^ 24 = a" "v4_number a b c d div 2 ^ 28 = a div 16"
    using low [of 8] low [of 12] d8 d12 by simp_all
  show "v4_number a b c d div 2 ^ 22 = a * 4 + b div 64" "v4_number a b c d div 2 ^ 20 = a * 16 + b div 16"
    "v4_number a b c d div 2 ^ 17 = a * 128 + b div 2"
    using low [of 6] low [of 4] low [of 1] up [of 64 4] up [of 16 16] up [of 2 128] by simp_all
qed

lemma in_block_v4:
  assumes "b < 256" "c < 256" "d < 256" "q < 256"
  shows "in_block (v4_number a b c d) (v4_number p q 0 0, 8) = (a = p)"
    "in_block (v4_number a b c d) (v4_number p q 0 0, 4) = (a div 16 = p div 16)"
    "in_block (v4_number a b c d) (v4_number p q 0 0, 16) = (a * 256 + b = p * 256 + q)"
    "in_block (v4_number a b c d) (v4_number p q 0 0, 10) = (a * 4 + b div 64 = p * 4 + q div 64)"
    "in_block (v4_number a b c d) (v4_number p q 0 0, 12) = (a * 16 + b div 16 = p * 16 + q div 16)"
    "in_block (v4_number a b c d) (v4_number p q 0 0, 15) = (a * 128 + b div 2 = p * 128 + q div 2)"
proof -
  have "(32 :: nat) - 8 = 24" "(32 :: nat) - 4 = 28" "(32 :: nat) - 16 = 16" "(32 :: nat) - 10 = 22" "(32 :: nat) - 12 = 20"
    "(32 :: nat) - 15 = 17" "(0 :: nat) < 256" by simp_all
  note eqs = in_block_def fst_conv snd_conv this v4_number_div [OF assms(1-3), of a] v4_number_div [OF assms(4) this(7,7), of p]
  show "in_block (v4_number a b c d) (v4_number p q 0 0, 8) = (a = p)"
    "in_block (v4_number a b c d) (v4_number p q 0 0, 4) = (a div 16 = p div 16)"
    "in_block (v4_number a b c d) (v4_number p q 0 0, 16) = (a * 256 + b = p * 256 + q)"
    "in_block (v4_number a b c d) (v4_number p q 0 0, 10) = (a * 4 + b div 64 = p * 4 + q div 64)"
    "in_block (v4_number a b c d) (v4_number p q 0 0, 12) = (a * 16 + b div 16 = p * 16 + q div 16)"
    "in_block (v4_number a b c d) (v4_number p q 0 0, 15) = (a * 128 + b div 2 = p * 128 + q div 2)"
    by (simp_all only: eqs)
qed

lemma special_blocks_v4:
  fixes a b c d :: byte
  shows "(special_v4 [a, b, c, d] \<or> \<not> public_ip [a, b, c, d]) =
     list_ex (in_block (v4_number (unat a) (unat b) (unat c) (unat d))) special_blocks"
proof -
  have lt: "unat a < 256" "unat b < 256" "unat c < 256" "unat d < 256" by (rule unat_bound256)+
  let ?n = "v4_number (unat a) (unat b) (unat c) (unat d)"
  note blocks = in_block_v4 [OF lt(2-4), of _ "unat a"]
  have pair: "(x * m + y = k * m + z) = (x = k \<and> y = z)" if "y < m" "z < m" for x y k z m :: nat
    using that by (metis add_right_cancel div_mult_self3 div_less mult.commute mod_less mod_mult_self3 less_nat_zero_code)
  have l: "list_ex (in_block ?n) special_blocks \<longleftrightarrow>
      unat a = 0 \<or> unat a = 10 \<or> (unat a = 100 \<and> unat b div 64 = 1) \<or> unat a = 127 \<or> (unat a = 169 \<and> unat b = 254) \<or>
      (unat a = 172 \<and> unat b div 16 = 1) \<or> (unat a = 192 \<and> unat b = 168) \<or> (unat a = 198 \<and> unat b div 2 = 9) \<or>
      unat a div 16 = 14 \<or> unat a div 16 = 15"
    using pair [of "unat b" 256 254 "unat a" 169] pair [of "unat b" 256 168 "unat a" 192] pair [of "unat b div 64" 4 1 "unat a" 100]
      pair [of "unat b div 16" 16 1 "unat a" 172] pair [of "unat b div 2" 128 9 "unat a" 198] lt(2)
    by (simp add: special_blocks_def blocks less_mult_imp_div_less)
  let ?v = "[a, b, c, d]"
  have v: "To4 ?v = ?v" by (simp add: To4_def)
  have sp: "special_v4 ?v = (unat a = 0 \<or> unat a \<ge> 240 \<or> (unat a = 100 \<and> unat b div 64 = 1) \<or> (unat a = 198 \<and> unat b div 2 = 9))"
    by (simp add: special_v4_def byte_masks byte_eq_iff [of _ 0] byte_eq_iff [of _ 100] byte_eq_iff [of _ 198] word_le_nat_alt)
  have no16: "?v \<noteq> replicate 16 0" by (rule notI, drule arg_cong [where f = length]) simp
  have un: "IsUnspecified ?v = (?v = [0, 0, 0, 0])" using no16 by (simp add: IsUnspecified_def v)
  have lo: "IsLoopback ?v = (unat a = 127)" by (simp add: IsLoopback_def v byte_eq_iff)
  have mu: "IsMulticast ?v = (unat a div 16 = 14)" by (simp add: IsMulticast_def v byte_masks)
  have li: "IsLinkLocalUnicast ?v = (unat a = 169 \<and> unat b = 254)" by (simp add: IsLinkLocalUnicast_def v Let_def byte_eq_iff)
  have pr: "IsPrivate ?v = (unat a = 10 \<or> (unat a = 172 \<and> unat b div 16 = 1) \<or> (unat a = 192 \<and> unat b = 168))"
    by (simp add: IsPrivate_def v Let_def byte_masks byte_eq_iff [of _ 10] byte_eq_iff [of _ 172] byte_eq_iff [of _ 192] byte_eq_iff [of _ 168])
  have gl: "IsGlobalUnicast ?v = (?v \<noteq> [255, 255, 255, 255] \<and> \<not> IsUnspecified ?v \<and> \<not> IsLoopback ?v \<and> \<not> IsMulticast ?v \<and> \<not> IsLinkLocalUnicast ?v)"
    by (simp add: IsGlobalUnicast_def v)
  have all: "special_v4 ?v \<or> \<not> public_ip ?v \<longleftrightarrow>
      unat a = 0 \<or> unat a \<ge> 240 \<or> (unat a = 100 \<and> unat b div 64 = 1) \<or> (unat a = 198 \<and> unat b div 2 = 9) \<or>
      ?v = [255, 255, 255, 255] \<or> ?v = [0, 0, 0, 0] \<or> unat a = 127 \<or> unat a div 16 = 14 \<or>
      (unat a = 169 \<and> unat b = 254) \<or> unat a = 10 \<or> (unat a = 172 \<and> unat b div 16 = 1) \<or> (unat a = 192 \<and> unat b = 168)"
    unfolding public_ip_def gl sp un lo mu li pr by blast
  have order: "(z \<or> g \<or> c' \<or> d' \<or> p \<or> q \<or> e \<or> f \<or> h \<or> i \<or> j \<or> k) = (z \<or> i \<or> c' \<or> e \<or> h \<or> j \<or> k \<or> d' \<or> f \<or> x)"
    if "g = x" "p \<Longrightarrow> g" "q \<Longrightarrow> z" for z g c' d' p q e f h i j k x
    using that by (cases z; cases x; cases p; cases q) (simp_all add: disj_ac)
  have "unat a \<ge> 240 \<longleftrightarrow> unat a div 16 = 15" using lt(1) by presburger
  moreover have "?v = [255, 255, 255, 255] \<Longrightarrow> unat a \<ge> 240" "?v = [0, 0, 0, 0] \<Longrightarrow> unat a = 0" by simp_all
  ultimately show ?thesis unfolding l all by (rule order)
qed

text \<open>An address a viewer may send this node to: outside the blocks above, and for IPv6 outside the ones named here.\<close>

definition tracker_address :: "ip \<Rightarrow> bool" where
  "tracker_address p \<longleftrightarrow>
     (case To4 p of
        [a, b, c, d] \<Rightarrow> \<not> list_ex (in_block (v4_number (unat a) (unat b) (unat c) (unat d))) special_blocks
      | _ \<Rightarrow> length p = 16 \<and> p \<noteq> replicate 16 0 \<and> p \<noteq> replicate 15 0 @ [1] \<and> unat (p ! 0) \<noteq> 255 \<and>
          \<not> (unat (p ! 0) = 254 \<and> unat (p ! 1) div 64 = 2) \<and> unat (p ! 0) div 2 \<noteq> 126)"

lemma public_To4:
  assumes "To4 p \<noteq> []"
  shows "public_ip p = public_ip (To4 p)"
proof -
  have len: "length (To4 p) = 4" "length p = 4 \<or> length p = 16" using assms by (auto simp: To4_def split: if_splits)
  have "p \<noteq> replicate 16 0"
  proof
    assume "p = replicate 16 0"
    moreover have "take 12 (replicate 16 0) \<noteq> v4prefix" by code_simp
    ultimately have "take 12 p \<noteq> v4prefix" "length p \<noteq> 4" by simp_all
    then show False using assms by (simp add: To4_def split: if_splits)
  qed
  moreover have "To4 p \<noteq> replicate 16 0" by (rule notI, drule arg_cong [where f = length]) (simp add: len)
  moreover have "To4 (To4 p) = To4 p" using len(1) by (simp add: To4_def [of "To4 p"])
  moreover have "p \<noteq> []" using len(2) by auto
  ultimately show ?thesis using len assms
    by (simp add: public_ip_def IsGlobalUnicast_def IsUnspecified_def IsLoopback_def IsMulticast_def IsLinkLocalUnicast_def IsPrivate_def Let_def)
qed

lemma public_v6:
  assumes "To4 p = []"
  shows "public_ip p = (length p = 16 \<and> p \<noteq> replicate 16 0 \<and> p \<noteq> replicate 15 0 @ [1] \<and> unat (p ! 0) \<noteq> 255 \<and>
      \<not> (unat (p ! 0) = 254 \<and> unat (p ! 1) div 64 = 2) \<and> unat (p ! 0) div 2 \<noteq> 126)"
proof -
  have 4: "length p \<noteq> 4" using assms by (auto simp: To4_def)
  have m: "(b AND 0xc0 = (0x80 :: byte)) = (unat b div 64 = 2)" "(b AND 0xfe = (0xfc :: byte)) = (unat b div 2 = 126)" for b
    using high_bits_eq [of 6 "0xc0" 128 2 b] high_bits_eq [of 1 "0xfe" 252 126 b] by (simp_all add: mask_eq_exp_minus_1)
  show ?thesis
    using assms 4 unfolding public_ip_def IsGlobalUnicast_def IsUnspecified_def IsLoopback_def IsMulticast_def IsLinkLocalUnicast_def
      IsPrivate_def Let_def
    by (auto simp: m byte_eq_iff [of _ 255] byte_eq_iff [of _ 254])
qed

text \<open>
  C36.  Which addresses a viewer can send this node to.  A tracker of a channel list is used exactly when it is a
  literal address with a port, and the address is outside ten blocks of IPv4 and six kinds of IPv6 addresses, in which are the
  networks of this host and its neighbours.
\<close>

theorem PublicTracker_blocks:
  "PublicTracker addr = (\<exists>host port n. SplitHostPort addr = Some (host, port) \<and> Atoi port = Some n \<and> 0 < n \<and> n \<le> 65535 \<and>
     tracker_address (ParseIP host))"
proof -
  have addr: "(\<not> (To4 p \<noteq> [] \<and> special_v4 (To4 p)) \<and> public_ip p) = tracker_address p" for p
  proof (cases "To4 p = []")
    case True
    then show ?thesis by (simp add: tracker_address_def public_v6)
  next
    case False
    then have "length (To4 p) = 4" by (auto simp: To4_def split: if_splits)
    then obtain a b c d where v: "To4 p = [a, b, c, d]" by (auto simp: numeral_eq_Suc length_Suc_conv)
    then show ?thesis using public_To4 [OF False] special_blocks_v4 [of a b c d] by (auto simp: tracker_address_def)
  qed
  show ?thesis unfolding PublicTracker_def Let_def addr [symmetric] by (auto split: option.splits)
qed

section \<open>The cache over time\<close>

text \<open>
  Calls of \<^verbatim>\<open>Update\<close> and the goroutines of a refresh, at times that do not decrease.  \<open>busy\<close> are the sources still to be
  fetched, \<open>got\<close> the last list a source gave, \<open>starts\<close> when refreshes began, the latest first.
\<close>

inductive cat_run ::
  "YP list \<Rightarrow> Catalog \<Rightarrow> nat set \<Rightarrow> (nat \<Rightarrow> (time \<times> CatChannel list) option) \<Rightarrow> time list \<Rightarrow> time \<Rightarrow> bool" for entries where
  start: "cat_run entries (NewCatalog entries) {} Map.empty [] now"
| call: "cat_run entries c busy got starts t \<Longrightarrow> t \<le> now \<Longrightarrow> update_call now c = (b, c') \<Longrightarrow>
    cat_run entries c' (if b then {..<length entries} else busy) got (if b then now # starts else starts) now"
| source: "cat_run entries c busy got starts t \<Longrightarrow> t \<le> now \<Longrightarrow> i \<in> busy \<Longrightarrow>
    cat_run entries (refresh_one i now result c) (busy - {i})
      (if ypChannelsURL (entries ! i) \<noteq> [] \<and> result \<noteq> None then got(i \<mapsto> (now, the result)) else got) starts now"
| finish: "cat_run entries c {} got starts t \<Longrightarrow> t \<le> now \<Longrightarrow> ctInflight c \<Longrightarrow>
    cat_run entries (refresh_done now c) {} got starts now"

definition last_rows :: "time \<Rightarrow> (time \<times> CatChannel list) option \<Rightarrow> CatChannel list" where
  "last_rows now l = (case l of None \<Rightarrow> [] | Some (t, rows) \<Rightarrow> if now - t < staleTTL then rows else [])"

definition got_ok :: "(time \<times> CatChannel list) option \<Rightarrow> source_state \<Rightarrow> bool" where
  "got_ok l s \<longleftrightarrow> (case l of None \<Rightarrow> scRows s = [] | Some (u, rows) \<Rightarrow> scRows s = rows \<and> scUpdated s = u)"

definition cat_inv :: "YP list \<Rightarrow> Catalog \<Rightarrow> nat set \<Rightarrow> (nat \<Rightarrow> (time \<times> CatChannel list) option) \<Rightarrow> time list \<Rightarrow> time \<Rightarrow> bool" where
  "cat_inv entries c busy got starts t \<longleftrightarrow>
     length (ctSources c) = length entries \<and> busy \<subseteq> {..<length entries} \<and>
     (\<forall>i < length entries. scYP (ctSources c ! i) = entries ! i \<and> got_ok (got i) (ctSources c ! i)) \<and>
     (busy \<noteq> {} \<longrightarrow> ctInflight c) \<and> (\<forall>s \<in> set starts. s \<le> t \<and> (\<not> ctInflight c \<longrightarrow> s + cacheTTL \<le> ctNext c)) \<and>
     sorted_wrt (\<lambda>a b. b + cacheTTL \<le> a) starts"

lemma cat_run_inv: "cat_run entries c busy got starts t \<Longrightarrow> cat_inv entries c busy got starts t"
proof (induction rule: cat_run.induct)
  case (call c busy got starts t now b c')
  then show ?case by (force simp: cat_inv_def update_call_def split: if_splits)
next
  case (source c busy got starts t now i result)
  then have "i < length entries" by (auto simp: cat_inv_def)
  then show ?case using source
    by (force simp: cat_inv_def refresh_one_def refresh_source_def nth_list_update got_ok_def split: option.splits)
next
  case (finish c got starts t now)
  then show ?case by (force simp: cat_inv_def refresh_done_def)
qed (simp add: cat_inv_def NewCatalog_def got_ok_def)

text \<open>
  C19.  The shared cache.  However many callers ask, two refreshes begin at least a minute apart; and what a caller gets
  is, for each source, the list of its last successful fetch, unless that is five minutes old, whatever failed since.
\<close>

theorem catalog_cache:
  assumes "cat_run entries c busy got starts t"
  shows "sorted_wrt (\<lambda>a b. b + cacheTTL \<le> a) starts \<and>
         fst (Snapshot now c) = concat (map (\<lambda>i. last_rows now (got i)) [0..<length entries])"
proof -
  have inv: "cat_inv entries c busy got starts t" by (rule cat_run_inv [OF assms])
  have "map (\<lambda>s. if now - scUpdated s < staleTTL then scRows s else []) (ctSources c) = map (\<lambda>i. last_rows now (got i)) [0..<length entries]"
  proof (rule nth_equalityI)
    fix i assume "i < length (map (\<lambda>s. if now - scUpdated s < staleTTL then scRows s else []) (ctSources c))"
    then have "i < length entries" "i < length (ctSources c)" using inv by (simp_all add: cat_inv_def)
    then show "map (\<lambda>s. if now - scUpdated s < staleTTL then scRows s else []) (ctSources c) ! i =
        map (\<lambda>i. last_rows now (got i)) [0..<length entries] ! i"
      using inv by (auto simp: cat_inv_def last_rows_def got_ok_def split: option.splits prod.splits)
  qed (use inv in \<open>simp add: cat_inv_def\<close>)
  then show ?thesis using inv by (simp add: cat_inv_def Snapshot_def)
qed

theorem catalog_cache_witness:
  "\<exists>c. cat_run [\<lparr>ypChannelsURL = ''u'', ypName = ''y'', ypAddr = []\<rparr>] c {} [0 \<mapsto> (7, [])] [5] 9 \<and> fst (Snapshot 10 c) = []"
proof -
  let ?y = "\<lparr>ypChannelsURL = ''u'', ypName = ''y'', ypAddr = []\<rparr>"
  have "update_call 5 (NewCatalog [?y]) = (True, (NewCatalog [?y])\<lparr>ctInflight := True\<rparr>)" by (simp add: update_call_def NewCatalog_def)
  from cat_run.call [OF cat_run.start order_refl this]
  have "cat_run [?y] ((NewCatalog [?y])\<lparr>ctInflight := True\<rparr>) {0} Map.empty [5] 5" by (simp add: lessThan_Suc)
  from cat_run.source [OF this, of 7 0 "Some []"]
  have "cat_run [?y] (refresh_one 0 7 (Some []) ((NewCatalog [?y])\<lparr>ctInflight := True\<rparr>)) {} [0 \<mapsto> (7, [])] [5] 7" by simp
  from cat_run.finish [OF this, of 9]
  have run: "cat_run [?y] (refresh_done 9 (refresh_one 0 7 (Some []) ((NewCatalog [?y])\<lparr>ctInflight := True\<rparr>))) {} [0 \<mapsto> (7, [])] [5] 9"
    by (simp add: refresh_one_def)
  from catalog_cache [OF this, of 10] this show ?thesis by (intro exI) (auto simp: last_rows_def)
qed

end
