(* ===== verification/Relay_Tree.thy ===== *)
theory Relay_Tree
  imports Channel Network Version "HOL-Library.AList" "HOL-Library.List_Lexorder" "HOL-Library.Char_ord"
begin

text \<open>
  \<^verbatim>\<open>internal/jsonrpc/handler_relay.go\<close>: the tree of nodes that relay a channel, put together from the outputs
  of this node and the HOST atoms other nodes sent, which may contradict each other or name parents in a circle.
\<close>

record tree_info =
  tiSessionID :: string
  tiAddress :: string
  tiPort :: int
  tiIsFirewalled :: bool
  tiLocalRelays :: int
  tiLocalDirects :: int
  tiIsTracker :: bool
  tiIsRelayFull :: bool
  tiIsDirectFull :: bool
  tiIsReceiving :: bool
  tiIsControlFull :: bool
  tiVersion :: int
  tiVersionString :: string

datatype relayTreeNode = TreeNode (node_info: tree_info) (node_children: "relayTreeNode list")

definition tree_info0 :: tree_info where
  "tree_info0 =
     \<lparr>tiSessionID = [], tiAddress = [], tiPort = 0, tiIsFirewalled = False, tiLocalRelays = 0, tiLocalDirects = 0,
      tiIsTracker = False, tiIsRelayFull = False, tiIsDirectFull = False, tiIsReceiving = False,
      tiIsControlFull = False, tiVersion = 0, tiVersionString = []\<rparr>"

definition gnuIDString :: "gnuid \<Rightarrow> string" where
  "gnuIDString i = EncodeToString i"

text \<open>The host part; an address that does not split gives the empty string.\<close>

definition host_part :: "string \<Rightarrow> string" where
  "host_part a = (case SplitHostPort a of None \<Rightarrow> [] | Some (h, _) \<Rightarrow> h)"

section \<open>Collecting the nodes\<close>

text \<open>The maps of the handler: nodes and their parents by identifier, and identifiers by endpoint.\<close>

record tree_maps =
  tmNodes :: "(string \<times> tree_info) list"
  tmParents :: "string \<rightharpoonup> string"
  tmEndpoints :: "string \<rightharpoonup> string"

definition add_direct :: "string \<Rightarrow> RelayNodeEntry \<Rightarrow> tree_maps \<Rightarrow> tree_maps" where
  "add_direct self rn T =
     (let i = gnuIDString (rnSessionID rn) in
      T\<lparr>tmNodes := AList.update i
          (tree_info0\<lparr>tiSessionID := i, tiAddress := host_part (rnRemoteAddr rn), tiPort := uint (rnRemotePort rn),
             tiIsFirewalled := rnIsFirewalled rn, tiVersion := uint (rnVersion rn), tiVersionString := rnAgent rn\<rparr>) (tmNodes T),
        tmParents := (tmParents T)(i \<mapsto> self)\<rparr>)"

definition endpoint_step ::
  "'a pcp \<Rightarrow> string \<Rightarrow> nat \<times> 'a \<times> 'a \<Rightarrow> tree_info \<times> (string \<rightharpoonup> string) \<Rightarrow> tree_info \<times> (string \<rightharpoonup> string)" where
  "endpoint_step P i x st =
     (case (x, st) of ((k, ipAtom, portAtom), (n, eps)) \<Rightarrow>
        let p = AtomIP P (Some ipAtom); port = fst (GetShort P portAtom) in
        if p = [] \<or> IsUnspecified p \<or> port = 0 then st
        else (if k = 0 \<or> tiAddress n = [] then n\<lparr>tiAddress := ip_string p, tiPort := uint port\<rparr> else n,
              eps(JoinHostPort (ip_string p) (Itoa (uint port)) \<mapsto> i)))"

definition host_info :: "'a pcp \<Rightarrow> 'a \<Rightarrow> string \<Rightarrow> tree_info \<Rightarrow> tree_info" where
  "host_info P h i n =
     (let flags = atom_Byte P h PCPHostFlags1; on = (\<lambda>f. flags AND flag_of P f \<noteq> 0) in
      n\<lparr>tiSessionID := i, tiIsFirewalled := on PCPHostFlags1Push, tiIsTracker := on PCPHostFlags1Tracker,
        tiIsRelayFull := \<not> on PCPHostFlags1Relay, tiIsDirectFull := \<not> on PCPHostFlags1Direct,
        tiIsReceiving := on PCPHostFlags1Recv, tiIsControlFull := \<not> on PCPHostFlags1CIN,
        tiLocalRelays := uint (atom_Int P h PCPHostNumRelays), tiLocalDirects := uint (atom_Int P h PCPHostNumListeners),
        tiVersion := uint (atom_Int P h PCPHostVersion)\<rparr>)"

definition version_string :: "'a pcp \<Rightarrow> 'a \<Rightarrow> tree_info \<Rightarrow> tree_info" where
  "version_string P h n =
     (case (has P h PCPHostVersionExPrefix, has P h PCPHostVersionExNumber) of
        (Some ex, Some num) \<Rightarrow> n\<lparr>tiVersionString := map (\<lambda>b. char_of (unat b)) (AtomData P ex) @ Itoa (uint (fst (GetShort P num)))\<rparr>
      | _ \<Rightarrow> n)"

definition add_host :: "'a pcp \<Rightarrow> gnuid \<Rightarrow> 'a \<Rightarrow> tree_maps \<Rightarrow> tree_maps" where
  "add_host P session h T =
     (case HostID P (Some h) of (sid, ok) \<Rightarrow>
        if \<not> ok \<or> sid = session then T
        else
          let i = gnuIDString sid;
              n = (case map_of (tmNodes T) i of None \<Rightarrow> tree_info0 | Some n \<Rightarrow> n)
          in case fold (endpoint_step P i)
                (enumerate 0 (zip (FindChildren P h (tag_of P PCPHostIP)) (FindChildren P h (tag_of P PCPHostPort))))
                (host_info P h i n, tmEndpoints T) of
              (n', eps) \<Rightarrow> T\<lparr>tmNodes := AList.update i (version_string P h n') (tmNodes T), tmEndpoints := eps\<rparr>)"

text \<open>The parent of a reported node: the node with the endpoint it names as its upstream, else this node.\<close>

definition link_host :: "'a pcp \<Rightarrow> string \<Rightarrow> 'a \<Rightarrow> tree_maps \<Rightarrow> tree_maps" where
  "link_host P self h T =
     (let i = gnuIDString (fst (HostID P (Some h))) in
      if tmParents T i \<noteq> None then T
      else
        let up = AtomIP P (has P h PCPHostUphostIP); port = atom_Int P h PCPHostUphostPort;
            parent = (case tmEndpoints T (JoinHostPort (ip_string up) (Itoa (uint port))) of None \<Rightarrow> [] | Some e \<Rightarrow> e)
        in T\<lparr>tmParents := (tmParents T)(i \<mapsto> (if parent = [] then self else parent))\<rparr>)"

definition collect :: "'a pcp \<Rightarrow> gnuid \<Rightarrow> time \<Rightarrow> 'a Channel \<Rightarrow> tree_maps" where
  "collect P session now ch =
     (let self = gnuIDString session; hosts = KnownHosts P now (nodes ch) in
      fold (link_host P self) hosts (fold (add_host P session) hosts (fold (add_direct self) (RelayNodes ch)
        \<lparr>tmNodes = [], tmParents = Map.empty, tmEndpoints = Map.empty\<rparr>)))"

section \<open>Building the tree\<close>

definition lookup_or :: "'b \<Rightarrow> (string \<rightharpoonup> 'b) \<Rightarrow> string \<Rightarrow> 'b" where
  "lookup_or z m k = (case m k of None \<Rightarrow> z | Some v \<Rightarrow> v)"

text \<open>
  The recursive closure \<^verbatim>\<open>children\<close>: the loop over the identifiers that are left; \<open>visited\<close> is shared by all
  calls.
\<close>

function children ::
  "(string \<Rightarrow> string) \<Rightarrow> (string \<Rightarrow> tree_info) \<Rightarrow> string list \<Rightarrow> string \<Rightarrow> string list \<Rightarrow> string list \<Rightarrow> relayTreeNode list \<times> string list" where
  "children par node_of ids parent [] visited = ([], visited)"
| "children par node_of ids parent (i # rest) visited =
     (if i \<in> set visited \<or> par i \<noteq> parent then children par node_of ids parent rest visited
      else case children par node_of ids i ids (i # visited) of (cs, v1) \<Rightarrow>
        case children par node_of ids parent rest v1 of (ns, v2) \<Rightarrow> (TreeNode (node_of i) cs # ns, v2))"
  by pat_completeness auto

lemma children_visited:
  "children_dom (par, node_of, ids, parent, rest, visited) \<Longrightarrow>
     set visited \<subseteq> set (snd (children par node_of ids parent rest visited))"
proof (induction rule: children.pinduct)
  case (2 par node_of ids parent i rest visited)
  show ?case
  proof (cases "i \<in> set visited \<or> par i \<noteq> parent")
    case True
    then show ?thesis using 2 by (simp add: children.psimps)
  next
    case False
    obtain cs v1 where c: "children par node_of ids i ids (i # visited) = (cs, v1)" by fastforce
    obtain ns v2 where n: "children par node_of ids parent rest v1 = (ns, v2)" by fastforce
    have "set (i # visited) \<subseteq> set v1" using 2(3) [OF False] c by simp
    moreover have "set v1 \<subseteq> set v2" using 2(4) [OF False c [symmetric]] n by simp
    ultimately show ?thesis using 2(1) False c n by (simp add: children.psimps) blast
  qed
qed (simp add: children.psimps)

termination children
proof (relation "measures [\<lambda>(par, node_of, ids, parent, rest, visited). card ((set ids \<union> set rest) - set visited),
    \<lambda>(par, node_of, ids, parent, rest, visited). length rest]", goal_cases)
  case (2 par node_of ids parent i rest visited)
  have "card (set ids \<union> set rest - set visited) \<le> card (set ids \<union> set (i # rest) - set visited)"
    by (intro card_mono) auto
  then show ?case by (auto simp: le_less)
next
  case (3 par node_of ids parent i rest visited)
  then have "card (set ids \<union> set ids - set (i # visited)) < card (set ids \<union> set (i # rest) - set visited)"
    by (intro psubset_card_mono) auto
  then show ?case by simp
next
  case (4 par node_of ids parent i rest visited cs v1)
  then have "insert i (set visited) \<subseteq> set v1" using children_visited [OF 4(3)] by (metis list.simps(15) snd_conv)
  then have "card (set ids \<union> set rest - set v1) \<le> card (set ids \<union> set (i # rest) - set visited)"
    by (intro card_mono) auto
  then show ?case by (auto simp: le_less)
qed simp

text \<open>The loop that appends the nodes not reached from this node.\<close>

fun orphans ::
  "(string \<Rightarrow> string) \<Rightarrow> (string \<Rightarrow> tree_info) \<Rightarrow> string list \<Rightarrow> string list \<Rightarrow> string list \<Rightarrow> relayTreeNode list" where
  "orphans par node_of ids [] visited = []"
| "orphans par node_of ids (i # rest) visited =
     (if i \<in> set visited then orphans par node_of ids rest visited
      else case children par node_of ids i ids (i # visited) of (cs, v1) \<Rightarrow> TreeNode (node_of i) cs # orphans par node_of ids rest v1)"

definition own_info ::
  "gnuid \<Rightarrow> int \<Rightarrow> NetworkState option \<Rightarrow> bool \<times> bool \<Rightarrow> time \<Rightarrow> 'a Channel \<Rightarrow> tree_info" where
  "own_info session port net slots now ch =
     (case Status net (ParseIP (host_part (upstreamAddr ch))) of (p, kn, op) \<Rightarrow>
        tree_info0\<lparr>tiSessionID := gnuIDString session, tiPort := port, tiIsFirewalled := net \<noteq> None \<and> (\<not> kn \<or> \<not> op),
          tiLocalRelays := numRelays ch, tiLocalDirects := numListeners ch, tiIsTracker := isBroadcasting ch,
          tiIsRelayFull := fst slots, tiIsDirectFull := snd slots, tiIsReceiving := IsReceiving now ch,
          tiVersion := uint PCPVersion, tiVersionString := AgentName, tiAddress := (if p \<noteq> [] then ip_string p else [])\<rparr>)"

definition own_tree :: "tree_maps \<Rightarrow> tree_info \<Rightarrow> relayTreeNode" where
  "own_tree T own =
     (let self = tiSessionID own; ids = sort (map fst (tmNodes T));
          par = lookup_or [] (tmParents T); node_of = lookup_or tree_info0 (map_of (tmNodes T))
      in case children par node_of ids self ids [self] of (cs, v) \<Rightarrow> TreeNode own (cs @ orphans par node_of ids ids v))"

text \<open>The value of \<^verbatim>\<open>strconv.Atoi\<close> beside its error: zero, or the nearest number that fits.\<close>

definition Atoi_value :: "string \<Rightarrow> int" where
  "Atoi_value s =
     (case Atoi s of
        Some n \<Rightarrow> n
      | None \<Rightarrow>
          if s \<noteq> [] \<and> (hd s = CHR ''-'' \<or> hd s = CHR ''+'') \<and> parse_digits (tl s) \<noteq> None
          then (if hd s = CHR ''-'' then - (2 ^ 63) else 2 ^ 63 - 1)
          else if parse_digits s \<noteq> None then 2 ^ 63 - 1 else 0)"

text \<open>\<open>slots\<close> is the answer of \<^verbatim>\<open>SlotStatus\<close>; a relayed channel's upstream is the root.\<close>

definition getChannelRelayTree ::
  "'a pcp \<Rightarrow> gnuid \<Rightarrow> int \<Rightarrow> NetworkState option \<Rightarrow> bool \<times> bool \<Rightarrow> time \<Rightarrow> 'a Channel \<Rightarrow> relayTreeNode" where
  "getChannelRelayTree P session port net slots now ch =
     (let n = own_tree (collect P session now ch) (own_info session port net slots now ch) in
      if upstreamAddr ch = [] then n
      else
        let sid = fst (UpstreamNodeInfo ch);
            endpoint = (case SplitHostPort (upstreamAddr ch) of None \<Rightarrow> ([], []) | Some hp \<Rightarrow> hp)
        in TreeNode (tree_info0\<lparr>tiSessionID := (if IsEmpty P sid then [] else gnuIDString sid), tiAddress := fst endpoint,
             tiPort := Atoi_value (snd endpoint), tiIsReceiving := IsReceiving now ch\<rparr>) [n])"

section \<open>Every node once\<close>

fun tree_ids :: "relayTreeNode \<Rightarrow> string list" where
  "tree_ids (TreeNode n cs) = tiSessionID n # concat (map tree_ids cs)"

text \<open>Each node with each of its children.\<close>

fun tree_edges :: "relayTreeNode \<Rightarrow> (string \<times> string) list" where
  "tree_edges (TreeNode n cs) =
     map (\<lambda>c. (tiSessionID n, tiSessionID (node_info c))) cs @ concat (map tree_edges cs)"

definition forest_ids :: "relayTreeNode list \<Rightarrow> string list" where
  "forest_ids ns = concat (map tree_ids ns)"

definition forest_edges :: "string \<Rightarrow> relayTreeNode list \<Rightarrow> (string \<times> string) list" where
  "forest_edges p ns = map (\<lambda>c. (p, tiSessionID (node_info c))) ns @ concat (map tree_edges ns)"

lemma forest_simps [simp]:
  "forest_ids [] = []" "forest_ids (TreeNode n cs # ns) = tiSessionID n # forest_ids cs @ forest_ids ns"
  "forest_ids (ns @ ns') = forest_ids ns @ forest_ids ns'"
  "set (forest_edges p []) = {}"
  "set (forest_edges p (TreeNode n cs # ns)) =
     insert (p, tiSessionID n) (set (forest_edges (tiSessionID n) cs) \<union> set (forest_edges p ns))"
  "set (forest_edges p (ns @ ns')) = set (forest_edges p ns) \<union> set (forest_edges p ns')"
  by (auto simp: forest_ids_def forest_edges_def)

lemma tree_as_forest:
  "tree_ids (TreeNode n cs) = tiSessionID n # forest_ids cs"
  "tree_edges (TreeNode n cs) = forest_edges (tiSessionID n) cs"
  by (simp_all add: forest_ids_def forest_edges_def)

lemma UN_insert_image: "(\<Union>c \<in> A. insert (f c) (B c)) = f ` A \<union> (\<Union>c \<in> A. B c)"
  by blast

lemma tree_edges_ids: "set (tree_ids t) = insert (tiSessionID (node_info t)) (snd ` set (tree_edges t))"
proof (induction t)
  case (TreeNode n cs)
  have "set (tree_ids (TreeNode n cs)) = insert (tiSessionID n) (\<Union>c \<in> set cs. set (tree_ids c))" by simp
  also have "\<dots> = insert (tiSessionID n) (\<Union>c \<in> set cs. insert (tiSessionID (node_info c)) (snd ` set (tree_edges c)))"
    using TreeNode.IH by simp
  also have "\<dots> = insert (tiSessionID n) (snd ` set (tree_edges (TreeNode n cs)))"
    by (simp add: image_Un image_UN image_image UN_insert_image)
  finally show ?case by simp
qed

lemma forest_edges_ids: "set (forest_ids ns) = snd ` set (forest_edges p ns)"
proof -
  have "set (forest_ids ns) = (\<Union>c \<in> set ns. insert (tiSessionID (node_info c)) (snd ` set (tree_edges c)))"
    by (simp add: forest_ids_def tree_edges_ids)
  also have "\<dots> = snd ` set (forest_edges p ns)" by (simp add: forest_edges_def image_Un image_UN image_image UN_insert_image)
  finally show ?thesis .
qed

text \<open>What a call of \<^verbatim>\<open>children\<close> adds to the tree.\<close>

lemma children_spec:
  assumes "children par node_of ids parent rest visited = (ns, v)" "\<forall>i \<in> set ids \<union> set rest. tiSessionID (node_of i) = i"
  shows "set v = set visited \<union> set (forest_ids ns) \<and> set (forest_ids ns) \<subseteq> (set ids \<union> set rest) - set visited \<and>
         distinct (forest_ids ns) \<and> (\<forall>(p, c) \<in> set (forest_edges parent ns). par c = p) \<and>
         (\<forall>i \<in> set rest. par i = parent \<longrightarrow> i \<in> set v) \<and> (\<forall>i \<in> set ids. par i \<in> set (forest_ids ns) \<longrightarrow> i \<in> set v)"
  using assms
proof (induction par node_of ids parent rest visited arbitrary: ns v rule: children.induct)
  case (2 par node_of ids parent i rest visited)
  show ?case
  proof (cases "i \<in> set visited \<or> par i \<noteq> parent")
    case True
    then show ?thesis using "2.IH"(1) [OF True, of ns v] "2.prems" by auto
  next
    case False
    obtain cs v1 where c: "children par node_of ids i ids (i # visited) = (cs, v1)" by fastforce
    obtain ns' v2 where n: "children par node_of ids parent rest v1 = (ns', v2)" by fastforce
    have res: "ns = TreeNode (node_of i) cs # ns'" "v = v2" "tiSessionID (node_of i) = i" "par i = parent"
      using "2.prems" False c n by auto
    note sub = "2.IH"(2) [OF False c] and sibs = "2.IH"(3) [OF False c [symmetric] n]
    show ?thesis using sub sibs "2.prems"(2) False unfolding res by (auto simp: res)
  qed
qed simp

lemma orphans_spec:
  assumes "\<forall>i \<in> set ids \<union> set rest. tiSessionID (node_of i) = i"
  shows "set (forest_ids (orphans par node_of ids rest visited)) \<subseteq> (set ids \<union> set rest) - set visited \<and>
         set rest \<subseteq> set visited \<union> set (forest_ids (orphans par node_of ids rest visited)) \<and>
         distinct (forest_ids (orphans par node_of ids rest visited)) \<and>
         (\<forall>(p, c) \<in> set (forest_edges self (orphans par node_of ids rest visited)). p = self \<or> par c = p)"
  using assms
proof (induction par node_of ids rest visited rule: orphans.induct)
  case (2 par node_of ids i rest visited)
  show ?case
  proof (cases "i \<in> set visited")
    case True
    then show ?thesis using "2.IH"(1) [OF True] "2.prems" by auto
  next
    case False
    obtain cs v1 where c: "children par node_of ids i ids (i # visited) = (cs, v1)" by fastforce
    have i: "tiSessionID (node_of i) = i" using "2.prems" by simp
    note sub = children_spec [OF c] and rest = "2.IH"(2) [OF False c [symmetric]]
    show ?thesis using sub rest "2.prems" False by (auto simp: c i)
  qed
qed simp

text \<open>The nodes the handler has heard of, and those whose parents lead to this node.\<close>

definition shown_ids :: "'a pcp \<Rightarrow> gnuid \<Rightarrow> time \<Rightarrow> 'a Channel \<Rightarrow> string set" where
  "shown_ids P session now ch =
     gnuIDString ` (rnSessionID ` set (RelayNodes ch) \<union>
       (fst ` {x \<in> (\<lambda>h. HostID P (Some h)) ` set (KnownHosts P now (nodes ch)). snd x} - {session}))"

inductive linked :: "(string \<Rightarrow> string) \<Rightarrow> string set \<Rightarrow> string \<Rightarrow> string \<Rightarrow> bool" for par ids self where
  direct: "i \<in> ids \<Longrightarrow> par i = self \<Longrightarrow> linked par ids self i"
| below: "linked par ids self p \<Longrightarrow> i \<in> ids \<Longrightarrow> par i = p \<Longrightarrow> linked par ids self i"

definition named :: "tree_maps \<Rightarrow> bool" where
  "named T \<longleftrightarrow> (\<forall>x \<in> set (tmNodes T). tiSessionID (snd x) = fst x)"

lemma set_update: "set (AList.update k v xs) \<subseteq> insert (k, v) (set xs)"
  by (induction xs) auto

lemma named_update:
  "named T \<Longrightarrow> tmNodes T' = AList.update i n (tmNodes T) \<Longrightarrow> tiSessionID n = i \<Longrightarrow> named T'"
  using set_update [of i n "tmNodes T"] by (auto simp: named_def)

lemma endpoint_steps_id: "tiSessionID (fst (fold (endpoint_step P i) xs st)) = tiSessionID (fst st)"
  by (induction xs arbitrary: st) (auto simp: endpoint_step_def Let_def split: prod.splits)

lemma add_direct_props:
  "named T \<Longrightarrow> named (add_direct self rn T)"
  "fst ` set (tmNodes (add_direct self rn T)) = insert (gnuIDString (rnSessionID rn)) (fst ` set (tmNodes T))"
  by (auto simp: add_direct_def Let_def dom_update intro: named_update)

lemma add_host_props:
  "named T \<Longrightarrow> named (add_host P session h T)"
  "fst ` set (tmNodes (add_host P session h T)) =
     (if snd (HostID P (Some h)) \<and> fst (HostID P (Some h)) \<noteq> session
      then insert (gnuIDString (fst (HostID P (Some h)))) (fst ` set (tmNodes T)) else fst ` set (tmNodes T))"
proof -
  have v: "tiSessionID (version_string P h n) = tiSessionID n" for n
    by (simp add: version_string_def split: option.splits)
  have "tiSessionID (fst (fold (endpoint_step P i) xs (host_info P h i n, eps))) = i" for i xs n eps
    by (simp add: endpoint_steps_id host_info_def Let_def)
  then have id: "fold (endpoint_step P i) xs (host_info P h i n, eps) = (n', eps') \<Longrightarrow> tiSessionID n' = i" for i xs n eps n' eps'
    by (metis fst_conv)
  show "named T \<Longrightarrow> named (add_host P session h T)"
    by (auto simp: add_host_def Let_def v dest: id intro!: named_update [of T] split: prod.splits)
  show "fst ` set (tmNodes (add_host P session h T)) =
     (if snd (HostID P (Some h)) \<and> fst (HostID P (Some h)) \<noteq> session
      then insert (gnuIDString (fst (HostID P (Some h)))) (fst ` set (tmNodes T)) else fst ` set (tmNodes T))"
    by (auto simp: add_host_def Let_def dom_update split: prod.splits)
qed

lemma collect_props: "named (collect P session now ch)" "fst ` set (tmNodes (collect P session now ch)) = shown_ids P session now ch"
proof -
  let ?D = "fold (add_direct (gnuIDString session)) (RelayNodes ch) \<lparr>tmNodes = [], tmParents = Map.empty, tmEndpoints = Map.empty\<rparr>"
  have d: "named (fold (add_direct self) rns T) \<and>
      fst ` set (tmNodes (fold (add_direct self) rns T)) = gnuIDString ` rnSessionID ` set rns \<union> fst ` set (tmNodes T)"
    if "named T" for self rns T using that by (induction rns arbitrary: T) (auto simp: add_direct_props)
  have D: "named ?D" "fst ` set (tmNodes ?D) = gnuIDString ` rnSessionID ` set (RelayNodes ch)"
    using d [of "\<lparr>tmNodes = [], tmParents = Map.empty, tmEndpoints = Map.empty\<rparr>"] by (auto simp: named_def)
  have h: "named (fold (add_host P session) hs T) \<and> fst ` set (tmNodes (fold (add_host P session) hs T)) =
      gnuIDString ` (fst ` {x \<in> (\<lambda>h. HostID P (Some h)) ` set hs. snd x} - {session}) \<union> fst ` set (tmNodes T)"
    if "named T" for hs T using that by (induction hs arbitrary: T) (auto simp: add_host_props)
  have l: "tmNodes (fold (link_host P self) hs T) = tmNodes T" for self hs T
    by (induction hs arbitrary: T) (auto simp: link_host_def Let_def)
  show "named (collect P session now ch)" using h [OF D(1)] by (simp add: collect_def Let_def named_def l)
  show "fst ` set (tmNodes (collect P session now ch)) = shown_ids P session now ch"
    using h [OF D(1)] D(2) by (auto simp: collect_def Let_def l shown_ids_def)
qed

text \<open>The node for itself in the answer: below its upstream, if it has one; and where a node belongs.\<close>

definition own_subtree ::
  "'a pcp \<Rightarrow> gnuid \<Rightarrow> int \<Rightarrow> NetworkState option \<Rightarrow> bool \<times> bool \<Rightarrow> time \<Rightarrow> 'a Channel \<Rightarrow> relayTreeNode" where
  "own_subtree P session port net slots now ch =
     (let t = getChannelRelayTree P session port net slots now ch in if upstreamAddr ch = [] then t else hd (node_children t))"

definition linked_parent :: "'a pcp \<Rightarrow> gnuid \<Rightarrow> time \<Rightarrow> 'a Channel \<Rightarrow> string \<Rightarrow> string" where
  "linked_parent P session now ch = lookup_or [] (tmParents (collect P session now ch))"


end
