(* ===== verification/Rpc_Handlers.thy ===== *)
theory Rpc_Handlers
  imports Manager Catalog Relay_Tree Go_Json
begin

text \<open>
  \<^verbatim>\<open>internal/jsonrpc/handler_channel.go\<close>, \<^verbatim>\<open>handler_connection.go\<close>, \<^verbatim>\<open>handler_system.go\<close> and \<^verbatim>\<open>handler_yp.go\<close>:
  the methods of the JSON-RPC API over the manager.  The server is built with the manager of this program, which has
  every optional interface the handlers ask for.  A result is a JSON value, an error its code and message; the text of an
  error of the manager is that error.
\<close>

datatype rpc_message = Msg string | KeyMsg key_error | MgrMsg mgr_error

record rpc_error =
  reCode :: int
  reMessage :: rpc_message

definition errCodeParse :: int where "errCodeParse = - 32700"
definition errCodeMethodNotFound :: int where "errCodeMethodNotFound = - 32601"
definition errCodeInvalidParams :: int where "errCodeInvalidParams = - 32602"
definition errCodeInternal :: int where "errCodeInternal = - 32603"

datatype 'a rpc_effect = RpcMgr "'a mgr_effect" | RpcBump | RpcAudit Event

record 'a rpc_state =
  rsMgr :: "'a Manager"
  rsCatalog :: Catalog

record rpc_server =
  rvActor :: Actor
  rvSession :: gnuid
  rvCfg :: Config
  rvHasYP :: bool

text \<open>
  What varies between runs: the clock, random bytes, the order of map iterations (of the accounts, channels, nodes and
  inputs), what outputs report as their rate, whether the key cache could be saved, which relay clients can reconnect, and
  what a refresh of the catalog leaves behind.
\<close>

record rpc_env =
  veNow :: time
  veRand :: "byte list"
  veAccounts :: "string list"
  veChans :: "gnuid list"
  veNodes :: "gnuid list"
  veInputs :: "string list"
  veSendRate :: "nat \<Rightarrow> int"
  veSaved :: bool
  veReconnectable :: "nat \<Rightarrow> bool"
  veWait :: "Catalog \<Rightarrow> Catalog"

type_synonym 'a rpc_result = "(rpc_error + json) \<times> 'a rpc_state \<times> 'a rpc_effect list"

definition invalid_params :: "string \<Rightarrow> rpc_error" where
  "invalid_params s = \<lparr>reCode = errCodeInvalidParams, reMessage = Msg s\<rparr>"

definition internal_error :: "string \<Rightarrow> rpc_error" where
  "internal_error s = \<lparr>reCode = errCodeInternal, reMessage = Msg s\<rparr>"

definition fails :: "rpc_error \<Rightarrow> 'a rpc_state \<Rightarrow> 'a rpc_result" where
  "fails e st = (Inl e, st, [])"

definition answers :: "json \<Rightarrow> 'a rpc_state \<Rightarrow> 'a rpc_result" where
  "answers j st = (Inr j, st, [])"

definition auditEvent :: "rpc_server \<Rightarrow> 'a rpc_state \<Rightarrow> Event \<Rightarrow> 'a rpc_effect list" where
  "auditEvent S st e = (if mgrAudit (rsMgr st) then [RpcAudit (e\<lparr>evActor := rvActor S\<rparr>)] else [])"

section \<open>Parameters\<close>

text \<open>\<^verbatim>\<open>Unmarshal\<close> of the parameters; those that were not sent are an empty text, which is an error.\<close>

definition unmarshal :: "'b decoder \<Rightarrow> 'b \<Rightarrow> json option \<Rightarrow> 'b option" where
  "unmarshal D zero p = (case p of None \<Rightarrow> None | Some j \<Rightarrow> D j zero)"

definition slice_of :: "'b decoder \<Rightarrow> 'b \<Rightarrow> 'b list decoder" where
  "slice_of D zero j old = into_slice D zero j"

definition raw_args :: "json option \<Rightarrow> json list option" where
  "raw_args p = unmarshal (slice_of into_raw JNull) [] p"

definition lookup_channel :: "string \<Rightarrow> 'a Manager \<Rightarrow> nat option" where
  "lookup_channel s m =
     (case DecodeString s of
        None \<Rightarrow> None
      | Some b \<Rightarrow> if length b \<noteq> 16 then None else GetByID b m)"

text \<open>The channel a text names, or the error.\<close>

definition channel_arg :: "json \<Rightarrow> 'a Manager \<Rightarrow> rpc_error + nat" where
  "channel_arg j m =
     (case into_string j [] of
        None \<Rightarrow> Inl (invalid_params ''invalid channelId'')
      | Some s \<Rightarrow> (case lookup_channel s m of None \<Rightarrow> Inl (internal_error ''channel not found'') | Some r \<Rightarrow> Inr r))"

definition on_channel_arg :: "json \<Rightarrow> (nat \<Rightarrow> 'a rpc_state \<Rightarrow> 'a rpc_result) \<Rightarrow> 'a rpc_state \<Rightarrow> 'a rpc_result" where
  "on_channel_arg j f st = (case channel_arg j (rsMgr st) of Inl e \<Rightarrow> fails e st | Inr r \<Rightarrow> f r st)"

definition withChannel :: "json option \<Rightarrow> (nat \<Rightarrow> 'a rpc_state \<Rightarrow> 'a rpc_result) \<Rightarrow> 'a rpc_state \<Rightarrow> 'a rpc_result" where
  "withChannel params f st =
     (case raw_args params of
        None \<Rightarrow> fails (invalid_params ''channelId required'') st
      | Some [] \<Rightarrow> fails (invalid_params ''channelId required'') st
      | Some (a # _) \<Rightarrow> on_channel_arg a f st)"

record chanInfoArg =
  iaName :: string
  iaURL :: string
  iaGenre :: string
  iaDesc :: string
  iaComment :: string
  iaBitrate :: u32

record trackInfoArg =
  taTitle :: string
  taCreator :: string
  taURL :: string
  taAlbum :: string

record broadcastChannelParam =
  bpStreamKey :: string
  bpInfo :: chanInfoArg
  bpTrack :: trackInfoArg

definition chanInfoArg0 :: chanInfoArg where
  "chanInfoArg0 = \<lparr>iaName = [], iaURL = [], iaGenre = [], iaDesc = [], iaComment = [], iaBitrate = 0\<rparr>"

definition trackInfoArg0 :: trackInfoArg where
  "trackInfoArg0 = \<lparr>taTitle = [], taCreator = [], taURL = [], taAlbum = []\<rparr>"

definition broadcastChannelParam0 :: broadcastChannelParam where
  "broadcastChannelParam0 = \<lparr>bpStreamKey = [], bpInfo = chanInfoArg0, bpTrack = trackInfoArg0\<rparr>"

definition into_info :: "chanInfoArg decoder" where
  "into_info = into_struct
     [(''name'', on_field iaName (\<lambda>x. iaName_update (\<lambda>_. x)) into_string),
      (''url'', on_field iaURL (\<lambda>x. iaURL_update (\<lambda>_. x)) into_string),
      (''genre'', on_field iaGenre (\<lambda>x. iaGenre_update (\<lambda>_. x)) into_string),
      (''desc'', on_field iaDesc (\<lambda>x. iaDesc_update (\<lambda>_. x)) into_string),
      (''comment'', on_field iaComment (\<lambda>x. iaComment_update (\<lambda>_. x)) into_string),
      (''bitrate'', on_field iaBitrate (\<lambda>x. iaBitrate_update (\<lambda>_. x)) into_uint32)]"

definition into_track :: "trackInfoArg decoder" where
  "into_track = into_struct
     [(''title'', on_field taTitle (\<lambda>x. taTitle_update (\<lambda>_. x)) into_string),
      (''creator'', on_field taCreator (\<lambda>x. taCreator_update (\<lambda>_. x)) into_string),
      (''url'', on_field taURL (\<lambda>x. taURL_update (\<lambda>_. x)) into_string),
      (''album'', on_field taAlbum (\<lambda>x. taAlbum_update (\<lambda>_. x)) into_string)]"

definition into_broadcast :: "broadcastChannelParam decoder" where
  "into_broadcast = into_struct
     [(''streamKey'', on_field bpStreamKey (\<lambda>x. bpStreamKey_update (\<lambda>_. x)) into_string),
      (''info'', on_field bpInfo (\<lambda>x. bpInfo_update (\<lambda>_. x)) into_info),
      (''track'', on_field bpTrack (\<lambda>x. bpTrack_update (\<lambda>_. x)) into_track)]"

section \<open>What is shown of a channel\<close>

definition chan_info_json :: "ChannelInfo \<Rightarrow> json" where
  "chan_info_json i =
     JObj [(''name'', JStr (Name i)), (''url'', JStr (URL i)), (''genre'', JStr (Genre i)), (''desc'', JStr (Desc i)),
       (''comment'', JStr (Comment i)), (''bitrate'', jint (uint (Bitrate i))), (''contentType'', JStr (CType i)),
       (''mimeType'', JStr (MIMEType i))]"

definition buildChanInfo :: "'a Channel \<Rightarrow> json" where
  "buildChanInfo ch = chan_info_json (info ch)"

definition track_json :: "TrackInfo \<Rightarrow> json" where
  "track_json t =
     JObj [(''title'', JStr (tiTitle t)), (''genre'', JStr []), (''album'', JStr (tiAlbum t)), (''creator'', JStr (tiCreator t)),
       (''url'', JStr (tiURL t))]"

definition buildTrackInfo :: "'a Channel \<Rightarrow> json" where
  "buildTrackInfo ch = track_json (track ch)"

definition source_text :: "rpc_server \<Rightarrow> 'a Channel \<Rightarrow> 'a Manager \<Rightarrow> string" where
  "source_text S ch m =
     (if source ch \<noteq> [] then source ch
      else ''rtmp://127.0.0.1:'' @ Itoa (cfRTMPPort (rvCfg S)) @ ''/live'' @
        (case StreamKeyByID (chID ch) m of None \<Rightarrow> [] | Some k \<Rightarrow> ''/'' @ k))"

definition slots_of :: "rpc_env \<Rightarrow> rpc_server \<Rightarrow> 'a Channel \<Rightarrow> 'a Manager \<Rightarrow> bool \<times> bool" where
  "slots_of E S ch m =
     SlotStatus (slot_check (veChans E) (veSendRate E) ch m) (cfMaxRelays (rvCfg S)) (cfMaxListeners (rvCfg S)) ch"

definition buildStatus :: "rpc_env \<Rightarrow> rpc_server \<Rightarrow> 'a Channel \<Rightarrow> 'a Manager \<Rightarrow> json" where
  "buildStatus E S ch m =
     (let receiving = IsReceiving (veNow E) ch; slots = slots_of E S ch m in
      JObj [(''status'', JStr (if receiving then ''Receiving'' else ''Idle'')), (''source'', JStr (source_text S ch m)),
        (''uptime'', jint (uint (UptimeSeconds (veNow E) ch))), (''localRelays'', jint (numRelays ch)),
        (''localDirects'', jint (numListeners ch)), (''totalRelays'', jint (TotalRelays (veNodes E) (veNow E) ch)),
        (''totalDirects'', jint (TotalListeners (veNodes E) (veNow E) ch)), (''isBroadcasting'', JBool (isBroadcasting ch)),
        (''isRelayFull'', JBool (fst slots)), (''isDirectFull'', JBool (snd slots)), (''isReceiving'', JBool receiving)])"

section \<open>Stream keys\<close>

definition rpc_issueStreamKey :: "rpc_env \<Rightarrow> rpc_server \<Rightarrow> json option \<Rightarrow> 'a rpc_state \<Rightarrow> 'a rpc_result" where
  "rpc_issueStreamKey E S params st =
     (case unmarshal (slice_of into_string []) [] params of
        Some (accountName # streamKey # _) \<Rightarrow>
          if accountName = [] \<or> streamKey = []
          then fails (invalid_params ''accountName and streamKey must not be empty'') st
          else
            let kind = (if list_ex (\<lambda>e. fst e = accountName) (List_keys (veAccounts E) (keys (rsMgr st)))
                        then ''key.rotate'' else ''key.issue'') in
            (case Manager_IssueStreamKey (veSaved E) accountName streamKey (rsMgr st) of
               (Some e, m) \<Rightarrow> (Inl \<lparr>reCode = errCodeInternal, reMessage = KeyMsg e\<rparr>, st\<lparr>rsMgr := m\<rparr>, [])
             | (None, m) \<Rightarrow> (Inr JNull, st\<lparr>rsMgr := m\<rparr>,
                 auditEvent S st (Event0\<lparr>evType := kind, evOwner := accountName, evOutcome := ''success''\<rparr>)))
      | _ \<Rightarrow> fails (invalid_params ''expected [accountName, streamKey]'') st)"

definition rpc_listStreamKeys :: "rpc_env \<Rightarrow> 'a rpc_state \<Rightarrow> 'a rpc_result" where
  "rpc_listStreamKeys E st =
     answers (JArr (map (\<lambda>e. JObj [(''accountName'', JStr (fst e)), (''streamKey'', JStr (snd e))])
        (List_keys (veAccounts E) (keys (rsMgr st))))) st"

definition rpc_revokeStreamKey :: "rpc_env \<Rightarrow> rpc_server \<Rightarrow> json option \<Rightarrow> 'a rpc_state \<Rightarrow> 'a rpc_result" where
  "rpc_revokeStreamKey E S params st =
     (case unmarshal (slice_of into_string []) [] params of
        Some (accountName # _) \<Rightarrow>
          (case Manager_RevokeStreamKey (veSaved E) accountName (rsMgr st) of
             (False, m) \<Rightarrow> (Inl (internal_error ''account not found''), st\<lparr>rsMgr := m\<rparr>, [])
           | (True, m) \<Rightarrow> (Inr JNull, st\<lparr>rsMgr := m\<rparr>,
               auditEvent S st (Event0\<lparr>evType := ''key.revoke'', evOwner := accountName, evOutcome := ''success''\<rparr>)))
      | _ \<Rightarrow> fails (invalid_params ''expected [accountName]'') st)"

section \<open>Channels\<close>

definition broadcast_info :: "chanInfoArg \<Rightarrow> ChannelInfo" where
  "broadcast_info i =
     \<lparr>Name = iaName i, URL = iaURL i, Desc = iaDesc i, Comment = iaComment i, Genre = iaGenre i, CType = ''FLV'',
      MIMEType = ''video/x-flv'', Ext = ''.flv'', Bitrate = iaBitrate i\<rparr>"

definition track_info :: "trackInfoArg \<Rightarrow> TrackInfo" where
  "track_info t = \<lparr>tiTitle = taTitle t, tiCreator = taCreator t, tiURL = taURL t, tiAlbum = taAlbum t\<rparr>"

definition bump_yp :: "rpc_server \<Rightarrow> 'a rpc_effect list" where
  "bump_yp S = (if rvHasYP S then [RpcBump] else [])"

definition rpc_broadcastChannel :: "rpc_env \<Rightarrow> rpc_server \<Rightarrow> json option \<Rightarrow> 'a rpc_state \<Rightarrow> 'a rpc_result" where
  "rpc_broadcastChannel E S params st =
     (case unmarshal (slice_of into_broadcast broadcastChannelParam0) [] params of
        Some (p # _) \<Rightarrow>
          if iaName (bpInfo p) = [] then fails (invalid_params ''channel name must not be empty'') st
          else if bpStreamKey p = [] then fails (invalid_params ''streamKey must not be empty'') st
          else
            (case BroadcastWithAudit \<lparr>bcNow = veNow E, bcRand = veRand E, bcOrder = veAccounts E\<rparr> (bpStreamKey p)
                    (broadcast_info (bpInfo p)) (track_info (bpTrack p)) (rvActor S) None False (rsMgr st) of
               (Inl e, m, effs) \<Rightarrow> (Inl \<lparr>reCode = errCodeInvalidParams, reMessage = MgrMsg e\<rparr>, st\<lparr>rsMgr := m\<rparr>, map RpcMgr effs)
             | (Inr r, m, effs) \<Rightarrow> (Inr (JObj [(''channelId'', JStr (gnuIDString (chID (store m r))))]), st\<lparr>rsMgr := m\<rparr>,
                 map RpcMgr effs @ bump_yp S))
      | _ \<Rightarrow> fails (invalid_params ''expected [{streamKey, info, track}]'') st)"

definition rpc_getChannels :: "rpc_env \<Rightarrow> rpc_server \<Rightarrow> 'a rpc_state \<Rightarrow> 'a rpc_result" where
  "rpc_getChannels E S st =
     answers (JArr (map (\<lambda>r. let ch = store (rsMgr st) r in
         JObj [(''channelId'', JStr (gnuIDString (chID ch))), (''status'', buildStatus E S ch (rsMgr st)),
           (''info'', buildChanInfo ch), (''track'', buildTrackInfo ch)]) (Manager_List (veChans E) (rsMgr st)))) st"

definition rpc_getChannelInfo :: "nat \<Rightarrow> 'a rpc_state \<Rightarrow> 'a rpc_result" where
  "rpc_getChannelInfo r st =
     answers (JObj [(''info'', buildChanInfo (store (rsMgr st) r)), (''track'', buildTrackInfo (store (rsMgr st) r))]) st"

definition rpc_getChannelStatus :: "rpc_env \<Rightarrow> rpc_server \<Rightarrow> nat \<Rightarrow> 'a rpc_state \<Rightarrow> 'a rpc_result" where
  "rpc_getChannelStatus E S r st = answers (buildStatus E S (store (rsMgr st) r) (rsMgr st)) st"

text \<open>A change to a channel through its reference.\<close>

definition on_store :: "nat \<Rightarrow> ('a Channel \<Rightarrow> 'a Channel \<times> 'a effect list) \<Rightarrow> 'a rpc_state \<Rightarrow> 'a rpc_state \<times> 'a rpc_effect list" where
  "on_store r f st =
     (case f (store (rsMgr st) r) of
        (ch, effs) \<Rightarrow> (st\<lparr>rsMgr := (rsMgr st)\<lparr>store := (store (rsMgr st))(r := ch)\<rparr>\<rparr>, map (RpcMgr \<circ> ChanEffect r) effs))"

definition changed_info :: "chanInfoArg \<Rightarrow> ChannelInfo \<Rightarrow> ChannelInfo" where
  "changed_info i cur =
     (let new = cur\<lparr>Name := iaName i, URL := iaURL i, Desc := iaDesc i, Comment := iaComment i, Genre := iaGenre i\<rparr>
      in if iaBitrate i > 0 then new\<lparr>Bitrate := iaBitrate i\<rparr> else new)"

definition set_info :: "rpc_env \<Rightarrow> rpc_server \<Rightarrow> chanInfoArg \<Rightarrow> trackInfoArg \<Rightarrow> nat \<Rightarrow> 'a rpc_state \<Rightarrow> 'a rpc_result" where
  "set_info E S i t r st =
     (case on_store r (\<lambda>ch. SetInfoWithAudit (veNow E) (changed_info i (info ch)) (rvActor S) ch) st of
        (st1, effs1) \<Rightarrow> (case on_store r (SetTrack (track_info t)) st1 of
          (st2, effs2) \<Rightarrow> (Inr JNull, st2, effs1 @ effs2)))"

definition rpc_setChannelInfo :: "rpc_env \<Rightarrow> rpc_server \<Rightarrow> json option \<Rightarrow> 'a rpc_state \<Rightarrow> 'a rpc_result" where
  "rpc_setChannelInfo E S params st =
     (case raw_args params of
        Some (a # b # c # _) \<Rightarrow>
          on_channel_arg a (\<lambda>r st.
            case into_info b chanInfoArg0 of
              None \<Rightarrow> fails (invalid_params ''invalid info'') st
            | Some i \<Rightarrow>
                (case into_track c trackInfoArg0 of
                   None \<Rightarrow> fails (invalid_params ''invalid track'') st
                 | Some t \<Rightarrow> set_info E S i t r st)) st
      | _ \<Rightarrow> fails (invalid_params ''expected [channelId, info, track]'') st)"

definition rpc_stopChannel :: "rpc_env \<Rightarrow> rpc_server \<Rightarrow> nat \<Rightarrow> 'a rpc_state \<Rightarrow> 'a rpc_result" where
  "rpc_stopChannel E S r st =
     (case StopInstance (veInputs E) (veNow E) r (rvActor S) ''admin_stop'' (rsMgr st) of
        (_, m, effs) \<Rightarrow> (Inr JNull, st\<lparr>rsMgr := m\<rparr>, map RpcMgr effs))"

definition rpc_bumpChannel :: "rpc_env \<Rightarrow> rpc_server \<Rightarrow> nat \<Rightarrow> 'a rpc_state \<Rightarrow> 'a rpc_result" where
  "rpc_bumpChannel E S r st =
     (if \<not> isBroadcasting (store (rsMgr st) r) then
        (case Reconnect (veReconnectable E) (chID (store (rsMgr st) r)) (rsMgr st) of
           (Some e, effs) \<Rightarrow> (Inl \<lparr>reCode = errCodeInternal, reMessage = MgrMsg e\<rparr>, st, map RpcMgr effs)
         | (None, effs) \<Rightarrow> (Inr JNull, st, map RpcMgr effs))
      else (Inr JNull, st, bump_yp S))"

text \<open>The named form \<^verbatim>\<open>{"channelId": ...}\<close>; \<open>None\<close> is a member that was not there.\<close>

definition bump_params :: "json \<Rightarrow> json option option" where
  "bump_params j = into_struct [(''channelId'', \<lambda>v _. Some (Some v))] j None"

definition bumpChannelWithParams :: "rpc_env \<Rightarrow> rpc_server \<Rightarrow> json option \<Rightarrow> 'a rpc_state \<Rightarrow> 'a rpc_result" where
  "bumpChannelWithParams E S params st =
     (case params of
        Some (JObj ms) \<Rightarrow>
          (case bump_params (JObj ms) of
             Some (Some v) \<Rightarrow>
               if v = JNull then fails (invalid_params ''channelId required'') st
               else on_channel_arg v (rpc_bumpChannel E S) st
           | _ \<Rightarrow> fails (invalid_params ''channelId required'') st)
      | _ \<Rightarrow> withChannel params (rpc_bumpChannel E S) st)"

section \<open>Connections\<close>

definition conn_json :: "int \<Rightarrow> string \<Rightarrow> string \<Rightarrow> int \<Rightarrow> string \<Rightarrow> string \<Rightarrow> json" where
  "conn_json i typ status sendRate proto addr =
     JObj [(''connectionId'', jint i), (''type'', JStr typ), (''status'', JStr status), (''sendRate'', jint sendRate),
       (''recvRate'', jint 0), (''protocolName'', JStr proto), (''remoteEndPoint'', JStr addr)]"

definition rpc_getChannelConnections :: "rpc_env \<Rightarrow> rpc_server \<Rightarrow> nat \<Rightarrow> 'a rpc_state \<Rightarrow> 'a rpc_result" where
  "rpc_getChannelConnections E S r st =
     (let ch = store (rsMgr st) r; status = (if IsReceiving (veNow E) ch then ''Receiving'' else ''Idle'');
          src = (if upstreamAddr ch \<noteq> [] then conn_json (- 1) ''source'' status 0 ''PCP'' (upstreamAddr ch)
                 else conn_json (- 1) ''source'' status 0 ''RTMP'' (''127.0.0.1:'' @ Itoa (cfRTMPPort (rvCfg S))))
      in answers (JArr (src # map (\<lambda>ci.
           if cnType ci = OutputStreamHTTP then conn_json (cnID ci) ''direct'' ''Connected'' (cnSendRate ci) ''HTTP'' (cnRemoteAddr ci)
           else conn_json (cnID ci) ''relay'' ''Connected'' (cnSendRate ci) ''PCP'' (cnRemoteAddr ci))
           (Connections (veSendRate E) ch))) st)"

definition stop_connection :: "rpc_env \<Rightarrow> int \<Rightarrow> nat \<Rightarrow> 'a rpc_state \<Rightarrow> 'a rpc_result" where
  "stop_connection E i r st =
     (let ch = store (rsMgr st) r in
      case find (\<lambda>ci. cnID ci = i) (Connections (veSendRate E) ch) of
        None \<Rightarrow> answers (JBool False) st
      | Some ci \<Rightarrow>
          if cnType ci \<noteq> OutputStreamPCP then answers (JBool False) st
          else (case CloseConnection i ch of (ok, effs) \<Rightarrow> (Inr (JBool ok), st, map (RpcMgr \<circ> ChanEffect r) effs)))"

definition rpc_stopChannelConnection :: "rpc_env \<Rightarrow> json option \<Rightarrow> 'a rpc_state \<Rightarrow> 'a rpc_result" where
  "rpc_stopChannelConnection E params st =
     (case raw_args params of
        Some (a # b # _) \<Rightarrow>
          on_channel_arg a (\<lambda>r st.
            case into_int b 0 of
              None \<Rightarrow> fails (invalid_params ''invalid connectionId'') st
            | Some i \<Rightarrow> stop_connection E i r st) st
      | _ \<Rightarrow> fails (invalid_params ''expected [channelId, connectionId]'') st)"

section \<open>System and directories\<close>

definition rpc_getVersionInfo :: "'a rpc_state \<Rightarrow> 'a rpc_result" where
  "rpc_getVersionInfo st = answers (JObj [(''agentName'', JStr AgentName)]) st"

text \<open>A Go map is written with its keys in order.\<close>

definition rpc_getSettings :: "rpc_server \<Rightarrow> 'a rpc_state \<Rightarrow> 'a rpc_result" where
  "rpc_getSettings S st =
     answers (JObj [(''rtmpPort'', jint (cfRTMPPort (rvCfg S))), (''serverPort'', jint (cfPeercastPort (rvCfg S)))]) st"

definition yp_uri :: "string \<Rightarrow> string" where
  "yp_uri a = (if \<not> Contains a ''://'' then ''pcp://'' @ a @ ''/'' else a)"

definition rpc_getYellowPages :: "rpc_env \<Rightarrow> rpc_server \<Rightarrow> 'a rpc_state \<Rightarrow> 'a rpc_result" where
  "rpc_getYellowPages E S st =
     (let n = (if rvHasYP S then int (length (filter (\<lambda>r. isBroadcasting (store (rsMgr st) r)) (Manager_List (veChans E) (rsMgr st)))) else 0)
      in answers (JArr (map (\<lambda>(i, y). JObj [(''yellowPageId'', jint (int i)), (''name'', JStr (ypName y)), (''uri'', JStr (yp_uri (ypAddr y))),
           (''announceUri'', JStr (yp_uri (ypAddr y))), (''channelCount'', jint n)]) (enumerate 0 (cfYPs (rvCfg S))))) st)"

definition opt_int_json :: "int option \<Rightarrow> json" where
  "opt_int_json n = (case n of None \<Rightarrow> JNull | Some i \<Rightarrow> jint i)"

definition cat_json :: "CatChannel \<Rightarrow> json" where
  "cat_json c =
     JObj [(''yellowPage'', JStr (ccYellowPage c)), (''name'', JStr (ccName c)), (''channelId'', JStr (ccChannelID c)),
       (''tracker'', JStr (ccTracker c)), (''contactUrl'', JStr (ccContactURL c)), (''genre'', JStr (ccGenre c)),
       (''description'', JStr (ccDescription c)), (''comment'', JStr (ccComment c)), (''contentType'', JStr (ccContentType c)),
       (''creator'', JStr (ccCreator c)), (''album'', JStr (ccAlbum c)), (''trackTitle'', JStr (ccTrackTitle c)),
       (''trackUrl'', JStr (ccTrackURL c)), (''listeners'', opt_int_json (ccListeners c)), (''relays'', opt_int_json (ccRelays c)),
       (''bitrate'', opt_int_json (ccBitrate c)), (''uptime'', opt_int_json (ccUptime c))]"

text \<open>The caller waits for a refresh that is in flight, its own or another's; no deadline ends the wait.\<close>

definition rpc_updateYPChannels :: "rpc_env \<Rightarrow> 'a rpc_state \<Rightarrow> 'a rpc_result" where
  "rpc_updateYPChannels E st =
     (let c1 = snd (update_call (veNow E) (rsCatalog st)); c2 = (if ctInflight c1 then veWait E c1 else c1)
      in (Inr (JArr (map cat_json (fst (Snapshot (veNow E) c2)))), st\<lparr>rsCatalog := c2\<rparr>, []))"

fun tree_json :: "relayTreeNode \<Rightarrow> json" where
  "tree_json (TreeNode n cs) =
     JObj [(''sessionId'', JStr (tiSessionID n)), (''address'', JStr (tiAddress n)), (''port'', jint (tiPort n)),
       (''isFirewalled'', JBool (tiIsFirewalled n)), (''localRelays'', jint (tiLocalRelays n)), (''localDirects'', jint (tiLocalDirects n)),
       (''isTracker'', JBool (tiIsTracker n)), (''isRelayFull'', JBool (tiIsRelayFull n)), (''isDirectFull'', JBool (tiIsDirectFull n)),
       (''isReceiving'', JBool (tiIsReceiving n)), (''isControlFull'', JBool (tiIsControlFull n)), (''version'', jint (tiVersion n)),
       (''versionString'', JStr (tiVersionString n)), (''children'', JArr (map tree_json cs))]"

definition rpc_getChannelRelayTree :: "'a pcp \<Rightarrow> rpc_env \<Rightarrow> rpc_server \<Rightarrow> nat \<Rightarrow> 'a rpc_state \<Rightarrow> 'a rpc_result" where
  "rpc_getChannelRelayTree P E S r st =
     (let m = rsMgr st; ch = store m r in
      answers (JArr [tree_json (getChannelRelayTree P (rvSession S) (cfPeercastPort (rvCfg S)) (Some (mgrNetwork m)) (slots_of E S ch m)
        (veNow E) ch)]) st)"

end
