(* ===== verification/Rpc_Server.thy ===== *)
theory Rpc_Server
  imports Rpc_Handlers
begin

text \<open>
  \<^verbatim>\<open>internal/jsonrpc/server.go\<close>: who may call the JSON-RPC API, how a call is dispatched, and what is answered.  A request
  holds what the handler reads of it: the text of the body as decoded by \<^verbatim>\<open>encoding/json\<close> (\<open>None\<close> when it is no JSON),
  the credentials of the Authorization header, and the actor of its context.
\<close>

section \<open>Dispatch\<close>

definition dispatch :: "'a pcp \<Rightarrow> rpc_env \<Rightarrow> rpc_server \<Rightarrow> string \<Rightarrow> json option \<Rightarrow> 'a rpc_state \<Rightarrow> 'a rpc_result" where
  "dispatch P E S method params st =
     (if method = ''getVersionInfo'' then rpc_getVersionInfo st
      else if method = ''getSettings'' then rpc_getSettings S st
      else if method = ''issueStreamKey'' then rpc_issueStreamKey E S params st
      else if method = ''revokeStreamKey'' then rpc_revokeStreamKey E S params st
      else if method = ''listStreamKeys'' then rpc_listStreamKeys E st
      else if method = ''broadcastChannel'' then rpc_broadcastChannel E S params st
      else if method = ''getChannels'' then rpc_getChannels E S st
      else if method = ''getChannelInfo'' then withChannel params rpc_getChannelInfo st
      else if method = ''getChannelStatus'' then withChannel params (rpc_getChannelStatus E S) st
      else if method = ''setChannelInfo'' then rpc_setChannelInfo E S params st
      else if method = ''stopChannel'' then withChannel params (rpc_stopChannel E S) st
      else if method = ''bumpChannel'' then bumpChannelWithParams E S params st
      else if method = ''getChannelConnections'' then withChannel params (rpc_getChannelConnections E S) st
      else if method = ''stopChannelConnection'' then rpc_stopChannelConnection E params st
      else if method = ''getYellowPages'' then rpc_getYellowPages E S st
      else if method = ''updateYPChannels'' then rpc_updateYPChannels E st
      else if method = ''getChannelRelayTree'' then withChannel params (rpc_getChannelRelayTree P E S) st
      else fails \<lparr>reCode = errCodeMethodNotFound, reMessage = Msg (''method not found: '' @ method)\<rparr> st)"

section \<open>Requests\<close>

record rpcRequest =
  rqJSONRPC :: string
  rqMethod :: string
  rqParams :: "json option"
  rqID :: "json option"

definition rpcRequest0 :: rpcRequest where
  "rpcRequest0 = \<lparr>rqJSONRPC = [], rqMethod = [], rqParams = None, rqID = None\<rparr>"

definition into_request :: "rpcRequest decoder" where
  "into_request = into_struct
     [(''jsonrpc'', on_field rqJSONRPC (\<lambda>x. rqJSONRPC_update (\<lambda>_. x)) into_string),
      (''method'', on_field rqMethod (\<lambda>x. rqMethod_update (\<lambda>_. x)) into_string),
      (''params'', \<lambda>j r. Some (r\<lparr>rqParams := Some j\<rparr>)),
      (''id'', \<lambda>j r. Some (r\<lparr>rqID := Some j\<rparr>))]"

record http_request =
  hqOrigin :: string
  hqMethod :: string
  hqRemote :: string
  hqAuth :: "(string \<times> string) option"
  hqActor :: "Actor option"
  hqBody :: "json option"

datatype http_body = NoBody | ErrorText string | JsonBody json

record api_response =
  hrStatus :: int
  hrHeaders :: "(string \<times> string) list"
  hrBody :: http_body

definition isLocalhost :: "string \<Rightarrow> bool" where
  "isLocalhost remote =
     (case SplitHostPort remote of
        None \<Rightarrow> False
      | Some (host, _) \<Rightarrow> ParseIP host \<noteq> [] \<and> IsLoopback (ParseIP host))"

definition isAllowedOrigin :: "rpc_server \<Rightarrow> string \<Rightarrow> bool" where
  "isAllowedOrigin S origin =
     (if List.member (cfAllowedOrigins (rvCfg S)) origin then True
      else case url_Parse origin of
        None \<Rightarrow> False
      | Some u \<Rightarrow>
          if uScheme u = [] \<or> uHost u = [] then False
          else if Hostname u = ''localhost'' then True
          else ParseIP (Hostname u) \<noteq> [] \<and> IsLoopback (ParseIP (Hostname u)))"

definition checkBasicAuth :: "rpc_server \<Rightarrow> (string \<times> string) option \<Rightarrow> bool" where
  "checkBasicAuth S auth =
     (if cfAdminUser (rvCfg S) = [] \<or> cfAdminPass (rvCfg S) = [] then False
      else case auth of None \<Rightarrow> False | Some (user, pass) \<Rightarrow> user = cfAdminUser (rvCfg S) \<and> pass = cfAdminPass (rvCfg S))"

section \<open>The handler\<close>

definition json_of :: "json option \<Rightarrow> json" where
  "json_of i = (case i of None \<Rightarrow> JNull | Some j \<Rightarrow> j)"

text \<open>\<open>T\<close> gives the text of a message.\<close>

definition error_json :: "(rpc_message \<Rightarrow> string) \<Rightarrow> rpc_error \<Rightarrow> json" where
  "error_json T e = JObj [(''code'', jint (reCode e)), (''message'', JStr (T (reMessage e)))]"

definition rpc_reply :: "(rpc_message \<Rightarrow> string) \<Rightarrow> json option \<Rightarrow> rpc_error + json \<Rightarrow> json" where
  "rpc_reply T i r =
     (case r of
        Inl e \<Rightarrow> JObj [(''error'', error_json T e), (''id'', json_of i), (''jsonrpc'', JStr ''2.0'')]
      | Inr j \<Rightarrow> JObj [(''id'', json_of i), (''jsonrpc'', JStr ''2.0''), (''result'', j)])"

definition cors_headers :: "string \<Rightarrow> (string \<times> string) list" where
  "cors_headers origin =
     (if origin = [] then []
      else [(''Access-Control-Allow-Origin'', origin), (''Access-Control-Allow-Methods'', ''POST, OPTIONS''),
            (''Access-Control-Allow-Headers'', ''Content-Type, Authorization''), (''Vary'', ''Origin'')])"

definition failure_kind :: "string \<Rightarrow> string" where
  "failure_kind method =
     (if method = ''broadcastChannel'' then ''broadcast.create''
      else if method = ''stopChannel'' then ''broadcast.end''
      else if method = ''setChannelInfo'' then ''broadcast.metadata''
      else if method = ''issueStreamKey'' then ''key.issue''
      else if method = ''revokeStreamKey'' then ''key.revoke''
      else [])"

definition request_actor :: "http_request \<Rightarrow> Actor" where
  "request_actor q =
     (case hqActor q of
        Some a \<Rightarrow> a
      | None \<Rightarrow> (Actor_of ''admin'')\<lparr>acIP := audit_IP (hqRemote q),
          acAccount := (if isLocalhost (hqRemote q) then [] else ''admin:basic'')\<rparr>)"

definition failure_event :: "rpc_server \<Rightarrow> string \<Rightarrow> 'a rpc_state \<Rightarrow> 'a rpc_effect list" where
  "failure_event S method st =
     (if failure_kind method = [] then []
      else auditEvent S st (Event0\<lparr>evType := failure_kind method, evOutcome := ''failure'', evReason := ''operation_rejected''\<rparr>))"

definition serve_rpc ::
  "(rpc_message \<Rightarrow> string) \<Rightarrow> 'a pcp \<Rightarrow> rpc_env \<Rightarrow> rpc_server \<Rightarrow> http_request \<Rightarrow> 'a rpc_state \<Rightarrow>
     http_body \<times> 'a rpc_state \<times> 'a rpc_effect list" where
  "serve_rpc T P E S q st =
     (case unmarshal into_request rpcRequest0 (hqBody q) of
        None \<Rightarrow> (JsonBody (rpc_reply T None (Inl \<lparr>reCode = errCodeParse, reMessage = Msg ''parse error''\<rparr>)), st, [])
      | Some r \<Rightarrow>
          let S' = S\<lparr>rvActor := request_actor q\<rparr> in
          case dispatch P E S' (rqMethod r) (rqParams r) st of
            (Inl e, st', effs) \<Rightarrow> (JsonBody (rpc_reply T (rqID r) (Inl e)), st', effs @ failure_event S' (rqMethod r) st')
          | (Inr j, st', effs) \<Rightarrow> (JsonBody (rpc_reply T (rqID r) (Inr j)), st', effs))"

definition Handler ::
  "(rpc_message \<Rightarrow> string) \<Rightarrow> 'a pcp \<Rightarrow> rpc_env \<Rightarrow> rpc_server \<Rightarrow> http_request \<Rightarrow> 'a rpc_state \<Rightarrow>
     api_response \<times> 'a rpc_state \<times> 'a rpc_effect list" where
  "Handler T P E S q st =
     (let cors = cors_headers (hqOrigin q) in
      if hqOrigin q \<noteq> [] \<and> \<not> isAllowedOrigin S (hqOrigin q)
      then (\<lparr>hrStatus = 403, hrHeaders = [], hrBody = ErrorText ''origin not allowed''\<rparr>, st, [])
      else if hqMethod q = ''OPTIONS'' then (\<lparr>hrStatus = 204, hrHeaders = cors, hrBody = NoBody\<rparr>, st, [])
      else if hqMethod q \<noteq> ''POST'' then (\<lparr>hrStatus = 405, hrHeaders = cors, hrBody = ErrorText ''method not allowed''\<rparr>, st, [])
      else if \<not> isLocalhost (hqRemote q) \<and> \<not> checkBasicAuth S (hqAuth q)
      then (\<lparr>hrStatus = 401, hrHeaders = cors @ [(''WWW-Authenticate'', ''Basic realm=\"peercast-mi\"'')],
             hrBody = ErrorText ''unauthorized''\<rparr>, st, [])
      else case serve_rpc T P E S q st of
        (body, st', effs) \<Rightarrow> (\<lparr>hrStatus = 200, hrHeaders = cors @ [(''Content-Type'', ''application/json'')], hrBody = body\<rparr>, st', effs))"

section \<open>Who gets through\<close>

text \<open>An address of this machine, and an origin that names one.\<close>

definition local_peer :: "string \<Rightarrow> bool" where
  "local_peer remote \<longleftrightarrow> (\<exists>host port. SplitHostPort remote = Some (host, port) \<and> ParseIP host \<noteq> [] \<and> IsLoopback (ParseIP host))"

definition local_origin :: "string \<Rightarrow> bool" where
  "local_origin origin \<longleftrightarrow>
     (\<exists>u. url_Parse origin = Some u \<and> uScheme u \<noteq> [] \<and> uHost u \<noteq> [] \<and>
        (Hostname u = ''localhost'' \<or> ParseIP (Hostname u) \<noteq> [] \<and> IsLoopback (ParseIP (Hostname u))))"

definition admin_login :: "Config \<Rightarrow> (string \<times> string) option \<Rightarrow> bool" where
  "admin_login c auth \<longleftrightarrow> cfAdminUser c \<noteq> [] \<and> cfAdminPass c \<noteq> [] \<and> auth = Some (cfAdminUser c, cfAdminPass c)"

lemma isLocalhost_iff: "isLocalhost remote = local_peer remote"
  by (auto simp: isLocalhost_def local_peer_def split: option.splits)

lemma isAllowedOrigin_iff: "isAllowedOrigin S origin \<longleftrightarrow> origin \<in> set (cfAllowedOrigins (rvCfg S)) \<or> local_origin origin"
  by (auto simp: isAllowedOrigin_def local_origin_def split: option.splits)

lemma checkBasicAuth_iff: "checkBasicAuth S auth = admin_login (rvCfg S) auth"
  by (auto simp: checkBasicAuth_def admin_login_def split: option.splits)

definition may_call :: "rpc_server \<Rightarrow> http_request \<Rightarrow> bool" where
  "may_call S q \<longleftrightarrow>
     (hqOrigin q = [] \<or> hqOrigin q \<in> set (cfAllowedOrigins (rvCfg S)) \<or> local_origin (hqOrigin q)) \<and>
     hqMethod q = ''POST'' \<and> (local_peer (hqRemote q) \<or> admin_login (rvCfg S) (hqAuth q))"

lemma Handler_cases:
  "may_call S q \<Longrightarrow> Handler T P E S q st =
     (case serve_rpc T P E S q st of
        (body, r) \<Rightarrow> (\<lparr>hrStatus = 200, hrHeaders = cors_headers (hqOrigin q) @ [(''Content-Type'', ''application/json'')], hrBody = body\<rparr>, r))"
  "\<not> may_call S q \<Longrightarrow> \<exists>n h b. Handler T P E S q st = (\<lparr>hrStatus = n, hrHeaders = h, hrBody = b\<rparr>, st, []) \<and>
     n \<in> {204, 401, 403, 405} \<and> (\<forall>j. b \<noteq> JsonBody j)"
  by (auto simp: may_call_def Handler_def Let_def isLocalhost_iff isAllowedOrigin_iff checkBasicAuth_iff split: prod.splits)

section \<open>All or nothing\<close>

lemma fails_Inl: "fails e st = (Inl e', st', effs) \<longleftrightarrow> e = e' \<and> st' = st \<and> effs = []"
  by (auto simp: fails_def)

lemma answers_Inl [simp]: "answers j st \<noteq> (Inl e, st', effs)"
  by (simp add: answers_def)

lemma withChannel_Inl:
  assumes "\<And>r e st' effs. f r st = (Inl e, st', effs) \<Longrightarrow> st' = st \<and> effs = []"
  shows "withChannel params f st = (Inl e, st', effs) \<Longrightarrow> st' = st \<and> effs = []"
  using assms by (auto simp: withChannel_def on_channel_arg_def fails_Inl split: option.splits list.splits sum.splits)

lemma on_channel_arg_Inl:
  assumes "\<And>r e st' effs. f r st = (Inl e, st', effs) \<Longrightarrow> st' = st \<and> effs = []"
  shows "on_channel_arg j f st = (Inl e, st', effs) \<Longrightarrow> st' = st \<and> effs = []"
  using assms by (auto simp: on_channel_arg_def fails_Inl split: sum.splits)

lemma bumpChannel_Inl: "rpc_bumpChannel E S r st = (Inl e, st', effs) \<Longrightarrow> st' = st \<and> effs = []"
  by (auto simp: rpc_bumpChannel_def Reconnect_def split: option.splits if_splits)

lemma issue_Inl:
  assumes "keys_inv (keys (rsMgr st))" "rpc_issueStreamKey E S params st = (Inl e, st', effs)"
  shows "st' = st \<and> effs = []"
proof -
  have same: "s' = s" if "keys_inv s" "IssueStreamKey ok a k s = (Some x, s')" for s s' ok a k x
    using Issue_failure that by blast
  show ?thesis
    using assms same [OF assms(1)]
    by (auto simp: rpc_issueStreamKey_def fails_Inl Manager_IssueStreamKey_def Let_def split: option.splits list.splits if_splits prod.splits)
qed

lemma revoke_Inl: "rpc_revokeStreamKey E S params st = (Inl e, st', effs) \<Longrightarrow> st' = st \<and> effs = []"
  by (auto simp: rpc_revokeStreamKey_def fails_Inl Manager_RevokeStreamKey_def RevokeStreamKey_def
      split: option.splits list.splits prod.splits bool.splits)

lemma broadcast_Inl: "rpc_broadcastChannel E S params st = (Inl e, st', effs) \<Longrightarrow> st' = st \<and> effs = []"
  by (auto simp: rpc_broadcastChannel_def fails_Inl BroadcastWithAudit_def Let_def
      split: option.splits list.splits prod.splits sum.splits if_splits)

lemma set_info_Inl: "set_info E S i t r st \<noteq> (Inl e, st', effs)"
  by (simp add: set_info_def split: prod.splits)

lemma setChannelInfo_Inl: "rpc_setChannelInfo E S params st = (Inl e, st', effs) \<Longrightarrow> st' = st \<and> effs = []"
  by (auto simp: rpc_setChannelInfo_def fails_Inl on_channel_arg_def set_info_Inl split: option.splits list.splits sum.splits)

lemma stop_connection_Inl: "rpc_stopChannelConnection E params st = (Inl e, st', effs) \<Longrightarrow> st' = st \<and> effs = []"
  by (auto simp: rpc_stopChannelConnection_def fails_Inl on_channel_arg_def stop_connection_def Let_def
      split: option.splits list.splits sum.splits if_splits prod.splits)

lemma stopChannel_Inl: "rpc_stopChannel E S r st \<noteq> (Inl e, st', effs)"
  by (simp add: rpc_stopChannel_def split: prod.splits)

lemma bump_params_Inl: "bumpChannelWithParams E S params st = (Inl e, st', effs) \<Longrightarrow> st' = st \<and> effs = []"
  unfolding bumpChannelWithParams_def
  using withChannel_Inl [of "rpc_bumpChannel E S" st, OF bumpChannel_Inl] on_channel_arg_Inl [of "rpc_bumpChannel E S" st, OF bumpChannel_Inl]
  by (auto simp: fails_Inl split: option.splits json.splits if_splits)

lemma queries_Inl:
  "rpc_getChannelInfo r st \<noteq> (Inl e, st', effs)" "rpc_getChannelStatus E S r st \<noteq> (Inl e, st', effs)"
  "rpc_getChannelConnections E S r st \<noteq> (Inl e, st', effs)" "rpc_getChannelRelayTree P E S r st \<noteq> (Inl e, st', effs)"
  by (simp_all add: rpc_getChannelInfo_def rpc_getChannelStatus_def rpc_getChannelConnections_def rpc_getChannelRelayTree_def Let_def)

lemma withChannel_query:
  assumes "withChannel params f st = (Inl e, st', effs)" "\<And>r e st' effs. f r st \<noteq> (Inl e, st', effs)"
  shows "st' = st \<and> effs = []"
  by (rule withChannel_Inl [OF _ assms(1)]) (use assms(2) in blast)

lemmas dispatch_Inl =
  revoke_Inl broadcast_Inl setChannelInfo_Inl stop_connection_Inl bump_params_Inl

lemma if_eqE: "(if b then x else y) = z \<Longrightarrow> (b \<Longrightarrow> x = z \<Longrightarrow> P) \<Longrightarrow> (\<not> b \<Longrightarrow> y = z \<Longrightarrow> P) \<Longrightarrow> P"
  by (cases b) simp_all

lemma dispatch_error:
  assumes inv: "keys_inv (keys (rsMgr st))" and d: "dispatch P E S method params st = (Inl e, st', effs)"
  shows "st' = st \<and> effs = []"
proof -
  have ok: "answers j st \<noteq> (Inl e, st', effs)" "rpc_updateYPChannels E st \<noteq> (Inl e, st', effs)" for j
    by (simp_all add: rpc_updateYPChannels_def Let_def)
  show ?thesis
    using d unfolding dispatch_def rpc_getVersionInfo_def rpc_getSettings_def rpc_listStreamKeys_def rpc_getChannels_def
      rpc_getYellowPages_def Let_def
    by (elim if_eqE) (erule issue_Inl [OF inv] dispatch_Inl | (erule withChannel_query, rule queries_Inl stopChannel_Inl) | simp add: ok fails_Inl)+
qed

section \<open>An example\<close>

definition demo_rpc_env :: rpc_env where
  "demo_rpc_env =
     \<lparr>veNow = 5, veRand = replicate 16 1, veAccounts = [''bob''], veChans = [], veNodes = [], veInputs = [],
      veSendRate = (\<lambda>_. 0), veSaved = True, veReconnectable = (\<lambda>_. False), veWait = (\<lambda>c. c)\<rparr>"

definition demo_server :: rpc_server where
  "demo_server = \<lparr>rvActor = Actor_of ''admin'', rvSession = replicate 16 3, rvCfg = defaults, rvHasYP = True\<rparr>"

definition demo_rpc_state :: "wire_atom rpc_state" where
  "demo_rpc_state = \<lparr>rsMgr = demo_mgr\<lparr>mgrAudit := True\<rparr>, rsCatalog = NewCatalog []\<rparr>"

definition demo_request :: "string \<Rightarrow> http_request" where
  "demo_request remote =
     \<lparr>hqOrigin = [], hqMethod = ''POST'', hqRemote = remote, hqAuth = None, hqActor = None,
      hqBody = Some (JObj [(''id'', JNum ''1''), (''method'', JStr ''revokeStreamKey''), (''params'', JArr [JStr ''eve''])])\<rparr>"

lemma demo_request_parsed:
  "unmarshal into_request rpcRequest0 (hqBody (demo_request remote)) =
     Some \<lparr>rqJSONRPC = [], rqMethod = ''revokeStreamKey'', rqParams = Some (JArr [JStr ''eve'']), rqID = Some (JNum ''1'')\<rparr>"
  by (simp add: demo_request_def unmarshal_def into_request_def field_decoder_def on_field_def rpcRequest0_def)

lemma demo_keys: "keys_inv (keys (rsMgr demo_rpc_state))" "accounts (keys (rsMgr demo_rpc_state)) ''eve'' = None"
proof -
  show "keys_inv (keys (rsMgr demo_rpc_state))"
    using keys_inv_Issue [OF keys_inv_New] by (simp add: demo_rpc_state_def demo_mgr_def NewManager_def)
  show "accounts (keys (rsMgr demo_rpc_state)) ''eve'' = None"
    by (simp add: demo_rpc_state_def demo_mgr_def NewManager_def IssueStreamKey_def NewStreamKeyStore_def saveCache_def Let_def)
qed

lemma demo_remote: "local_peer ''127.0.0.1:5000''" "\<not> local_peer ''192.0.2.1:5000''"
  unfolding isLocalhost_iff [symmetric] by code_simp+

text \<open>
  C13.  Who may call.  A request changes nothing and is answered with no JSON unless it is a POST without an Origin, or
  with one that is listed or names this machine, and comes from this machine or carries the configured user and password,
  both not empty; such a request is answered with status 200 and a JSON value.
\<close>

theorem rpc_gate:
  assumes "Handler T P E S q st = (r, st', effs)"
  shows "(may_call S q \<longrightarrow> hrStatus r = 200 \<and> (\<exists>j. hrBody r = JsonBody j)) \<and>
         (\<not> may_call S q \<longrightarrow> st' = st \<and> effs = [] \<and> hrStatus r \<in> {204, 401, 403, 405} \<and> (\<forall>j. hrBody r \<noteq> JsonBody j))"
proof (cases "may_call S q")
  case True
  obtain b x where s: "serve_rpc T P E S q st = (b, x)" by (metis surj_pair)
  then have "\<exists>j. b = JsonBody j" by (auto simp: serve_rpc_def Let_def split: option.splits sum.splits prod.splits)
  then show ?thesis using assms True Handler_cases(1) [OF True, of T P E st] s by auto
next
  case False
  then show ?thesis using assms Handler_cases(2) [OF False, of T P E st] by auto
qed

theorem rpc_gate_witness:
  "fst (snd (Handler (\<lambda>_. []) wire_pcp demo_rpc_env demo_server (demo_request ''192.0.2.1:5000'') demo_rpc_state)) = demo_rpc_state \<and>
   hrStatus (fst (Handler (\<lambda>_. []) wire_pcp demo_rpc_env demo_server (demo_request ''127.0.0.1:5000'') demo_rpc_state)) = 200"
proof -
  obtain r st' effs r2 st2 effs2 where
    h: "Handler (\<lambda>_. []) wire_pcp demo_rpc_env demo_server (demo_request ''192.0.2.1:5000'') demo_rpc_state = (r, st', effs)"
      "Handler (\<lambda>_. []) wire_pcp demo_rpc_env demo_server (demo_request ''127.0.0.1:5000'') demo_rpc_state = (r2, st2, effs2)"
    by (metis prod_cases3)
  have "\<not> may_call demo_server (demo_request ''192.0.2.1:5000'')" "may_call demo_server (demo_request ''127.0.0.1:5000'')"
    using demo_remote by (simp_all add: may_call_def demo_request_def demo_server_def admin_login_def defaults_def)
  then show ?thesis using rpc_gate [OF h(1)] rpc_gate [OF h(2)] h by simp
qed

definition is_error :: "json \<Rightarrow> bool" where
  "is_error j \<longleftrightarrow> (case j of JObj ((k, _) # _) \<Rightarrow> k = ''error'' | _ \<Rightarrow> False)"

text \<open>
  C37.  A call that is answered with an error has changed nothing: not the manager, the channels nor the keys, and no
  output was told; the only trace is the failed operation in the audit log, for the five operations recorded there.
\<close>

theorem rpc_all_or_nothing:
  assumes "keys_inv (keys (rsMgr st))" "Handler T P E S q st = (r, st', effs)" "hrBody r = JsonBody j" "is_error j"
    and "unmarshal into_request rpcRequest0 (hqBody q) = Some rq"
  shows "st' = st \<and> effs = failure_event (S\<lparr>rvActor := request_actor q\<rparr>) (rqMethod rq) st"
proof -
  have call: "may_call S q" using assms(2,3) Handler_cases(2) [of S q T P E st] by fastforce
  obtain res st1 effs1 where d: "dispatch P E (S\<lparr>rvActor := request_actor q\<rparr>) (rqMethod rq) (rqParams rq) st = (res, st1, effs1)"
    by (metis prod_cases3)
  show ?thesis
  proof (cases res)
    case (Inl e)
    with d have d': "dispatch P E (S\<lparr>rvActor := request_actor q\<rparr>) (rqMethod rq) (rqParams rq) st = (Inl e, st1, effs1)" by simp
    show ?thesis
      using d' dispatch_error [OF assms(1) d'] assms(2,5) Handler_cases(1) [OF call, of T P E st]
      by (auto simp: serve_rpc_def Let_def)
  next
    case (Inr x)
    then have "j = rpc_reply T (rqID rq) (Inr x)"
      using d assms(2,3,5) Handler_cases(1) [OF call, of T P E st] by (auto simp: serve_rpc_def Let_def)
    then have False using assms(4) by (simp add: is_error_def rpc_reply_def)
    then show ?thesis ..
  qed
qed

theorem rpc_all_or_nothing_witness:
  "\<exists>r e. Handler (\<lambda>_. []) wire_pcp demo_rpc_env demo_server (demo_request ''127.0.0.1:5000'') demo_rpc_state =
     (r, demo_rpc_state, [RpcAudit e]) \<and> evType e = ''key.revoke'' \<and> evOutcome e = ''failure''"
proof -
  let ?q = "demo_request ''127.0.0.1:5000''" and ?S = "demo_server\<lparr>rvActor := request_actor (demo_request ''127.0.0.1:5000'')\<rparr>"
  obtain r st' effs where h: "Handler (\<lambda>_. []) wire_pcp demo_rpc_env demo_server ?q demo_rpc_state = (r, st', effs)"
    by (metis prod_cases3)
  have call: "may_call demo_server ?q" using demo_remote by (simp add: may_call_def demo_request_def)
  have "dispatch wire_pcp demo_rpc_env ?S ''revokeStreamKey'' (Some (JArr [JStr ''eve''])) demo_rpc_state =
      (Inl (internal_error ''account not found''), demo_rpc_state, [])"
    using demo_keys(2) by (simp add: dispatch_def rpc_revokeStreamKey_def unmarshal_def slice_of_def Manager_RevokeStreamKey_def RevokeStreamKey_def)
  then have "hrBody r = JsonBody (rpc_reply (\<lambda>_. []) (Some (JNum ''1'')) (Inl (internal_error ''account not found'')))"
    using h unfolding Handler_cases(1) [OF call] serve_rpc_def demo_request_parsed by auto
  from rpc_all_or_nothing [OF demo_keys(1) h this _ demo_request_parsed] h show ?thesis
    by (simp add: is_error_def rpc_reply_def failure_event_def failure_kind_def auditEvent_def demo_rpc_state_def)
qed

section \<open>A broadcast through the API\<close>

text \<open>The parameters of \<^verbatim>\<open>broadcastChannel\<close> as a client writes them.\<close>

definition info_params :: "chanInfoArg \<Rightarrow> json" where
  "info_params i =
     JObj [(''name'', JStr (iaName i)), (''url'', JStr (iaURL i)), (''genre'', JStr (iaGenre i)), (''desc'', JStr (iaDesc i)),
       (''comment'', JStr (iaComment i)), (''bitrate'', jint (uint (iaBitrate i)))]"

definition track_params :: "trackInfoArg \<Rightarrow> json" where
  "track_params t =
     JObj [(''title'', JStr (taTitle t)), (''creator'', JStr (taCreator t)), (''url'', JStr (taURL t)), (''album'', JStr (taAlbum t))]"

definition broadcast_params :: "broadcastChannelParam \<Rightarrow> json" where
  "broadcast_params p =
     JArr [JObj [(''streamKey'', JStr (bpStreamKey p)), (''info'', info_params (bpInfo p)), (''track'', track_params (bpTrack p))]]"

definition channel_params :: "string \<Rightarrow> json" where
  "channel_params cid = JArr [JStr cid]"

lemma uint32_jint: "into_uint32 (jint (uint b)) old = Some b"
proof -
  have "Itoa (uint b) = Itoa_nat (unat b)" by (simp add: Itoa_def)
  moreover have "unat b < 2 ^ 32" using unsigned_less [where 'a = nat, of b] by simp
  ultimately show ?thesis by (simp add: jint_def ParseUint10_def)
qed

lemma into_info_params: "into_info (info_params i) chanInfoArg0 = Some i"
  by (simp add: into_info_def info_params_def field_decoder_def on_field_def chanInfoArg0_def uint32_jint)

lemma into_track_params: "into_track (track_params t) trackInfoArg0 = Some t"
  by (simp add: into_track_def track_params_def field_decoder_def on_field_def trackInfoArg0_def)

lemma into_broadcast_params:
  "unmarshal (slice_of into_broadcast broadcastChannelParam0) [] (Some (broadcast_params p)) = Some [p]"
  by (simp add: unmarshal_def slice_of_def broadcast_params_def into_broadcast_def field_decoder_def on_field_def broadcastChannelParam0_def
      into_info_params into_track_params)

lemma channel_arg_text: "length i = 16 \<Longrightarrow> byID m i = Some r \<Longrightarrow> channel_arg (JStr (gnuIDString i)) m = Inr r"
  "length i = 16 \<Longrightarrow> byID m i = None \<Longrightarrow> channel_arg (JStr (gnuIDString i)) m = Inl (internal_error ''channel not found'')"
  by (simp_all add: channel_arg_def lookup_channel_def gnuIDString_def GetByID_def)

lemma raw_args_channel: "raw_args (Some (channel_params cid)) = Some [JStr cid]"
  by (simp add: raw_args_def unmarshal_def slice_of_def channel_params_def into_raw_def)


definition demo_params :: broadcastChannelParam where
  "demo_params = \<lparr>bpStreamKey = ''k1'', bpInfo = chanInfoArg0\<lparr>iaName := ''Chess'', iaBitrate := 500\<rparr>, bpTrack = trackInfoArg0\<rparr>"


end
