(* ===== verification/Audit_Store.thy ===== *)
theory Audit_Store
  imports Audit_Run Go_Url
begin

text \<open>
  \<^verbatim>\<open>internal/audit/mysql.go\<close>: the statements that store events and keep the tables of broadcasts and inputs.

  A table maps a primary key to a row, a row maps a column to its value.  The statements are translated from the SQL the code
  writes; \<^verbatim>\<open>upsert\<close> builds its list of assignments as the code does, and the assignments are carried out from left to right, as
  MySQL documents.  The order in which the server finds rows and the failures of statements and commits are arguments.  Time is
  in nanoseconds and kept as it is; the columns keep microseconds.
\<close>

section \<open>Rows and upserts\<close>

datatype sql_value = SNull | SText string | SInt int | STime time | SBool bool

type_synonym row = "string \<rightharpoonup> sql_value"

type_synonym table = "string \<rightharpoonup> row"

text \<open>The right-hand sides \<^verbatim>\<open>upsert\<close> writes; \<^verbatim>\<open>VALUES(c)\<close> is the value that would have been inserted.\<close>

datatype sql_expr = ENewer string | ENewerNow | EOr string | EGreatest string

definition newer :: "row \<Rightarrow> row \<Rightarrow> bool" where
  "newer new cur = (case (cur ''revision'', new ''revision'') of (Some (SInt a), Some (SInt b)) \<Rightarrow> a < b | _ \<Rightarrow> False)"

fun sql_or :: "sql_value option \<Rightarrow> sql_value option \<Rightarrow> sql_value option" where
  "sql_or (Some (SBool a)) (Some (SBool b)) = Some (SBool (a \<or> b))"
| "sql_or a _ = a"

fun sql_greatest :: "sql_value option \<Rightarrow> sql_value option \<Rightarrow> sql_value option" where
  "sql_greatest (Some (SInt a)) (Some (SInt b)) = Some (SInt (max a b))"
| "sql_greatest a _ = a"

fun sql_eval :: "time \<Rightarrow> row \<Rightarrow> row \<Rightarrow> sql_expr \<Rightarrow> sql_value option" where
  "sql_eval now new cur (ENewer c) = (if newer new cur then new c else cur c)"
| "sql_eval now new cur ENewerNow = (if newer new cur then Some (STime now) else cur ''updated_at'')"
| "sql_eval now new cur (EOr c) = sql_or (cur c) (new c)"
| "sql_eval now new cur (EGreatest c) = sql_greatest (cur c) (new c)"

fun assign :: "time \<Rightarrow> row \<Rightarrow> (string \<times> sql_expr) list \<Rightarrow> row \<Rightarrow> row" where
  "assign now new [] cur = cur"
| "assign now new ((c, x) # us) cur = assign now new us (cur(c := sql_eval now new cur x))"

text \<open>The assignments: the columns between the key and the revision, then the time of the change and the revision.\<close>

definition upsert_updates :: "string list \<Rightarrow> (string \<times> sql_expr) list" where
  "upsert_updates cols =
     map (\<lambda>c. (c, if c = ''incomplete'' then EOr c else ENewer c)) (butlast (tl cols)) @
     [(''updated_at'', ENewerNow), (''revision'', EGreatest ''revision'')]"

text \<open>The first value is the primary key.\<close>

definition upsert :: "time \<Rightarrow> string list \<Rightarrow> sql_value list \<Rightarrow> table \<Rightarrow> table" where
  "upsert now cols vals t =
     (let new = map_of (zip cols vals) in
      case vals of
        SText k # _ \<Rightarrow>
          (case t k of
             None \<Rightarrow> t(k \<mapsto> new(''updated_at'' \<mapsto> STime now))
           | Some cur \<Rightarrow> t(k \<mapsto> assign now new (upsert_updates cols) cur))
      | _ \<Rightarrow> t)"

section \<open>Writing an event\<close>

definition nullable :: "string \<Rightarrow> sql_value" where
  "nullable v = (if v = [] then SNull else SText v)"

definition null_time :: "time option \<Rightarrow> sql_value" where
  "null_time t = (case t of None \<Rightarrow> SNull | Some n \<Rightarrow> STime n)"

definition null_text :: "string option \<Rightarrow> sql_value" where
  "null_text s = (case s of None \<Rightarrow> SNull | Some v \<Rightarrow> SText v)"

definition event_cols :: "string list" where
  "event_cols =
     [''event_id'', ''node_id'', ''boot_id'', ''boot_seq'', ''occurred_at'', ''event_type'', ''source'', ''outcome'',
      ''actor_account'', ''actor_name'', ''owner_account'', ''client_ip'', ''session_ref'', ''broadcast_id'', ''input_id'',
      ''connection_id'', ''channel_id'', ''reason_code'', ''payload_version'', ''payload'']"

text \<open>\<open>J\<close> is the JSON text of a payload.\<close>

definition event_vals :: "(Payload \<Rightarrow> string) \<Rightarrow> Event \<Rightarrow> sql_value list" where
  "event_vals J e =
     (let a = evActor e in
      [SText (evID e), SText (evNode e), SText (evBoot e), SInt (int (evSeq e)), STime (evAt e), SText (evType e),
       SText (acSource a), SText (evOutcome e), nullable (acAccount a), nullable (acName a), nullable (evOwner e),
       nullable (acIP a), nullable (acSession a), nullable (evBroadcastID e), nullable (evInputID e),
       nullable (evConnectionID e), nullable (evChannelID e), nullable (evReason e), SInt (evVersion e), SText (J (evPayload e))])"

definition broadcast_cols :: "string list" where
  "broadcast_cols =
     [''broadcast_id'', ''node_id'', ''boot_id'', ''channel_id'', ''owner_account'', ''owner_name'', ''created_by'', ''source'',
      ''create_ip'', ''channel_name'', ''input_genre'', ''genre'', ''description'', ''comment'', ''contact_url'', ''bitrate'',
      ''content_type'', ''created_at'', ''first_media_at'', ''last_media_at'', ''ended_at'', ''interruption_detected_at'',
      ''status'', ''end_reason'', ''incomplete'', ''source_event_id'', ''revision'']"

definition broadcast_vals :: "Event \<Rightarrow> Broadcast \<Rightarrow> sql_value list" where
  "broadcast_vals e b =
     (let st = bSettings b in
      [SText (bID b), SText (if bNode b = [] then evNode e else bNode b), SText (if bBoot b = [] then evBoot e else bBoot b),
       SText (bChannelID b), nullable (bOwner b), nullable (bOwnerName b), nullable (acAccount (bActor b)),
       SText (acSource (bActor b)), nullable (audit_IP (acIP (bActor b))), SText (stName st), null_text (stInputGenre st),
       SText (stGenre st), SText (stDescription st), SText (stComment st), SText (stContactURL st), SInt (uint (stBitrate st)),
       SText (stContentType st), STime (bCreated b), null_time (bFirstMedia b), null_time (bLastMedia b), null_time (bEnded b),
       null_time (bInterrupted b), SText (bStatus b), nullable (bReason b), SBool (bIncomplete b), SText (evID e),
       SInt (int (bRevision b))])"

definition input_cols :: "string list" where
  "input_cols =
     [''input_id'', ''broadcast_id'', ''connection_id'', ''remote_ip'', ''started_at'', ''last_media_at'', ''ended_at'',
      ''interruption_detected_at'', ''end_reason'', ''incomplete'', ''source_event_id'', ''revision'']"

definition input_vals :: "Event \<Rightarrow> Input \<Rightarrow> sql_value list" where
  "input_vals e i =
     [SText (inID i), SText (inBroadcastID i), SText (inConnectionID i), SText (inRemoteIP i), STime (inStarted i),
      STime (inLastMedia i), null_time (inEnded i), null_time (inInterrupted i), nullable (inReason i), SBool (inIncomplete i),
      SText (evID e), SInt (int (inRevision i))]"

record audit_db =
  dbEvents :: table
  dbBroadcasts :: table
  dbInputs :: table

text \<open>The steps of the transaction.\<close>

definition put_event :: "(Payload \<Rightarrow> string) \<Rightarrow> time \<Rightarrow> Event \<Rightarrow> audit_db \<Rightarrow> audit_db" where
  "put_event J now e db =
     (if evExpired e then db
      else db\<lparr>dbEvents := (dbEvents db)(evID e \<mapsto> (map_of (zip event_cols (event_vals J e)))(''recorded_at'' \<mapsto> STime now))\<rparr>)"

definition put_broadcast :: "time \<Rightarrow> Event \<Rightarrow> audit_db \<Rightarrow> audit_db" where
  "put_broadcast now e db =
     (case plBroadcast (evPayload e) of
        None \<Rightarrow> db
      | Some b0 \<Rightarrow>
          let b = (if evType e \<noteq> ''broadcast.create'' \<and> dbBroadcasts db (bID b0) = None then b0\<lparr>bIncomplete := True\<rparr> else b0)
          in db\<lparr>dbBroadcasts := upsert now broadcast_cols (broadcast_vals e b) (dbBroadcasts db)\<rparr>)"

definition put_input :: "time \<Rightarrow> Event \<Rightarrow> audit_db \<Rightarrow> audit_db" where
  "put_input now e db =
     (case plInput (evPayload e) of
        None \<Rightarrow> db
      | Some i0 \<Rightarrow>
          let i = (if evType e \<noteq> ''input.start'' \<and> dbInputs db (inID i0) = None then i0\<lparr>inIncomplete := True\<rparr> else i0)
          in db\<lparr>dbInputs := upsert now input_cols (input_vals e i) (dbInputs db)\<rparr>)"

definition of_boot :: "string \<Rightarrow> string \<Rightarrow> row \<Rightarrow> bool" where
  "of_boot node boot r \<longleftrightarrow> r ''node_id'' = Some (SText node) \<and> r ''boot_id'' = Some (SText boot)"

definition set_incomplete :: "row \<Rightarrow> row" where
  "set_incomplete r = r(''incomplete'' \<mapsto> SBool True)"

text \<open>The broadcast an input row belongs to.\<close>

definition parent_row :: "table \<Rightarrow> row \<Rightarrow> row option" where
  "parent_row t r = (case r ''broadcast_id'' of Some (SText i) \<Rightarrow> t i | _ \<Rightarrow> None)"

definition put_gap :: "Event \<Rightarrow> audit_db \<Rightarrow> audit_db" where
  "put_gap e db =
     (if evType e \<noteq> ''audit.gap'' then db
      else
        let bs = (\<lambda>k. map_option (\<lambda>r. if of_boot (evNode e) (evBoot e) r then set_incomplete r else r) (dbBroadcasts db k)) in
        db\<lparr>dbBroadcasts := bs,
           dbInputs := (\<lambda>k. map_option (\<lambda>r. if (case parent_row bs r of None \<Rightarrow> False | Some b \<Rightarrow> of_boot (evNode e) (evBoot e) b)
             then set_incomplete r else r) (dbInputs db k))\<rparr>)"

datatype commit_answer = CommitOk | CommitLost | CommitUnknown

record sql_answers =
  saFail :: "nat \<Rightarrow> bool"
  saCommit :: commit_answer

text \<open>
  The transaction up to the commit, \<open>None\<close> when a statement fails.  \<open>saFail\<close> says which of the statements the code can send
  fails, a violated key included; an uncertain commit has happened although an error is reported.
\<close>

definition write_body :: "(Payload \<Rightarrow> string) \<Rightarrow> time \<Rightarrow> (nat \<Rightarrow> bool) \<Rightarrow> Event \<Rightarrow> audit_db \<Rightarrow> audit_db option" where
  "write_body J now fails e db =
     (if \<not> evExpired e \<and> fails 2 then None
      else if plBroadcast (evPayload e) \<noteq> None \<and> (evType e \<noteq> ''broadcast.create'' \<and> fails 3 \<or> fails 4) then None
      else if plInput (evPayload e) \<noteq> None \<and> (evType e \<noteq> ''input.start'' \<and> fails 5 \<or> fails 6) then None
      else if evType e = ''audit.gap'' \<and> (fails 7 \<or> fails 8) then None
      else Some (put_gap e (put_input now e (put_broadcast now e (put_event J now e db)))))"

definition Write :: "(Payload \<Rightarrow> string) \<Rightarrow> time \<Rightarrow> sql_answers \<Rightarrow> Event \<Rightarrow> audit_db \<Rightarrow> bool \<times> audit_db" where
  "Write J now a e db =
     (if saFail a 0 \<or> \<not> evExpired e \<and> saFail a 1 then (False, db)
      else if \<not> evExpired e \<and> dbEvents db (evID e) \<noteq> None then (True, db)
      else case write_body J now (saFail a) e db of
        None \<Rightarrow> (False, db)
      | Some db' \<Rightarrow>
          (case saCommit a of CommitOk \<Rightarrow> (True, db') | CommitLost \<Rightarrow> (False, db) | CommitUnknown \<Rightarrow> (False, db')))"

text \<open>Errors of the data itself; anything else is tried again.\<close>

definition invalidRow :: "nat option \<Rightarrow> bool" where
  "invalidRow number = (case number of None \<Rightarrow> False | Some n \<Rightarrow> n \<in> {1048, 1264, 1265, 1292, 1366, 1406, 4025})"

section \<open>Interrupted broadcasts\<close>

definition col_text :: "row \<Rightarrow> string \<Rightarrow> string" where
  "col_text r c = (case r c of Some (SText s) \<Rightarrow> s | _ \<Rightarrow> [])"

definition col_opt_text :: "row \<Rightarrow> string \<Rightarrow> string option" where
  "col_opt_text r c = (case r c of Some (SText s) \<Rightarrow> Some s | _ \<Rightarrow> None)"

definition col_opt_time :: "row \<Rightarrow> string \<Rightarrow> time option" where
  "col_opt_time r c = (case r c of Some (STime t) \<Rightarrow> Some t | _ \<Rightarrow> None)"

definition col_time :: "row \<Rightarrow> string \<Rightarrow> time" where
  "col_time r c = (case r c of Some (STime t) \<Rightarrow> t | _ \<Rightarrow> 0)"

definition col_int :: "row \<Rightarrow> string \<Rightarrow> int" where
  "col_int r c = (case r c of Some (SInt n) \<Rightarrow> n | _ \<Rightarrow> 0)"

text \<open>\<^verbatim>\<open>Scan\<close> of the columns of the query; the other fields keep their zero values.\<close>

definition scan_broadcast :: "row \<Rightarrow> Broadcast" where
  "scan_broadcast r =
     \<lparr>bNode = col_text r ''node_id'', bBoot = col_text r ''boot_id'', bID = col_text r ''broadcast_id'',
      bChannelID = col_text r ''channel_id'', bOwner = col_text r ''owner_account'', bOwnerName = col_text r ''owner_name'',
      bActor = (Actor_of (col_text r ''source''))\<lparr>acAccount := col_text r ''created_by'', acIP := col_text r ''create_ip''\<rparr>,
      bSettings = \<lparr>stName = col_text r ''channel_name'', stInputGenre = col_opt_text r ''input_genre'', stGenre = col_text r ''genre'',
        stDescription = col_text r ''description'', stComment = col_text r ''comment'', stContactURL = col_text r ''contact_url'',
        stBitrate = of_int (col_int r ''bitrate''), stContentType = col_text r ''content_type''\<rparr>,
      bCreated = col_time r ''created_at'', bFirstMedia = col_opt_time r ''first_media_at'', bLastMedia = col_opt_time r ''last_media_at'',
      bEnded = None, bInterrupted = None, bStatus = [], bReason = [], bIncomplete = False, bRevision = nat (col_int r ''revision'')\<rparr>"

definition scan_input :: "Broadcast \<Rightarrow> row \<Rightarrow> Input" where
  "scan_input b r =
     \<lparr>inID = col_text r ''input_id'', inBroadcastID = bID b, inConnectionID = col_text r ''connection_id'',
      inRemoteIP = col_text r ''remote_ip'', inStarted = col_time r ''started_at'', inLastMedia = col_time r ''last_media_at'',
      inEnded = None, inInterrupted = None, inReason = [], inIncomplete = False, inRevision = nat (col_int r ''revision'')\<rparr>"

text \<open>The condition of the query: a broadcast of this node that an earlier start left open.\<close>

definition left_open :: "string \<Rightarrow> string \<Rightarrow> row \<Rightarrow> bool" where
  "left_open node boot r \<longleftrightarrow>
     r ''node_id'' = Some (SText node) \<and> r ''boot_id'' \<noteq> Some (SText boot) \<and> r ''boot_id'' \<noteq> None \<and>
     (r ''status'' = Some (SText ''waiting'') \<or> r ''status'' = Some (SText ''live''))"

definition open_input_of :: "string \<Rightarrow> row \<Rightarrow> bool" where
  "open_input_of i r \<longleftrightarrow>
     r ''broadcast_id'' = Some (SText i) \<and> r ''ended_at'' = Some SNull \<and> r ''interruption_detected_at'' = Some SNull"

text \<open>The rows of a table that satisfy a condition, in the order the server finds them.\<close>

definition rows_where :: "string list \<Rightarrow> (row \<Rightarrow> bool) \<Rightarrow> table \<Rightarrow> row list" where
  "rows_where order P t = filter P (List.map_filter t order)"

definition system_event :: "time \<Rightarrow> string \<Rightarrow> Broadcast \<Rightarrow> Event" where
  "system_event now kind b =
     Event0\<lparr>evType := kind, evAt := now, evActor := Actor_of ''system'', evOutcome := ''unknown'', evReason := ''process_interrupted'',
       evOwner := bOwner b, evBroadcastID := bID b, evChannelID := bChannelID b\<rparr>"

definition input_interrupted :: "time \<Rightarrow> Broadcast \<Rightarrow> Input \<Rightarrow> Event" where
  "input_interrupted now b i =
     (let i' = i\<lparr>inRevision := inRevision i + 1, inIncomplete := True, inInterrupted := Some now, inReason := ''process_interrupted''\<rparr> in
      (system_event now ''input.end'' b)\<lparr>evInputID := inID i', evConnectionID := inConnectionID i',
        evPayload := Payload0\<lparr>plInput := Some i'\<rparr>\<rparr>)"

definition broadcast_interrupted :: "time \<Rightarrow> Broadcast \<Rightarrow> Event" where
  "broadcast_interrupted now b =
     (let b' = b\<lparr>bRevision := bRevision b + 1, bStatus := ''interrupted'', bIncomplete := True, bInterrupted := Some now,
          bReason := ''process_interrupted''\<rparr> in
      (system_event now ''broadcast.interrupted'' b')\<lparr>evPayload := Payload0\<lparr>plBroadcast := Some b'\<rparr>\<rparr>)"

text \<open>\<open>fails\<close> is the first query, \<open>ifails\<close> the query for the inputs of a broadcast.\<close>

definition Recover ::
  "string list \<Rightarrow> string list \<Rightarrow> string \<Rightarrow> string \<Rightarrow> time \<Rightarrow> bool \<Rightarrow> (string \<Rightarrow> bool) \<Rightarrow> audit_db \<Rightarrow> Event list option" where
  "Recover border iorder node boot now fails ifails db =
     (let bs = map scan_broadcast (take 50 (rows_where border (left_open node boot) (dbBroadcasts db))) in
      if fails \<or> list_ex (\<lambda>b. ifails (bID b)) bs then None
      else Some (concat (map (\<lambda>b. map (input_interrupted now b \<circ> scan_input b)
                  (rows_where iorder (open_input_of (bID b)) (dbInputs db)) @ [broadcast_interrupted now b]) bs)))"

section \<open>Retention\<close>

definition delete_keys :: "string set \<Rightarrow> table \<Rightarrow> table" where
  "delete_keys K t = (\<lambda>k. if k \<in> K then None else t k)"

definition time_before :: "time \<Rightarrow> string \<Rightarrow> row \<Rightarrow> bool" where
  "time_before cutoff c r = (case r c of Some (STime t) \<Rightarrow> t < cutoff | _ \<Rightarrow> False)"

definition finished_before :: "time \<Rightarrow> row \<Rightarrow> bool" where
  "finished_before cutoff r \<longleftrightarrow>
     (time_before cutoff ''ended_at'' r \<or> time_before cutoff ''interruption_detected_at'' r) \<and>
     (r ''status'' = Some (SText ''ended'') \<or> r ''status'' = Some (SText ''interrupted''))"

text \<open>One of the transactions that delete a broadcast with its inputs.\<close>

definition prune_broadcast :: "string \<Rightarrow> audit_db \<Rightarrow> audit_db" where
  "prune_broadcast i db =
     db\<lparr>dbInputs := (\<lambda>k. case dbInputs db k of None \<Rightarrow> None | Some r \<Rightarrow> if r ''broadcast_id'' = Some (SText i) then None else Some r),
        dbBroadcasts := delete_keys {i} (dbBroadcasts db)\<rparr>"

fun prune_each :: "(string \<Rightarrow> bool) \<Rightarrow> string list \<Rightarrow> audit_db \<Rightarrow> bool \<times> audit_db" where
  "prune_each fails [] db = (True, db)"
| "prune_each fails (i # is) db = (if fails i then (False, db) else prune_each fails is (prune_broadcast i db))"

definition Prune ::
  "string list \<Rightarrow> string list \<Rightarrow> time \<Rightarrow> bool \<Rightarrow> bool \<Rightarrow> (string \<Rightarrow> bool) \<Rightarrow> audit_db \<Rightarrow> bool \<times> audit_db" where
  "Prune eorder border cutoff efails bfails fails db =
     (if efails then (False, db)
      else
        let old = take 1000 (filter (\<lambda>k. case dbEvents db k of None \<Rightarrow> False | Some r \<Rightarrow> time_before cutoff ''occurred_at'' r) eorder);
            db1 = db\<lparr>dbEvents := delete_keys (set old) (dbEvents db)\<rparr>
        in if bfails then (False, db1)
           else prune_each fails (map (\<lambda>r. col_text r ''broadcast_id'') (take 100 (rows_where border (finished_before cutoff) (dbBroadcasts db1)))) db1)"

section \<open>The schema\<close>

datatype sql_found = Found string | NoRows | NoTable | SqlError

text \<open>Whether a connection can be used: the recorded checksum of the schema is that of this program.\<close>

definition Ready :: "bool \<Rightarrow> string \<Rightarrow> sql_found \<Rightarrow> bool" where
  "Ready configured checksum found \<longleftrightarrow> configured \<and> found = Found checksum"

text \<open>The statements of the schema: its lines without comments, split at semicolons.\<close>

fun join_lines :: "string list \<Rightarrow> string" where
  "join_lines [] = []"
| "join_lines [l] = l"
| "join_lines (l # ls) = l @ [CHR 0x0A] @ join_lines ls"

definition schema_statements :: "string \<Rightarrow> string list" where
  "schema_statements schema =
     filter (\<lambda>p. TrimSpace p \<noteq> [])
       (Split (join_lines (filter (\<lambda>l. \<not> HasPrefix (TrimSpace l) ''--'') (Split schema [CHR 0x0A]))) '';'')"

text \<open>
  \<open>lock\<close> is the answer for the lock, \<open>None\<close> an error; \<open>before\<close> and \<open>after\<close> are the recorded checksum before and after the
  statements.  The result is whether it succeeded, the statements that were run, and whether the checksum was recorded.
\<close>

definition Migrate ::
  "string \<Rightarrow> string \<Rightarrow> int option \<Rightarrow> sql_found \<Rightarrow> (string \<Rightarrow> bool) \<Rightarrow> sql_found \<Rightarrow> bool \<Rightarrow> bool \<times> string list \<times> bool" where
  "Migrate checksum schema lock before fails after record_ok =
     (if lock \<noteq> Some 1 then (False, [], False)
      else case before of
        Found c \<Rightarrow> (c = checksum, [], False)
      | SqlError \<Rightarrow> (False, [], False)
      | _ \<Rightarrow>
          let parts = schema_statements schema; run = takeWhile (\<lambda>p. \<not> fails p) parts in
          if run \<noteq> parts then (False, run, False)
          else case after of
            Found c \<Rightarrow> (c = checksum, run, False)
          | NoRows \<Rightarrow> (record_ok, run, record_ok)
          | _ \<Rightarrow> (False, run, False))"

section \<open>What an upsert leaves\<close>

lemma assign_append: "assign now new (us @ vs) cur = assign now new vs (assign now new us cur)"
  by (induction us arbitrary: cur) auto

lemma assign_other: "c \<notin> fst ` set us \<Longrightarrow> assign now new us cur c = cur c"
  by (induction us arbitrary: cur) auto

lemma newer_cong: "cur ''revision'' = cur' ''revision'' \<Longrightarrow> newer new cur = newer new cur'"
  by (simp add: newer_def)

lemma assign_columns:
  assumes "distinct cs" "''revision'' \<notin> set cs"
  shows "assign now new (map (\<lambda>c. (c, if c = ''incomplete'' then EOr c else ENewer c)) cs) cur c =
     (if c \<notin> set cs then cur c else if c = ''incomplete'' then sql_or (cur c) (new c) else if newer new cur then new c else cur c)"
  using assms
proof (induction cs arbitrary: cur)
  case (Cons d cs)
  define cur1 where "cur1 = cur(d := sql_eval now new cur (if d = ''incomplete'' then EOr d else ENewer d))"
  have d: "d \<noteq> ''revision''" "d \<notin> set cs" "distinct cs" "''revision'' \<notin> set cs" using Cons.prems by auto
  have n: "newer new cur1 = newer new cur" by (rule newer_cong) (simp only: cur1_def fun_upd_other [OF d(1) [symmetric]])
  have other: "cur1 c = cur c" if "c \<noteq> d" for c using that by (simp add: cur1_def)
  have own: "cur1 d = (if d = ''incomplete'' then sql_or (cur d) (new d) else if newer new cur then new d else cur d)"
    by (simp add: cur1_def)
  have "assign now new (map (\<lambda>c. (c, if c = ''incomplete'' then EOr c else ENewer c)) (d # cs)) cur c =
      assign now new (map (\<lambda>c. (c, if c = ''incomplete'' then EOr c else ENewer c)) cs) cur1 c"
    by (simp only: list.map prod.case assign.simps cur1_def)
  then show ?case unfolding Cons.IH [OF d(3,4)] using d(2) own n by (cases "c = d") (auto simp: other)
qed simp

text \<open>A list of columns as \<^verbatim>\<open>upsert\<close> expects it.\<close>

definition good_cols :: "string list \<Rightarrow> bool" where
  "good_cols cols \<longleftrightarrow>
     distinct cols \<and> (\<exists>k cs. cols = k # cs @ [''revision''] \<and> ''incomplete'' \<in> set cs \<and> ''updated_at'' \<notin> set cols)"

lemma good_colsI:
  "cols = k # cs @ [''revision''] \<Longrightarrow> distinct cols \<Longrightarrow> ''incomplete'' \<in> set cs \<Longrightarrow> ''updated_at'' \<notin> set cols \<Longrightarrow> good_cols cols"
  by (auto simp: good_cols_def)

lemma good_cols [simp]: "good_cols broadcast_cols" "good_cols input_cols"
  by (rule good_colsI [of _ "hd broadcast_cols" "butlast (tl broadcast_cols)"]; code_simp)
    (rule good_colsI [of _ "hd input_cols" "butlast (tl input_cols)"]; code_simp)

lemma assign_upsert:
  assumes "good_cols cols"
  shows "assign now new (upsert_updates cols) cur c =
     (if c = ''revision'' then sql_greatest (cur c) (new c)
      else if c = ''updated_at'' then (if newer new cur then Some (STime now) else cur c)
      else if c = ''incomplete'' then sql_or (cur c) (new c)
      else if c \<in> set (tl cols) then (if newer new cur then new c else cur c) else cur c)"
proof -
  obtain k cs where cols: "cols = k # cs @ [''revision'']" "''incomplete'' \<in> set cs" "''updated_at'' \<notin> set cols" "distinct cols"
    using assms by (auto simp: good_cols_def)
  let ?us = "map (\<lambda>c. (c, if c = ''incomplete'' then EOr c else ENewer c)) cs"
  let ?mid = "assign now new ?us cur"
  have mid: "?mid c = (if c \<notin> set cs then cur c else if c = ''incomplete'' then sql_or (cur c) (new c)
      else if newer new cur then new c else cur c)" for c
    using assign_columns [of cs] cols(1,4) by simp
  have n: "newer new ?mid = newer new cur" using cols(1,4) by (intro newer_cong) (simp add: mid)
  show ?thesis using cols by (auto simp: upsert_updates_def assign_append mid n butlast_append)
qed

section \<open>The current version\<close>

text \<open>
  What a row should hold when the versions \<open>vs\<close> of it were stored, each with its columns, its revision and whether it is
  incomplete: the columns of a version with the highest revision, and that something is missing if one of them said so.
\<close>

definition current :: "string list \<Rightarrow> (row \<times> nat \<times> bool) list \<Rightarrow> row option \<Rightarrow> bool" where
  "current cols vs r \<longleftrightarrow>
     (case r of
        None \<Rightarrow> vs = []
      | Some row \<Rightarrow>
          \<exists>(s, n, x) \<in> set vs. (\<forall>(s', n', x') \<in> set vs. n' \<le> n) \<and> (\<forall>c \<in> set cols - {''incomplete''}. row c = s c) \<and>
            (\<exists>y. row ''incomplete'' = Some (SBool y) \<and> ((\<exists>(s', n', x') \<in> set vs. x') \<longrightarrow> y)))"

definition versioned :: "string list \<Rightarrow> string \<Rightarrow> (row \<times> nat \<times> bool) list \<Rightarrow> bool" where
  "versioned cols k vs \<longleftrightarrow> (\<forall>(s, n, x) \<in> set vs. s ''revision'' = Some (SInt (int n)) \<and> s (hd cols) = Some (SText k))"

lemma current_upsert:
  assumes cols: "good_cols cols" and cur: "current cols vs (t k)" "versioned cols k vs"
    and vals: "vals = SText k # vs'" "length vals = length cols"
    and new: "map_of (zip cols vals) ''revision'' = Some (SInt (int n))" "map_of (zip cols vals) ''incomplete'' = Some (SBool y)"
      "x \<longrightarrow> y" "\<And>c. c \<in> set cols \<Longrightarrow> c \<noteq> ''incomplete'' \<Longrightarrow> map_of (zip cols vals) c = s c"
  shows "current cols (vs @ [(s, n, x)]) (upsert now cols vals t k)"
proof -
  obtain k0 cs where c0: "cols = k0 # cs @ [''revision'']" "''incomplete'' \<in> set cs" "''updated_at'' \<notin> set cols" "distinct cols"
    using cols by (auto simp: good_cols_def)
  have up: "''updated_at'' \<notin> set cols" "''incomplete'' \<noteq> ''updated_at''" "''revision'' \<in> set cols" "''revision'' \<noteq> ''incomplete''"
    "k0 \<in> set cols" "k0 \<noteq> ''incomplete''" "k0 \<noteq> ''revision''" "hd cols = k0" "set (tl cols) = set cols - {k0}"
    using c0 by auto
  let ?new = "map_of (zip cols vals)"
  have nk: "?new k0 = Some (SText k)" using vals(1) c0(1) by simp
  show ?thesis
  proof (cases "t k")
    case None
    then have vs: "vs = []" using cur(1) by (simp add: current_def)
    have u: "upsert now cols vals t k = Some (?new(''updated_at'' \<mapsto> STime now))"
      using None vals(1) by (simp add: upsert_def Let_def)
    have "\<forall>c \<in> set cols - {''incomplete''}. (?new(''updated_at'' \<mapsto> STime now)) c = s c" using new(4) up(1) by auto
    then show ?thesis using new(2,3) by (simp add: current_def vs u)
  next
    case (Some row)
    obtain s0 n0 x0 y0 where old: "(s0, n0, x0) \<in> set vs" "\<forall>(s', n', x') \<in> set vs. n' \<le> n0"
      "\<forall>c \<in> set cols - {''incomplete''}. row c = s0 c" "row ''incomplete'' = Some (SBool y0)" "(\<exists>(s', n', x') \<in> set vs. x') \<longrightarrow> y0"
      using cur(1) Some by (auto simp: current_def)
    have rev: "row ''revision'' = Some (SInt (int n0))" "row k0 = Some (SText k)" using old(1,3) cur(2) up by (auto simp: versioned_def)
    let ?r = "assign now ?new (upsert_updates cols) row"
    have nw: "newer ?new row \<longleftrightarrow> n0 < n" using rev(1) new(1) by (simp add: newer_def)
    have r: "?r c = (if n0 < n then s c else s0 c)" if c: "c \<in> set cols" "c \<noteq> ''incomplete''" for c
    proof -
      consider "c = k0" | "c = ''revision''" | "c \<noteq> k0" "c \<noteq> ''revision''" "c \<noteq> ''updated_at''" using c up by blast
      then show ?thesis
      proof cases
        case 1
        then show ?thesis using c up rev(2) nk new(4) [of k0] old(3) by (auto simp: assign_upsert [OF cols])
      next
        case 2
        have "s c = Some (SInt (int n))" "s0 c = Some (SInt (int n0))" using 2 c rev(1) new(1) new(4) [of c] old(3) by auto
        then show ?thesis using 2 rev(1) new(1) by (simp add: assign_upsert [OF cols] max_def)
      next
        case 3
        then show ?thesis using c up(9) new(4) [of c] old(3) by (simp add: assign_upsert [OF cols] nw)
      qed
    qed
    have inc: "?r ''incomplete'' = Some (SBool (y0 \<or> y))" using old(4) new(2) by (simp add: assign_upsert [OF cols])
    have u: "upsert now cols vals t k = Some ?r" using Some vals(1) by (simp add: upsert_def Let_def)
    define best where "best = (if n0 < n then (s, n, x) else (s0, n0, x0))"
    have "best \<in> set (vs @ [(s, n, x)])" "\<forall>(s', n', x') \<in> set (vs @ [(s, n, x)]). n' \<le> fst (snd best)"
      using old(1,2) by (auto simp: best_def)
    moreover have "\<forall>c \<in> set cols - {''incomplete''}. ?r c = fst best c" using r by (auto simp: best_def)
    moreover have "(\<exists>(s', n', x') \<in> set (vs @ [(s, n, x)]). x') \<longrightarrow> y0 \<or> y" using old(5) new(3) by auto
    ultimately have "\<exists>(s1, n1, x1) \<in> set (vs @ [(s, n, x)]). (\<forall>(s', n', x') \<in> set (vs @ [(s, n, x)]). n' \<le> n1) \<and>
        (\<forall>c \<in> set cols - {''incomplete''}. ?r c = s1 c) \<and> (\<exists>y. ?r ''incomplete'' = Some (SBool y) \<and>
          ((\<exists>(s', n', x') \<in> set (vs @ [(s, n, x)]). x') \<longrightarrow> y))"
      using inc by (intro bexI [of _ best]) (auto simp: case_prod_beta)
    then show ?thesis by (simp only: u current_def option.case)
  qed
qed

lemma current_set_incomplete: "current cols vs r \<Longrightarrow> current cols vs (map_option (\<lambda>r. if P r then set_incomplete r else r) r)"
proof (cases r)
  case (Some row)
  assume "current cols vs r"
  then obtain s n x y where v: "(s, n, x) \<in> set vs" "\<forall>(s', n', x') \<in> set vs. n' \<le> n"
    "\<forall>c \<in> set cols - {''incomplete''}. row c = s c" "row ''incomplete'' = Some (SBool y)" "(\<exists>(s', n', x') \<in> set vs. x') \<longrightarrow> y"
    using Some by (auto simp: current_def)
  then have "\<forall>c \<in> set cols - {''incomplete''}. set_incomplete row c = s c" "set_incomplete row ''incomplete'' = Some (SBool True)"
    by (simp_all add: set_incomplete_def)
  then show ?thesis using v Some unfolding current_def by (auto intro!: bexI [of _ "(s, n, x)"])
qed (simp add: current_def)

section \<open>Deliveries\<close>

type_synonym delivery = "time \<times> sql_answers \<times> Event"

fun writes :: "(Payload \<Rightarrow> string) \<Rightarrow> delivery list \<Rightarrow> audit_db \<Rightarrow> audit_db" where
  "writes J [] db = db"
| "writes J ((now, a, e) # ws) db = writes J ws (snd (Write J now a e db))"

text \<open>Whether a write changes the tables.\<close>

definition takes_effect :: "(Payload \<Rightarrow> string) \<Rightarrow> time \<Rightarrow> sql_answers \<Rightarrow> Event \<Rightarrow> audit_db \<Rightarrow> bool" where
  "takes_effect J now a e db \<longleftrightarrow>
     \<not> (saFail a 0 \<or> \<not> evExpired e \<and> saFail a 1) \<and> (evExpired e \<or> dbEvents db (evID e) = None) \<and>
     write_body J now (saFail a) e db \<noteq> None \<and> saCommit a \<noteq> CommitLost"

fun stored :: "(Payload \<Rightarrow> string) \<Rightarrow> delivery list \<Rightarrow> audit_db \<Rightarrow> Event list" where
  "stored J [] db = []"
| "stored J ((now, a, e) # ws) db =
     (if takes_effect J now a e db then [e] else []) @ stored J ws (snd (Write J now a e db))"

definition apply_event :: "(Payload \<Rightarrow> string) \<Rightarrow> time \<Rightarrow> Event \<Rightarrow> audit_db \<Rightarrow> audit_db" where
  "apply_event J now e db = put_gap e (put_input now e (put_broadcast now e (put_event J now e db)))"

lemma Write_effect: "snd (Write J now a e db) = (if takes_effect J now a e db then apply_event J now e db else db)"
  by (auto simp: Write_def takes_effect_def write_body_def apply_event_def split: commit_answer.splits if_splits)

lemma Write_ok: "fst (Write J now a e db) \<Longrightarrow> takes_effect J now a e db \<or> \<not> evExpired e \<and> dbEvents db (evID e) \<noteq> None"
  by (auto simp: Write_def takes_effect_def split: commit_answer.splits if_splits option.splits)

section \<open>Versions\<close>

definition broadcast_row :: "Event \<Rightarrow> Broadcast \<Rightarrow> row" where
  "broadcast_row e b = map_of (zip broadcast_cols (broadcast_vals e b))"

definition input_row :: "Event \<Rightarrow> Input \<Rightarrow> row" where
  "input_row e i = map_of (zip input_cols (input_vals e i))"

definition broadcast_version :: "string \<Rightarrow> Event \<Rightarrow> (row \<times> nat \<times> bool) option" where
  "broadcast_version i e =
     (case plBroadcast (evPayload e) of
        Some b \<Rightarrow> if bID b = i then Some (broadcast_row e b, bRevision b, bIncomplete b) else None
      | None \<Rightarrow> None)"

definition input_version :: "string \<Rightarrow> Event \<Rightarrow> (row \<times> nat \<times> bool) option" where
  "input_version i e =
     (case plInput (evPayload e) of
        Some v \<Rightarrow> if inID v = i then Some (input_row e v, inRevision v, inIncomplete v) else None
      | None \<Rightarrow> None)"

lemma broadcast_row_simps:
  "length (broadcast_vals e b) = length broadcast_cols" "\<exists>vs. broadcast_vals e b = SText (bID b) # vs"
  "broadcast_row e b ''revision'' = Some (SInt (int (bRevision b)))" "broadcast_row e b ''incomplete'' = Some (SBool (bIncomplete b))"
  "broadcast_row e b ''broadcast_id'' = Some (SText (bID b))" "hd broadcast_cols = ''broadcast_id''"
  "c \<noteq> ''incomplete'' \<Longrightarrow> broadcast_row e (b\<lparr>bIncomplete := x\<rparr>) c = broadcast_row e b c"
  by (simp_all add: broadcast_row_def broadcast_cols_def broadcast_vals_def Let_def)

lemma input_row_simps:
  "length (input_vals e v) = length input_cols" "\<exists>vs. input_vals e v = SText (inID v) # vs"
  "input_row e v ''revision'' = Some (SInt (int (inRevision v)))" "input_row e v ''incomplete'' = Some (SBool (inIncomplete v))"
  "input_row e v ''input_id'' = Some (SText (inID v))" "hd input_cols = ''input_id''"
  "c \<noteq> ''incomplete'' \<Longrightarrow> input_row e (v\<lparr>inIncomplete := x\<rparr>) c = input_row e v c"
  by (simp_all add: input_row_def input_cols_def input_vals_def)

lemma upsert_other: "vals = SText k # vs \<Longrightarrow> i \<noteq> k \<Longrightarrow> upsert now cols vals t i = t i"
  by (simp add: upsert_def Let_def split: option.splits)

abbreviation opt_list :: "'b option \<Rightarrow> 'b list" where
  "opt_list x \<equiv> (case x of None \<Rightarrow> [] | Some v \<Rightarrow> [v])"

lemma versions_snoc: "List.map_filter f (es @ [e]) = List.map_filter f es @ opt_list (f e)"
  by (simp add: List.map_filter_def split: option.splits)

lemma versioned_broadcasts: "versioned broadcast_cols i (List.map_filter (broadcast_version i) es)"
  by (auto simp: versioned_def map_filter_def broadcast_version_def broadcast_row_simps split: option.splits if_splits)

lemma versioned_inputs: "versioned input_cols i (List.map_filter (input_version i) es)"
  by (auto simp: versioned_def map_filter_def input_version_def input_row_simps split: option.splits if_splits)

lemma put_broadcast_current:
  assumes "current broadcast_cols vs (dbBroadcasts db i)" "versioned broadcast_cols i vs"
  shows "current broadcast_cols (vs @ opt_list (broadcast_version i e)) (dbBroadcasts (put_broadcast now e db) i)"
proof (cases "plBroadcast (evPayload e)")
  case None
  then show ?thesis using assms(1) by (simp add: put_broadcast_def broadcast_version_def)
next
  case (Some b0)
  define b where "b = (if evType e \<noteq> ''broadcast.create'' \<and> dbBroadcasts db (bID b0) = None then b0\<lparr>bIncomplete := True\<rparr> else b0)"
  have b: "bID b = bID b0" "bRevision b = bRevision b0" "bIncomplete b0 \<longrightarrow> bIncomplete b"
    "c \<noteq> ''incomplete'' \<Longrightarrow> broadcast_row e b c = broadcast_row e b0 c" for c
    by (simp_all add: b_def broadcast_row_simps(7))
  obtain vs' where vals: "broadcast_vals e b = SText (bID b) # vs'" using broadcast_row_simps(2) by blast
  have put: "dbBroadcasts (put_broadcast now e db) i = upsert now broadcast_cols (broadcast_vals e b) (dbBroadcasts db) i"
    using Some by (simp add: put_broadcast_def b_def Let_def)
  show ?thesis
  proof (cases "bID b0 = i")
    case True
    have "current broadcast_cols (vs @ [(broadcast_row e b0, bRevision b0, bIncomplete b0)])
        (upsert now broadcast_cols (broadcast_vals e b) (dbBroadcasts db) i)"
      by (rule current_upsert [where t = "dbBroadcasts db" and k = i and y = "bIncomplete b", OF good_cols(1) assms vals [unfolded b(1) True] broadcast_row_simps(1)])
        (use b in \<open>simp_all add: broadcast_row_simps broadcast_row_def [symmetric]\<close>)
    then show ?thesis using Some True by (simp add: put broadcast_version_def)
  next
    case False
    then show ?thesis using assms(1) Some b(1) by (simp add: put upsert_other [OF vals] broadcast_version_def)
  qed
qed

lemma put_input_current:
  assumes "current input_cols vs (dbInputs db i)" "versioned input_cols i vs"
  shows "current input_cols (vs @ opt_list (input_version i e)) (dbInputs (put_input now e db) i)"
proof (cases "plInput (evPayload e)")
  case None
  then show ?thesis using assms(1) by (simp add: put_input_def input_version_def)
next
  case (Some v0)
  define v where "v = (if evType e \<noteq> ''input.start'' \<and> dbInputs db (inID v0) = None then v0\<lparr>inIncomplete := True\<rparr> else v0)"
  have v: "inID v = inID v0" "inRevision v = inRevision v0" "inIncomplete v0 \<longrightarrow> inIncomplete v"
    "c \<noteq> ''incomplete'' \<Longrightarrow> input_row e v c = input_row e v0 c" for c
    by (simp_all add: v_def input_row_simps(7))
  obtain vs' where vals: "input_vals e v = SText (inID v) # vs'" using input_row_simps(2) by blast
  have put: "dbInputs (put_input now e db) i = upsert now input_cols (input_vals e v) (dbInputs db) i"
    using Some by (simp add: put_input_def v_def Let_def)
  show ?thesis
  proof (cases "inID v0 = i")
    case True
    have "current input_cols (vs @ [(input_row e v0, inRevision v0, inIncomplete v0)])
        (upsert now input_cols (input_vals e v) (dbInputs db) i)"
      by (rule current_upsert [where t = "dbInputs db" and k = i and y = "inIncomplete v", OF good_cols(2) assms vals [unfolded v(1) True] input_row_simps(1)])
        (use v in \<open>simp_all add: input_row_simps input_row_def [symmetric]\<close>)
    then show ?thesis using Some True by (simp add: put input_version_def)
  next
    case False
    then show ?thesis using assms(1) Some v(1) by (simp add: put upsert_other [OF vals] input_version_def)
  qed
qed

lemma put_other:
  "dbInputs (put_event J now e db) = dbInputs db" "dbBroadcasts (put_event J now e db) = dbBroadcasts db"
  "dbInputs (put_broadcast now e db) = dbInputs db" "dbEvents (put_broadcast now e db) = dbEvents db"
  "dbBroadcasts (put_input now e db) = dbBroadcasts db" "dbEvents (put_input now e db) = dbEvents db"
  "dbEvents (put_gap e db) = dbEvents db"
  by (simp_all add: put_event_def put_broadcast_def put_input_def put_gap_def Let_def split: option.splits)

text \<open>The tables hold what the stored events say.\<close>

definition tables_current :: "(Payload \<Rightarrow> string) \<Rightarrow> Event list \<Rightarrow> audit_db \<Rightarrow> bool" where
  "tables_current J es db \<longleftrightarrow>
     (\<forall>i. current broadcast_cols (List.map_filter (broadcast_version i) es) (dbBroadcasts db i)) \<and>
     (\<forall>i. current input_cols (List.map_filter (input_version i) es) (dbInputs db i)) \<and>
     (\<forall>i. (\<exists>e \<in> set es. \<not> evExpired e \<and> evID e = i) \<longleftrightarrow> dbEvents db i \<noteq> None) \<and>
     (\<forall>e \<in> set es. \<not> evExpired e \<longrightarrow>
        (\<exists>r. dbEvents db (evID e) = Some r \<and> (\<forall>c \<in> set event_cols. r c = map_of (zip event_cols (event_vals J e)) c)))"

lemma gap_current:
  "current broadcast_cols vs (dbBroadcasts db i) \<Longrightarrow> current broadcast_cols vs (dbBroadcasts (put_gap e db) i)"
  "current input_cols us (dbInputs db i) \<Longrightarrow> current input_cols us (dbInputs (put_gap e db) i)"
  by (simp_all add: put_gap_def Let_def current_set_incomplete)

lemma tables_current_apply:
  assumes "tables_current J es db" "evExpired e \<or> dbEvents db (evID e) = None"
  shows "tables_current J (es @ [e]) (apply_event J now e db)"
proof -
  have b: "current broadcast_cols (List.map_filter (broadcast_version i) (es @ [e])) (dbBroadcasts (apply_event J now e db) i)" for i
    unfolding apply_event_def versions_snoc
    by (rule gap_current) (use assms(1) in \<open>simp add: put_other put_broadcast_current versioned_broadcasts tables_current_def\<close>)
  have i: "current input_cols (List.map_filter (input_version i) (es @ [e])) (dbInputs (apply_event J now e db) i)" for i
    unfolding apply_event_def versions_snoc
    by (rule gap_current) (use assms(1) in \<open>simp add: put_other put_input_current versioned_inputs tables_current_def\<close>)
  have ev: "dbEvents (apply_event J now e db) = dbEvents (put_event J now e db)" by (simp add: apply_event_def put_other)
  have "''recorded_at'' \<notin> set event_cols" by (simp add: event_cols_def)
  then show ?thesis using assms b i unfolding tables_current_def ev by (auto simp: put_event_def)
qed

definition empty_db :: audit_db where
  "empty_db = \<lparr>dbEvents = Map.empty, dbBroadcasts = Map.empty, dbInputs = Map.empty\<rparr>"

lemma tables_current_empty: "tables_current J [] empty_db"
  by (simp add: tables_current_def empty_db_def current_def List.map_filter_def)

lemma writes_current:
  "tables_current J es db \<Longrightarrow> tables_current J (es @ stored J ws db) (writes J ws db)"
proof (induction J ws db arbitrary: es rule: stored.induct)
  case (2 J now a e ws db)
  show ?case
  proof (cases "takes_effect J now a e db")
    case True
    then have "tables_current J (es @ [e]) (snd (Write J now a e db))"
      using tables_current_apply [OF 2(2)] by (simp add: Write_effect takes_effect_def)
    from 2(1) [OF this] show ?thesis using True by simp
  next
    case False
    then show ?thesis using 2(1) [of es] 2(2) by (simp add: Write_effect)
  qed
qed simp

lemma stored_append: "stored J (ws @ vs) db = stored J ws db @ stored J vs (writes J ws db)"
  by (induction J ws db rule: stored.induct) auto

lemma writes_append: "writes J (ws @ vs) db = writes J vs (writes J ws db)"
  by (induction J ws db rule: writes.induct) auto

lemma stored_subset: "set (stored J ws db) \<subseteq> (\<lambda>(t, a, e). e) ` set ws"
  by (induction J ws db rule: stored.induct) auto

lemma stored_once:
  "tables_current J es db \<Longrightarrow> distinct (map evID (filter (\<lambda>e. \<not> evExpired e) es)) \<Longrightarrow>
     distinct (map evID (filter (\<lambda>e. \<not> evExpired e) (es @ stored J ws db)))"
proof (induction J ws db arbitrary: es rule: stored.induct)
  case (2 J now a e ws db)
  show ?case
  proof (cases "takes_effect J now a e db")
    case True
    then have "tables_current J (es @ [e]) (snd (Write J now a e db))"
      using tables_current_apply [OF 2(2)] by (simp add: Write_effect takes_effect_def)
    moreover have "distinct (map evID (filter (\<lambda>e. \<not> evExpired e) (es @ [e])))"
      using 2(2,3) True by (auto simp: takes_effect_def tables_current_def)
    ultimately show ?thesis using 2(1) [of "es @ [e]"] True by simp
  next
    case False
    then show ?thesis using 2(1) [of es] 2(2,3) by (simp add: Write_effect)
  qed
qed simp

text \<open>
  C15.  The tables converge.  However often events are delivered, in whatever order and with whatever failures, uncertain commits
  included: each row of a broadcast or an input holds the columns of the version with the highest revision among the stored
  events, and says that something is missing if a stored version did; the table of events holds each stored event once and as
  it was; and an event reported as written was stored.
\<close>

theorem store_converges:
  assumes "\<forall>(t, a, e) \<in> set ws. \<forall>(t', a', e') \<in> set ws. evID e = evID e' \<longrightarrow> e = e'"
  shows "tables_current J (stored J ws empty_db) (writes J ws empty_db) \<and>
    distinct (map evID (filter (\<lambda>e. \<not> evExpired e) (stored J ws empty_db))) \<and>
    (\<forall>pre t a e post. ws = pre @ (t, a, e) # post \<and> fst (Write J t a e (writes J pre empty_db)) \<longrightarrow> e \<in> set (stored J ws empty_db))"
proof (intro conjI allI impI)
  show "tables_current J (stored J ws empty_db) (writes J ws empty_db)" using writes_current [OF tables_current_empty] by simp
  show "distinct (map evID (filter (\<lambda>e. \<not> evExpired e) (stored J ws empty_db)))"
    using stored_once [OF tables_current_empty] by simp
next
  fix pre t a e post
  assume ok: "ws = pre @ (t, a, e) # post \<and> fst (Write J t a e (writes J pre empty_db))"
  let ?db = "writes J pre empty_db"
  have cur: "tables_current J (stored J pre empty_db) ?db" using writes_current [OF tables_current_empty] by simp
  show "e \<in> set (stored J ws empty_db)"
  proof (cases "takes_effect J t a e ?db")
    case True
    then show ?thesis using ok by (simp add: stored_append)
  next
    case False
    then have "dbEvents ?db (evID e) \<noteq> None" using Write_ok ok by blast
    then obtain e' where e': "e' \<in> set (stored J pre empty_db)" "evID e' = evID e"
      using cur [unfolded tables_current_def] by blast
    then obtain t' a' where "(t', a', e') \<in> set pre" using stored_subset [of J pre empty_db] by auto
    then have "e' = e" using assms ok e'(2) by fastforce
    then show ?thesis using e'(1) ok by (simp add: stored_append)
  qed
qed

definition demo_broadcast_row :: Broadcast where
  "demo_broadcast_row =
     \<lparr>bNode = [], bBoot = [], bID = ''b1'', bChannelID = ''c1'', bOwner = ''bob'', bOwnerName = [], bActor = Actor_of ''site'',
      bSettings = \<lparr>stName = ''Chess'', stInputGenre = None, stGenre = ''game'', stDescription = [], stComment = [], stContactURL = [],
        stBitrate = 500, stContentType = ''FLV''\<rparr>,
      bCreated = 1, bFirstMedia = None, bLastMedia = None, bEnded = None, bInterrupted = None, bStatus = ''waiting'', bReason = [],
      bIncomplete = False, bRevision = 1\<rparr>"

definition demo_write :: "string \<Rightarrow> string \<Rightarrow> Broadcast \<Rightarrow> Event" where
  "demo_write i kind b =
     Event0\<lparr>evID := i, evNode := ''n1'', evBoot := ''o1'', evSeq := 1, evAt := 1, evType := kind, evPayload := Payload0\<lparr>plBroadcast := Some b\<rparr>\<rparr>"

definition demo_answer :: "commit_answer \<Rightarrow> sql_answers" where
  "demo_answer c = \<lparr>saFail = (\<lambda>_. False), saCommit = c\<rparr>"

definition demo_ended :: Event where
  "demo_ended = demo_write ''e2'' ''broadcast.end'' (demo_broadcast_row\<lparr>bRevision := 2, bStatus := ''ended''\<rparr>)"

definition demo_created :: Event where
  "demo_created = demo_write ''e1'' ''broadcast.create'' demo_broadcast_row"

definition demo_deliveries :: "delivery list" where
  "demo_deliveries =
     [(1, demo_answer CommitLost, demo_created), (2, demo_answer CommitUnknown, demo_ended), (3, demo_answer CommitOk, demo_ended),
      (4, demo_answer CommitOk, demo_created)]"

lemma demo_stored: "stored (\<lambda>_. []) demo_deliveries empty_db = [demo_ended, demo_created]"
  by (simp add: demo_deliveries_def demo_answer_def demo_created_def demo_ended_def demo_write_def takes_effect_def write_body_def
      Write_effect empty_db_def apply_event_def put_other put_event_def Let_def Event0_def)

lemma store_converges_witness:
  "\<exists>r. dbBroadcasts (writes (\<lambda>_. []) demo_deliveries empty_db) ''b1'' = Some r \<and> r ''status'' = Some (SText ''ended'')"
proof -
  have "\<forall>(t, a, e) \<in> set demo_deliveries. \<forall>(t', a', e') \<in> set demo_deliveries. evID e = evID e' \<longrightarrow> e = e'"
    by (simp add: demo_deliveries_def demo_created_def demo_ended_def demo_write_def)
  from store_converges [OF this, of "\<lambda>_. []"]
  have cur: "current broadcast_cols (List.map_filter (broadcast_version ''b1'') [demo_ended, demo_created])
      (dbBroadcasts (writes (\<lambda>_. []) demo_deliveries empty_db) ''b1'')"
    by (simp add: demo_stored tables_current_def)
  have vs: "List.map_filter (broadcast_version ''b1'') [demo_ended, demo_created] =
      [(broadcast_row demo_ended (demo_broadcast_row\<lparr>bRevision := 2, bStatus := ''ended''\<rparr>), 2, False),
       (broadcast_row demo_created demo_broadcast_row, 1, False)]"
    by (simp add: map_filter_simps broadcast_version_def demo_ended_def demo_created_def demo_write_def demo_broadcast_row_def)
  have "broadcast_row demo_ended (demo_broadcast_row\<lparr>bRevision := 2, bStatus := ''ended''\<rparr>) ''status'' = Some (SText ''ended'')"
    "''status'' \<in> set broadcast_cols - {''incomplete''}"
    by (simp_all add: broadcast_row_def broadcast_cols_def broadcast_vals_def Let_def)
  then show ?thesis using cur unfolding vs current_def by (auto split: option.splits)
qed

section \<open>Recovery\<close>

lemma current_row:
  assumes "current cols vs (Some row)" "versioned cols k vs" "good_cols cols"
  obtains s n x where "(s, n, x) \<in> set vs" "\<forall>(s', n', x') \<in> set vs. n' \<le> n" "\<forall>c \<in> set cols - {''incomplete''}. row c = s c"
    "row ''revision'' = Some (SInt (int n))" "row (hd cols) = Some (SText k)"
proof -
  obtain s n x where v: "(s, n, x) \<in> set vs" "\<forall>(s', n', x') \<in> set vs. n' \<le> n" "\<forall>c \<in> set cols - {''incomplete''}. row c = s c"
    using assms(1) by (auto simp: current_def)
  moreover have "s ''revision'' = Some (SInt (int n))" "s (hd cols) = Some (SText k)" using v(1) assms(2) by (auto simp: versioned_def)
  moreover have "''revision'' \<in> set cols - {''incomplete''}" "hd cols \<in> set cols - {''incomplete''}"
    using assms(3) by (auto simp: good_cols_def)
  ultimately show thesis using that by metis
qed

lemma row_key:
  assumes "tables_current J es db" "dbBroadcasts db i = Some r"
  obtains n where "col_text r ''broadcast_id'' = i" "r ''revision'' = Some (SInt (int n))"
    "\<forall>(s', n', x') \<in> set (List.map_filter (broadcast_version i) es). n' \<le> n"
proof -
  have "current broadcast_cols (List.map_filter (broadcast_version i) es) (Some r)" using assms by (metis tables_current_def)
  from current_row [OF this versioned_broadcasts good_cols(1)]
  obtain s n x where "\<forall>(s', n', x') \<in> set (List.map_filter (broadcast_version i) es). n' \<le> n"
    "r ''revision'' = Some (SInt (int n))" "r (hd broadcast_cols) = Some (SText i)" by metis
  then show thesis using that by (simp add: broadcast_row_simps(6) col_text_def)
qed

lemma in_map_filter: "v \<in> set (List.map_filter f xs) \<longleftrightarrow> (\<exists>x \<in> set xs. f x = Some v)"
  by (force simp: map_filter_def)

lemma list_all2_members:
  "list_all2 P xs ys \<Longrightarrow> y \<in> set ys \<Longrightarrow> \<exists>x \<in> set xs. P x y"
  "list_all2 P xs ys \<Longrightarrow> x \<in> set xs \<Longrightarrow> \<exists>y \<in> set ys. P x y"
  by (induction rule: list_all2_induct) auto

lemma in_rows_where: "r \<in> set (rows_where order P t) \<longleftrightarrow> (\<exists>k \<in> set order. t k = Some r \<and> P r)"
  by (force simp: rows_where_def map_filter_def)

text \<open>What the events of a recovery say of broadcasts.\<close>

lemma interrupted_simps:
  "evType (broadcast_interrupted now b) = ''broadcast.interrupted''" "evType (input_interrupted now b v) = ''input.end''"
  "plBroadcast (evPayload (input_interrupted now b v)) = None"
  "plBroadcast (evPayload (broadcast_interrupted now b)) =
     Some (b\<lparr>bRevision := bRevision b + 1, bStatus := ''interrupted'', bIncomplete := True, bInterrupted := Some now,
       bReason := ''process_interrupted''\<rparr>)"
  by (simp_all add: broadcast_interrupted_def input_interrupted_def system_event_def Let_def Payload0_def)

lemma recovered_cases:
  assumes "Recover border iorder node boot now fails ifails db = Some evs" "e \<in> set evs"
  shows "\<exists>r \<in> set (take 50 (rows_where border (left_open node boot) (dbBroadcasts db))).
    e = broadcast_interrupted now (scan_broadcast r) \<or> (\<exists>v. e = input_interrupted now (scan_broadcast r) v)"
proof -
  have "evs = concat (map (\<lambda>b. map (input_interrupted now b \<circ> scan_input b)
      (rows_where iorder (open_input_of (bID b)) (dbInputs db)) @ [broadcast_interrupted now b])
      (map scan_broadcast (take 50 (rows_where border (left_open node boot) (dbBroadcasts db)))))"
    using assms(1) by (simp add: Recover_def Let_def split: if_splits)
  then show ?thesis using assms(2) by fastforce
qed

lemma scan_fields: "bID (scan_broadcast r) = col_text r ''broadcast_id''" "bRevision (scan_broadcast r) = nat (col_int r ''revision'')"
  by (simp_all add: scan_broadcast_def)

lemma recovered:
  assumes "Recover border iorder node boot now fails ifails db = Some evs" "e \<in> set evs"
  shows "evType e \<noteq> ''audit.gap''" "plBroadcast (evPayload e) = Some b \<Longrightarrow>
    \<exists>r \<in> set (take 50 (rows_where border (left_open node boot) (dbBroadcasts db))). bID b = col_text r ''broadcast_id'' \<and>
       bRevision b = nat (col_int r ''revision'') + 1 \<and> bStatus b = ''interrupted'' \<and> bInterrupted b = Some now"
  using recovered_cases [OF assms] by (fastforce simp: interrupted_simps scan_fields)+

lemma recovers_all:
  assumes "Recover border iorder node boot now fails ifails db = Some evs"
    "r \<in> set (take 50 (rows_where border (left_open node boot) (dbBroadcasts db)))"
  shows "\<exists>e \<in> set evs. \<exists>b. plBroadcast (evPayload e) = Some b \<and> bID b = col_text r ''broadcast_id''"
proof
  show "broadcast_interrupted now (scan_broadcast r) \<in> set evs"
    using assms by (auto simp: Recover_def Let_def split: if_splits)
  show "\<exists>b. plBroadcast (evPayload (broadcast_interrupted now (scan_broadcast r))) = Some b \<and> bID b = col_text r ''broadcast_id''"
    by (simp add: interrupted_simps scan_broadcast_def)
qed

lemma writes_other:
  "\<forall>(t, a, e) \<in> set ws. broadcast_version i e = None \<and> evType e \<noteq> ''audit.gap'' \<Longrightarrow>
     dbBroadcasts (writes J ws db) i = dbBroadcasts db i"
proof (induction J ws db rule: writes.induct)
  case (2 J now a e ws db)
  have "dbBroadcasts (put_broadcast now e db) i = dbBroadcasts db i" for db
  proof (cases "plBroadcast (evPayload e)")
    case (Some b0)
    define b where "b = (if evType e \<noteq> ''broadcast.create'' \<and> dbBroadcasts db (bID b0) = None then b0\<lparr>bIncomplete := True\<rparr> else b0)"
    obtain vs' where "broadcast_vals e b = SText (bID b) # vs'" using broadcast_row_simps(2) by blast
    moreover have "i \<noteq> bID b" using 2(2) Some by (auto simp: broadcast_version_def b_def)
    ultimately show ?thesis using Some by (simp add: put_broadcast_def b_def [symmetric] upsert_other)
  qed (simp add: put_broadcast_def)
  then have "dbBroadcasts (snd (Write J now a e db)) i = dbBroadcasts db i"
    using 2(2) by (simp add: Write_effect apply_event_def put_gap_def put_other)
  then show ?case using 2 by simp
qed simp

text \<open>
  C23.  A crash is settled at the next start.  The broadcasts that earlier starts of this node left open are found, at most
  fifty at a time; when the events made of them are stored, each of these is marked as interrupted now and no other broadcast is
  changed; with at most fifty of them none is left open.
\<close>

theorem recover_settles:
  assumes "db = writes J ws0 empty_db" "Recover border iorder node boot now fails ifails db = Some evs"
    and "list_all2 (\<lambda>e (t, a, e'). evType e' = evType e \<and> evPayload e' = evPayload e) evs ws"
    and "stored J ws db = map (\<lambda>(t, a, e). e) ws"
    and "ids = map (\<lambda>r. col_text r ''broadcast_id'') (take 50 (rows_where border (left_open node boot) (dbBroadcasts db)))"
  shows "(\<forall>i \<in> set ids. \<exists>r. dbBroadcasts (writes J ws db) i = Some r \<and> r ''status'' = Some (SText ''interrupted'') \<and>
            r ''interruption_detected_at'' = Some (STime now)) \<and>
    (\<forall>i. i \<notin> set ids \<longrightarrow> dbBroadcasts (writes J ws db) i = dbBroadcasts db i) \<and>
    (dom (dbBroadcasts db) \<subseteq> set border \<and> length (rows_where border (left_open node boot) (dbBroadcasts db)) \<le> 50 \<longrightarrow>
       (\<forall>i r. dbBroadcasts (writes J ws db) i = Some r \<longrightarrow> \<not> left_open node boot r))"
proof -
  let ?open = "take 50 (rows_where border (left_open node boot) (dbBroadcasts db))"
  let ?db = "writes J ws db" and ?es = "map (\<lambda>(t, a, e). e) ws"
  have cur: "tables_current J (stored J ws0 empty_db) db" using writes_current [OF tables_current_empty] assms(1) by simp
  from writes_current [OF this, of ws] have cur': "tables_current J (stored J ws0 empty_db @ ?es) ?db" by (simp only: assms(4))
  have said: "evType e' \<noteq> ''audit.gap''" "plBroadcast (evPayload e') = Some b \<Longrightarrow>
      \<exists>r \<in> set ?open. bID b = col_text r ''broadcast_id'' \<and> bRevision b = nat (col_int r ''revision'') + 1 \<and>
        bStatus b = ''interrupted'' \<and> bInterrupted b = Some now" if e': "e' \<in> set ?es" for e' b
  proof -
    obtain t a where "(t, a, e') \<in> set ws" using e' by auto
    then obtain e where "e \<in> set evs" "evType e' = evType e" "evPayload e' = evPayload e"
      using list_all2_members(1) [OF assms(3)] by fastforce
    then show "evType e' \<noteq> ''audit.gap''" "plBroadcast (evPayload e') = Some b \<Longrightarrow>
      \<exists>r \<in> set ?open. bID b = col_text r ''broadcast_id'' \<and> bRevision b = nat (col_int r ''revision'') + 1 \<and>
        bStatus b = ''interrupted'' \<and> bInterrupted b = Some now"
      using recovered [OF assms(2)] by metis+
  qed
  have keep: "dbBroadcasts ?db i = dbBroadcasts db i" if i: "i \<notin> set ids" for i
  proof (rule writes_other, clarify)
    fix t a e assume "(t, a, e) \<in> set ws"
    then have e: "e \<in> set ?es" by force
    have "bID b \<noteq> i" if b: "plBroadcast (evPayload e) = Some b" for b
    proof
      assume "bID b = i"
      then have "i \<in> set ids" using said(2) [OF e b] assms(5) by auto
      then show False using i by simp
    qed
    then show "broadcast_version i e = None \<and> evType e \<noteq> ''audit.gap''"
      using said(1) [OF e] by (auto simp: broadcast_version_def split: option.splits)
  qed
  have settled: "\<exists>r. dbBroadcasts ?db i = Some r \<and> r ''status'' = Some (SText ''interrupted'') \<and>
      r ''interruption_detected_at'' = Some (STime now)" if i: "i \<in> set ids" for i
  proof -
    obtain r0 where r0: "r0 \<in> set ?open" "col_text r0 ''broadcast_id'' = i" using i assms(5) by auto
    from r0(1) obtain k where "dbBroadcasts db k = Some r0" using in_rows_where by (metis in_set_takeD)
    moreover from this have "k = i" using row_key [OF cur] r0(2) by metis
    ultimately have at: "dbBroadcasts db i = Some r0" by simp
    obtain n where n: "r0 ''revision'' = Some (SInt (int n))"
      "\<forall>(s', n', x') \<in> set (List.map_filter (broadcast_version i) (stored J ws0 empty_db)). n' \<le> n"
      using row_key [OF cur at] by metis
    have us: "n' = n + 1 \<and> s' ''status'' = Some (SText ''interrupted'') \<and> s' ''interruption_detected_at'' = Some (STime now)"
      if v: "(s', n', x') \<in> set (List.map_filter (broadcast_version i) ?es)" for s' n' x'
    proof -
      obtain e where "e \<in> set ?es" "broadcast_version i e = Some (s', n', x')" using v by (auto simp only: in_map_filter)
      then obtain b where e: "e \<in> set ?es" "plBroadcast (evPayload e) = Some b" "bID b = i" "s' = broadcast_row e b" "n' = bRevision b"
        by (auto simp: broadcast_version_def split: option.splits if_splits)
      obtain r where r: "r \<in> set ?open" "i = col_text r ''broadcast_id''" "bRevision b = nat (col_int r ''revision'') + 1"
        "bStatus b = ''interrupted''" "bInterrupted b = Some now" using said(2) [OF e(1,2)] e(3) by auto
      from r(1) obtain k where "dbBroadcasts db k = Some r" using in_rows_where by (metis in_set_takeD)
      moreover from this have "k = i" using row_key [OF cur] r(2) by metis
      ultimately have "r = r0" using at by simp
      then show ?thesis using e(4,5) r(3-5) n(1)
        by (simp add: col_int_def broadcast_row_def broadcast_cols_def broadcast_vals_def Let_def null_time_def)
    qed
    obtain e b where e: "e \<in> set evs" "plBroadcast (evPayload e) = Some b" "bID b = i"
      using recovers_all [OF assms(2) r0(1)] r0(2) by auto
    then obtain t a e' where "(t, a, e') \<in> set ws" "evPayload e' = evPayload e"
      using list_all2_members(2) [OF assms(3) e(1)] by fastforce
    then have "e' \<in> set ?es" "broadcast_version i e' \<noteq> None" using e by (force simp: broadcast_version_def)+
    then obtain v where v: "v \<in> set (List.map_filter (broadcast_version i) ?es)" using in_map_filter by fast
    let ?vs = "List.map_filter (broadcast_version i) (stored J ws0 empty_db @ ?es)"
    have vs: "set ?vs = set (List.map_filter (broadcast_version i) (stored J ws0 empty_db)) \<union> set (List.map_filter (broadcast_version i) ?es)"
      by (auto simp: map_filter_def)
    have cvs: "current broadcast_cols ?vs (dbBroadcasts ?db i)" using cur' by (simp add: tables_current_def)
    then obtain r where r: "dbBroadcasts ?db i = Some r" using v vs by (cases "dbBroadcasts ?db i") (auto simp: current_def)
    obtain s m x where m: "(s, m, x) \<in> set ?vs" "\<forall>(s', n', x') \<in> set ?vs. n' \<le> m" "\<forall>c \<in> set broadcast_cols - {''incomplete''}. r c = s c"
      by (rule current_row [OF cvs [unfolded r] versioned_broadcasts good_cols(1)]) (rule that; assumption)
    obtain s1 n1 x1 where v1: "v = (s1, n1, x1)" by (rule prod_cases3)
    have "n1 = n + 1" using us v unfolding v1 by blast
    moreover have "n1 \<le> m" using m(2) v unfolding vs v1 by blast
    ultimately have "\<not> m \<le> n" by simp
    then have "(s, m, x) \<in> set (List.map_filter (broadcast_version i) ?es)" using m(1) n(2) unfolding vs by blast
    note us [OF this]
    moreover have "''status'' \<in> set broadcast_cols - {''incomplete''}" "''interruption_detected_at'' \<in> set broadcast_cols - {''incomplete''}"
      by (simp_all add: broadcast_cols_def)
    ultimately show ?thesis using r m(3) by simp
  qed
  have "\<not> left_open node boot r" if d: "dom (dbBroadcasts db) \<subseteq> set border"
    "length (rows_where border (left_open node boot) (dbBroadcasts db)) \<le> 50" and r: "dbBroadcasts ?db i = Some r" for i r
  proof (cases "i \<in> set ids")
    case True
    then show ?thesis using settled [OF True] r by (auto simp: left_open_def)
  next
    case False
    then have at: "dbBroadcasts db i = Some r" using keep r by simp
    show ?thesis
    proof
      assume "left_open node boot r"
      then have "r \<in> set (rows_where border (left_open node boot) (dbBroadcasts db))" using at d(1) by (auto simp: in_rows_where)
      moreover have "col_text r ''broadcast_id'' = i" using row_key [OF cur at] by metis
      ultimately show False using False d(2) assms(5) by auto
    qed
  qed
  then show ?thesis using settled keep by blast
qed

definition demo_store :: audit_db where
  "demo_store = writes (\<lambda>_. []) [(1, demo_answer CommitOk, demo_created)] empty_db"

lemma demo_store_row:
  "dbBroadcasts demo_store = [''b1'' \<mapsto> (broadcast_row demo_created demo_broadcast_row)(''updated_at'' \<mapsto> STime 1)]"
  "dbEvents demo_store i \<noteq> None \<longleftrightarrow> i = ''e1''"
  by (simp_all add: demo_store_def Write_effect takes_effect_def demo_answer_def demo_created_def demo_write_def empty_db_def
      write_body_def apply_event_def put_gap_def put_other put_broadcast_def put_event_def upsert_def Let_def broadcast_row_def
      broadcast_vals_def demo_broadcast_row_def Event0_def)

lemma recover_settles_witness:
  "\<exists>evs ws r. Recover [''b1''] [] ''n1'' ''o2'' 9 False (\<lambda>_. False) demo_store = Some evs \<and> length evs = 1 \<and>
     dbBroadcasts (writes (\<lambda>_. []) ws demo_store) ''b1'' = Some r \<and> r ''status'' = Some (SText ''interrupted'')"
proof -
  define r :: row where "r = (broadcast_row demo_created demo_broadcast_row)(''updated_at'' \<mapsto> STime 1)"
  have cols: "r ''node_id'' = Some (SText ''n1'')" "r ''boot_id'' = Some (SText ''o1'')" "r ''status'' = Some (SText ''waiting'')"
    "r ''broadcast_id'' = Some (SText ''b1'')"
    by (simp_all add: r_def broadcast_row_def broadcast_cols_def broadcast_vals_def Let_def demo_created_def demo_write_def demo_broadcast_row_def)
  have at: "dbBroadcasts demo_store ''b1'' = Some r" by (simp add: demo_store_row r_def)
  have rows: "rows_where [''b1''] (left_open ''n1'' ''o2'') (dbBroadcasts demo_store) = [r]"
    using cols by (simp add: rows_where_def map_filter_simps at left_open_def)
  let ?e = "broadcast_interrupted 9 (scan_broadcast r)"
  have rec: "Recover [''b1''] [] ''n1'' ''o2'' 9 False (\<lambda>_. False) demo_store = Some [?e]"
    by (simp add: Recover_def Let_def rows) (simp add: rows_where_def map_filter_simps)
  let ?ws = "[(10, demo_answer CommitOk, ?e\<lparr>evID := ''e9''\<rparr>)]"
  have st: "stored (\<lambda>_. []) ?ws demo_store = map (\<lambda>(t, a, e). e) ?ws"
    using demo_store_row(2) [of "''e9''"]
    by (simp add: takes_effect_def demo_answer_def write_body_def broadcast_interrupted_def system_event_def Let_def Event0_def)
  have "list_all2 (\<lambda>e (t, a, e'). evType e' = evType e \<and> evPayload e' = evPayload e) [?e] ?ws" by simp
  from recover_settles [OF demo_store_def rec this st refl]
  have "\<exists>r. dbBroadcasts (writes (\<lambda>_. []) ?ws demo_store) ''b1'' = Some r \<and> r ''status'' = Some (SText ''interrupted'')"
    using cols(4) by (auto simp: rows col_text_def)
  then show ?thesis using rec by (intro exI [of _ "[?e]"] exI [of _ ?ws]) auto
qed

end
