(* ===== verification/Audit_Query.thy ===== *)
theory Audit_Query
  imports Audit_Store Site_Client "HOL-Library.List_Lexorder" "HOL-Library.Char_ord" "HOL-Library.Product_Lexorder"
begin

text \<open>
  \<^verbatim>\<open>internal/audit/query.go\<close>: the checked filter of a search and the pages of its result.

  A query is given by the conditions the code puts into its \<^verbatim>\<open>WHERE\<close> clause, evaluated on rows; the sort by time and
  identifier and the limit are list functions.  The parser of times and the coding of cursors are arguments.
\<close>

section \<open>Filters\<close>

record position =
  psKind :: string
  psAt :: time
  psID :: string

text \<open>A zero time is \<open>None\<close>.\<close>

record Filter =
  flFrom :: "time option"
  flUntil :: "time option"
  flActor :: string
  flOwner :: string
  flType :: string
  flOutcome :: string
  flStatus :: string
  flIP :: string
  flBroadcastID :: string
  flChannelID :: string
  flLimit :: int
  flBefore :: "position option"

definition Filter0 :: Filter where
  "Filter0 =
     \<lparr>flFrom = None, flUntil = None, flActor = [], flOwner = [], flType = [], flOutcome = [], flStatus = [], flIP = [],
      flBroadcastID = [], flChannelID = [], flLimit = 50, flBefore = None\<rparr>"

definition HexID :: "string \<Rightarrow> bool" where
  "HexID s \<longleftrightarrow> length s = 32 \<and> DecodeString s \<noteq> None"

datatype filter_error =
  BadKind | BadCondition | BadLimit | BadTime | BadRange | AccountTooLong | ConditionTooLong | BadID | BadIP | BadIPRange | BadCursor

text \<open>The parameters an endpoint knows.\<close>

definition allowed_keys :: "string \<Rightarrow> string list option" where
  "allowed_keys kind =
     (if kind = ''events''
      then Some [''limit'', ''cursor'', ''from'', ''until'', ''actor'', ''owner'', ''type'', ''outcome'', ''ip'', ''broadcastId'', ''channelId'']
      else if kind = ''broadcasts'' then Some [''limit'', ''cursor'', ''from'', ''until'', ''owner'', ''status'', ''channelId'']
      else if HasPrefix kind ''inputs:'' \<and> HexID (TrimPrefix kind ''inputs:'') then Some [''limit'', ''cursor'']
      else None)"

text \<open>\<open>values\<close> are the parameters of a request; \<^verbatim>\<open>Get\<close> returns the first value or the empty string.\<close>

definition values_get :: "(string \<times> string list) list \<Rightarrow> string \<Rightarrow> string" where
  "values_get vs k = (case map_of vs k of Some (v # _) \<Rightarrow> v | _ \<Rightarrow> [])"

text \<open>\<open>TP\<close> parses a time and gives it with its year; the empty string is no bound.\<close>

definition parse_bound :: "(string \<Rightarrow> (time \<times> int) option) \<Rightarrow> string \<Rightarrow> time option option" where
  "parse_bound TP v =
     (if v = [] then Some None
      else case TP v of
        None \<Rightarrow> None
      | Some (t, year) \<Rightarrow> if year < 1000 \<or> year > 9999 then None else Some (Some t))"

definition day :: int where "day = 24 * 60 * 60 * second"

text \<open>\<open>CD\<close> decodes a cursor to its position and the year of its time, a zero time gives year one.\<close>

definition parse_cursor :: "(string \<Rightarrow> (position \<times> int) option) \<Rightarrow> string \<Rightarrow> string \<Rightarrow> position option option" where
  "parse_cursor CD kind token =
     (if token = [] then Some None
      else case CD token of
        None \<Rightarrow> None
      | Some (p, year) \<Rightarrow> if psKind p \<noteq> kind \<or> \<not> HexID (psID p) \<or> year < 1000 \<or> year > 9999 then None else Some (Some p))"

definition parse_limit :: "string \<Rightarrow> int option" where
  "parse_limit v =
     (if v = [] then Some 50
      else case Atoi v of None \<Rightarrow> None | Some n \<Rightarrow> if n < 1 \<or> n > 100 then None else Some n)"

definition parse_ip :: "string \<Rightarrow> string option" where
  "parse_ip v = (case netip_ParseAddr v of None \<Rightarrow> None | Some a \<Rightarrow> if snd a \<noteq> [] then None else Some (netip_String (Unmap a)))"

definition parse_conditions :: "(string \<Rightarrow> (time \<times> int) option) \<Rightarrow> string \<Rightarrow> (string \<times> string list) list \<Rightarrow> filter_error + Filter" where
  "parse_conditions TP kind vs =
     (let get = values_get vs in
      case allowed_keys kind of
        None \<Rightarrow> Inl BadKind
      | Some allowed \<Rightarrow>
          if list_ex (\<lambda>(k, v). k \<notin> set allowed \<or> length v \<noteq> 1 \<or> length (hd v) > 1024) vs then Inl BadCondition
          else case parse_limit (get ''limit'') of None \<Rightarrow> Inl BadLimit | Some limit \<Rightarrow>
          (case (parse_bound TP (get ''from''), parse_bound TP (get ''until'')) of
            (Some from', Some until) \<Rightarrow>
              if from' \<noteq> None \<and> until \<noteq> None \<and> \<not> the from' < the until then Inl BadRange
              else if length (get ''actor'') > 255 \<or> length (get ''owner'') > 255 then Inl AccountTooLong
              else if length (get ''type'') > 48 \<or> length (get ''outcome'') > 16 \<or> length (get ''status'') > 16 then Inl ConditionTooLong
              else
                let bid = ToLower (get ''broadcastId''); cid = ToLower (get ''channelId'');
                    f = \<lparr>flFrom = from', flUntil = until, flActor = get ''actor'', flOwner = get ''owner'', flType = get ''type'',
                      flOutcome = get ''outcome'', flStatus = get ''status'', flIP = [], flBroadcastID = bid, flChannelID = cid,
                      flLimit = limit, flBefore = None\<rparr>
                in if bid \<noteq> [] \<and> \<not> HexID bid \<or> cid \<noteq> [] \<and> \<not> HexID cid then Inl BadID
                   else if get ''ip'' = [] then Inr f
                   else case parse_ip (get ''ip'') of
                     None \<Rightarrow> Inl BadIP
                   | Some p \<Rightarrow> if from' = None \<or> until = None \<or> the until - the from' > 31 * day then Inl BadIPRange else Inr (f\<lparr>flIP := p\<rparr>)
          | _ \<Rightarrow> Inl BadTime))"

definition ParseFilter ::
  "(string \<Rightarrow> (time \<times> int) option) \<Rightarrow> (string \<Rightarrow> (position \<times> int) option) \<Rightarrow> string \<Rightarrow> (string \<times> string list) list \<Rightarrow>
     filter_error + Filter" where
  "ParseFilter TP CD kind vs =
     (case parse_conditions TP kind vs of
        Inl e \<Rightarrow> Inl e
      | Inr f \<Rightarrow>
          (case parse_cursor CD kind (values_get vs ''cursor'') of None \<Rightarrow> Inl BadCursor | Some b \<Rightarrow> Inr (f\<lparr>flBefore := b\<rparr>)))"

section \<open>Conditions\<close>

text \<open>The conditions of a query; the last one is that of the cursor, by time and identifier.\<close>

datatype clause =
  ClEqual string string
| ClSince string time
| ClUntil string time
| ClBefore string string time string

fun clause_holds :: "row \<Rightarrow> clause \<Rightarrow> bool" where
  "clause_holds r (ClEqual c v) = (r c = Some (SText v))"
| "clause_holds r (ClSince c t) = (case r c of Some (STime x) \<Rightarrow> t \<le> x | _ \<Rightarrow> False)"
| "clause_holds r (ClUntil c t) = (case r c of Some (STime x) \<Rightarrow> x < t | _ \<Rightarrow> False)"
| "clause_holds r (ClBefore c d t i) =
     (case (r c, r d) of (Some (STime x), Some (SText j)) \<Rightarrow> x < t \<or> x = t \<and> j < i | _ \<Rightarrow> False)"

definition equal :: "string \<Rightarrow> string \<Rightarrow> clause list" where
  "equal c v = (if v = [] then [] else [ClEqual c v])"

definition bound_clauses :: "Filter \<Rightarrow> string \<Rightarrow> clause list" where
  "bound_clauses f dc =
     (case flFrom f of None \<Rightarrow> [] | Some t \<Rightarrow> [ClSince dc t]) @ (case flUntil f of None \<Rightarrow> [] | Some t \<Rightarrow> [ClUntil dc t])"

definition tail_clauses :: "Filter \<Rightarrow> string \<Rightarrow> string \<Rightarrow> clause list" where
  "tail_clauses f dc ic =
     bound_clauses f dc @ (case flBefore f of None \<Rightarrow> [] | Some p \<Rightarrow> [ClBefore dc ic (psAt p) (psID p)])"

definition row_key :: "string \<Rightarrow> string \<Rightarrow> row \<Rightarrow> time \<times> string" where
  "row_key dc ic r = (col_time r dc, col_text r ic)"

text \<open>\<^verbatim>\<open>ORDER BY dc DESC, ic DESC LIMIT limit + 1\<close>\<close>

definition select_rows :: "clause list \<Rightarrow> string \<Rightarrow> string \<Rightarrow> row list \<Rightarrow> row list" where
  "select_rows cs dc ic rows = rev (sort_key (row_key dc ic) (filter (\<lambda>r. list_all (clause_holds r) cs) rows))"

definition query_rows :: "clause list \<Rightarrow> string \<Rightarrow> string \<Rightarrow> Filter \<Rightarrow> row list \<Rightarrow> row list" where
  "query_rows cs dc ic f rows = take (nat (flLimit f + 1)) (select_rows (cs @ tail_clauses f dc ic) dc ic rows)"

section \<open>Pages\<close>

definition pageOf :: "string \<Rightarrow> 'x list \<Rightarrow> Filter \<Rightarrow> ('x \<Rightarrow> time \<times> string) \<Rightarrow> 'x list \<times> position option" where
  "pageOf kind items f key =
     (if int (length items) > flLimit f
      then let page = take (nat (flLimit f)) items in
        (page, Some \<lparr>psKind = kind, psAt = fst (key (last page)), psID = snd (key (last page))\<rparr>)
      else (items, None))"

text \<open>\<open>PD\<close> decodes the payload of a row.\<close>

definition scan_event :: "(string \<Rightarrow> Payload option) \<Rightarrow> row \<Rightarrow> (Event \<times> time) option" where
  "scan_event PD r =
     map_option (\<lambda>p.
       (\<lparr>evExpired = False, evID = col_text r ''event_id'', evNode = col_text r ''node_id'', evBoot = col_text r ''boot_id'',
         evSeq = nat (col_int r ''boot_seq''), evAt = col_time r ''occurred_at'', evType = col_text r ''event_type'',
         evActor = \<lparr>acAccount = col_text r ''actor_account'', acName = col_text r ''actor_name'', acIP = col_text r ''client_ip'',
           acSession = col_text r ''session_ref'', acSource = col_text r ''source''\<rparr>,
         evOutcome = col_text r ''outcome'', evOwner = col_text r ''owner_account'', evBroadcastID = col_text r ''broadcast_id'',
         evInputID = col_text r ''input_id'', evConnectionID = col_text r ''connection_id'', evChannelID = col_text r ''channel_id'',
         evReason = col_text r ''reason_code'', evVersion = col_int r ''payload_version'', evPayload = p\<rparr>,
        col_time r ''recorded_at''))
       (PD (col_text r ''payload''))"

definition col_bool :: "row \<Rightarrow> string \<Rightarrow> bool" where
  "col_bool r c = (case r c of Some (SBool b) \<Rightarrow> b | _ \<Rightarrow> False)"

definition scan_listed :: "row \<Rightarrow> Broadcast" where
  "scan_listed r =
     (scan_broadcast r)\<lparr>bEnded := col_opt_time r ''ended_at'', bInterrupted := col_opt_time r ''interruption_detected_at'',
       bStatus := col_text r ''status'', bReason := col_text r ''end_reason'', bIncomplete := col_bool r ''incomplete''\<rparr>"

definition scan_listed_input :: "row \<Rightarrow> Input" where
  "scan_listed_input r =
     \<lparr>inID = col_text r ''input_id'', inBroadcastID = col_text r ''broadcast_id'', inConnectionID = col_text r ''connection_id'',
      inRemoteIP = col_text r ''remote_ip'', inStarted = col_time r ''started_at'', inLastMedia = col_time r ''last_media_at'',
      inEnded = col_opt_time r ''ended_at'', inInterrupted = col_opt_time r ''interruption_detected_at'',
      inReason = col_text r ''end_reason'', inIncomplete = col_bool r ''incomplete'', inRevision = nat (col_int r ''revision'')\<rparr>"

definition event_clauses :: "Filter \<Rightarrow> clause list" where
  "event_clauses f =
     equal ''actor_account'' (flActor f) @ equal ''owner_account'' (flOwner f) @ equal ''event_type'' (flType f) @
     equal ''outcome'' (flOutcome f) @ equal ''client_ip'' (flIP f) @ equal ''broadcast_id'' (flBroadcastID f) @
     equal ''channel_id'' (flChannelID f)"

text \<open>The queries; \<open>rows\<close> are the rows of the table in any order, an error of the database is \<open>ready = False\<close>.\<close>

definition Events ::
  "(string \<Rightarrow> Payload option) \<Rightarrow> bool \<Rightarrow> Filter \<Rightarrow> row list \<Rightarrow> ((Event \<times> time) list \<times> position option) option" where
  "Events PD ready f rows =
     (if flLimit f < 1 \<or> flLimit f > 100 \<or> \<not> ready then None
      else case those (map (scan_event PD) (query_rows (event_clauses f) ''occurred_at'' ''event_id'' f rows)) of
        None \<Rightarrow> None
      | Some out \<Rightarrow> Some (pageOf ''events'' out f (\<lambda>e. (evAt (fst e), evID (fst e)))))"

definition Broadcasts :: "bool \<Rightarrow> Filter \<Rightarrow> row list \<Rightarrow> (Broadcast list \<times> position option) option" where
  "Broadcasts ready f rows =
     (if flLimit f < 1 \<or> flLimit f > 100 \<or> \<not> ready then None
      else Some (pageOf ''broadcasts'' (map scan_listed (query_rows (equal ''owner_account'' (flOwner f) @ equal ''status'' (flStatus f) @
        equal ''channel_id'' (flChannelID f)) ''created_at'' ''broadcast_id'' f rows)) f (\<lambda>b. (bCreated b, bID b))))"

definition Inputs :: "bool \<Rightarrow> string \<Rightarrow> Filter \<Rightarrow> row list \<Rightarrow> (Input list \<times> position option) option" where
  "Inputs ready i f rows =
     (if \<not> HexID i \<or> flLimit f < 1 \<or> flLimit f > 100 \<or> \<not> ready then None
      else Some (pageOf (''inputs:'' @ i) (map scan_listed_input (query_rows (equal ''broadcast_id'' i) ''started_at'' ''input_id'' f rows)) f
        (\<lambda>v. (inStarted v, inID v))))"

section \<open>Following the pages\<close>

text \<open>
  A client that asks for events with the parameters \<open>vs\<close> and then with each cursor it gets, \<open>enc\<close> being the coding of a position;
  \<open>None\<close> when a request fails or the bound on the number of requests is reached.
\<close>

fun follow ::
  "(string \<Rightarrow> (time \<times> int) option) \<Rightarrow> (string \<Rightarrow> (position \<times> int) option) \<Rightarrow> (position \<Rightarrow> string) \<Rightarrow> (string \<Rightarrow> Payload option) \<Rightarrow>
     row list \<Rightarrow> (string \<times> string list) list \<Rightarrow> nat \<Rightarrow> (string \<times> string list) list \<Rightarrow> (Event \<times> time) list option" where
  "follow TP CD enc PD rows vs 0 now = None"
| "follow TP CD enc PD rows vs (Suc n) now =
     (case ParseFilter TP CD ''events'' now of
        Inl _ \<Rightarrow> None
      | Inr f \<Rightarrow>
          (case Events PD True f rows of
             None \<Rightarrow> None
           | Some (items, None) \<Rightarrow> Some items
           | Some (items, Some p) \<Rightarrow> map_option ((@) items) (follow TP CD enc PD rows vs n (vs @ [(''cursor'', [enc p])]))))"

lemma parse_with_cursor:
  assumes p: "ParseFilter TP CD kind vs = Inr f" and c: "''cursor'' \<notin> fst ` set vs"
    and t: "parse_cursor CD kind token = Some (Some p)" "length token \<le> 1024" "token \<noteq> []"
  shows "ParseFilter TP CD kind (vs @ [(''cursor'', [token])]) = Inr (f\<lparr>flBefore := Some p\<rparr>)" "flBefore f = None"
proof -
  let ?vs = "vs @ [(''cursor'', [token])]"
  have none: "map_of vs ''cursor'' = None" using c by (simp add: map_of_eq_None_iff)
  have same: "values_get ?vs k = values_get vs k" if "k \<noteq> ''cursor''" for k
    using that by (simp add: values_get_def map_add_def split: option.splits)
  have cur: "values_get ?vs ''cursor'' = token" "values_get vs ''cursor'' = []"
    using none by (simp_all add: values_get_def map_add_def)
  have "''cursor'' \<in> set allowed" if "allowed_keys kind = Some allowed" for allowed
    using that by (auto simp: allowed_keys_def split: if_splits)
  then have ok: "list_ex (\<lambda>(k, v). k \<notin> set allowed \<or> length v \<noteq> 1 \<or> length (hd v) > 1024) ?vs =
      list_ex (\<lambda>(k, v). k \<notin> set allowed \<or> length v \<noteq> 1 \<or> length (hd v) > 1024) vs" if "allowed_keys kind = Some allowed" for allowed
    using t(2) that by simp
  have conds: "parse_conditions TP kind ?vs = parse_conditions TP kind vs"
  proof (cases "allowed_keys kind")
    case (Some allowed)
    have ks: "values_get ?vs ''limit'' = values_get vs ''limit''" "values_get ?vs ''from'' = values_get vs ''from''"
      "values_get ?vs ''until'' = values_get vs ''until''" "values_get ?vs ''actor'' = values_get vs ''actor''"
      "values_get ?vs ''owner'' = values_get vs ''owner''" "values_get ?vs ''type'' = values_get vs ''type''"
      "values_get ?vs ''outcome'' = values_get vs ''outcome''" "values_get ?vs ''status'' = values_get vs ''status''"
      "values_get ?vs ''ip'' = values_get vs ''ip''" "values_get ?vs ''broadcastId'' = values_get vs ''broadcastId''"
      "values_get ?vs ''channelId'' = values_get vs ''channelId''"
      by (simp_all add: same)
    show ?thesis unfolding parse_conditions_def Let_def Some option.case ok [OF Some] ks ..
  qed (simp add: parse_conditions_def)
  obtain f1 where f1: "parse_conditions TP kind vs = Inr f1" using p by (auto simp: ParseFilter_def split: sum.splits)
  then have "f = f1\<lparr>flBefore := None\<rparr>" using p by (simp add: ParseFilter_def cur parse_cursor_def)
  then show "ParseFilter TP CD kind ?vs = Inr (f\<lparr>flBefore := Some p\<rparr>)" "flBefore f = None"
    using f1 by (simp_all add: ParseFilter_def conds cur t(1))
qed

lemma no_cursor:
  assumes "ParseFilter TP CD kind vs = Inr f" "''cursor'' \<notin> fst ` set vs"
  shows "flBefore f = None"
proof -
  have "map_of vs ''cursor'' = None" using assms(2) by (simp add: map_of_eq_None_iff)
  then have "values_get vs ''cursor'' = []" by (simp add: values_get_def)
  then show ?thesis using assms(1) by (auto simp: ParseFilter_def parse_cursor_def split: sum.splits)
qed

definition pos_of :: "row \<Rightarrow> position" where
  "pos_of r = \<lparr>psKind = ''events'', psAt = col_time r ''occurred_at'', psID = col_text r ''event_id''\<rparr>"

text \<open>The rows a query without a cursor is about, newest first.\<close>

definition event_rows :: "Filter \<Rightarrow> row list \<Rightarrow> row list" where
  "event_rows f rows = select_rows (event_clauses f @ bound_clauses f ''occurred_at'') ''occurred_at'' ''event_id'' rows"

abbreviation event_key :: "row \<Rightarrow> time \<times> string" where
  "event_key \<equiv> row_key ''occurred_at'' ''event_id''"

lemma event_rows_sorted:
  assumes "distinct (map (\<lambda>r. col_text r ''event_id'') rows)"
  shows "sorted_wrt (\<lambda>a b. event_key b < event_key a) (event_rows f rows)"
proof -
  let ?rows = "sort_key event_key (filter (\<lambda>r. list_all (clause_holds r) (event_clauses f @ bound_clauses f ''occurred_at'')) rows)"
  have "distinct (map (\<lambda>r. col_text r ''event_id'') ?rows)"
    using assms by (simp add: distinct_map inj_on_def)
  then have "distinct (map event_key ?rows)" by (auto simp: distinct_map inj_on_def row_key_def)
  then have "sorted_wrt (<) (map event_key ?rows)" by (simp add: strict_sorted_iff)
  then show ?thesis by (simp add: event_rows_def select_rows_def sorted_wrt_rev sorted_wrt_map)
qed

lemma filter_below:
  assumes s: "sorted_wrt (\<lambda>a b. key b < (key a :: 'k :: linorder)) S" and k: "k < length S"
  shows "filter (\<lambda>r. key r < key (S ! k)) S = drop (Suc k) S"
proof -
  have "filter (\<lambda>r. key r < key (S ! k)) (take (Suc k) S) = []"
    using s k by (auto simp: filter_empty_conv in_set_conv_nth sorted_wrt_iff_nth_less not_less_iff_gr_or_eq less_Suc_eq)
  moreover have "filter (\<lambda>r. key r < key (S ! k)) (drop (Suc k) S) = drop (Suc k) S"
    using s k by (auto simp: filter_id_conv in_set_conv_nth sorted_wrt_iff_nth_less)
  ultimately show ?thesis by (metis append_Nil append_take_drop_id filter_append)
qed

lemma select_rows_snoc: "select_rows (cs @ [c]) dc ic rows = filter (\<lambda>r. clause_holds r c) (select_rows cs dc ic rows)"
proof -
  have "filter (\<lambda>r. list_all (clause_holds r) (cs @ [c])) rows =
      filter (\<lambda>r. clause_holds r c) (filter (\<lambda>r. list_all (clause_holds r) cs) rows)"
    by (induction rows) auto
  then show ?thesis by (simp only: select_rows_def filter_sort [symmetric] rev_filter)
qed

lemma query_after:
  assumes typed: "\<forall>r \<in> set rows. \<exists>t i. r ''occurred_at'' = Some (STime t) \<and> r ''event_id'' = Some (SText i)"
    and "distinct (map (\<lambda>r. col_text r ''event_id'') rows)" "flBefore f = None" "k < length (event_rows f rows)"
  shows "query_rows (event_clauses f) ''occurred_at'' ''event_id'' (f\<lparr>flBefore := Some (pos_of (event_rows f rows ! k))\<rparr>) rows =
    take (nat (flLimit f + 1)) (drop (Suc k) (event_rows f rows))"
proof -
  let ?p = "pos_of (event_rows f rows ! k)" and ?f = "f\<lparr>flBefore := Some (pos_of (event_rows f rows ! k))\<rparr>"
  let ?before = "\<lambda>r. clause_holds r (ClBefore ''occurred_at'' ''event_id'' (psAt ?p) (psID ?p))"
  have c: "event_clauses ?f = event_clauses f" "bound_clauses ?f ''occurred_at'' = bound_clauses f ''occurred_at''" "flLimit ?f = flLimit f"
    by (simp_all add: event_clauses_def bound_clauses_def)
  have "tail_clauses ?f ''occurred_at'' ''event_id'' =
      bound_clauses f ''occurred_at'' @ [ClBefore ''occurred_at'' ''event_id'' (psAt ?p) (psID ?p)]"
    by (simp only: tail_clauses_def c) simp
  then have "select_rows (event_clauses f @ tail_clauses ?f ''occurred_at'' ''event_id'') ''occurred_at'' ''event_id'' rows =
      filter ?before (event_rows f rows)"
    using select_rows_snoc [of "event_clauses f @ bound_clauses f ''occurred_at''"] by (simp only: append_assoc event_rows_def)
  also have "\<dots> = filter (\<lambda>r. event_key r < event_key (event_rows f rows ! k)) (event_rows f rows)"
  proof (rule filter_cong [OF refl])
    fix r assume "r \<in> set (event_rows f rows)"
    then have "r \<in> set rows" by (auto simp: event_rows_def select_rows_def)
    then obtain t i where "r ''occurred_at'' = Some (STime t)" "r ''event_id'' = Some (SText i)" using typed by blast
    then show "?before r = (event_key r < event_key (event_rows f rows ! k))"
      by (auto simp: row_key_def pos_of_def col_time_def col_text_def less_prod_def)
  qed
  also have "\<dots> = drop (Suc k) (event_rows f rows)" by (rule filter_below [OF event_rows_sorted [OF assms(2)] assms(4)])
  finally show ?thesis by (simp only: query_rows_def c)
qed

lemma query_first:
  "flBefore f = None \<Longrightarrow> query_rows (event_clauses f) ''occurred_at'' ''event_id'' f rows = take (nat (flLimit f + 1)) (event_rows f rows)"
  by (simp add: query_rows_def event_rows_def tail_clauses_def)

lemma those_map: "\<forall>x \<in> set xs. f x \<noteq> None \<Longrightarrow> those (map f xs) = Some (map (\<lambda>x. the (f x)) xs)"
  by (induction xs) auto

text \<open>One page from the \<open>k\<close>th row on.\<close>

lemma events_page:
  assumes q: "query_rows (event_clauses f) ''occurred_at'' ''event_id'' f rows = take (nat (flLimit f + 1)) (drop k S)"
    and l: "1 \<le> flLimit f" "flLimit f \<le> 100" and pay: "\<forall>r \<in> set S. PD (col_text r ''payload'') \<noteq> None"
  shows "Events PD True f rows =
    Some (map (\<lambda>r. the (scan_event PD r)) (take (nat (flLimit f)) (drop k S)),
          if int (length S) - int k > flLimit f then Some (pos_of (S ! (k + nat (flLimit f) - 1))) else None)"
proof -
  define n where "n = nat (flLimit f)"
  have n: "1 \<le> n" "flLimit f = int n" "nat (flLimit f + 1) = Suc n" using l(1) by (simp_all add: n_def)
  have ok: "\<forall>r \<in> set (take (Suc n) (drop k S)). scan_event PD r \<noteq> None"
    using pay by (auto simp: scan_event_def dest: in_set_takeD in_set_dropD)
  have key: "(evAt (fst (the (scan_event PD r))), evID (fst (the (scan_event PD r)))) = (psAt (pos_of r), psID (pos_of r))"
    if "scan_event PD r \<noteq> None" for r
    using that by (auto simp: scan_event_def pos_of_def)
  have "Events PD True f rows = Some (pageOf ''events'' (map (\<lambda>r. the (scan_event PD r)) (take (Suc n) (drop k S))) f
      (\<lambda>e. (evAt (fst e), evID (fst e))))"
    using l by (simp add: Events_def q n(3) those_map [OF ok])
  also have "\<dots> = Some (map (\<lambda>r. the (scan_event PD r)) (take n (drop k S)),
      if length S - k > n then Some (pos_of (S ! (k + n - 1))) else None)"
  proof (cases "length S - k > n")
    case True
    then have last: "last (take n (drop k S)) = S ! (k + n - 1)" "S ! (k + n - 1) \<in> set (take (Suc n) (drop k S))"
      using n(1) by (auto simp: last_conv_nth in_set_conv_nth intro!: exI [of _ "n - 1"])
    have "last (map (\<lambda>r. the (scan_event PD r)) (take n (drop k S))) = the (scan_event PD (S ! (k + n - 1)))"
      using True n(1) last(1) by (subst last_map) auto
    then show ?thesis using True key [of "S ! (k + n - 1)"] ok last(2)
      by (auto simp: pageOf_def n(2) take_map min_def pos_of_def)
  next
    case False
    then show ?thesis by (simp add: pageOf_def n(2) min_def)
  qed
  finally have "Events PD True f rows = Some (map (\<lambda>r. the (scan_event PD r)) (take n (drop k S)),
      if length S - k > n then Some (pos_of (S ! (k + n - 1))) else None)" .
  moreover have "int (length S) - int k > flLimit f \<longleftrightarrow> length S - k > n" unfolding n(2) by linarith
  ultimately show ?thesis by (simp only: n_def [symmetric])
qed

lemma parse_limit_ok: "parse_limit v = Some n \<Longrightarrow> 1 \<le> n \<and> n \<le> 100"
  by (auto simp: parse_limit_def split: if_splits option.splits)

lemma conditions_limit: "parse_conditions TP kind vs = Inr f \<Longrightarrow> 1 \<le> flLimit f \<and> flLimit f \<le> 100"
  by (auto simp: parse_conditions_def Let_def dest!: parse_limit_ok split: option.splits if_splits)

lemma filter_limit: "ParseFilter TP CD kind vs = Inr f \<Longrightarrow> 1 \<le> flLimit f \<and> flLimit f \<le> 100"
  using conditions_limit [of TP kind vs] by (auto simp: ParseFilter_def split: option.splits sum.splits)

text \<open>
  C17.  A client that follows the cursors gets every event once.  Whatever the filter and the limit of a page, asking again with
  each cursor ends after at most one request more than there are events, and the pages together are the events that satisfy the
  filter, newest first, ties ordered by identifier, none left out and none twice.
\<close>

theorem event_pages_complete:
  assumes "ParseFilter TP CD ''events'' vs = Inr f" "''cursor'' \<notin> fst ` set vs"
    and "distinct (map (\<lambda>r. col_text r ''event_id'') rows)"
    and "\<forall>r \<in> set rows. (\<exists>t i. r ''occurred_at'' = Some (STime t) \<and> r ''event_id'' = Some (SText i)) \<and>
       PD (col_text r ''payload'') \<noteq> None \<and> HexID (col_text r ''event_id'') \<and>
       (\<exists>year. CD (enc (pos_of r)) = Some (pos_of r, year) \<and> 1000 \<le> year \<and> year \<le> 9999) \<and>
       enc (pos_of r) \<noteq> [] \<and> length (enc (pos_of r)) \<le> 1024"
  shows "follow TP CD enc PD rows vs (Suc (length rows)) vs = Some (map (\<lambda>r. the (scan_event PD r)) (event_rows f rows)) \<and>
    sorted_wrt (\<lambda>a b. event_key b < event_key a) (event_rows f rows) \<and>
    set (event_rows f rows) = {r \<in> set rows. list_all (clause_holds r) (event_clauses f @ bound_clauses f ''occurred_at'')}"
proof -
  define S where "S = event_rows f rows"
  define n where "n = nat (flLimit f)"
  have n: "1 \<le> n" "flLimit f = int n" using filter_limit [OF assms(1)] unfolding n_def by linarith+
  have sub: "set S \<subseteq> set rows" by (auto simp: S_def event_rows_def select_rows_def)
  have len: "length S \<le> length rows" by (simp add: S_def event_rows_def select_rows_def)
  have first: "flBefore f = None"
    by (rule no_cursor [OF assms(1,2)])
  have typed: "\<forall>r \<in> set rows. \<exists>t i. r ''occurred_at'' = Some (STime t) \<and> r ''event_id'' = Some (SText i)" using assms(4) by blast
  have pay: "\<forall>r \<in> set S. PD (col_text r ''payload'') \<noteq> None" using assms(4) sub by blast
  have walk: "follow TP CD enc PD rows vs m now = Some (map (\<lambda>r. the (scan_event PD r)) (drop k S))"
    if "length S - k < m" "k \<le> length S" "ParseFilter TP CD ''events'' now = Inr g" "flLimit g = flLimit f"
      "query_rows (event_clauses g) ''occurred_at'' ''event_id'' g rows = take (nat (flLimit g + 1)) (drop k S)" for m now g k
    using that
  proof (induction m arbitrary: now g k)
    case (Suc m)
    have page: "Events PD True g rows = Some (map (\<lambda>r. the (scan_event PD r)) (take n (drop k S)),
        if length S - k > n then Some (pos_of (S ! (k + n - 1))) else None)"
    proof -
      have "1 \<le> flLimit g" "flLimit g \<le> 100" using filter_limit [OF Suc.prems(3)] by simp_all
      note page = events_page [OF Suc.prems(5) this pay]
      have "nat (flLimit g) = n" "int (length S) - int k > flLimit g \<longleftrightarrow> length S - k > n"
        using Suc.prems(2,4) n(2) by linarith+
      with page show ?thesis by (simp only:)
    qed
    show ?case
    proof (cases "length S - k > n")
      case False
      then show ?thesis using Suc.prems(3) page by simp
    next
      case True
      let ?r = "S ! (k + n - 1)"
      let ?tok = "enc (pos_of ?r)"
      have mem: "?r \<in> set rows" using True n(1) sub by (auto intro!: subsetD [OF sub] nth_mem)
      then obtain year where "CD ?tok = Some (pos_of ?r, year)" "1000 \<le> year" "year \<le> 9999" "?tok \<noteq> []" "length ?tok \<le> 1024"
        "HexID (psID (pos_of ?r))" "psKind (pos_of ?r) = ''events''"
        using assms(4) by (auto simp: pos_of_def)
      then have cur: "parse_cursor CD ''events'' ?tok = Some (Some (pos_of ?r))" "length ?tok \<le> 1024" "?tok \<noteq> []"
        by (simp_all add: parse_cursor_def)
      let ?g = "f\<lparr>flBefore := Some (pos_of ?r)\<rparr>"
      have g: "ParseFilter TP CD ''events'' (vs @ [(''cursor'', [?tok])]) = Inr ?g" by (rule parse_with_cursor(1) [OF assms(1,2) cur])
      have "query_rows (event_clauses f) ''occurred_at'' ''event_id'' ?g rows = take (nat (flLimit f + 1)) (drop (k + n) S)"
        using query_after [OF typed assms(3) first, of "k + n - 1"] True n(1) by (simp add: S_def)
      moreover have "event_clauses ?g = event_clauses f" by (simp add: event_clauses_def)
      ultimately have "follow TP CD enc PD rows vs m (vs @ [(''cursor'', [?tok])]) =
          Some (map (\<lambda>r. the (scan_event PD r)) (drop (k + n) S))"
        using Suc.prems(1) True n(1) by (intro Suc.IH [OF _ _ g]) simp_all
      moreover have "drop k S = take n (drop k S) @ drop (k + n) S" by (metis add.commute append_take_drop_id drop_drop)
      ultimately show ?thesis using Suc.prems(3) page True by (simp del: append_take_drop_id) (metis map_append)
    qed
  qed simp
  have "follow TP CD enc PD rows vs (Suc (length rows)) vs = Some (map (\<lambda>r. the (scan_event PD r)) (drop 0 S))"
    by (rule walk [OF _ _ assms(1)]) (use len query_first [OF first] in \<open>simp_all add: S_def\<close>)
  then show ?thesis using event_rows_sorted [OF assms(3)] by (auto simp: S_def) (auto simp: event_rows_def select_rows_def)
qed

definition demo_event_row :: "time \<Rightarrow> char \<Rightarrow> row" where
  "demo_event_row t c = [''occurred_at'' \<mapsto> STime t, ''event_id'' \<mapsto> SText (replicate 32 c), ''payload'' \<mapsto> SText []]"

definition demo_rows :: "row list" where
  "demo_rows = [demo_event_row 1 CHR ''a'', demo_event_row 2 CHR ''b'', demo_event_row 2 CHR ''c'']"

definition demo_decode :: "string \<Rightarrow> (position \<times> int) option" where
  "demo_decode tok = Some (\<lparr>psKind = ''events'', psAt = (if hd tok = CHR ''a'' then 1 else 2), psID = tok\<rparr>, 2026)"

lemma demo_hex: "HexID (replicate 32 c)" if "c \<in> {CHR ''a'', CHR ''b'', CHR ''c''}"
proof -
  have "HexID (replicate 32 CHR ''a'')" "HexID (replicate 32 CHR ''b'')" "HexID (replicate 32 CHR ''c'')" by code_simp+
  then show ?thesis using that by blast
qed

lemma event_pages_complete_witness:
  "\<exists>evs. follow (\<lambda>_. None) demo_decode psID (\<lambda>_. Some Payload0) demo_rows [(''limit'', [''2''])] 4 [(''limit'', [''2''])] = Some evs \<and>
     length evs = 3"
proof -
  let ?vs = "[(''limit'', [''2''])]" and ?PD = "\<lambda>_. Some Payload0"
  have "parse_limit ''2'' = Some 2" by code_simp
  then have f: "ParseFilter (\<lambda>_. None) demo_decode ''events'' ?vs = Inr (Filter0\<lparr>flLimit := 2\<rparr>)"
    by (simp add: ParseFilter_def parse_conditions_def Let_def allowed_keys_def values_get_def parse_bound_def parse_cursor_def
        Filter0_def ToLower_def)
  have ids: "map (\<lambda>r. col_text r ''event_id'') demo_rows = [replicate 32 CHR ''a'', replicate 32 CHR ''b'', replicate 32 CHR ''c'']"
    by (simp add: demo_rows_def demo_event_row_def col_text_def)
  have "(replicate 32 CHR ''a'' :: string) \<noteq> replicate 32 CHR ''b''" "(replicate 32 CHR ''a'' :: string) \<noteq> replicate 32 CHR ''c''"
    "(replicate 32 CHR ''b'' :: string) \<noteq> replicate 32 CHR ''c''"
    by (simp_all add: replicate_eq_replicate)
  then have d: "distinct (map (\<lambda>r. col_text r ''event_id'') demo_rows)" unfolding ids by simp
  have ok: "(\<exists>u i. demo_event_row t c ''occurred_at'' = Some (STime u) \<and> demo_event_row t c ''event_id'' = Some (SText i)) \<and>
      Some Payload0 \<noteq> None \<and> HexID (col_text (demo_event_row t c) ''event_id'') \<and>
      (\<exists>year. demo_decode (psID (pos_of (demo_event_row t c))) = Some (pos_of (demo_event_row t c), year) \<and> 1000 \<le> year \<and> year \<le> 9999) \<and>
      psID (pos_of (demo_event_row t c)) \<noteq> [] \<and> length (psID (pos_of (demo_event_row t c))) \<le> 1024"
    if "(t, c) \<in> {(1, CHR ''a''), (2, CHR ''b''), (2, CHR ''c'')}" for t c
  proof -
    have "hd (replicate 32 c) = c" by simp
    then show ?thesis using demo_hex [of c] that
      by (auto simp: demo_event_row_def col_text_def col_time_def pos_of_def demo_decode_def)
  qed
  have all: "\<forall>r \<in> set demo_rows. (\<exists>t i. r ''occurred_at'' = Some (STime t) \<and> r ''event_id'' = Some (SText i)) \<and>
       Some Payload0 \<noteq> None \<and> HexID (col_text r ''event_id'') \<and>
       (\<exists>year. demo_decode (psID (pos_of r)) = Some (pos_of r, year) \<and> 1000 \<le> year \<and> year \<le> 9999) \<and>
       psID (pos_of r) \<noteq> [] \<and> length (psID (pos_of r)) \<le> 1024"
    unfolding demo_rows_def using ok by (simp only: list.set ball_simps) blast
  have len: "length (event_rows (Filter0\<lparr>flLimit := 2\<rparr>) demo_rows) = 3"
    by (simp add: event_rows_def select_rows_def event_clauses_def bound_clauses_def Filter0_def equal_def demo_rows_def)
  have "Suc (length demo_rows) = 4" by (simp add: demo_rows_def)
  then show ?thesis using event_pages_complete [OF f _ d, of ?PD psID] all len by simp
qed

end
