(* ===== verification/Audit_Spool.thy ===== *)
theory Audit_Spool
  imports Audit_Run Go_Url "HOL-Library.List_Lexorder" "HOL-Library.Char_ord"
begin

text \<open>
  The spool of \<^verbatim>\<open>internal/audit/recorder.go\<close>: how a file of the spool directory is read line by line,
  and what \<^verbatim>\<open>deliver\<close> does with the lines.

  The directory is an association list from names to contents.  A \<open>codec\<close> is the JSON encoding of
  events by \<^verbatim>\<open>encoding/json\<close>, with the events it represents exactly (text in UTF-8, years of four digits);
  \<open>codec_laws\<close> is what the code relies on, that such an event decodes to itself, white space after it
  ignored, and that the encoding has no line break.  What the file system, the clock, the
  context and the database answer during one call is an argument.
\<close>

definition MaxEventBytes :: nat where "MaxEventBytes = 64 * 1024"

record codec =
  mustJSON :: "Event \<Rightarrow> byte list"
  Unmarshal :: "byte list \<Rightarrow> Event option"
  Exact :: "Event \<Rightarrow> bool"

definition newline :: byte where "newline = 10"

definition codec_laws :: "codec \<Rightarrow> bool" where
  "codec_laws C \<longleftrightarrow>
     (\<forall>e. Exact C e \<longrightarrow> Unmarshal C (mustJSON C e @ [newline]) = Some e) \<and>
     (\<forall>e. newline \<notin> set (mustJSON C e))"

section \<open>Lines of a file\<close>

text \<open>
  \<^verbatim>\<open>ReadSlice\<close> of a buffered reader of 4096 bytes: a part that ends with a line break, a full buffer
  without one, or what is left at the end of the file.
\<close>

datatype slice_end = SliceLine | SliceFull | SliceEOF

definition bufferSize :: nat where "bufferSize = 4096"

definition ReadSlice :: "byte list \<Rightarrow> byte list \<times> slice_end \<times> byte list" where
  "ReadSlice s =
     (let part = takeWhile (\<lambda>b. b \<noteq> newline) (take bufferSize s) in
      if length part < length (take bufferSize s) then (part @ [newline], SliceLine, drop (Suc (length part)) s)
      else if length s \<ge> bufferSize then (part, SliceFull, drop bufferSize s)
      else (part, SliceEOF, []))"

lemma ReadSlice_shorter:
  assumes "ReadSlice s = (part, r, rest)" "r \<noteq> SliceEOF"
  shows "length rest < length s"
  using assms length_takeWhile_le [of "\<lambda>b. b \<noteq> newline" "take bufferSize s"]
  by (auto simp: ReadSlice_def Let_def bufferSize_def split: if_splits)

text \<open>
  \<^verbatim>\<open>spoolLines\<close>: the calls of the visitor, each a line and whether it was oversized.  Reads of an
  open file succeed.
\<close>

function spool_visits :: "byte list \<Rightarrow> bool \<Rightarrow> byte list \<Rightarrow> (byte list \<times> bool) list" where
  "spool_visits line oversized s =
     (case ReadSlice s of (part, r, rest) \<Rightarrow>
        let over = (oversized \<or> length (if oversized then [] else line) + length part > MaxEventBytes + 1);
            line' = (if over then [] else line @ part);
            visit = (if line' \<noteq> [] \<or> over then [(line', over)] else [])
        in case r of
             SliceFull \<Rightarrow> spool_visits line' over rest
           | SliceLine \<Rightarrow> visit @ spool_visits [] False rest
           | SliceEOF \<Rightarrow> visit)"
  by pat_completeness auto
termination
  by (relation "measure (\<lambda>(line, oversized, s). length s)") (auto dest: ReadSlice_shorter [OF sym])

declare spool_visits.simps [simp del]

definition spoolLines :: "byte list \<Rightarrow> (byte list \<times> bool) list" where
  "spoolLines s = spool_visits [] False s"

section \<open>The directory\<close>

type_synonym dir = "(string \<times> byte list) list"

definition dir_get :: "dir \<Rightarrow> string \<Rightarrow> byte list option" where
  "dir_get d p = map_of d p"

definition dir_remove :: "string \<Rightarrow> dir \<Rightarrow> dir" where
  "dir_remove p d = filter (\<lambda>e. fst e \<noteq> p) d"

definition dir_rename :: "string \<Rightarrow> string \<Rightarrow> dir \<Rightarrow> dir" where
  "dir_rename p q d =
     (case map_of d p of None \<Rightarrow> d | Some s \<Rightarrow> (q, s) # dir_remove q (dir_remove p d))"

definition spool_paths :: "dir \<Rightarrow> string list" where
  "spool_paths d = sort (filter (\<lambda>n. HasSuffix n ''.jsonl'') (map fst d))"

definition spool_size :: "dir \<Rightarrow> int" where
  "spool_size d = int (sum_list (map (length \<circ> snd)
     (filter (\<lambda>e. HasSuffix (fst e) ''.jsonl'' \<or> HasSuffix (fst e) ''.bad'' \<or> HasSuffix (fst e) ''.tmp'') d)))"

definition quarantined :: "dir \<Rightarrow> nat" where
  "quarantined d = length (filter (\<lambda>e. HasSuffix (fst e) ''.bad'') d)"

section \<open>Delivery of one file\<close>

datatype write_answer = WroteOk | InvalidRow | WriteFailed

record deliver_env =
  deNow :: time
  deCtx :: "string \<Rightarrow> nat \<Rightarrow> bool"
  deWrite :: "string \<Rightarrow> nat \<Rightarrow> write_answer"
  deOpen :: "string \<Rightarrow> bool"
  deFiles :: "bool \<times> bool"
  deMove :: "string \<Rightarrow> bool"
  deSync :: "string \<Rightarrow> bool"
  deAfter :: "string \<Rightarrow> bool"

text \<open>What became of a line: corrupt, expired, written to the database, or rejected by it.\<close>

datatype fate = Corrupt | Expired | Written Event | Rejected Event

definition line_event :: "codec \<Rightarrow> byte list \<times> bool \<Rightarrow> Event option" where
  "line_event C v =
     (if snd v then None
      else case Unmarshal C (fst v) of None \<Rightarrow> None | Some e \<Rightarrow> if valid e then Some e else None)"

text \<open>The retention rule: nothing, or the event to write.\<close>

definition retained :: "int \<Rightarrow> time \<Rightarrow> Event \<Rightarrow> Event option" where
  "retained retention now e =
     (if retention > 0 \<and> evAt e < now - retention
      then (if plBroadcast (evPayload e) = None \<and> plInput (evPayload e) = None then None else Some (e\<lparr>evExpired := True\<rparr>))
      else Some e)"

text \<open>
  The closure given to \<^verbatim>\<open>spoolLines\<close> for the line with index \<open>k\<close>: an error, or the fate of the line;
  a corrupt line and a row the database rejects make the file bad.
\<close>

definition handle_line :: "codec \<Rightarrow> int \<Rightarrow> deliver_env \<Rightarrow> string \<Rightarrow> nat \<Rightarrow> byte list \<times> bool \<Rightarrow> fate option" where
  "handle_line C retention E p k v =
     (if \<not> deCtx E p k then None
      else case line_event C v of
        None \<Rightarrow> Some Corrupt
      | Some e \<Rightarrow>
          (case retained retention (deNow E) e of
             None \<Rightarrow> Some Expired
           | Some e' \<Rightarrow>
               (case deWrite E p k of
                  WroteOk \<Rightarrow> Some (Written e')
                | InvalidRow \<Rightarrow> Some (Rejected e')
                | WriteFailed \<Rightarrow> None)))"

definition bad_fate :: "fate \<Rightarrow> bool" where
  "bad_fate f = (case f of Corrupt \<Rightarrow> True | Expired \<Rightarrow> False | Written _ \<Rightarrow> False | Rejected _ \<Rightarrow> True)"

text \<open>
  The visits of a file; \<open>off\<close> is the offset stored for it: lines up to it are skipped.  The result has the
  new offset and bad flag, the fates of the lines handled now, and whether no error stopped it.
\<close>

fun visit_lines ::
  "codec \<Rightarrow> int \<Rightarrow> deliver_env \<Rightarrow> string \<Rightarrow> nat \<Rightarrow> (byte list \<times> bool) list \<Rightarrow> nat \<Rightarrow> bool \<Rightarrow> nat \<times> bool \<times> fate list \<times> bool" where
  "visit_lines C retention E p k [] off bad = (off, bad, [], True)"
| "visit_lines C retention E p k (v # vs) off bad =
     (if Suc k \<le> off then visit_lines C retention E p (Suc k) vs off bad
      else case handle_line C retention E p (Suc k) v of
        None \<Rightarrow> (off, bad, [], False)
      | Some f \<Rightarrow>
          (case visit_lines C retention E p (Suc k) vs (Suc k) (bad \<or> bad_fate f) of
             (off', bad', fs, good) \<Rightarrow> (off', bad', f # fs, good)))"

text \<open>The loop over the files: the state of the recorder it uses, and what it did.\<close>

record spool =
  spDir :: dir
  spOffsets :: "string \<rightharpoonup> nat"
  spBad :: "string \<Rightarrow> bool"

datatype deliver_effect = Handled string fate | Quarantined string

definition finish_file :: "deliver_env \<Rightarrow> string \<Rightarrow> bool \<Rightarrow> spool \<Rightarrow> bool \<times> spool \<times> deliver_effect list" where
  "finish_file E p bad s =
     (if \<not> deMove E p then (False, s, [])
      else
        let d = (if bad then dir_rename p (TrimSuffix p ''.jsonl'' @ ''.bad'') (spDir s) else dir_remove p (spDir s));
            s' = s\<lparr>spDir := d, spOffsets := (spOffsets s)(p := None), spBad := (spBad s)(p := False)\<rparr>
        in (deSync E p \<and> deAfter E p, s', if bad then [Quarantined p] else []))"

definition deliver_file ::
  "codec \<Rightarrow> int \<Rightarrow> deliver_env \<Rightarrow> string \<Rightarrow> spool \<Rightarrow> bool \<times> spool \<times> deliver_effect list" where
  "deliver_file C retention E p s =
     (case dir_get (spDir s) p of
        None \<Rightarrow> (False, s, [])
      | Some content \<Rightarrow>
          if \<not> deOpen E p then (False, s, [])
          else case visit_lines C retention E p 0 (spoolLines content) (case spOffsets s p of None \<Rightarrow> 0 | Some n \<Rightarrow> n) (spBad s p) of
            (off, bad, fs, good) \<Rightarrow>
              let s' = s\<lparr>spOffsets := (spOffsets s)(p \<mapsto> off), spBad := (spBad s)(p := bad)\<rparr> in
              if \<not> good then (False, s', map (Handled p) fs)
              else case finish_file E p bad s' of (ok, s'', es) \<Rightarrow> (ok, s'', map (Handled p) fs @ es))"

fun deliver_files ::
  "codec \<Rightarrow> int \<Rightarrow> deliver_env \<Rightarrow> string list \<Rightarrow> spool \<Rightarrow> bool \<times> spool \<times> deliver_effect list" where
  "deliver_files C retention E [] s = (True, s, [])"
| "deliver_files C retention E (p # ps) s =
     (case deliver_file C retention E p s of (ok, s', es) \<Rightarrow>
        if \<not> ok then (False, s', es)
        else case deliver_files C retention E ps s' of (ok', s'', es') \<Rightarrow> (ok', s'', es @ es'))"

text \<open>\<^verbatim>\<open>deliver\<close>; \<open>deFiles\<close> says whether the listings of the directory before and after succeed.\<close>

definition deliver :: "codec \<Rightarrow> int \<Rightarrow> deliver_env \<Rightarrow> spool \<Rightarrow> bool \<times> spool \<times> deliver_effect list" where
  "deliver C retention E s =
     (if \<not> fst (deFiles E) then (False, s, [])
      else case deliver_files C retention E (spool_paths (spDir s)) s of (ok, s', es) \<Rightarrow> (ok \<and> snd (deFiles E), s', es))"

section \<open>The line reader\<close>

text \<open>The lines as one would write them down: with their line breaks, the last one possibly without.\<close>

function file_lines :: "byte list \<Rightarrow> byte list list" where
  "file_lines s =
     (if s = [] then []
      else let part = takeWhile (\<lambda>b. b \<noteq> newline) s in
        if length part < length s then (part @ [newline]) # file_lines (drop (Suc (length part)) s) else [part])"
  by pat_completeness auto
termination
  by (relation "measure length") auto

declare file_lines.simps [simp del]

definition visit_of :: "byte list \<Rightarrow> byte list \<times> bool" where
  "visit_of l = (if length l > MaxEventBytes + 1 then ([], True) else (l, False))"

lemma takeWhile_no_newline: "newline \<notin> set p \<Longrightarrow> takeWhile (\<lambda>b. b \<noteq> newline) p = p"
  by (induction p) auto

lemma file_lines_simps [simp]:
  "file_lines [] = []"
  "newline \<notin> set p \<Longrightarrow> file_lines (p @ newline # s) = (p @ [newline]) # file_lines s"
  "newline \<notin> set p \<Longrightarrow> p \<noteq> [] \<Longrightarrow> file_lines p = [p]"
proof -
  show "newline \<notin> set p \<Longrightarrow> file_lines (p @ newline # s) = (p @ [newline]) # file_lines s"
  proof -
    assume "newline \<notin> set p"
    then have "takeWhile (\<lambda>b. b \<noteq> newline) (p @ newline # s) = p" by (subst takeWhile_append2) auto
    then show ?thesis by (subst file_lines.simps) simp
  qed
  show "newline \<notin> set p \<Longrightarrow> p \<noteq> [] \<Longrightarrow> file_lines p = [p]"
  proof -
    assume "newline \<notin> set p" "p \<noteq> []"
    then show ?thesis unfolding file_lines.simps [of p] Let_def by (simp add: takeWhile_no_newline)
  qed
qed (simp add: file_lines.simps)

lemma ReadSlice_split:
  assumes "ReadSlice s = (part, r, rest)"
  shows "case r of
      SliceLine \<Rightarrow> \<exists>p. newline \<notin> set p \<and> part = p @ [newline] \<and> s = p @ newline # rest
    | SliceFull \<Rightarrow> newline \<notin> set part \<and> s = part @ rest
    | SliceEOF \<Rightarrow> newline \<notin> set part \<and> s = part"
proof -
  let ?t = "take bufferSize s"
  let ?p = "takeWhile (\<lambda>b. b \<noteq> newline) ?t"
  have no: "newline \<notin> set ?p" by (auto dest: set_takeWhileD)
  show ?thesis
  proof (cases "length ?p < length ?t")
    case True
    then obtain b q where q: "dropWhile (\<lambda>b. b \<noteq> newline) ?t = b # q"
      by (metis append_Nil2 less_irrefl neq_Nil_conv takeWhile_dropWhile_id)
    have "b = newline" using hd_dropWhile [of "\<lambda>b. b \<noteq> newline" ?t] q by simp
    then have "?t = ?p @ newline # q" using takeWhile_dropWhile_id [of "\<lambda>b. b \<noteq> newline" ?t] q by simp
    then have s: "s = ?p @ newline # (q @ drop bufferSize s)" by (metis append.assoc append_Cons append_take_drop_id)
    have "drop (Suc (length ?p)) (?p @ newline # w) = w" for w by simp
    then have "s = ?p @ newline # drop (Suc (length ?p)) s" using s by metis
    then show ?thesis using assms no True by (auto simp: ReadSlice_def Let_def)
  next
    case False
    then have "length ?p = length ?t" using length_takeWhile_le [of "\<lambda>b. b \<noteq> newline" ?t] by linarith
    then have "newline \<notin> set ?t" using no takeWhile_dropWhile_id [of "\<lambda>b. b \<noteq> newline" ?t]
      by (metis append_Nil2 append_eq_append_conv)
    then show ?thesis using assms
      by (auto simp: ReadSlice_def Let_def takeWhile_no_newline split: if_splits)
  qed
qed

definition seen :: "byte list \<Rightarrow> byte list" where
  "seen p = (if length p > MaxEventBytes + 1 then [] else p)"

lemma spool_visits_lines:
  "newline \<notin> set p \<Longrightarrow>
     spool_visits (seen p) (length p > MaxEventBytes + 1) s = map visit_of (file_lines (p @ s))"
proof (induction s arbitrary: p rule: length_induct)
  case (1 s)
  obtain part r rest where rs: "ReadSlice s = (part, r, rest)" by (metis prod_cases3)
  note split = ReadSlice_split [OF rs]
  have over: "(length p > MaxEventBytes + 1 \<or> length (if length p > MaxEventBytes + 1 then [] else seen p) + length part > MaxEventBytes + 1)
      \<longleftrightarrow> length (p @ part) > MaxEventBytes + 1"
    and line: "(if length (p @ part) > MaxEventBytes + 1 then [] else seen p @ part) = seen (p @ part)"
    by (auto simp: seen_def)
  have step: "spool_visits (seen p) (length p > MaxEventBytes + 1) s =
      (let visit = (if p @ part = [] then [] else [visit_of (p @ part)]) in
       case r of SliceFull \<Rightarrow> spool_visits (seen (p @ part)) (length (p @ part) > MaxEventBytes + 1) rest
       | SliceLine \<Rightarrow> visit @ spool_visits [] False rest | SliceEOF \<Rightarrow> visit)"
    unfolding spool_visits.simps [of "seen p" "length p > MaxEventBytes + 1" s] rs prod.case over line Let_def
    by (auto simp: seen_def visit_of_def split: slice_end.splits)
  show ?case
  proof (cases r)
    case SliceLine
    then obtain q where q: "newline \<notin> set q" "part = q @ [newline]" "s = q @ newline # rest" using split by auto
    have "spool_visits (seen []) (length ([] :: byte list) > MaxEventBytes + 1) rest = map visit_of (file_lines ([] @ rest))"
      by (rule 1(1) [rule_format]) (use q in simp_all)
    then show ?thesis
      unfolding step SliceLine using file_lines_simps(2) [of "p @ q" rest] 1(2) q by (simp add: seen_def)
  next
    case SliceFull
    then show ?thesis
      unfolding step using 1(1) [rule_format, of rest "p @ part"] 1(2) split ReadSlice_shorter [OF rs] by simp
  next
    case SliceEOF
    then show ?thesis unfolding step using split 1(2) by (cases "p @ part = []") simp_all
  qed
qed

text \<open>
  The bounded line reader is exact.  Reading a file through a buffer of 4096 bytes visits exactly its
  lines, in order and with their line breaks, the last one even if its line break is missing; a line
  longer than an event may be is visited as oversized without its content, and hides no other line.
\<close>

theorem spoolLines_exact:
  "spoolLines s = map visit_of (file_lines s)"
  using spool_visits_lines [of "[]" s] by (simp add: spoolLines_def seen_def)

section \<open>Every line once\<close>

text \<open>A fate that is right for a line: only a line without a valid event is corrupt, only an event
  without a snapshot can be dropped as expired, and what is written is the line's event, possibly marked as expired.\<close>

definition fits_line :: "codec \<Rightarrow> byte list \<times> bool \<Rightarrow> fate \<Rightarrow> bool" where
  "fits_line C v f =
     (case (line_event C v, f) of
        (None, Corrupt) \<Rightarrow> True
      | (Some e, Expired) \<Rightarrow> plBroadcast (evPayload e) = None \<and> plInput (evPayload e) = None
      | (Some e, Written e') \<Rightarrow> e' = e \<or> e' = e\<lparr>evExpired := True\<rparr>
      | (Some e, Rejected e') \<Rightarrow> e' = e \<or> e' = e\<lparr>evExpired := True\<rparr>
      | _ \<Rightarrow> False)"

lemma handle_line_fits: "handle_line C retention E p k v = Some f \<Longrightarrow> fits_line C v f"
  by (auto simp: handle_line_def fits_line_def retained_def split: if_splits option.splits write_answer.splits)

lemma visit_lines_spec:
  assumes "visit_lines C retention E p k vs off bad = (off', bad', fs, good)" "k \<le> off" "off \<le> k + length vs"
  shows "off' = off + length fs \<and> off' \<le> k + length vs \<and> (good \<longrightarrow> off' = k + length vs) \<and>
         (bad' \<longleftrightarrow> bad \<or> list_ex bad_fate fs) \<and> list_all2 (fits_line C) (take (length fs) (drop (off - k) vs)) fs"
  using assms
proof (induction vs arbitrary: k off bad off' bad' fs good)
  case (Cons v vs)
  show ?case
  proof (cases "Suc k \<le> off")
    case True
    then have "visit_lines C retention E p (Suc k) vs off bad = (off', bad', fs, good)" using Cons.prems(1) by simp
    from Cons.IH [OF this] True Cons.prems(3) show ?thesis by (auto simp: drop_Cons' Suc_diff_le [symmetric])
  next
    case False
    then have k: "off = k" using Cons.prems(2) by simp
    show ?thesis
    proof (cases "handle_line C retention E p (Suc k) v")
      case None
      then show ?thesis using Cons.prems(1) by (simp add: k)
    next
      case (Some f)
      then obtain fs1 where fs: "fs = f # fs1"
        and rest: "visit_lines C retention E p (Suc k) vs (Suc k) (bad \<or> bad_fate f) = (off', bad', fs1, good)"
        using Cons.prems(1) by (auto simp: k split: prod.splits)
      from Cons.IH [OF rest] handle_line_fits [OF Some] show ?thesis by (auto simp: k fs)
    qed
  qed
qed simp

text \<open>
  The spool over time: \<open>seen_files\<close> are the files that were ever in it, \<open>es\<close> what \<^verbatim>\<open>deliver\<close> did.  A new
  file has a name that no file had before.
\<close>

inductive spool_run :: "codec \<Rightarrow> int \<Rightarrow> dir \<Rightarrow> spool \<Rightarrow> deliver_effect list \<Rightarrow> bool" for C retention where
  start: "spool_run C retention [] \<lparr>spDir = [], spOffsets = Map.empty, spBad = (\<lambda>_. False)\<rparr> []"
| put: "spool_run C retention fs s es \<Longrightarrow> HasSuffix p ''.jsonl'' \<Longrightarrow> p \<notin> fst ` set fs \<Longrightarrow>
    spool_run C retention ((p, content) # fs) (s\<lparr>spDir := (p, content) # spDir s\<rparr>) es"
| pass: "spool_run C retention fs s es \<Longrightarrow> deliver C retention E s = (ok, s', es') \<Longrightarrow>
    spool_run C retention fs s' (es @ es')"

definition handled :: "string \<Rightarrow> deliver_effect list \<Rightarrow> fate list" where
  "handled p es = concat (map (\<lambda>e. case e of Handled q f \<Rightarrow> if q = p then [f] else [] | Quarantined q \<Rightarrow> []) es)"

lemma handled_simps [simp]:
  "handled p [] = []" "handled p (es @ es') = handled p es @ handled p es'"
  "handled p (map (Handled q) fs) = (if q = p then fs else [])" "handled p [Quarantined q] = []"
  by (induction fs) (auto simp: handled_def)

definition file_inv :: "codec \<Rightarrow> dir \<Rightarrow> spool \<Rightarrow> deliver_effect list \<Rightarrow> string \<times> byte list \<Rightarrow> bool" where
  "file_inv C fs s es x =
     (case x of (p, content) \<Rightarrow>
        let n = length (handled p es) in
        list_all2 (fits_line C) (take n (spoolLines content)) (handled p es) \<and>
        (case dir_get (spDir s) p of
           Some c \<Rightarrow> c = content \<and> n = (case spOffsets s p of None \<Rightarrow> 0 | Some k \<Rightarrow> k) \<and> n \<le> length (spoolLines content) \<and>
             (spBad s p \<longleftrightarrow> list_ex bad_fate (handled p es)) \<and> Quarantined p \<notin> set es
         | None \<Rightarrow> n = length (spoolLines content) \<and> spOffsets s p = None \<and> \<not> spBad s p \<and>
             (Quarantined p \<in> set es \<longleftrightarrow> list_ex bad_fate (handled p es))))"

definition spool_inv :: "codec \<Rightarrow> dir \<Rightarrow> spool \<Rightarrow> deliver_effect list \<Rightarrow> bool" where
  "spool_inv C fs s es \<longleftrightarrow>
     (\<forall>x \<in> set fs. file_inv C fs s es x \<and> HasSuffix (fst x) ''.jsonl'') \<and>
     (\<forall>p. HasSuffix p ''.jsonl'' \<longrightarrow> p \<notin> fst ` set fs \<longrightarrow>
        handled p es = [] \<and> Quarantined p \<notin> set es \<and> dir_get (spDir s) p = None \<and> spOffsets s p = None \<and> \<not> spBad s p)"

lemma HasSuffix_bad: "HasSuffix q ''.jsonl'' \<Longrightarrow> q \<noteq> p @ ''.bad''"
  by (auto simp: HasSuffix_def)

lemma dir_simps [simp]:
  "dir_get ((p, c) # d) r = (if r = p then Some c else dir_get d r)"
  "dir_get (dir_remove p d) r = (if r = p then None else dir_get d r)"
  "dir_get d p = Some c \<Longrightarrow> dir_get (dir_rename p q d) r = (if r = q then Some c else if r = p then None else dir_get d r)"
proof -
  show "dir_get (dir_remove p d) r = (if r = p then None else dir_get d r)" for p d r
    by (induction d) (auto simp: dir_get_def dir_remove_def)
  then show "dir_get d p = Some c \<Longrightarrow> dir_get (dir_rename p q d) r = (if r = q then Some c else if r = p then None else dir_get d r)"
    by (simp add: dir_rename_def dir_get_def)
qed (simp add: dir_get_def)

lemma spool_inv_other:
  assumes "spool_inv C fs s es"
    and "\<And>q. HasSuffix q ''.jsonl'' \<Longrightarrow> q \<noteq> p \<Longrightarrow> dir_get (spDir s') q = dir_get (spDir s) q \<and>
      spOffsets s' q = spOffsets s q \<and> spBad s' q = spBad s q \<and> handled q es' = [] \<and> Quarantined q \<notin> set es'"
    and "p \<in> fst ` set fs" "\<And>c. (p, c) \<in> set fs \<Longrightarrow> file_inv C fs s' (es @ es') (p, c)"
  shows "spool_inv C fs s' (es @ es')"
  unfolding spool_inv_def
proof (intro conjI ballI allI impI)
  fix x assume x: "x \<in> set fs"
  show "HasSuffix (fst x) ''.jsonl''" using assms(1) x by (simp add: spool_inv_def)
  show "file_inv C fs s' (es @ es') x"
  proof (cases "fst x = p")
    case True
    then show ?thesis using assms(4) x by (cases x) auto
  next
    case False
    have "file_inv C fs s es x" "HasSuffix (fst x) ''.jsonl''" using assms(1) x by (auto simp: spool_inv_def)
    then show ?thesis using assms(2) [of "fst x"] False by (cases x) (simp add: file_inv_def Let_def cong: option.case_cong)
  qed
next
  fix q assume q: "HasSuffix q ''.jsonl''" "q \<notin> fst ` set fs"
  then have "q \<noteq> p" using assms(3) by metis
  with q assms(1) assms(2) [OF q(1)] show "handled q (es @ es') = []" "Quarantined q \<notin> set (es @ es')"
    "dir_get (spDir s') q = None" "spOffsets s' q = None" "\<not> spBad s' q"
    by (auto simp: spool_inv_def)
qed

text \<open>Handling a file: first its lines, then its removal.\<close>

lemma deliver_file_inv:
  assumes "spool_inv C fs s es" "HasSuffix p ''.jsonl''" "deliver_file C retention E p s = (ok, s', es')"
  shows "spool_inv C fs s' (es @ es')"
proof (cases "dir_get (spDir s) p")
  case None
  then show ?thesis using assms by (simp add: deliver_file_def)
next
  case (Some content)
  obtain off bad hs good where v: "visit_lines C retention E p 0 (spoolLines content)
      (case spOffsets s p of None \<Rightarrow> 0 | Some n \<Rightarrow> n) (spBad s p) = (off, bad, hs, good)"
    by (metis prod_cases4)
  have known: "p \<in> fst ` set fs" using assms(1,2) Some by (auto simp: spool_inv_def)
  have old: "file_inv C fs s es (p, c)" if "(p, c) \<in> set fs" for c using assms(1) that by (simp add: spool_inv_def)
  let ?s1 = "s\<lparr>spOffsets := (spOffsets s)(p \<mapsto> off), spBad := (spBad s)(p := bad)\<rparr>"
  have one: "file_inv C fs ?s1 (es @ map (Handled p) hs) (p, c)" "good \<longrightarrow> off = length (spoolLines content)"
    if "(p, c) \<in> set fs" for c
  proof -
    have n: "length (handled p es) = (case spOffsets s p of None \<Rightarrow> 0 | Some n \<Rightarrow> n)" "length (handled p es) \<le> length (spoolLines content)"
      "c = content" using old [OF that] Some by (auto simp: file_inv_def Let_def)
    have spec: "off = length (handled p es) + length hs" "off \<le> length (spoolLines content)" "good \<longrightarrow> off = length (spoolLines content)"
      "bad \<longleftrightarrow> spBad s p \<or> list_ex bad_fate hs"
      "list_all2 (fits_line C) (take (length hs) (drop (length (handled p es)) (spoolLines content))) hs"
      using visit_lines_spec [OF v] n by auto
    show "file_inv C fs ?s1 (es @ map (Handled p) hs) (p, c)"
      using old [OF that] Some spec n(3)
      by (auto simp: file_inv_def Let_def take_add intro!: list_all2_appendI)
    show "good \<longrightarrow> off = length (spoolLines content)" by (rule spec(3))
  qed
  have inv1: "spool_inv C fs ?s1 (es @ map (Handled p) hs)"
    by (rule spool_inv_other [OF assms(1) _ known one(1)]) auto
  show ?thesis
  proof (cases "deOpen E p \<and> good \<and> deMove E p")
    case False
    then show ?thesis using assms inv1 Some v by (auto simp: deliver_file_def finish_file_def Let_def split: if_splits prod.splits)
  next
    case True
    let ?q = "TrimSuffix p ''.jsonl'' @ ''.bad''"
    have res: "s' = ?s1\<lparr>spDir := (if bad then dir_rename p ?q (spDir s) else dir_remove p (spDir s)),
        spOffsets := (spOffsets ?s1)(p := None), spBad := (spBad ?s1)(p := False)\<rparr>"
      "es' = map (Handled p) hs @ (if bad then [Quarantined p] else [])"
      using assms(3) Some v True by (auto simp: deliver_file_def finish_file_def Let_def)
    have q: "r \<noteq> ?q" if "HasSuffix r ''.jsonl''" for r by (rule HasSuffix_bad [OF that])
    have "spool_inv C fs s' ((es @ map (Handled p) hs) @ (if bad then [Quarantined p] else []))"
    proof (rule spool_inv_other [OF inv1 _ known])
      fix r assume "HasSuffix r ''.jsonl''" "r \<noteq> p"
      then show "dir_get (spDir s') r = dir_get (spDir ?s1) r \<and> spOffsets s' r = spOffsets ?s1 r \<and> spBad s' r = spBad ?s1 r \<and>
          handled r (if bad then [Quarantined p] else []) = [] \<and> Quarantined r \<notin> set (if bad then [Quarantined p] else [])"
        using q [of r] Some by (simp add: res)
    next
      fix c assume c: "(p, c) \<in> set fs"
      show "file_inv C fs s' ((es @ map (Handled p) hs) @ (if bad then [Quarantined p] else [])) (p, c)"
        using one(1) [OF c] one(2) [OF c] True Some q [OF assms(2)] by (auto simp: file_inv_def Let_def res)
    qed
    then show ?thesis by (simp add: res)
  qed
qed

lemma deliver_inv:
  assumes "spool_inv C fs s es" "deliver C retention E s = (ok, s', es')"
  shows "spool_inv C fs s' (es @ es')"
proof -
  have "spool_inv C fs s' (es @ es')"
    if "deliver_files C retention E ps s = (ok, s', es')" "\<forall>p \<in> set ps. HasSuffix p ''.jsonl''" "spool_inv C fs s es" for ps ok s es s' es'
    using that
  proof (induction ps arbitrary: ok s es s' es')
    case (Cons p ps)
    obtain ok1 s1 es1 where one: "deliver_file C retention E p s = (ok1, s1, es1)" by (metis prod_cases3)
    have inv: "spool_inv C fs s1 (es @ es1)" by (rule deliver_file_inv [OF Cons.prems(3) _ one]) (use Cons.prems(2) in simp)
    show ?case using Cons.prems one inv Cons.IH [OF _ _ inv]
      by (auto split: if_splits prod.splits)
  qed simp
  then show ?thesis using assms by (auto simp: deliver_def spool_paths_def split: if_splits prod.splits)
qed

lemma spool_run_inv: "spool_run C retention fs s es \<Longrightarrow> spool_inv C fs s es"
proof (induction rule: spool_run.induct)
  case (put fs s es p content)
  let ?fs = "(p, content) # fs" and ?s = "s\<lparr>spDir := (p, content) # spDir s\<rparr>"
  have "file_inv C ?fs ?s es x" if "x \<in> set fs" for x
  proof -
    have "fst x \<noteq> p" using put.hyps(3) that by auto
    moreover have "file_inv C fs s es x" using put.IH that by (simp add: spool_inv_def)
    ultimately show ?thesis by (cases x) (simp add: file_inv_def Let_def cong: option.case_cong)
  qed
  moreover have "file_inv C ?fs ?s es (p, content)"
    using put.IH put.hyps(2,3) by (simp add: spool_inv_def file_inv_def Let_def)
  ultimately show ?case using put.IH put.hyps(2) by (simp add: spool_inv_def)
next
  case (pass fs s es E ok s' es')
  then show ?case by (blast intro: deliver_inv)
qed (simp add: spool_inv_def dir_get_def)

text \<open>
  C22.  Every line of the spool is dealt with once.  However often delivery is tried and at whatever line, file or
  step it fails, the lines of a file are handled in their order and none twice: a line without a valid event is
  set aside as corrupt, an event is written to the database or refused by it, and dropped unwritten only when
  it has expired and carries no snapshot.  A file is gone only when all its lines have been handled, and it
  was quarantined exactly if one of them was corrupt or refused.
\<close>

theorem spool_delivers_once:
  assumes "spool_run C retention fs s es" "(p, content) \<in> set fs"
  shows "list_all2 (fits_line C) (take (length (handled p es)) (spoolLines content)) (handled p es) \<and>
         (dir_get (spDir s) p = None \<longrightarrow> length (handled p es) = length (spoolLines content)) \<and>
         (Quarantined p \<in> set es \<longleftrightarrow> dir_get (spDir s) p = None \<and> list_ex bad_fate (handled p es))"
proof -
  have "file_inv C fs s es (p, content)" using spool_run_inv [OF assms(1)] assms(2) by (auto simp: spool_inv_def)
  then show ?thesis by (auto simp: file_inv_def Let_def split: option.splits)
qed

text \<open>A codec that knows one event: an encoding to try the theorems on.\<close>

definition demo_event :: Event where
  "demo_event = Event0\<lparr>evID := ''01010101010101010101010101010101'', evBoot := ''0a0a0a0a0a0a0a0a0a0a0a0a0a0a0a0a'', evNode := ''n'', evVersion := 1,
     evSeq := 1, evAt := 5, evType := ''system.start'', evOutcome := ''success''\<rparr>"

definition demo_codec :: codec where
  "demo_codec = \<lparr>mustJSON = (\<lambda>e. [1]), Unmarshal = (\<lambda>s. if s = [1, newline] then Some demo_event else None),
     Exact = (\<lambda>e. e = demo_event)\<rparr>"

lemma demo_valid [simp]: "valid demo_event"
proof -
  have "valid_hexID ''01010101010101010101010101010101''" "valid_hexID ''0a0a0a0a0a0a0a0a0a0a0a0a0a0a0a0a''"
    by (simp_all add: valid_hexID_def hex_val_def)
  then show ?thesis
    by (simp add: demo_event_def Event0_def Payload0_def valid_def valid_ascii_def event_types_def Actor_of_def)
qed

lemma demo_laws: "codec_laws demo_codec"
  by (simp add: codec_laws_def demo_codec_def newline_def)

definition demo_env :: deliver_env where
  "demo_env = \<lparr>deNow = 9, deCtx = (\<lambda>_ _. True), deWrite = (\<lambda>_ _. WroteOk), deOpen = (\<lambda>_. True), deFiles = (True, True),
     deMove = (\<lambda>_. True), deSync = (\<lambda>_. True), deAfter = (\<lambda>_. True)\<rparr>"

lemma demo_lines: "spoolLines [1, newline, newline] = [([1, newline], False), ([newline], False)]"
proof -
  have "file_lines ([1] @ newline # [] @ newline # []) = [[1, newline], [newline]]"
    by (subst file_lines_simps(2), simp add: newline_def, subst file_lines_simps(2)) simp_all
  then show ?thesis using spool_visits_lines [of "[]" "[1, newline, newline]"] by (simp add: spoolLines_def seen_def visit_of_def MaxEventBytes_def)
qed

theorem spool_delivers_once_witness:
  "\<exists>s es. spool_run demo_codec 0 [(''a.jsonl'', [1, newline, newline])] s es \<and>
     handled ''a.jsonl'' es = [Written demo_event, Corrupt] \<and> Quarantined ''a.jsonl'' \<in> set es \<and>
     list_all2 (fits_line demo_codec) (take 2 (spoolLines [1, newline, newline])) [Written demo_event, Corrupt]"
proof -
  let ?fs = "[(''a.jsonl'', [1, newline, newline])]"
  let ?s0 = "\<lparr>spDir = ?fs, spOffsets = Map.empty, spBad = (\<lambda>_. False)\<rparr>"
  let ?es = "[Handled ''a.jsonl'' (Written demo_event), Handled ''a.jsonl'' Corrupt, Quarantined ''a.jsonl'']"
  have "spool_run demo_codec 0 ?fs ?s0 []"
    using spool_run.put [OF spool_run.start [where C = demo_codec and retention = 0], of "''a.jsonl''" "[1, newline, newline]"] by (simp add: HasSuffix_def)
  moreover have "\<exists>s'. deliver demo_codec 0 demo_env ?s0 = (True, s', ?es)"
    by (simp add: deliver_def demo_env_def spool_paths_def HasSuffix_def deliver_file_def demo_lines handle_line_def line_event_def
        demo_codec_def retained_def finish_file_def bad_fate_def Let_def)
  ultimately obtain s' where "spool_run demo_codec 0 ?fs ?s0 []" "deliver demo_codec 0 demo_env ?s0 = (True, s', ?es)" by blast
  from spool_run.pass [OF this] have run: "spool_run demo_codec 0 ?fs s' ?es" by simp
  have h: "handled ''a.jsonl'' ?es = [Written demo_event, Corrupt]" by (simp add: handled_def)
  have "list_all2 (fits_line demo_codec) (take (length (handled ''a.jsonl'' ?es)) (spoolLines [1, newline, newline])) (handled ''a.jsonl'' ?es)"
    by (rule spool_delivers_once [OF run, THEN conjunct1]) simp
  then have "list_all2 (fits_line demo_codec) (take 2 (spoolLines [1, newline, newline])) [Written demo_event, Corrupt]"
    by (simp only: h list.size numeral_2_eq_2) simp
  with run h show ?thesis by (intro exI [of _ s'] exI [of _ ?es]) simp
qed

end
