(* ===== verification/Audit_Recorder.thy ===== *)
theory Audit_Recorder
  imports Audit_Spool "HOL-Library.AList"
begin

text \<open>
  \<^verbatim>\<open>internal/audit/recorder.go\<close>: the recorder takes events from the rest of the program without ever
  blocking, and its loop moves them to the spool and from there to the database.

  The queue is a list with a capacity.  Random identifiers are drawn from \<open>ids\<close> by sequence number.  The map of
  repeated failures is an association list, iterated in a given order.  The loop runs beside \<^verbatim>\<open>Emit\<close>; \<open>turn\<close>
  composes the pieces of one iteration, and \<open>rec_run\<close> interleaves the pieces with calls of \<^verbatim>\<open>Emit\<close>.  Logging is left
  out.
\<close>

record RecStatus =
  rsEnabled :: bool
  rsDegraded :: bool
  rsLastSuccess :: "time option"
  rsPendingBytes :: int
  rsPendingFiles :: nat
  rsQuarantinedFiles :: nat
  rsQueued :: nat
  rsDropped :: nat
  rsReason :: string

record failureCount =
  fcE :: Event
  fcCount :: nat
  fcFirst :: time
  fcLast :: time

record Recorder =
  reNode :: string
  reQueueSize :: nat
  reMaxBytes :: int
  reRetention :: int
  reBoot :: string
  reQueue :: "Event list"
  reSeq :: nat
  reStatus :: RecStatus
  reClosed :: bool
  reFailures :: "(string \<times> failureCount) list"
  reGap :: nat
  reLock :: bool
  reSpool :: spool

definition RecStatus0 :: RecStatus where
  "RecStatus0 = \<lparr>rsEnabled = False, rsDegraded = False, rsLastSuccess = None, rsPendingBytes = 0, rsPendingFiles = 0,
     rsQuarantinedFiles = 0, rsQueued = 0, rsDropped = 0, rsReason = []\<rparr>"

section \<open>Taking events\<close>

definition on_status :: "(RecStatus \<Rightarrow> RecStatus) \<Rightarrow> Recorder \<Rightarrow> Recorder" where
  "on_status f r = r\<lparr>reStatus := f (reStatus r)\<rparr>"

definition dropLocked :: "string \<Rightarrow> nat \<Rightarrow> Recorder \<Rightarrow> Recorder" where
  "dropLocked reason n r =
     on_status (\<lambda>s. s\<lparr>rsDropped := rsDropped s + n, rsDegraded := True, rsReason := reason\<rparr>) (r\<lparr>reGap := reGap r + n\<rparr>)"

definition rec_fail :: "string \<Rightarrow> Recorder \<Rightarrow> Recorder" where
  "rec_fail reason r = on_status (\<lambda>s. s\<lparr>rsDegraded := True, rsReason := reason\<rparr>) r"

definition stamp :: "(nat \<Rightarrow> string) \<Rightarrow> time \<Rightarrow> Event \<Rightarrow> Recorder \<Rightarrow> Event \<times> Recorder" where
  "stamp ids now e r =
     (let n = Suc (reSeq r) in
      (canonical (e\<lparr>evID := ids n, evNode := reNode r, evBoot := reBoot r, evSeq := n, evVersion := 1,
         evAt := (if evAt e = 0 then now else evAt e)\<rparr>), r\<lparr>reSeq := n\<rparr>))"

definition mark_incomplete :: "Event \<Rightarrow> Event" where
  "mark_incomplete e =
     e\<lparr>evPayload := (evPayload e)
        \<lparr>plBroadcast := map_option (\<lambda>b. b\<lparr>bIncomplete := True\<rparr>) (plBroadcast (evPayload e)),
         plInput := map_option (\<lambda>i. i\<lparr>inIncomplete := True\<rparr>) (plInput (evPayload e))\<rparr>\<rparr>"

definition enqueueLocked :: "codec \<Rightarrow> (nat \<Rightarrow> string) \<Rightarrow> time \<Rightarrow> Event \<Rightarrow> Recorder \<Rightarrow> Recorder" where
  "enqueueLocked C ids now e0 r0 =
     (case stamp ids now e0 r0 of (e1, r) \<Rightarrow>
        let e = (if rsDropped (reStatus r) > 0 then mark_incomplete e1 else e1) in
        if length (mustJSON C e) > MaxEventBytes then dropLocked ''event_too_large'' 1 r
        else if length (reQueue r) < reQueueSize r then r\<lparr>reQueue := reQueue r @ [e]\<rparr>
        else dropLocked ''queue_full'' 1 r)"

definition failure_key :: "Event \<Rightarrow> string" where
  "failure_key e = evType e @ ''|'' @ acIP (evActor e) @ ''|'' @ evReason e"

text \<open>\<^verbatim>\<open>Emit\<close> on a recorder; on a nil receiver it does nothing.\<close>

definition Emit :: "codec \<Rightarrow> (nat \<Rightarrow> string) \<Rightarrow> time \<Rightarrow> Event \<Rightarrow> Recorder \<Rightarrow> Recorder" where
  "Emit C ids now e0 r =
     (if reClosed r then r
      else
        let e1 = canonical e0; e = e1\<lparr>evAt := (if evAt e1 = 0 then now else evAt e1)\<rparr> in
        if (evType e = ''auth.login'' \<or> evType e = ''rtmp.publish'') \<and> evOutcome e \<noteq> ''success'' then
          (case map_of (reFailures r) (failure_key e) of
             Some f \<Rightarrow> r\<lparr>reFailures := AList.update (failure_key e) (f\<lparr>fcCount := fcCount f + 1, fcLast := evAt e\<rparr>) (reFailures r)\<rparr>
           | None \<Rightarrow>
               if length (reFailures r) < 1024
               then r\<lparr>reFailures := AList.update (failure_key e)
                        \<lparr>fcE = e, fcCount = 1, fcFirst = evAt e, fcLast = evAt e\<rparr> (reFailures r)\<rparr>
               else dropLocked ''failure_buckets_full'' 1 r)
        else enqueueLocked C ids now e r)"

text \<open>\<^verbatim>\<open>New\<close>: the empty recorder, which is sent a first event.\<close>

definition empty_recorder :: "string \<Rightarrow> int \<Rightarrow> int \<Rightarrow> int \<Rightarrow> string \<Rightarrow> dir \<Rightarrow> Recorder" where
  "empty_recorder node queueSize maxBytes retention boot d =
     \<lparr>reNode = node, reQueueSize = (if queueSize \<le> 0 then 4096 else nat queueSize),
      reMaxBytes = (if maxBytes \<le> 0 then 512 * 1024 * 1024 else maxBytes), reRetention = retention, reBoot = boot,
      reQueue = [], reSeq = 0, reStatus = RecStatus0\<lparr>rsEnabled := True\<rparr>, reClosed = False, reFailures = [],
      reGap = 0, reLock = False, reSpool = \<lparr>spDir = d, spOffsets = Map.empty, spBad = (\<lambda>_. False)\<rparr>\<rparr>"

definition NewRecorder ::
  "codec \<Rightarrow> (nat \<Rightarrow> string) \<Rightarrow> time \<Rightarrow> string \<Rightarrow> int \<Rightarrow> int \<Rightarrow> int \<Rightarrow> string \<Rightarrow> dir \<Rightarrow> Recorder" where
  "NewRecorder C ids now node queueSize maxBytes retention boot d =
     Emit C ids now (Event0\<lparr>evType := ''system.start'', evOutcome := ''success''\<rparr>)
       (empty_recorder node queueSize maxBytes retention boot d)"

definition Recorder_Status :: "Recorder option \<Rightarrow> RecStatus" where
  "Recorder_Status ro = (case ro of None \<Rightarrow> RecStatus0 | Some r \<Rightarrow> (reStatus r)\<lparr>rsQueued := length (reQueue r)\<rparr>)"

text \<open>What the first call of \<^verbatim>\<open>Close\<close> does before it waits for the loop.\<close>

definition Recorder_Close :: "codec \<Rightarrow> (nat \<Rightarrow> string) \<Rightarrow> time \<Rightarrow> Recorder \<Rightarrow> Recorder" where
  "Recorder_Close C ids now r =
     (Emit C ids now (Event0\<lparr>evType := ''system.stop'', evOutcome := ''success''\<rparr>) r)\<lparr>reClosed := True\<rparr>"

section \<open>The pieces of the loop\<close>

definition aggregate_failure :: "codec \<Rightarrow> (nat \<Rightarrow> string) \<Rightarrow> time \<Rightarrow> bool \<Rightarrow> string \<Rightarrow> Recorder \<Rightarrow> Recorder" where
  "aggregate_failure C ids now all k r =
     (case map_of (reFailures r) k of
        None \<Rightarrow> r
      | Some f \<Rightarrow>
          if all \<or> now - fcFirst f \<ge> 60 * second then
            let e = (fcE f)\<lparr>evPayload := (evPayload (fcE f))\<lparr>plCount := fcCount f, plFirstAt := Some (fcFirst f), plLastAt := Some (fcLast f)\<rparr>\<rparr>;
                r' = enqueueLocked C ids now e r
            in r'\<lparr>reFailures := AList.delete k (reFailures r')\<rparr>
          else r)"

definition report_gap :: "codec \<Rightarrow> (nat \<Rightarrow> string) \<Rightarrow> time \<Rightarrow> Recorder \<Rightarrow> Recorder" where
  "report_gap C ids now r =
     (if reGap r > 0 \<and> length (reQueue r) < reQueueSize r
      then enqueueLocked C ids now (Event0\<lparr>evType := ''audit.gap'', evOutcome := ''failure'', evReason := ''events_dropped'',
             evPayload := Payload0\<lparr>plCount := reGap r\<rparr>\<rparr>) (r\<lparr>reGap := 0\<rparr>)
      else r)"

definition aggregates :: "codec \<Rightarrow> (nat \<Rightarrow> string) \<Rightarrow> time \<Rightarrow> bool \<Rightarrow> string list \<Rightarrow> Recorder \<Rightarrow> Recorder" where
  "aggregates C ids now all order r = report_gap C ids now (fold (aggregate_failure C ids now all) order r)"

definition count_files :: "Recorder \<Rightarrow> Recorder" where
  "count_files r =
     (let d = spDir (reSpool r) in
      on_status (\<lambda>s. s\<lparr>rsPendingFiles := length (spool_paths d), rsPendingBytes := spool_size d,
        rsQuarantinedFiles := quarantined d\<rparr>) r)"

definition on_dir :: "(dir \<Rightarrow> dir) \<Rightarrow> Recorder \<Rightarrow> Recorder" where
  "on_dir f r = r\<lparr>reSpool := (reSpool r)\<lparr>spDir := f (spDir (reSpool r))\<rparr>\<rparr>"

definition batch_lines :: "codec \<Rightarrow> Event list \<Rightarrow> byte list" where
  "batch_lines C batch = concat (map (\<lambda>e. mustJSON C e @ [newline]) batch)"

definition pad20 :: "string \<Rightarrow> string" where
  "pad20 s = replicate (20 - length s) CHR ''0'' @ s"

definition spool_name :: "nat \<Rightarrow> string \<Rightarrow> nat \<Rightarrow> string" where
  "spool_name nano boot n = pad20 (Itoa (int nano)) @ ''-'' @ boot @ ''-'' @ pad20 (Itoa (int n)) @ ''.jsonl''"

text \<open>The step of \<^verbatim>\<open>appendBatch\<close> at which the file system fails; the temporary file is removed again.\<close>

datatype append_answer = AppendOk | AppendListing | AppendCreate | AppendWrite | AppendRename | AppendSync

definition appendBatch :: "codec \<Rightarrow> nat \<Rightarrow> append_answer \<Rightarrow> Event list \<Rightarrow> Recorder \<Rightarrow> bool \<times> Recorder" where
  "appendBatch C nano answer batch r =
     (if batch = [] then (True, r)
      else if answer = AppendListing then (False, r)
      else
        let r1 = count_files r; data = batch_lines C batch in
        if spool_size (spDir (reSpool r)) + int (length data) > reMaxBytes r then (False, r1)
        else if answer \<in> {AppendCreate, AppendWrite, AppendRename} then (False, r1)
        else
          let target = spool_name nano (reBoot r) (evSeq (hd batch)) in
          (answer = AppendOk, on_dir (\<lambda>d. (target, data) # dir_remove target d) r1))"

fun recover_tmp :: "(nat \<Rightarrow> bool) \<Rightarrow> (nat \<Rightarrow> string) \<Rightarrow> nat \<Rightarrow> string list \<Rightarrow> dir \<Rightarrow> bool \<times> dir" where
  "recover_tmp ok ids k [] d = (True, d)"
| "recover_tmp ok ids k (p # ps) d =
     (if ok k then recover_tmp ok ids (Suc k) ps (dir_rename p (''00000000000000000000-recovered-'' @ ids k @ ''.jsonl'') d)
      else (False, d))"

definition acquire :: "bool \<Rightarrow> (nat \<Rightarrow> bool) \<Rightarrow> bool \<Rightarrow> (nat \<Rightarrow> string) \<Rightarrow> Recorder \<Rightarrow> bool \<times> Recorder" where
  "acquire locked renamed synced ids r =
     (if \<not> locked then (False, r)
      else
        let d = spDir (reSpool r);
            tmps = sort (filter (\<lambda>n. HasPrefix n ''.batch-'' \<and> HasSuffix n ''.tmp'') (map fst d))
        in case recover_tmp renamed ids 0 tmps d of (ok, d') \<Rightarrow>
          let r' = on_dir (\<lambda>_. d') r in
          if ok \<and> synced then (True, r'\<lparr>reLock := True\<rparr>) else (False, r'))"

definition discardQueue :: "Recorder \<Rightarrow> Recorder" where
  "discardQueue r = dropLocked ''spool_unavailable'' (length (reQueue r)) (r\<lparr>reQueue := []\<rparr>)"

definition drain :: "Recorder \<Rightarrow> Event list \<times> Recorder" where
  "drain r = (take 256 (reQueue r), r\<lparr>reQueue := drop 256 (reQueue r)\<rparr>)"

definition store_batch :: "codec \<Rightarrow> nat \<Rightarrow> append_answer \<Rightarrow> Event list \<Rightarrow> Recorder \<Rightarrow> Recorder" where
  "store_batch C nano answer batch r =
     (case appendBatch C nano answer batch r of (ok, r') \<Rightarrow>
        if ok then r' else dropLocked ''spool_write_failed'' (length batch) (rec_fail ''spool_write_failed'' r'))"

definition count_quarantined :: "deliver_effect list \<Rightarrow> Recorder \<Rightarrow> Recorder" where
  "count_quarantined es r =
     fold (\<lambda>e. case e of Quarantined _ \<Rightarrow> dropLocked ''corrupt_spool_quarantined'' 1 | Handled _ _ \<Rightarrow> id) es r"

definition rec_deliver :: "codec \<Rightarrow> deliver_env \<Rightarrow> Recorder \<Rightarrow> bool \<times> Recorder \<times> deliver_effect list" where
  "rec_deliver C E r =
     (let r0 = (if fst (deFiles E) then count_files r else r) in
      case deliver C (reRetention r) E (reSpool r) of (ok, s, es) \<Rightarrow>
        let r1 = count_quarantined es (r0\<lparr>reSpool := s\<rparr>) in
        (ok, if ok then count_files r1 else r1, es))"

text \<open>\<^verbatim>\<open>Recover\<close>: the events the database returns are stamped and go to the spool.\<close>

fun stamp_all :: "(nat \<Rightarrow> string) \<Rightarrow> time \<Rightarrow> Event list \<Rightarrow> Recorder \<Rightarrow> Event list \<times> Recorder" where
  "stamp_all ids now [] r = ([], r)"
| "stamp_all ids now (e # events) r =
     (case stamp ids now e r of (e', r') \<Rightarrow> case stamp_all ids now events r' of (es, r'') \<Rightarrow> (e' # es, r''))"

definition recover_events ::
  "codec \<Rightarrow> (nat \<Rightarrow> string) \<Rightarrow> time \<Rightarrow> nat \<Rightarrow> append_answer \<Rightarrow> Event list \<Rightarrow> Recorder \<Rightarrow> bool \<times> Event list \<times> Recorder" where
  "recover_events C ids now nano answer events r =
     (case stamp_all ids now events r of (es, r1) \<Rightarrow>
      case appendBatch C nano answer es r1 of (ok, r2) \<Rightarrow> (ok, es, r2))"

section \<open>One turn of the loop\<close>

record loop_state =
  lpNext :: time
  lpBackoff :: int
  lpRecovered :: bool
  lpPrune :: time

record turn_env =
  teStopping :: bool
  teIds :: "nat \<Rightarrow> string"
  teNow :: time
  teOrder :: "string list"
  teAcquire :: "bool \<times> (nat \<Rightarrow> bool) \<times> bool"
  teNames :: "nat \<Rightarrow> string"
  teAppend :: "nat \<times> append_answer"
  teReady :: bool
  teDeliver :: deliver_env
  teRecover :: "Event list option"
  teAppend2 :: "nat \<times> append_answer"
  tePrune :: bool

definition loop0 :: loop_state where
  "loop0 = \<lparr>lpNext = 0, lpBackoff = second, lpRecovered = False, lpPrune = 0\<rparr>"

text \<open>The work against the database after the queue has been stored: whether it succeeded.\<close>

definition backend_work ::
  "codec \<Rightarrow> turn_env \<Rightarrow> loop_state \<Rightarrow> Recorder \<Rightarrow> bool \<times> loop_state \<times> Recorder \<times> deliver_effect list" where
  "backend_work C E lp r =
     (if \<not> teReady E then (False, lp, r, [])
      else case rec_deliver C (teDeliver E) r of (ok, r1, es) \<Rightarrow>
        if \<not> ok then (False, lp, r1, es)
        else
          let rec = (if lpRecovered lp then (True, lp, r1)
                     else case teRecover E of
                       None \<Rightarrow> (False, lp, r1)
                     | Some events \<Rightarrow>
                         (case recover_events C (teIds E) (teNow E) (fst (teAppend2 E)) (snd (teAppend2 E)) events r1 of
                            (ok', _, r2) \<Rightarrow> (ok', lp\<lparr>lpRecovered := (events = [])\<rparr>, r2)))
          in case rec of (ok1, lp1, r2) \<Rightarrow>
            if \<not> ok1 then (False, lp1, r2, es)
            else if reRetention r2 > 0 \<and> teNow E - lpPrune lp1 > 60 * second then
              (if tePrune E then (True, lp1\<lparr>lpPrune := teNow E\<rparr>, r2, es) else (False, lp1, r2, es))
            else (True, lp1, r2, es))"

definition after_work :: "turn_env \<Rightarrow> bool \<Rightarrow> loop_state \<Rightarrow> Recorder \<Rightarrow> loop_state \<times> Recorder" where
  "after_work E ok lp r =
     (if \<not> ok
      then (lp\<lparr>lpNext := teNow E + lpBackoff lp, lpBackoff := min (60 * second) (lpBackoff lp * 2)\<rparr>,
            rec_fail ''database_unavailable_or_schema_error'' r)
      else (lp\<lparr>lpBackoff := second, lpNext := 0\<rparr>,
            on_status (\<lambda>s. s\<lparr>rsLastSuccess := Some (teNow E), rsDegraded := (rsDropped s > 0 \<or> rsQuarantinedFiles s > 0),
              rsReason := (if rsDropped s > 0 then ''events_dropped''
                           else if rsQuarantinedFiles s > 0 then ''corrupt_spool_quarantined'' else [])\<rparr>) r))"

text \<open>Whether the loop ends, its variables, the recorder and what was delivered.\<close>

definition turn :: "codec \<Rightarrow> turn_env \<Rightarrow> loop_state \<Rightarrow> Recorder \<Rightarrow> bool \<times> loop_state \<times> Recorder \<times> deliver_effect list" where
  "turn C E lp r =
     (let r1 = aggregates C (teIds E) (teNow E) (teStopping E) (teOrder E) r;
          lk = (if reLock r1 then (True, r1)
                else acquire (fst (teAcquire E)) (fst (snd (teAcquire E))) (snd (snd (teAcquire E))) (teNames E) r1)
      in if \<not> fst lk then (teStopping E, lp, discardQueue (rec_fail ''spool_unavailable'' (snd lk)), [])
         else case drain (snd lk) of (batch, r2) \<Rightarrow>
           let r3 = store_batch C (fst (teAppend E)) (snd (teAppend E)) batch r2 in
           if teStopping E then (reQueue r3 = [], lp, r3, [])
           else if teNow E < lpNext lp then (False, lp, r3, [])
           else case backend_work C E lp r3 of (ok, lp1, r4, es) \<Rightarrow>
             case after_work E ok lp1 r4 of (lp2, r5) \<Rightarrow> (False, lp2, r5, es))"

section \<open>No event is lost uncounted\<close>

abbreviation dropped :: "Recorder \<Rightarrow> nat" where
  "dropped r \<equiv> rsDropped (reStatus r)"

text \<open>What the pieces that neither take nor move events keep.\<close>

definition quiet_step :: "Recorder \<Rightarrow> Recorder \<Rightarrow> bool" where
  "quiet_step r r' \<longleftrightarrow> reQueue r' = reQueue r \<and> reSeq r' = reSeq r \<and> reQueueSize r' = reQueueSize r \<and> dropped r \<le> dropped r'"

text \<open>
  The recorder at work.  \<open>held\<close> is the batch the loop has taken from the queue, \<open>spooled\<close> the events that were
  stored, \<open>retried\<close> the sequence numbers used for recovered snapshots that could not be stored and are read from
  the database again.  Any event can be emitted between two pieces of the loop.
\<close>

inductive rec_run :: "codec \<Rightarrow> (nat \<Rightarrow> string) \<Rightarrow> Recorder \<Rightarrow> Event list \<Rightarrow> Event list \<Rightarrow> nat list \<Rightarrow> bool" for C ids where
  empty: "rec_run C ids (empty_recorder node q m t boot d) [] [] []"
| emit: "rec_run C ids r held spooled retried \<Longrightarrow> rec_run C ids (Emit C ids now e r) held spooled retried"
| close: "rec_run C ids r held spooled retried \<Longrightarrow> rec_run C ids (Recorder_Close C ids now r) held spooled retried"
| aggregate: "rec_run C ids r held spooled retried \<Longrightarrow> rec_run C ids (aggregates C ids now all order r) held spooled retried"
| take: "rec_run C ids r [] spooled retried \<Longrightarrow> drain r = (batch, r') \<Longrightarrow> rec_run C ids r' batch spooled retried"
| store: "rec_run C ids r held spooled retried \<Longrightarrow>
    rec_run C ids (store_batch C nano answer held r) [] (spooled @ (if fst (appendBatch C nano answer held r) then held else [])) retried"
| discard: "rec_run C ids r held spooled retried \<Longrightarrow> rec_run C ids (discardQueue r) held spooled retried"
| recover: "rec_run C ids r held spooled retried \<Longrightarrow> recover_events C ids now nano answer events r = (ok, es, r') \<Longrightarrow>
    rec_run C ids r' held (spooled @ (if ok then es else [])) (retried @ (if ok then [] else map evSeq es))"
| quiet: "rec_run C ids r held spooled retried \<Longrightarrow> quiet_step r r' \<Longrightarrow> rec_run C ids r' held spooled retried"

text \<open>The sequence numbers that are accounted for by name.\<close>

definition placed :: "Recorder \<Rightarrow> Event list \<Rightarrow> Event list \<Rightarrow> nat list \<Rightarrow> nat list" where
  "placed r held spooled retried = map evSeq spooled @ map evSeq held @ map evSeq (reQueue r) @ retried"

definition account :: "Recorder \<Rightarrow> Event list \<Rightarrow> Event list \<Rightarrow> nat list \<Rightarrow> bool" where
  "account r held spooled retried \<longleftrightarrow>
     distinct (placed r held spooled retried) \<and> (\<forall>n \<in> set (placed r held spooled retried). 0 < n \<and> n \<le> reSeq r) \<and>
     reSeq r \<le> length (placed r held spooled retried) + dropped r \<and> length (reQueue r) \<le> reQueueSize r"

lemma fresh_numbers:
  assumes "distinct (a @ b)" "\<forall>n \<in> set (a @ b). 0 < n \<and> n \<le> k"
  shows "distinct (a @ [Suc k..<Suc (k + m)] @ b)" "\<forall>n \<in> set (a @ [Suc k..<Suc (k + m)] @ b). 0 < n \<and> n \<le> k + m"
proof -
  have "\<not> Suc k \<le> n" if "n \<in> set a \<or> n \<in> set b" for n using assms(2) that by (auto simp: not_le less_Suc_eq_le)
  then show "distinct (a @ [Suc k..<Suc (k + m)] @ b)" using assms(1) by (auto simp del: upt_Suc)
  show "\<forall>n \<in> set (a @ [Suc k..<Suc (k + m)] @ b). 0 < n \<and> n \<le> k + m"
    using assms(2) by (auto simp del: upt_Suc dest!: bspec)
qed

lemma drop_simps [simp]:
  "reQueue (dropLocked a n r) = reQueue r" "reSeq (dropLocked a n r) = reSeq r" "dropped (dropLocked a n r) = dropped r + n"
  "reQueueSize (dropLocked a n r) = reQueueSize r"
  "reQueue (rec_fail a r) = reQueue r" "reSeq (rec_fail a r) = reSeq r" "dropped (rec_fail a r) = dropped r"
  "reQueueSize (rec_fail a r) = reQueueSize r"
  "reQueue (count_files r) = reQueue r" "reSeq (count_files r) = reSeq r" "dropped (count_files r) = dropped r"
  "reQueueSize (count_files r) = reQueueSize r"
  "reQueue (on_dir f r) = reQueue r" "reSeq (on_dir f r) = reSeq r" "dropped (on_dir f r) = dropped r"
  "reQueueSize (on_dir f r) = reQueueSize r"
  by (simp_all add: dropLocked_def rec_fail_def count_files_def on_dir_def on_status_def Let_def)

lemma stamp_simps:
  "stamp ids now e r = (e', r') \<Longrightarrow> evSeq e' = Suc (reSeq r) \<and> r' = r\<lparr>reSeq := Suc (reSeq r)\<rparr>"
  by (auto simp: stamp_def Let_def canonical_def)

lemma evSeq_mark [simp]: "evSeq (mark_incomplete e) = evSeq e"
  by (simp add: mark_incomplete_def)

lemma account_push:
  assumes "account r held spooled retried" "length (reQueue r) < reQueueSize r" "evSeq e = Suc (reSeq r)"
  shows "account (r\<lparr>reSeq := Suc (reSeq r), reQueue := reQueue r @ [e]\<rparr>) held spooled retried"
  using assms fresh_numbers [of "map evSeq spooled @ map evSeq held @ map evSeq (reQueue r)" retried "reSeq r" 1]
  by (simp add: account_def placed_def)

lemma account_skip:
  assumes "account r held spooled retried"
  shows "account (dropLocked a (Suc 0) (r\<lparr>reSeq := Suc (reSeq r)\<rparr>)) held spooled retried"
proof -
  have "placed (dropLocked a (Suc 0) (r\<lparr>reSeq := Suc (reSeq r)\<rparr>)) held spooled retried = placed r held spooled retried"
    by (simp add: placed_def)
  with assms show ?thesis by (auto simp: account_def)
qed

lemma account_enqueue:
  assumes "account r held spooled retried"
  shows "account (enqueueLocked C ids now e r) held spooled retried"
proof -
  obtain e' where st: "stamp ids now e r = (e', r\<lparr>reSeq := Suc (reSeq r)\<rparr>)" "evSeq e' = Suc (reSeq r)"
    by (metis prod.exhaust stamp_simps)
  show ?thesis by (simp add: enqueueLocked_def Let_def st account_push [OF assms] account_skip [OF assms])
qed

lemma account_cong:
  "account r held spooled retried \<Longrightarrow> quiet_step r r' \<Longrightarrow> account r' held spooled retried"
  by (simp add: account_def placed_def quiet_step_def)

lemma account_simps [simp]:
  "account (r\<lparr>reFailures := fs\<rparr>) h p t = account r h p t" "account (r\<lparr>reGap := g\<rparr>) h p t = account r h p t"
  "account (r\<lparr>reClosed := b\<rparr>) h p t = account r h p t"
  by (simp_all add: account_def placed_def)

lemma account_drop: "account r h p t \<Longrightarrow> account (dropLocked a n r) h p t"
  by (simp add: account_def placed_def)

lemma account_Emit: "account r held spooled retried \<Longrightarrow> account (Emit C ids now e r) held spooled retried"
  by (auto simp: Emit_def Let_def intro: account_enqueue account_drop split: option.splits)

lemma account_aggregates: "account r held spooled retried \<Longrightarrow> account (aggregates C ids now all order r) held spooled retried"
proof -
  have "account (aggregate_failure C ids now all k r) held spooled retried" if "account r held spooled retried" for k r
    using that by (auto simp: aggregate_failure_def Let_def intro: account_enqueue split: option.splits)
  then have "account (fold (aggregate_failure C ids now all) order r) held spooled retried" if "account r held spooled retried" for order r
    using that by (induction order arbitrary: r) simp_all
  then show "account r held spooled retried \<Longrightarrow> ?thesis"
    by (auto simp: aggregates_def report_gap_def intro!: account_enqueue)
qed

lemma appendBatch_quiet: "quiet_step r (snd (appendBatch C nano answer batch r))"
  by (auto simp: appendBatch_def Let_def quiet_step_def)

lemma stamp_all_spec:
  "stamp_all ids now events r = (es, r') \<Longrightarrow>
     map evSeq es = [Suc (reSeq r)..<Suc (reSeq r + length events)] \<and> length es = length events \<and>
     r' = r\<lparr>reSeq := reSeq r + length events\<rparr>"
proof (induction events arbitrary: r es)
  case (Cons e events)
  obtain e1 r1 es1 where st: "stamp ids now e r = (e1, r1)" and run: "stamp_all ids now events r1 = (es1, r')" and es: "es = e1 # es1"
    using Cons.prems by (auto split: prod.splits)
  from Cons.IH [OF run] stamp_simps [OF st] show ?case by (simp add: es upt_conv_Cons del: upt_Suc)
qed simp

text \<open>Numbers are added as a block, or a block of them is given up and counted.\<close>

lemma account_add:
  assumes "account r held spooled retried" "placed r held spooled retried = a @ b"
    and "placed r' held' spooled' retried' = a @ [Suc (reSeq r)..<Suc (reSeq r + m)] @ b"
    and "reSeq r' = reSeq r + m" "reQueue r' = reQueue r" "reQueueSize r' = reQueueSize r" "dropped r \<le> dropped r'"
  shows "account r' held' spooled' retried'"
  using assms fresh_numbers [of a b "reSeq r" m] by (auto simp: account_def simp del: upt_Suc)

lemma account_remove:
  assumes "account r held spooled retried" "placed r held spooled retried = a @ b @ c"
    and "placed r' held' spooled' retried' = a @ c" "dropped r' = dropped r + length b"
    and "reSeq r' = reSeq r" "length (reQueue r') \<le> length (reQueue r)" "reQueueSize r' = reQueueSize r"
  shows "account r' held' spooled' retried'"
  using assms by (auto simp: account_def)

lemma rec_run_account: "rec_run C ids r held spooled retried \<Longrightarrow> account r held spooled retried"
proof (induction rule: rec_run.induct)
  case (take r spooled retried batch r')
  have "reQueue r = batch @ reQueue r'" "reSeq r' = reSeq r" "dropped r' = dropped r" "reQueueSize r' = reQueueSize r"
    using take.hyps(2) by (auto simp: drain_def)
  then show ?case using take.IH by (simp add: account_def placed_def)
next
  case (store r held spooled retried nano answer)
  obtain ok r' where app: "appendBatch C nano answer held r = (ok, r')" by fastforce
  have quiet: "quiet_step r r'" using appendBatch_quiet [of r C nano answer held] app by simp
  then have acc: "account r' held spooled retried" by (rule account_cong [OF store.IH])
  show ?case
  proof (cases ok)
    case True
    then show ?thesis using acc by (simp add: store_batch_def app account_def placed_def)
  next
    case False
    have "account (dropLocked ''spool_write_failed'' (length held) (rec_fail ''spool_write_failed'' r')) [] spooled retried"
      by (rule account_remove [OF acc, of "map evSeq spooled" "map evSeq held" "map evSeq (reQueue r') @ retried"]) (simp_all add: placed_def)
    then show ?thesis using False by (simp add: store_batch_def app)
  qed
next
  case (recover r held spooled retried now nano answer events ok es r')
  obtain r1 where st: "stamp_all ids now events r = (es, r1)" and app: "appendBatch C nano answer es r1 = (ok, r')"
    using recover.hyps(2) by (auto simp: recover_events_def split: prod.splits)
  have r': "reSeq r' = reSeq r + length es" "reQueue r' = reQueue r" "reQueueSize r' = reQueueSize r" "dropped r \<le> dropped r'"
    and es: "map evSeq es = [Suc (reSeq r)..<Suc (reSeq r + length es)]"
    using appendBatch_quiet [of r1 C nano answer es] app stamp_all_spec [OF st] by (simp_all add: quiet_step_def)
  show ?case
  proof (cases ok)
    case True
    then show ?thesis
      using account_add [OF recover.IH, of "map evSeq spooled" _ r' held "spooled @ es" retried] r' es by (simp add: placed_def del: upt_Suc)
  next
    case False
    then show ?thesis
      using account_add [OF recover.IH, of _ "[]" r' held spooled "retried @ map evSeq es"] r' es by (simp add: placed_def del: upt_Suc)
  qed
next
  case (discard r held spooled retried)
  then show ?case
    using account_remove [of r held spooled retried "map evSeq spooled @ map evSeq held" "map evSeq (reQueue r)" retried "discardQueue r"]
    by (simp add: discardQueue_def placed_def)
next
  case (empty node q m t boot d)
  show ?case by (simp add: empty_recorder_def account_def placed_def)
qed (simp_all add: account_Emit account_aggregates Recorder_Close_def account_cong)

text \<open>A turn of the loop is a path of such pieces, so its effect on the account is covered.\<close>

lemma quiet_trans: "quiet_step r r' \<Longrightarrow> quiet_step r' r'' \<Longrightarrow> quiet_step r r''"
  by (auto simp: quiet_step_def)

lemma quiet_pieces:
  "quiet_step r (count_files r)" "quiet_step r (rec_fail a r)" "quiet_step r (on_dir g r)" "quiet_step r (dropLocked a n r)"
  "quiet_step r (r\<lparr>reSpool := s\<rparr>)" "quiet_step r (r\<lparr>reLock := l\<rparr>)" "quiet_step r r"
  by (simp_all add: quiet_step_def)

lemma quiet_acquire: "quiet_step r (snd (acquire a b c d r))"
  by (auto simp: acquire_def Let_def quiet_step_def split: prod.splits)

lemma quiet_quarantined: "quiet_step r (count_quarantined es r)"
proof (induction es arbitrary: r)
  case (Cons e es)
  show ?case
  proof (cases e)
    case (Quarantined p)
    then show ?thesis using quiet_trans [OF quiet_pieces(4) Cons.IH] by (simp add: count_quarantined_def)
  qed (use Cons in \<open>simp add: count_quarantined_def\<close>)
qed (simp add: count_quarantined_def quiet_pieces)

lemma quiet_deliver: "rec_deliver C E r = (ok, r', es) \<Longrightarrow> quiet_step r r'"
  using quiet_quarantined [of "(if fst (deFiles E) then count_files r else r)\<lparr>reSpool := _\<rparr>"]
  by (auto simp: rec_deliver_def Let_def quiet_step_def split: prod.splits if_splits)

lemma quiet_after: "after_work E ok lp r = (lp', r') \<Longrightarrow> quiet_step r r'"
  by (auto simp: after_work_def on_status_def quiet_step_def rec_fail_def split: if_splits)

lemma backend_path:
  assumes "rec_run C (teIds E) r [] spooled retried" "backend_work C E lp r = (ok, lp', r', es)"
  shows "\<exists>sp re. rec_run C (teIds E) r' [] (spooled @ sp) (retried @ re)"
proof (cases "teReady E")
  case False
  then have "rec_run C (teIds E) r' [] (spooled @ []) (retried @ [])" using assms by (simp add: backend_work_def)
  then show ?thesis by blast
next
  case True
  obtain ok1 r1 es1 where dl: "rec_deliver C (teDeliver E) r = (ok1, r1, es1)" by (metis prod_cases3)
  have r1: "rec_run C (teIds E) r1 [] (spooled @ []) (retried @ [])"
    using rec_run.quiet [OF assms(1) quiet_deliver [OF dl]] by simp
  show ?thesis
  proof (cases "ok1 \<and> \<not> lpRecovered lp \<and> teRecover E \<noteq> None")
    case False
    then have "r' = r1" using assms(2) True dl by (auto simp: backend_work_def Let_def split: if_splits)
    then show ?thesis using r1 by blast
  next
    case rec: True
    then obtain events where events: "teRecover E = Some events" by auto
    obtain ok2 es2 r2 where rv: "recover_events C (teIds E) (teNow E) (fst (teAppend2 E)) (snd (teAppend2 E)) events r1 = (ok2, es2, r2)"
      by (metis prod_cases3)
    have "r' = r2" using assms(2) True dl rec rv events by (auto simp: backend_work_def Let_def split: if_splits)
    then show ?thesis using rec_run.recover [OF r1 rv] by (metis append_Nil2)
  qed
qed

lemma turn_rec_run:
  assumes "rec_run C (teIds E) r [] spooled retried" "turn C E lp r = (fin, lp', r', es)"
  shows "\<exists>spooled' retried'. rec_run C (teIds E) r' [] (spooled @ spooled') (retried @ retried')"
proof -
  let ?r1 = "aggregates C (teIds E) (teNow E) (teStopping E) (teOrder E) r"
  let ?lk = "if reLock ?r1 then (True, ?r1) else acquire (fst (teAcquire E)) (fst (snd (teAcquire E))) (snd (snd (teAcquire E))) (teNames E) ?r1"
  obtain got rl where lk: "?lk = (got, rl)" by fastforce
  have "quiet_step ?r1 rl"
    using quiet_acquire [of ?r1 "fst (teAcquire E)" "fst (snd (teAcquire E))" "snd (snd (teAcquire E))" "teNames E"] lk
    by (cases "reLock ?r1") (auto simp: quiet_pieces)
  then have rl: "rec_run C (teIds E) rl [] spooled retried" by (rule rec_run.quiet [OF rec_run.aggregate [OF assms(1)]])
  note turn = assms(2) [unfolded turn_def Let_def lk fst_conv snd_conv]
  show ?thesis
  proof (cases got)
    case False
    then have "r' = discardQueue (rec_fail ''spool_unavailable'' rl)" using turn by simp
    then have "rec_run C (teIds E) r' [] (spooled @ []) (retried @ [])"
      using rec_run.discard [OF rec_run.quiet [OF rl quiet_pieces(2)]] by simp
    then show ?thesis by blast
  next
    case True
    obtain batch r2 where dr: "drain rl = (batch, r2)" by fastforce
    let ?r3 = "store_batch C (fst (teAppend E)) (snd (teAppend E)) batch r2"
    obtain sp where r3: "rec_run C (teIds E) ?r3 [] (spooled @ sp) retried"
      using rec_run.store [OF rec_run.take [OF rl dr]] by blast
    show ?thesis
    proof (cases "teStopping E \<or> teNow E < lpNext lp")
      case True
      then have "r' = ?r3" using turn \<open>got\<close> dr by (auto split: if_splits)
      then show ?thesis using r3 by (metis append_Nil2)
    next
      case False
      obtain ok lp1 r4 es1 where bw: "backend_work C E lp ?r3 = (ok, lp1, r4, es1)" by (metis prod_cases4)
      obtain lp2 r5 where aw: "after_work E ok lp1 r4 = (lp2, r5)" by fastforce
      have r': "r' = r5" using turn \<open>got\<close> dr False bw aw by simp
      have "\<exists>sp' re'. rec_run C (teIds E) r4 [] (spooled @ sp @ sp') (retried @ re')"
        using backend_path [OF r3 bw] by simp
      then show ?thesis using rec_run.quiet [OF _ quiet_after [OF aw]] r' by blast
    qed
  qed
qed

text \<open>
  C21.  No event is lost uncounted.  However \<^verbatim>\<open>Emit\<close> is interleaved with the pieces of the loop, and whatever fails,
  each sequence number given out belongs to exactly one event that is stored in the spool, held by the loop, waiting in the
  queue, or a recovered snapshot to be read again, or else it is one of at most as many as the status reports as
  dropped.  The queue never grows beyond its capacity.
\<close>

theorem audit_accounting:
  assumes "rec_run C ids r held spooled retried"
  shows "distinct (placed r held spooled retried) \<and> set (placed r held spooled retried) \<subseteq> {1..reSeq r} \<and>
         card ({1..reSeq r} - set (placed r held spooled retried)) \<le> dropped r \<and> length (reQueue r) \<le> reQueueSize r"
proof -
  have acc: "account r held spooled retried" by (rule rec_run_account [OF assms])
  then have sub: "set (placed r held spooled retried) \<subseteq> {1..reSeq r}" by (auto simp: account_def)
  then have "card ({1..reSeq r} - set (placed r held spooled retried)) = reSeq r - length (placed r held spooled retried)"
    using acc by (simp add: card_Diff_subset account_def distinct_card)
  moreover have "reSeq r - length (placed r held spooled retried) \<le> dropped r" using acc unfolding account_def by linarith
  ultimately show ?thesis using acc sub by (simp add: account_def)
qed

section \<open>From the queue to the spool\<close>

lemma HasSuffix_append: "HasSuffix (a @ b) b"
  by (simp add: HasSuffix_def)

lemma spool_name_suffix: "HasSuffix (spool_name nano boot n) ''.jsonl''"
  using HasSuffix_append [of "pad20 (Itoa (int nano)) @ ''-'' @ boot @ ''-'' @ pad20 (Itoa (int n))" "''.jsonl''"]
  by (simp add: spool_name_def)

lemma spool_size_remove: "spool_size (dir_remove p d) \<le> spool_size d"
  by (induction d) (auto simp: spool_size_def dir_remove_def)

lemma file_lines_batch:
  assumes "codec_laws C"
  shows "file_lines (batch_lines C batch) = map (\<lambda>e. mustJSON C e @ [newline]) batch"
  using assms by (induction batch) (simp_all add: batch_lines_def codec_laws_def)

text \<open>
  What is stored can be read back, within the size limit.  When a batch has been appended, there is a file in the spool
  whose lines decode to exactly the events of the batch, in their order, provided each is a valid event that JSON represents exactly and that fits a line; and the
  files of the spool together have at most the configured number of bytes.
\<close>

theorem appendBatch_roundtrip:
  assumes "codec_laws C" "batch \<noteq> []" "\<forall>e \<in> set batch. valid e \<and> Exact C e \<and> length (mustJSON C e) \<le> MaxEventBytes"
    and "appendBatch C nano answer batch r = (True, r')"
  shows "\<exists>p content. HasSuffix p ''.jsonl'' \<and> dir_get (spDir (reSpool r')) p = Some content \<and>
           map (line_event C) (map visit_of (file_lines content)) = map Some batch \<and>
           spool_size (spDir (reSpool r')) \<le> reMaxBytes r"
proof -
  let ?p = "spool_name nano (reBoot r) (evSeq (hd batch))"
  have fit: "spool_size (spDir (reSpool r)) + int (length (batch_lines C batch)) \<le> reMaxBytes r"
    and r': "spDir (reSpool r') = (?p, batch_lines C batch) # dir_remove ?p (spDir (reSpool r))"
    using assms(2,4)
    by (auto simp: appendBatch_def Let_def on_dir_def count_files_def on_status_def split: if_splits)
  have "line_event C (visit_of (mustJSON C e @ [newline])) = Some e" if "e \<in> set batch" for e
  proof -
    have "valid e" "Exact C e" "length (mustJSON C e) \<le> MaxEventBytes" using assms(3) that by auto
    then show ?thesis using assms(1) by (simp add: visit_of_def line_event_def codec_laws_def)
  qed
  then have "map (line_event C) (map visit_of (file_lines (batch_lines C batch))) = map Some batch"
    by (simp add: file_lines_batch [OF assms(1)])
  moreover have "spool_size (spDir (reSpool r')) \<le> reMaxBytes r"
    using fit spool_size_remove [of ?p "spDir (reSpool r)"] spool_name_suffix [of nano "reBoot r" "evSeq (hd batch)"]
    by (simp add: r' spool_size_def)
  ultimately show ?thesis using spool_name_suffix [of nano "reBoot r" "evSeq (hd batch)"] by (auto simp: r')
qed

section \<open>Shutting down\<close>

text \<open>The loop over its turns, until one returns.\<close>

fun turns :: "codec \<Rightarrow> turn_env list \<Rightarrow> loop_state \<Rightarrow> Recorder \<Rightarrow> bool \<times> Recorder" where
  "turns C [] lp r = (False, r)"
| "turns C (E # Es) lp r =
     (case turn C E lp r of (fin, lp', r', es) \<Rightarrow> if fin then (True, r') else turns C Es lp' r')"

lemma enqueue_keeps:
  "reFailures (enqueueLocked C ids now e r) = reFailures r" "reQueueSize (enqueueLocked C ids now e r) = reQueueSize r"
  "length (reQueue (enqueueLocked C ids now e r)) \<le> max (length (reQueue r)) (reQueueSize r)"
  "length (reQueue (enqueueLocked C ids now e r)) \<le> Suc (length (reQueue r))"
  by (auto simp: enqueueLocked_def stamp_def Let_def dropLocked_def on_status_def)

lemma aggregate_all:
  assumes "length (reQueue r) \<le> reQueueSize r"
  shows "length (reQueue (fold (aggregate_failure C ids now True) order r)) \<le> reQueueSize r \<and>
         reQueueSize (fold (aggregate_failure C ids now True) order r) = reQueueSize r \<and>
         fst ` set (reFailures (fold (aggregate_failure C ids now True) order r)) = fst ` set (reFailures r) - set order"
  using assms
proof (induction order arbitrary: r)
  case (Cons k order)
  have "length (reQueue (aggregate_failure C ids now True k r)) \<le> reQueueSize r \<and>
      reQueueSize (aggregate_failure C ids now True k r) = reQueueSize r \<and>
      fst ` set (reFailures (aggregate_failure C ids now True k r)) = fst ` set (reFailures r) - {k}"
    using Cons.prems order_trans [OF enqueue_keeps(3)]
    by (auto simp: aggregate_failure_def Let_def enqueue_keeps map_of_eq_None_iff AList.delete_keys split: option.splits)
      (force simp: AList.delete_eq)+
  then show ?case using Cons.IH [of "aggregate_failure C ids now True k r"] by auto
qed simp

lemma aggregates_all:
  assumes "length (reQueue r) \<le> reQueueSize r" "fst ` set (reFailures r) \<subseteq> set order"
  shows "reFailures (aggregates C ids now True order r) = []"
    "reQueueSize (aggregates C ids now True order r) = reQueueSize r"
    "length (reQueue (aggregates C ids now True order r)) \<le> reQueueSize r"
    "reFailures r = [] \<Longrightarrow> length (reQueue (aggregates C ids now True order r)) \<le> Suc (length (reQueue r))"
proof -
  let ?f = "fold (aggregate_failure C ids now True) order r"
  note all = aggregate_all [OF assms(1), of C ids now order]
  have "fst ` set (reFailures ?f) = {}" unfolding conjunct2 [OF conjunct2 [OF all]] using assms(2) by (rule Diff_eq_empty_iff [THEN iffD2])
  then have "reFailures ?f = []" by (simp only: image_is_empty set_empty)
  with all have f: "length (reQueue ?f) \<le> reQueueSize r" "reQueueSize ?f = reQueueSize r" "reFailures ?f = []" by blast+
  have same: "?f = r" if "reFailures r = []"
    using that by (induction order) (simp_all add: aggregate_failure_def)
  have gap: "reFailures (report_gap C ids now q) = reFailures q" "reQueueSize (report_gap C ids now q) = reQueueSize q"
    "length (reQueue (report_gap C ids now q)) \<le> max (length (reQueue q)) (reQueueSize q)"
    "length (reQueue (report_gap C ids now q)) \<le> Suc (length (reQueue q))" for q
    using enqueue_keeps(3,4) [of C ids now _ "q\<lparr>reGap := 0\<rparr>"] by (auto simp: report_gap_def enqueue_keeps)
  show "reFailures (aggregates C ids now True order r) = []"
    "reQueueSize (aggregates C ids now True order r) = reQueueSize r" by (simp_all add: aggregates_def gap f)
  show "length (reQueue (aggregates C ids now True order r)) \<le> reQueueSize r"
    using gap(3) [of ?f] f by (simp add: aggregates_def)
  show "length (reQueue (aggregates C ids now True order r)) \<le> Suc (length (reQueue r))" if "reFailures r = []"
    using gap(4) [of r] same [OF that] by (simp add: aggregates_def)
qed

lemma queue_frame [simp]:
  "reFailures (dropLocked a n r) = reFailures r" "reFailures (rec_fail a r) = reFailures r"
  "reFailures (count_files r) = reFailures r" "reFailures (on_dir f r) = reFailures r"
  by (simp_all add: dropLocked_def rec_fail_def count_files_def on_dir_def on_status_def Let_def)

lemma acquire_queue [simp]:
  "reQueue (snd (acquire a b c d r)) = reQueue r" "reQueueSize (snd (acquire a b c d r)) = reQueueSize r"
  "reFailures (snd (acquire a b c d r)) = reFailures r"
  by (auto simp: acquire_def Let_def split: prod.splits)

lemma store_queue [simp]:
  "reQueue (store_batch C nano answer b r) = reQueue r" "reQueueSize (store_batch C nano answer b r) = reQueueSize r"
  "reFailures (store_batch C nano answer b r) = reFailures r"
  by (auto simp: store_batch_def appendBatch_def Let_def split: prod.splits if_splits)

lemma stopping_turn:
  assumes "teStopping E" "turn C E lp r = (fin, lp', r', es)" "fst ` set (reFailures r) \<subseteq> set (teOrder E)" "length (reQueue r) \<le> reQueueSize r"
  shows "reFailures r' = []" "reQueueSize r' = reQueueSize r" "length (reQueue r') \<le> reQueueSize r" "fin \<Longrightarrow> reQueue r' = []"
    and "reFailures r = [] \<Longrightarrow> \<not> fin \<Longrightarrow> length (reQueue r') < length (reQueue r)"
proof -
  let ?r1 = "aggregates C (teIds E) (teNow E) True (teOrder E) r"
  note agg = aggregates_all [OF assms(4,3), of C "teIds E" "teNow E"]
  obtain got rl where lk: "(if reLock ?r1 then (True, ?r1)
      else acquire (fst (teAcquire E)) (fst (snd (teAcquire E))) (snd (snd (teAcquire E))) (teNames E) ?r1) = (got, rl)" by fastforce
  have "rl = (if reLock ?r1 then ?r1
      else snd (acquire (fst (teAcquire E)) (fst (snd (teAcquire E))) (snd (snd (teAcquire E))) (teNames E) ?r1))"
    using lk by (auto split: if_splits)
  then have rl: "reQueue rl = reQueue ?r1" "reQueueSize rl = reQueueSize ?r1" "reFailures rl = reFailures ?r1" by simp_all
  note t = assms(2) [unfolded turn_def Let_def assms(1) [THEN eqTrueI] lk fst_conv snd_conv]
  have "got \<Longrightarrow> reQueue r' = drop 256 (reQueue ?r1) \<and> (fin \<longleftrightarrow> drop 256 (reQueue ?r1) = [])"
    "\<not> got \<Longrightarrow> reQueue r' = [] \<and> fin" "reQueueSize r' = reQueueSize rl" "reFailures r' = reFailures rl"
    using t rl by (auto simp: drain_def discardQueue_def split: if_splits)
  with agg rl show "reFailures r' = []" "reQueueSize r' = reQueueSize r" "length (reQueue r') \<le> reQueueSize r" "fin \<Longrightarrow> reQueue r' = []"
    "reFailures r = [] \<Longrightarrow> \<not> fin \<Longrightarrow> length (reQueue r') < length (reQueue r)"
    by (cases got; auto)+
qed

text \<open>
  C35.  Shutting down ends.  Once the loop has been told to stop, and every emitter has been shut out, it returns
  after at most two more turns than the queue has places, whatever the spool answers; what it leaves is an empty queue and no
  unreported failures.
\<close>

theorem recorder_stops:
  assumes "\<forall>E \<in> set (E0 # Es). teStopping E" "fst ` set (reFailures r) \<subseteq> set (teOrder E0)" "length (reQueue r) \<le> reQueueSize r"
    and "reQueueSize r < length Es"
  shows "fst (turns C (E0 # Es) lp r) \<and> reQueue (snd (turns C (E0 # Es) lp r)) = [] \<and> reFailures (snd (turns C (E0 # Es) lp r)) = []"
proof -
  have rest: "fst (turns C Es lp r) \<and> reQueue (snd (turns C Es lp r)) = [] \<and> reFailures (snd (turns C Es lp r)) = []"
    if "\<forall>E \<in> set Es. teStopping E" "reFailures r = []" "length (reQueue r) \<le> reQueueSize r" "length (reQueue r) < length Es" for Es lp r
    using that
  proof (induction Es arbitrary: lp r)
    case (Cons E Es)
    obtain fin lp' r' es where t: "turn C E lp r = (fin, lp', r', es)" by (metis prod_cases4)
    note st = stopping_turn [OF _ t] 
    show ?case using Cons.prems st Cons.IH [of r' lp'] by (cases fin) (auto simp: t)
  qed simp
  obtain fin lp' r' es where t: "turn C E0 lp r = (fin, lp', r', es)" by (metis prod_cases4)
  note st = stopping_turn [OF _ t assms(2,3)]
  show ?thesis using assms(1,4) st rest [of Es r' lp'] by (cases fin) (auto simp: t)
qed

section \<open>The theorems on a small recorder\<close>

definition demo_recorder :: Recorder where
  "demo_recorder = empty_recorder ''n'' 1 0 0 ''0a0a0a0a0a0a0a0a0a0a0a0a0a0a0a0a'' []"

theorem audit_accounting_witness:
  "\<exists>r. rec_run demo_codec (\<lambda>_. []) r [] [] [] \<and> reSeq r = 2 \<and> map evSeq (reQueue r) = [1] \<and>
     card ({1..reSeq r} - set (placed r [] [] [])) \<le> dropped r \<and> dropped r = 1"
proof -
  let ?e = "Emit demo_codec (\<lambda>_. []) 5"
  let ?r = "?e demo_event (?e demo_event demo_recorder)"
  have run: "rec_run demo_codec (\<lambda>_. []) ?r [] [] []"
    unfolding demo_recorder_def by (intro rec_run.emit rec_run.empty)
  have "reSeq ?r = 2 \<and> map evSeq (reQueue ?r) = [1] \<and> dropped ?r = 1"
    by (simp add: Emit_def demo_recorder_def empty_recorder_def enqueueLocked_def stamp_def demo_codec_def MaxEventBytes_def
        RecStatus0_def Let_def canonical_def dropLocked_def on_status_def demo_event_def Event0_def)
  with audit_accounting [OF run] run show ?thesis by (intro exI [of _ ?r]) simp
qed

theorem appendBatch_roundtrip_witness:
  "\<exists>r' p content. appendBatch demo_codec 7 AppendOk [demo_event] demo_recorder = (True, r') \<and>
     dir_get (spDir (reSpool r')) p = Some content \<and> map (line_event demo_codec) (map visit_of (file_lines content)) = [Some demo_event]"
proof -
  obtain r' where app: "appendBatch demo_codec 7 AppendOk [demo_event] demo_recorder = (True, r')"
    by (simp add: appendBatch_def demo_recorder_def empty_recorder_def spool_size_def batch_lines_def demo_codec_def Let_def)
  have "\<exists>p content. HasSuffix p ''.jsonl'' \<and> dir_get (spDir (reSpool r')) p = Some content \<and>
      map (line_event demo_codec) (map visit_of (file_lines content)) = map Some [demo_event] \<and>
      spool_size (spDir (reSpool r')) \<le> reMaxBytes demo_recorder"
    by (rule appendBatch_roundtrip [OF demo_laws _ _ app]) (simp_all add: demo_codec_def MaxEventBytes_def)
  then obtain p content where "dir_get (spDir (reSpool r')) p = Some content"
    "map (line_event demo_codec) (map visit_of (file_lines content)) = [Some demo_event]" by (elim exE conjE) (simp only: list.map)
  with app show ?thesis by (intro exI conjI)
qed

definition demo_turn :: turn_env where
  "demo_turn = \<lparr>teStopping = True, teIds = (\<lambda>_. []), teNow = 5, teOrder = [], teAcquire = (True, \<lambda>_. True, True), teNames = (\<lambda>_. []),
     teAppend = (7, AppendOk), teReady = True, teDeliver = demo_env, teRecover = None, teAppend2 = (8, AppendOk), tePrune = True\<rparr>"

theorem recorder_stops_witness:
  "fst (turns demo_codec [demo_turn, demo_turn, demo_turn] loop0 (Recorder_Close demo_codec (\<lambda>_. []) 5 demo_recorder))"
proof -
  let ?r = "Recorder_Close demo_codec (\<lambda>_. []) 5 demo_recorder"
  have "reFailures ?r = [] \<and> length (reQueue ?r) = 1 \<and> reQueueSize ?r = 1"
    by (simp add: Recorder_Close_def Emit_def demo_recorder_def empty_recorder_def enqueueLocked_def stamp_def demo_codec_def
        MaxEventBytes_def RecStatus0_def Let_def canonical_def Event0_def)
  with recorder_stops [of demo_turn "[demo_turn, demo_turn]" ?r demo_codec loop0] show ?thesis
    by (simp add: demo_turn_def del: turns.simps)
qed

end
