(* ===== verification/Site_Directory.thy ===== *)
theory Site_Directory
  imports Site_Broadcast Rpc_Server Audit_Query Audit_Recorder
begin

text \<open>
  \<^verbatim>\<open>internal/site/directory.go\<close>, the stream handler, \<^verbatim>\<open>admin.go\<close> and the handlers of \<^verbatim>\<open>audit.go\<close>: the list of channels, the relay
  a viewer starts, and what administrators can do.
\<close>

section \<open>The list of channels\<close>

text \<open>What \<^verbatim>\<open>Update\<close> of the catalog answered; \<open>Some None\<close> when the request ended first, \<open>None\<close> without a catalog.\<close>

type_synonym cat_answer = "(CatChannel list \<times> CatStatus list) option option"

definition zero_text :: string where
  "zero_text = replicate 32 CHR ''0''"

definition entry_view :: "CatChannel \<Rightarrow> channelView" where
  "entry_view e =
     \<lparr>cvID = ToLower (ccChannelID e), cvName = ccName e, cvGenre = ccGenre e, cvDescription = ccDescription e,
      cvComment = ccComment e, cvUptime = ccUptime e, cvContactURL = ccContactURL e, cvContentType = ccContentType e, cvBitrate = 0,
      cvReceiving = False, cvListeners = (case ccListeners e of None \<Rightarrow> - 1 | Some n \<Rightarrow> n), cvYellowPage = ccYellowPage e,
      cvPlayable = Some (PublicTracker (ccTracker e))\<rparr>"

text \<open>The loop over the entries; \<open>listed\<close> are the identifiers listed so far.\<close>

fun catalog_rows :: "string list \<Rightarrow> CatChannel list \<Rightarrow> channelView list" where
  "catalog_rows listed [] = []"
| "catalog_rows listed (e # es) =
     (let i = ToLower (ccChannelID e) in
      if i = zero_text \<or> i \<in> set listed then catalog_rows listed es else entry_view e # catalog_rows (i # listed) es)"

text \<open>A row for a channel this node has.\<close>

definition local_row :: "bool \<Rightarrow> channelView \<Rightarrow> channelView \<Rightarrow> channelView" where
  "local_row broadcasting local row =
     (let shown =
        (if cvName local = [] then row
         else local\<lparr>cvYellowPage := cvYellowPage row, cvListeners := cvListeners row,
                cvUptime := (if broadcasting then cvUptime local else cvUptime row)\<rparr>)
      in shown\<lparr>cvPlayable := Some True, cvReceiving := cvReceiving local\<rparr>)"

fun overlay :: "bool \<Rightarrow> channelView \<Rightarrow> channelView list \<Rightarrow> channelView list" where
  "overlay broadcasting local [] = []"
| "overlay broadcasting local (row # rows) =
     (if cvID row \<noteq> cvID local then row # overlay broadcasting local rows else local_row broadcasting local row # rows)"

definition overlay_channel :: "site_env \<Rightarrow> 'a Channel \<Rightarrow> channelView list \<Rightarrow> channelView list" where
  "overlay_channel E ch rows = overlay (isBroadcasting ch) (view E ch) rows"

definition channelList :: "site_env \<Rightarrow> cat_answer \<Rightarrow> 'a Manager \<Rightarrow> (channelView list \<times> CatStatus list) option" where
  "channelList E answer m =
     (case (case answer of None \<Rightarrow> Some ([], []) | Some a \<Rightarrow> a) of
        None \<Rightarrow> None
      | Some (entries, statuses) \<Rightarrow>
          Some (fold (\<lambda>r. overlay_channel E (store m r)) (Manager_List (wnChans E) m) (catalog_rows [] entries), statuses))"

definition site_channels :: "site_env \<Rightarrow> cat_answer \<Rightarrow> 'a site_state \<Rightarrow> 'a site_result" where
  "site_channels E answer st =
     (case channelList E answer (seMgr st) of
        None \<Rightarrow> (status_only 503, st, [])
      | Some (rows, _) \<Rightarrow> (site_reply (JArr (map view_json rows)), st, []))"

text \<open>\<open>T\<close> formats a time and \<open>err\<close> is the text of a failed refresh.\<close>

definition status_json :: "(time \<Rightarrow> string) \<Rightarrow> string \<Rightarrow> CatStatus \<Rightarrow> json" where
  "status_json T err s =
     JObj ([(''name'', JStr (csName s)), (''configured'', JBool (csConfigured s))] @
       (if csError s then omit_empty ''error'' err else []) @ [(''stale'', JBool (csStale s))] @
       (case csUpdatedAt s of None \<Rightarrow> [] | Some t \<Rightarrow> [(''updatedAt'', JStr (T t))]))"

definition site_directory :: "(time \<Rightarrow> string) \<Rightarrow> string \<Rightarrow> site_env \<Rightarrow> cat_answer \<Rightarrow> 'a site_state \<Rightarrow> 'a site_result" where
  "site_directory T err E answer st =
     (case channelList E answer (seMgr st) of
        None \<Rightarrow> (status_only 503, st, [])
      | Some (rows, statuses) \<Rightarrow>
          (site_reply (JObj [(''channels'', JArr (map view_json rows)), (''sources'', JArr (map (status_json T err) statuses))]), st, []))"

section \<open>Starting a relay\<close>

text \<open>The tracker of the first entry with the identifier.\<close>

definition listed_tracker :: "CatChannel list \<Rightarrow> gnuid \<Rightarrow> string" where
  "listed_tracker rows i =
     (case find (\<lambda>row. parseID (ccChannelID row) = Some i \<and> i \<noteq> zeroID) rows of None \<Rightarrow> [] | Some row \<Rightarrow> ccTracker row)"

text \<open>What varies: the handle of a new relay client and whether the viewer is gone by then.\<close>

record watch_env =
  waHandle :: nat
  waGone :: bool

text \<open>The result is the status of an error, if one was answered, and whether the stream may go on.\<close>

definition ensureChannel ::
  "site_env \<Rightarrow> watch_env \<Rightarrow> site_server \<Rightarrow> CatChannel list option \<Rightarrow> gnuid \<Rightarrow> 'a Manager \<Rightarrow>
     (int option \<times> bool) \<times> 'a Manager \<times> 'a mgr_effect list" where
  "ensureChannel E W V catalog i m =
     (if GetByID i m \<noteq> None then ((None, True), m, [])
      else case catalog of
        None \<Rightarrow> ((Some 404, False), m, [])
      | Some rows \<Rightarrow>
          let tracker = listed_tracker rows i;
              n = length (filter (\<lambda>r. \<not> isBroadcasting (store m r)) (Manager_List (wnChans E) m))
          in if \<not> PublicTracker tracker then ((Some 404, False), m, [])
             else if int n \<ge> siMaxRelayChannels (svCfg V) then ((Some 429, False), m, [])
             else if waGone W then ((None, False), m, [])
             else case StartRelay (wnNow E) (waHandle W) i tracker m of
               (Inl _, m', effs) \<Rightarrow> ((Some 503, False), m', effs)
             | (Inr _, m', effs) \<Rightarrow> ((None, True), m', effs))"

text \<open>
  The stream handler up to the proxy: \<open>Inr\<close> is the path the request is passed on to, with the slot taken; otherwise the slot is
  given back and the status, if any, answered.
\<close>

definition site_stream ::
  "site_env \<Rightarrow> watch_env \<Rightarrow> site_server \<Rightarrow> CatChannel list option \<Rightarrow> site_request \<Rightarrow> site_session \<Rightarrow> 'a site_state \<Rightarrow>
     (int option + string) \<times> 'a site_state \<times> 'a site_effect list" where
  "site_stream E W V catalog q ss st =
     (case stream_open V q ss st of
        (Inl n, st1) \<Rightarrow> (Inl (Some n), st1, [])
      | (Inr i, st1) \<Rightarrow>
          (case ensureChannel E W V catalog i (seMgr st1) of
             ((_, True), m, effs) \<Rightarrow> (Inr (''/stream/'' @ sqPathID q), st1\<lparr>seMgr := m\<rparr>, map SiteMgr effs)
           | ((n, False), m, effs) \<Rightarrow> (Inl n, stream_close ss (st1\<lparr>seMgr := m\<rparr>), map SiteMgr effs)))"

section \<open>Administration\<close>

text \<open>
  \<open>media\<close> is the media type \<^verbatim>\<open>mime.ParseMediaType\<close> reads, \<open>H\<close> the handler of the API.  The request passed on is made anew: its
  remote is this machine, it has no headers but the content type, and the session's identity travels beside it.
\<close>

definition forwarded_request :: "site_server \<Rightarrow> site_request \<Rightarrow> site_session \<Rightarrow> json option \<Rightarrow> http_request" where
  "forwarded_request V q ss body =
     \<lparr>hqOrigin = [], hqMethod = sqMethod q, hqRemote = ''127.0.0.1:0'', hqAuth = None, hqActor = Some (auditActor V q (Some ss)), hqBody = body\<rparr>"

definition admin_problem :: "site_server \<Rightarrow> site_request \<Rightarrow> site_session \<Rightarrow> string option \<Rightarrow> int option" where
  "admin_problem V q ss media =
     (if \<not> isAdmin V ss then Some 403
      else if media \<noteq> Some ''application/json'' then Some 415
      else if sqQuery q \<noteq> [] then Some 400
      else None)"

definition adminRPC ::
  "(http_request \<Rightarrow> 'a rpc_state \<Rightarrow> api_response \<times> 'a rpc_state \<times> 'a rpc_effect list) \<Rightarrow>
     site_server \<Rightarrow> site_request \<Rightarrow> site_session \<Rightarrow> string option \<Rightarrow> json option \<Rightarrow> 'a rpc_state \<Rightarrow>
     api_response \<times> 'a rpc_state \<times> 'a rpc_effect list" where
  "adminRPC H V q ss media body st =
     (case admin_problem V q ss media of
        Some n \<Rightarrow> (\<lparr>hrStatus = n, hrHeaders = [], hrBody = ErrorText []\<rparr>, st, [])
      | None \<Rightarrow> H (forwarded_request V q ss body) st)"

text \<open>\<open>rec\<close> is the recorder, if there is one.\<close>

definition RecStatus_json :: "(time \<Rightarrow> string) \<Rightarrow> RecStatus \<Rightarrow> json" where
  "RecStatus_json T s =
     JObj ([(''enabled'', JBool (rsEnabled s)), (''degraded'', JBool (rsDegraded s))] @
       (case rsLastSuccess s of None \<Rightarrow> [] | Some t \<Rightarrow> [(''lastSuccess'', JStr (T t))]) @
       [(''pendingBytes'', jint (rsPendingBytes s)), (''pendingFiles'', jint (int (rsPendingFiles s))),
        (''quarantinedFiles'', jint (int (rsQuarantinedFiles s))), (''queued'', jint (int (rsQueued s))), (''dropped'', jint (int (rsDropped s)))] @
       omit_empty ''reason'' (rsReason s))"

definition auditStatus :: "(time \<Rightarrow> string) \<Rightarrow> site_server \<Rightarrow> site_session \<Rightarrow> Recorder option \<Rightarrow> site_response" where
  "auditStatus T V ss rec =
     (if \<not> isAdmin V ss then status_only 403
      else site_reply (RecStatus_json T (Recorder_Status rec)))"

text \<open>
  \<open>reader\<close> says whether a database is configured, \<open>busy\<close> how many of the two searches are running, and \<open>run\<close> is the query with the
  JSON of its page.
\<close>

definition auditQuery ::
  "(string \<Rightarrow> (time \<times> int) option) \<Rightarrow> (string \<Rightarrow> (position \<times> int) option) \<Rightarrow> site_server \<Rightarrow> site_session \<Rightarrow> string \<Rightarrow>
     (string \<times> string list) list \<Rightarrow> bool \<Rightarrow> nat \<Rightarrow> (Filter \<Rightarrow> json option) \<Rightarrow> site_response" where
  "auditQuery TP CD V ss kind vs reader busy run =
     (if \<not> isAdmin V ss then status_only 403
      else case ParseFilter TP CD kind vs of
        Inl _ \<Rightarrow> status_only 400
      | Inr f \<Rightarrow>
          if \<not> reader then status_only 503
          else if busy \<ge> 2 then status_only 503
          else (case run f of None \<Rightarrow> status_only 503 | Some j \<Rightarrow> site_reply j))"

section \<open>What the list shows\<close>

definition listeners_of :: "CatChannel \<Rightarrow> int" where
  "listeners_of e = (case ccListeners e of None \<Rightarrow> - 1 | Some n \<Rightarrow> n)"

text \<open>A row stays for its entry: what a channel of this node cannot change of it.\<close>

definition row_base :: "channelView \<Rightarrow> string \<times> int \<times> string" where
  "row_base v = (cvID v, cvListeners v, cvYellowPage v)"

lemma local_row_base: "cvID local = cvID row \<Longrightarrow> row_base (local_row b local row) = row_base row"
  by (simp add: row_base_def local_row_def Let_def)

lemma local_row_playable [simp]: "cvPlayable (local_row b local row) = Some True"
  by (simp add: local_row_def Let_def)

lemma overlay_base: "map row_base (overlay b local rows) = map row_base rows"
  by (induction b local rows rule: overlay.induct) (simp_all add: local_row_base)

lemma base_id: "map row_base xs = map row_base ys \<Longrightarrow> map cvID xs = map cvID ys"
  by (drule arg_cong [where f = "map fst"]) (simp add: row_base_def comp_def)

lemma overlay_playable:
  "distinct (map cvID rows) \<Longrightarrow>
     map (\<lambda>v. (cvID v, cvPlayable v)) (overlay b local rows) =
     map (\<lambda>v. (cvID v, if cvID v = cvID local then Some True else cvPlayable v)) rows"
proof (induction rows)
  case (Cons v rows)
  have "cvID (local_row b local v) = cvID v" if "cvID v = cvID local" using that by (simp add: local_row_def Let_def)
  then show ?case using Cons by (auto simp: image_iff)
qed simp

lemma catalog_rows_ids:
  "distinct (map cvID (catalog_rows listed es)) \<and>
   set (map cvID (catalog_rows listed es)) = (\<lambda>e. ToLower (ccChannelID e)) ` set es - insert zero_text (set listed)"
proof (induction listed es rule: catalog_rows.induct)
  case (2 listed e es)
  let ?i = "ToLower (ccChannelID e)"
  have v: "cvID (entry_view e) = ?i" by (simp add: entry_view_def)
  show ?case
  proof (cases "?i = zero_text \<or> ?i \<in> set listed")
    case True
    then show ?thesis using 2(1) [OF refl True] by auto
  next
    case False
    then show ?thesis using 2(2) [OF refl False] by (auto simp: v Let_def)
  qed
qed simp

lemma catalog_rows_first:
  "v \<in> set (catalog_rows listed es) \<Longrightarrow> \<exists>e. find (\<lambda>e. ToLower (ccChannelID e) = cvID v) es = Some e \<and> v = entry_view e"
proof (induction listed es rule: catalog_rows.induct)
  case (2 listed e es)
  let ?i = "ToLower (ccChannelID e)"
  show ?case
  proof (cases "?i = zero_text \<or> ?i \<in> set listed")
    case True
    then have v: "v \<in> set (catalog_rows listed es)" using 2(3) by simp
    moreover have "cvID v \<in> set (map cvID (catalog_rows listed es))" using v by simp
    then have "cvID v \<noteq> ?i" using True catalog_rows_ids [of listed es] by auto
    ultimately show ?thesis using 2(1) [OF refl True] by auto
  next
    case False
    show ?thesis
    proof (cases "v = entry_view e")
      case True
      then show ?thesis by (simp add: entry_view_def)
    next
      case other: False
      then have v: "v \<in> set (catalog_rows (?i # listed) es)" using 2(3) False by (auto simp: Let_def)
      then have "cvID v \<in> set (map cvID (catalog_rows (?i # listed) es))" by simp
      then have "cvID v \<noteq> ?i" using catalog_rows_ids [of "?i # listed" es] by auto
      then show ?thesis using 2(2) [OF refl False v] by auto
    qed
  qed
qed simp

lemma overlays:
  assumes "distinct (map cvID rows)"
  shows "map row_base (fold (\<lambda>r. overlay_channel E (store m r)) rs rows) = map row_base rows \<and>
         map (\<lambda>v. (cvID v, cvPlayable v)) (fold (\<lambda>r. overlay_channel E (store m r)) rs rows) =
         map (\<lambda>v. (cvID v, if \<exists>r\<in>set rs. EncodeToString (chID (store m r)) = cvID v then Some True else cvPlayable v)) rows"
  using assms
proof (induction rs arbitrary: rows)
  case (Cons r rs)
  let ?rows = "overlay_channel E (store m r) rows" and ?i = "EncodeToString (chID (store m r))"
  have i: "cvID (view E (store m r)) = ?i" by (simp add: view_def Let_def)
  have b: "map row_base ?rows = map row_base rows" by (simp add: overlay_channel_def overlay_base)
  have p: "map (\<lambda>v. (cvID v, cvPlayable v)) ?rows = map (\<lambda>v. (cvID v, if cvID v = ?i then Some True else cvPlayable v)) rows"
    unfolding overlay_channel_def overlay_playable [OF Cons.prems] i ..
  let ?f = "\<lambda>(c, p). (c, if \<exists>r\<in>set rs. EncodeToString (chID (store m r)) = c then Some True else p)"
  have "map (\<lambda>v. (cvID v, if \<exists>r\<in>set rs. EncodeToString (chID (store m r)) = cvID v then Some True else cvPlayable v)) ?rows =
        map ?f (map (\<lambda>v. (cvID v, cvPlayable v)) ?rows)" by simp
  also have "\<dots> = map (\<lambda>v. (cvID v, if \<exists>r\<in>set (r # rs). EncodeToString (chID (store m r)) = cvID v then Some True else cvPlayable v)) rows"
    unfolding p by (auto simp: comp_def)
  finally show ?case using Cons.IH [of ?rows] Cons.prems base_id [OF b] b by simp
qed simp

text \<open>
  What the list of channels shows.  It has one row for each identifier of the catalog other than zero and no others; a row's
  yellow page and number of listeners are those of the first entry with the identifier, whatever this node knows of the channel, and
  it is playable exactly if this node has the channel or the entry's tracker is public.
\<close>

theorem directory_rows:
  assumes "channelList E (Some (Some (entries, statuses))) m = Some (rows, ss)"
  shows "distinct (map cvID rows) \<and>
         set (map cvID rows) = (\<lambda>e. ToLower (ccChannelID e)) ` set entries - {zero_text} \<and>
         (\<forall>v\<in>set rows. \<exists>e. find (\<lambda>e. ToLower (ccChannelID e) = cvID v) entries = Some e \<and>
            cvListeners v = listeners_of e \<and> cvYellowPage v = ccYellowPage e \<and>
            cvPlayable v = Some ((\<exists>r\<in>set (Manager_List (wnChans E) m). EncodeToString (chID (store m r)) = cvID v) \<or> PublicTracker (ccTracker e)))"
proof -
  let ?rs = "Manager_List (wnChans E) m" and ?rows = "catalog_rows [] entries"
  let ?have = "\<lambda>i. \<exists>r\<in>set ?rs. EncodeToString (chID (store m r)) = i"
  have rows: "rows = fold (\<lambda>r. overlay_channel E (store m r)) ?rs ?rows" using assms by (simp add: channelList_def)
  note ids = catalog_rows_ids [of "[]" entries]
  note base = overlays [OF ids [THEN conjunct1], of E m ?rs, folded rows]
  have "\<exists>e. find (\<lambda>e. ToLower (ccChannelID e) = cvID v) entries = Some e \<and>
      cvListeners v = listeners_of e \<and> cvYellowPage v = ccYellowPage e \<and> cvPlayable v = Some (?have (cvID v) \<or> PublicTracker (ccTracker e))"
    if v: "v \<in> set rows" for v
  proof -
    obtain n where n: "n < length rows" "v = rows ! n" using v by (auto simp: in_set_conv_nth)
    have len: "length rows = length ?rows" using base map_eq_imp_length_eq by blast
    let ?w = "?rows ! n"
    have w: "row_base v = row_base ?w" "(cvID v, cvPlayable v) = (cvID ?w, if ?have (cvID ?w) then Some True else cvPlayable ?w)"
      using arg_cong [OF base [THEN conjunct1], of "\<lambda>l. l ! n"] arg_cong [OF base [THEN conjunct2], of "\<lambda>l. l ! n"] n len by auto
    obtain e where "find (\<lambda>e. ToLower (ccChannelID e) = cvID ?w) entries = Some e" "?w = entry_view e"
      using catalog_rows_first [of ?w "[]" entries] n len by auto
    then show ?thesis using w by (auto simp: row_base_def entry_view_def listeners_of_def)
  qed
  moreover have "map cvID rows = map cvID ?rows" by (rule base_id) (use base in blast)
  ultimately show ?thesis using ids by simp
qed

definition demo_entry :: "string \<Rightarrow> string \<Rightarrow> CatChannel" where
  "demo_entry i tracker =
     \<lparr>ccYellowPage = ''YP'', ccName = ''Chess'', ccChannelID = i, ccTracker = tracker, ccContactURL = [], ccGenre = [], ccDescription = [],
      ccComment = [], ccContentType = ''FLV'', ccCreator = [], ccAlbum = [], ccTrackTitle = [], ccTrackURL = [], ccListeners = Some 7,
      ccRelays = None, ccBitrate = None, ccUptime = None\<rparr>"

definition demo_entries :: "CatChannel list" where
  "demo_entries = [demo_entry (replicate 32 CHR ''a'') ''8.8.8.8:7144'', demo_entry (replicate 32 CHR ''A'') [], demo_entry zero_text []]"

lemma demo_public: "PublicTracker ''8.8.8.8:7144''" "\<not> PublicTracker []"
  by code_simp+

lemma directory_rows_witness:
  "\<exists>rows. channelList (demo_site_env True) (Some (Some (demo_entries, []))) (seMgr demo_owner_state) = Some (rows, []) \<and>
     map cvID rows = [replicate 32 CHR ''a''] \<and> map cvListeners rows = [7] \<and> map cvPlayable rows = [Some True]"
proof -
  have l: "Manager_List (wnChans (demo_site_env True)) (seMgr demo_owner_state) = []"
    by (simp add: Manager_List_def demo_site_env_def List.map_filter_def)
  have t: "ToLower (replicate 32 CHR ''a'') = replicate 32 CHR ''a''" "ToLower (replicate 32 CHR ''A'') = replicate 32 CHR ''a''"
    "ToLower zero_text = zero_text" "replicate 32 CHR ''a'' \<noteq> zero_text"
    by code_simp+
  define rows where "rows = catalog_rows [] demo_entries"
  have c: "channelList (demo_site_env True) (Some (Some (demo_entries, []))) (seMgr demo_owner_state) = Some (rows, [])"
    by (simp add: channelList_def l rows_def)
  note d = directory_rows [OF c]
  have s: "set (map cvID rows) = {replicate 32 CHR ''a''}"
    using d t by (auto simp: demo_entries_def demo_entry_def)
  moreover have "length (map cvID rows) = 1"
    using distinct_card [OF d [THEN conjunct1]] s by simp
  ultimately obtain v where v: "rows = [v]" "cvID v = replicate 32 CHR ''a''" by (cases rows) auto
  have "cvListeners v = 7 \<and> cvPlayable v = Some True"
    using d v t demo_public by (auto simp: l demo_entries_def demo_entry_def listeners_of_def)
  with c v show ?thesis by simp
qed

section \<open>What viewers can start\<close>

lemma find_listed:
  assumes "PublicTracker (listed_tracker rows i)"
  shows "i \<noteq> zeroID \<and> (\<exists>row\<in>set rows. parseID (ccChannelID row) = Some i \<and> ccTracker row = listed_tracker rows i)"
proof (cases "find (\<lambda>row. parseID (ccChannelID row) = Some i \<and> i \<noteq> zeroID) rows")
  case None
  then show ?thesis using assms demo_public(2) by (simp add: listed_tracker_def)
next
  case (Some row)
  then have "row \<in> set rows" "parseID (ccChannelID row) = Some i \<and> i \<noteq> zeroID"
    using find_found by fastforce+
  then show ?thesis using Some by (auto simp: listed_tracker_def)
qed

lemma StartRelay_Inl: "StartRelay now h i a m = (Inl e, m', effs) \<Longrightarrow> m' = m \<and> effs = []"
  by (auto simp: StartRelay_def alloc_def Let_def split: if_splits option.splits)

lemma StartRelay_Inr: "StartRelay now h i a m = (Inr r, m', effs) \<Longrightarrow> byID m' i = Some r"
  by (auto simp: StartRelay_def alloc_def Let_def split: if_splits option.splits)

definition relays_watched :: "site_env \<Rightarrow> 'a Manager \<Rightarrow> int" where
  "relays_watched E m = int (length (filter (\<lambda>r. \<not> isBroadcasting (store m r)) (Manager_List (wnChans E) m)))"

lemma ensureChannel_known: "byID m i \<noteq> None \<Longrightarrow> ensureChannel E W V catalog i m = ((None, True), m, [])"
  by (simp add: ensureChannel_def GetByID_def)

lemma ensureChannel_new:
  "byID m i = None \<Longrightarrow> ensureChannel E W V (Some rows) i m =
     (if \<not> PublicTracker (listed_tracker rows i) then ((Some 404, False), m, [])
      else if relays_watched E m \<ge> siMaxRelayChannels (svCfg V) then ((Some 429, False), m, [])
      else if waGone W then ((None, False), m, [])
      else case StartRelay (wnNow E) (waHandle W) i (listed_tracker rows i) m of
        (Inl _, m', effs) \<Rightarrow> ((Some 503, False), m', effs)
      | (Inr _, m', effs) \<Rightarrow> ((None, True), m', effs))"
  "byID m i = None \<Longrightarrow> ensureChannel E W V None i m = ((Some 404, False), m, [])"
  by (simp_all add: ensureChannel_def GetByID_def relays_watched_def Let_def)

lemma ensureChannel_refused:
  assumes "ensureChannel E W V catalog i m = ((n, False), m', effs)"
  shows "m' = m \<and> effs = []"
proof (cases "byID m i")
  case None
  then show ?thesis using assms
    by (cases catalog) (auto simp: ensureChannel_new split: if_splits prod.splits sum.splits dest: StartRelay_Inl)
qed (use assms ensureChannel_known in force)

lemma ensureChannel_starts:
  assumes "ensureChannel E W V catalog i m = ((n, True), m', effs)"
  shows "byID m i \<noteq> None \<and> m' = m \<and> effs = [] \<or>
         (\<exists>rows r. catalog = Some rows \<and> byID m i = None \<and> PublicTracker (listed_tracker rows i) \<and>
            relays_watched E m < siMaxRelayChannels (svCfg V) \<and>
            StartRelay (wnNow E) (waHandle W) i (listed_tracker rows i) m = (Inr r, m', effs))"
proof (cases "byID m i")
  case None
  then show ?thesis using assms
    by (cases catalog) (auto simp: ensureChannel_new split: if_splits prod.splits sum.splits)
qed (use assms ensureChannel_known in force)

lemma slot_returned:
  assumes "stream_open V q ss st = (Inr i, st1)" "seViewers st (usID (ssUser ss)) \<noteq> Some 0"
  shows "stream_close ss st1 = st"
proof -
  have "st1 = st\<lparr>seTotal := seTotal st + 1, seViewers := (seViewers st)(usID (ssUser ss) \<mapsto> viewers_of (usID (ssUser ss)) st + 1)\<rparr>"
    using assms(1) by (auto simp: stream_open_def Let_def split: option.splits if_splits)
  then show ?thesis using assms(2) by (auto simp: stream_close_def viewers_of_def Let_def fun_eq_iff split: option.splits)
qed


definition demo_watch :: watch_env where
  "demo_watch = \<lparr>waHandle = 3, waGone = False\<rparr>"

definition demo_viewer :: "string \<Rightarrow> site_request" where
  "demo_viewer i = demo_site_request\<lparr>sqMethod := ''GET'', sqPathID := i\<rparr>"


section \<open>Administrators through the site\<close>

definition by_actor :: "rpc_server \<Rightarrow> 'a rpc_effect list \<Rightarrow> bool" where
  "by_actor S effs = (\<forall>e. RpcAudit e \<in> set effs \<longrightarrow> evActor e = rvActor S)"

lemma by_actor_simps [simp]: "by_actor S []" "by_actor S (xs @ ys) = (by_actor S xs \<and> by_actor S ys)"
  "by_actor S (RpcMgr x # xs) = by_actor S xs" "by_actor S (RpcBump # xs) = by_actor S xs" "by_actor S (map RpcMgr ms)"
  "by_actor S (auditEvent S st e)" "by_actor S (failure_event S method st)"
  by (auto simp: by_actor_def auditEvent_def failure_event_def)

lemma by_actor_comp [simp]: "by_actor S (map (RpcMgr \<circ> f) ms)"
  by (auto simp: by_actor_def)

lemma by_actor_bump [simp]: "by_actor S (bump_yp S)"
  by (simp add: bump_yp_def)

lemma by_actor_queries [simp]:
  "by_actor S (snd (snd (fails e st)))" "by_actor S (snd (snd (answers j st)))"
  by (simp_all add: fails_def answers_def)

lemma on_channel_arg_actor: "(\<And>r st. by_actor S (snd (snd (f r st)))) \<Longrightarrow> by_actor S (snd (snd (on_channel_arg j f st)))"
  by (auto simp: on_channel_arg_def split: sum.splits)

lemma withChannel_actor: "(\<And>r st. by_actor S (snd (snd (f r st)))) \<Longrightarrow> by_actor S (snd (snd (withChannel params f st)))"
  by (auto simp: withChannel_def intro: on_channel_arg_actor split: option.splits list.splits)

lemma set_info_actor: "by_actor S (snd (snd (set_info E S i t r st)))"
  by (auto simp: set_info_def on_store_def split: prod.splits)

lemma changes_actor:
  "by_actor S (snd (snd (rpc_issueStreamKey E S params st)))"
  "by_actor S (snd (snd (rpc_revokeStreamKey E S params st)))"
  "by_actor S (snd (snd (rpc_broadcastChannel E S params st)))"
  "by_actor S (snd (snd (rpc_setChannelInfo E S params st)))"
  "by_actor S (snd (snd (rpc_stopChannel E S r st)))"
  "by_actor S (snd (snd (bumpChannelWithParams E S params st)))"
  "by_actor S (snd (snd (rpc_stopChannelConnection E params st)))"
  "by_actor S (snd (snd (rpc_updateYPChannels E st)))"
  subgoal by (auto simp: rpc_issueStreamKey_def Let_def split: option.splits list.splits prod.splits sum.splits if_splits)
  subgoal by (auto simp: rpc_revokeStreamKey_def split: option.splits list.splits prod.splits bool.splits)
  subgoal by (auto simp: rpc_broadcastChannel_def split: option.splits list.splits prod.splits sum.splits if_splits)
  subgoal by (auto simp: rpc_setChannelInfo_def set_info_actor intro!: on_channel_arg_actor split: option.splits list.splits)
  subgoal by (auto simp: rpc_stopChannel_def split: prod.splits)
  subgoal
    by (auto simp: bumpChannelWithParams_def rpc_bumpChannel_def intro!: on_channel_arg_actor withChannel_actor
        split: option.splits json.splits prod.splits)
  subgoal
    by (auto simp: rpc_stopChannelConnection_def stop_connection_def Let_def intro!: on_channel_arg_actor
        split: option.splits list.splits prod.splits)
  subgoal by (simp add: rpc_updateYPChannels_def Let_def)
  done

lemma dispatch_actor: "by_actor S (snd (snd (dispatch P E S method params st)))"
  unfolding dispatch_def rpc_getVersionInfo_def rpc_getSettings_def rpc_listStreamKeys_def rpc_getChannels_def rpc_getYellowPages_def Let_def
    rpc_getChannelInfo_def rpc_getChannelStatus_def rpc_getChannelConnections_def rpc_getChannelRelayTree_def
  by (simp add: changes_actor withChannel_actor)

lemma serve_actor: "by_actor (S\<lparr>rvActor := request_actor q\<rparr>) (snd (snd (serve_rpc T P E S q st)))"
proof (cases "unmarshal into_request rpcRequest0 (hqBody q)")
  case (Some r)
  obtain x st' effs where d: "dispatch P E (S\<lparr>rvActor := request_actor q\<rparr>) (rqMethod r) (rqParams r) st = (x, st', effs)"
    by (metis prod_cases3)
  then show ?thesis using Some dispatch_actor [of "S\<lparr>rvActor := request_actor q\<rparr>" P E "rqMethod r" "rqParams r" st]
    by (cases x) (simp_all add: serve_rpc_def Let_def)
qed (simp add: serve_rpc_def)


definition demo_admin_site :: site_server where
  "demo_admin_site = demo_site_server\<lparr>svAdmins := [''42'']\<rparr>"


end
