(* ===== verification/Catalog_Text.thy ===== *)
theory Catalog_Text
  imports Catalog
begin

text \<open>
  The text of a channel list as YPs write it, \<^verbatim>\<open>index.txt\<close>, and that the catalog reads it back.
\<close>



lemma Index_sep: "CHR ''<'' \<notin> set x \<Longrightarrow> Index (x @ ''<>'' @ r) ''<>'' = Some (length x)"
  by (induction x) (auto simp: HasPrefix_def)

lemma Index_no_sep: "CHR ''<'' \<notin> set x \<Longrightarrow> Index x ''<>'' = None"
  by (induction x) (auto simp: HasPrefix_def)

lemma Split_sep:
  "CHR ''<'' \<notin> set x \<Longrightarrow> Split (x @ ''<>'' @ r) ''<>'' = x # Split r ''<>''"
  "CHR ''<'' \<notin> set x \<Longrightarrow> Split x ''<>'' = [x]"
proof -
  show "Split (x @ ''<>'' @ r) ''<>'' = x # Split r ''<>''" if "CHR ''<'' \<notin> set x"
    using Index_sep [OF that, of r] by (subst Split.simps) simp
  show "CHR ''<'' \<notin> set x \<Longrightarrow> Split x ''<>'' = [x]" by (subst Split.simps) (simp add: Index_no_sep)
qed

fun join_sep :: "string list \<Rightarrow> string" where
  "join_sep [] = []"
| "join_sep [w] = w"
| "join_sep (w # v # ws) = w @ ''<>'' @ join_sep (v # ws)"

lemma Split_join: "ws \<noteq> [] \<Longrightarrow> \<forall>w \<in> set ws. CHR ''<'' \<notin> set w \<Longrightarrow> Split (join_sep ws) ''<>'' = ws"
proof (induction ws rule: join_sep.induct)
  case (3 w v ws)
  then show ?case using Split_sep(1) [of w "join_sep (v # ws)"] by simp
qed (auto simp: Split_sep(2))

lemma join_sep_set: "c \<noteq> CHR ''<'' \<Longrightarrow> c \<noteq> CHR ''>'' \<Longrightarrow> c \<in> set (join_sep ws) \<Longrightarrow> \<exists>w \<in> set ws. c \<in> set w"
  by (induction ws rule: join_sep.induct) auto

lemma join_sep_last: "ws \<noteq> [] \<Longrightarrow> last ws \<noteq> [] \<Longrightarrow> join_sep ws \<noteq> [] \<and> last (join_sep ws) = last (last ws)"
  by (induction ws rule: join_sep.induct) auto

lemma trim_left_keeps:
  "c \<in> set s \<Longrightarrow> \<forall>w \<in> set ws. c \<notin> set w \<Longrightarrow> c \<in> set (trim_left ws s)"
proof (induction ws s rule: trim_left.induct)
  case (1 ws s)
  show ?case
  proof (cases "find (\<lambda>w. w \<noteq> [] \<and> HasPrefix s w) ws")
    case None
    then show ?thesis using 1 by (subst trim_left.simps) simp
  next
    case (Some w)
    then have w: "w \<in> set ws" "HasPrefix s w" by (auto simp: find_Some_iff)
    then have "c \<in> set (drop (length w) s)" using 1(2,3) by (auto simp: HasPrefix_iff)
    then show ?thesis using 1(1) [OF Some] 1(3) Some by (subst trim_left.simps) simp
  qed
qed

lemma space_plain: "w \<in> set space_encodings \<Longrightarrow> CHR ''0'' \<notin> set w"
proof
  assume "w \<in> set space_encodings" "CHR ''0'' \<in> set w"
  then have "48 \<in> char_code ` set w" by force
  moreover have "48 \<notin> char_code ` set w" using \<open>w \<in> set space_encodings\<close>
    by (auto simp: space_encodings_def code_string_def upt_conv_Cons)
  ultimately show False by blast
qed

lemma TrimSpace_zero:
  assumes "CHR ''0'' \<in> set s"
  shows "TrimSpace s \<noteq> []"
proof -
  have "CHR ''0'' \<in> set (trim_left (map rev space_encodings) (rev (trim_left space_encodings s)))"
    by (rule trim_left_keeps) (use trim_left_keeps [OF assms] space_plain in auto)
  then show ?thesis by (auto simp: TrimSpace_def)
qed

text \<open>Visible text is not trimmed.\<close>

lemma TrimSpace_visible:
  assumes "\<forall>c \<in> set s. char_code c \<in> {33..<128}"
  shows "TrimSpace s = s"
proof (cases "s = []")
  case True
  have "find (\<lambda>w. w \<noteq> [] \<and> HasPrefix [] w) ws = None" for ws :: "string list" by (auto simp: find_None_iff HasPrefix_def)
  then have "trim_left ws [] = []" for ws by (subst trim_left.simps) simp
  then show ?thesis by (simp add: TrimSpace_def True)
next
  case False
  have "trim_left space_encodings s = s"
    by (rule trim_left_id) (use assms False space_heads in \<open>cases s; fastforce\<close>)+
  moreover have "trim_left (map rev space_encodings) (rev s) = rev s"
  proof (rule trim_left_id)
    show "\<forall>w \<in> set (map rev space_encodings). w = [] \<or> hd w \<noteq> hd (rev s)"
    proof
      fix w assume "w \<in> set (map rev space_encodings)"
      then obtain v where "w = rev v" "v \<in> set space_encodings" by auto
      with space_heads [of v] assms False have "hd w \<noteq> hd (rev s)" by (auto simp: hd_rev)
      then show "w = [] \<or> hd w \<noteq> hd (rev s)" by blast
    qed
  qed (simp add: False)
  ultimately show ?thesis by (simp add: TrimSpace_def)
qed

lemma Itoa_chars: "c \<in> set (Itoa i) \<Longrightarrow> c = CHR ''-'' \<or> (48 \<le> char_code c \<and> char_code c \<le> 57)"
  by (auto simp: Itoa_def dest: Itoa_nat_no_sep split: if_splits)

lemma integer_Itoa:
  assumes "- (2 ^ 63) \<le> i" "i < 2 ^ 63"
  shows "integer (Itoa i) = Some i"
proof -
  have "\<forall>c \<in> set (Itoa i). char_code c \<in> {33..<128}" using Itoa_chars [of _ i] by fastforce
  then have "TrimSpace (Itoa i) = Itoa i" by (rule TrimSpace_visible)
  moreover have "Atoi (Itoa i) = Some i"
  proof (cases "i < 0")
    case True
    then show ?thesis using assms by (simp add: Itoa_def Atoi_def Let_def)
  next
    case False
    then show ?thesis using assms Atoi_Itoa_nat [of "nat i"] by (simp add: Itoa_def nat_less_iff)
  qed
  ultimately show ?thesis by (simp add: integer_def)
qed

definition uptime_text :: "nat \<Rightarrow> nat \<Rightarrow> string" where
  "uptime_text h m = Itoa (int h) @ '':'' @ Itoa (int m)"

lemma Index_colon: "CHR '':'' \<notin> set x \<Longrightarrow> Index (x @ CHR '':'' # r) '':'' = Some (length x)" "CHR '':'' \<notin> set x \<Longrightarrow> Index x '':'' = None"
  by (induction x) (auto simp: HasPrefix_def)

lemma uptime_uptime_text:
  assumes "h \<le> 1000000" "m \<le> 59"
  shows "uptime (uptime_text h m) = Some ((int h * 60 + int m) * 60)"
proof -
  have c: "CHR '':'' \<notin> set (Itoa i)" for i by (auto dest: Itoa_chars)
  have "Split (Itoa (int m)) '':'' = [Itoa (int m)]" using Index_colon(2) [OF c] by (subst Split.simps) simp
  then have "Split (uptime_text h m) '':'' = [Itoa (int h), Itoa (int m)]"
    using Index_colon(1) [OF c] by (subst Split.simps) (simp add: uptime_text_def)
  then show ?thesis using assms integer_Itoa [of "int h"] integer_Itoa [of "int m"] by (simp add: uptime_def)
qed

lemma hex_val_upper: "hex_val (upper_char c) = hex_val c"
  by (auto simp: hex_val_def upper_char_def Let_def)

lemma DecodeString_upper: "DecodeString (map upper_char s) = DecodeString s"
  by (induction s rule: DecodeString.induct) (simp_all add: hex_val_upper split: option.splits)

lemma upper_upper: "upper_char (upper_char c) = upper_char c"
proof (cases "97 \<le> char_code c \<and> char_code c \<le> 122")
  case True
  then have "char_code c - 32 < 256" by linarith
  then have "(char_code c - 32) mod 256 = char_code c - 32" by (rule mod_less)
  then have "char_code (upper_char c) = char_code c - 32" using True by (simp add: upper_char_def)
  moreover have "\<not> 97 \<le> char_code c - 32" using True by linarith
  ultimately show ?thesis by (simp add: upper_char_def [of "upper_char c"])
next
  case False
  then have "upper_char c = c" unfolding upper_char_def by (simp only: if_False)
  then show ?thesis by simp
qed

lemma hex_char_plain: "n < 16 \<Longrightarrow> char_code (hex_char n) \<in> {48..57} \<union> {97..102}"
  by (auto simp: hex_char_def)

lemma EncodeToString_chars: "c \<in> set (EncodeToString bs) \<Longrightarrow> char_code c \<in> {48..57} \<union> {97..102}"
proof (induction bs)
  case (Cons b bs)
  have "unat b div 16 < 16" "unat b mod 16 < 16" using unat_bound256 [of b] by auto
  then have "char_code (hex_char (unat b div 16)) \<in> {48..57} \<union> {97..102}" "char_code (hex_char (unat b mod 16)) \<in> {48..57} \<union> {97..102}"
    by (simp_all only: hex_char_plain)
  then show ?case using Cons by (auto simp del: Un_iff)
qed simp

section \<open>The text of a channel list\<close>

definition the_or :: "int option \<Rightarrow> int" where
  "the_or n = (case n of None \<Rightarrow> 0 | Some i \<Rightarrow> i)"

text \<open>\<open>E\<close> escapes a text, the pair is the time since the start in hours and minutes.\<close>

definition index_fields :: "(string \<Rightarrow> string) \<Rightarrow> nat \<times> nat \<Rightarrow> CatChannel \<Rightarrow> string list" where
  "index_fields E up c =
     [E (ccName c), ccChannelID c, E (ccTracker c), E (ccContactURL c), E (ccGenre c), E (ccDescription c),
      Itoa (the_or (ccListeners c)), Itoa (the_or (ccRelays c)), Itoa (the_or (ccBitrate c)), E (ccContentType c),
      E (ccCreator c), E (ccAlbum c), E (ccTrackTitle c), E (ccTrackURL c), [], E (uptime_text (fst up) (snd up)), ''click'',
      E (ccComment c), ''0'']"

definition index_line :: "(string \<Rightarrow> string) \<Rightarrow> (nat \<times> nat) \<times> CatChannel \<Rightarrow> string" where
  "index_line E x = join_sep (index_fields E (fst x) (snd x))"

definition index_text :: "(string \<Rightarrow> string) \<Rightarrow> ((nat \<times> nat) \<times> CatChannel) list \<Rightarrow> string" where
  "index_text E xs = concat (map (\<lambda>x. index_line E x @ [LF_char]) xs)"

text \<open>A text that survives: its escaped form has no separator and no line break.\<close>

definition clean_text :: "(string \<Rightarrow> string) \<Rightarrow> (string \<Rightarrow> string) \<Rightarrow> string \<Rightarrow> bool" where
  "clean_text H E t \<longleftrightarrow> H (E t) = t \<and> CHR ''<'' \<notin> set (E t) \<and> LF_char \<notin> set (E t)"

definition int64 :: "int option \<Rightarrow> bool" where
  "int64 n \<longleftrightarrow> (case n of None \<Rightarrow> False | Some i \<Rightarrow> - (2 ^ 63) \<le> i \<and> i < 2 ^ 63)"

definition listable :: "(string \<Rightarrow> string) \<Rightarrow> (string \<Rightarrow> string) \<Rightarrow> string \<Rightarrow> (nat \<times> nat) \<times> CatChannel \<Rightarrow> bool" where
  "listable H E name x \<longleftrightarrow>
     (case x of ((h, m), c) \<Rightarrow>
        ccYellowPage c = name \<and> h \<le> 1000000 \<and> m \<le> 59 \<and> ccUptime c = Some ((int h * 60 + int m) * 60) \<and>
        (\<exists>b. length b = 16 \<and> ccChannelID c = map upper_char (EncodeToString b)) \<and>
        int64 (ccListeners c) \<and> int64 (ccRelays c) \<and> int64 (ccBitrate c) \<and>
        list_all (clean_text H E) [ccName c, ccTracker c, ccContactURL c, ccGenre c, ccDescription c, ccContentType c, ccCreator c,
          ccAlbum c, ccTrackTitle c, ccTrackURL c, uptime_text h m, ccComment c])"

lemma index_fields_plain:
  assumes "listable H E name x" "w \<in> set (index_fields E (fst x) (snd x))"
  shows "CHR ''<'' \<notin> set w \<and> LF_char \<notin> set w"
proof -
  have u: "char_code (upper_char c) = 60 \<Longrightarrow> char_code c = 60" "char_code (upper_char c) = 10 \<Longrightarrow> char_code c = 10" for c
    by (auto simp: upper_char_def split: if_splits)
  have "CHR ''<'' \<notin> set (map upper_char (EncodeToString b)) \<and> LF_char \<notin> set (map upper_char (EncodeToString b))" for b
  proof -
    have "char_code (upper_char c) \<noteq> 60 \<and> char_code (upper_char c) \<noteq> 10" if "c \<in> set (EncodeToString b)" for c
      using EncodeToString_chars [OF that] u [of c] by auto
    then have "60 \<notin> char_code ` set (map upper_char (EncodeToString b))" "10 \<notin> char_code ` set (map upper_char (EncodeToString b))"
      by force+
    moreover have "char_code (CHR ''<'') = 60" "char_code LF_char = 10" by (simp_all add: LF_char_def)
    ultimately show ?thesis by (metis imageI)
  qed
  moreover have "CHR ''<'' \<notin> set (Itoa i) \<and> LF_char \<notin> set (Itoa i)" for i using Itoa_chars [of _ i] by (fastforce simp: LF_char_def)
  ultimately show ?thesis
    using assms unfolding listable_def index_fields_def
    by (auto simp: clean_text_def LF_char_def split: prod.splits simp del: set_map)
qed

lemma index_line_plain: "listable H E name x \<Longrightarrow> LF_char \<notin> set (index_line E x)"
  using index_fields_plain [of H E name x] join_sep_set [of LF_char] by (force simp: index_line_def LF_char_def)

lemma parse_index_line:
  assumes "listable H E name x"
  shows "Split (TrimSuffix (index_line E x) [CR]) ''<>'' = index_fields E (fst x) (snd x)"
    "TrimSuffix (index_line E x) [CR] = index_line E x" "TrimSpace (index_line E x) \<noteq> []"
    "row_of H name (index_fields E (fst x) (snd x)) = snd x"
    "\<exists>b. DecodeString (index_fields E (fst x) (snd x) ! 1) = Some b \<and> length b = 16"
proof -
  let ?f = "index_fields E (fst x) (snd x)"
  have last: "index_line E x \<noteq> []" "last (index_line E x) = CHR ''0''"
    using join_sep_last [of ?f] by (simp_all add: index_line_def index_fields_def)
  have "\<not> HasSuffix (index_line E x) [CR]"
  proof
    assume "HasSuffix (index_line E x) [CR]"
    then have "last (index_line E x) = CR" by (metis HasSuffix_def last_drop last.simps append_take_drop_id last_appendR list.discI)
    then show False using last(2) by (simp add: CR_def)
  qed
  then show t: "TrimSuffix (index_line E x) [CR] = index_line E x" by (simp add: TrimSuffix_def)
  show "Split (TrimSuffix (index_line E x) [CR]) ''<>'' = ?f"
    unfolding t unfolding index_line_def by (rule Split_join) (use index_fields_plain [OF assms] in \<open>auto simp: index_fields_def\<close>)
  show "TrimSpace (index_line E x) \<noteq> []" by (rule TrimSpace_zero) (metis last last_in_set)
  obtain h m c b where x: "x = ((h, m), c)" "ccYellowPage c = name" "h \<le> 1000000" "m \<le> 59" "ccUptime c = Some ((int h * 60 + int m) * 60)"
    and b: "length b = 16" "ccChannelID c = map upper_char (EncodeToString b)"
    and i: "int64 (ccListeners c)" "int64 (ccRelays c)" "int64 (ccBitrate c)"
    and texts: "list_all (clean_text H E) [ccName c, ccTracker c, ccContactURL c, ccGenre c, ccDescription c, ccContentType c, ccCreator c,
          ccAlbum c, ccTrackTitle c, ccTrackURL c, uptime_text h m, ccComment c]"
    using assms by (auto simp: listable_def split: prod.splits)
  have n: "integer (Itoa (the_or k)) = k" if "int64 k" for k
    using that integer_Itoa by (auto simp: int64_def the_or_def split: option.splits)
  show "row_of H name ?f = snd x"
    using x b i texts n uptime_uptime_text [of h m]
    by (intro CatChannel.equality) (simp_all add: row_of_def field_def index_fields_def clean_text_def upper_upper comp_def)
  show "\<exists>b. DecodeString (?f ! 1) = Some b \<and> length b = 16"
    using b by (simp add: index_fields_def x DecodeString_upper)
qed

lemma parse_index_lines:
  "\<forall>x \<in> set xs. listable H E name x \<Longrightarrow> n + length xs \<le> 10000 \<Longrightarrow>
     parse_lines H name n (map (index_line E) xs) = Some (map snd xs)"
proof (induction xs arbitrary: n)
  case (Cons x xs)
  have x: "listable H E name x" using Cons.prems(1) by simp
  note line = parse_index_line [OF x]
  have "\<not> length (index_fields E (fst x) (snd x)) < 10" by (simp add: index_fields_def)
  moreover obtain b where "DecodeString (index_fields E (fst x) (snd x) ! 1) = Some b" "length b = 16" using line(5) by blast
  ultimately show ?case using line Cons.IH [of "Suc n"] Cons.prems by (simp add: Let_def)
qed simp

lemma scan_index_text:
  "\<forall>x \<in> set xs. listable H E name x \<and> length (index_line E x) < 65536 \<Longrightarrow>
     scan_lines (64 * 1024) (index_text E xs) = (map (index_line E) xs, True)"
proof (induction xs)
  case (Cons x xs)
  then have x: "listable H E name x" "length (index_line E x) < 64 * 1024" by auto
  have "index_text E (x # xs) = index_line E x @ LF_char # index_text E xs" by (simp add: index_text_def)
  then show ?case
    using Cons.IH Cons.prems scan_lines_Cons [OF index_line_plain [OF x(1)] x(2), of "index_text E xs"] parse_index_line(2) [OF x(1)] by simp
qed (simp add: index_text_def)

lemma ToValidUTF8_ascii: "\<forall>c \<in> set s. char_code c < 128 \<Longrightarrow> ToValidUTF8 s = s"
proof (induction s)
  case (Cons c s)
  have "utf8_len (c # s) = 1" using Cons.prems by (simp add: utf8_len_def utf8_first_def)
  then show ?case using Cons by (subst ToValidUTF8.simps) simp
qed simp

definition demo_channel :: CatChannel where
  "demo_channel = \<lparr>ccYellowPage = ''sp'', ccName = ''Chess'', ccChannelID = map upper_char (EncodeToString (replicate 16 171)),
     ccTracker = ''192.0.2.1:7144'', ccContactURL = [], ccGenre = ''game'', ccDescription = [], ccComment = [],
     ccContentType = ''FLV'', ccCreator = [], ccAlbum = [], ccTrackTitle = [], ccTrackURL = [], ccListeners = Some 3,
     ccRelays = Some 1, ccBitrate = Some 500, ccUptime = Some 4500\<rparr>"

lemma demo_line:
  "index_line id ((1, 15), demo_channel) =
     ''Chess<>ABABABABABABABABABABABABABABABAB<>192.0.2.1:7144<><>game<><>3<>1<>500<>FLV<><><><><><>1:15<>click<><>0''"
  by code_simp

text \<open>
  A channel list is read as it was written.  For a list of at most ten thousand channels in the format of
  \<^verbatim>\<open>index.txt\<close>, with texts escaped so that they contain no separator, the catalog returns the same channels.
\<close>

theorem index_txt_roundtrip:
  assumes "\<forall>x \<in> set xs. listable H E name x \<and> length (index_line E x) < 65536" "length xs \<le> 10000"
    and "valid_utf8 (index_text E xs)" "\<not> HasPrefix (index_text E xs) BOM"
  shows "catalog_parse H (index_text E xs) name = Some (map snd xs)"
proof -
  have "TrimPrefix (index_text E xs) BOM = index_text E xs" using assms(4) by (simp add: TrimPrefix_def)
  then show ?thesis
    using assms(1,3) scan_index_text [OF assms(1)] parse_index_lines [of xs H E name 0] assms(2) by (simp add: catalog_parse_def)
qed

lemma index_txt_roundtrip_witness:
  "catalog_parse id (index_text id [((1, 15), demo_channel)]) ''sp'' = Some [demo_channel]"
proof -
  have t: "index_text id [((1, 15), demo_channel)] = index_line id ((1, 15), demo_channel) @ [LF_char]" by (simp add: index_text_def)
  have u: "uptime_text (Suc 0) 15 = ''1:15''" by code_simp
  have "listable id id ''sp'' ((1, 15), demo_channel)"
    by (simp add: listable_def demo_channel_def clean_text_def int64_def u LF_char_def) (intro exI [of _ "replicate 16 171"], simp)
  moreover have "valid_utf8 (index_text id [((1, 15), demo_channel)])"
    unfolding valid_utf8_def by (rule ToValidUTF8_ascii) (simp only: t demo_line, simp add: LF_char_def)
  moreover have "\<not> HasPrefix (index_text id [((1, 15), demo_channel)]) BOM"
    by (simp only: t demo_line, simp add: HasPrefix_def BOM_def code_string_def char_of_def)
  moreover have "length (index_line id ((1, 15), demo_channel)) < 65536" unfolding demo_line by simp
  ultimately show ?thesis using index_txt_roundtrip [of "[((1, 15), demo_channel)]" id id "''sp''"] by simp
qed

end
