(* ===== verification/Site_Board.thy ===== *)
theory Site_Board
  imports Site_Directory Catalog_Text
begin

text \<open>
  \<^verbatim>\<open>internal/site/comments.go\<close> and \<^verbatim>\<open>broadcast_board.go\<close>: the boards a contact URL may name, what is read from them and how,
  and what viewers and broadcasters are shown.  \<open>unesc\<close> is \<^verbatim>\<open>html.UnescapeString\<close>, and the decoders of the Japanese encodings are
  parameters.
\<close>

section \<open>Addresses of boards\<close>

record board_address =
  baHost :: string
  baBoard :: string
  baThread :: string
  baShitaraba :: bool

definition digits_ok :: "string \<Rightarrow> bool" where
  "digits_ok s \<longleftrightarrow> s \<noteq> [] \<and> length s \<le> 20 \<and> list_all is_digit s"

definition is_lower :: "char \<Rightarrow> bool" where
  "is_lower c \<longleftrightarrow> 97 \<le> char_code c \<and> char_code c \<le> 122"

definition is_word :: "char \<Rightarrow> bool" where
  "is_word c \<longleftrightarrow> is_alnum c \<or> c = CHR ''_''"

text \<open>The patterns of paths: a run of a class of characters, which never holds a slash, and what follows it.\<close>

definition segment :: "(char \<Rightarrow> bool) \<Rightarrow> string \<Rightarrow> (string \<times> string) option" where
  "segment P s = (let a = takeWhile P s in if a = [] then None else Some (a, drop (length a) s))"

definition thread_tail :: "string \<Rightarrow> bool" where
  "thread_tail s \<longleftrightarrow> s = [] \<or> (hd s = CHR ''/'' \<and> CHR ''?'' \<notin> set (tl s))"

definition board_tail :: "string \<Rightarrow> bool" where
  "board_tail s \<longleftrightarrow> s = [] \<or> s = ''/''"

definition after_slash :: "string \<Rightarrow> string option" where
  "after_slash s = (case s of c # r \<Rightarrow> if c = CHR ''/'' then Some r else None | [] \<Rightarrow> None)"

definition shitarabaThread :: "string \<Rightarrow> (string \<times> string \<times> string) option" where
  "shitarabaThread p =
     (if \<not> HasPrefix p ''/bbs/read.cgi/'' then None
      else case segment is_lower (drop 14 p) of
        None \<Rightarrow> None
      | Some (a, r) \<Rightarrow> (case Option.bind (after_slash r) (segment is_digit) of
          None \<Rightarrow> None
        | Some (b, r) \<Rightarrow> (case Option.bind (after_slash r) (segment is_digit) of
            None \<Rightarrow> None
          | Some (t, r) \<Rightarrow> if thread_tail r then Some (a, b, t) else None)))"

definition shitarabaBoard :: "string \<Rightarrow> (string \<times> string) option" where
  "shitarabaBoard p =
     (case Option.bind (after_slash p) (segment is_lower) of
        None \<Rightarrow> None
      | Some (a, r) \<Rightarrow> (case Option.bind (after_slash r) (segment is_digit) of
          None \<Rightarrow> None
        | Some (b, r) \<Rightarrow> if board_tail r then Some (a, b) else None))"

definition jpnknThread :: "string \<Rightarrow> (string \<times> string) option" where
  "jpnknThread p =
     (if \<not> HasPrefix p ''/test/read.cgi/'' then None
      else case segment is_word (drop 15 p) of
        None \<Rightarrow> None
      | Some (a, r) \<Rightarrow> (case Option.bind (after_slash r) (segment is_digit) of
          None \<Rightarrow> None
        | Some (t, r) \<Rightarrow> if thread_tail r then Some (a, t) else None))"

definition jpnknBoard :: "string \<Rightarrow> string option" where
  "jpnknBoard p =
     (case Option.bind (after_slash p) (segment is_word) of
        None \<Rightarrow> None
      | Some (a, r) \<Rightarrow> if board_tail r then Some a else None)"

text \<open>The board and thread of a path, both empty when no pattern matches.\<close>

definition shitaraba_path :: "string \<Rightarrow> string \<times> string" where
  "shitaraba_path p =
     (case shitarabaThread p of
        Some (a, b, t) \<Rightarrow> (a @ ''/'' @ b, t)
      | None \<Rightarrow> (case shitarabaBoard p of Some (a, b) \<Rightarrow> (a @ ''/'' @ b, []) | None \<Rightarrow> ([], [])))"

definition jpnkn_path :: "string \<Rightarrow> string \<times> string" where
  "jpnkn_path p =
     (case jpnknThread p of
        Some (a, t) \<Rightarrow> (a, t)
      | None \<Rightarrow> (case jpnknBoard p of Some a \<Rightarrow> (a, []) | None \<Rightarrow> ([], [])))"

definition shitaraba_host :: string where "shitaraba_host = ''jbbs.shitaraba.net''"
definition jpnkn_host :: string where "jpnkn_host = ''bbs.jpnkn.com''"

text \<open>\<open>None\<close> when the URL names no supported board.\<close>

definition parseBoard :: "string \<Rightarrow> board_address option" where
  "parseBoard raw =
     (case url_Parse raw of
        None \<Rightarrow> None
      | Some u \<Rightarrow>
          if uUser u \<or> Port u \<noteq> [] \<or> (uScheme u \<noteq> ''http'' \<and> uScheme u \<noteq> ''https'') then None
          else
            let host = lower_ascii (Hostname u);
                ok = (\<lambda>b. if baBoard b \<noteq> [] \<and> (baThread b = [] \<or> digits_ok (baThread b)) then Some b else None)
            in if host = shitaraba_host \<or> host = ''jbbs.livedoor.jp''
               then (case shitaraba_path (uPath u) of (b, t) \<Rightarrow>
                 ok \<lparr>baHost = shitaraba_host, baBoard = b, baThread = t, baShitaraba = True\<rparr>)
               else if host = jpnkn_host
               then (case jpnkn_path (uPath u) of (b, t) \<Rightarrow> ok \<lparr>baHost = host, baBoard = b, baThread = t, baShitaraba = False\<rparr>)
               else None)"

definition subjectURL :: "board_address \<Rightarrow> string" where
  "subjectURL b = ''https://'' @ baHost b @ ''/'' @ baBoard b @ ''/subject.txt''"

definition datURL :: "board_address \<Rightarrow> string \<Rightarrow> string" where
  "datURL b thread =
     (if baShitaraba b then ''https://'' @ baHost b @ ''/bbs/rawmode.cgi/'' @ baBoard b @ ''/'' @ thread @ ''/''
      else ''https://'' @ baHost b @ ''/'' @ baBoard b @ ''/dat/'' @ thread @ ''.dat'')"

definition boardURL :: "board_address \<Rightarrow> string" where
  "boardURL b = ''https://'' @ baHost b @ ''/'' @ baBoard b @ ''/''"

definition threadURL :: "board_address \<Rightarrow> string \<Rightarrow> string" where
  "threadURL b i =
     (if baShitaraba b then ''https://'' @ baHost b @ ''/bbs/read.cgi/'' @ baBoard b @ ''/'' @ i @ ''/''
      else ''https://'' @ baHost b @ ''/test/read.cgi/'' @ baBoard b @ ''/'' @ i @ ''/'')"

definition settingsURL :: "board_address \<Rightarrow> string" where
  "settingsURL b =
     (if baShitaraba b then ''https://'' @ baHost b @ ''/bbs/api/setting.cgi/'' @ baBoard b @ ''/'' else boardURL b @ ''SETTING.TXT'')"

section \<open>Reading\<close>

text \<open>
  What the dialer does: it refuses other hosts, and a host with any address that is not public; otherwise it tries the addresses
  in turn.  \<open>resolve\<close> is the resolver, \<open>connects\<close> whether an address answers.
\<close>

definition publicBoardDial :: "(string \<Rightarrow> ip list option) \<Rightarrow> (string \<Rightarrow> bool) \<Rightarrow> string \<Rightarrow> string option" where
  "publicBoardDial resolve connects address =
     (case SplitHostPort address of
        None \<Rightarrow> None
      | Some (host, port) \<Rightarrow>
          if host \<noteq> shitaraba_host \<and> host \<noteq> jpnkn_host then None
          else (case resolve host of
            None \<Rightarrow> None
          | Some ips \<Rightarrow>
              let as = map (\<lambda>a. JoinHostPort (ip_string a) port) ips in
              if \<not> list_all PublicTracker as then None else find connects as))"

record board_answer =
  bwStatus :: int
  bwContentType :: string
  bwBody :: string

text \<open>What is made of an answer; \<open>None\<close> for no answer.  Redirects are not followed.\<close>

definition decode_board :: "(string \<Rightarrow> string option) \<Rightarrow> (string \<Rightarrow> string option) \<Rightarrow> bool \<Rightarrow> string \<Rightarrow> string \<Rightarrow> string option" where
  "decode_board eucjp sjis shitaraba charset data =
     (if Contains charset ''euc-jp'' \<or> (\<not> valid_utf8 data \<and> shitaraba \<and> \<not> Contains charset ''shift'') then eucjp data
      else if Contains charset ''shift'' \<or> \<not> valid_utf8 data then sjis data
      else Some data)"

definition fetch_board ::
  "(string \<Rightarrow> string option) \<Rightarrow> (string \<Rightarrow> string option) \<Rightarrow> bool \<Rightarrow> board_answer option \<Rightarrow> string option" where
  "fetch_board eucjp sjis shitaraba answer =
     (case answer of
        None \<Rightarrow> None
      | Some a \<Rightarrow>
          let charset = lower_ascii (bwContentType a) in
          if bwStatus a \<noteq> 200 \<or> Contains charset ''text/html'' then None
          else if length (bwBody a) > 2097152 then None
          else case decode_board eucjp sjis shitaraba charset (bwBody a) of
            None \<Rightarrow> None
          | Some data \<Rightarrow>
              let s = TrimPrefix data BOM; start = lower_ascii (TrimSpace s) in
              if HasPrefix start ''<!doctype'' \<or> HasPrefix start ''<html'' then None else Some s)"

text \<open>
  The cache.  An entry holds its result once the read is over; until then it waits for one of four slots or holds one.
\<close>

datatype board_entry = BoardWaiting | BoardFetching | BoardDone time "string option"

record board_reader =
  brCache :: "(string \<times> board_entry) list"
  brSlots :: nat

datatype board_lookup = BoardFull | BoardFound board_entry | BoardStarted

definition newBoardReader :: board_reader where
  "newBoardReader = \<lparr>brCache = [], brSlots = 0\<rparr>"

definition board_expired :: "time \<Rightarrow> board_entry \<Rightarrow> bool" where
  "board_expired now e = (case e of BoardDone expires _ \<Rightarrow> \<not> now < expires | _ \<Rightarrow> False)"

definition board_prune :: "time \<Rightarrow> board_reader \<Rightarrow> board_reader" where
  "board_prune now b = b\<lparr>brCache := filter (\<lambda>e. \<not> board_expired now (snd e)) (brCache b)\<rparr>"

text \<open>\<^verbatim>\<open>read\<close> up to its wait.\<close>

definition board_read :: "time \<Rightarrow> string \<Rightarrow> board_reader \<Rightarrow> board_lookup \<times> board_reader" where
  "board_read now target b =
     (let b1 = board_prune now b in
      case map_of (brCache b1) target of
        Some e \<Rightarrow> (BoardFound e, b1)
      | None \<Rightarrow>
          if length (brCache b1) \<ge> 64 then (BoardFull, b1)
          else (BoardStarted, b1\<lparr>brCache := (target, BoardWaiting) # brCache b1\<rparr>))"

text \<open>The goroutine of an entry: it takes a slot and asks, or its time is over first; then it stores the result.  The slot, given back
  just before, is free from then on.\<close>

definition board_slot :: "string \<Rightarrow> board_reader \<Rightarrow> board_reader option" where
  "board_slot target b =
     (if map_of (brCache b) target = Some BoardWaiting \<and> brSlots b < 4
      then Some (b\<lparr>brCache := AList.update target BoardFetching (brCache b), brSlots := Suc (brSlots b)\<rparr>)
      else None)"

definition board_finish :: "time \<Rightarrow> string option \<Rightarrow> string \<Rightarrow> board_reader \<Rightarrow> board_reader option" where
  "board_finish now result target b =
     (case map_of (brCache b) target of
        Some BoardFetching \<Rightarrow>
          Some (b\<lparr>brCache := AList.update target (BoardDone (now + 10 * second) result) (brCache b), brSlots := brSlots b - 1\<rparr>)
      | Some BoardWaiting \<Rightarrow> Some (b\<lparr>brCache := AList.update target (BoardDone (now + 10 * second) None) (brCache b)\<rparr>)
      | _ \<Rightarrow> None)"

section \<open>What boards answer\<close>

definition re_space :: "char \<Rightarrow> bool" where
  "re_space c \<longleftrightarrow> char_code c \<in> {9, 10, 12, 13, 32}"

text \<open>The rest after a line break element whose opening bracket was read.\<close>

definition break_end :: "string \<Rightarrow> string option" where
  "break_end s =
     (case s of
        b # r # t \<Rightarrow>
          if lower_char b = CHR ''b'' \<and> lower_char r = CHR ''r'' then
            (case dropWhile re_space t of
               c # v \<Rightarrow> if c = CHR ''>'' then Some v
                        else if c = CHR ''/'' then (case v of d # w \<Rightarrow> if d = CHR ''>'' then Some w else None | [] \<Rightarrow> None)
                        else None
             | [] \<Rightarrow> None)
          else None
      | _ \<Rightarrow> None)"

lemma dropWhile_shorter: "dropWhile P t = c # v \<Longrightarrow> length v < length t"
  by (metis length_dropWhile_le length_Cons less_eq_Suc_le)

lemma break_end_shorter: "break_end s = Some v \<Longrightarrow> length v < length s"
  by (auto simp: break_end_def split: list.splits if_splits dest!: dropWhile_shorter)

function break_tags :: "string \<Rightarrow> string" where
  "break_tags [] = []"
| "break_tags (c # s) =
     (if c = CHR ''<'' then (case break_end s of Some v \<Rightarrow> LF_char # break_tags v | None \<Rightarrow> c # break_tags s)
      else c # break_tags s)"
  by pat_completeness auto
termination
  by (relation "measure length") (auto dest: break_end_shorter)

function strip_tags :: "string \<Rightarrow> string" where
  "strip_tags [] = []"
| "strip_tags (c # s) =
     (if c = CHR ''<'' then (case dropWhile (\<lambda>d. d \<noteq> CHR ''>'') s of [] \<Rightarrow> c # strip_tags s | _ # v \<Rightarrow> strip_tags v)
      else c # strip_tags s)"
  by pat_completeness auto
termination
  by (relation "measure length") (auto dest: dropWhile_shorter)

definition plainComment :: "(string \<Rightarrow> string) \<Rightarrow> string \<Rightarrow> string" where
  "plainComment unesc s = TrimSpace (unesc (strip_tags (break_tags s)))"

record bbsThread =
  btID :: string
  btTitle :: string
  btComments :: int

record bbsComment =
  boNo :: int
  boName :: string
  boDate :: string
  boBody :: string

text \<open>A title with the number of comments in brackets at its end.  A dot of the pattern matches no line break.\<close>

definition title_text :: "string \<Rightarrow> string option" where
  "title_text p =
     (let a = takeWhile (\<lambda>c. c \<noteq> LF_char) p in
      if list_all re_space (drop (length a) p) then Some a else None)"

definition subjectTitle :: "string \<Rightarrow> (string \<times> string) option" where
  "subjectTitle s =
     (case dropWhile re_space (rev s) of
        c # b \<Rightarrow>
          if c \<noteq> CHR '')'' then None
          else let ds = takeWhile is_digit b in
            (case drop (length ds) b of
               d # p \<Rightarrow> if ds = [] \<or> d \<noteq> CHR ''('' then None else map_option (\<lambda>t. (t, rev ds)) (title_text (rev p))
             | [] \<Rightarrow> None)
      | [] \<Rightarrow> None)"

definition parse_subject :: "(string \<Rightarrow> string) \<Rightarrow> bool \<Rightarrow> string list \<Rightarrow> string \<Rightarrow> bbsThread option" where
  "parse_subject unesc shitaraba listed line0 =
     (let line = TrimSpace line0;
          (sep, ext) = (if shitaraba then ('','', ''.cgi'') else (''<>'', ''.dat''))
      in case Cut line sep of (a, b, found) \<Rightarrow>
           let i = TrimSuffix a ext in
           if line = [] \<or> \<not> found \<or> i = a \<or> \<not> digits_ok i \<or> i \<in> set listed then None
           else (case subjectTitle b of
             None \<Rightarrow> None
           | Some (t, n) \<Rightarrow> Some \<lparr>btID = i, btTitle = plainComment unesc t, btComments = Atoi_value n\<rparr>))"

text \<open>The loop, and whether it stopped at the limit.\<close>

fun subject_rows :: "(string \<Rightarrow> string) \<Rightarrow> bool \<Rightarrow> int \<Rightarrow> bbsThread list \<Rightarrow> string list \<Rightarrow> bbsThread list \<times> bool" where
  "subject_rows unesc shitaraba limit rows [] = (rows, False)"
| "subject_rows unesc shitaraba limit rows (l # ls) =
     (case parse_subject unesc shitaraba (map btID rows) l of
        None \<Rightarrow> subject_rows unesc shitaraba limit rows ls
      | Some t \<Rightarrow>
          if limit > 0 \<and> int (length rows + 1) = limit then (rows @ [t], True)
          else subject_rows unesc shitaraba limit (rows @ [t]) ls)"

definition board_buffer :: nat where "board_buffer = 262144"

definition parseSubjectsLimit :: "(string \<Rightarrow> string) \<Rightarrow> string \<Rightarrow> bool \<Rightarrow> int \<Rightarrow> bbsThread list option" where
  "parseSubjectsLimit unesc body shitaraba limit =
     (case scan_lines board_buffer body of (ls, ok) \<Rightarrow>
        case subject_rows unesc shitaraba limit [] ls of (rows, stopped) \<Rightarrow> if stopped \<or> ok then Some rows else None)"

definition parseSubjects :: "(string \<Rightarrow> string) \<Rightarrow> string \<Rightarrow> bool \<Rightarrow> bbsThread list option" where
  "parseSubjects unesc body shitaraba = parseSubjectsLimit unesc body shitaraba 200"

text \<open>One comment, after \<open>cnt\<close>, with the title its line gives the thread.\<close>

definition parse_comment :: "(string \<Rightarrow> string) \<Rightarrow> bool \<Rightarrow> int \<Rightarrow> string \<Rightarrow> (bbsComment \<times> string) option" where
  "parse_comment unesc shitaraba cnt line =
     (let p = Split line ''<>''; f = (\<lambda>i. plainComment unesc (p ! i)) in
      if length p < 5 then None
      else if shitaraba then
        (if length p < 6 then None
         else case Atoi (p ! 0) of
           None \<Rightarrow> None
         | Some n \<Rightarrow> if n < 1 then None else Some (\<lparr>boNo = n, boName = f 1, boDate = f 3, boBody = f 4\<rparr>, f 5))
      else Some (\<lparr>boNo = cnt + 1, boName = f 0, boDate = f 2, boBody = f 3\<rparr>, f 4))"

fun comment_rows ::
  "(string \<Rightarrow> string) \<Rightarrow> bool \<Rightarrow> bbsComment list \<times> string \<times> int \<Rightarrow> string list \<Rightarrow> (bbsComment list \<times> string \<times> int) option" where
  "comment_rows unesc shitaraba acc [] = Some acc"
| "comment_rows unesc shitaraba (rows, title, cnt) (l # ls) =
     (case parse_comment unesc shitaraba cnt l of
        None \<Rightarrow> None
      | Some (c, t) \<Rightarrow>
          let rows1 = rows @ [c] in
          comment_rows unesc shitaraba (if length rows1 > 30 then tl rows1 else rows1, if title = [] then t else title, boNo c) ls)"

text \<open>The last comments, newest first, the title and the number of the last one.\<close>

definition parseComments :: "(string \<Rightarrow> string) \<Rightarrow> string \<Rightarrow> bool \<Rightarrow> (bbsComment list \<times> string \<times> int) option" where
  "parseComments unesc body shitaraba =
     (case scan_lines board_buffer body of (ls, ok) \<Rightarrow>
        case comment_rows unesc shitaraba ([], [], 0) ls of
          None \<Rightarrow> None
        | Some (rows, title, cnt) \<Rightarrow> if ok then Some (rev rows, title, cnt) else None)"

section \<open>What viewers are shown\<close>

text \<open>
  \<open>rd\<close> is what \<^verbatim>\<open>read\<close> of the cache answers for a target.  The handlers return the targets they read.
\<close>

type_synonym board_source = "string \<Rightarrow> bool \<Rightarrow> string option"

definition thread_json :: "bbsThread \<Rightarrow> json" where
  "thread_json t = JObj [(''id'', JStr (btID t)), (''title'', JStr (btTitle t)), (''comments'', jint (btComments t))]"

definition comment_json :: "bbsComment \<Rightarrow> json" where
  "comment_json c = JObj [(''no'', jint (boNo c)), (''name'', JStr (boName c)), (''date'', JStr (boDate c)), (''body'', JStr (boBody c))]"

record boardView =
  bvSupported :: bool
  bvThreadID :: string
  bvThreadTitle :: string
  bvCommentCount :: int
  bvThreads :: "bbsThread list"
  bvComments :: "bbsComment list"

definition boardView0 :: "bool \<Rightarrow> boardView" where
  "boardView0 supported =
     \<lparr>bvSupported = supported, bvThreadID = [], bvThreadTitle = [], bvCommentCount = 0, bvThreads = [], bvComments = []\<rparr>"

definition boardView_json :: "boardView \<Rightarrow> json" where
  "boardView_json v =
     JObj [(''supported'', JBool (bvSupported v)), (''threadId'', JStr (bvThreadID v)), (''threadTitle'', JStr (bvThreadTitle v)),
       (''commentCount'', jint (bvCommentCount v)), (''threads'', JArr (map thread_json (bvThreads v))),
       (''comments'', JArr (map comment_json (bvComments v)))]"

text \<open>The contact URL of a channel, which this node or the catalog knows, or the status of the answer.\<close>

definition contact_of :: "cat_answer \<Rightarrow> gnuid \<Rightarrow> 'a Manager \<Rightarrow> int + string" where
  "contact_of answer i m =
     (let known = GetByID i m; contact = (case known of None \<Rightarrow> [] | Some r \<Rightarrow> URL (info (store m r)));
          none = (if known = None then Inl 404 else Inr contact)
      in if contact \<noteq> [] then Inr contact
         else case answer of
           None \<Rightarrow> none
         | Some None \<Rightarrow> Inl 503
         | Some (Some (rows, _)) \<Rightarrow>
             (case find (\<lambda>row. parseID (ccChannelID row) = Some i \<and> ccChannelID row \<noteq> zero_text) rows of
                None \<Rightarrow> none
              | Some row \<Rightarrow> Inr (ccContactURL row)))"

text \<open>The channel and the thread a request names; \<open>None\<close> for a bad request.\<close>

definition comments_request :: "site_request \<Rightarrow> (gnuid \<times> string) option" where
  "comments_request q =
     (case ParseQuery (sqQuery q) of (vs, ok) \<Rightarrow>
        let ks = remdups (map fst vs); thread = query_get vs ''thread'' in
        case parseID (sqPathID q) of
          None \<Rightarrow> None
        | Some i \<Rightarrow>
            if \<not> ok \<or> length ks > 1 \<or> (length ks = 1 \<and> length (query_values vs ''thread'') \<noteq> 1) \<or> (thread \<noteq> [] \<and> \<not> digits_ok thread)
            then None else Some (i, thread))"

definition read_thread ::
  "(string \<Rightarrow> string) \<Rightarrow> board_source \<Rightarrow> board_address \<Rightarrow> string \<Rightarrow> (bbsComment list \<times> string \<times> int) option" where
  "read_thread unesc rd b thread =
     (case rd (datURL b thread) (baShitaraba b) of None \<Rightarrow> None | Some body \<Rightarrow> parseComments unesc body (baShitaraba b))"

definition show_board :: "(string \<Rightarrow> string) \<Rightarrow> board_source \<Rightarrow> board_address \<Rightarrow> string \<Rightarrow> site_response \<times> string list" where
  "show_board unesc rd b wanted =
     (case Option.bind (rd (subjectURL b) (baShitaraba b)) (\<lambda>subject. parseSubjects unesc subject (baShitaraba b)) of
        None \<Rightarrow> (status_only 502, [subjectURL b])
      | Some threads \<Rightarrow>
          let thread = (if wanted = [] then baThread b else wanted); v = (boardView0 True)\<lparr>bvThreads := threads, bvThreadID := thread\<rparr> in
          if \<not> (thread = [] \<or> thread = baThread b \<or> thread \<in> set (map btID threads)) then (status_only 404, [subjectURL b])
          else if thread = [] then (site_reply (boardView_json v), [subjectURL b])
          else (case read_thread unesc rd b thread of
            None \<Rightarrow> (status_only 502, [subjectURL b, datURL b thread])
          | Some (rows, title, cnt) \<Rightarrow>
              (site_reply (boardView_json (v\<lparr>bvComments := rows, bvThreadTitle := title, bvCommentCount := cnt\<rparr>)),
               [subjectURL b, datURL b thread])))"

definition site_comments ::
  "(string \<Rightarrow> string) \<Rightarrow> board_source \<Rightarrow> cat_answer \<Rightarrow> site_request \<Rightarrow> 'a Manager \<Rightarrow> site_response \<times> string list" where
  "site_comments unesc rd answer q m =
     (case comments_request q of
        None \<Rightarrow> (status_only 400, [])
      | Some (i, thread) \<Rightarrow>
          (case contact_of answer i m of
             Inl n \<Rightarrow> (status_only n, [])
           | Inr contact \<Rightarrow>
               (case parseBoard contact of
                  None \<Rightarrow> (site_reply (boardView_json (boardView0 False)), [])
                | Some b \<Rightarrow> show_board unesc rd b thread)))"

section \<open>What broadcasters are shown\<close>

record broadcastBoardView =
  bbSupported :: bool
  bbBoardTitle :: string
  bbBoardURL :: string
  bbThread :: "bbsThread option"
  bbThreadURL :: string
  bbLatest :: "bbsThread option"
  bbLatestURL :: string
  bbThreadError :: bool

definition broadcastBoardView0 :: "bool \<Rightarrow> broadcastBoardView" where
  "broadcastBoardView0 ok =
     \<lparr>bbSupported = ok, bbBoardTitle = [], bbBoardURL = [], bbThread = None, bbThreadURL = [], bbLatest = None, bbLatestURL = [],
      bbThreadError = False\<rparr>"

text \<open>\<open>err\<close> is the text of the field \<^verbatim>\<open>threadError\<close>.\<close>

definition broadcastBoardView_json :: "string \<Rightarrow> broadcastBoardView \<Rightarrow> json" where
  "broadcastBoardView_json err v =
     (let thread = (\<lambda>t. case t of None \<Rightarrow> JNull | Some x \<Rightarrow> thread_json x) in
      JObj ([(''supported'', JBool (bbSupported v)), (''boardTitle'', JStr (bbBoardTitle v)), (''boardUrl'', JStr (bbBoardURL v)),
        (''thread'', thread (bbThread v)), (''threadUrl'', JStr (bbThreadURL v)), (''latestThread'', thread (bbLatest v)),
        (''latestThreadUrl'', JStr (bbLatestURL v))] @ (if bbThreadError v then omit_empty ''threadError'' err else [])))"

definition trim_zeros :: "string \<Rightarrow> string" where
  "trim_zeros s = dropWhile (\<lambda>c. c = CHR ''0'') s"

fun string_less :: "string \<Rightarrow> string \<Rightarrow> bool" where
  "string_less s [] = False"
| "string_less [] (d # t) = True"
| "string_less (c # s) (d # t) = (char_code c < char_code d \<or> (c = d \<and> string_less s t))"

definition newerThread :: "string \<Rightarrow> string \<Rightarrow> bool" where
  "newerThread a0 b0 =
     (let a = trim_zeros a0; b = trim_zeros b0 in length a > length b \<or> (length a = length b \<and> string_less b a))"

text \<open>The settings: the title and the number of comments at which a thread is full; \<open>None\<close> when the board reports an error.\<close>

fun board_settings :: "(string \<Rightarrow> string) \<Rightarrow> string \<times> int \<Rightarrow> string list \<Rightarrow> (string \<times> int) option" where
  "board_settings unesc acc [] = Some acc"
| "board_settings unesc (title, limit) (l # ls) =
     (case Cut (TrimSpace l) ''='' of (k, v, found) \<Rightarrow>
        if \<not> found then board_settings unesc (title, limit) ls
        else if k = ''BBS_TITLE'' then board_settings unesc (plainComment unesc v, limit) ls
        else if k = ''BBS_THREAD_STOP'' then
          board_settings unesc (title, case Atoi v of None \<Rightarrow> limit | Some n \<Rightarrow> if n > 0 then n else limit) ls
        else if k = ''ERROR'' then None
        else board_settings unesc (title, limit) ls)"

definition note_thread :: "board_address \<Rightarrow> int \<Rightarrow> bbsThread \<Rightarrow> broadcastBoardView \<Rightarrow> broadcastBoardView" where
  "note_thread b limit t v =
     (let v1 = (if btID t = baThread b then v\<lparr>bbThread := Some t, bbThreadURL := threadURL b (btID t)\<rparr> else v) in
      if btComments t < limit \<and> (case bbLatest v1 of None \<Rightarrow> True | Some l \<Rightarrow> newerThread (btID t) (btID l))
      then v1\<lparr>bbLatest := Some t, bbLatestURL := threadURL b (btID t)\<rparr> else v1)"

text \<open>A thread that is in no list any more is read itself.\<close>

definition note_missing :: "(string \<Rightarrow> string) \<Rightarrow> board_source \<Rightarrow> board_address \<Rightarrow> broadcastBoardView \<Rightarrow> broadcastBoardView \<times> string list" where
  "note_missing unesc rd b v =
     (if baThread b \<noteq> [] \<and> bbThread v = None then
        ((case read_thread unesc rd b (baThread b) of
            None \<Rightarrow> v\<lparr>bbThreadError := True\<rparr>
          | Some (_, title, cnt) \<Rightarrow>
              v\<lparr>bbThread := Some \<lparr>btID = baThread b, btTitle = title, btComments = cnt\<rparr>, bbThreadURL := threadURL b (baThread b)\<rparr>),
         [datURL b (baThread b)])
      else (v, []))"

definition board_query :: "site_request \<Rightarrow> string option" where
  "board_query q =
     (case ParseQuery (sqQuery q) of (vs, ok) \<Rightarrow>
        if \<not> ok \<or> length (remdups (map fst vs)) \<noteq> 1 \<or> length (query_values vs ''url'') \<noteq> 1 \<or> length (query_get vs ''url'') > 2048 then None
        else Some (query_get vs ''url''))"

definition broadcastBoard ::
  "(string \<Rightarrow> string) \<Rightarrow> string \<Rightarrow> board_source \<Rightarrow> site_request \<Rightarrow> site_response \<times> string list" where
  "broadcastBoard unesc err rd q =
     (case board_query q of
        None \<Rightarrow> (status_only 400, [])
      | Some raw \<Rightarrow>
          (case parseBoard raw of
             None \<Rightarrow> (site_reply (broadcastBoardView_json err (broadcastBoardView0 False)), [])
           | Some b \<Rightarrow>
               let read1 = [settingsURL b]; read2 = [settingsURL b, subjectURL b] in
               (case rd (settingsURL b) (baShitaraba b) of
                  None \<Rightarrow> (status_only 502, read1)
                | Some settings \<Rightarrow>
                    (case board_settings unesc ([], 1000) (Split settings [LF_char]) of
                       None \<Rightarrow> (status_only 502, read1)
                     | Some (title, limit) \<Rightarrow>
                         if title = [] then (status_only 502, read1)
                         else case rd (subjectURL b) (baShitaraba b) of
                           None \<Rightarrow> (status_only 502, read2)
                         | Some subject \<Rightarrow>
                             (case parseSubjectsLimit unesc subject (baShitaraba b) 0 of
                                None \<Rightarrow> (status_only 502, read2)
                              | Some threads \<Rightarrow>
                                  let v = fold (note_thread b limit) threads
                                        ((broadcastBoardView0 True)\<lparr>bbBoardURL := boardURL b, bbBoardTitle := title\<rparr>)
                                  in case note_missing unesc rd b v of
                                       (w, extra) \<Rightarrow> (site_reply (broadcastBoardView_json err w), read2 @ extra))))))"

section \<open>What may be read\<close>

definition plain_char :: "char \<Rightarrow> bool" where
  "plain_char c \<longleftrightarrow> is_word c \<or> c = CHR ''/'' \<or> c = CHR ''.''"

text \<open>A page of one of the two hosts whose address holds nothing but letters, digits, underscores, dots and slashes.\<close>

definition board_url :: "string \<Rightarrow> bool" where
  "board_url t \<longleftrightarrow> (\<exists>host rest. host \<in> {shitaraba_host, jpnkn_host} \<and> t = ''https://'' @ host @ ''/'' @ rest \<and> list_all plain_char rest)"

definition board_ok :: "board_address \<Rightarrow> bool" where
  "board_ok b \<longleftrightarrow> baHost b \<in> {shitaraba_host, jpnkn_host} \<and> list_all plain_char (baBoard b) \<and> (baThread b = [] \<or> digits_ok (baThread b))"

lemma plain_classes:
  "is_word c \<Longrightarrow> plain_char c" "is_digit c \<Longrightarrow> plain_char c" "is_lower c \<Longrightarrow> plain_char c" "plain_char CHR ''/''"
  by (auto simp: plain_char_def is_word_def is_alnum_def is_alpha_def is_lower_def Let_def)

lemma segment_class: "segment P s = Some (a, r) \<Longrightarrow> list_all P a"
  by (auto simp: segment_def Let_def list_all_iff dest: set_takeWhileD split: if_splits)

lemma segment_plain: "segment P s = Some (a, r) \<Longrightarrow> (\<And>c. P c \<Longrightarrow> plain_char c) \<Longrightarrow> list_all plain_char a"
  by (drule segment_class) (auto simp: list_all_iff)

lemma segments:
  "segment is_word s = Some (a, r) \<Longrightarrow> list_all plain_char a"
  "segment is_digit s = Some (a, r) \<Longrightarrow> list_all plain_char a"
  "segment is_lower s = Some (a, r) \<Longrightarrow> list_all plain_char a"
  using segment_plain plain_classes(1-3) by blast+

lemma shitaraba_plain: "list_all plain_char (fst (shitaraba_path p))"
  by (auto simp: shitaraba_path_def shitarabaThread_def shitarabaBoard_def plain_classes bind_eq_Some_conv dest!: segments
      split: option.splits if_splits)

lemma jpnkn_plain: "list_all plain_char (fst (jpnkn_path p))"
  by (auto simp: jpnkn_path_def jpnknThread_def jpnknBoard_def bind_eq_Some_conv dest!: segments split: option.splits if_splits)

lemma parseBoard_ok: "parseBoard raw = Some b \<Longrightarrow> board_ok b"
proof -
  assume p: "parseBoard raw = Some b"
  have "list_all plain_char (fst (shitaraba_path q))" "list_all plain_char (fst (jpnkn_path q))" for q
    by (rule shitaraba_plain jpnkn_plain)+
  then show ?thesis using p
    by (auto simp: parseBoard_def board_ok_def Let_def split: option.splits if_splits prod.splits) (metis fst_conv)+
qed

lemma board_ok_urls:
  assumes "board_ok b"
  shows "board_url (subjectURL b)" "board_url (settingsURL b)" "digits_ok t \<Longrightarrow> board_url (datURL b t)"
proof -
  have lit: "list_all plain_char ''/subject.txt''" "list_all plain_char ''bbs/rawmode.cgi/''" "list_all plain_char ''bbs/api/setting.cgi/''"
    "list_all plain_char ''/dat/''" "list_all plain_char ''.dat''" "list_all plain_char ''/SETTING.TXT''" "list_all plain_char ''/''"
    by code_simp+
  note intros = board_url_def subjectURL_def settingsURL_def datURL_def boardURL_def
  show "board_url (subjectURL b)"
    unfolding intros by (rule exI [of _ "baHost b"], rule exI [of _ "baBoard b @ ''/subject.txt''"]) (use assms lit in \<open>simp add: board_ok_def\<close>)
  show "board_url (settingsURL b)"
    unfolding intros
    by (rule exI [of _ "baHost b"],
        rule exI [of _ "if baShitaraba b then ''bbs/api/setting.cgi/'' @ baBoard b @ ''/'' else baBoard b @ ''/SETTING.TXT''"])
      (use assms lit in \<open>simp add: board_ok_def\<close>)
  assume "digits_ok t"
  then have "list_all plain_char t" using plain_classes(2) by (auto simp: digits_ok_def list_all_iff)
  then show "board_url (datURL b t)"
    unfolding intros
    by (intro exI [of _ "baHost b"]
        exI [of _ "if baShitaraba b then ''bbs/rawmode.cgi/'' @ baBoard b @ ''/'' @ t @ ''/'' else baBoard b @ ''/dat/'' @ t @ ''.dat''"])
      (use assms lit in \<open>simp add: board_ok_def\<close>)
qed

lemma show_board_urls: "board_ok b \<Longrightarrow> wanted = [] \<or> digits_ok wanted \<Longrightarrow> list_all board_url (snd (show_board unesc rd b wanted))"
  by (auto simp: show_board_def Let_def board_ok_urls board_ok_def split: option.splits prod.splits if_splits)

lemma find_all: "list_all P xs \<Longrightarrow> pred_option P (find Q xs)"
  by (induction xs) auto

text \<open>
  C24.  Which pages the site fetches for its users.  Whatever a contact URL, a request or the board's own answers say, the comments and
  the board form read only pages of the two hosts, by HTTPS, with an address that holds nothing but letters, digits, underscores,
  dots and slashes; and a connection made for them is to a public address.
\<close>

theorem board_reads_allowed:
  "list_all board_url (snd (site_comments unesc rd answer q m)) \<and>
   list_all board_url (snd (broadcastBoard unesc err rd q)) \<and>
   pred_option PublicTracker (publicBoardDial resolve connects address)"
proof (intro conjI)
  show "list_all board_url (snd (site_comments unesc rd answer q m))"
  proof -
    have "thread = [] \<or> digits_ok thread" if "comments_request q = Some (i, thread)" for i thread
      using that by (auto simp: comments_request_def Let_def split: prod.splits option.splits if_splits)
    then show ?thesis
      by (auto simp: site_comments_def show_board_urls parseBoard_ok split: option.splits sum.splits)
  qed
  show "list_all board_url (snd (broadcastBoard unesc err rd q))"
    by (auto simp: broadcastBoard_def note_missing_def Let_def board_ok_urls board_ok_def dest!: parseBoard_ok
        split: option.splits prod.splits if_splits)
  show "pred_option PublicTracker (publicBoardDial resolve connects address)"
    by (simp add: publicBoardDial_def Let_def find_all split: option.split prod.split)
qed

section \<open>The newest thread\<close>

lemma digits_val_lead: "digits_val (c # s) = (char_code c - 48) * 10 ^ length s + digits_val s"
proof (induction s rule: rev_induct)
  case (snoc d s)
  then show ?case using digits_val_snoc [of "c # s" d] digits_val_snoc [of s d] by (simp add: algebra_simps)
qed (simp add: digits_val_def)

lemma digits_val_bound: "list_all is_digit s \<Longrightarrow> digits_val s < 10 ^ length s"
proof (induction s)
  case (Cons c s)
  have "char_code c - 48 \<le> 9" using Cons.prems by (auto simp: is_digit_def)
  then have "(char_code c - 48) * 10 ^ length s \<le> 9 * 10 ^ length s" by (rule mult_le_mono1)
  moreover have "digits_val s < 10 ^ length s" using Cons by simp
  ultimately show ?case unfolding digits_val_lead list.size(4) add_Suc_right add_0_right power_Suc by linarith
qed (simp add: digits_val_def)

lemma string_less_val:
  "list_all is_digit a \<Longrightarrow> list_all is_digit b \<Longrightarrow> length a = length b \<Longrightarrow> string_less a b = (digits_val a < digits_val b)"
proof (induction a b rule: string_less.induct)
  case (3 c s d t)
  let ?x = "char_code c - 48" and ?y = "char_code d - 48" and ?k = "10 ^ length s :: nat"
  have v: "digits_val s < ?k" "digits_val t < ?k" using 3 digits_val_bound [of s] digits_val_bound [of t] by simp_all
  have low: "48 \<le> char_code c" "48 \<le> char_code d" using 3(2,3) by (simp_all add: is_digit_def)
  have "(?x = ?y) = (char_code c = char_code d)" using low by linarith
  then have code: "(?x < ?y) = (char_code c < char_code d)" "(?x = ?y) = (c = d)"
    using low by (linarith, simp)
  consider "?x < ?y" | "?x = ?y" | "?y < ?x" by linarith
  then show ?case
  proof cases
    case 1
    then have "(?x + 1) * ?k \<le> ?y * ?k" by (intro mult_le_mono1) simp
    then show ?thesis using 1 v code 3(4) by (simp add: digits_val_lead)
  next
    case 2
    then have "c = d" using code by simp
    then show ?thesis using 3 by (simp add: digits_val_lead)
  next
    case 3
    then have "(?y + 1) * ?k \<le> ?x * ?k" by (intro mult_le_mono1) simp
    moreover have "\<not> char_code c < char_code d" "c \<noteq> d" using 3 code by auto
    ultimately show ?thesis using v \<open>length (c # s) = length (d # t)\<close> by (simp add: digits_val_lead)
  qed
qed (auto simp: digits_val_def)

lemma trim_zeros_val: "digits_val (trim_zeros s) = digits_val s"
  by (induction s) (simp_all add: trim_zeros_def digits_val_lead digits_val_def)

lemma trim_zeros_digits: "list_all is_digit s \<Longrightarrow> list_all is_digit (trim_zeros s)"
  by (auto simp: trim_zeros_def list_all_iff dest: set_dropWhileD)

lemma trimmed_low: "list_all is_digit s \<Longrightarrow> trim_zeros s \<noteq> [] \<Longrightarrow> 10 ^ (length (trim_zeros s) - 1) \<le> digits_val (trim_zeros s)"
proof -
  assume a: "list_all is_digit s" "trim_zeros s \<noteq> []"
  obtain c t where t: "trim_zeros s = c # t" using a(2) by (cases "trim_zeros s") auto
  have "c \<noteq> CHR ''0''" using t unfolding trim_zeros_def using hd_dropWhile [of "\<lambda>c. c = CHR ''0''" s] by fastforce
  moreover have "is_digit c" using trim_zeros_digits [OF a(1)] t by simp
  moreover have "char_code c \<noteq> 48" using \<open>c \<noteq> CHR ''0''\<close> of_char_eq_iff [of c "CHR ''0''"] by auto
  ultimately have "1 \<le> char_code c - 48" unfolding is_digit_def by linarith
  then have "1 * 10 ^ length t \<le> (char_code c - 48) * 10 ^ length t" by (rule mult_le_mono1)
  then have "10 ^ length t \<le> (char_code c - 48) * 10 ^ length t + digits_val t" unfolding mult_1 by (rule trans_le_add1)
  then show ?thesis unfolding t digits_val_lead list.size(4) add_Suc_right add_0_right diff_Suc_1 .
qed

text \<open>The comparison of identifiers is that of the numbers.\<close>

lemma newerThread_val:
  assumes "list_all is_digit a" "list_all is_digit b"
  shows "newerThread a b = (digits_val b < digits_val a)"
proof -
  let ?a = "trim_zeros a" and ?b = "trim_zeros b"
  have longer: "digits_val y < digits_val x" if "length (trim_zeros y) < length (trim_zeros x)" "list_all is_digit x" "list_all is_digit y" for x y
  proof -
    have "digits_val (trim_zeros y) < 10 ^ length (trim_zeros y)" using digits_val_bound trim_zeros_digits that(3) by blast
    also have "\<dots> \<le> 10 ^ (length (trim_zeros x) - 1)" by (rule power_increasing) (use that(1) in simp_all)
    also have "\<dots> \<le> digits_val (trim_zeros x)" by (rule trimmed_low) (use that in auto)
    finally show ?thesis by (simp add: trim_zeros_val)
  qed
  consider "length ?b < length ?a" | "length ?a = length ?b" | "length ?a < length ?b" by linarith
  then show ?thesis
  proof cases
    case 2
    then show ?thesis using string_less_val [OF trim_zeros_digits [OF assms(2)] trim_zeros_digits [OF assms(1)]]
      by (simp add: newerThread_def Let_def trim_zeros_val)
  qed (use longer assms in \<open>force simp: newerThread_def Let_def\<close>)+
qed

lemma subject_rows_ok:
  "distinct (map btID rows) \<Longrightarrow> \<forall>t\<in>set rows. digits_ok (btID t) \<Longrightarrow> subject_rows unesc sh limit rows ls = (rows', b) \<Longrightarrow>
     distinct (map btID rows') \<and> (\<forall>t\<in>set rows'. digits_ok (btID t))"
proof (induction unesc sh limit rows ls rule: subject_rows.induct)
  case (2 unesc sh limit rows l ls)
  have p: "btID t \<notin> btID ` set rows \<and> digits_ok (btID t)" if "parse_subject unesc sh (map btID rows) l = Some t" for t
    using that by (auto simp: parse_subject_def Let_def split: prod.splits option.splits if_splits)
  show ?case
  proof (cases "parse_subject unesc sh (map btID rows) l")
    case None
    then show ?thesis using 2 by simp
  next
    case (Some t)
    then show ?thesis using 2(2) [OF Some] 2(3-5) p [OF Some] by (auto split: if_splits)
  qed
qed simp

lemma subjects_ok: "parseSubjectsLimit unesc body sh limit = Some ts \<Longrightarrow> distinct (map btID ts) \<and> (\<forall>t\<in>set ts. digits_ok (btID t))"
  by (auto simp: parseSubjectsLimit_def split: prod.splits if_splits dest!: subject_rows_ok [rotated 2])

text \<open>What is noted of the threads seen so far.\<close>

definition noted :: "board_address \<Rightarrow> int \<Rightarrow> bbsThread list \<Rightarrow> broadcastBoardView \<Rightarrow> bool" where
  "noted b limit ts v \<longleftrightarrow>
     bbThread v = find (\<lambda>t. btID t = baThread b) ts \<and>
     (case bbLatest v of
        None \<Rightarrow> \<forall>t\<in>set ts. limit \<le> btComments t
      | Some l \<Rightarrow> l \<in> set ts \<and> btComments l < limit \<and> bbLatestURL v = threadURL b (btID l) \<and>
          (\<forall>t\<in>set ts. btComments t < limit \<longrightarrow> digits_val (btID t) \<le> digits_val (btID l)))"

lemma find_None_id: "btID t \<notin> btID ` set ts \<Longrightarrow> btID t = i \<Longrightarrow> find (\<lambda>t. btID t = i) ts = None"
  by (auto simp: find_None_iff image_iff)

lemma noted_snoc:
  assumes "noted b limit ts v" "btID t \<notin> btID ` set ts" "list_all is_digit (btID t)" "\<forall>t\<in>set ts. list_all is_digit (btID t)"
  shows "noted b limit (ts @ [t]) (note_thread b limit t v)"
proof (cases "bbLatest v")
  case None
  then show ?thesis using assms
    by (auto simp: noted_def note_thread_def Let_def find_append find_None_id split: option.splits)
next
  case (Some l)
  then have l: "l \<in> set ts" "list_all is_digit i \<Longrightarrow> newerThread i (btID l) = (digits_val (btID l) < digits_val i)" for i
    using assms newerThread_val by (auto simp: noted_def)
  show ?thesis using assms Some l(1)
    by (auto simp: noted_def note_thread_def Let_def find_append find_None_id l(2) not_less split: option.splits)
qed

lemma noted_fold:
  assumes "distinct (map btID (ts @ us))" "\<forall>t\<in>set (ts @ us). list_all is_digit (btID t)" "noted b limit ts v"
  shows "noted b limit (ts @ us) (fold (note_thread b limit) us v)"
  using assms
proof (induction us arbitrary: ts v)
  case (Cons u us)
  then have "noted b limit (ts @ [u]) (note_thread b limit u v)" by (intro noted_snoc) auto
  then show ?case using Cons.IH [of "ts @ [u]"] Cons.prems by simp
qed simp

text \<open>
  The thread the board form offers.  For the threads a board lists, in whatever order, the form shows the one the contact URL
  names if it is among them, and as the latest one that is not full, of the greatest number among them, or none if
  all are full.
\<close>

theorem latest_thread_offered:
  assumes "parseSubjectsLimit unesc body (baShitaraba b) 0 = Some ts" "bbThread v0 = None" "bbLatest v0 = None"
  shows "let v = fold (note_thread b limit) ts v0 in
         bbThread v = find (\<lambda>t. btID t = baThread b) ts \<and>
         (case bbLatest v of
            None \<Rightarrow> \<forall>t\<in>set ts. limit \<le> btComments t
          | Some l \<Rightarrow> l \<in> set ts \<and> btComments l < limit \<and> bbLatestURL v = threadURL b (btID l) \<and>
              (\<forall>t\<in>set ts. btComments t < limit \<longrightarrow> digits_val (btID t) \<le> digits_val (btID l)))"
proof -
  have "noted b limit [] v0" using assms(2,3) by (simp add: noted_def)
  then have "noted b limit ts (fold (note_thread b limit) ts v0)"
    using noted_fold [of "[]" ts b limit v0] subjects_ok [OF assms(1)] by (auto simp: digits_ok_def)
  then show ?thesis by (simp add: noted_def Let_def)
qed

definition demo_board :: board_address where
  "demo_board = \<lparr>baHost = jpnkn_host, baBoard = ''chess'', baThread = ''10'', baShitaraba = False\<rparr>"

definition demo_subjects :: string where
  "demo_subjects = ''9.dat<>Old(5)'' @ LF_char # ''10.dat<>New(7)'' @ LF_char # ''11.dat<>Full(1000)'' @ LF_char # []"

lemma latest_thread_offered_witness:
  "\<exists>ts. parseSubjectsLimit (\<lambda>s. s) demo_subjects False 0 = Some ts \<and> map btID ts = [''9'', ''10'', ''11''] \<and>
     map_option btID (bbLatest (fold (note_thread demo_board 1000) ts (broadcastBoardView0 True))) = Some ''10''"
proof -
  have ts: "parseSubjectsLimit (\<lambda>s. s) demo_subjects False 0 =
      Some [\<lparr>btID = ''9'', btTitle = ''Old'', btComments = 5\<rparr>, \<lparr>btID = ''10'', btTitle = ''New'', btComments = 7\<rparr>,
        \<lparr>btID = ''11'', btTitle = ''Full'', btComments = 1000\<rparr>]" (is "_ = Some ?ts")
  proof -
    have scan: "scan_lines board_buffer demo_subjects = ([''9.dat<>Old(5)'', ''10.dat<>New(7)'', ''11.dat<>Full(1000)''], True)"
    proof -
      have l: "LF_char \<notin> set ''9.dat<>Old(5)''" "LF_char \<notin> set ''10.dat<>New(7)''" "LF_char \<notin> set ''11.dat<>Full(1000)''"
        "TrimSuffix ''9.dat<>Old(5)'' [CR] = ''9.dat<>Old(5)''" "TrimSuffix ''10.dat<>New(7)'' [CR] = ''10.dat<>New(7)''"
        "TrimSuffix ''11.dat<>Full(1000)'' [CR] = ''11.dat<>Full(1000)''"
        by code_simp+
      have n: "length ''9.dat<>Old(5)'' < board_buffer" "length ''10.dat<>New(7)'' < board_buffer"
        "length ''11.dat<>Full(1000)'' < board_buffer"
        by (simp_all add: board_buffer_def)
      show ?thesis
        unfolding demo_subjects_def scan_lines_Cons [OF l(1) n(1)] scan_lines_Cons [OF l(2) n(2)] scan_lines_Cons [OF l(3) n(3)] l(4-6)
          scan_lines_Nil fst_conv snd_conv ..
    qed
    have trim: "TrimSpace ''9.dat<>Old(5)'' = ''9.dat<>Old(5)''" "TrimSpace ''10.dat<>New(7)'' = ''10.dat<>New(7)''"
      "TrimSpace ''11.dat<>Full(1000)'' = ''11.dat<>Full(1000)''" "TrimSpace ''Old'' = ''Old''" "TrimSpace ''New'' = ''New''" "TrimSpace ''Full'' = ''Full''"
      by (rule TrimSpace_visible, simp)+
    have cut: "Cut ''9.dat<>Old(5)'' ''<>'' = (''9.dat'', ''Old(5)'', True)" "Cut ''10.dat<>New(7)'' ''<>'' = (''10.dat'', ''New(7)'', True)"
      "Cut ''11.dat<>Full(1000)'' ''<>'' = (''11.dat'', ''Full(1000)'', True)"
      by code_simp+
    have suffix: "TrimSuffix ''9.dat'' ''.dat'' = ''9''" "TrimSuffix ''10.dat'' ''.dat'' = ''10''" "TrimSuffix ''11.dat'' ''.dat'' = ''11''"
      by code_simp+
    have digits: "digits_ok ''9''" "digits_ok ''10''" "digits_ok ''11''" by code_simp+
    have title: "subjectTitle ''Old(5)'' = Some (''Old'', ''5'')" "subjectTitle ''New(7)'' = Some (''New'', ''7'')"
      "subjectTitle ''Full(1000)'' = Some (''Full'', ''1000'')"
      by code_simp+
    have val: "Atoi_value ''5'' = 5" "Atoi_value ''7'' = 7" "Atoi_value ''1000'' = 1000" by code_simp+
    have plain: "plainComment (\<lambda>s. s) ''Old'' = ''Old''" "plainComment (\<lambda>s. s) ''New'' = ''New''" "plainComment (\<lambda>s. s) ''Full'' = ''Full''"
      by (simp_all add: plainComment_def trim)
    have l: "parse_subject (\<lambda>s. s) False [] ''9.dat<>Old(5)'' = Some \<lparr>btID = ''9'', btTitle = ''Old'', btComments = 5\<rparr>"
      "parse_subject (\<lambda>s. s) False [''9''] ''10.dat<>New(7)'' = Some \<lparr>btID = ''10'', btTitle = ''New'', btComments = 7\<rparr>"
      "parse_subject (\<lambda>s. s) False [''9'', ''10''] ''11.dat<>Full(1000)'' = Some \<lparr>btID = ''11'', btTitle = ''Full'', btComments = 1000\<rparr>"
      by (simp_all add: parse_subject_def trim cut suffix digits title val plain)
    show ?thesis by (simp add: parseSubjectsLimit_def scan l)
  qed
  have d: "digits_val ''9'' = 9" "digits_val ''10'' = 10" by code_simp+
  define v where "v = fold (note_thread demo_board 1000) ?ts (broadcastBoardView0 True)"
  have "parseSubjectsLimit (\<lambda>s. s) demo_subjects (baShitaraba demo_board) 0 = Some ?ts" using ts by (simp add: demo_board_def)
  from latest_thread_offered [OF this, of "broadcastBoardView0 True" 1000, unfolded Let_def, folded v_def]
  have "case bbLatest v of None \<Rightarrow> \<forall>t\<in>set ?ts. 1000 \<le> btComments t
      | Some l \<Rightarrow> l \<in> set ?ts \<and> btComments l < 1000 \<and> bbLatestURL v = threadURL demo_board (btID l) \<and>
          (\<forall>t\<in>set ?ts. btComments t < 1000 \<longrightarrow> digits_val (btID t) \<le> digits_val (btID l))"
    by (simp only: broadcastBoardView0_def broadcastBoardView.simps)
  then have "map_option btID (bbLatest v) = Some ''10''" using d by (cases "bbLatest v") auto
  moreover have "map btID ?ts = [''9'', ''10'', ''11'']" by simp
  ultimately show ?thesis unfolding v_def by (intro exI [of _ ?ts] conjI ts)
qed

section \<open>How often boards are asked\<close>

text \<open>The requests sent, newest first, with their times.\<close>

inductive board_run :: "board_reader \<Rightarrow> (time \<times> string) list \<Rightarrow> time \<Rightarrow> bool" where
  new: "board_run newBoardReader [] t"
| read: "board_run b sent t \<Longrightarrow> t \<le> now \<Longrightarrow> board_read now target b = (r, b') \<Longrightarrow> board_run b' sent now"
| slot: "board_run b sent t \<Longrightarrow> t \<le> now \<Longrightarrow> board_slot target b = Some b' \<Longrightarrow> board_run b' ((now, target) # sent) now"
| finish: "board_run b sent t \<Longrightarrow> t \<le> now \<Longrightarrow> board_finish now result target b = Some b' \<Longrightarrow> board_run b' sent now"

definition board_spaced :: "(time \<times> string) list \<Rightarrow> bool" where
  "board_spaced sent = sorted_wrt (\<lambda>later earlier. snd later = snd earlier \<longrightarrow> fst earlier + 10 * second \<le> fst later) sent"

definition fetching :: "board_reader \<Rightarrow> nat" where
  "fetching b = length (filter (\<lambda>e. snd e = BoardFetching) (brCache b))"

text \<open>When the page may be asked for next, as far as the cache tells, a request sent at \<open>r\<close> is ten seconds old.\<close>

definition settled :: "time \<Rightarrow> board_reader \<Rightarrow> time \<times> string \<Rightarrow> bool" where
  "settled t b e \<longleftrightarrow> fst e \<le> t \<and>
     (case map_of (brCache b) (snd e) of
        Some BoardFetching \<Rightarrow> True
      | Some (BoardDone x _) \<Rightarrow> fst e + 10 * second \<le> x
      | _ \<Rightarrow> fst e + 10 * second \<le> t)"

definition reader_inv :: "board_reader \<Rightarrow> (time \<times> string) list \<Rightarrow> time \<Rightarrow> bool" where
  "reader_inv b sent t \<longleftrightarrow>
     distinct (map fst (brCache b)) \<and> length (brCache b) \<le> 64 \<and> brSlots b = fetching b \<and> brSlots b \<le> 4 \<and>
     (\<forall>e\<in>set sent. settled t b e) \<and> board_spaced sent"

lemma filter_update:
  "distinct (map fst xs) \<Longrightarrow> map_of xs k = Some v \<Longrightarrow>
     length (filter (\<lambda>e. P (snd e)) (AList.update k w xs)) + (if P v then 1 else 0) =
     length (filter (\<lambda>e. P (snd e)) xs) + (if P w then 1 else 0)"
  by (induction xs) (auto split: if_splits)

lemma update_same_keys: "map_of xs k = Some v \<Longrightarrow> map fst (AList.update k w xs) = map fst xs"
  by (induction xs) (auto split: if_splits)

lemma update_same_length: "map_of xs k = Some v \<Longrightarrow> length (AList.update k w xs) = length xs"
  using update_same_keys [of xs k v w] by (metis length_map)

lemma board_prune_inv:
  assumes "reader_inv b sent t" "t \<le> now"
  shows "reader_inv (board_prune now b) sent now"
proof -
  let ?c = "filter (\<lambda>e. \<not> board_expired now (snd e)) (brCache b)"
  have d: "distinct (map fst (brCache b))" using assms(1) by (simp add: reader_inv_def)
  have "filter (\<lambda>e. snd e = BoardFetching) ?c = filter (\<lambda>e. snd e = BoardFetching) (brCache b)"
    unfolding filter_filter by (rule filter_cong) (auto simp: board_expired_def)
  then have f: "fetching (board_prune now b) = fetching b" by (simp add: fetching_def board_prune_def)
  have m: "map_of (brCache (board_prune now b)) k =
      (case map_of (brCache b) k of None \<Rightarrow> None | Some v \<Rightarrow> if board_expired now v then None else Some v)" for k
    using map_of_filter_snd [OF d, of "\<lambda>x. \<not> board_expired now x"] by (simp add: board_prune_def split: option.splits)
  have "settled now (board_prune now b) e" if "settled t b e" for e
    using that assms(2) unfolding settled_def m
    by (cases "map_of (brCache b) (snd e)") (auto simp: board_expired_def split: board_entry.splits)
  moreover have "distinct (map fst ?c)" using d by (rule distinct_map_filter)
  moreover have "length (brCache b) \<le> 64" using assms(1) by (simp add: reader_inv_def)
  then have "length ?c \<le> 64" by (rule order_trans [OF length_filter_le])
  ultimately show ?thesis using assms(1) f by (simp add: reader_inv_def) (simp add: board_prune_def)
qed

lemma settled_update:
  assumes "settled t b e" "t \<le> now" "map_of (brCache b) k = Some v" "v = BoardFetching \<or> v = BoardWaiting"
    and "brCache b' = AList.update k w (brCache b)" "w = BoardFetching \<or> (\<exists>x. w = BoardDone (now + 10 * second) x)"
  shows "settled now b' e"
  using assms unfolding settled_def
  by (cases "snd e = k") (auto simp: update_conv' split: option.splits board_entry.splits)

lemma board_run_inv: "board_run b sent t \<Longrightarrow> reader_inv b sent t"
proof (induction rule: board_run.induct)
  case (new t)
  then show ?case by (simp add: reader_inv_def newBoardReader_def fetching_def board_spaced_def)
next
  case (read b sent t now target r b')
  note p = board_prune_inv [OF read.IH read.hyps(2)]
  show ?case
  proof (cases "map_of (brCache (board_prune now b)) target")
    case None
    let ?b = "(board_prune now b)\<lparr>brCache := (target, BoardWaiting) # brCache (board_prune now b)\<rparr>"
    have "settled now ?b e" if "settled now (board_prune now b) e" for e
      using that None by (auto simp: settled_def split: option.splits)
    then have "reader_inv ?b sent now" if "length (brCache (board_prune now b)) < 64"
      using p None that by (auto simp: reader_inv_def fetching_def map_of_eq_None_iff)
    then show ?thesis using read.hyps(3) None p by (auto simp: board_read_def Let_def split: if_splits)
  next
    case (Some e)
    then show ?thesis using read.hyps(3) p by (auto simp: board_read_def Let_def)
  qed
next
  case (slot b sent t now target b')
  then have s: "map_of (brCache b) target = Some BoardWaiting" "brSlots b < 4"
    "b' = b\<lparr>brCache := AList.update target BoardFetching (brCache b), brSlots := Suc (brSlots b)\<rparr>"
    by (auto simp: board_slot_def split: if_splits)
  have old: "fst e + 10 * second \<le> now" if "e \<in> set sent" "snd e = target" for e
    using slot s(1) that by (force simp: reader_inv_def settled_def)
  have "settled now b' e" if "e \<in> set sent" for e
    by (rule settled_update [where w = BoardFetching]) (use slot s that in \<open>auto simp: reader_inv_def\<close>)
  moreover have "settled now b' (now, target)" by (simp add: settled_def s(3) update_conv')
  moreover have "fetching b' = Suc (fetching b)"
    using filter_update [OF _ s(1), of "\<lambda>v. v = BoardFetching" BoardFetching] slot.IH s(3) by (simp add: reader_inv_def fetching_def)
  moreover have "board_spaced ((now, target) # sent)" using slot.IH old by (auto simp: reader_inv_def board_spaced_def)
  ultimately show ?case using slot.IH s by (auto simp: reader_inv_def update_same_keys update_same_length)
next
  case (finish b sent t now result target b')
  obtain v x where s: "map_of (brCache b) target = Some v" "v = BoardFetching \<or> v = BoardWaiting"
    "brCache b' = AList.update target (BoardDone (now + 10 * second) x) (brCache b)"
    "brSlots b' = brSlots b - (if v = BoardFetching then 1 else 0)"
    using finish.hyps(3) by (auto simp: board_finish_def split: option.splits board_entry.splits)
  have "settled now b' e" if "e \<in> set sent" for e
    by (rule settled_update [where w = "BoardDone (now + 10 * second) x"]) (use finish s that in \<open>auto simp: reader_inv_def\<close>)
  moreover have "fetching b' + (if v = BoardFetching then 1 else 0) = fetching b"
    using filter_update [OF _ s(1), of "\<lambda>v. v = BoardFetching" "BoardDone (now + 10 * second) x"] finish.IH s(3)
    by (simp add: reader_inv_def fetching_def)
  ultimately show ?case using finish.IH s by (auto simp: reader_inv_def update_same_keys update_same_length split: if_splits)
qed

text \<open>
  C25.  How often boards are asked.  However reads, requests and their ends follow each other, the cache holds at most 64 pages, at most
  four requests are open at a time, and two requests for the same page are at least ten seconds apart.
\<close>

theorem boards_asked_rarely:
  assumes "board_run b sent t"
  shows "length (brCache b) \<le> 64 \<and> fetching b \<le> 4 \<and>
         sorted_wrt (\<lambda>later earlier. snd later = snd earlier \<longrightarrow> fst earlier + 10 * second \<le> fst later) sent"
  using board_run_inv [OF assms] by (simp add: reader_inv_def board_spaced_def)

lemma boards_asked_rarely_witness:
  "\<exists>b sent. board_run b sent 10000000000 \<and> map snd sent = [''a'', ''a''] \<and> fst (sent ! 1) + 10 * second \<le> fst (sent ! 0)"
proof -
  let ?b1 = "\<lparr>brCache = [(''a'', BoardWaiting)], brSlots = 0\<rparr>" and ?b2 = "\<lparr>brCache = [(''a'', BoardFetching)], brSlots = 1\<rparr>"
  let ?b3 = "\<lparr>brCache = [(''a'', BoardDone 10000000000 None)], brSlots = 0\<rparr>"
  have "board_run ?b1 [] 0"
    by (rule board_run.read [OF board_run.new, of 0 0 "''a''" BoardStarted])
      (simp_all add: board_read_def board_prune_def newBoardReader_def Let_def)
  then have "board_run ?b2 [(0, ''a'')] 0" by (rule board_run.slot) (simp_all add: board_slot_def)
  then have "board_run ?b3 [(0, ''a'')] 0"
    by (rule board_run.finish [where result = None and target = "''a''"]) (simp_all add: board_finish_def)
  then have "board_run ?b1 [(0, ''a'')] 10000000000"
    by (rule board_run.read [where r = BoardStarted and target = "''a''"])
      (simp_all add: board_read_def board_prune_def board_expired_def Let_def)
  then have r: "board_run ?b2 [(10000000000, ''a''), (0, ''a'')] 10000000000" by (rule board_run.slot) (simp_all add: board_slot_def)
  from boards_asked_rarely [OF this] have "0 + 10 * second \<le> (10000000000 :: int)" by simp
  then show ?thesis using r by (intro exI [of _ ?b2] exI [of _ "[(10000000000, ''a''), (0, ''a'')]"]) simp
qed

end
